(* ===== verification/Prelude.thy ===== *)
theory Prelude
  imports Main "HOL-Library.Word" "HOL-Library.Sublist" "HOL-Library.Multiset"
begin

text \<open>
  Shared vocabulary of the development: the types that stand for Go's scalar types, the
  collections of simplification rules the component theories extend, and the generic lemmas
  on lists, options and words that more than one component uses.

  Times are nanoseconds since Go's zero time (January 1, year 1, UTC), so that
  \<^verbatim>\<open>time.Time{}\<close> is the number 0; durations are nanoseconds. Both are unbounded
  integers here: the code adds configured durations, each below a day, to a wall clock.
  Strings are byte lists, as Go strings are.
\<close>

type_synonym nanos = int
type_synonym duration = int
type_synonym uint64 = "64 word"
type_synonym int32 = "32 word"

definition zero_time :: nanos where
  "zero_time = 0"

definition second :: duration where
  "second = 1000000000"

definition millisecond :: duration where
  "millisecond = 1000000"

named_theorems op_defs \<open>definitions of the operations of a component\<close>
named_theorems inv_defs \<open>definitions of well-formedness invariants\<close>

subsection \<open>Runs of a transition system\<close>

inductive reachable_by :: "('s \<Rightarrow> 's \<Rightarrow> bool) \<Rightarrow> 's \<Rightarrow> 's \<Rightarrow> bool" for step s0 where
  reach_refl: "reachable_by step s0 s0"
| reach_step: "reachable_by step s0 s \<Longrightarrow> step s t \<Longrightarrow> reachable_by step s0 t"

lemma reachable_by_trans:
  assumes "reachable_by step t u" and "reachable_by step s t"
  shows "reachable_by step s u"
  using assms by (induction rule: reachable_by.induct) (auto intro: reachable_by.intros)

lemma reachable_by_single: "step s t \<Longrightarrow> reachable_by step s t"
  by (auto intro: reachable_by.intros)

lemma reachable_by_Cons:
  assumes "step s t" and "reachable_by step t u"
  shows "reachable_by step s u"
  using assms(2) reachable_by_single [of step, OF assms(1)] by (rule reachable_by_trans)

text \<open>The contract between a transition system and a safety proof about it.\<close>

locale invariant_system =
  fixes step :: "'s \<Rightarrow> 's \<Rightarrow> bool"
    and init :: "'s \<Rightarrow> bool"
    and inv :: "'s \<Rightarrow> bool"
  assumes init_inv: "init s \<Longrightarrow> inv s"
    and step_inv: "step s t \<Longrightarrow> inv s \<Longrightarrow> inv t"
begin

lemma reachable_inv:
  assumes "reachable_by step s0 s" and "init s0"
  shows "inv s"
  using assms by (induction rule: reachable_by.induct) (auto intro: init_inv step_inv)

end

text \<open>The same contract for a deterministic machine driven by a list of events.\<close>

locale event_machine =
  fixes exec :: "'s \<Rightarrow> 'e \<Rightarrow> 's"
    and inv :: "'s \<Rightarrow> bool"
  assumes exec_inv: "inv s \<Longrightarrow> inv (exec s e)"
begin

lemma run_inv: "inv s \<Longrightarrow> inv (foldl exec s es)"
  by (induction es arbitrary: s) (auto intro: exec_inv)

end

subsection \<open>Lists\<close>

lemma filter_remove1_in:
  "P x \<Longrightarrow> x \<in> set xs \<Longrightarrow> Suc (length (filter P (remove1 x xs))) = length (filter P xs)"
  by (induction xs) auto

lemma filter_remove1_out: "\<not> P x \<Longrightarrow> filter P (remove1 x xs) = filter P xs"
  by (induction xs) auto

lemma set_remove1_subsetD: "x \<in> set (remove1 y xs) \<Longrightarrow> x \<in> set xs"
  using set_remove1_subset by fastforce

subsection \<open>Machine words\<close>

lemma unat_Suc_bound:
  fixes x :: uint64
  assumes "unat x < 2 ^ 64 - 1"
  shows "unat (x + 1) = Suc (unat x)"
  using assms by (simp add: unat_word_ariths)

lemma word_Suc_nonzero:
  fixes x :: uint64
  assumes "unat x < 2 ^ 64 - 1"
  shows "x + 1 \<noteq> 0"
proof
  assume "x + 1 = 0"
  then have "unat (x + 1) = 0" by simp
  with unat_Suc_bound [OF assms] show False by simp
qed

lemma word_Suc_neq: "(x :: uint64) + 1 \<noteq> x"
  by simp

lemma sint_of_nat32:
  assumes "n < 2 ^ 31"
  shows "sint (of_nat n :: int32) = int n"
proof -
  have "sint (of_nat n :: int32) = signed_take_bit 31 (int n)"
    by (simp add: sint_uint unsigned_of_nat signed_take_bit_take_bit of_nat_take_bit)
  also have "\<dots> = int n"
    using assms by (intro signed_take_bit_int_eq_self) auto
  finally show ?thesis .
qed

text \<open>The contract of a self-delimiting encoding: a reader finds the end of a value, whatever
  follows it.\<close>

locale prefix_code =
  fixes enc :: "'a \<Rightarrow> 'b list"
  assumes enc_prefix: "enc a @ r = enc b @ r' \<Longrightarrow> a = b \<and> r = r'"
begin

lemma enc_inj: "enc a = enc b \<Longrightarrow> a = b"
  using enc_prefix [of a "[]" b "[]"] by simp

lemma enc_list_prefix:
  "length as = length bs \<Longrightarrow> concat (map enc as) @ r = concat (map enc bs) @ r' \<Longrightarrow> as = bs \<and> r = r'"
proof (induction as bs rule: list_induct2)
  case (Cons a as b bs)
  then show ?case using enc_prefix [of a "concat (map enc as) @ r" b] by auto
qed simp

end

end
