(* ===== verification/Circuit.thy ===== *)
theory Circuit
  imports Prelude
begin

text \<open>
  The per-backend circuit breaker of \<^verbatim>\<open>src/internal/upstream/circuit.go\<close>.

  A \<open>circuit\<close> record holds the fields of the Go struct. The two atomics
  (\<open>closedEpoch\<close>, \<open>fails\<close>) keep their width, because the generation counter and
  the failure counter wrap. The clock seam \<^verbatim>\<open>now\<close> becomes an argument of each
  operation that reads it. The transition hook is a flag that says whether one is installed
  and the list of states it was called with, newest first.

  Operations run under \<^verbatim>\<open>mu\<close> apart from one atomic load before it, so an
  operation is one step here. \<open>openLocked_stores\<close> and \<open>closeLocked_stores\<close> break
  the two transitions into their individual stores, for the statement about what the
  lock-free readers can see in between.
\<close>

subsection \<open>State\<close>

datatype BackendState =
    StateAvailable
  | StateCircuitOpen
  | StateCircuitHalfOpen
  | StateHealthUnhealthy
  | StateAtCapacity

datatype circuitPhase = phaseClosed | phaseOpen | phaseHalfOpen

record circuit =
  closedEpoch :: uint64
  fails :: int32
  phase :: circuitPhase
  epoch :: uint64
  openUntil :: nanos
  halfOpenUntil :: nanos
  probesInFlight :: int
  maxFails :: int
  failTimeout :: duration
  maxProbes :: int
  onTransition :: bool
  transitionLog :: "BackendState list"

text \<open>The token a request carries from selection to result.\<close>

record admission =
  adm_epoch :: uint64
  adm_probe :: bool

definition no_admission :: admission where
  "no_admission = \<lparr>adm_epoch = 0, adm_probe = False\<rparr>"

definition admission_ok :: "admission \<Rightarrow> bool" where
  "admission_ok a \<longleftrightarrow> adm_epoch a \<noteq> 0"

subsection \<open>Operations\<close>

definition setTransitionHook :: "bool \<Rightarrow> circuit \<Rightarrow> circuit" where
  "setTransitionHook h c = c\<lparr>onTransition := h\<rparr>"

definition transitioned :: "BackendState \<Rightarrow> circuit \<Rightarrow> circuit" where
  "transitioned to c =
     (if onTransition c then c\<lparr>transitionLog := to # transitionLog c\<rparr> else c)"

definition normMaxFails :: "int \<Rightarrow> int" where
  "normMaxFails n = (if n < 1 then 1 else n)"

definition normFailTimeout :: "duration \<Rightarrow> duration" where
  "normFailTimeout d = (if d \<le> 0 then 10 * second else d)"

definition newCircuit :: "int \<Rightarrow> duration \<Rightarrow> int \<Rightarrow> circuit" where
  "newCircuit mf ft mp =
     \<lparr>closedEpoch = 1, fails = 0, phase = phaseClosed, epoch = 1,
      openUntil = zero_time, halfOpenUntil = zero_time, probesInFlight = 0,
      maxFails = normMaxFails mf, failTimeout = normFailTimeout ft, maxProbes = mp,
      onTransition = False, transitionLog = []\<rparr>"

definition setLimits :: "int \<Rightarrow> duration \<Rightarrow> int \<Rightarrow> circuit \<Rightarrow> circuit" where
  "setLimits mf ft mp c =
     c\<lparr>maxFails := normMaxFails mf, failTimeout := normFailTimeout ft, maxProbes := mp\<rparr>"

definition releaseProbeLocked :: "circuit \<Rightarrow> circuit" where
  "releaseProbeLocked c =
     (if probesInFlight c > 0 then c\<lparr>probesInFlight := probesInFlight c - 1\<rparr> else c)"

definition openLocked :: "nanos \<Rightarrow> circuit \<Rightarrow> circuit" where
  "openLocked now c =
     transitioned StateCircuitOpen
       (c\<lparr>closedEpoch := 0, phase := phaseOpen, openUntil := now + failTimeout c,
          probesInFlight := 0, fails := 0, epoch := epoch c + 1\<rparr>)"

definition closeLocked :: "circuit \<Rightarrow> circuit" where
  "closeLocked c =
     transitioned StateAvailable
       (c\<lparr>phase := phaseClosed, probesInFlight := 0, openUntil := zero_time,
          halfOpenUntil := zero_time, fails := 0, epoch := epoch c + 1,
          closedEpoch := epoch c + 1\<rparr>)"

text \<open>The same two transitions as the sequence of their stores, in program order.\<close>

definition openLocked_stores :: "nanos \<Rightarrow> (circuit \<Rightarrow> circuit) list" where
  "openLocked_stores now =
     [\<lambda>c. c\<lparr>closedEpoch := 0\<rparr>,
      \<lambda>c. c\<lparr>phase := phaseOpen\<rparr>,
      \<lambda>c. c\<lparr>openUntil := now + failTimeout c\<rparr>,
      \<lambda>c. c\<lparr>probesInFlight := 0\<rparr>,
      \<lambda>c. c\<lparr>fails := 0\<rparr>,
      \<lambda>c. c\<lparr>epoch := epoch c + 1\<rparr>,
      transitioned StateCircuitOpen]"

definition closeLocked_stores :: "(circuit \<Rightarrow> circuit) list" where
  "closeLocked_stores =
     [\<lambda>c. c\<lparr>phase := phaseClosed\<rparr>,
      \<lambda>c. c\<lparr>probesInFlight := 0\<rparr>,
      \<lambda>c. c\<lparr>openUntil := zero_time\<rparr>,
      \<lambda>c. c\<lparr>halfOpenUntil := zero_time\<rparr>,
      \<lambda>c. c\<lparr>fails := 0\<rparr>,
      \<lambda>c. c\<lparr>epoch := epoch c + 1\<rparr>,
      \<lambda>c. c\<lparr>closedEpoch := epoch c\<rparr>,
      transitioned StateAvailable]"

definition stores_upto :: "nat \<Rightarrow> (circuit \<Rightarrow> circuit) list \<Rightarrow> circuit \<Rightarrow> circuit" where
  "stores_upto k fs c = foldl (\<lambda>c f. f c) c (take k fs)"

definition eligible :: "nanos \<Rightarrow> circuit \<Rightarrow> bool" where
  "eligible now c =
     (if closedEpoch c \<noteq> 0 then True
      else case phase c of
             phaseClosed \<Rightarrow> True
           | phaseOpen \<Rightarrow> \<not> now < openUntil c
           | phaseHalfOpen \<Rightarrow> maxProbes c \<le> 0 \<or> probesInFlight c < maxProbes c)"

definition circuit_admit :: "nanos \<Rightarrow> circuit \<Rightarrow> admission \<times> circuit" where
  "circuit_admit now c =
     (if closedEpoch c \<noteq> 0 then (\<lparr>adm_epoch = closedEpoch c, adm_probe = False\<rparr>, c)
      else case phase c of
             phaseClosed \<Rightarrow> (\<lparr>adm_epoch = epoch c, adm_probe = False\<rparr>, c)
           | phaseOpen \<Rightarrow>
               (if now < openUntil c then (no_admission, c)
                else (\<lparr>adm_epoch = epoch c, adm_probe = True\<rparr>,
                      transitioned StateCircuitHalfOpen
                        (c\<lparr>phase := phaseHalfOpen, probesInFlight := 1,
                           halfOpenUntil := now + failTimeout c\<rparr>)))
           | phaseHalfOpen \<Rightarrow>
               (if \<not> now < halfOpenUntil c then (no_admission, openLocked now c)
                else if maxProbes c > 0 \<and> probesInFlight c \<ge> maxProbes c
                     then (no_admission, c)
                else (\<lparr>adm_epoch = epoch c, adm_probe = True\<rparr>,
                      c\<lparr>probesInFlight := probesInFlight c + 1\<rparr>)))"

definition circuit_success :: "admission \<Rightarrow> circuit \<Rightarrow> bool \<times> circuit" where
  "circuit_success a c =
     (if \<not> admission_ok a then (False, c)
      else if \<not> adm_probe a \<and> closedEpoch c = adm_epoch a \<and> fails c = 0 then (False, c)
      else if adm_epoch a \<noteq> epoch c
           then (False, if adm_probe a then releaseProbeLocked c else c)
      else if adm_probe a then (True, closeLocked c)
      else (False, c\<lparr>fails := 0\<rparr>))"

definition circuit_failure :: "nanos \<Rightarrow> admission \<Rightarrow> circuit \<Rightarrow> bool \<times> circuit" where
  "circuit_failure now a c =
     (if \<not> admission_ok a then (False, c)
      else if adm_epoch a \<noteq> epoch c
           then (False, if adm_probe a then releaseProbeLocked c else c)
      else if adm_probe a then (True, openLocked now c)
      else if phase c \<noteq> phaseClosed then (False, c)
      else if sint (fails c + 1) < maxFails c then (False, c\<lparr>fails := fails c + 1\<rparr>)
      else (True, openLocked now (c\<lparr>fails := fails c + 1\<rparr>)))"

definition releaseProbe :: "admission \<Rightarrow> circuit \<Rightarrow> circuit" where
  "releaseProbe a c =
     (if \<not> admission_ok a \<or> \<not> adm_probe a then c
      else if adm_epoch a = epoch c then releaseProbeLocked c
      else c)"

definition forceClose :: "circuit \<Rightarrow> bool \<times> circuit" where
  "forceClose c =
     (if phase c = phaseClosed \<and> fails c = 0 then (False, c) else (True, closeLocked c))"

definition circuit_state :: "nanos \<Rightarrow> circuit \<Rightarrow> BackendState" where
  "circuit_state now c =
     (if closedEpoch c \<noteq> 0 then StateAvailable
      else case phase c of
             phaseClosed \<Rightarrow> StateAvailable
           | phaseOpen \<Rightarrow>
               (if \<not> now < openUntil c then StateCircuitHalfOpen else StateCircuitOpen)
           | phaseHalfOpen \<Rightarrow> StateCircuitHalfOpen)"

record CircuitStatus =
  st_State :: BackendState
  st_OpenUntil :: nanos
  st_ProbesRemaining :: int
  st_Fails :: int
  st_MaxFails :: int
  st_FailTimeout :: duration

definition circuit_status :: "nanos \<Rightarrow> circuit \<Rightarrow> CircuitStatus" where
  "circuit_status now c =
     (let base = \<lparr>st_State = StateAvailable, st_OpenUntil = zero_time,
                  st_ProbesRemaining = 0, st_Fails = sint (fails c),
                  st_MaxFails = maxFails c, st_FailTimeout = failTimeout c\<rparr> in
      if phase c = phaseClosed then base
      else if phase c = phaseOpen \<and> now < openUntil c
           then base\<lparr>st_State := StateCircuitOpen, st_OpenUntil := openUntil c\<rparr>
      else base\<lparr>st_State := StateCircuitHalfOpen,
                st_ProbesRemaining :=
                  (if maxProbes c - probesInFlight c > 0
                   then maxProbes c - probesInFlight c else 0)\<rparr>)"

lemmas circuit_locked_defs =
  openLocked_def closeLocked_def releaseProbeLocked_def transitioned_def

lemmas circuit_op_defs =
  eligible_def circuit_admit_def circuit_success_def circuit_failure_def releaseProbe_def
  forceClose_def setLimits_def circuit_locked_defs admission_ok_def no_admission_def

subsection \<open>The invariant of a circuit between operations\<close>

definition circuit_inv :: "circuit \<Rightarrow> bool" where
  "circuit_inv c \<longleftrightarrow>
     epoch c \<noteq> 0 \<and>
     closedEpoch c = (if phase c = phaseClosed then epoch c else 0) \<and>
     1 \<le> maxFails c \<and> 0 < failTimeout c \<and> 0 \<le> probesInFlight c \<and>
     (phase c \<noteq> phaseHalfOpen \<longrightarrow> probesInFlight c = 0) \<and>
     (phase c \<noteq> phaseClosed \<longrightarrow> fails c = 0)"

definition epoch_room :: "circuit \<Rightarrow> bool" where
  "epoch_room c \<longleftrightarrow> unat (epoch c) < 2 ^ 64 - 1"

lemma epoch_room_Suc: "epoch_room c \<Longrightarrow> epoch c + 1 \<noteq> 0"
  unfolding epoch_room_def by (rule word_Suc_nonzero)

lemma newCircuit_inv: "circuit_inv (newCircuit mf ft mp)"
  by (simp add: circuit_inv_def newCircuit_def normMaxFails_def normFailTimeout_def second_def)

lemma openLocked_inv: "circuit_inv c \<Longrightarrow> epoch_room c \<Longrightarrow> circuit_inv (openLocked now c)"
  by (auto simp: circuit_inv_def circuit_locked_defs dest: epoch_room_Suc)

lemma closeLocked_inv: "circuit_inv c \<Longrightarrow> epoch_room c \<Longrightarrow> circuit_inv (closeLocked c)"
  by (auto simp: circuit_inv_def circuit_locked_defs dest: epoch_room_Suc)

lemma releaseProbeLocked_inv: "circuit_inv c \<Longrightarrow> circuit_inv (releaseProbeLocked c)"
  by (auto simp: circuit_inv_def releaseProbeLocked_def)

lemma setLimits_inv: "circuit_inv c \<Longrightarrow> circuit_inv (setLimits mf ft mp c)"
  by (simp add: circuit_inv_def setLimits_def normMaxFails_def normFailTimeout_def second_def)

lemma setTransitionHook_inv: "circuit_inv c \<Longrightarrow> circuit_inv (setTransitionHook h c)"
  by (simp add: circuit_inv_def setTransitionHook_def)

lemma circuit_admit_inv:
  assumes "circuit_inv c" and "epoch_room c"
  shows "circuit_inv (snd (circuit_admit now c))"
proof (cases "phase c = phaseHalfOpen \<and> \<not> now < halfOpenUntil c")
  case True
  then have "snd (circuit_admit now c) = openLocked now c"
    using assms(1) by (auto simp: circuit_admit_def circuit_inv_def)
  with assms show ?thesis by (simp add: openLocked_inv)
next
  case False
  with assms(1) show ?thesis
    by (auto simp: circuit_admit_def circuit_inv_def transitioned_def split: circuitPhase.splits)
qed

lemma circuit_success_inv:
  "circuit_inv c \<Longrightarrow> epoch_room c \<Longrightarrow> circuit_inv (snd (circuit_success a c))"
  by (auto simp: circuit_success_def releaseProbeLocked_inv closeLocked_inv)
     (auto simp: circuit_inv_def)

lemma circuit_failure_inv:
  assumes "circuit_inv c" and "epoch_room c"
  shows "circuit_inv (snd (circuit_failure now a c))"
proof -
  have bump: "circuit_inv (c\<lparr>fails := fails c + 1\<rparr>)" if "phase c = phaseClosed"
    using assms(1) that by (simp add: circuit_inv_def)
  have room: "epoch_room (c\<lparr>fails := fails c + 1\<rparr>)"
    using assms(2) by (simp add: epoch_room_def)
  show ?thesis
    using assms bump room
    by (simp add: circuit_failure_def releaseProbeLocked_inv openLocked_inv)
qed

lemma releaseProbe_inv: "circuit_inv c \<Longrightarrow> circuit_inv (releaseProbe a c)"
  by (simp add: releaseProbe_def releaseProbeLocked_inv)

lemma forceClose_inv:
  "circuit_inv c \<Longrightarrow> epoch_room c \<Longrightarrow> circuit_inv (snd (forceClose c))"
  by (simp add: forceClose_def closeLocked_inv)

end
