(* ===== verification/Circuit_Runs.thy ===== *)
theory Circuit_Runs
  imports Circuit
begin

text \<open>
  A circuit together with the requests that are in flight through it: every admission the
  circuit handed out and whose outcome has not been reported yet. The events are the calls
  the request path, the health checker and a reload make, and the passing of time. An
  outcome is reported for an outstanding admission only, and consumes it, which is how
  \<^verbatim>\<open>Pool.MarkSuccess\<close>, \<^verbatim>\<open>Pool.MarkFailure\<close> and \<^verbatim>\<open>Pool.ReleaseProbe\<close>
  use the token of an \<^verbatim>\<open>Attempt\<close>.

  The generation counter is 64 bits wide; facts that need a fresh generation hold for runs of
  fewer than \<open>2 ^ 64 - 2\<close> events.
\<close>

datatype circuit_event =
    Tick nat
  | AdmitEv
  | SuccessEv admission
  | FailureEv admission
  | ReleaseEv admission
  | ForceCloseEv
  | SetLimitsEv int duration int

record csys =
  circ :: circuit
  toks :: "admission list"
  clk :: nanos
  nsteps :: nat

definition csys_init :: "circuit \<Rightarrow> nanos \<Rightarrow> csys" where
  "csys_init c t = \<lparr>circ = c, toks = [], clk = t, nsteps = 0\<rparr>"

fun csys_effect :: "csys \<Rightarrow> circuit_event \<Rightarrow> csys" where
  "csys_effect s (Tick d) = s\<lparr>clk := clk s + int d\<rparr>"
| "csys_effect s AdmitEv =
     (let (a, c) = circuit_admit (clk s) (circ s) in
      s\<lparr>circ := c, toks := (if admission_ok a then a # toks s else toks s)\<rparr>)"
| "csys_effect s (SuccessEv a) =
     (if a \<in> set (toks s)
      then s\<lparr>circ := snd (circuit_success a (circ s)), toks := remove1 a (toks s)\<rparr> else s)"
| "csys_effect s (FailureEv a) =
     (if a \<in> set (toks s)
      then s\<lparr>circ := snd (circuit_failure (clk s) a (circ s)), toks := remove1 a (toks s)\<rparr>
      else s)"
| "csys_effect s (ReleaseEv a) =
     (if a \<in> set (toks s)
      then s\<lparr>circ := releaseProbe a (circ s), toks := remove1 a (toks s)\<rparr> else s)"
| "csys_effect s ForceCloseEv = s\<lparr>circ := snd (forceClose (circ s))\<rparr>"
| "csys_effect s (SetLimitsEv mf ft mp) = s\<lparr>circ := setLimits mf ft mp (circ s)\<rparr>"

definition csys_step :: "csys \<Rightarrow> circuit_event \<Rightarrow> csys" where
  "csys_step s e = (csys_effect s e)\<lparr>nsteps := Suc (nsteps s)\<rparr>"

definition csys_run :: "csys \<Rightarrow> circuit_event list \<Rightarrow> csys" where
  "csys_run s es = foldl csys_step s es"

lemma csys_run_Nil [simp]: "csys_run s [] = s"
  by (simp add: csys_run_def)

lemma csys_run_Cons [simp]: "csys_run s (e # es) = csys_run (csys_step s e) es"
  by (simp add: csys_run_def)

subsection \<open>Generations only grow, and tokens name past generations\<close>

definition token_ok :: "circuit \<Rightarrow> admission \<Rightarrow> bool" where
  "token_ok c a \<longleftrightarrow>
     adm_epoch a \<noteq> 0 \<and> adm_epoch a \<le> epoch c \<and>
     (adm_epoch a = epoch c \<longrightarrow>
        (if adm_probe a then phase c = phaseHalfOpen else phase c = phaseClosed))"

definition csys_inv :: "csys \<Rightarrow> bool" where
  "csys_inv s \<longleftrightarrow>
     (nsteps s < 2 ^ 64 - 2 \<longrightarrow>
        unat (epoch (circ s)) \<le> Suc (nsteps s) \<and> circuit_inv (circ s) \<and>
        list_all (token_ok (circ s)) (toks s))"

lemma epoch_room_le: "unat (epoch c) \<le> Suc n \<Longrightarrow> n < 2 ^ 64 - 2 \<Longrightarrow> epoch_room c"
  by (simp add: epoch_room_def)

text \<open>What an operation may do to the generation and the phase.\<close>

definition gen_step :: "circuit \<Rightarrow> circuit \<Rightarrow> bool" where
  "gen_step c c' \<longleftrightarrow>
     epoch c' = epoch c + 1 \<or>
     (epoch c' = epoch c \<and>
        (phase c' = phase c \<or> phase c = phaseOpen \<and> phase c' = phaseHalfOpen))"

lemma gen_step_openLocked: "gen_step c (openLocked now c)"
  by (simp add: gen_step_def openLocked_def transitioned_def)

lemma gen_step_closeLocked: "gen_step c (closeLocked c)"
  by (simp add: gen_step_def closeLocked_def transitioned_def)

lemma gen_step_releaseProbeLocked: "gen_step c (releaseProbeLocked c)"
  by (simp add: gen_step_def releaseProbeLocked_def)

lemmas gen_step_locked =
  gen_step_openLocked gen_step_closeLocked gen_step_releaseProbeLocked

lemma gen_step_admit: "gen_step c (snd (circuit_admit now c))"
  by (auto simp: circuit_admit_def gen_step_locked split: circuitPhase.splits)
     (auto simp: gen_step_def transitioned_def)

lemma gen_step_success: "gen_step c (snd (circuit_success a c))"
  by (auto simp: circuit_success_def gen_step_locked) (auto simp: gen_step_def)

lemma gen_step_failure: "gen_step c (snd (circuit_failure now a c))"
  by (auto simp: circuit_failure_def gen_step_locked)
     (auto simp: gen_step_def openLocked_def transitioned_def)

lemma gen_step_release: "gen_step c (releaseProbe a c)"
  by (auto simp: releaseProbe_def gen_step_locked) (auto simp: gen_step_def)

lemma gen_step_forceClose: "gen_step c (snd (forceClose c))"
  by (auto simp: forceClose_def gen_step_locked) (auto simp: gen_step_def)

lemma gen_step_setLimits: "gen_step c (setLimits mf ft mp c)"
  by (simp add: gen_step_def setLimits_def)

lemma gen_step_effect: "gen_step (circ s) (circ (csys_effect s e))"
proof (cases e)
  case AdmitEv
  then show ?thesis
    using gen_step_admit [of "circ s" "clk s"] by (simp add: case_prod_unfold Let_def)
qed (auto simp: gen_step_success gen_step_failure gen_step_release gen_step_forceClose
       gen_step_setLimits, simp_all add: gen_step_def)

lemma gen_step_unat:
  "gen_step c c' \<Longrightarrow> epoch_room c \<Longrightarrow> unat (epoch c') \<le> Suc (unat (epoch c))"
  by (auto simp: gen_step_def epoch_room_def unat_Suc_bound)

lemma gen_step_token:
  assumes "gen_step c c'" and "epoch_room c" and "circuit_inv c" and "token_ok c a"
  shows "token_ok c' a"
proof (cases "epoch c' = epoch c")
  case True
  with assms show ?thesis
    by (auto simp: token_ok_def gen_step_def split: if_splits)
next
  case False
  with assms(1) have e: "epoch c' = epoch c + 1" by (simp add: gen_step_def)
  then have "unat (epoch c') = Suc (unat (epoch c))"
    using assms(2) by (simp add: epoch_room_def unat_Suc_bound)
  moreover have "unat (adm_epoch a) \<le> unat (epoch c)" and "adm_epoch a \<noteq> 0"
    using assms(4) by (simp_all add: token_ok_def word_le_nat_alt)
  ultimately show ?thesis
    by (auto simp: token_ok_def word_le_nat_alt)
qed

lemma circuit_admit_token:
  assumes "circuit_inv c" and "admission_ok (fst (circuit_admit now c))"
  shows "token_ok (snd (circuit_admit now c)) (fst (circuit_admit now c))"
  using assms
  by (auto simp: circuit_admit_def circuit_inv_def token_ok_def admission_ok_def
      no_admission_def transitioned_def split: circuitPhase.splits if_splits)

lemma csys_effect_circuit_inv:
  assumes "circuit_inv (circ s)" and "epoch_room (circ s)"
  shows "circuit_inv (circ (csys_effect s e))"
proof (cases e)
  case AdmitEv
  then show ?thesis
    using circuit_admit_inv [OF assms] by (simp add: case_prod_unfold Let_def)
qed (use assms in \<open>simp_all add: circuit_success_inv circuit_failure_inv releaseProbe_inv
       forceClose_inv setLimits_inv\<close>)

lemma csys_effect_toks:
  "a \<in> set (toks (csys_effect s e)) \<Longrightarrow>
     a \<in> set (toks s) \<or>
     (e = AdmitEv \<and> a = fst (circuit_admit (clk s) (circ s)) \<and> admission_ok a)"
  by (cases e) (auto simp: case_prod_unfold Let_def split: if_splits dest: set_remove1_subsetD)

lemma csys_step_inv:
  assumes "csys_inv s"
  shows "csys_inv (csys_step s e)"
  unfolding csys_inv_def
proof (intro impI)
  assume "nsteps (csys_step s e) < 2 ^ 64 - 2"
  then have n: "nsteps s < 2 ^ 64 - 2" by (simp add: csys_step_def)
  then have inv: "circuit_inv (circ s)" "unat (epoch (circ s)) \<le> Suc (nsteps s)"
    and tok: "list_all (token_ok (circ s)) (toks s)"
    using assms by (auto simp: csys_inv_def)
  have room: "epoch_room (circ s)" using inv(2) n by (rule epoch_room_le)
  note g = gen_step_effect [of s e]
  have "token_ok (circ (csys_effect s e)) a" if "a \<in> set (toks (csys_effect s e))" for a
    using csys_effect_toks [OF that]
  proof
    assume "a \<in> set (toks s)"
    with tok have "token_ok (circ s) a" by (simp add: list_all_iff)
    with g room inv(1) show ?thesis by (rule gen_step_token)
  next
    assume new: "e = AdmitEv \<and> a = fst (circuit_admit (clk s) (circ s)) \<and> admission_ok a"
    then show ?thesis
      using circuit_admit_token [OF inv(1), of "clk s"]
      by (auto simp: case_prod_unfold Let_def)
  qed
  moreover have "circuit_inv (circ (csys_effect s e))"
    using inv(1) room by (rule csys_effect_circuit_inv)
  moreover have "unat (epoch (circ (csys_effect s e))) \<le> Suc (Suc (nsteps s))"
    using gen_step_unat [OF g room] inv(2) by simp
  ultimately show
    "unat (epoch (circ (csys_step s e))) \<le> Suc (nsteps (csys_step s e)) \<and>
     circuit_inv (circ (csys_step s e)) \<and>
     list_all (token_ok (circ (csys_step s e))) (toks (csys_step s e))"
    by (simp add: csys_step_def list_all_iff)
qed

interpretation circuit_machine: event_machine csys_step csys_inv
  by unfold_locales (rule csys_step_inv)

lemma csys_init_inv: "csys_inv (csys_init (newCircuit mf ft mp) t)"
  by (simp add: csys_inv_def csys_init_def newCircuit_inv) (simp add: newCircuit_def)

lemma nsteps_run [simp]: "nsteps (csys_run s es) = nsteps s + length es"
  by (induction es arbitrary: s) (simp_all add: csys_step_def)

lemma csys_run_inv: "csys_inv s \<Longrightarrow> csys_inv (csys_run s es)"
  unfolding csys_run_def by (rule circuit_machine.run_inv)

lemma csys_run_facts:
  fixes mf mp :: int and ft t :: int
  assumes "length es < 2 ^ 64 - 2"
  defines "s \<equiv> csys_run (csys_init (newCircuit mf ft mp) t) es"
  shows "circuit_inv (circ s)" and "epoch_room (circ s)"
    and "list_all (token_ok (circ s)) (toks s)"
proof -
  have "nsteps s = length es" by (simp add: s_def csys_init_def)
  with csys_run_inv [OF csys_init_inv, of mf ft mp t es] assms(1)
  have "unat (epoch (circ s)) \<le> Suc (length es)" "circuit_inv (circ s)"
    "list_all (token_ok (circ s)) (toks s)"
    by (simp_all add: csys_inv_def flip: s_def)
  with assms(1) show "circuit_inv (circ s)" "epoch_room (circ s)"
    "list_all (token_ok (circ s)) (toks s)"
    by (auto intro: epoch_room_le)
qed

end
