(* ===== verification/Circuit_Props.thy ===== *)
theory Circuit_Props
  imports Circuit_Runs "HOL-Library.Multiset"
begin

text \<open>
  What the circuit breaker guarantees: the reachable states, the trip threshold, the fate of
  late results, the publication order of its lock-free gate, and the bound on half-open
  probes with the one interleaving that breaks it.
\<close>

subsection \<open>Reachable states\<close>

text \<open>C1: In every run of fewer than 2^64 - 2 events from a new circuit, whatever the
  thresholds and the interleaving of admissions, results, forced closes, reloads and time,
  the gate holds the current generation exactly in the closed phase and is zero otherwise,
  probe slots are held only in the half-open phase, failures are counted only in the closed
  phase, and every outstanding admission belongs to the current generation only if the phase
  that issued it is still the phase of the circuit.\<close>

theorem circuit_reachable_inv:
  assumes "length es < 2 ^ 64 - 2"
  shows "circuit_inv (circ (csys_run (csys_init (newCircuit mf ft mp) t) es)) \<and>
         list_all (token_ok (circ (csys_run (csys_init (newCircuit mf ft mp) t) es)))
           (toks (csys_run (csys_init (newCircuit mf ft mp) t) es))"
  using csys_run_facts [OF assms] by blast

theorem circuit_reachable_inv_witness:
  "circuit_inv (circ (csys_run (csys_init (newCircuit 1 5 1) 0)
      [AdmitEv, FailureEv \<lparr>adm_epoch = 1, adm_probe = False\<rparr>, Tick 5, AdmitEv]))"
  using circuit_reachable_inv
    [of "[AdmitEv, FailureEv \<lparr>adm_epoch = 1, adm_probe = False\<rparr>, Tick 5, AdmitEv]"
      1 5 1 0]
  by simp

subsection \<open>Late results\<close>

text \<open>C2: A result that was admitted under another generation is discarded: it does not
  trip or recover the backend, and the only field it can touch is the probe count, which it
  never raises.\<close>

theorem stale_result_discarded:
  assumes "adm_epoch a \<noteq> epoch c" and "circuit_inv c"
  shows "(\<exists>p \<le> probesInFlight c.
            circuit_success a c = (False, c\<lparr>probesInFlight := p\<rparr>)) \<and>
         (\<exists>p \<le> probesInFlight c.
            circuit_failure now a c = (False, c\<lparr>probesInFlight := p\<rparr>)) \<and>
         releaseProbe a c = c"
proof -
  have same: "c = c\<lparr>probesInFlight := probesInFlight c\<rparr>" by simp
  have rel: "\<exists>p \<le> probesInFlight c. releaseProbeLocked c = c\<lparr>probesInFlight := p\<rparr>"
    by (cases "probesInFlight c > 0")
       (auto simp: releaseProbeLocked_def intro: exI [of _ "probesInFlight c - 1"]
          exI [of _ "probesInFlight c"])
  have id: "\<exists>p \<le> probesInFlight c. c = c\<lparr>probesInFlight := p\<rparr>"
    using same by blast
  show ?thesis
    using assms rel id
    by (auto simp: circuit_success_def circuit_failure_def releaseProbe_def circuit_inv_def
        split: if_splits)
qed

theorem stale_result_discarded_witness:
  "\<exists>p \<le> probesInFlight (newCircuit 3 5 1).
     circuit_failure 9 \<lparr>adm_epoch = 7, adm_probe = True\<rparr> (newCircuit 3 5 1) =
       (False, (newCircuit 3 5 1)\<lparr>probesInFlight := p\<rparr>)"
  using stale_result_discarded
    [of "\<lparr>adm_epoch = 7, adm_probe = True\<rparr>" "newCircuit 3 5 1" 9]
  by (simp add: newCircuit_inv) (simp add: newCircuit_def)

subsection \<open>Tripping\<close>

definition failures_at :: "admission \<Rightarrow> nanos list \<Rightarrow> circuit \<Rightarrow> circuit" where
  "failures_at a ts c = foldl (\<lambda>c t. snd (circuit_failure t a c)) c ts"

lemma failures_at_snoc:
  "failures_at a (ts @ [t]) c = snd (circuit_failure t a (failures_at a ts c))"
  by (simp add: failures_at_def)

lemma failures_below_threshold:
  assumes "phase c = phaseClosed" "fails c = 0" "adm_epoch a = epoch c" "\<not> adm_probe a"
    and "adm_epoch a \<noteq> 0" and "maxFails c < 2 ^ 31"
    and "int (length ts) < maxFails c"
  shows "failures_at a ts c = c\<lparr>fails := of_nat (length ts)\<rparr>"
  using assms(7)
proof (induction ts rule: rev_induct)
  case Nil
  show ?case using assms(2) by (simp add: failures_at_def)
next
  case (snoc t ts)
  then have IH: "failures_at a ts c = c\<lparr>fails := of_nat (length ts)\<rparr>" by simp
  have "sint (of_nat (length ts) + 1 :: int32) = sint (of_nat (Suc (length ts)) :: int32)"
    by (simp add: add.commute)
  also have "\<dots> = int (Suc (length ts))"
    using snoc.prems assms(6) by (intro sint_of_nat32) simp
  finally have "sint (of_nat (length ts) + 1 :: int32) < maxFails c"
    using snoc.prems by simp
  with IH assms(1,3,4,5) show ?case
    by (simp add: failures_at_snoc circuit_failure_def admission_ok_def add.commute)
qed

text \<open>A closed circuit with no failures on record stays closed through fewer than
  max_fails consecutive failures of its generation, counting each, and the max_fails-th one
  opens it until that failure's time plus fail_timeout and starts a new generation
  (for thresholds below 2^31, the range of the 32-bit counter).\<close>

lemma circuit_trips_at_threshold:
  assumes "phase c = phaseClosed" "fails c = 0" "adm_epoch a = epoch c" "\<not> adm_probe a"
    and "adm_epoch a \<noteq> 0" and "1 \<le> maxFails c" and "maxFails c < 2 ^ 31"
    and "int (length ts) = maxFails c - 1"
  shows "(\<forall>us. prefix us ts \<longrightarrow>
            phase (failures_at a us c) = phaseClosed \<and>
            sint (fails (failures_at a us c)) = int (length us)) \<and>
         phase (failures_at a (ts @ [t]) c) = phaseOpen \<and>
         openUntil (failures_at a (ts @ [t]) c) = t + failTimeout c \<and>
         epoch (failures_at a (ts @ [t]) c) = epoch c + 1 \<and>
         closedEpoch (failures_at a (ts @ [t]) c) = 0"
proof (intro conjI allI impI)
  note below = failures_below_threshold [OF assms(1-5) assms(7)]
  fix us assume "prefix us ts"
  then have len: "int (length us) < maxFails c"
    using assms(8) prefix_length_le by fastforce
  then show "phase (failures_at a us c) = phaseClosed"
    using below [OF len] assms(1) by simp
  have "int (length us) < 2 ^ 31" using len assms(7) by linarith
  then have "length us < 2 ^ 31" by simp
  then show "sint (fails (failures_at a us c)) = int (length us)"
    using below [OF len] by (simp add: sint_of_nat32)
next
  have len: "int (length ts) < maxFails c" using assms(8) by simp
  note eq = failures_below_threshold [OF assms(1-5) assms(7) len]
  have "sint (of_nat (length ts) + 1 :: int32) = sint (of_nat (Suc (length ts)) :: int32)"
    by (simp add: add.commute)
  also have "\<dots> = int (Suc (length ts))"
  proof (rule sint_of_nat32)
    have "int (Suc (length ts)) < int (2 ^ 31)" using assms(7,8) by simp
    then show "Suc (length ts) < 2 ^ 31" by (simp only: of_nat_less_iff)
  qed
  finally have at: "\<not> sint (of_nat (length ts) + 1 :: int32) < maxFails c"
    using assms(8) by simp
  have final: "failures_at a (ts @ [t]) c =
      openLocked t (c\<lparr>fails := of_nat (length ts) + 1\<rparr>)"
    using at eq assms(1,3,4,5)
    by (simp add: failures_at_snoc circuit_failure_def admission_ok_def)
  show "phase (failures_at a (ts @ [t]) c) = phaseOpen"
    "openUntil (failures_at a (ts @ [t]) c) = t + failTimeout c"
    "epoch (failures_at a (ts @ [t]) c) = epoch c + 1"
    "closedEpoch (failures_at a (ts @ [t]) c) = 0"
    by (simp_all add: final openLocked_def transitioned_def)
qed

lemma circuit_trips_at_threshold_example:
  "phase (failures_at \<lparr>adm_epoch = 1, adm_probe = False\<rparr> ([10, 20] @ [30])
      (newCircuit 3 5 1)) = phaseOpen \<and>
   openUntil (failures_at \<lparr>adm_epoch = 1, adm_probe = False\<rparr> ([10, 20] @ [30])
      (newCircuit 3 5 1)) = 35"
  using circuit_trips_at_threshold
    [of "newCircuit 3 5 1" "\<lparr>adm_epoch = 1, adm_probe = False\<rparr>" "[10, 20]" 30]
  by (simp add: newCircuit_def normMaxFails_def normFailTimeout_def)

subsection \<open>Half-open probes\<close>

definition count_probes :: "uint64 \<Rightarrow> admission list \<Rightarrow> nat" where
  "count_probes e as = length (filter (\<lambda>a. adm_probe a \<and> adm_epoch a = e) as)"

definition current_probes :: "csys \<Rightarrow> nat" where
  "current_probes s = count_probes (epoch (circ s)) (toks s)"

text \<open>An event that reports no outcome for a probe of a past generation, and that keeps
  the probe allowance.\<close>

fun fresh_event :: "csys \<Rightarrow> circuit_event \<Rightarrow> bool" where
  "fresh_event s (SuccessEv a) \<longleftrightarrow> (adm_probe a \<longrightarrow> adm_epoch a = epoch (circ s))"
| "fresh_event s (FailureEv a) \<longleftrightarrow> (adm_probe a \<longrightarrow> adm_epoch a = epoch (circ s))"
| "fresh_event s (SetLimitsEv mf ft mp) \<longleftrightarrow> mp = maxProbes (circ s)"
| "fresh_event s e \<longleftrightarrow> True"

fun fresh_run :: "csys \<Rightarrow> circuit_event list \<Rightarrow> bool" where
  "fresh_run s [] \<longleftrightarrow> True"
| "fresh_run s (e # es) \<longleftrightarrow> fresh_event s e \<and> fresh_run (csys_step s e) es"

definition probes_inv :: "csys \<Rightarrow> bool" where
  "probes_inv s \<longleftrightarrow>
     int (current_probes s) = probesInFlight (circ s) \<and>
     (0 < maxProbes (circ s) \<longrightarrow> probesInFlight (circ s) \<le> maxProbes (circ s))"

lemma count_probes_remove1:
  "a \<in> set as \<Longrightarrow>
     count_probes e (remove1 a as) =
       (if adm_probe a \<and> adm_epoch a = e then count_probes e as - 1 else count_probes e as)"
  using filter_remove1_in [of "\<lambda>a. adm_probe a \<and> adm_epoch a = e" a as]
    filter_remove1_out [of "\<lambda>a. adm_probe a \<and> adm_epoch a = e" a as]
  by (auto simp: count_probes_def)

lemma count_probes_pos:
  "a \<in> set as \<Longrightarrow> adm_probe a \<Longrightarrow> adm_epoch a = e \<Longrightarrow> 0 < count_probes e as"
  by (auto simp: count_probes_def filter_empty_conv)

lemma count_probes_next_gen:
  assumes "list_all (token_ok c) as" and "epoch_room c"
  shows "count_probes (epoch c + 1) as = 0"
proof -
  have "adm_epoch a \<noteq> epoch c + 1" if "a \<in> set as" for a
  proof -
    have "unat (adm_epoch a) \<le> unat (epoch c)"
      using assms(1) that by (simp add: list_all_iff token_ok_def word_le_nat_alt)
    moreover have "unat (epoch c + 1) = Suc (unat (epoch c))"
      using assms(2) by (simp add: epoch_room_def unat_Suc_bound)
    ultimately show ?thesis by auto
  qed
  then show ?thesis by (auto simp: count_probes_def filter_empty_conv)
qed

lemma list_all_remove1: "list_all P xs \<Longrightarrow> list_all P (remove1 x xs)"
  by (auto simp: list_all_iff dest: set_remove1_subsetD)

lemma probes_inv_admit:
  assumes "circuit_inv (circ s)" "epoch_room (circ s)"
    and "list_all (token_ok (circ s)) (toks s)" "probes_inv s"
  shows "probes_inv (csys_effect s AdmitEv)"
proof -
  note next_gen = count_probes_next_gen [OF assms(3,2)]
  show ?thesis
    using assms(1,4) next_gen
    by (cases "phase (circ s)")
       (auto simp: circuit_admit_def circuit_inv_def probes_inv_def current_probes_def
          count_probes_def admission_ok_def no_admission_def openLocked_def transitioned_def
          Let_def)
qed

text \<open>The two ways an event leaves the probe accounting intact: it starts a generation
  with no slot held, or it leaves generation, slots and allowance alone and consumes no probe.\<close>

lemma probes_inv_next_gen:
  assumes "list_all (token_ok (circ s)) (toks s)" "epoch_room (circ s)"
    and "epoch (circ t) = epoch (circ s) + 1" "probesInFlight (circ t) = 0"
    and "set (toks t) \<subseteq> set (toks s)"
  shows "probes_inv t"
proof -
  have "list_all (token_ok (circ s)) (toks t)"
    using assms(1,5) by (auto simp: list_all_iff)
  from count_probes_next_gen [OF this assms(2)] show ?thesis
    using assms(3,4) by (simp add: probes_inv_def current_probes_def)
qed

lemma probes_inv_same_gen:
  assumes "probes_inv s" "a \<in> set (toks s)" "\<not> adm_probe a"
    and "epoch c' = epoch (circ s)" "probesInFlight c' = probesInFlight (circ s)"
    and "maxProbes c' = maxProbes (circ s)"
  shows "probes_inv (s\<lparr>circ := c', toks := remove1 a (toks s)\<rparr>)"
  using assms by (simp add: probes_inv_def current_probes_def count_probes_remove1)

lemma circuit_success_fresh:
  assumes "adm_epoch a \<noteq> 0" "adm_probe a \<longrightarrow> adm_epoch a = epoch c"
  shows "(adm_probe a \<and> snd (circuit_success a c) = closeLocked c) \<or>
         (\<not> adm_probe a \<and> snd (circuit_success a c) \<in> {c, c\<lparr>fails := 0\<rparr>})"
  using assms by (cases "adm_probe a") (simp_all add: circuit_success_def admission_ok_def)

lemma circuit_failure_fresh:
  assumes "adm_epoch a \<noteq> 0" "adm_probe a \<longrightarrow> adm_epoch a = epoch c"
  shows "(\<exists>n. snd (circuit_failure now a c) = openLocked now (c\<lparr>fails := n\<rparr>)) \<or>
         (\<not> adm_probe a \<and> (\<exists>n. snd (circuit_failure now a c) = c\<lparr>fails := n\<rparr>))"
proof -
  have c: "c = c\<lparr>fails := fails c\<rparr>" by simp
  show ?thesis
  proof (cases "adm_probe a")
    case True
    then have "snd (circuit_failure now a c) = openLocked now c"
      using assms by (simp add: circuit_failure_def admission_ok_def)
    with c show ?thesis by metis
  next
    case False
    then have "snd (circuit_failure now a c) \<in> {c, c\<lparr>fails := fails c + 1\<rparr>,
        openLocked now (c\<lparr>fails := fails c + 1\<rparr>)}"
      by (simp add: circuit_failure_def)
    with c False show ?thesis by (elim insertE emptyE) metis+
  qed
qed

lemma probes_inv_success:
  assumes "epoch_room (circ s)" "list_all (token_ok (circ s)) (toks s)"
    and "probes_inv s" "fresh_event s (SuccessEv a)"
  shows "probes_inv (csys_effect s (SuccessEv a))"
proof (cases "a \<in> set (toks s)")
  case True
  then have nz: "adm_epoch a \<noteq> 0" using assms(2) by (auto simp: list_all_iff token_ok_def)
  have fr: "adm_probe a \<longrightarrow> adm_epoch a = epoch (circ s)" using assms(4) by simp
  from circuit_success_fresh [OF nz fr] show ?thesis
  proof (elim disjE conjE)
    assume "snd (circuit_success a (circ s)) = closeLocked (circ s)"
    with True show ?thesis
      by (intro probes_inv_next_gen [OF assms(2,1)])
         (auto simp: closeLocked_def transitioned_def dest: set_remove1_subsetD)
  next
    assume "\<not> adm_probe a" "snd (circuit_success a (circ s)) \<in> {circ s, circ s\<lparr>fails := 0\<rparr>}"
    with True assms(3) show ?thesis
      by (auto intro!: probes_inv_same_gen)
  qed
qed (use assms(3) in simp)

lemma probes_inv_failure:
  assumes "epoch_room (circ s)" "list_all (token_ok (circ s)) (toks s)"
    and "probes_inv s" "fresh_event s (FailureEv a)"
  shows "probes_inv (csys_effect s (FailureEv a))"
proof (cases "a \<in> set (toks s)")
  case True
  then have nz: "adm_epoch a \<noteq> 0" using assms(2) by (auto simp: list_all_iff token_ok_def)
  have fr: "adm_probe a \<longrightarrow> adm_epoch a = epoch (circ s)" using assms(4) by simp
  from circuit_failure_fresh [OF nz fr, of "clk s"] show ?thesis
  proof (elim disjE conjE exE)
    fix n assume "snd (circuit_failure (clk s) a (circ s)) =
        openLocked (clk s) (circ s\<lparr>fails := n\<rparr>)"
    with True show ?thesis
      by (intro probes_inv_next_gen [OF assms(2,1)])
         (auto simp: openLocked_def transitioned_def dest: set_remove1_subsetD)
  next
    fix n assume "\<not> adm_probe a"
      "snd (circuit_failure (clk s) a (circ s)) = circ s\<lparr>fails := n\<rparr>"
    with True assms(3) show ?thesis
      by (auto intro!: probes_inv_same_gen)
  qed
qed (use assms(3) in simp)

lemma probes_inv_release:
  assumes "circuit_inv (circ s)" "list_all (token_ok (circ s)) (toks s)" "probes_inv s"
  shows "probes_inv (csys_effect s (ReleaseEv a))"
proof (cases "a \<in> set (toks s)")
  case True
  have "adm_epoch a \<noteq> 0"
    using True assms(2) by (auto simp: list_all_iff token_ok_def)
  with True assms(3) show ?thesis
    using count_probes_pos [OF True, of "epoch (circ s)"]
    by (auto simp: releaseProbe_def releaseProbeLocked_def probes_inv_def current_probes_def
        count_probes_remove1 admission_ok_def)
qed (use assms(3) in simp)

lemma probes_inv_forceClose:
  assumes "epoch_room (circ s)" "list_all (token_ok (circ s)) (toks s)" "probes_inv s"
  shows "probes_inv (csys_effect s ForceCloseEv)"
  using assms(3) count_probes_next_gen [OF assms(2,1)]
  by (auto simp: forceClose_def probes_inv_def current_probes_def closeLocked_def
      transitioned_def)

lemma probes_inv_effect:
  assumes "circuit_inv (circ s)" "epoch_room (circ s)"
    and "list_all (token_ok (circ s)) (toks s)" "probes_inv s" "fresh_event s e"
  shows "probes_inv (csys_effect s e)"
proof (cases e)
  case (Tick d)
  with assms(4) show ?thesis by (simp add: probes_inv_def current_probes_def)
next
  case (SetLimitsEv mf ft mp)
  with assms(4,5) show ?thesis
    by (simp add: probes_inv_def current_probes_def setLimits_def)
qed (use assms in \<open>simp_all add: probes_inv_admit probes_inv_success probes_inv_failure
       probes_inv_release probes_inv_forceClose del: csys_effect.simps\<close>)

lemma probes_inv_run:
  assumes "csys_inv s" "probes_inv s" "fresh_run s es" "nsteps s + length es < 2 ^ 64 - 2"
  shows "probes_inv (csys_run s es)"
  using assms
proof (induction es arbitrary: s)
  case (Cons e es)
  have n: "nsteps s < 2 ^ 64 - 2" using Cons.prems(4) by simp
  then have facts: "circuit_inv (circ s)" "list_all (token_ok (circ s)) (toks s)"
    "epoch_room (circ s)"
    using Cons.prems(1) by (auto simp: csys_inv_def intro: epoch_room_le)
  have "probes_inv (csys_effect s e)"
    using facts Cons.prems(2,3) by (intro probes_inv_effect) auto
  then have "probes_inv (csys_step s e)"
    by (simp add: csys_step_def probes_inv_def current_probes_def)
  moreover have "csys_inv (csys_step s e)" using Cons.prems(1) by (rule csys_step_inv)
  ultimately show ?case
    using Cons.IH [of "csys_step s e"] Cons.prems(3,4) by (simp add: csys_step_def)
qed simp

lemma maxProbes_effect: "fresh_event s e \<Longrightarrow> maxProbes (circ (csys_effect s e)) = maxProbes (circ s)"
  by (cases e)
     (auto simp: circuit_admit_def circuit_success_def circuit_failure_def releaseProbe_def
        forceClose_def setLimits_def circuit_locked_defs Let_def case_prod_unfold
        split: circuitPhase.splits)

lemma maxProbes_run: "fresh_run s es \<Longrightarrow> maxProbes (circ (csys_run s es)) = maxProbes (circ s)"
proof (induction es arbitrary: s)
  case (Cons e es)
  then have "maxProbes (circ (csys_run (csys_step s e) es)) = maxProbes (circ (csys_step s e))"
    by simp
  with Cons.prems show ?case by (simp add: csys_step_def maxProbes_effect)
qed simp

text \<open>C3: As long as no outcome is reported for a probe of a past generation and a reload
  keeps the allowance, at most half_open_probes probes of the current generation are
  outstanding at any time, and the circuit's own count of them is exact.\<close>

theorem half_open_probes_bounded:
  assumes "fresh_run (csys_init (newCircuit mf ft mp) t) es"
    and "length es < 2 ^ 64 - 2" and "0 < mp"
  shows "int (current_probes (csys_run (csys_init (newCircuit mf ft mp) t) es)) =
           probesInFlight (circ (csys_run (csys_init (newCircuit mf ft mp) t) es)) \<and>
         int (current_probes (csys_run (csys_init (newCircuit mf ft mp) t) es)) \<le> mp"
proof -
  have "probes_inv (csys_init (newCircuit mf ft mp) t)"
    using assms(3)
    by (simp add: probes_inv_def csys_init_def newCircuit_def current_probes_def
        count_probes_def)
  then have "probes_inv (csys_run (csys_init (newCircuit mf ft mp) t) es)"
    using assms(1,2) by (intro probes_inv_run csys_init_inv) (simp_all add: csys_init_def)
  moreover have "maxProbes (circ (csys_run (csys_init (newCircuit mf ft mp) t) es)) = mp"
    using maxProbes_run [OF assms(1)] by (simp add: csys_init_def newCircuit_def)
  ultimately show ?thesis using assms(3) by (simp add: probes_inv_def)
qed

definition probe_round :: "circuit_event list" where
  "probe_round = [AdmitEv, FailureEv \<lparr>adm_epoch = 1, adm_probe = False\<rparr>, Tick 5,
     AdmitEv, AdmitEv]"

theorem half_open_probes_bounded_witness:
  "current_probes (csys_run (csys_init (newCircuit 1 5 1) 0) probe_round) \<le> 1"
proof -
  have "fresh_run (csys_init (newCircuit 1 5 1) 0) probe_round"
    by (simp add: probe_round_def)
  from half_open_probes_bounded [OF this] show ?thesis by (simp add: probe_round_def)
qed

text \<open>A late result, a success or a failure of a probe admitted under a past generation, and
  the admission of a new request right after it.\<close>

definition late_round :: "bool \<times> admission \<Rightarrow> circuit_event list" where
  "late_round la = [if fst la then SuccessEv (snd la) else FailureEv (snd la), AdmitEv]"

text \<open>A half-open circuit inside its window with every slot taken.\<close>

definition probes_full :: "csys \<Rightarrow> bool" where
  "probes_full s \<longleftrightarrow>
     phase (circ s) = phaseHalfOpen \<and> clk s < halfOpenUntil (circ s) \<and>
     closedEpoch (circ s) = 0 \<and> epoch (circ s) \<noteq> 0 \<and>
     0 < maxProbes (circ s) \<and> probesInFlight (circ s) = maxProbes (circ s)"

lemma late_result_frees_slot:
  assumes "probes_full s" "snd la \<in> set (toks s)" "adm_probe (snd la)" "adm_epoch (snd la) \<noteq> 0"
    and "adm_epoch (snd la) \<noteq> epoch (circ s)"
  shows "circ (csys_run s (late_round la)) = circ s \<and>
         clk (csys_run s (late_round la)) = clk s \<and>
         toks (csys_run s (late_round la)) =
           \<lparr>adm_epoch = epoch (circ s), adm_probe = True\<rparr> # remove1 (snd la) (toks s)"
  using assms
  by (cases "fst la")
     (auto simp: late_round_def csys_step_def probes_full_def circuit_success_def
        circuit_failure_def circuit_admit_def admission_ok_def releaseProbeLocked_def)

lemma late_results_run:
  assumes "probes_full s" "mset (map snd late) \<subseteq># mset (toks s)"
    and "list_all (\<lambda>a. adm_probe a \<and> adm_epoch a \<noteq> 0 \<and> adm_epoch a \<noteq> epoch (circ s)) (map snd late)"
  shows "circ (csys_run s (concat (map late_round late))) = circ s \<and>
         current_probes (csys_run s (concat (map late_round late))) =
           current_probes s + length late"
  using assms
proof (induction late arbitrary: s)
  case (Cons la late)
  let ?s = "csys_run s (late_round la)"
  let ?new = "\<lparr>adm_epoch = epoch (circ s), adm_probe = True\<rparr>"
  have la: "snd la \<in> set (toks s)" "adm_probe (snd la)" "adm_epoch (snd la) \<noteq> 0"
    "adm_epoch (snd la) \<noteq> epoch (circ s)"
    using Cons.prems(2,3) mset_subset_eqD [OF Cons.prems(2), of "snd la"] by auto
  note step = late_result_frees_slot [OF Cons.prems(1) la]
  have "mset (map snd late) \<subseteq># mset (toks s) - {#snd la#}"
    using Cons.prems(2) by (simp add: insert_subset_eq_iff)
  then have "mset (map snd late) \<subseteq># mset (toks ?s)"
    using step by (auto simp: subset_mset.le_iff_add)
  then have "circ (csys_run ?s (concat (map late_round late))) = circ ?s \<and>
      current_probes (csys_run ?s (concat (map late_round late))) = current_probes ?s + length late"
    using Cons.prems(1,3) step by (intro Cons.IH) (auto simp: probes_full_def)
  moreover have "current_probes ?s = Suc (current_probes s)"
    using step la count_probes_remove1 [OF la(1), of "epoch (circ s)"]
    by (simp add: current_probes_def count_probes_def)
  ultimately show ?case using step by (simp add: csys_run_def)
qed simp

text \<open>C4: The bound is lost when probes of a past generation report their outcomes, because a
  late result returns a slot of the generation that is running now. Take any state a circuit
  reaches in which the half-open window is open and all the allowance is taken, and any
  outstanding probes of past generations: if they report one after the other, each a success
  or a failure, and a request asks for admission after each report, every one of those
  requests is admitted as a probe, the circuit's own fields are as before at the end, and the
  number of outstanding probes of the current generation has grown by one for each late
  report.\<close>

theorem late_probe_exceeds_allowance:
  assumes "length es < 2 ^ 64 - 2"
    and "s = csys_run (csys_init (newCircuit mf ft mp) t) es"
    and "phase (circ s) = phaseHalfOpen" "clk s < halfOpenUntil (circ s)"
    and "0 < maxProbes (circ s)" "probesInFlight (circ s) = maxProbes (circ s)"
    and "mset (map snd late) \<subseteq># mset (toks s)"
    and "list_all (\<lambda>a. adm_probe a \<and> adm_epoch a \<noteq> epoch (circ s)) (map snd late)"
  shows "circ (csys_run s (concat (map late_round late))) = circ s \<and>
         current_probes (csys_run s (concat (map late_round late))) =
           current_probes s + length late"
proof (rule late_results_run)
  have facts: "circuit_inv (circ s)" "list_all (token_ok (circ s)) (toks s)"
    using csys_run_facts [OF assms(1)] assms(2) by blast+
  show "probes_full s" using facts(1) assms(3-6) by (simp add: probes_full_def circuit_inv_def)
  show "list_all (\<lambda>a. adm_probe a \<and> adm_epoch a \<noteq> 0 \<and> adm_epoch a \<noteq> epoch (circ s)) (map snd late)"
    using assms(7,8) facts(2) mset_subset_eqD [OF assms(7)]
    by (fastforce simp: list_all_iff token_ok_def)
qed (rule assms(7))

text \<open>A circuit with an allowance of one whose first probe outlives its half-open
  window.\<close>

definition late_probe_run :: "circuit_event list" where
  "late_probe_run =
     [AdmitEv, FailureEv \<lparr>adm_epoch = 1, adm_probe = False\<rparr>, Tick 5, AdmitEv,
      Tick 5, AdmitEv, Tick 5, AdmitEv]"

lemmas circuit_eval =
  csys_init_def newCircuit_def csys_step_def circuit_admit_def circuit_success_def
  circuit_failure_def openLocked_def transitioned_def releaseProbeLocked_def admission_ok_def
  no_admission_def normMaxFails_def normFailTimeout_def zero_time_def

theorem late_probe_exceeds_allowance_witness:
  "maxProbes (circ (csys_run (csys_init (newCircuit 1 5 1) 0) late_probe_run)) = 1 \<and>
   current_probes (csys_run (csys_run (csys_init (newCircuit 1 5 1) 0) late_probe_run)
     (concat (map late_round [(True, \<lparr>adm_epoch = 2, adm_probe = True\<rparr>)]))) = 2"
proof -
  let ?s = "csys_run (csys_init (newCircuit 1 5 1) 0) late_probe_run"
  have s: "phase (circ ?s) = phaseHalfOpen" "clk ?s < halfOpenUntil (circ ?s)"
    "0 < maxProbes (circ ?s)" "probesInFlight (circ ?s) = maxProbes (circ ?s)"
    "mset (map snd [(True, \<lparr>adm_epoch = 2, adm_probe = True\<rparr>)]) \<subseteq># mset (toks ?s)"
    "list_all (\<lambda>a. adm_probe a \<and> adm_epoch a \<noteq> epoch (circ ?s))
       (map snd [(True, \<lparr>adm_epoch = 2, adm_probe = True\<rparr>)])"
    "current_probes ?s = 1" "maxProbes (circ ?s) = 1"
    by (simp_all add: late_probe_run_def circuit_eval current_probes_def count_probes_def)
  from late_probe_exceeds_allowance [OF _ refl s(1-6)] s(7,8) show ?thesis
    by (simp add: late_probe_run_def)
qed

subsection \<open>Recovery\<close>

lemma stale_not_recovery: "adm_epoch a \<noteq> epoch c \<Longrightarrow> \<not> fst (circuit_success a c)"
  by (simp add: circuit_success_def)

lemma stale_not_trip: "adm_epoch a \<noteq> epoch c \<Longrightarrow> \<not> fst (circuit_failure now a c)"
  by (simp add: circuit_failure_def)

text \<open>When the success of a probe closes the circuit, no other admission outstanding at
  that moment can claim the recovery as well, nor trip the new generation: every one of them
  is reported against a generation that is gone.\<close>

lemma recovery_claimed_once:
  assumes "circuit_inv c" and "epoch_room c"
    and "fst (circuit_success a c)" and "token_ok c b"
  shows "phase (snd (circuit_success a c)) = phaseClosed \<and>
         \<not> fst (circuit_success b (snd (circuit_success a c))) \<and>
         \<not> fst (circuit_failure now b (snd (circuit_success a c)))"
proof -
  have eq: "snd (circuit_success a c) = closeLocked c"
    using assms(3) by (auto simp: circuit_success_def split: if_splits)
  have "unat (adm_epoch b) \<le> unat (epoch c)"
    using assms(4) by (simp add: token_ok_def word_le_nat_alt)
  moreover have "unat (epoch c + 1) = Suc (unat (epoch c))"
    using assms(2) by (simp add: epoch_room_def unat_Suc_bound)
  ultimately have stale: "adm_epoch b \<noteq> epoch c + 1" by auto
  have ep: "epoch (closeLocked c) = epoch c + 1" "phase (closeLocked c) = phaseClosed"
    by (simp_all add: closeLocked_def transitioned_def)
  from stale have "adm_epoch b \<noteq> epoch (closeLocked c)" by (simp only: ep not_False_eq_True)
  then show ?thesis
    unfolding eq by (simp add: ep(2) stale_not_recovery stale_not_trip)
qed

definition half_open_pair :: circuit where
  "half_open_pair = (newCircuit 1 5 2)\<lparr>closedEpoch := 0, phase := phaseHalfOpen, epoch := 2,
     halfOpenUntil := 50, probesInFlight := 2\<rparr>"

lemma recovery_claimed_once_example:
  "\<not> fst (circuit_success \<lparr>adm_epoch = 2, adm_probe = True\<rparr>
      (snd (circuit_success \<lparr>adm_epoch = 2, adm_probe = True\<rparr> half_open_pair)))"
proof -
  have "circuit_inv half_open_pair" "epoch_room half_open_pair"
    "fst (circuit_success \<lparr>adm_epoch = 2, adm_probe = True\<rparr> half_open_pair)"
    "token_ok half_open_pair \<lparr>adm_epoch = 2, adm_probe = True\<rparr>"
    by (simp_all add: half_open_pair_def newCircuit_def circuit_inv_def epoch_room_def
        circuit_success_def admission_ok_def token_ok_def normMaxFails_def normFailTimeout_def)
  from recovery_claimed_once [OF this] show ?thesis by simp
qed

subsection \<open>Publication order of the gate\<close>

lemma openLocked_stores_all: "stores_upto 7 (openLocked_stores now) c = openLocked now c"
  by (simp add: stores_upto_def openLocked_stores_def openLocked_def)

lemma closeLocked_stores_all: "stores_upto 8 closeLocked_stores c = closeLocked c"
  by (simp add: stores_upto_def closeLocked_stores_def closeLocked_def)

lemma take_cases_8: "k = 0 \<or> k = 1 \<or> k = 2 \<or> k = 3 \<or> k = 4 \<or> k = 5 \<or> k = 6 \<or> k = 7 \<or> 8 \<le> (k::nat)"
  by arith

text \<open>A lock-free reader that sees a non-zero gate sees a closed circuit, at every store of
  both transitions: opening clears the gate before anything else changes, and closing
  publishes a generation only once its phase, probe count, deadlines and failure count are
  all in place; until then the gate still shows the generation before it.\<close>

lemma gate_conservative_between_stores:
  assumes "circuit_inv c"
  shows "(closedEpoch (stores_upto k (openLocked_stores now) c) = 0 \<or>
            stores_upto k (openLocked_stores now) c = c \<and> phase c = phaseClosed) \<and>
         (closedEpoch (stores_upto k closeLocked_stores c) = 0 \<or>
            phase (stores_upto k closeLocked_stores c) = phaseClosed \<and>
            (closedEpoch (stores_upto k closeLocked_stores c) = epoch c \<or>
             closedEpoch (stores_upto k closeLocked_stores c) = epoch c + 1 \<and>
             epoch (stores_upto k closeLocked_stores c) = epoch c + 1 \<and>
             probesInFlight (stores_upto k closeLocked_stores c) = 0 \<and>
             fails (stores_upto k closeLocked_stores c) = 0))"
  using take_cases_8 [of k] assms
  by (elim disjE)
     (auto simp: stores_upto_def openLocked_stores_def closeLocked_stores_def circuit_inv_def
        transitioned_def split: if_splits)

lemma gate_conservative_between_stores_example:
  "phase (stores_upto 7 closeLocked_stores half_open_pair) = phaseClosed"
proof -
  have inv: "circuit_inv half_open_pair"
    by (simp add: half_open_pair_def newCircuit_def circuit_inv_def normMaxFails_def
        normFailTimeout_def)
  have "closedEpoch (stores_upto 7 closeLocked_stores half_open_pair) \<noteq> 0"
    by (simp add: stores_upto_def closeLocked_stores_def half_open_pair_def newCircuit_def)
  with gate_conservative_between_stores [OF inv, of 7 0] show ?thesis by blast
qed

subsection \<open>Looking, claiming and reporting\<close>

text \<open>Admission never exceeds eligibility: a circuit that admits a request was eligible
  just before, an open circuit refuses without changing anything until its cooldown ends, and
  an eligible circuit refuses only to re-open a half-open window that has expired. The
  operator-facing status and the state agree on the verdict in every case.\<close>

lemma admit_eligible_status:
  assumes "circuit_inv c"
  shows "(admission_ok (fst (circuit_admit now c)) \<longrightarrow> eligible now c) \<and>
         (phase c = phaseOpen \<and> now < openUntil c \<longrightarrow>
            circuit_admit now c = (no_admission, c) \<and> \<not> eligible now c) \<and>
         (eligible now c \<and> \<not> admission_ok (fst (circuit_admit now c)) \<longrightarrow>
            phase c = phaseHalfOpen \<and> halfOpenUntil c \<le> now \<and>
            snd (circuit_admit now c) = openLocked now c) \<and>
         st_State (circuit_status now c) = circuit_state now c"
  using assms
  by (cases "phase c")
     (auto simp: circuit_inv_def eligible_def circuit_admit_def admission_ok_def
        no_admission_def circuit_status_def circuit_state_def Let_def)

lemma admit_eligible_status_example:
  "circuit_admit 3 (openLocked 0 (newCircuit 1 5 1)) =
     (no_admission, openLocked 0 (newCircuit 1 5 1))"
proof -
  have "circuit_inv (openLocked 0 (newCircuit 1 5 1))"
    by (intro openLocked_inv newCircuit_inv) (simp add: epoch_room_def newCircuit_def)
  from admit_eligible_status [OF this, of 3] show ?thesis
    by (simp add: openLocked_def newCircuit_def transitioned_def normFailTimeout_def)
qed

end
