(* ===== verification/Resilience.thy ===== *)
theory Resilience
  imports Prelude
begin

text \<open>
  \<^verbatim>\<open>src/internal/resilience/resilience.go\<close>: the public resilience options of an
  upstream, the checks on them, and their resolution into the policy every consumer reads.
  Each error of \<^verbatim>\<open>check\<close> is a constructor, in the order of the cases of the switch.
\<close>

record Options =
  o_MaxActiveRequests :: int
  o_MaxActivePerBackend :: int
  o_MaxPendingRequests :: int
  o_PendingTimeout :: duration
  o_MaxConnectionsPerBackend :: int
  o_RetryAttempts :: int
  o_RetryDeadline :: duration
  o_RetryBackoffInitial :: duration
  o_RetryBackoffMax :: duration
  o_RetryBudgetPercent :: int

record Policy =
  MaxActiveRequests :: int
  MaxActivePerBackend :: int
  MaxPendingRequests :: int
  PendingTimeout :: duration
  MaxConnectionsPerBackend :: int
  RetryAttempts :: int
  RetryDeadline :: duration
  RetryBackoffInitial :: duration
  RetryBackoffMax :: duration
  RetryBudgetPercent :: int

datatype resilience_error =
    BadMaxActiveRequests
  | BadMaxActivePerBackend
  | BadMaxPendingRequests
  | BadPendingTimeout
  | BadMaxConnectionsPerBackend
  | PendingWithoutActive
  | BadRetryAttempts
  | BadRetryDeadline
  | BadRetryBackoffInitial
  | BadRetryBackoffMax
  | BadRetryBudgetPercent
  | BackoffInitialAboveMax
  | BackoffMaxWithoutInitial
  | BackoffInitialAboveDeadline

definition MaxActiveRequestsCeiling :: int where "MaxActiveRequestsCeiling = 10000000"
definition MaxActivePerBackendCeiling :: int where "MaxActivePerBackendCeiling = 10000000"
definition MaxPendingRequestsCeiling :: int where "MaxPendingRequestsCeiling = 100000"
definition MaxConnectionsCeiling :: int where "MaxConnectionsCeiling = 100000"
definition PendingTimeoutCeiling :: duration where "PendingTimeoutCeiling = 60 * second"
definition RetryAttemptsCeiling :: int where "RetryAttemptsCeiling = 100"
definition RetryDeadlineCeiling :: duration where "RetryDeadlineCeiling = 300 * second"
definition RetryBackoffCeiling :: duration where "RetryBackoffCeiling = 60 * second"
definition RetryBudgetPercentCeiling :: int where "RetryBudgetPercentCeiling = 1000"

definition DefaultRetryBackoffMax :: duration where
  "DefaultRetryBackoffMax = 500 * millisecond"

lemmas ceiling_defs =
  MaxActiveRequestsCeiling_def MaxActivePerBackendCeiling_def MaxPendingRequestsCeiling_def
  MaxConnectionsCeiling_def PendingTimeoutCeiling_def RetryAttemptsCeiling_def
  RetryDeadlineCeiling_def RetryBackoffCeiling_def RetryBudgetPercentCeiling_def
  DefaultRetryBackoffMax_def second_def millisecond_def

definition zero_options :: Options where
  "zero_options =
     \<lparr>o_MaxActiveRequests = 0, o_MaxActivePerBackend = 0, o_MaxPendingRequests = 0,
      o_PendingTimeout = 0, o_MaxConnectionsPerBackend = 0, o_RetryAttempts = 0,
      o_RetryDeadline = 0, o_RetryBackoffInitial = 0, o_RetryBackoffMax = 0,
      o_RetryBudgetPercent = 0\<rparr>"

definition DefaultPolicy :: Policy where
  "DefaultPolicy =
     \<lparr>MaxActiveRequests = 0, MaxActivePerBackend = 0, MaxPendingRequests = 0,
      PendingTimeout = 0, MaxConnectionsPerBackend = 0, RetryAttempts = 0, RetryDeadline = 0,
      RetryBackoffInitial = 0, RetryBackoffMax = 0, RetryBudgetPercent = 0\<rparr>"

definition check_options :: "Options \<Rightarrow> resilience_error option" where
  "check_options o' =
     (if o_MaxActiveRequests o' < 0 \<or> o_MaxActiveRequests o' > MaxActiveRequestsCeiling
      then Some BadMaxActiveRequests
      else if o_MaxActivePerBackend o' < 0 \<or> o_MaxActivePerBackend o' > MaxActivePerBackendCeiling
      then Some BadMaxActivePerBackend
      else if o_MaxPendingRequests o' < 0 \<or> o_MaxPendingRequests o' > MaxPendingRequestsCeiling
      then Some BadMaxPendingRequests
      else if o_PendingTimeout o' < 0 \<or> o_PendingTimeout o' > PendingTimeoutCeiling
      then Some BadPendingTimeout
      else if o_MaxConnectionsPerBackend o' < 0 \<or>
              o_MaxConnectionsPerBackend o' > MaxConnectionsCeiling
      then Some BadMaxConnectionsPerBackend
      else if o_MaxPendingRequests o' > 0 \<and> o_MaxActiveRequests o' = 0
      then Some PendingWithoutActive
      else if o_RetryAttempts o' < 0 \<or> o_RetryAttempts o' > RetryAttemptsCeiling
      then Some BadRetryAttempts
      else if o_RetryDeadline o' < 0 \<or> o_RetryDeadline o' > RetryDeadlineCeiling
      then Some BadRetryDeadline
      else if o_RetryBackoffInitial o' < 0 \<or> o_RetryBackoffInitial o' > RetryBackoffCeiling
      then Some BadRetryBackoffInitial
      else if o_RetryBackoffMax o' < 0 \<or> o_RetryBackoffMax o' > RetryBackoffCeiling
      then Some BadRetryBackoffMax
      else if o_RetryBudgetPercent o' < 0 \<or> o_RetryBudgetPercent o' > RetryBudgetPercentCeiling
      then Some BadRetryBudgetPercent
      else if o_RetryBackoffMax o' > 0 \<and> o_RetryBackoffInitial o' > o_RetryBackoffMax o'
      then Some BackoffInitialAboveMax
      else if o_RetryBackoffMax o' > 0 \<and> o_RetryBackoffInitial o' = 0
      then Some BackoffMaxWithoutInitial
      else if o_RetryDeadline o' > 0 \<and> o_RetryBackoffInitial o' > o_RetryDeadline o'
      then Some BackoffInitialAboveDeadline
      else None)"

definition Resolve :: "Options \<Rightarrow> resilience_error + Policy" where
  "Resolve o' =
     (if o' = zero_options then Inr DefaultPolicy
      else case check_options o' of
             Some e \<Rightarrow> Inl e
           | None \<Rightarrow>
               Inr \<lparr>MaxActiveRequests = o_MaxActiveRequests o',
                    MaxActivePerBackend = o_MaxActivePerBackend o',
                    MaxPendingRequests = o_MaxPendingRequests o',
                    PendingTimeout = o_PendingTimeout o',
                    MaxConnectionsPerBackend = o_MaxConnectionsPerBackend o',
                    RetryAttempts = o_RetryAttempts o',
                    RetryDeadline = o_RetryDeadline o',
                    RetryBackoffInitial = o_RetryBackoffInitial o',
                    RetryBackoffMax =
                      (if o_RetryBackoffInitial o' > 0 \<and> o_RetryBackoffMax o' = 0
                       then DefaultRetryBackoffMax else o_RetryBackoffMax o'),
                    RetryBudgetPercent = o_RetryBudgetPercent o'\<rparr>)"

definition Bounded :: "Policy \<Rightarrow> bool" where
  "Bounded p \<longleftrightarrow> MaxActiveRequests p > 0 \<or> MaxActivePerBackend p > 0"

subsection \<open>What a resolved policy satisfies\<close>

definition policy_wf :: "Policy \<Rightarrow> bool" where
  "policy_wf p \<longleftrightarrow>
     MaxActiveRequests p \<in> {0..MaxActiveRequestsCeiling} \<and>
     MaxActivePerBackend p \<in> {0..MaxActivePerBackendCeiling} \<and>
     MaxPendingRequests p \<in> {0..MaxPendingRequestsCeiling} \<and>
     PendingTimeout p \<in> {0..PendingTimeoutCeiling} \<and>
     MaxConnectionsPerBackend p \<in> {0..MaxConnectionsCeiling} \<and>
     RetryAttempts p \<in> {0..RetryAttemptsCeiling} \<and>
     RetryDeadline p \<in> {0..RetryDeadlineCeiling} \<and>
     RetryBackoffInitial p \<in> {0..RetryBackoffCeiling} \<and>
     RetryBackoffMax p \<in> {0..RetryBackoffCeiling} \<and>
     RetryBudgetPercent p \<in> {0..RetryBudgetPercentCeiling} \<and>
     (0 < MaxPendingRequests p \<longrightarrow> 0 < MaxActiveRequests p) \<and>
     (RetryBackoffMax p = 0 \<longleftrightarrow> RetryBackoffInitial p = 0) \<and>
     (0 < RetryDeadline p \<longrightarrow> RetryBackoffInitial p \<le> RetryDeadline p)"

lemma DefaultPolicy_wf: "policy_wf DefaultPolicy"
  by (simp add: policy_wf_def DefaultPolicy_def ceiling_defs)

lemma check_zero_options: "check_options zero_options = None"
  by (simp add: check_options_def zero_options_def ceiling_defs)

lemma policy_wf_zero: "Resolve zero_options = Inr DefaultPolicy"
  by (simp add: Resolve_def)

lemma Resolve_wf_nonzero:
  assumes "check_options o' = None" and "o' \<noteq> zero_options"
  shows "\<exists>p. Resolve o' = Inr p \<and> policy_wf p"
  using assms
  by (auto simp: Resolve_def policy_wf_def check_options_def ceiling_defs split: if_splits)

text \<open>Resolving public options succeeds exactly when every check passes, the first
  failing check names the error, and a resolved policy has every limit inside its documented
  range, never queues without an admission limit, has a backoff ceiling exactly when it has a
  backoff, and leaves room for one backoff inside its deadline.\<close>

lemma Resolve_sound:
  "(\<forall>e. Resolve o' = Inl e \<longleftrightarrow> check_options o' = Some e) \<and>
   (\<forall>p. Resolve o' = Inr p \<longrightarrow> check_options o' = None \<and> policy_wf p)"
proof (cases "o' = zero_options")
  case True
  then show ?thesis
    by (simp add: policy_wf_zero check_zero_options DefaultPolicy_wf)
next
  case False
  show ?thesis
  proof (cases "check_options o'")
    case None
    with False Resolve_wf_nonzero [of o'] show ?thesis by auto
  next
    case (Some e)
    with False show ?thesis by (auto simp: Resolve_def)
  qed
qed

lemma Resolve_sound_example:
  "Resolve (zero_options\<lparr>o_MaxPendingRequests := 5\<rparr>) = Inl PendingWithoutActive"
  using Resolve_sound [of "zero_options\<lparr>o_MaxPendingRequests := 5\<rparr>"]
  by (simp add: check_options_def zero_options_def ceiling_defs)

end
