(* ===== verification/Admission.thy ===== *)
theory Admission
  imports Resilience
begin

text \<open>
  \<^verbatim>\<open>src/internal/upstream/admission.go\<close>: the admission owner that bounds the logical
  work in flight, with its FIFO of parked requests.

  The \<open>Admission\<close> record holds the atomics (\<open>active\<close>, \<open>pending\<close>), the current
  policy, and what \<^verbatim>\<open>mu\<close> guards: the FIFO of waiters and each waiter's state and
  single-slot channel. A waiter is named by the request that parked it, and a request parks
  at most once, so waiters are numbers.

  A function of this theory is one atomic piece of the code: a section under \<^verbatim>\<open>mu\<close>,
  or a compare-and-swap loop, whose failed rounds have no effect. \<open>Admission_Steps\<close> puts
  the pieces together in the order in which each call executes them, with other requests
  running in between.
\<close>

datatype waiterState = waiterParked | waiterGranted | waiterRetired

record Admission =
  policy :: Policy
  active :: int
  pending :: int
  waiters :: "nat list"
  wstate :: "nat \<Rightarrow> waiterState"
  wch :: "nat \<Rightarrow> bool"

datatype admission_error = ErrOverloaded | ErrRetired | ErrContext

subsection \<open>Sections under the mutex\<close>

definition grantLocked :: "Admission \<Rightarrow> Admission" where
  "grantLocked a =
     (case waiters a of
        [] \<Rightarrow> a
      | w # ws \<Rightarrow>
          a\<lparr>waiters := ws, pending := pending a - 1,
            wstate := (wstate a)(w := waiterGranted), wch := (wch a)(w := True)\<rparr>)"

definition claim :: "int \<Rightarrow> Admission \<Rightarrow> bool \<times> Admission" where
  "claim limit a =
     (if limit > 0 \<and> active a \<ge> limit then (False, a)
      else (True, a\<lparr>active := active a + 1\<rparr>))"

function wakeUpToLimit :: "int \<Rightarrow> Admission \<Rightarrow> Admission" where
  "wakeUpToLimit limit a =
     (if waiters a = [] then a
      else let (ok, a') = claim limit a in
           if \<not> ok then a' else wakeUpToLimit limit (grantLocked a'))"
  by pat_completeness auto
termination
  by (relation "measure (\<lambda>(limit, a). length (waiters a))")
     (auto simp: claim_def grantLocked_def neq_Nil_conv split: if_splits)

declare wakeUpToLimit.simps [simp del]

definition admission_SetPolicy :: "Policy option \<Rightarrow> Admission \<Rightarrow> Admission" where
  "admission_SetPolicy p a =
     (let p' = (case p of None \<Rightarrow> DefaultPolicy | Some q \<Rightarrow> q) in
      wakeUpToLimit (MaxActiveRequests p') (a\<lparr>policy := p'\<rparr>))"

definition NewAdmission :: "Policy option \<Rightarrow> Admission" where
  "NewAdmission p =
     admission_SetPolicy p
       \<lparr>policy = DefaultPolicy, active = 0, pending = 0, waiters = [],
        wstate = (\<lambda>_. waiterParked), wch = (\<lambda>_. False)\<rparr>"

text \<open>The compare-and-swap loop of \<^verbatim>\<open>Acquire\<close>: it ends with a claimed slot, or
  with the decision to park.\<close>

definition acquire_fast :: "int \<Rightarrow> Admission \<Rightarrow> bool \<times> Admission" where
  "acquire_fast limit a =
     (if limit \<le> 0 then (True, a\<lparr>active := active a + 1\<rparr>)
      else if active a \<ge> limit then (False, a)
      else (True, a\<lparr>active := active a + 1\<rparr>))"

datatype park_outcome = ParkAdmitted | ParkOverloaded | ParkQueued

definition park_locked :: "Policy \<Rightarrow> nat \<Rightarrow> Admission \<Rightarrow> park_outcome \<times> Admission" where
  "park_locked pol w a =
     (if waiters a = [] \<and> \<not> (MaxActiveRequests pol > 0 \<and> active a \<ge> MaxActiveRequests pol)
      then (ParkAdmitted, a\<lparr>active := active a + 1\<rparr>)
      else if MaxPendingRequests pol \<le> 0 \<or> int (length (waiters a)) \<ge> MaxPendingRequests pol
      then (ParkOverloaded, a)
      else (ParkQueued,
            a\<lparr>waiters := waiters a @ [w], pending := pending a + 1,
              wstate := (wstate a)(w := waiterParked), wch := (wch a)(w := False)\<rparr>))"

text \<open>\<^verbatim>\<open>abandon\<close> up to its unlock: whether the slot has to be given back.\<close>

definition abandon_locked :: "nat \<Rightarrow> Admission \<Rightarrow> bool \<times> Admission" where
  "abandon_locked w a =
     (if wstate a w \<noteq> waiterParked then (True, a)
      else (False, a\<lparr>waiters := remove1 w (waiters a), pending := pending a - 1\<rparr>))"

text \<open>\<^verbatim>\<open>release\<close> up to its unlock: whether the slot was handed to the FIFO head.
  When it was not, the decrement of \<^verbatim>\<open>active\<close> follows outside the lock.\<close>

definition release_locked :: "Admission \<Rightarrow> bool \<times> Admission" where
  "release_locked a =
     (if waiters a \<noteq> [] \<and>
         (MaxActiveRequests (policy a) \<le> 0 \<or> active a - 1 < MaxActiveRequests (policy a))
      then (True, grantLocked a)
      else (False, a))"

definition release_decrement :: "Admission \<Rightarrow> Admission" where
  "release_decrement a = a\<lparr>active := active a - 1\<rparr>"

fun retire_waiters :: "nat list \<Rightarrow> Admission \<Rightarrow> Admission" where
  "retire_waiters [] a = a"
| "retire_waiters (w # ws) a =
     retire_waiters ws
       (a\<lparr>waiters := ws, pending := pending a - 1,
          wstate := (wstate a)(w := waiterRetired), wch := (wch a)(w := True)\<rparr>)"

definition Retire :: "Admission \<Rightarrow> Admission" where
  "Retire a = retire_waiters (waiters a) a"

subsection \<open>Calls that run without interference\<close>

definition admission_release :: "Admission \<Rightarrow> Admission" where
  "admission_release a =
     (let (handed, a') = release_locked a in if handed then a' else release_decrement a')"

text \<open>The closure of \<^verbatim>\<open>releaser\<close>: its flag and the admission it is bound to.\<close>

definition releaser_call :: "bool \<times> Admission \<Rightarrow> bool \<times> Admission" where
  "releaser_call r = (case r of (done, a) \<Rightarrow> if done then (done, a) else (True, admission_release a))"

lemma grantLocked_Cons:
  "waiters a = w # ws \<Longrightarrow>
     grantLocked a = a\<lparr>waiters := ws, pending := pending a - 1,
       wstate := (wstate a)(w := waiterGranted), wch := (wch a)(w := True)\<rparr>"
  by (simp add: grantLocked_def)

subsection \<open>Waking parked requests on a policy swap\<close>

text \<open>\<open>wakeUpToLimit\<close> as one step: it grants the first \<open>k\<close> waiters and charges
  \<open>k\<close> slots, where \<open>k\<close> is as large as the limit allows.\<close>

definition grant_first :: "nat \<Rightarrow> Admission \<Rightarrow> Admission" where
  "grant_first k a =
     a\<lparr>waiters := drop k (waiters a), pending := pending a - int k, active := active a + int k,
       wstate := (\<lambda>i. if i \<in> set (take k (waiters a)) then waiterGranted else wstate a i),
       wch := (\<lambda>i. if i \<in> set (take k (waiters a)) then True else wch a i)\<rparr>"

definition wake_count :: "int \<Rightarrow> Admission \<Rightarrow> nat" where
  "wake_count limit a =
     (if limit \<le> 0 then length (waiters a)
      else min (length (waiters a)) (nat (limit - active a)))"

lemma grant_first_Suc:
  assumes "waiters a = w # ws"
  shows "grant_first (Suc k) a = grant_first k (grantLocked (a\<lparr>active := active a + 1\<rparr>))"
  using assms by (auto simp: grant_first_def grantLocked_def fun_eq_iff)

lemma wakeUpToLimit_eq: "wakeUpToLimit limit a = grant_first (wake_count limit a) a"
proof (induction limit a rule: wakeUpToLimit.induct)
  case (1 limit a)
  show ?case
  proof (cases "waiters a")
    case Nil
    then show ?thesis
      by (simp add: wakeUpToLimit.simps [of limit a] wake_count_def grant_first_def)
  next
    case (Cons w ws)
    let ?b = "grantLocked (a\<lparr>active := active a + 1\<rparr>)"
    show ?thesis
    proof (cases "limit > 0 \<and> active a \<ge> limit")
      case True
      then show ?thesis
        using Cons
        by (simp add: wakeUpToLimit.simps [of limit a] claim_def wake_count_def grant_first_def)
    next
      case False
      then have c: "claim limit a = (True, a\<lparr>active := active a + 1\<rparr>)"
        by (simp add: claim_def)
      have "wakeUpToLimit limit a = wakeUpToLimit limit ?b"
        using Cons c by (simp add: wakeUpToLimit.simps [of limit a])
      also have "\<dots> = grant_first (wake_count limit ?b) ?b"
        using 1 Cons c by simp
      also have "\<dots> = grant_first (Suc (wake_count limit ?b)) a"
        using grant_first_Suc [OF Cons] by simp
      also have "Suc (wake_count limit ?b) = wake_count limit a"
        using False Cons by (auto simp: wake_count_def grantLocked_Cons nat_diff_distrib)
      finally show ?thesis .
    qed
  qed
qed

lemma wake_count_le: "wake_count limit a \<le> length (waiters a)"
  by (simp add: wake_count_def)

lemma wake_count_active:
  "0 < limit \<Longrightarrow> active a \<le> limit \<Longrightarrow> active a + int (wake_count limit a) \<le> limit"
  by (auto simp: wake_count_def min_def)

lemma retire_waiters_eq:
  "retire_waiters ws (a\<lparr>waiters := ws\<rparr>) =
     a\<lparr>waiters := [], pending := pending a - int (length ws),
       wstate := (\<lambda>i. if i \<in> set ws then waiterRetired else wstate a i),
       wch := (\<lambda>i. if i \<in> set ws then True else wch a i)\<rparr>"
proof (induction ws arbitrary: a)
  case Nil
  then show ?case by simp
next
  case (Cons w ws)
  let ?b = "a\<lparr>pending := pending a - 1, wstate := (wstate a)(w := waiterRetired),
      wch := (wch a)(w := True)\<rparr>"
  have "retire_waiters (w # ws) (a\<lparr>waiters := w # ws\<rparr>) = retire_waiters ws (?b\<lparr>waiters := ws\<rparr>)"
    unfolding retire_waiters.simps by (rule arg_cong [where f = "retire_waiters ws"]) simp
  also note Cons.IH [of ?b]
  finally show ?case by (auto simp: fun_eq_iff)
qed

lemma Retire_eq:
  "Retire a =
     a\<lparr>waiters := [], pending := pending a - int (length (waiters a)),
       wstate := (\<lambda>i. if i \<in> set (waiters a) then waiterRetired else wstate a i),
       wch := (\<lambda>i. if i \<in> set (waiters a) then True else wch a i)\<rparr>"
  using retire_waiters_eq [of "waiters a" a] by (simp add: Retire_def)

end
