(* ===== verification/Admission_Steps.thy ===== *)
theory Admission_Steps
  imports Admission
begin

text \<open>
  Requests running against one admission owner. Each request goes through the control points
  of \<^verbatim>\<open>Acquire\<close>, \<^verbatim>\<open>park\<close>, \<^verbatim>\<open>abandon\<close> and
  \<^verbatim>\<open>release\<close>; a step moves one request over one atomic piece of the code, or is a
  policy reload or the retirement of the pool. The scheduler, the clients' cancellations, the
  timeouts and the generation-retirement channel are unconstrained.
\<close>

datatype pc =
    Idle
  | Loaded int                 \<comment> \<open>\<open>limit\<close> loaded, before the compare-and-swap loop\<close>
  | Parking                    \<comment> \<open>the loop saw the limit reached; \<open>park\<close> is called\<close>
  | ParkingWith Policy         \<comment> \<open>\<open>park\<close> loaded the policy, before the lock\<close>
  | Waiting                    \<comment> \<open>in the \<open>select\<close>\<close>
  | Abandoning admission_error \<comment> \<open>\<open>abandon\<close>, before the lock\<close>
  | Holding                    \<comment> \<open>admitted\<close>
  | Releasing "admission_error option"    \<comment> \<open>\<open>release\<close>, before the lock\<close>
  | Decrementing "admission_error option" \<comment> \<open>\<open>release\<close>, after the unlock\<close>
  | Done "admission_error option"

record asys =
  adm :: Admission
  pcs :: "nat \<Rightarrow> pc"

definition at_pc :: "asys \<Rightarrow> nat \<Rightarrow> pc \<Rightarrow> asys" where
  "at_pc s i p = s\<lparr>pcs := (pcs s)(i := p)\<rparr>"

inductive adm_step :: "Policy set \<Rightarrow> asys \<Rightarrow> asys \<Rightarrow> bool" for P where
  acquire_load:
    "pcs s i = Idle \<Longrightarrow>
     adm_step P s (at_pc s i (Loaded (MaxActiveRequests (policy (adm s)))))"
| acquire_claim:
    "pcs s i = Loaded limit \<Longrightarrow> acquire_fast limit (adm s) = (True, a) \<Longrightarrow>
     adm_step P s (at_pc (s\<lparr>adm := a\<rparr>) i Holding)"
| acquire_full:
    "pcs s i = Loaded limit \<Longrightarrow> acquire_fast limit (adm s) = (False, a) \<Longrightarrow>
     adm_step P s (at_pc s i Parking)"
| park_load:
    "pcs s i = Parking \<Longrightarrow> adm_step P s (at_pc s i (ParkingWith (policy (adm s))))"
| park_admitted:
    "pcs s i = ParkingWith pol \<Longrightarrow> park_locked pol i (adm s) = (ParkAdmitted, a) \<Longrightarrow>
     adm_step P s (at_pc (s\<lparr>adm := a\<rparr>) i Holding)"
| park_overloaded:
    "pcs s i = ParkingWith pol \<Longrightarrow> park_locked pol i (adm s) = (ParkOverloaded, a) \<Longrightarrow>
     adm_step P s (at_pc s i (Done (Some ErrOverloaded)))"
| park_queued:
    "pcs s i = ParkingWith pol \<Longrightarrow> park_locked pol i (adm s) = (ParkQueued, a) \<Longrightarrow>
     adm_step P s (at_pc (s\<lparr>adm := a\<rparr>) i Waiting)"
| wake_granted:
    "pcs s i = Waiting \<Longrightarrow> wch (adm s) i \<Longrightarrow> wstate (adm s) i = waiterGranted \<Longrightarrow>
     adm_step P s (at_pc s i Holding)"
| wake_retired:
    "pcs s i = Waiting \<Longrightarrow> wch (adm s) i \<Longrightarrow> wstate (adm s) i \<noteq> waiterGranted \<Longrightarrow>
     adm_step P s (at_pc s i (Done (Some ErrRetired)))"
| give_up:
    "pcs s i = Waiting \<Longrightarrow> adm_step P s (at_pc s i (Abandoning e))"
| abandon_unlinked:
    "pcs s i = Abandoning e \<Longrightarrow> abandon_locked i (adm s) = (False, a) \<Longrightarrow>
     adm_step P s (at_pc (s\<lparr>adm := a\<rparr>) i (Done (Some e)))"
| abandon_release:
    "pcs s i = Abandoning e \<Longrightarrow> abandon_locked i (adm s) = (True, a) \<Longrightarrow>
     adm_step P s (at_pc s i (Releasing (Some e)))"
| finish:
    "pcs s i = Holding \<Longrightarrow> adm_step P s (at_pc s i (Releasing None))"
| release_handoff:
    "pcs s i = Releasing r \<Longrightarrow> release_locked (adm s) = (True, a) \<Longrightarrow>
     adm_step P s (at_pc (s\<lparr>adm := a\<rparr>) i (Done r))"
| release_unlock:
    "pcs s i = Releasing r \<Longrightarrow> release_locked (adm s) = (False, a) \<Longrightarrow>
     adm_step P s (at_pc s i (Decrementing r))"
| release_dec:
    "pcs s i = Decrementing r \<Longrightarrow>
     adm_step P s (at_pc (s\<lparr>adm := release_decrement (adm s)\<rparr>) i (Done r))"
| reload:
    "p \<in> P \<Longrightarrow> adm_step P s (s\<lparr>adm := admission_SetPolicy (Some p) (adm s)\<rparr>)"
| retire_pool:
    "adm_step P s (s\<lparr>adm := Retire (adm s)\<rparr>)"

definition asys_init :: "Policy \<Rightarrow> asys" where
  "asys_init p = \<lparr>adm = NewAdmission (Some p), pcs = (\<lambda>_. Idle)\<rparr>"

subsection \<open>Slots are charged exactly to the requests that hold them\<close>

fun slot_pc :: "waiterState \<Rightarrow> pc \<Rightarrow> bool" where
  "slot_pc w Holding = True"
| "slot_pc w (Releasing _) = True"
| "slot_pc w (Decrementing _) = True"
| "slot_pc w Waiting = (w = waiterGranted)"
| "slot_pc w (Abandoning _) = (w = waiterGranted)"
| "slot_pc w _ = False"

fun parked_pc :: "waiterState \<Rightarrow> pc \<Rightarrow> bool" where
  "parked_pc w Waiting = (w = waiterParked)"
| "parked_pc w (Abandoning _) = (w = waiterParked)"
| "parked_pc w _ = False"

definition holds_slot :: "asys \<Rightarrow> nat \<Rightarrow> bool" where
  "holds_slot s i = slot_pc (wstate (adm s) i) (pcs s i)"

definition is_parked :: "asys \<Rightarrow> nat \<Rightarrow> bool" where
  "is_parked s i = parked_pc (wstate (adm s) i) (pcs s i)"

definition never_retired :: "asys \<Rightarrow> bool" where
  "never_retired s \<longleftrightarrow> (\<forall>i. wstate (adm s) i \<noteq> waiterRetired)"

fun before_queue :: "pc \<Rightarrow> bool" where
  "before_queue Idle = True"
| "before_queue (Loaded _) = True"
| "before_queue Parking = True"
| "before_queue (ParkingWith _) = True"
| "before_queue _ = False"

definition queue_inv :: "asys \<Rightarrow> bool" where
  "queue_inv s \<longleftrightarrow>
     (\<forall>i. before_queue (pcs s i) \<longrightarrow> wstate (adm s) i = waiterParked) \<and>
     (\<forall>i. wch (adm s) i \<longrightarrow> wstate (adm s) i \<noteq> waiterParked) \<and>
     finite {i. pcs s i \<noteq> Idle} \<and>
     distinct (waiters (adm s)) \<and>
     pending (adm s) = int (length (waiters (adm s))) \<and>
     (\<forall>i. i \<in> set (waiters (adm s)) \<longleftrightarrow> is_parked s i)"

definition slots_inv :: "asys \<Rightarrow> bool" where
  "slots_inv s \<longleftrightarrow>
     (never_retired s \<longrightarrow> active (adm s) = int (card {i. holds_slot s i}))"

definition asys_inv :: "asys \<Rightarrow> bool" where
  "asys_inv s \<longleftrightarrow> queue_inv s \<and> slots_inv s"

text \<open>The invariant as obligations on one request at a time. \<open>q\<close> and \<open>h\<close> say
  whether the request was parked, respectively held a slot, before the step.\<close>

lemma finite_busy_update:
  "finite {i. f i \<noteq> Idle} \<Longrightarrow> finite {i. (f(j := p)) i \<noteq> Idle}"
  by (rule finite_subset [of _ "insert j {i. f i \<noteq> Idle}"]) auto

lemma holds_slot_busy: "{i. holds_slot s i} \<subseteq> {i. pcs s i \<noteq> Idle}"
  by (auto simp: holds_slot_def)

lemma finite_holders: "finite {i. pcs s i \<noteq> Idle} \<Longrightarrow> finite {i. holds_slot s i}"
  using holds_slot_busy finite_subset by blast

lemma card_minus_one:
  "finite A \<Longrightarrow> int (card A) = int (card (A - {j})) + (if j \<in> A then 1 else 0)"
  using card_Suc_Diff1 [of A j] by (cases "j \<in> A") (simp_all flip: of_nat_Suc)

lemma card_update_one:
  assumes "finite {i. Q i}" and "\<And>k. k \<noteq> j \<Longrightarrow> R k = Q k"
  shows "int (card {i. R i}) =
           int (card {i. Q i}) + (if R j then 1 else 0) - (if Q j then 1 else 0)"
proof -
  have rest: "{i. R i} - {j} = {i. Q i} - {j}" using assms(2) by auto
  have "finite ({i. R i} - {j})" unfolding rest using assms(1) by simp
  then have "finite {i. R i}" by simp
  from card_minus_one [OF this, of j] card_minus_one [OF assms(1), of j] show ?thesis
    by (simp add: rest)
qed

text \<open>One request moves; the other requests keep their control points and states.\<close>

lemma move_inv:
  assumes "asys_inv s"
    and "\<And>k. k \<noteq> i \<Longrightarrow> wstate a k = wstate (adm s) k"
    and "before_queue p \<Longrightarrow> wstate a i = waiterParked"
    and "wstate (adm s) i = waiterRetired \<Longrightarrow> wstate a i = waiterRetired"
    and "\<And>k. wch a k \<Longrightarrow> wstate a k \<noteq> waiterParked"
    and "distinct (waiters a)" and "pending a = int (length (waiters a))"
    and "set (waiters a) - {i} = set (waiters (adm s)) - {i}"
    and "i \<in> set (waiters a) \<longleftrightarrow> parked_pc (wstate a i) p"
    and "active a = active (adm s) + (if slot_pc (wstate a i) p then 1 else 0)
           - (if holds_slot s i then 1 else 0)"
  shows "asys_inv (at_pc (s\<lparr>adm := a\<rparr>) i p)"
proof -
  let ?t = "at_pc (s\<lparr>adm := a\<rparr>) i p"
  have fin: "finite {i. pcs s i \<noteq> Idle}" using assms(1) by (simp add: asys_inv_def queue_inv_def)
  have park: "k \<in> set (waiters a) \<longleftrightarrow> is_parked ?t k" for k
  proof (cases "k = i")
    case False
    then have "k \<in> set (waiters a) \<longleftrightarrow> k \<in> set (waiters (adm s))" using assms(8) by blast
    then show ?thesis
      using assms(1,2) False by (simp add: asys_inv_def queue_inv_def is_parked_def at_pc_def)
  qed (use assms(9) in \<open>simp add: is_parked_def at_pc_def\<close>)
  have "queue_inv ?t"
    unfolding queue_inv_def
    using assms(1,2,3,5,6,7) park finite_busy_update [OF fin]
    by (auto simp: asys_inv_def queue_inv_def at_pc_def)
  moreover have "slots_inv ?t"
    unfolding slots_inv_def
  proof (intro impI)
    assume nt: "never_retired ?t"
    have "never_retired s"
      unfolding never_retired_def
    proof
      fix k
      have "wstate a k \<noteq> waiterRetired" using nt by (simp add: never_retired_def at_pc_def)
      then show "wstate (adm s) k \<noteq> waiterRetired"
        using assms(2) [of k] assms(4) by (cases "k = i") auto
    qed
    then have act: "active (adm s) = int (card {i. holds_slot s i})"
      using assms(1) by (simp add: asys_inv_def slots_inv_def)
    have "int (card {k. holds_slot ?t k}) = int (card {k. holds_slot s k})
        + (if holds_slot ?t i then 1 else 0) - (if holds_slot s i then 1 else 0)"
      using finite_holders [OF fin] assms(2)
      by (intro card_update_one) (auto simp: holds_slot_def at_pc_def)
    then show "active (adm ?t) = int (card {k. holds_slot ?t k})"
      using act assms(10) by (simp add: holds_slot_def at_pc_def)
  qed
  ultimately show ?thesis by (simp add: asys_inv_def)
qed

text \<open>The common case: the step leaves the admission owner alone.\<close>

lemma move_pc_inv:
  assumes "asys_inv s"
    and "before_queue p \<Longrightarrow> before_queue (pcs s i)"
    and "parked_pc (wstate (adm s) i) p = is_parked s i"
    and "slot_pc (wstate (adm s) i) p = holds_slot s i"
  shows "asys_inv (at_pc s i p)"
proof -
  have "asys_inv (at_pc (s\<lparr>adm := adm s\<rparr>) i p)"
    using assms by (intro move_inv) (auto simp: asys_inv_def queue_inv_def)
  then show ?thesis by simp
qed

text \<open>A retired waiter holds nothing and is in no queue, wherever it goes next.\<close>

lemma retired_move_inv:
  assumes "asys_inv s" and "wstate (adm s) i = waiterRetired" and "\<not> before_queue p"
  shows "asys_inv (at_pc s i p)"
proof -
  have "\<not> parked_pc waiterRetired q" for q by (cases q) auto
  then show ?thesis
    using assms finite_busy_update [of "pcs s" i p]
    by (auto simp: asys_inv_def queue_inv_def slots_inv_def never_retired_def at_pc_def
        is_parked_def)
qed

text \<open>The first \<open>k\<close> waiters are granted and charged.\<close>

lemma grant_first_inv:
  assumes "asys_inv s" and "k \<le> length (waiters (adm s))"
  shows "asys_inv (s\<lparr>adm := grant_first k (adm s)\<rparr>)"
proof -
  let ?t = "s\<lparr>adm := grant_first k (adm s)\<rparr>" and ?ws = "waiters (adm s)"
  have q: "queue_inv s" "slots_inv s" using assms(1) by (simp_all add: asys_inv_def)
  then have dis: "distinct ?ws" and parked: "\<And>i. i \<in> set ?ws \<longleftrightarrow> is_parked s i"
    by (simp_all add: queue_inv_def)
  have split: "set (take k ?ws) \<inter> set (drop k ?ws) = {}"
    using dis set_take_disj_set_drop_if_distinct by blast
  have cover: "set ?ws = set (take k ?ws) \<union> set (drop k ?ws)"
    by (metis append_take_drop_id set_append)
  have park: "i \<in> set (drop k ?ws) \<longleftrightarrow> is_parked ?t i" for i
  proof (cases "i \<in> set (take k ?ws)")
    case True
    with split have "i \<notin> set (drop k ?ws)" by blast
    moreover have "\<not> is_parked ?t i"
      using True by (cases "pcs s i") (auto simp: is_parked_def grant_first_def)
    ultimately show ?thesis by blast
  next
    case False
    with cover parked have "i \<in> set (drop k ?ws) \<longleftrightarrow> is_parked s i" by blast
    then show ?thesis using False by (simp add: is_parked_def grant_first_def)
  qed
  have bq: "i \<notin> set (take k ?ws)" if "before_queue (pcs s i)" for i
  proof
    assume "i \<in> set (take k ?ws)"
    then have "is_parked s i" using cover parked by blast
    with that show False by (cases "pcs s i") (auto simp: is_parked_def)
  qed
  have "queue_inv ?t"
    unfolding queue_inv_def
    using q(1) park bq assms(2) by (simp add: queue_inv_def grant_first_def of_nat_diff)
  moreover have "slots_inv ?t"
    unfolding slots_inv_def
  proof (intro impI)
    assume nt: "never_retired ?t"
    have ns: "never_retired s"
      unfolding never_retired_def
    proof
      fix i show "wstate (adm s) i \<noteq> waiterRetired"
      proof (cases "i \<in> set ?ws")
        case True
        then have "is_parked s i" using parked by blast
        then show ?thesis by (cases "pcs s i") (auto simp: is_parked_def)
      next
        case False
        then have "i \<notin> set (take k ?ws)" using cover by blast
        then show ?thesis using nt by (auto simp: never_retired_def grant_first_def dest: spec [of _ i])
      qed
    qed
    have grown: "{i. holds_slot ?t i} = {i. holds_slot s i} \<union> set (take k ?ws)"
    proof (intro set_eqI)
      fix i
      show "i \<in> {i. holds_slot ?t i} \<longleftrightarrow> i \<in> {i. holds_slot s i} \<union> set (take k ?ws)"
      proof (cases "i \<in> set (take k ?ws)")
        case True
        then have "is_parked s i" using cover parked by blast
        with True show ?thesis
          by (cases "pcs s i") (auto simp: is_parked_def holds_slot_def grant_first_def)
      qed (simp add: holds_slot_def grant_first_def)
    qed
    have disj: "{i. holds_slot s i} \<inter> set (take k ?ws) = {}"
    proof -
      have "\<not> holds_slot s i" if "i \<in> set (take k ?ws)" for i
      proof -
        have "is_parked s i" using that cover parked by blast
        then show ?thesis by (cases "pcs s i") (auto simp: is_parked_def holds_slot_def)
      qed
      then show ?thesis by blast
    qed
    have "card {i. holds_slot ?t i} = card {i. holds_slot s i} + k"
      unfolding grown
      using card_Un_disjoint [OF finite_holders _ disj] q(1) dis assms(2)
      by (simp add: queue_inv_def distinct_card)
    then show "active (adm ?t) = int (card {i. holds_slot ?t i})"
      using q(2) ns by (simp add: slots_inv_def grant_first_def)
  qed
  ultimately show ?thesis by (simp add: asys_inv_def)
qed

end
