(* ===== verification/Admission_Props.thy ===== *)
theory Admission_Props
  imports Admission_Steps
begin

text \<open>
  What the admission owner guarantees under every interleaving: exact accounting of slots,
  the bounds on admitted and parked requests, first-come first-served handoff; and two
  interleavings in which the code falls short of its own contract.
\<close>

subsection \<open>The invariant is inductive\<close>

lemmas pc_views = is_parked_def holds_slot_def

lemma acquire_fast_True:
  "acquire_fast limit a = (True, a') \<Longrightarrow> a' = a\<lparr>active := active a + 1\<rparr>"
  by (auto simp: acquire_fast_def split: if_splits)

lemma park_locked_Admitted:
  "park_locked pol i a = (ParkAdmitted, a') \<Longrightarrow> a' = a\<lparr>active := active a + 1\<rparr>"
  by (auto simp: park_locked_def split: if_splits)

lemma park_locked_Queued:
  "park_locked pol i a = (ParkQueued, a') \<Longrightarrow>
     a' = a\<lparr>waiters := waiters a @ [i], pending := pending a + 1,
            wstate := (wstate a)(i := waiterParked), wch := (wch a)(i := False)\<rparr>"
  by (auto simp: park_locked_def split: if_splits)

lemma queue_invD:
  assumes "asys_inv s"
  shows "distinct (waiters (adm s))" "pending (adm s) = int (length (waiters (adm s)))"
    and "i \<in> set (waiters (adm s)) \<longleftrightarrow> is_parked s i"
    and "before_queue (pcs s i) \<Longrightarrow> wstate (adm s) i = waiterParked"
    and "wch (adm s) i \<Longrightarrow> wstate (adm s) i \<noteq> waiterParked"
  using assms by (simp_all add: asys_inv_def queue_inv_def)

lemma active_move_inv:
  assumes "asys_inv s" and "before_queue p \<Longrightarrow> before_queue (pcs s i)"
    and "parked_pc (wstate (adm s) i) p = is_parked s i"
    and "n = (if slot_pc (wstate (adm s) i) p then 1 else 0) - (if holds_slot s i then 1 else 0)"
  shows "asys_inv (at_pc (s\<lparr>adm := (adm s)\<lparr>active := active (adm s) + n\<rparr>\<rparr>) i p)"
  using assms queue_invD [OF assms(1)]
  by (intro move_inv) (auto simp: asys_inv_def queue_inv_def)

lemma park_queued_inv:
  assumes "asys_inv s" and "pcs s i = ParkingWith pol"
  shows "asys_inv (at_pc (s\<lparr>adm := (adm s)\<lparr>waiters := waiters (adm s) @ [i],
      pending := pending (adm s) + 1, wstate := (wstate (adm s))(i := waiterParked),
      wch := (wch (adm s))(i := False)\<rparr>\<rparr>) i Waiting)"
  using assms queue_invD [OF assms(1)]
  by (intro move_inv) (auto simp: pc_views)

lemma abandon_unlinked_inv:
  assumes "asys_inv s" and "pcs s i = Abandoning e" and "wstate (adm s) i = waiterParked"
  shows "asys_inv (at_pc (s\<lparr>adm := (adm s)\<lparr>waiters := remove1 i (waiters (adm s)),
      pending := pending (adm s) - 1\<rparr>\<rparr>) i (Done (Some e)))"
proof -
  have i: "i \<in> set (waiters (adm s))"
    using assms queue_invD [OF assms(1)] by (simp add: pc_views)
  have len: "int (length (waiters (adm s)) - Suc 0) = int (length (waiters (adm s))) - 1"
    using i by (cases "waiters (adm s)") auto
  show ?thesis
    using assms queue_invD [OF assms(1)] i
    by (intro move_inv) (auto simp: pc_views length_remove1 len)
qed

lemma release_locked_True:
  "release_locked a = (True, a') \<Longrightarrow> waiters a \<noteq> [] \<and> a' = grantLocked a"
  by (auto simp: release_locked_def split: if_splits)

lemma grantLocked_grant_first:
  assumes "waiters a \<noteq> []"
  shows "grantLocked a = (grant_first 1 a)\<lparr>active := active a\<rparr>"
proof -
  obtain w ws where "waiters a = w # ws" using assms by (cases "waiters a") auto
  then show ?thesis by (auto simp: grantLocked_def grant_first_def fun_eq_iff)
qed

lemma release_handoff_inv:
  assumes "asys_inv s" and "pcs s i = Releasing r" and "waiters (adm s) \<noteq> []"
  shows "asys_inv (at_pc (s\<lparr>adm := grantLocked (adm s)\<rparr>) i (Done r))"
proof -
  let ?s1 = "s\<lparr>adm := grant_first 1 (adm s)\<rparr>"
  have s1: "asys_inv ?s1" using assms by (intro grant_first_inv) (simp_all add: Suc_leI)
  have "asys_inv (at_pc (?s1\<lparr>adm := (adm ?s1)\<lparr>active := active (adm ?s1) + (- 1)\<rparr>\<rparr>) i (Done r))"
    using assms(2) by (intro active_move_inv [OF s1]) (simp_all add: pc_views)
  moreover have "(adm ?s1)\<lparr>active := active (adm ?s1) + (- 1)\<rparr> = grantLocked (adm s)"
    using grantLocked_grant_first [OF assms(3)] by (simp add: grant_first_def)
  ultimately show ?thesis by simp
qed

lemma reload_inv:
  assumes "asys_inv s"
  shows "asys_inv (s\<lparr>adm := admission_SetPolicy (Some p) (adm s)\<rparr>)"
proof -
  let ?s0 = "s\<lparr>adm := (adm s)\<lparr>policy := p\<rparr>\<rparr>"
  have "asys_inv ?s0"
    using assms
    by (simp add: asys_inv_def queue_inv_def slots_inv_def never_retired_def pc_views)
  from grant_first_inv [OF this wake_count_le] show ?thesis
    by (simp add: admission_SetPolicy_def wakeUpToLimit_eq)
qed

lemma retire_inv:
  assumes "asys_inv s"
  shows "asys_inv (s\<lparr>adm := Retire (adm s)\<rparr>)"
proof -
  let ?t = "s\<lparr>adm := Retire (adm s)\<rparr>"
  have q: "queue_inv s" using assms by (simp add: asys_inv_def)
  have parked: "i \<in> set (waiters (adm s)) \<longleftrightarrow> is_parked s i" for i
    using q by (simp add: queue_inv_def)
  have "queue_inv ?t"
    unfolding queue_inv_def
  proof (intro conjI allI impI)
    fix i
    assume "before_queue (pcs ?t i)"
    moreover from this have "\<not> is_parked s i" by (cases "pcs s i") (auto simp: is_parked_def)
    ultimately show "wstate (adm ?t) i = waiterParked"
      using q parked by (simp add: Retire_eq queue_inv_def)
  next
    fix i
    have "\<not> is_parked ?t i"
      using parked [of i] by (cases "pcs s i") (auto simp: is_parked_def Retire_eq)
    then show "i \<in> set (waiters (adm ?t)) \<longleftrightarrow> is_parked ?t i" by (simp add: Retire_eq)
  qed (use q in \<open>simp_all add: Retire_eq queue_inv_def\<close>)
  moreover have "slots_inv ?t"
    unfolding slots_inv_def
  proof (intro impI)
    assume "never_retired ?t"
    then have "waiters (adm s) = []"
      by (auto simp: never_retired_def Retire_eq neq_Nil_conv dest: spec split: if_splits)
         (metis list.exhaust list.set_intros(1))
    then have "Retire (adm s) = adm s" by (simp add: Retire_def)
    then show "active (adm ?t) = int (card {i. holds_slot ?t i})"
      using assms \<open>never_retired ?t\<close> by (simp add: asys_inv_def slots_inv_def)
  qed
  ultimately show ?thesis by (simp add: asys_inv_def)
qed

lemma adm_step_inv:
  assumes "adm_step P s t" and "asys_inv s"
  shows "asys_inv t"
  using assms
proof (cases rule: adm_step.cases)
  case (acquire_claim i limit a)
  with assms(2) active_move_inv [OF assms(2), of Holding i 1] show ?thesis
    by (auto dest!: acquire_fast_True simp: pc_views)
next
  case (park_admitted i pol a)
  with assms(2) active_move_inv [OF assms(2), of Holding i 1] show ?thesis
    by (auto dest!: park_locked_Admitted simp: pc_views)
next
  case (park_queued i pol a)
  with park_queued_inv [OF assms(2)] show ?thesis by (auto dest!: park_locked_Queued)
next
  case (abandon_unlinked i e a)
  with abandon_unlinked_inv [OF assms(2)] show ?thesis
    by (auto simp: abandon_locked_def split: if_splits)
next
  case (abandon_release i e a)
  then have w: "wstate (adm s) i \<noteq> waiterParked"
    by (auto simp: abandon_locked_def split: if_splits)
  show ?thesis
  proof (cases "wstate (adm s) i")
    case waiterGranted
    with abandon_release assms(2) show ?thesis
      by (auto intro!: move_pc_inv simp: pc_views)
  next
    case waiterRetired
    with abandon_release assms(2) show ?thesis
      by (auto intro!: retired_move_inv)
  qed (use w in simp)
next
  case (release_handoff i r a)
  with release_handoff_inv [OF assms(2)] show ?thesis by (auto dest: release_locked_True)
next
  case (release_dec i r)
  with active_move_inv [OF assms(2), of "Done r" i "- 1"] show ?thesis
    by (simp add: pc_views release_decrement_def)
next
  case (reload p)
  with reload_inv [OF assms(2)] show ?thesis by simp
next
  case retire_pool
  with retire_inv [OF assms(2)] show ?thesis by simp
next
  case (wake_retired i)
  then have "wstate (adm s) i = waiterRetired"
    using queue_invD(5) [OF assms(2), of i] by (cases "wstate (adm s) i") auto
  with wake_retired assms(2) show ?thesis by (auto intro!: retired_move_inv)
qed (auto intro!: move_pc_inv simp: pc_views)

lemma asys_init_inv: "asys_inv (asys_init p)"
  by (simp add: asys_init_def NewAdmission_def admission_SetPolicy_def wakeUpToLimit_eq
      wake_count_def grant_first_def asys_inv_def queue_inv_def slots_inv_def pc_views)

interpretation admission_system:
  invariant_system "adm_step P" "\<lambda>s. \<exists>p. s = asys_init p" asys_inv for P
  by unfold_locales (auto intro: asys_init_inv adm_step_inv)

text \<open>C5: Under every interleaving of arrivals, completions, cancellations, timeouts and
  reloads, the pending counter equals the length of the FIFO, the FIFO holds exactly the
  requests that are parked, each once, and, as long as the pool has not retired a parked
  request, the active counter equals the number of requests that hold a slot, counting a
  granted request that has not woken up yet and a finished one whose decrement is still due.\<close>

theorem admission_accounting_exact:
  assumes "reachable_by (adm_step P) (asys_init p) s"
  shows "pending (adm s) = int (length (waiters (adm s))) \<and> distinct (waiters (adm s)) \<and>
         (\<forall>i. i \<in> set (waiters (adm s)) \<longleftrightarrow> is_parked s i) \<and>
         (never_retired s \<longrightarrow> active (adm s) = int (card {i. holds_slot s i}))"
proof -
  have "asys_inv s" using assms by (rule admission_system.reachable_inv) blast
  then show ?thesis by (simp add: asys_inv_def queue_inv_def slots_inv_def)
qed

subsection \<open>Bounds\<close>

fun pc_within :: "int \<Rightarrow> int \<Rightarrow> pc \<Rightarrow> bool" where
  "pc_within L Q (Loaded l) = (0 < l \<and> l \<le> L)"
| "pc_within L Q (ParkingWith p) =
     (0 < MaxActiveRequests p \<and> MaxActiveRequests p \<le> L \<and> MaxPendingRequests p \<le> Q)"
| "pc_within L Q _ = True"

definition policy_within :: "int \<Rightarrow> int \<Rightarrow> Policy \<Rightarrow> bool" where
  "policy_within L Q p \<longleftrightarrow>
     0 < MaxActiveRequests p \<and> MaxActiveRequests p \<le> L \<and> MaxPendingRequests p \<le> Q"

definition bound_inv :: "int \<Rightarrow> int \<Rightarrow> asys \<Rightarrow> bool" where
  "bound_inv L Q s \<longleftrightarrow>
     0 \<le> Q \<and> active (adm s) \<le> L \<and> int (length (waiters (adm s))) \<le> Q \<and>
     policy_within L Q (policy (adm s)) \<and> (\<forall>i. pc_within L Q (pcs s i))"

lemma reload_bound:
  assumes "bound_inv L Q s" and "policy_within L Q p"
  shows "bound_inv L Q (s\<lparr>adm := admission_SetPolicy (Some p) (adm s)\<rparr>)"
proof -
  let ?n = "wake_count (MaxActiveRequests p) ((adm s)\<lparr>policy := p\<rparr>)"
  have "active (adm s) + int ?n \<le> L"
    using assms by (auto simp: bound_inv_def policy_within_def wake_count_def min_def)
  then show ?thesis
    using assms
    by (auto simp: bound_inv_def admission_SetPolicy_def wakeUpToLimit_eq grant_first_def)
qed

lemma adm_step_bound:
  assumes "adm_step P s t" and "\<forall>q \<in> P. policy_within L Q q" and "bound_inv L Q s"
  shows "bound_inv L Q t"
  using assms(1)
proof (cases rule: adm_step.cases)
  case (acquire_claim i limit a)
  then have "pc_within L Q (Loaded limit)" using assms(3) by (metis bound_inv_def)
  with acquire_claim assms(3) show ?thesis
    by (auto simp: bound_inv_def at_pc_def acquire_fast_def split: if_splits)
next
  case (park_admitted i pol a)
  then have "pc_within L Q (ParkingWith pol)" using assms(3) by (metis bound_inv_def)
  with park_admitted assms(3) show ?thesis
    by (auto simp: bound_inv_def at_pc_def park_locked_def split: if_splits)
next
  case (park_queued i pol a)
  then have "pc_within L Q (ParkingWith pol)" using assms(3) by (metis bound_inv_def)
  with park_queued assms(3) show ?thesis
    by (auto simp: bound_inv_def at_pc_def park_locked_def split: if_splits)
next
  case (release_handoff i r a)
  with assms(3) show ?thesis
    by (auto simp: bound_inv_def at_pc_def release_locked_def grantLocked_def
        split: if_splits list.splits)
next
  case (abandon_unlinked i e a)
  then have "length (waiters a) \<le> length (waiters (adm s))"
    by (auto simp: abandon_locked_def length_remove1 split: if_splits)
  with abandon_unlinked assms(3) show ?thesis
    by (auto simp: bound_inv_def at_pc_def abandon_locked_def split: if_splits)
next
  case (reload p)
  with reload_bound [OF assms(3)] assms(2) show ?thesis by auto
qed (use assms(3) in \<open>auto simp: bound_inv_def at_pc_def policy_within_def
       release_decrement_def Retire_eq\<close>)

text \<open>C6: If every policy ever installed has a positive admission limit of at most L and
  a queue bound of at most Q, then at no point of any interleaving are more than
  L slots charged or more than Q requests parked.\<close>

theorem admission_bounded:
  assumes "reachable_by (adm_step P) (asys_init p) s"
    and "\<forall>q \<in> insert p P. policy_within L Q q" and "0 \<le> Q"
  shows "active (adm s) \<le> L \<and> int (length (waiters (adm s))) \<le> Q \<and>
         (never_retired s \<longrightarrow> int (card {i. holds_slot s i}) \<le> L)"
proof -
  have "bound_inv L Q s"
    using assms(1)
  proof (induction rule: reachable_by.induct)
    case reach_refl
    show ?case
      using assms(2,3)
      by (auto simp: bound_inv_def asys_init_def NewAdmission_def admission_SetPolicy_def
          wakeUpToLimit_eq wake_count_def grant_first_def policy_within_def)
  next
    case (reach_step s t)
    with assms(2) show ?case by (blast intro: adm_step_bound)
  qed
  moreover have "asys_inv s" using assms(1) by (rule admission_system.reachable_inv) blast
  ultimately show ?thesis by (auto simp: bound_inv_def asys_inv_def slots_inv_def)
qed

subsection \<open>First come, first served\<close>

definition newly_granted :: "asys \<Rightarrow> asys \<Rightarrow> nat set" where
  "newly_granted s t =
     {i. wstate (adm t) i = waiterGranted \<and> wstate (adm s) i \<noteq> waiterGranted}"

lemma newly_granted_same: "wstate (adm t) = wstate (adm s) \<Longrightarrow> newly_granted s t = {}"
  by (simp add: newly_granted_def)

lemma parked_not_granted:
  "asys_inv s \<Longrightarrow> i \<in> set (waiters (adm s)) \<Longrightarrow> wstate (adm s) i = waiterParked"
  using queue_invD(3) [of s i] by (cases "pcs s i") (auto simp: is_parked_def)

lemma grant_first_newly_granted:
  assumes "asys_inv s" and "wstate (adm t) = wstate (grant_first k (adm s))"
  shows "newly_granted s t = set (take k (waiters (adm s)))"
  using parked_not_granted [OF assms(1)] assms(2)
  by (auto simp: newly_granted_def grant_first_def dest: in_set_takeD split: if_splits)

definition fifo_grant :: "asys \<Rightarrow> asys \<Rightarrow> bool" where
  "fifo_grant s t \<longleftrightarrow>
     (\<exists>k \<le> length (waiters (adm s)).
        waiters (adm t) = drop k (waiters (adm s)) \<and>
        newly_granted s t = set (take k (waiters (adm s))) \<and>
        (\<forall>i \<in> set (take k (waiters (adm s))). wch (adm t) i))"

definition fifo_arrival :: "asys \<Rightarrow> asys \<Rightarrow> bool" where
  "fifo_arrival s t \<longleftrightarrow>
     newly_granted s t = {} \<and>
     (\<exists>i pol. pcs s i = ParkingWith pol \<and> pcs t i = Waiting \<and> i \<notin> set (waiters (adm s)) \<and>
        waiters (adm t) = waiters (adm s) @ [i])"

definition fifo_gave_up :: "asys \<Rightarrow> asys \<Rightarrow> bool" where
  "fifo_gave_up s t \<longleftrightarrow>
     newly_granted s t = {} \<and>
     (\<exists>i e. pcs s i = Abandoning e \<and> pcs t i = Done (Some e) \<and> i \<in> set (waiters (adm s)) \<and>
        waiters (adm t) = remove1 i (waiters (adm s)))"

definition fifo_retired :: "asys \<Rightarrow> asys \<Rightarrow> bool" where
  "fifo_retired s t \<longleftrightarrow>
     newly_granted s t = {} \<and> pcs t = pcs s \<and> waiters (adm t) = [] \<and>
     (\<forall>i \<in> set (waiters (adm s)). wstate (adm t) i = waiterRetired \<and> wch (adm t) i)"

lemma fifo_unchanged:
  assumes "waiters (adm t) = waiters (adm s)" and "wstate (adm t) = wstate (adm s)"
  shows "fifo_grant s t"
  unfolding fifo_grant_def using assms by (intro exI [of _ 0]) (simp add: newly_granted_same)

lemma fifo_handoff:
  assumes "asys_inv s" "pcs s i = Releasing r" "release_locked (adm s) = (True, a)"
    and "t = at_pc (s\<lparr>adm := a\<rparr>) i (Done r)"
  shows "waiters (adm s) \<noteq> []" "waiters (adm t) = tl (waiters (adm s))"
    and "newly_granted s t = {hd (waiters (adm s))}" "wch (adm t) (hd (waiters (adm s)))"
proof -
  show ne: "waiters (adm s) \<noteq> []" using release_locked_True [OF assms(3)] by blast
  have a: "a = (grant_first 1 (adm s))\<lparr>active := active (adm s)\<rparr>"
    using release_locked_True [OF assms(3)] grantLocked_grant_first [OF ne] by simp
  have head: "take 1 (waiters (adm s)) = [hd (waiters (adm s))]" using ne by (simp add: take_Suc)
  show "waiters (adm t) = tl (waiters (adm s))"
    using assms(4) a by (simp add: at_pc_def grant_first_def drop_Suc)
  have "newly_granted s t = set (take 1 (waiters (adm s)))"
    using assms(4) a by (intro grant_first_newly_granted assms(1)) (simp add: at_pc_def)
  then show "newly_granted s t = {hd (waiters (adm s))}" using head by simp
  show "wch (adm t) (hd (waiters (adm s)))"
    using assms(4) a head by (simp add: at_pc_def grant_first_def)
qed

lemma fifo_step:
  assumes "asys_inv s" and "adm_step P s t"
  shows "fifo_grant s t \<or> fifo_arrival s t \<or> fifo_gave_up s t \<or> fifo_retired s t"
  using assms(2)
proof (cases rule: adm_step.cases)
  case (park_queued i pol a)
  have "i \<notin> set (waiters (adm s))"
    using queue_invD(3) [OF assms(1), of i] park_queued by (simp add: is_parked_def)
  then have "fifo_arrival s t"
    using park_queued
    by (auto dest!: park_locked_Queued simp: fifo_arrival_def newly_granted_def at_pc_def
        split: if_splits)
  then show ?thesis by blast
next
  case (abandon_unlinked i e a)
  then have "wstate (adm s) i = waiterParked"
    by (auto simp: abandon_locked_def split: if_splits)
  then have "i \<in> set (waiters (adm s))"
    using queue_invD(3) [OF assms(1), of i] abandon_unlinked by (simp add: is_parked_def)
  then have "fifo_gave_up s t"
    using abandon_unlinked
    by (auto simp: fifo_gave_up_def abandon_locked_def newly_granted_def at_pc_def
        split: if_splits)
  then show ?thesis by blast
next
  case (release_handoff i r a)
  from fifo_handoff [OF assms(1) release_handoff(2,3,1)] have "fifo_grant s t"
    unfolding fifo_grant_def
    by (intro exI [of _ 1]) (cases "waiters (adm s)", auto)
  then show ?thesis by blast
next
  case (reload q)
  let ?k = "wake_count (MaxActiveRequests q) ((adm s)\<lparr>policy := q\<rparr>)"
  have "waiters (adm t) = drop ?k (waiters (adm s))"
    and "\<forall>i \<in> set (take ?k (waiters (adm s))). wch (adm t) i"
    using reload by (auto simp: admission_SetPolicy_def wakeUpToLimit_eq grant_first_def)
  moreover have "newly_granted s t = set (take ?k (waiters (adm s)))"
    using reload
    by (intro grant_first_newly_granted assms(1))
       (simp add: admission_SetPolicy_def wakeUpToLimit_eq grant_first_def fun_eq_iff)
  moreover have "?k \<le> length (waiters (adm s))" by (simp add: wake_count_def)
  ultimately have "fifo_grant s t" unfolding fifo_grant_def by blast
  then show ?thesis by blast
next
  case retire_pool
  then have "fifo_retired s t" by (auto simp: fifo_retired_def newly_granted_def Retire_eq)
  then show ?thesis by blast
qed (rule disjI1, rule fifo_unchanged;
     auto simp: at_pc_def acquire_fast_def park_locked_def release_decrement_def
       split: if_splits)+

lemma release_hands_over:
  assumes "asys_inv s" "adm_step P s t" "pcs s i = Releasing r" "pcs t i \<noteq> Releasing r"
    and "waiters (adm s) \<noteq> []"
    and "MaxActiveRequests (policy (adm s)) \<le> 0 \<or>
         active (adm s) - 1 < MaxActiveRequests (policy (adm s))"
  shows "pcs t i = Done r \<and> waiters (adm t) = tl (waiters (adm s)) \<and>
         newly_granted s t = {hd (waiters (adm s))} \<and> active (adm t) = active (adm s)"
  using assms(2)
proof (cases rule: adm_step.cases)
  case (release_handoff j r' a)
  then have ij: "j = i" "r' = r" using assms(3,4) by (auto simp: at_pc_def split: if_splits)
  have "active a = active (adm s)"
    using release_locked_True [OF release_handoff(3)] grantLocked_grant_first by auto
  with fifo_handoff [OF assms(1) release_handoff(2,3,1)] release_handoff(1) ij show ?thesis
    by (simp add: at_pc_def)
next
  case (release_unlock j r' a)
  then show ?thesis using assms(5,6) by (simp add: release_locked_def)
qed (use assms(3,4) in \<open>auto simp: at_pc_def split: if_splits\<close>)

text \<open>C7: The queue is served strictly in arrival order. A step that grants slots to parked
  requests grants them to a prefix of the FIFO, removes exactly that prefix and closes the
  channel of each; a step that grants nothing leaves the FIFO alone, or appends at its end the
  request that has just parked, or unlinks the request whose own client gave up, or, when the
  pool is retired, empties it and marks everyone in it retired. And a release does serve the
  queue: one that finds requests parked and the slot it holds within the limit ends by granting
  that slot to the first of them and to nobody else. (Requests that find a free slot before they
  park are outside the queue and may be admitted ahead of it.)\<close>

theorem admission_fifo:
  assumes "reachable_by (adm_step P) (asys_init p) s" and "adm_step P s t"
  shows "((\<exists>k \<le> length (waiters (adm s)).
             waiters (adm t) = drop k (waiters (adm s)) \<and>
             newly_granted s t = set (take k (waiters (adm s))) \<and>
             (\<forall>i \<in> set (take k (waiters (adm s))). wch (adm t) i)) \<or>
          newly_granted s t = {} \<and>
            ((\<exists>i pol. pcs s i = ParkingWith pol \<and> pcs t i = Waiting \<and>
                i \<notin> set (waiters (adm s)) \<and> waiters (adm t) = waiters (adm s) @ [i]) \<or>
             (\<exists>i e. pcs s i = Abandoning e \<and> pcs t i = Done (Some e) \<and>
                i \<in> set (waiters (adm s)) \<and> waiters (adm t) = remove1 i (waiters (adm s))) \<or>
             (pcs t = pcs s \<and> waiters (adm t) = [] \<and>
                (\<forall>i \<in> set (waiters (adm s)).
                   wstate (adm t) i = waiterRetired \<and> wch (adm t) i)))) \<and>
         (\<forall>i r. pcs s i = Releasing r \<and> pcs t i \<noteq> Releasing r \<and> waiters (adm s) \<noteq> [] \<and>
            (MaxActiveRequests (policy (adm s)) \<le> 0 \<or>
             active (adm s) - 1 < MaxActiveRequests (policy (adm s))) \<longrightarrow>
            pcs t i = Done r \<and> waiters (adm t) = tl (waiters (adm s)) \<and>
            newly_granted s t = {hd (waiters (adm s))} \<and> active (adm t) = active (adm s))"
proof -
  have inv: "asys_inv s" using assms(1) by (rule admission_system.reachable_inv) blast
  from fifo_step [OF inv assms(2)] release_hands_over [OF inv assms(2)] show ?thesis
    unfolding fifo_grant_def fifo_arrival_def fifo_gave_up_def fifo_retired_def by blast
qed

subsection \<open>Two interleavings against the contract\<close>

definition one_slot :: Policy where
  "one_slot = DefaultPolicy\<lparr>MaxActiveRequests := 1, MaxPendingRequests := 1\<rparr>"

lemma asys_init_one_slot:
  "asys_init one_slot =
     \<lparr>adm = \<lparr>policy = one_slot, active = 0, pending = 0, waiters = [],
             wstate = (\<lambda>_. waiterParked), wch = (\<lambda>_. False)\<rparr>, pcs = (\<lambda>_. Idle)\<rparr>"
  by (simp add: asys_init_def NewAdmission_def admission_SetPolicy_def wakeUpToLimit_eq
      wake_count_def grant_first_def one_slot_def DefaultPolicy_def)

text \<open>Request 0 holds the only slot and request 1 has found the limit reached.\<close>

definition contended :: "pc \<Rightarrow> pc \<Rightarrow> asys" where
  "contended p q =
     \<lparr>adm = \<lparr>policy = one_slot, active = 1, pending = 0, waiters = [],
             wstate = (\<lambda>_. waiterParked), wch = (\<lambda>_. False)\<rparr>,
      pcs = (\<lambda>_. Idle)(0 := p, 1 := q)\<rparr>"

definition queued :: "int \<Rightarrow> pc \<Rightarrow> pc \<Rightarrow> asys" where
  "queued n p q =
     \<lparr>adm = \<lparr>policy = one_slot, active = n, pending = 1, waiters = [1],
             wstate = (\<lambda>_. waiterParked), wch = (\<lambda>_. False)\<rparr>,
      pcs = (\<lambda>_. Idle)(0 := p, 1 := q)\<rparr>"

lemma MaxActive_one_slot [simp]: "MaxActiveRequests one_slot = 1"
  and MaxPending_one_slot [simp]: "MaxPendingRequests one_slot = 1"
  by (simp_all add: one_slot_def)

lemma adm_step_to: "adm_step P s t \<Longrightarrow> t = t' \<Longrightarrow> adm_step P s t'"
  by simp

lemmas scenario_defs =
  asys_init_one_slot contended_def queued_def at_pc_def fun_eq_iff

lemma contended_reachable:
  "reachable_by (adm_step P) (asys_init one_slot) (contended Holding (ParkingWith one_slot))"
proof -
  let ?s1 = "at_pc (asys_init one_slot) 0 (Loaded 1)"
  have "adm_step P (asys_init one_slot) ?s1"
    by (rule adm_step_to [OF acquire_load [where i = 0]]) (simp_all add: scenario_defs)
  moreover have "adm_step P ?s1 (contended Holding Idle)"
    by (rule adm_step_to [OF acquire_claim [where i = 0 and a = "(adm ?s1)\<lparr>active := 1\<rparr>"]])
       (simp_all add: scenario_defs acquire_fast_def)
  moreover have "adm_step P (contended Holding Idle) (contended Holding (Loaded 1))"
    by (rule adm_step_to [OF acquire_load [where i = 1]]) (simp_all add: scenario_defs)
  moreover have "adm_step P (contended Holding (Loaded 1)) (contended Holding Parking)"
    by (rule adm_step_to [OF acquire_full [where i = 1 and limit = 1
          and a = "adm (contended Holding Idle)"]])
       (simp_all add: scenario_defs acquire_fast_def)
  moreover have "adm_step P (contended Holding Parking)
      (contended Holding (ParkingWith one_slot))"
    by (rule adm_step_to [OF park_load [where i = 1]]) (simp_all add: scenario_defs)
  ultimately show ?thesis by (meson reachable_by.intros)
qed

lemma park_step: "adm_step P (contended p (ParkingWith one_slot)) (queued 1 p Waiting)"
  by (rule adm_step_to [OF park_queued [where i = 1 and pol = one_slot
        and a = "adm (queued 1 p Waiting)"]])
     (simp_all add: scenario_defs park_locked_def)

lemma stuck_steps:
  assumes "adm_step P (queued 0 (Done None) Waiting) t"
  shows "(\<exists>i. i \<noteq> 1 \<and> pcs (queued 0 (Done None) Waiting) i = Idle \<and>
            t = at_pc (queued 0 (Done None) Waiting) i (Loaded 1)) \<or>
         (\<exists>e. t = at_pc (queued 0 (Done None) Waiting) 1 (Abandoning e)) \<or>
         (\<exists>p \<in> P. adm t = admission_SetPolicy (Some p) (adm (queued 0 (Done None) Waiting)) \<and>
            pcs t = pcs (queued 0 (Done None) Waiting)) \<or>
         adm t = Retire (adm (queued 0 (Done None) Waiting)) \<and>
            pcs t = pcs (queued 0 (Done None) Waiting)"
  using assms
  by (cases rule: adm_step.cases) (auto simp: queued_def split: if_splits)

text \<open>C8: A wakeup can be lost. Between the unlock of a release that found the queue empty
  and its decrement, an arriving request can still see the limit reached and park. A state can
  therefore be reached in which a request is parked although no slot is in use and every other
  request has finished or has not begun. Nothing in that state wakes it: the only steps that are
  possible there are a new request's first move, its own client's giving up, a policy reload and
  the retirement of the pool, and a request that arrives later can be admitted ahead of it.\<close>

theorem admission_lost_wakeup:
  "\<exists>s. reachable_by (adm_step P) (asys_init one_slot) s \<and>
       active (adm s) = 0 \<and> waiters (adm s) = [1] \<and> pcs s 1 = Waiting \<and> \<not> wch (adm s) 1 \<and>
       (\<forall>i. i = 1 \<or> pcs s i \<in> {Idle, Done None}) \<and>
       (\<forall>t. adm_step P s t \<longrightarrow>
          (\<exists>i. i \<noteq> 1 \<and> pcs s i = Idle \<and> t = at_pc s i (Loaded 1)) \<or>
          (\<exists>e. t = at_pc s 1 (Abandoning e)) \<or>
          (\<exists>p \<in> P. adm t = admission_SetPolicy (Some p) (adm s) \<and> pcs t = pcs s) \<or>
          adm t = Retire (adm s) \<and> pcs t = pcs s) \<and>
       (\<exists>t. reachable_by (adm_step P) s t \<and> pcs t 2 = Holding \<and> pcs t 1 = Waiting \<and>
            waiters (adm t) = [1])"
proof -
  let ?c = "\<lambda>p. contended p (ParkingWith one_slot)"
  let ?d = "queued 1 (Decrementing None) Waiting" and ?s = "queued 0 (Done None) Waiting"
  have "adm_step P (?c Holding) (?c (Releasing None))"
    by (rule adm_step_to [OF finish [where i = 0]]) (simp_all add: scenario_defs)
  moreover have "adm_step P (?c (Releasing None)) (?c (Decrementing None))"
    by (rule adm_step_to [OF release_unlock [where i = 0 and a = "adm (?c Holding)"]])
       (simp_all add: scenario_defs release_locked_def)
  moreover have "adm_step P (?c (Decrementing None)) ?d" by (rule park_step)
  moreover have "adm_step P ?d ?s"
    by (rule adm_step_to [OF release_dec [where i = 0]])
       (simp_all add: scenario_defs release_decrement_def)
  ultimately have reach: "reachable_by (adm_step P) (asys_init one_slot) ?s"
    using contended_reachable [of P] by (meson reachable_by.intros)
  let ?t1 = "at_pc ?s 2 (Loaded 1)" and ?t2 = "at_pc (queued 1 (Done None) Waiting) 2 Holding"
  have "adm_step P ?s ?t1"
    by (rule adm_step_to [OF acquire_load [where i = 2]]) (simp_all add: scenario_defs)
  moreover have "adm_step P ?t1 ?t2"
    by (rule adm_step_to [OF acquire_claim [where i = 2
          and a = "adm (queued 1 (Done None) Waiting)"]])
       (simp_all add: scenario_defs acquire_fast_def)
  ultimately have "reachable_by (adm_step P) ?s ?t2"
    by (meson reachable_by.intros)
  moreover have "active (adm ?s) = 0" "waiters (adm ?s) = [1]" "pcs ?s 1 = Waiting"
    "\<not> wch (adm ?s) 1" "\<forall>i. i = 1 \<or> pcs ?s i \<in> {Idle, Done None}"
    "pcs ?t2 2 = Holding" "pcs ?t2 1 = Waiting" "waiters (adm ?t2) = [1]"
    by (simp_all add: queued_def at_pc_def)
  ultimately show ?thesis using reach stuck_steps [of P] by blast
qed

text \<open>C9: Retiring the pool can leave the active counter one short. A parked request that
  is retired while its own client gives up takes the give-up branch, which treats every
  waiter that is no longer parked as granted and returns a slot it never held: here the
  counter reads 0 while request 0 still runs.\<close>

theorem admission_retired_waiter_double_release:
  "\<exists>s. reachable_by (adm_step P) (asys_init one_slot) s \<and> active (adm s) = 0 \<and>
       pcs s 0 = Holding \<and> pcs s 1 = Done (Some ErrContext)"
proof -
  let ?q = "queued 1 Holding Waiting"
  let ?a = "Retire (adm ?q)"
  let ?r = "\<lambda>n p. \<lparr>adm = ?a\<lparr>active := n\<rparr>, pcs = (\<lambda>_. Idle)(0 := Holding, 1 := p)\<rparr>"
  have "adm_step P (contended Holding (ParkingWith one_slot)) ?q" by (rule park_step)
  moreover have "adm_step P ?q (?r 1 Waiting)"
    by (rule adm_step_to [OF retire_pool]) (simp add: scenario_defs Retire_eq)
  moreover have "adm_step P (?r 1 Waiting) (?r 1 (Abandoning ErrContext))"
    by (rule adm_step_to [OF give_up [where i = 1]]) (simp_all add: scenario_defs)
  moreover have "adm_step P (?r 1 (Abandoning ErrContext)) (?r 1 (Releasing (Some ErrContext)))"
    by (rule adm_step_to [OF abandon_release [where i = 1 and a = "?a\<lparr>active := 1\<rparr>"]])
       (simp_all add: scenario_defs abandon_locked_def Retire_eq)
  moreover have "adm_step P (?r 1 (Releasing (Some ErrContext)))
      (?r 1 (Decrementing (Some ErrContext)))"
    by (rule adm_step_to [OF release_unlock [where i = 1 and a = "?a\<lparr>active := 1\<rparr>"]])
       (simp_all add: scenario_defs release_locked_def Retire_eq)
  moreover have "adm_step P (?r 1 (Decrementing (Some ErrContext)))
      (?r 0 (Done (Some ErrContext)))"
    by (rule adm_step_to [OF release_dec [where i = 1]])
       (simp_all add: scenario_defs release_decrement_def)
  ultimately have "reachable_by (adm_step P) (asys_init one_slot) (?r 0 (Done (Some ErrContext)))"
    using contended_reachable [of P] by (meson reachable_by.intros)
  then show ?thesis by (intro exI conjI) (assumption, simp_all)
qed

subsection \<open>Witnesses\<close>

theorem admission_accounting_exact_witness:
  "pending (adm (contended Holding (ParkingWith one_slot))) = 0"
  using admission_accounting_exact [OF contended_reachable [of "{}"]]
  by (simp add: contended_def)

theorem admission_bounded_witness:
  "active (adm (contended Holding (ParkingWith one_slot))) \<le> 1"
  using admission_bounded [OF contended_reachable [of "{}"], of 1 1]
  by (simp add: policy_within_def)

theorem admission_fifo_witness:
  "newly_granted (contended Holding (ParkingWith one_slot)) (queued 1 Holding Waiting) = {}"
  using admission_fifo [OF contended_reachable [of "{}"] park_step, THEN conjunct1]
  by (auto simp: contended_def queued_def)

theorem admission_lost_wakeup_witness:
  "\<exists>s. reachable_by (adm_step {}) (asys_init one_slot) s \<and>
       active (adm s) = 0 \<and> waiters (adm s) = [1] \<and> pcs s 1 = Waiting"
  using admission_lost_wakeup [of "{}"] by blast

end
