(* ===== verification/Retry.thy ===== *)
theory Retry
  imports Resilience
begin

text \<open>
  \<^verbatim>\<open>src/internal/upstream/retry.go\<close>: the eligibility rule for a retry, the backoff
  schedule, the retry budget and the resolution of the retry configuration. The driver
  \<^verbatim>\<open>Pool.Do\<close> is in the theory \<open>Pool_Do\<close>, after the pool it drives.

  Durations that can overflow (the doubling of the backoff) are 64-bit words read as signed
  numbers; the counters of the budget are integers, because they count events. Go's integer
  division agrees with \<open>div\<close> here: both operands are non-negative wherever it is used.
\<close>

subsection \<open>Errors\<close>

text \<open>An error is a sentinel or wraps another error with a message; \<open>errors_Is\<close> walks
  the chain as \<^verbatim>\<open>errors.Is\<close> does.\<close>

datatype errval = Sentinel string | Wrapped string errval

fun errors_Is :: "errval \<Rightarrow> errval \<Rightarrow> bool" where
  "errors_Is (Sentinel m) t = (Sentinel m = t)"
| "errors_Is (Wrapped m e) t = (Wrapped m e = t \<or> errors_Is e t)"

definition context_Canceled :: errval where
  "context_Canceled = Sentinel ''context canceled''"

definition context_DeadlineExceeded :: errval where
  "context_DeadlineExceeded = Sentinel ''context deadline exceeded''"

subsection \<open>The eligibility rule\<close>

datatype StopReason =
    StopNone
  | StopSuccess
  | StopAttempts
  | StopNotRetryable
  | StopResponseStarted
  | StopTerminalError
  | StopCancelled
  | StopDeadline
  | StopBudget
  | StopNoBackend

record Decision =
  d_Err :: "errval option"
  d_Attempts :: int
  d_MaxAttempts :: int
  d_ResponseStarted :: bool
  d_Replayable :: bool
  d_Terminal :: bool
  d_Remaining :: duration
  d_UntriedBackend :: bool
  d_BudgetAllows :: bool

definition Retryable :: "Decision \<Rightarrow> StopReason" where
  "Retryable d =
     (case d_Err d of
        None \<Rightarrow> StopSuccess
      | Some e \<Rightarrow>
          if d_ResponseStarted d then StopResponseStarted
          else if \<not> d_Replayable d then StopNotRetryable
          else if d_Terminal d then StopTerminalError
          else if errors_Is e context_Canceled then StopCancelled
          else if d_MaxAttempts d > 0 \<and> d_Attempts d \<ge> d_MaxAttempts d then StopAttempts
          else if d_Remaining d \<le> 0 then StopDeadline
          else if \<not> d_UntriedBackend d then StopNoBackend
          else if \<not> d_BudgetAllows d then StopBudget
          else StopNone)"

text \<open>Asking the budget last is sound: no other answer depends on it.\<close>

lemma Retryable_budget_last:
  "Retryable (d\<lparr>d_BudgetAllows := b\<rparr>) =
     (if Retryable (d\<lparr>d_BudgetAllows := True\<rparr>) = StopNone \<and> \<not> b then StopBudget
      else Retryable (d\<lparr>d_BudgetAllows := True\<rparr>))"
  by (simp add: Retryable_def split: option.splits)

subsection \<open>Backoff\<close>

text \<open>The doubling loop of \<^verbatim>\<open>backoffFor\<close>, with \<open>k\<close> rounds of the counter left.\<close>

fun backoff_double :: "nat \<Rightarrow> 64 word \<Rightarrow> 64 word \<Rightarrow> 64 word" where
  "backoff_double 0 d mx = d"
| "backoff_double (Suc k) d mx =
     (if sint d < sint mx then
        let d' = d * 2 in
        if sint d' \<le> 0 then mx else backoff_double k d' mx
      else d)"

definition backoffFor ::
  "int \<Rightarrow> 64 word \<Rightarrow> 64 word \<Rightarrow> 64 word \<Rightarrow> (64 word \<Rightarrow> 64 word) \<Rightarrow> 64 word \<times> bool" where
  "backoffFor n initial mx remaining jitter =
     (if sint initial \<le> 0 then (0, sint remaining > 0)
      else
        let d = backoff_double (nat (n - 1)) initial mx;
            d = (if sint mx > 0 \<and> sint d > sint mx then mx else d);
            d = jitter d in
        if sint d \<ge> sint remaining then (0, False) else (d, True))"

text \<open>\<^verbatim>\<open>fullJitter\<close> for a random source \<open>r\<close>, the value \<^verbatim>\<open>rand.Int64N\<close>
  returns for its argument.\<close>

definition fullJitter :: "(int \<Rightarrow> int) \<Rightarrow> 64 word \<Rightarrow> 64 word" where
  "fullJitter r d = (if sint d \<le> 0 then 0 else word_of_int (r (sint d)))"

lemma sint_double:
  fixes d :: "64 word"
  assumes "0 < sint d"
  shows "(if 2 * sint d < 2 ^ 63 then sint (d * 2) = 2 * sint d else sint (d * 2) \<le> 0)"
proof -
  have b: "sint d < 2 ^ 63" using sint_lt [of d] by simp
  have eq: "sint (d * 2) = signed_take_bit 63 (2 * sint d)"
    by (simp add: sint_word_ariths(3) mult.commute)
  show ?thesis
  proof (cases "2 * sint d < 2 ^ 63")
    case True
    then show ?thesis
      using assms by (simp add: eq signed_take_bit_int_eq_self)
  next
    case False
    have "signed_take_bit 63 (2 * sint d) = (2 * sint d + 2 ^ 63) mod 2 ^ 64 - 2 ^ 63"
      by (simp add: signed_take_bit_eq_take_bit_shift take_bit_eq_mod)
    also have "(2 * sint d + 2 ^ 63) mod 2 ^ 64 = 2 * sint d + 2 ^ 63 - 2 ^ 64"
      using False b by (subst mod_pos_geq) (auto simp: mod_pos_pos_trivial)
    finally show ?thesis using False b by (simp add: eq)
  qed
qed

text \<open>The loop computes the mathematical doubling, cut off at the maximum, whatever the
  machine does on overflow.\<close>

lemma backoff_double_exact:
  assumes "0 < sint d" and "0 < sint mx"
  shows "min (sint (backoff_double k d mx)) (sint mx) = min (sint d * 2 ^ k) (sint mx)"
  using assms
proof (induction k arbitrary: d)
  case (Suc k)
  show ?case
  proof (cases "sint d < sint mx")
    case True
    show ?thesis
    proof (cases "2 * sint d < 2 ^ 63")
      case True
      then have "sint (d * 2) = 2 * sint d" using sint_double [OF Suc.prems(1)] by simp
      with Suc True \<open>sint d < sint mx\<close> show ?thesis by (simp add: Let_def mult.assoc)
    next
      case False
      then have "sint (d * 2) \<le> 0" using sint_double [OF Suc.prems(1)] by simp
      moreover have "sint mx < 2 ^ 63" using sint_lt [of mx] by simp
      moreover have "2 * sint d \<le> sint d * (2 * 2 ^ k)" using Suc.prems(1) by simp
      then have "sint mx \<le> sint d * (2 * 2 ^ k)" using False calculation(2) by linarith
      ultimately show ?thesis
        using \<open>sint d < sint mx\<close> by (simp add: Let_def min_absorb2)
    qed
  next
    case False
    have "sint d * 1 \<le> sint d * 2 ^ Suc k"
      using Suc.prems(1) by (intro mult_left_mono one_le_power) auto
    with False show ?thesis by (simp add: min_absorb2)
  qed
qed simp

lemma backoff_double_pos:
  "0 < sint d \<Longrightarrow> 0 < sint mx \<Longrightarrow> 0 < sint (backoff_double k d mx)"
  by (induction k arbitrary: d) (auto simp: Let_def)

lemma fullJitter_range:
  assumes "\<forall>m > 0. 0 \<le> r m \<and> r m < m" and "0 < sint d"
  shows "sint (fullJitter r d) = r (sint d)"
proof -
  have "0 \<le> r (sint d)" "r (sint d) < 2 ^ 63"
    using assms sint_lt [of d] by (auto intro: less_trans)
  then show ?thesis
    using assms(2)
    by (simp add: fullJitter_def sint_uint uint_word_of_int signed_take_bit_take_bit
        signed_take_bit_int_eq_self)
qed

text \<open>With a positive maximum, the delay before attempt n + 1 is drawn below the smaller
  of initial * 2 ^ (n - 1) and the maximum, exactly, although the doubling runs on 64-bit
  integers that overflow. The driver is told to stop exactly when the drawn delay would not
  end before the deadline, and a delay it is given always leaves time for an attempt. A
  non-positive initial interval means immediate failover while any time is left.\<close>

lemma backoffFor_exact:
  assumes "\<forall>m > 0. 0 \<le> r m \<and> r m < m" and "0 < sint mx" and "1 \<le> n"
    and "backoffFor n initial mx remaining (fullJitter r) = (d, ok)"
  shows "if sint initial \<le> 0 then d = 0 \<and> ok = (0 < sint remaining)
         else \<exists>c. c = min (sint initial * 2 ^ nat (n - 1)) (sint mx) \<and> 0 \<le> r c \<and> r c < c \<and>
                  ok = (r c < sint remaining) \<and> sint d = (if ok then r c else 0)"
proof (cases "sint initial \<le> 0")
  case True
  with assms(4) show ?thesis by (auto simp: backoffFor_def)
next
  case False
  let ?d = "backoff_double (nat (n - 1)) initial mx"
  let ?e = "if sint mx > 0 \<and> sint ?d > sint mx then mx else ?d"
  have e: "sint ?e = min (sint initial * 2 ^ nat (n - 1)) (sint mx)"
    using backoff_double_exact [of initial mx "nat (n - 1)"] False assms(2)
    by (auto simp: min_def split: if_splits)
  have pos: "0 < sint ?e" using backoff_double_pos [of initial mx] False assms(2) by simp
  have j: "sint (fullJitter r ?e) = r (sint ?e)" by (rule fullJitter_range [OF assms(1) pos])
  have "(d, ok) = (if sint (fullJitter r ?e) \<ge> sint remaining then (0, False)
                   else (fullJitter r ?e, True))"
    using assms(4) False by (simp add: backoffFor_def Let_def)
  then have "ok = (r (sint ?e) < sint remaining) \<and> sint d = (if ok then r (sint ?e) else 0)"
    using j by (auto split: if_splits)
  moreover have "0 \<le> r (sint ?e) \<and> r (sint ?e) < sint ?e" using assms(1) pos by blast
  ultimately show ?thesis using e False by simp
qed

lemma backoffFor_exact_example:
  "backoffFor 4 100 500 900 (fullJitter (\<lambda>m. m - 1)) = (499, True) \<and>
   (\<exists>c. c = (500 :: int) \<and> c - 1 < c)"
proof -
  have e: "backoffFor 4 100 500 900 (fullJitter (\<lambda>m. m - 1)) = (499, True)" by code_simp
  from backoffFor_exact [OF _ _ _ e] show ?thesis using e by simp
qed

end
