(* ===== verification/Budget.thy ===== *)
theory Budget
  imports Retry
begin

text \<open>
  The retry budget of \<^verbatim>\<open>src/internal/upstream/retry.go\<close>. A budget holds the allowance
  in percent and the live accounting bucket. Reading the clock is an argument: \<open>now\<close> is
  \<^verbatim>\<open>b.now().UnixNano()\<close>.

  In this theory a call is one step: what it does when no other goroutine's operation comes
  between its own. Theory \<^verbatim>\<open>Budget_Steps\<close> breaks the calls into their atomic
  operations, shows that a call which runs alone is the step defined here, and treats the
  interleavings, in which a bucket is rotated out while a call still holds it.
\<close>

definition retryBudgetWindow :: duration where
  "retryBudgetWindow = 10 * second"

definition minFreeRetries :: int where
  "minFreeRetries = 3"

record budgetWindow =
  w_epoch :: int
  prevPrimaries :: int
  prevRetries :: int
  primaries :: int
  retries :: int

record Budget =
  percent :: int
  win :: budgetWindow

definition fresh_window :: "int \<Rightarrow> budgetWindow" where
  "fresh_window e =
     \<lparr>w_epoch = e, prevPrimaries = 0, prevRetries = 0, primaries = 0, retries = 0\<rparr>"

definition budget_epoch :: "nanos \<Rightarrow> int" where
  "budget_epoch now = now div retryBudgetWindow"

definition NewBudget :: "int \<Rightarrow> nanos \<Rightarrow> Budget" where
  "NewBudget p now = \<lparr>percent = p, win = fresh_window (budget_epoch now)\<rparr>"

definition SetPercent :: "int \<Rightarrow> Budget \<Rightarrow> Budget" where
  "SetPercent p b = b\<lparr>percent := p\<rparr>"

text \<open>\<^verbatim>\<open>window\<close>: the budget after the rotation, whose bucket is the one returned.\<close>

definition budget_window :: "nanos \<Rightarrow> Budget \<Rightarrow> Budget" where
  "budget_window now b =
     (let e = budget_epoch now; w = win b in
      if w_epoch w \<ge> e then b
      else if e = w_epoch w + 1
           then b\<lparr>win := (fresh_window e)\<lparr>prevPrimaries := primaries w,
                                         prevRetries := retries w\<rparr>\<rparr>
           else b\<lparr>win := fresh_window e\<rparr>)"

definition Primary :: "nanos \<Rightarrow> Budget \<Rightarrow> Budget" where
  "Primary now b =
     (if percent b \<le> 0 then b
      else let b' = budget_window now b in
           b'\<lparr>win := (win b')\<lparr>primaries := primaries (win b') + 1\<rparr>\<rparr>)"

definition Allow :: "nanos \<Rightarrow> Budget \<Rightarrow> bool \<times> Budget" where
  "Allow now b =
     (if percent b \<le> 0 then (True, b)
      else
        let b' = budget_window now b; w = win b';
            total = retries w + prevRetries w;
            prim = primaries w + prevPrimaries w in
        if total \<ge> prim * percent b div 100 + minFreeRetries then (False, b')
        else (True, b'\<lparr>win := w\<lparr>retries := retries w + 1\<rparr>\<rparr>))"

record BudgetStatus =
  bs_Percent :: int
  bs_Primaries :: int
  bs_Retries :: int
  bs_Remaining :: int

definition budget_Status :: "nanos \<Rightarrow> Budget \<Rightarrow> BudgetStatus \<times> Budget" where
  "budget_Status now b =
     (if percent b \<le> 0
      then (\<lparr>bs_Percent = percent b, bs_Primaries = 0, bs_Retries = 0, bs_Remaining = 0\<rparr>, b)
      else
        let b' = budget_window now b; w = win b';
            prim = primaries w + prevPrimaries w;
            ret = retries w + prevRetries w;
            r = prim * percent b div 100 + minFreeRetries - ret in
        (\<lparr>bs_Percent = percent b, bs_Primaries = prim, bs_Retries = ret,
          bs_Remaining = (if r > 0 then r else 0)\<rparr>, b'))"

lemmas budget_ops [op_defs] =
  NewBudget_def SetPercent_def budget_window_def Primary_def Allow_def budget_Status_def

subsection \<open>Status and consumption agree\<close>

fun allow_times :: "nat \<Rightarrow> nanos \<Rightarrow> Budget \<Rightarrow> bool list" where
  "allow_times 0 now b = []"
| "allow_times (Suc k) now b = (case Allow now b of (ok, b') \<Rightarrow> ok # allow_times k now b')"

lemma budget_window_idem: "budget_window now (budget_window now b) = budget_window now b"
  by (auto simp: budget_window_def Let_def fresh_window_def)

lemma budget_window_percent [simp]: "percent (budget_window now b) = percent b"
  by (simp add: budget_window_def Let_def)

lemma budget_window_epoch: "budget_epoch now \<le> w_epoch (win (budget_window now b))"
  by (auto simp: budget_window_def Let_def fresh_window_def)

lemma budget_window_current: "budget_epoch now \<le> w_epoch (win b) \<Longrightarrow> budget_window now b = b"
  by (simp add: budget_window_def)

lemma budget_window_retries:
  "budget_window now ((budget_window now b)\<lparr>win := (win (budget_window now b))\<lparr>retries := r\<rparr>\<rparr>) =
     (budget_window now b)\<lparr>win := (win (budget_window now b))\<lparr>retries := r\<rparr>\<rparr>"
  by (rule budget_window_current) (simp add: budget_window_epoch)

lemma Allow_remaining:
  assumes "0 < percent b"
  shows "fst (Allow now b) = (0 < bs_Remaining (fst (budget_Status now b)))"
    and "bs_Remaining (fst (budget_Status now (snd (Allow now b)))) =
           bs_Remaining (fst (budget_Status now b)) - (if fst (Allow now b) then 1 else 0)"
    and "percent (snd (Allow now b)) = percent b"
  using assms
  by (simp_all add: Allow_def budget_Status_def Let_def budget_window_idem budget_window_retries)

lemma Remaining_nonneg: "0 \<le> bs_Remaining (fst (budget_Status now b))"
  by (simp add: budget_Status_def Let_def)

text \<open>The remaining allowance shown to an operator is the number of retries the budget
  really grants: at one instant, the next calls to Allow succeed exactly that many times and
  fail from then on, and reading the status spends nothing.\<close>

lemma budget_status_exact:
  assumes "0 < percent b"
  shows "allow_times k now b =
           map (\<lambda>i. int i < bs_Remaining (fst (budget_Status now b))) [0..<k] \<and>
         (0 < k \<longrightarrow> snd (Allow now (snd (budget_Status now b))) = snd (Allow now b))"
proof
  show "allow_times k now b =
          map (\<lambda>i. int i < bs_Remaining (fst (budget_Status now b))) [0..<k]"
    using assms
  proof (induction k arbitrary: b)
    case (Suc k)
    let ?R = "bs_Remaining (fst (budget_Status now b))"
    let ?b = "snd (Allow now b)"
    have "allow_times k now ?b = map (\<lambda>i. int i < bs_Remaining (fst (budget_Status now ?b))) [0..<k]"
      by (rule Suc.IH) (simp add: Allow_remaining(3) [OF Suc.prems] Suc.prems)
    also have "\<dots> = map (\<lambda>i. int (Suc i) < ?R) [0..<k]"
      using Allow_remaining(1,2) [OF Suc.prems, of now] Remaining_nonneg [of now b] by auto
    finally show ?case
      using Allow_remaining(1) [OF Suc.prems, of now]
      by (simp add: case_prod_unfold upt_conv_Cons map_Suc_upt [symmetric] del: upt_Suc)
  qed simp
qed (use assms in \<open>simp add: budget_Status_def Allow_def Let_def budget_window_idem\<close>)

lemma budget_status_exact_example:
  "allow_times 5 0 (NewBudget 20 0) = [True, True, True, False, False]"
  using budget_status_exact [of "NewBudget 20 0" 5 0]
  by (simp add: NewBudget_def budget_Status_def budget_window_def fresh_window_def
      minFreeRetries_def budget_epoch_def upt_rec)

subsection \<open>Amplification over a whole run\<close>

datatype budget_event =
    EvPrimary nanos
  | EvAllow nanos
  | EvSetPercent int
  | EvStatus nanos

text \<open>A budget together with the primaries recorded and the retries granted so far.\<close>

record brun =
  bud :: Budget
  seen :: int
  granted :: int

definition budget_exec :: "brun \<Rightarrow> budget_event \<Rightarrow> brun" where
  "budget_exec s e =
     (case e of
        EvPrimary t \<Rightarrow> s\<lparr>bud := Primary t (bud s), seen := seen s + 1\<rparr>
      | EvAllow t \<Rightarrow>
          (case Allow t (bud s) of
             (ok, b) \<Rightarrow> s\<lparr>bud := b, granted := granted s + (if ok then 1 else 0)\<rparr>)
      | EvSetPercent p \<Rightarrow> s\<lparr>bud := SetPercent p (bud s)\<rparr>
      | EvStatus t \<Rightarrow> s\<lparr>bud := snd (budget_Status t (bud s))\<rparr>)"

definition brun_init :: "int \<Rightarrow> nanos \<Rightarrow> brun" where
  "brun_init p t = \<lparr>bud = NewBudget p t, seen = 0, granted = 0\<rparr>"

fun percent_event :: "int \<Rightarrow> budget_event \<Rightarrow> bool" where
  "percent_event p (EvSetPercent q) = (0 < q \<and> q \<le> p)"
| "percent_event p _ = True"

text \<open>\<open>share p n\<close> retries are earned by \<open>n\<close> primaries; \<open>free k\<close> more come from the
  floor in \<open>k\<close> windows, two at a time.\<close>

definition share :: "int \<Rightarrow> int \<Rightarrow> int" where
  "share p n = n * p div 100"

definition free :: "int \<Rightarrow> int" where
  "free k = minFreeRetries * (k div 2 + 1)"

lemma share_add: "share p m + share p n \<le> share p (m + n)"
proof -
  have "0 \<le> (m * p mod 100 + n * p mod 100) div 100"
    by (intro pos_imp_zdiv_nonneg_iff [THEN iffD2]) auto
  then show ?thesis 
    using div_add1_eq [of "m * p" "n * p" 100] unfolding share_def distrib_right by linarith
qed

lemma share_mono: "0 \<le> n \<Longrightarrow> q \<le> p \<Longrightarrow> n \<le> m \<Longrightarrow> 0 \<le> q \<Longrightarrow> share q n \<le> share p m"
  unfolding share_def by (intro zdiv_mono1 mult_mono) auto

lemma free_mono: "j \<le> k \<Longrightarrow> free j \<le> free k"
  unfolding free_def minFreeRetries_def by (simp add: zdiv_mono1)

lemma free_two: "free (k - 2) = free k - minFreeRetries"
proof -
  have "(k - 2) div 2 = k div 2 - 1" by simp
  then show ?thesis by (simp add: free_def algebra_simps)
qed

text \<open>\<open>A\<close> and \<open>B\<close> are the primaries and retries of the windows that have left the
  two live buckets. The three bounds are those for the history up to two windows ago, up to
  the previous window, and up to now.\<close>

definition budget_inv :: "int \<Rightarrow> int \<Rightarrow> brun \<Rightarrow> bool" where
  "budget_inv p e0 s \<longleftrightarrow>
     (let w = win (bud s); n = w_epoch w - e0;
          A = seen s - primaries w - prevPrimaries w;
          B = granted s - retries w - prevRetries w in
      0 < percent (bud s) \<and> percent (bud s) \<le> p \<and> 0 \<le> n \<and> 0 \<le> A \<and>
      0 \<le> primaries w \<and> 0 \<le> prevPrimaries w \<and>
      B \<le> share p A + free (n - 2) \<and>
      B + prevRetries w \<le> share p (A + prevPrimaries w) + free (n - 1) \<and>
      granted s \<le> share p (seen s) + free n)"

lemma budget_window_inv:
  assumes "budget_inv p e0 s"
  shows "budget_inv p e0 (s\<lparr>bud := budget_window t (bud s)\<rparr>)"
proof -
  let ?w = "win (bud s)" and ?e = "budget_epoch t"
  have facts: "granted s \<le> share p (seen s) + free (w_epoch ?w - e0)"
    "granted s - retries ?w \<le> share p (seen s - primaries ?w) + free (w_epoch ?w - e0 - 1)"
    using assms by (simp_all add: budget_inv_def Let_def)
  consider (cur) "?e \<le> w_epoch ?w" | (succ) "?e = w_epoch ?w + 1" | (gap) "w_epoch ?w + 2 \<le> ?e"
    by linarith
  then show ?thesis
  proof cases
    case cur
    with assms show ?thesis by (simp add: budget_window_current)
  next
    case succ
    have "free (w_epoch ?w - e0) \<le> free (?e - e0)" using succ by (intro free_mono) simp
    with succ facts assms show ?thesis
      by (simp add: budget_inv_def budget_window_def fresh_window_def Let_def)
  next
    case gap
    have "free (w_epoch ?w - e0) \<le> free (?e - e0 - 2)" "free (?e - e0 - 2) \<le> free (?e - e0 - 1)"
      "free (?e - e0 - 1) \<le> free (?e - e0)"
      using gap by (auto intro!: free_mono)
    with gap facts assms show ?thesis
      by (simp add: budget_inv_def budget_window_def fresh_window_def Let_def)
  qed
qed

lemma Primary_inv:
  assumes "budget_inv p e0 s"
  shows "budget_inv p e0 (s\<lparr>bud := Primary t (bud s), seen := seen s + 1\<rparr>)"
proof -
  let ?s = "s\<lparr>bud := budget_window t (bud s)\<rparr>"
  have inv: "budget_inv p e0 ?s" by (rule budget_window_inv [OF assms])
  then have "share p (seen s) \<le> share p (seen s + 1)"
    by (intro share_mono) (auto simp: budget_inv_def Let_def)
  with inv show ?thesis
    by (simp add: budget_inv_def Primary_def Let_def algebra_simps)
qed

lemma Allow_inv:
  assumes "budget_inv p e0 s" and "Allow t (bud s) = (ok, b)"
  shows "budget_inv p e0 (s\<lparr>bud := b, granted := granted s + (if ok then 1 else 0)\<rparr>)"
proof -
  let ?s = "s\<lparr>bud := budget_window t (bud s)\<rparr>"
  let ?w = "win (bud ?s)"
  let ?A = "seen s - primaries ?w - prevPrimaries ?w"
  let ?P = "primaries ?w + prevPrimaries ?w"
  have inv: "budget_inv p e0 ?s" by (rule budget_window_inv [OF assms(1)])
  have q: "0 < percent (bud s)" "percent (bud s) \<le> p"
    using assms(1) by (simp_all add: budget_inv_def Let_def)
  show ?thesis
  proof (cases ok)
    case False
    with assms(2) q inv show ?thesis by (auto simp: Allow_def Let_def split: if_splits)
  next
    case True
    then have b: "b = (bud ?s)\<lparr>win := ?w\<lparr>retries := retries ?w + 1\<rparr>\<rparr>"
      and lt: "retries ?w + prevRetries ?w < share (percent (bud s)) ?P + minFreeRetries"
      using assms(2) q by (auto simp: Allow_def Let_def share_def split: if_splits)
    have "share (percent (bud s)) ?P \<le> share p ?P"
      using q inv by (intro share_mono) (auto simp: budget_inv_def Let_def)
    moreover have "share p ?A + share p ?P \<le> share p (seen s)"
      using share_add [of p ?A ?P] by simp
    moreover have "granted s - retries ?w - prevRetries ?w
        \<le> share p ?A + free (w_epoch ?w - e0) - minFreeRetries"
      using inv by (simp add: budget_inv_def Let_def free_two)
    ultimately have "granted s + 1 \<le> share p (seen s) + free (w_epoch ?w - e0)"
      using lt by linarith
    with inv True b show ?thesis by (simp add: budget_inv_def Let_def algebra_simps)
  qed
qed

lemma budget_exec_inv:
  "budget_inv p e0 s \<Longrightarrow> percent_event p e \<Longrightarrow> budget_inv p e0 (budget_exec s e)"
proof (induction e)
  case (EvSetPercent q)
  then show ?case by (simp add: budget_exec_def SetPercent_def budget_inv_def Let_def)
next
  case (EvStatus t)
  then show ?case
    using budget_window_inv [of p e0 s t] by (auto simp: budget_exec_def budget_Status_def Let_def)
next
  case (EvAllow t)
  then show ?case using Allow_inv [of p e0 s t] by (simp add: budget_exec_def split: prod.splits)
qed (simp add: budget_exec_def Primary_inv)

lemma budget_run_inv:
  "budget_inv p e0 s \<Longrightarrow> list_all (percent_event p) es \<Longrightarrow> budget_inv p e0 (foldl budget_exec s es)"
  by (induction es arbitrary: s) (auto intro: budget_exec_inv)

text \<open>When no call straddles a rotation, the retries granted in total are at most p percent
  of the first attempts plus three for every two windows of ten seconds, rounded up to one
  pair more, however calls, reloads that keep the percentage positive and at most p, status
  reads and clock readings (even backward ones) are ordered.\<close>

lemma budget_bounds_uninterrupted:
  assumes "0 < p" and "list_all (percent_event p) es"
  shows "(let s = foldl budget_exec (brun_init p t) es in
          granted s \<le> seen s * p div 100 +
            minFreeRetries * ((w_epoch (win (bud s)) - budget_epoch t) div 2 + 1))"
proof -
  have "budget_inv p (budget_epoch t) (brun_init p t)"
    using assms(1)
    by (simp add: budget_inv_def brun_init_def NewBudget_def fresh_window_def Let_def share_def
        free_def minFreeRetries_def)
  from budget_run_inv [OF this assms(2)] show ?thesis
    by (simp add: budget_inv_def Let_def share_def free_def)
qed

subsection \<open>The retry configuration of a request\<close>

record RetryOverride =
  ro_Attempts :: int
  ro_Deadline :: duration
  ro_BackoffInitial :: duration
  ro_BackoffMax :: duration

text \<open>The affinity key and the \<^verbatim>\<open>OnBackoff\<close> observer are added by the adapter after
  resolution; the key is an argument of the driver, the observer is left out.\<close>

record RetryRequest =
  MaxAttempts :: int
  Deadline :: duration
  BackoffInitial :: duration
  BackoffMax :: duration
  Replayable :: bool

definition RetryRequestFor :: "Policy option \<Rightarrow> RetryOverride \<Rightarrow> bool \<Rightarrow> RetryRequest" where
  "RetryRequestFor pool ov replayable =
     (let rr = \<lparr>MaxAttempts = ro_Attempts ov, Deadline = ro_Deadline ov,
                BackoffInitial = ro_BackoffInitial ov, BackoffMax = ro_BackoffMax ov,
                Replayable = replayable\<rparr> in
      case pool of
        None \<Rightarrow> rr
      | Some policy \<Rightarrow>
          let rr = (if MaxAttempts rr = 0 then rr\<lparr>MaxAttempts := RetryAttempts policy\<rparr> else rr);
              rr = (if Deadline rr = 0 then rr\<lparr>Deadline := RetryDeadline policy\<rparr> else rr) in
          if BackoffInitial rr = 0
          then rr\<lparr>BackoffInitial := RetryBackoffInitial policy, BackoffMax := RetryBackoffMax policy\<rparr>
          else if BackoffMax rr = 0 then rr\<lparr>BackoffMax := DefaultRetryBackoffMax\<rparr>
          else rr)"

definition RetrySafeMethod :: "string \<Rightarrow> bool" where
  "RetrySafeMethod m \<longleftrightarrow>
     m \<in> {''GET'', ''HEAD'', ''OPTIONS'', ''TRACE'', ''PUT'', ''DELETE''}"

end
