(* ===== verification/Budget_Steps.thy ===== *)
theory Budget_Steps
  imports Budget
begin

text \<open>
  The retry budget of \<^verbatim>\<open>src/internal/upstream/retry.go\<close> under concurrent calls. The
  budget is a percentage and a pointer to the live accounting bucket, both atomic, and a call
  is a sequence of atomic operations on them: \<^verbatim>\<open>window\<close> reads the clock, loads the
  pointer, reads the two counters of a bucket it is about to replace and swaps the pointer;
  \<^verbatim>\<open>Primary\<close> adds to the bucket it was handed; \<^verbatim>\<open>Allow\<close> loads that bucket's
  counters and claims a retry by compare-and-swap on them. Any operation of another goroutine
  may come between two of these, so a bucket can be rotated out while calls still hold it.

  The buckets ever installed are the list \<open>windows\<close>, oldest first; \<open>live\<close> is the index
  of the one the pointer names. An event is the start of a call, one atomic operation of a
  goroutine with the clock reading it would see, or a reload's \<^verbatim>\<open>SetPercent\<close>.
  \<open>recorded\<close> and \<open>allowed\<close> count the primaries added and the retries granted.

  The theory shows that a call which no other interrupts is the one-step operation of theory
  \<^verbatim>\<open>Budget\<close>, bounds what the budget grants over every interleaving, and exhibits the
  interleaving in which a rotation makes it grant more than its documentation allows.
\<close>

subsection \<open>State and atomic operations\<close>

datatype bcall = CallPrimary | CallAllow | CallStatus

datatype bresult = PrimaryDone | Answer bool | Reported BudgetStatus

text \<open>Where a goroutine stands. \<open>q\<close> is the percentage it loaded, \<open>e\<close> the epoch it
  computed, \<open>w\<close> the bucket it holds.\<close>

datatype bpc =
    BIdle
  | BEpoch bcall int
  | BLoad bcall int int
  | BPrevPrimaries bcall int int nat
  | BPrevRetries bcall int int nat int
  | BSwap bcall int int nat int int
  | BAdd nat
  | BRetries int nat
  | BTest int nat int
  | BClaim int nat int
  | BStatusPrimaries int nat
  | BStatusRetries int nat int
  | BDone bresult

record bsys =
  windows :: "budgetWindow list"
  live :: nat
  pct :: int
  bpcs :: "nat \<Rightarrow> bpc"
  recorded :: int
  allowed :: int

datatype bevent =
    BCall nat bcall
  | BGo nat nanos
  | BSetPercent int

definition bsys_init :: "int \<Rightarrow> nanos \<Rightarrow> bsys" where
  "bsys_init p t =
     \<lparr>windows = [fresh_window (budget_epoch t)], live = 0, pct = p, bpcs = (\<lambda>_. BIdle),
      recorded = 0, allowed = 0\<rparr>"

text \<open>The first operation of a call: the load of the percentage, and the answer of a budget
  that is switched off.\<close>

definition budget_call :: "bcall \<Rightarrow> int \<Rightarrow> bpc" where
  "budget_call c q =
     (if q \<le> 0
      then BDone (case c of
                    CallPrimary \<Rightarrow> PrimaryDone
                  | CallAllow \<Rightarrow> Answer True
                  | CallStatus \<Rightarrow> Reported \<lparr>bs_Percent = q, bs_Primaries = 0, bs_Retries = 0,
                                            bs_Remaining = 0\<rparr>)
      else BEpoch c q)"

text \<open>What a call does with the bucket \<^verbatim>\<open>window\<close> returned.\<close>

definition window_returned :: "bcall \<Rightarrow> int \<Rightarrow> nat \<Rightarrow> bpc" where
  "window_returned c q w =
     (case c of
        CallPrimary \<Rightarrow> BAdd w
      | CallAllow \<Rightarrow> BRetries q w
      | CallStatus \<Rightarrow> BStatusPrimaries q w)"

definition upd_window :: "nat \<Rightarrow> (budgetWindow \<Rightarrow> budgetWindow) \<Rightarrow> bsys \<Rightarrow> bsys" where
  "upd_window w f s = s\<lparr>windows := (windows s)[w := f (windows s ! w)]\<rparr>"

text \<open>One atomic operation, with the local computation up to the next one.\<close>

definition budget_go :: "nanos \<Rightarrow> bpc \<Rightarrow> bsys \<Rightarrow> bpc \<times> bsys" where
  "budget_go t pc s =
     (case pc of
        BEpoch c q \<Rightarrow> (BLoad c q (budget_epoch t), s)
      | BLoad c q e \<Rightarrow>
          (let w = live s in
           if w_epoch (windows s ! w) \<ge> e then (window_returned c q w, s)
           else if e = w_epoch (windows s ! w) + 1 then (BPrevPrimaries c q e w, s)
           else (BSwap c q e w 0 0, s))
      | BPrevPrimaries c q e w \<Rightarrow> (BPrevRetries c q e w (primaries (windows s ! w)), s)
      | BPrevRetries c q e w pp \<Rightarrow> (BSwap c q e w pp (retries (windows s ! w)), s)
      | BSwap c q e w pp pr \<Rightarrow>
          (if live s = w
           then (window_returned c q (length (windows s)),
                 s\<lparr>windows := windows s @ [(fresh_window e)\<lparr>prevPrimaries := pp, prevRetries := pr\<rparr>],
                   live := length (windows s)\<rparr>)
           else (BLoad c q e, s))
      | BAdd w \<Rightarrow>
          (BDone PrimaryDone,
           upd_window w (\<lambda>b. b\<lparr>primaries := primaries b + 1\<rparr>) (s\<lparr>recorded := recorded s + 1\<rparr>))
      | BRetries q w \<Rightarrow> (BTest q w (retries (windows s ! w)), s)
      | BTest q w cur \<Rightarrow>
          (let b = windows s ! w in
           if cur + prevRetries b \<ge> (primaries b + prevPrimaries b) * q div 100 + minFreeRetries
           then (BDone (Answer False), s) else (BClaim q w cur, s))
      | BClaim q w cur \<Rightarrow>
          (if retries (windows s ! w) = cur
           then (BDone (Answer True),
                 upd_window w (\<lambda>b. b\<lparr>retries := cur + 1\<rparr>) (s\<lparr>allowed := allowed s + 1\<rparr>))
           else (BRetries q w, s))
      | BStatusPrimaries q w \<Rightarrow>
          (BStatusRetries q w (primaries (windows s ! w) + prevPrimaries (windows s ! w)), s)
      | BStatusRetries q w prim \<Rightarrow>
          (let ret = retries (windows s ! w) + prevRetries (windows s ! w);
               r = prim * q div 100 + minFreeRetries - ret in
           (BDone (Reported \<lparr>bs_Percent = q, bs_Primaries = prim, bs_Retries = ret,
                             bs_Remaining = (if r > 0 then r else 0)\<rparr>), s))
      | _ \<Rightarrow> (pc, s))"

fun budget_step :: "bsys \<Rightarrow> bevent \<Rightarrow> bsys" where
  "budget_step s (BCall i c) =
     (case bpcs s i of
        BIdle \<Rightarrow> s\<lparr>bpcs := (bpcs s)(i := budget_call c (pct s))\<rparr>
      | BDone r \<Rightarrow> s\<lparr>bpcs := (bpcs s)(i := budget_call c (pct s))\<rparr>
      | _ \<Rightarrow> s)"
| "budget_step s (BGo i t) =
     (case budget_go t (bpcs s i) s of (pc, s') \<Rightarrow> s'\<lparr>bpcs := (bpcs s')(i := pc)\<rparr>)"
| "budget_step s (BSetPercent q) = s\<lparr>pct := q\<rparr>"

definition budget_run :: "bsys \<Rightarrow> bevent list \<Rightarrow> bsys" where
  "budget_run s es = foldl budget_step s es"

lemma budget_run_Nil [simp]: "budget_run s [] = s"
  by (simp add: budget_run_def)

lemma budget_run_Cons [simp]: "budget_run s (e # es) = budget_run (budget_step s e) es"
  by (simp add: budget_run_def)

lemma budget_run_append: "budget_run s (es @ fs) = budget_run (budget_run s es) fs"
  by (simp add: budget_run_def)

subsection \<open>A call without interference\<close>

text \<open>The budget the pointer shows, and the events of one call that runs alone at one clock
  reading. Eight operations are enough for every path of a call; a goroutine that has
  finished does nothing more.\<close>

definition budget_view :: "bsys \<Rightarrow> Budget" where
  "budget_view s = \<lparr>percent = pct s, win = windows s ! live s\<rparr>"

definition call_alone :: "nat \<Rightarrow> bcall \<Rightarrow> nanos \<Rightarrow> bevent list" where
  "call_alone i c t = BCall i c # replicate 8 (BGo i t)"

definition one_step :: "bcall \<Rightarrow> nanos \<Rightarrow> Budget \<Rightarrow> bresult \<times> Budget" where
  "one_step c t b =
     (case c of
        CallPrimary \<Rightarrow> (PrimaryDone, Primary t b)
      | CallAllow \<Rightarrow> (case Allow t b of (ok, b') \<Rightarrow> (Answer ok, b'))
      | CallStatus \<Rightarrow> (case budget_Status t b of (st, b') \<Rightarrow> (Reported st, b')))"

lemma budget_go_simps [simp]:
  "budget_go t (BEpoch c q) s = (BLoad c q (budget_epoch t), s)"
  "budget_go t (BPrevPrimaries c q e w) s = (BPrevRetries c q e w (primaries (windows s ! w)), s)"
  "budget_go t (BPrevRetries c q e w pp) s = (BSwap c q e w pp (retries (windows s ! w)), s)"
  "budget_go t (BRetries q w) s = (BTest q w (retries (windows s ! w)), s)"
  "budget_go t (BDone r) s = (BDone r, s)"
  "budget_go t BIdle s = (BIdle, s)"
  by (simp_all add: budget_go_def)

definition thread_run :: "nat \<Rightarrow> nanos \<Rightarrow> nat \<Rightarrow> bsys \<Rightarrow> bsys" where
  "thread_run i t n s = budget_run s (replicate n (BGo i t))"

lemma thread_run_Suc:
  "budget_go t (bpcs s i) s = (pc, s') \<Longrightarrow>
     thread_run i t (Suc n) s = thread_run i t n (s'\<lparr>bpcs := (bpcs s')(i := pc)\<rparr>)"
  by (simp add: thread_run_def)

lemma thread_run_done:
  assumes "bpcs s i = BDone r"
  shows "thread_run i t n s = s"
proof -
  have "budget_step s (BGo i t) = s"
    using assms by (simp add: fun_upd_idem)
  then show ?thesis by (induction n) (simp_all add: thread_run_def)
qed

text \<open>The operations after \<^verbatim>\<open>window\<close> has returned bucket \<open>w\<close>, run alone.\<close>

definition after_window :: "bcall \<Rightarrow> int \<Rightarrow> budgetWindow \<Rightarrow> bresult \<times> budgetWindow" where
  "after_window c q b =
     (let prim = primaries b + prevPrimaries b; ret = retries b + prevRetries b;
          r = prim * q div 100 + minFreeRetries - ret in
      case c of
        CallPrimary \<Rightarrow> (PrimaryDone, b\<lparr>primaries := primaries b + 1\<rparr>)
      | CallAllow \<Rightarrow>
          if ret \<ge> prim * q div 100 + minFreeRetries then (Answer False, b)
          else (Answer True, b\<lparr>retries := retries b + 1\<rparr>)
      | CallStatus \<Rightarrow>
          (Reported \<lparr>bs_Percent = q, bs_Primaries = prim, bs_Retries = ret,
                     bs_Remaining = (if r > 0 then r else 0)\<rparr>, b))"

lemma thread_after_window:
  assumes "bpcs s i = window_returned c q w" and "w < length (windows s)" and "w = live s"
    and "pct s = q" and "3 \<le> n"
  shows "bpcs (thread_run i t n s) i = BDone (fst (after_window c q (windows s ! w))) \<and>
         budget_view (thread_run i t n s) =
           \<lparr>percent = q, win = snd (after_window c q (windows s ! w))\<rparr>"
proof -
  obtain k where n: "n = Suc (Suc (Suc k))"
    using assms(5) by (metis Suc_le_D numeral_3_eq_3 Suc_le_mono)
  show ?thesis
    using assms(1-4) unfolding n
    by (cases c)
       (simp_all add: thread_run_Suc window_returned_def budget_go_def after_window_def
         upd_window_def thread_run_done budget_view_def Let_def)
qed

lemma one_step_window:
  assumes "0 < percent b"
  shows "one_step c t b =
           (case after_window c (percent b) (win (budget_window t b)) of
              (r, w) \<Rightarrow> (r, \<lparr>percent = percent b, win = w\<rparr>))"
  using assms
  by (cases c; cases b)
     (auto simp: one_step_def after_window_def Primary_def Allow_def budget_Status_def
        budget_window_def Let_def)

text \<open>\<^verbatim>\<open>window\<close> run alone returns the bucket of the one-step rotation, in at most
  four operations after the clock reading.\<close>

lemma window_alone:
  assumes "bpcs s i = BLoad c (pct s) (budget_epoch t)" and "live s < length (windows s)"
  shows "\<exists>s' n. 3 \<le> n \<and> thread_run i t 7 s = thread_run i t n s' \<and>
           bpcs s' i = window_returned c (pct s) (live s') \<and> live s' < length (windows s') \<and>
           pct s' = pct s \<and> windows s' ! live s' = win (budget_window t (budget_view s))"
proof -
  let ?e = "budget_epoch t" and ?w = "windows s ! live s"
  let ?sw = "\<lambda>pp pr. s\<lparr>bpcs := (bpcs s)(i := BSwap c (pct s) ?e (live s) pp pr)\<rparr>"
  have swap: "\<exists>s'. thread_run i t (Suc n) (?sw pp pr) = thread_run i t n s' \<and>
      bpcs s' i = window_returned c (pct s) (live s') \<and> live s' < length (windows s') \<and>
      pct s' = pct s \<and>
      windows s' ! live s' = (fresh_window ?e)\<lparr>prevPrimaries := pp, prevRetries := pr\<rparr>" for n pp pr
    by (intro exI conjI, rule thread_run_Suc, simp add: budget_go_def) simp_all
  consider (cur) "?e \<le> w_epoch ?w" | (succ) "?e = w_epoch ?w + 1" | (gap) "w_epoch ?w + 1 < ?e"
    by linarith
  then show ?thesis
  proof cases
    case cur
    then have "thread_run i t 7 s =
        thread_run i t 6 (s\<lparr>bpcs := (bpcs s)(i := window_returned c (pct s) (live s))\<rparr>)"
      using assms(1) thread_run_Suc [of t s i _ _ 6] by (simp add: budget_go_def Let_def)
    with cur assms(2) show ?thesis
      by (intro exI [of _ "s\<lparr>bpcs := (bpcs s)(i := window_returned c (pct s) (live s))\<rparr>"] exI [of _ 6])
         (simp add: budget_window_current budget_view_def)
  next
    case succ
    have "thread_run i t 7 s = thread_run i t 4 (?sw (primaries ?w) (retries ?w))"
      using succ assms(1) by (simp add: eval_nat_numeral thread_run_Suc budget_go_def Let_def)
    with swap [of 3 "primaries ?w" "retries ?w"] succ show ?thesis
      by (auto simp: budget_window_def budget_view_def Let_def intro!: exI [of _ 3])
  next
    case gap
    then have "thread_run i t 7 s = thread_run i t 6 (?sw 0 0)"
      using assms(1) thread_run_Suc [of t s i _ _ 6] by (simp add: budget_go_def Let_def)
    with swap [of 5 0 0] gap show ?thesis
      by (auto simp: budget_window_def budget_view_def Let_def fresh_window_def intro!: exI [of _ 5])
  qed
qed

text \<open>A call that no other operation interrupts answers and leaves the live bucket as the
  one-step operation does.\<close>

lemma call_alone_one_step:
  assumes "bpcs s i = BIdle \<or> (\<exists>r. bpcs s i = BDone r)" and "live s < length (windows s)"
  shows "bpcs (budget_run s (call_alone i c t)) i =
           BDone (fst (one_step c t (budget_view s))) \<and>
         budget_view (budget_run s (call_alone i c t)) = snd (one_step c t (budget_view s))"
proof -
  let ?s = "s\<lparr>bpcs := (bpcs s)(i := budget_call c (pct s))\<rparr>"
  have run: "budget_run s (call_alone i c t) = thread_run i t 8 ?s"
    using assms(1) by (auto simp: call_alone_def thread_run_def)
  show ?thesis
  proof (cases "pct s \<le> 0")
    case True
    then have "thread_run i t 8 ?s = ?s"
      by (auto intro!: thread_run_done simp: budget_call_def)
    with True run show ?thesis
      by (cases c) (simp_all add: budget_call_def one_step_def budget_view_def Primary_def
          Allow_def budget_Status_def)
  next
    case False
    let ?l = "s\<lparr>bpcs := (bpcs s)(i := BLoad c (pct s) (budget_epoch t))\<rparr>"
    have view: "budget_view ?l = budget_view s" by (simp add: budget_view_def)
    have load: "thread_run i t 8 ?s = thread_run i t 7 ?l"
      using False thread_run_Suc [of t ?s i "BLoad c (pct s) (budget_epoch t)" ?s 7]
      by (simp add: budget_call_def)
    obtain s' n where s': "3 \<le> n" "thread_run i t 7 ?l = thread_run i t n s'"
      "bpcs s' i = window_returned c (pct s) (live s')" "live s' < length (windows s')"
      "pct s' = pct s" "windows s' ! live s' = win (budget_window t (budget_view s))"
      using window_alone [of ?l i c t] assms(2) view by auto
    have q: "0 < percent (budget_view s)" "percent (budget_view s) = pct s"
      using False by (simp_all add: budget_view_def)
    from thread_after_window [OF s'(3,4) refl s'(5,1), of t] show ?thesis
      by (simp add: run load s'(2,6) one_step_window [OF q(1)] q(2) case_prod_unfold)
  qed
qed

subsection \<open>What the budget grants over every interleaving\<close>

definition win_ok :: "int \<Rightarrow> budgetWindow \<Rightarrow> bool" where
  "win_ok p b \<longleftrightarrow>
     0 \<le> primaries b \<and> 0 \<le> prevPrimaries b \<and> 0 \<le> retries b \<and> 0 \<le> prevRetries b \<and>
     retries b \<le> share p (primaries b + prevPrimaries b) + minFreeRetries"

text \<open>Every bucket starts later than the one before and was handed at most that one's
  primaries.\<close>

definition follows :: "budgetWindow \<Rightarrow> budgetWindow \<Rightarrow> bool" where
  "follows a b \<longleftrightarrow> w_epoch a < w_epoch b \<and> prevPrimaries b \<le> primaries a"

definition windows_ok :: "int \<Rightarrow> int \<Rightarrow> budgetWindow list \<Rightarrow> bool" where
  "windows_ok p e0 ws \<longleftrightarrow>
     ws \<noteq> [] \<and> w_epoch (hd ws) = e0 \<and> prevPrimaries (hd ws) = 0 \<and>
     list_all (win_ok p) ws \<and>
     (\<forall>k. Suc k < length ws \<longrightarrow> follows (ws ! k) (ws ! Suc k))"

fun bpc_ok :: "int \<Rightarrow> budgetWindow list \<Rightarrow> bpc \<Rightarrow> bool" where
  "bpc_ok p ws (BEpoch c q) \<longleftrightarrow> 0 < q \<and> q \<le> p"
| "bpc_ok p ws (BLoad c q e) \<longleftrightarrow> 0 < q \<and> q \<le> p"
| "bpc_ok p ws (BPrevPrimaries c q e w) \<longleftrightarrow>
     0 < q \<and> q \<le> p \<and> w < length ws \<and> w_epoch (ws ! w) < e"
| "bpc_ok p ws (BPrevRetries c q e w pp) \<longleftrightarrow>
     0 < q \<and> q \<le> p \<and> w < length ws \<and> w_epoch (ws ! w) < e \<and> 0 \<le> pp \<and>
     pp \<le> primaries (ws ! w)"
| "bpc_ok p ws (BSwap c q e w pp pr) \<longleftrightarrow>
     0 < q \<and> q \<le> p \<and> w < length ws \<and> w_epoch (ws ! w) < e \<and> 0 \<le> pp \<and>
     pp \<le> primaries (ws ! w) \<and> 0 \<le> pr"
| "bpc_ok p ws (BAdd w) \<longleftrightarrow> w < length ws"
| "bpc_ok p ws (BRetries q w) \<longleftrightarrow> 0 < q \<and> q \<le> p \<and> w < length ws"
| "bpc_ok p ws (BTest q w cur) \<longleftrightarrow> 0 < q \<and> q \<le> p \<and> w < length ws"
| "bpc_ok p ws (BClaim q w cur) \<longleftrightarrow>
     0 < q \<and> q \<le> p \<and> w < length ws \<and>
     cur + 1 \<le> share p (primaries (ws ! w) + prevPrimaries (ws ! w)) + minFreeRetries"
| "bpc_ok p ws (BStatusPrimaries q w) \<longleftrightarrow> 0 < q \<and> q \<le> p \<and> w < length ws"
| "bpc_ok p ws (BStatusRetries q w prim) \<longleftrightarrow> 0 < q \<and> q \<le> p \<and> w < length ws"
| "bpc_ok p ws _ \<longleftrightarrow> True"

definition budget_sys_inv :: "int \<Rightarrow> int \<Rightarrow> bsys \<Rightarrow> bool" where
  "budget_sys_inv p e0 s \<longleftrightarrow>
     0 < pct s \<and> pct s \<le> p \<and> windows_ok p e0 (windows s) \<and>
     Suc (live s) = length (windows s) \<and> (\<forall>i. bpc_ok p (windows s) (bpcs s i)) \<and>
     recorded s = sum_list (map primaries (windows s)) \<and>
     allowed s = sum_list (map retries (windows s))"

text \<open>What can happen to the buckets: their counters grow and new ones are appended. A
  goroutine's knowledge of the bucket it holds survives both.\<close>

definition windows_grow :: "budgetWindow list \<Rightarrow> budgetWindow list \<Rightarrow> bool" where
  "windows_grow ws vs \<longleftrightarrow>
     length ws \<le> length vs \<and>
     (\<forall>k < length ws. w_epoch (vs ! k) = w_epoch (ws ! k) \<and>
        prevPrimaries (vs ! k) = prevPrimaries (ws ! k) \<and>
        0 \<le> primaries (ws ! k) + prevPrimaries (ws ! k) \<and>
        primaries (ws ! k) \<le> primaries (vs ! k))"

lemma bpc_ok_grow:
  assumes "bpc_ok p ws pc" and "windows_grow ws vs"
  shows "bpc_ok p vs pc"
proof -
  have len: "w < length ws \<Longrightarrow> w < length vs" for w
    using assms(2) by (simp add: windows_grow_def)
  have more: "x \<le> primaries (ws ! w) \<Longrightarrow> w < length ws \<Longrightarrow> x \<le> primaries (vs ! w)" for x w
    using assms(2) by (fastforce simp: windows_grow_def)
  have epoch: "w < length ws \<Longrightarrow> w_epoch (vs ! w) = w_epoch (ws ! w)" for w
    using assms(2) by (simp add: windows_grow_def)
  show ?thesis
  proof (cases pc)
    case (BClaim q w cur)
    then have w: "w < length ws" "0 < q" "q \<le> p" using assms(1) by simp_all
    then have "share p (primaries (ws ! w) + prevPrimaries (ws ! w))
        \<le> share p (primaries (vs ! w) + prevPrimaries (vs ! w))"
      using assms(2) by (intro share_mono) (auto simp: windows_grow_def)
    with BClaim assms(1) len [OF w(1)] show ?thesis by simp
  qed (use assms(1) len more epoch in auto)
qed

lemma windows_ok_nonneg:
  assumes "windows_ok p e0 ws" and "k < length ws"
  shows "win_ok p (ws ! k)"
  using assms by (simp add: windows_ok_def list_all_length)

lemma grow_update:
  assumes "windows_ok p e0 ws" "w < length ws"
    and "w_epoch b = w_epoch (ws ! w)" "prevPrimaries b = prevPrimaries (ws ! w)"
    and "primaries (ws ! w) \<le> primaries b"
  shows "windows_grow ws (ws[w := b])"
  using assms windows_ok_nonneg [OF assms(1)]
  by (auto simp: windows_grow_def nth_list_update win_ok_def)

lemma grow_append: "windows_ok p e0 ws \<Longrightarrow> windows_grow ws (ws @ [b])"
  using windows_ok_nonneg by (fastforce simp: windows_grow_def nth_append win_ok_def)

lemma windows_ok_update:
  assumes "windows_ok p e0 ws" "w < length ws" "win_ok p b"
    and "w_epoch b = w_epoch (ws ! w)" "prevPrimaries b = prevPrimaries (ws ! w)"
    and "primaries (ws ! w) \<le> primaries b"
  shows "windows_ok p e0 (ws[w := b])"
proof -
  have "follows (ws[w := b] ! k) (ws[w := b] ! Suc k)" if "Suc k < length ws" for k
  proof -
    have "follows (ws ! k) (ws ! Suc k)" using assms(1) that by (simp add: windows_ok_def)
    with assms(4-6) that show ?thesis
      using assms(2) by (cases "k = w"; cases "Suc k = w") (auto simp: follows_def)
  qed
  moreover have "ws \<noteq> []" "0 < length ws" using assms(1) by (auto simp: windows_ok_def)
  then have "w_epoch (hd (ws[w := b])) = w_epoch (hd ws)"
    "prevPrimaries (hd (ws[w := b])) = prevPrimaries (hd ws)"
    using assms(2,4,5) by (auto simp: hd_conv_nth nth_list_update)
  moreover have "list_all (win_ok p) (ws[w := b])"
    using assms(1-3) by (auto simp: windows_ok_def list_all_length nth_list_update)
  ultimately show ?thesis
    using assms(1) by (simp add: windows_ok_def)
qed

lemma windows_ok_append:
  assumes "windows_ok p e0 ws" "win_ok p b" "Suc k = length ws" "follows (ws ! k) b"
  shows "windows_ok p e0 (ws @ [b])"
proof -
  have "follows ((ws @ [b]) ! j) ((ws @ [b]) ! Suc j)" if "Suc j < length (ws @ [b])" for j
    using that assms(1,3,4) by (cases "j = k") (auto simp: windows_ok_def nth_append)
  with assms(1,2) show ?thesis by (simp add: windows_ok_def)
qed

lemma sum_map_update:
  fixes f :: "'a \<Rightarrow> int"
  shows "w < length ws \<Longrightarrow> sum_list (map f (ws[w := b])) = sum_list (map f ws) + f b - f (ws ! w)"
  by (induction ws arbitrary: w) (auto simp: nth_Cons split: nat.splits)

lemma budget_sys_inv_pc:
  assumes "budget_sys_inv p e0 s" and "bpc_ok p (windows s) pc"
  shows "budget_sys_inv p e0 (s\<lparr>bpcs := (bpcs s)(i := pc)\<rparr>)"
  using assms by (simp add: budget_sys_inv_def)

lemma bpc_ok_window_returned:
  "0 < q \<Longrightarrow> q \<le> p \<Longrightarrow> w < length ws \<Longrightarrow> bpc_ok p ws (window_returned c q w)"
  by (cases c) (simp_all add: window_returned_def)

text \<open>Each atomic operation keeps the invariant: first those that only read, then the three
  that write.\<close>

lemma budget_go_reads:
  assumes "budget_sys_inv p e0 s" and "bpc_ok p (windows s) pc" and "budget_go t pc s = (pc', s)"
  shows "bpc_ok p (windows s) pc'"
proof -
  have live: "live s < length (windows s)" using assms(1) by (simp add: budget_sys_inv_def)
  have ok: "win_ok p (windows s ! w)" if "w < length (windows s)" for w
    using assms(1) that by (auto simp: budget_sys_inv_def intro: windows_ok_nonneg)
  show ?thesis
  proof (cases pc)
    case (BTest q w cur)
    let ?b = "windows s ! w"
    have w: "0 < q" "q \<le> p" "win_ok p ?b" using BTest assms(2) ok by auto
    then have "share q (primaries ?b + prevPrimaries ?b) \<le> share p (primaries ?b + prevPrimaries ?b)"
      by (intro share_mono) (auto simp: win_ok_def)
    with BTest assms(2,3) w show ?thesis
      by (auto simp: budget_go_def Let_def share_def win_ok_def split: if_splits)
  next
    case (BSwap c q e w pp pr)
    with assms(2,3) live show ?thesis
      by (auto simp: budget_go_def split: if_splits dest: arg_cong [of _ _ windows])
  qed (use assms(2,3) live ok in \<open>auto simp: budget_go_def Let_def win_ok_def bpc_ok_window_returned
         split: if_splits\<close>)
qed

lemma budget_inv_write:
  assumes "budget_sys_inv p e0 s" and "w < length (windows s)"
    and "win_ok p b" "w_epoch b = w_epoch (windows s ! w)"
    and "prevPrimaries b = prevPrimaries (windows s ! w)"
    and "primaries (windows s ! w) \<le> primaries b"
  shows "budget_sys_inv p e0
           (s\<lparr>windows := (windows s)[w := b],
             recorded := recorded s + (primaries b - primaries (windows s ! w)),
             allowed := allowed s + (retries b - retries (windows s ! w))\<rparr>)"
proof -
  have ok: "windows_ok p e0 (windows s)" using assms(1) by (simp add: budget_sys_inv_def)
  note grow = grow_update [OF ok assms(2,4,5,6)]
  show ?thesis
    using assms(1,2) windows_ok_update [OF ok assms(2-6)] bpc_ok_grow [OF _ grow]
    by (simp add: budget_sys_inv_def sum_map_update)
qed

lemma budget_inv_rotate:
  assumes "budget_sys_inv p e0 s" and "w_epoch (windows s ! live s) < e"
    and "0 \<le> pp" "pp \<le> primaries (windows s ! live s)" "0 \<le> pr"
  shows "budget_sys_inv p e0
           (s\<lparr>windows := windows s @ [(fresh_window e)\<lparr>prevPrimaries := pp, prevRetries := pr\<rparr>],
             live := length (windows s)\<rparr>)"
proof -
  let ?b = "(fresh_window e)\<lparr>prevPrimaries := pp, prevRetries := pr\<rparr>"
  have ok: "windows_ok p e0 (windows s)" and p: "0 < p"
    and live: "Suc (live s) = length (windows s)"
    using assms(1) by (auto simp: budget_sys_inv_def)
  have "0 \<le> share p pp" using p assms(3) by (simp add: share_def pos_imp_zdiv_nonneg_iff)
  then have "win_ok p ?b"
    using assms(3,5) by (simp add: win_ok_def fresh_window_def minFreeRetries_def)
  moreover have "follows (windows s ! live s) ?b"
    using assms(2,4) by (simp add: follows_def fresh_window_def)
  ultimately have "windows_ok p e0 (windows s @ [?b])" using windows_ok_append [OF ok _ live] by blast
  then show ?thesis
    using assms(1) bpc_ok_grow [OF _ grow_append [OF ok]]
    by (simp add: budget_sys_inv_def) (simp add: fresh_window_def)
qed

lemma budget_add_inv:
  assumes "budget_sys_inv p e0 s" and "w < length (windows s)"
  shows "budget_sys_inv p e0 (upd_window w (\<lambda>b. b\<lparr>primaries := primaries b + 1\<rparr>)
           (s\<lparr>recorded := recorded s + 1\<rparr>))"
proof -
  let ?b = "windows s ! w"
  have ok: "win_ok p ?b" and p: "0 < p"
    using assms by (auto simp: budget_sys_inv_def intro: windows_ok_nonneg)
  then have "share p (primaries ?b + prevPrimaries ?b) \<le> share p (primaries ?b + 1 + prevPrimaries ?b)"
    by (intro share_mono) (auto simp: win_ok_def)
  with ok have "win_ok p (?b\<lparr>primaries := primaries ?b + 1\<rparr>)" by (simp add: win_ok_def)
  from budget_inv_write [OF assms this] show ?thesis by (cases s) (simp add: upd_window_def)
qed

lemma budget_claim_inv:
  assumes "budget_sys_inv p e0 s" and "bpc_ok p (windows s) (BClaim q w (retries (windows s ! w)))"
  shows "budget_sys_inv p e0 (upd_window w (\<lambda>b. b\<lparr>retries := retries b + 1\<rparr>)
           (s\<lparr>allowed := allowed s + 1\<rparr>))"
proof -
  let ?b = "windows s ! w"
  have w: "w < length (windows s)" using assms(2) by simp
  then have "win_ok p ?b" using assms(1) by (auto simp: budget_sys_inv_def intro: windows_ok_nonneg)
  with assms(2) have "win_ok p (?b\<lparr>retries := retries ?b + 1\<rparr>)" by (simp add: win_ok_def)
  from budget_inv_write [OF assms(1) w this] show ?thesis by (cases s) (simp add: upd_window_def)
qed

lemma budget_go_inv:
  assumes "budget_sys_inv p e0 s" and "budget_go t (bpcs s i) s = (pc, s')"
  shows "budget_sys_inv p e0 (s'\<lparr>bpcs := (bpcs s')(i := pc)\<rparr>)"
proof -
  have pc: "bpc_ok p (windows s) (bpcs s i)" using assms(1) by (simp add: budget_sys_inv_def)
  consider (read) "s' = s"
    | (swap) c q e w pp pr where "bpcs s i = BSwap c q e w pp pr" "live s = w"
    | (add) w where "bpcs s i = BAdd w"
    | (claim) q w where "bpcs s i = BClaim q w (retries (windows s ! w))"
    using assms(2) by (cases "bpcs s i") (auto simp: budget_go_def Let_def split: if_splits)
  then show ?thesis
  proof cases
    case read
    with assms pc show ?thesis by (auto intro!: budget_sys_inv_pc dest: budget_go_reads)
  next
    case swap
    then have "budget_sys_inv p e0 s'"
      using assms pc by (auto simp: budget_go_def intro!: budget_inv_rotate)
    moreover have "bpc_ok p (windows s') pc"
      using assms(2) pc swap by (auto simp: budget_go_def intro!: bpc_ok_window_returned)
    ultimately show ?thesis by (rule budget_sys_inv_pc)
  next
    case add
    with assms pc show ?thesis
      by (auto simp: budget_go_def intro!: budget_sys_inv_pc budget_add_inv)
  next
    case claim
    have "(\<lambda>b. b\<lparr>retries := retries (windows s ! w) + 1\<rparr>) (windows s ! w) =
        (\<lambda>b. b\<lparr>retries := retries b + 1\<rparr>) (windows s ! w)" by simp
    with claim assms pc budget_claim_inv [of p e0 s q w] show ?thesis
      by (auto simp: budget_go_def upd_window_def intro!: budget_sys_inv_pc)
  qed
qed

fun percent_step :: "int \<Rightarrow> bevent \<Rightarrow> bool" where
  "percent_step p (BSetPercent q) \<longleftrightarrow> 0 < q \<and> q \<le> p"
| "percent_step p _ \<longleftrightarrow> True"

lemma budget_step_inv:
  assumes "budget_sys_inv p e0 s" and "percent_step p e"
  shows "budget_sys_inv p e0 (budget_step s e)"
proof (cases e)
  case (BCall i c)
  have "bpc_ok p (windows s) (budget_call c (pct s))"
    using assms(1) by (simp add: budget_sys_inv_def budget_call_def)
  with BCall assms(1) show ?thesis by (auto split: bpc.splits intro!: budget_sys_inv_pc)
next
  case (BGo i t)
  with assms(1) show ?thesis by (auto split: prod.splits intro!: budget_go_inv)
next
  case (BSetPercent q)
  with assms show ?thesis by (simp add: budget_sys_inv_def)
qed

lemma budget_run_sys_inv:
  "budget_sys_inv p e0 s \<Longrightarrow> list_all (percent_step p) es \<Longrightarrow> budget_sys_inv p e0 (budget_run s es)"
  by (induction es arbitrary: s) (auto intro: budget_step_inv)

lemma bsys_init_sys_inv: "0 < p \<Longrightarrow> budget_sys_inv p (budget_epoch t) (bsys_init p t)"
  by (simp add: budget_sys_inv_def bsys_init_def windows_ok_def win_ok_def fresh_window_def
      minFreeRetries_def share_def)

subsection \<open>The bound\<close>

lemma handed_over_le:
  fixes f g :: "'a \<Rightarrow> int"
  assumes "ws \<noteq> []" "f (hd ws) = 0" "\<forall>k. Suc k < length ws \<longrightarrow> f (ws ! Suc k) \<le> g (ws ! k)"
  shows "sum_list (map f ws) \<le> sum_list (map g (butlast ws))"
  using assms
proof (induction ws rule: rev_induct)
  case (snoc x ws)
  show ?case
  proof (cases "ws = []")
    case False
    have "f x \<le> g (last ws)"
      using snoc.prems(3) [rule_format, of "length ws - 1"] False
      by (simp add: nth_append last_conv_nth)
    moreover have "sum_list (map f ws) \<le> sum_list (map g (butlast ws))"
    proof (rule snoc.IH [OF False])
      show "f (hd ws) = 0" using snoc.prems(2) False by simp
      show "\<forall>k. Suc k < length ws \<longrightarrow> f (ws ! Suc k) \<le> g (ws ! k)"
      proof (intro allI impI)
        fix k assume "Suc k < length ws"
        then show "f (ws ! Suc k) \<le> g (ws ! k)"
          using snoc.prems(3) [rule_format, of k] by (simp add: nth_append)
      qed
    qed
    moreover have "sum_list (map g ws) = sum_list (map g (butlast ws)) + g (last ws)"
      by (subst append_butlast_last_id [OF False, symmetric], subst map_append) simp
    ultimately show ?thesis by simp
  qed (use snoc.prems in simp)
qed simp

lemma retries_sum_le:
  "list_all (win_ok p) ws \<Longrightarrow>
     sum_list (map retries ws) \<le>
       share p (sum_list (map primaries ws) + sum_list (map prevPrimaries ws))
         + minFreeRetries * int (length ws)"
proof (induction ws)
  case (Cons b ws)
  let ?P = "sum_list (map primaries ws) + sum_list (map prevPrimaries ws)"
  have "share p (primaries b + prevPrimaries b) + share p ?P
      \<le> share p (primaries b + prevPrimaries b + ?P)" by (rule share_add)
  with Cons show ?case by (simp add: win_ok_def algebra_simps)
qed (simp add: share_def)

lemma windows_epochs:
  assumes "windows_ok p e0 ws" and "k < length ws"
  shows "e0 + int k \<le> w_epoch (ws ! k)"
  using assms(2)
proof (induction k)
  case 0
  with assms(1) show ?case by (auto simp: windows_ok_def hd_conv_nth)
next
  case (Suc k)
  then have "follows (ws ! k) (ws ! Suc k)" using assms(1) by (simp add: windows_ok_def)
  with Suc show ?case by (simp add: follows_def)
qed

lemma prev_primaries_le:
  assumes "windows_ok p e0 ws"
  shows "sum_list (map prevPrimaries ws) \<le> sum_list (map primaries ws)"
proof -
  have ne: "ws \<noteq> []" using assms by (simp add: windows_ok_def)
  have "sum_list (map prevPrimaries ws) \<le> sum_list (map primaries (butlast ws))"
    using assms by (intro handed_over_le) (auto simp: windows_ok_def follows_def)
  also have "\<dots> \<le> sum_list (map primaries (butlast ws)) + primaries (last ws)"
    using windows_ok_nonneg [OF assms, of "length ws - 1"] ne
    by (simp add: win_ok_def last_conv_nth)
  also have "\<dots> = sum_list (map primaries (butlast ws @ [last ws]))" by simp
  also have "\<dots> = sum_list (map primaries ws)" by (simp add: ne)
  finally show ?thesis .
qed

lemma budget_sys_bound:
  assumes "budget_sys_inv p e0 s"
  shows "allowed s \<le> 2 * recorded s * p div 100 +
           minFreeRetries * (w_epoch (windows s ! live s) - e0 + 1)"
proof -
  let ?ws = "windows s"
  have ok: "windows_ok p e0 ?ws" and p: "0 < p" and len: "length ?ws = Suc (live s)"
    and rec: "recorded s = sum_list (map primaries ?ws)"
    and alw: "allowed s = sum_list (map retries ?ws)"
    using assms by (auto simp: budget_sys_inv_def)
  have all: "list_all (win_ok p) ?ws" using ok by (simp add: windows_ok_def)
  have "0 \<le> sum_list (map primaries ?ws) + sum_list (map prevPrimaries ?ws)"
    using all by (intro add_nonneg_nonneg sum_list_nonneg) (auto simp: list_all_iff win_ok_def)
  then have "share p (sum_list (map primaries ?ws) + sum_list (map prevPrimaries ?ws))
      \<le> share p (2 * recorded s)"
    using prev_primaries_le [OF ok] rec p by (intro share_mono) auto
  moreover have "int (length ?ws) \<le> w_epoch (?ws ! live s) - e0 + 1"
    using windows_epochs [OF ok, of "live s"] len by simp
  then have "minFreeRetries * int (length ?ws) \<le> minFreeRetries * (w_epoch (?ws ! live s) - e0 + 1)"
    by (simp add: minFreeRetries_def)
  ultimately show ?thesis
    using retries_sum_le [OF all] alw by (simp add: share_def)
qed

text \<open>C14: The budget bounds retry amplification over every interleaving of the atomic
  operations of concurrent calls, including calls that still hold a bucket another call has
  rotated out, and whatever the clock readings. As long as reloads keep the percentage positive
  and at most p, no accounting bucket ever holds more granted retries than p percent of the
  primaries it has counted and was handed, plus three; and the retries granted in all are at
  most twice p percent of the primaries recorded in all, plus three for each accounting window
  from the first to the live one. The factor two is there because a primary counts in its own
  bucket and in the next.\<close>

theorem budget_bounds_amplification:
  assumes "0 < p" and "list_all (percent_step p) es"
  shows "(let s = budget_run (bsys_init p t) es in
          allowed s \<le> 2 * recorded s * p div 100 +
            minFreeRetries * (w_epoch (windows s ! live s) - budget_epoch t + 1) \<and>
          list_all (\<lambda>b. retries b \<le> (primaries b + prevPrimaries b) * p div 100 + minFreeRetries)
            (windows s))"
proof -
  have inv: "budget_sys_inv p (budget_epoch t) (budget_run (bsys_init p t) es)"
    using assms by (intro budget_run_sys_inv bsys_init_sys_inv)
  then have "list_all (win_ok p) (windows (budget_run (bsys_init p t) es))"
    by (simp add: budget_sys_inv_def windows_ok_def)
  then have "list_all (\<lambda>b. retries b \<le> (primaries b + prevPrimaries b) * p div 100 + minFreeRetries)
      (windows (budget_run (bsys_init p t) es))"
    by (auto simp: list_all_iff win_ok_def share_def)
  with budget_sys_bound [OF inv] show ?thesis by (simp add: Let_def)
qed

subsection \<open>A rotation between the load and the claim\<close>

text \<open>Three calls load the first bucket; three more arrive ten seconds later, rotate it out
  and spend the floor of the new one; then the first three claim theirs on the old bucket.\<close>

definition straddling_run :: "bevent list" where
  "straddling_run =
     concat (map (\<lambda>i. [BCall i CallAllow, BGo i 0, BGo i 0]) [1, 2, 3]) @
     concat (replicate 3 (call_alone 4 CallAllow (10 * second))) @
     concat (map (\<lambda>i. replicate 3 (BGo i 0)) [1, 2, 3])"

theorem budget_bounds_amplification_witness:
  "allowed (budget_run (bsys_init 20 0) straddling_run) = 6 \<and>
   allowed (budget_run (bsys_init 20 0) straddling_run) \<le> 6"
proof
  have "list_all (percent_step 20) straddling_run" by code_simp
  from budget_bounds_amplification [OF _ this, of 0]
  have "allowed (budget_run (bsys_init 20 0) straddling_run) \<le>
      2 * recorded (budget_run (bsys_init 20 0) straddling_run) * 20 div 100 +
      minFreeRetries * (w_epoch (windows (budget_run (bsys_init 20 0) straddling_run) !
        live (budget_run (bsys_init 20 0) straddling_run)) - budget_epoch 0 + 1)"
    by (simp add: Let_def)
  moreover have "recorded (budget_run (bsys_init 20 0) straddling_run) = 0" by code_simp
  moreover have "w_epoch (windows (budget_run (bsys_init 20 0) straddling_run) !
      live (budget_run (bsys_init 20 0) straddling_run)) = 1" by code_simp
  ultimately show "allowed (budget_run (bsys_init 20 0) straddling_run) \<le> 6"
    by (simp add: minFreeRetries_def budget_epoch_def)
  show "allowed (budget_run (bsys_init 20 0) straddling_run) = 6" by code_simp
qed

text \<open>In that run the two buckets of the trailing window hold six retries and no primary,
  twice the \<open>floor(primaries * percent / 100) + minFreeRetries\<close> a budget is documented to
  permit over its trailing window; each of the last three grants was made while that bound was
  already spent, because the rotation had read the old bucket's retries before they were
  claimed. The same calls one after the other are granted three retries.\<close>

lemma budget_overspends_across_rotation:
  "(let s = budget_run (bsys_init 20 0) straddling_run in
    map (\<lambda>b. (w_epoch b, prevRetries b, retries b, primaries b)) (windows s) =
      [(0, 0, 3, 0), (1, 0, 3, 0)]) \<and>
   granted (foldl budget_exec (brun_init 20 0)
     (replicate 3 (EvAllow 0) @ replicate 3 (EvAllow (10 * second)))) = 3"
  by code_simp

end
