(* ===== verification/Affinity.thy ===== *)
theory Affinity
  imports Prelude "HOL-Library.Char_ord" "HOL-Library.List_Lexorder"
begin

text \<open>
  \<^verbatim>\<open>src/internal/affinity/affinity.go\<close>: the mapping from keys to backends behind
  \<^verbatim>\<open>strategy = "consistent_hash"\<close>.

  The hash works on 64-bit words, because it lives from wrap-around. The fixed-point
  logarithm works on integers with the reduction modulo \<open>2 ^ 64\<close> written out where the
  code shifts left, multiplies or subtracts. A Go string is the list of its bytes and is compared
  byte by byte, as Go compares strings.
\<close>

unbundle bit_operations_syntax

definition MaxKeyBytes :: nat where "MaxKeyBytes = 256"
definition fnvOffset64 :: uint64 where "fnvOffset64 = 14695981039346656037"
definition fnvPrime64 :: uint64 where "fnvPrime64 = 1099511628211"

subsection \<open>The hash\<close>

definition fmix64 :: "uint64 \<Rightarrow> uint64" where
  "fmix64 h =
     (let h = h XOR drop_bit 33 h;
          h = h * 0xff51afd7ed558ccd;
          h = h XOR drop_bit 33 h;
          h = h * 0xc4ceb9fe1a85ec53 in
      h XOR drop_bit 33 h)"

fun fnv_loop :: "uint64 \<Rightarrow> string \<Rightarrow> uint64" where
  "fnv_loop h [] = h"
| "fnv_loop h (c # cs) = fnv_loop ((h XOR of_char c) * fnvPrime64) cs"

definition Sum :: "string \<Rightarrow> uint64" where
  "Sum s = fmix64 (fnv_loop fnvOffset64 s)"

definition Score :: "uint64 \<Rightarrow> uint64 \<Rightarrow> uint64" where
  "Score key backend = fmix64 (key XOR backend)"

text \<open>The finalizer undone: the shift is its own inverse, since \<open>33 + 33 > 64\<close>, and the
  multipliers are odd.\<close>

definition fmix64_inverse :: "uint64 \<Rightarrow> uint64" where
  "fmix64_inverse h =
     (let h = h XOR drop_bit 33 h;
          h = h * 0x9cb4b2f8129337db;
          h = h XOR drop_bit 33 h;
          h = h * 0x4f74430c22a54005 in
      h XOR drop_bit 33 h)"

lemma xorshift33_involution: "(h XOR drop_bit 33 h) XOR drop_bit 33 (h XOR drop_bit 33 h) = h"
  for h :: uint64
proof -
  have "drop_bit 66 h = 0" by (rule bit_word_eqI) (simp add: bit_drop_bit_eq bit_imp_le_length)
  then show ?thesis by (simp add: xor.assoc)
qed

lemma odd_multipliers:
  "(0xff51afd7ed558ccd :: uint64) * 0x4f74430c22a54005 = 1"
  "(0xc4ceb9fe1a85ec53 :: uint64) * 0x9cb4b2f8129337db = 1"
  by code_simp+

lemma mult_inverses:
  "((h :: uint64) * 0xff51afd7ed558ccd) * 0x4f74430c22a54005 = h"
  "((h :: uint64) * 0xc4ceb9fe1a85ec53) * 0x9cb4b2f8129337db = h"
  by (simp_all only: mult.assoc odd_multipliers mult_1_right)

lemma fmix64_left_inverse: "fmix64_inverse (fmix64 h) = h"
  by (simp only: fmix64_inverse_def fmix64_def Let_def xorshift33_involution mult_inverses)

lemma xor_left_cancel: "k XOR a = k XOR b \<longleftrightarrow> a = b" for k :: uint64
proof
  assume "k XOR a = k XOR b"
  then have "k XOR (k XOR a) = k XOR (k XOR b)" by (rule arg_cong)
  then show "a = b" unfolding xor.assoc [symmetric] by simp
qed simp

text \<open>The finalizer of the hash is a bijection on 64-bit words (an explicit inverse undoes
  it), so for a fixed key two backends with different sums never get the same score.\<close>

lemma fmix64_bijective:
  "fmix64_inverse (fmix64 h) = h \<and> bij fmix64 \<and> (Score key a = Score key b \<longleftrightarrow> a = b)"
proof -
  have inj: "inj fmix64" by (rule inj_on_inverseI [where g = fmix64_inverse]) (rule fmix64_left_inverse)
  then have "bij fmix64" by (simp add: bij_def finite_UNIV_inj_surj)
  moreover have "Score key a = Score key b \<longleftrightarrow> a = b"
    by (simp add: Score_def inj_eq [OF inj] xor_left_cancel)
  ultimately show ?thesis by (simp add: fmix64_left_inverse)
qed

subsection \<open>The fixed-point logarithm\<close>

definition negLog2Frac :: nat where "negLog2Frac = 32"
definition log2TableBits :: nat where "log2TableBits = 10"

definition shl64 :: "int \<Rightarrow> nat \<Rightarrow> int" where
  "shl64 x n = (x * 2 ^ n) mod 2 ^ 64"

definition shr64 :: "int \<Rightarrow> nat \<Rightarrow> int" where
  "shr64 x n = x div 2 ^ n"

fun Len64 :: "int \<Rightarrow> nat" where
  "Len64 x = (if x \<le> 0 then 0 else Suc (Len64 (x div 2)))"

declare Len64.simps [simp del]

definition LeadingZeros64 :: "int \<Rightarrow> nat" where
  "LeadingZeros64 x = 64 - Len64 x"

definition Mul64 :: "int \<Rightarrow> int \<Rightarrow> int \<times> int" where
  "Mul64 x y = (x * y div 2 ^ 64, x * y mod 2 ^ 64)"

fun log2_loop :: "nat \<Rightarrow> int \<Rightarrow> int \<Rightarrow> int" where
  "log2_loop 0 frac m = frac"
| "log2_loop (Suc k) frac m =
     (let (hi, lo) = Mul64 m m;
          m = shl64 hi 2 OR shr64 lo 62;
          frac = shl64 frac 1 in
      if m \<ge> 2 ^ 63 then log2_loop k (frac OR 1) (shr64 m 1) else log2_loop k frac m)"

definition log2Exact :: "int \<Rightarrow> int" where
  "log2Exact x =
     (let msb = 63 - LeadingZeros64 x;
          m = shr64 (shl64 x (63 - msb)) 1 in
      shl64 (int msb) negLog2Frac OR log2_loop negLog2Frac 0 m)"

text \<open>The table as a function of its index; the code fills it once, at start-up.\<close>

definition log2Table :: "int \<Rightarrow> int" where
  "log2Table i =
     (log2Exact (2 ^ log2TableBits + i) - int log2TableBits * 2 ^ negLog2Frac) mod 2 ^ 64"

definition negLog2 :: "int \<Rightarrow> int" where
  "negLog2 h =
     (let x = h OR 1;
          lz = LeadingZeros64 x;
          m = shl64 x lz;
          i = shr64 m (63 - log2TableBits) AND (2 ^ log2TableBits - 1);
          r = shr64 (shl64 m (log2TableBits + 1)) (64 - negLog2Frac);
          lo = log2Table i;
          hi = log2Table (i + 1);
          frac = lo + shr64 (((hi - lo) mod 2 ^ 64 * r) mod 2 ^ 64) negLog2Frac in
      (64 * 2 ^ negLog2Frac - (shl64 (63 - int lz) negLog2Frac + frac)) mod 2 ^ 64)"

definition clampWeight :: "int \<Rightarrow> int" where
  "clampWeight w = (if w < 1 then 1 else w)"

record Candidate =
  c_Identity :: string
  c_Sum :: uint64
  c_Weight :: int

definition Better :: "uint64 \<Rightarrow> Candidate \<Rightarrow> Candidate \<Rightarrow> bool" where
  "Better key a b =
     (let sa = Score key (c_Sum a); sb = Score key (c_Sum b);
          rest = (if sa \<noteq> sb then sa > sb else c_Identity a < c_Identity b) in
      if c_Weight a \<noteq> c_Weight b then
        let la = negLog2 (uint sa); lb = negLog2 (uint sb);
            (ahi, alo) = Mul64 (clampWeight (c_Weight a)) lb;
            (bhi, blo) = Mul64 (clampWeight (c_Weight b)) la in
        if ahi \<noteq> bhi then ahi > bhi
        else if alo \<noteq> blo then alo > blo
        else rest
      else rest)"

end
