(* ===== verification/Affinity_Log.thy ===== *)
theory Affinity_Log
  imports Affinity
begin

text \<open>
  The fixed-point logarithm of \<^verbatim>\<open>affinity.go\<close>: it is positive and falls when the score
  rises, the two facts on which the weighted comparison and its equal-weight shortcut rest.
\<close>

subsection \<open>One squaring step without the word arithmetic\<close>

lemma or_disjoint:
  fixes a b :: int
  assumes "0 \<le> b" and "b < 2 ^ n"
  shows "(a * 2 ^ n) OR b = a * 2 ^ n + b"
proof -
  have "take_bit n b = b" using assms by (simp add: take_bit_int_eq_self)
  then have "push_bit n a AND b = 0"
    by (metis (no_types, lifting) and.commute bit_and_iff bit_eqI bit_push_bit_iff
        bit_take_bit_iff bit_0_eq bot_apply bot_bool_def leD)
  then show ?thesis using disjunctive_add_eq_or [of "push_bit n a" b] by (simp add: push_bit_eq_mult)
qed

definition sq :: "int \<Rightarrow> int" where
  "sq m = m * m div 2 ^ 62"

definition mantissa :: "int \<Rightarrow> bool" where
  "mantissa m \<longleftrightarrow> 2 ^ 62 \<le> m \<and> m < 2 ^ 63"

lemma sq_mono: "0 \<le> m \<Longrightarrow> m \<le> n \<Longrightarrow> sq m \<le> sq n"
  unfolding sq_def by (intro zdiv_mono1 mult_mono) auto

lemma sq_bounds:
  assumes "mantissa m"
  shows "2 ^ 62 \<le> sq m" "sq m < 2 ^ 64"
proof -
  have "sq (2 ^ 62) \<le> sq m" "sq m \<le> sq (2 ^ 63 - 1)"
    using assms by (auto intro!: sq_mono simp: mantissa_def)
  then show "2 ^ 62 \<le> sq m" "sq m < 2 ^ 64" by (simp_all add: sq_def)
qed

lemma square_words:
  assumes "mantissa m" and "Mul64 m m = (hi, lo)"
  shows "shl64 hi 2 OR shr64 lo 62 = sq m"
proof -
  let ?P = "m * m"
  have hi: "hi = ?P div 2 ^ 64" and lo: "lo = ?P mod 2 ^ 64"
    using assms(2) by (simp_all add: Mul64_def)
  have "?P \<le> (2 ^ 63 - 1) * (2 ^ 63 - 1)"
    using assms(1) by (intro mult_mono) (auto simp: mantissa_def)
  then have "hi < 2 ^ 62" unfolding hi by (simp add: div_less_iff_less_mult)
  moreover have "0 \<le> hi" unfolding hi by (simp add: pos_imp_zdiv_nonneg_iff)
  ultimately have "shl64 hi 2 = hi * 2 ^ 2" by (simp add: shl64_def)
  moreover have "0 \<le> lo" "lo < 2 ^ 64" unfolding lo by simp_all
  then have "0 \<le> shr64 lo 62" "shr64 lo 62 < 2 ^ 2"
    by (simp_all add: shr64_def pos_imp_zdiv_nonneg_iff div_less_iff_less_mult)
  ultimately have "shl64 hi 2 OR shr64 lo 62 = hi * 4 + lo div 2 ^ 62"
    using or_disjoint [of "shr64 lo 62" 2 hi] by (simp add: shr64_def)
  also have "\<dots> = (hi * 2 ^ 64 + lo) div 2 ^ 62" by simp
  also have "hi * 2 ^ 64 + lo = ?P" unfolding hi lo by (rule div_mult_mod_eq)
  finally show ?thesis by (simp add: sq_def)
qed

lemma log2_loop_step:
  assumes "mantissa m" and "0 \<le> f" and "f < 2 ^ 63"
  shows "log2_loop (Suc k) f m =
           (if sq m \<ge> 2 ^ 63 then log2_loop k (2 * f + 1) (sq m div 2)
            else log2_loop k (2 * f) (sq m))"
proof -
  obtain hi lo where M: "Mul64 m m = (hi, lo)" by fastforce
  have "shl64 f 1 = 2 * f" using assms(2,3) by (simp add: shl64_def mult.commute)
  moreover have "(2 * f) OR 1 = 2 * f + 1" using or_disjoint [of 1 1 f] by (simp add: mult.commute)
  ultimately show ?thesis
    using square_words [OF assms(1) M] M by (simp add: Let_def shr64_def)
qed

lemma mantissa_step:
  assumes "mantissa m"
  shows "sq m \<ge> 2 ^ 63 \<Longrightarrow> mantissa (sq m div 2)" and "\<not> sq m \<ge> 2 ^ 63 \<Longrightarrow> mantissa (sq m)"
  using sq_bounds [OF assms] by (auto simp: mantissa_def)

lemma frac_small:
  fixes f :: int
  assumes "0 \<le> f" and "(f + 1) * 2 ^ k \<le> 2 ^ 63"
  shows "f < 2 ^ 63"
proof -
  have "(f + 1) * 1 \<le> (f + 1) * 2 ^ k"
    using assms(1) by (intro mult_left_mono one_le_power) auto
  then have "f + 1 \<le> 2 ^ 63" using order_trans [OF _ assms(2)] by simp
  then show ?thesis by simp
qed

lemma log2_loop_bounds:
  assumes "mantissa m" and "0 \<le> f" and "(f + 1) * 2 ^ k \<le> 2 ^ 63"
  shows "f * 2 ^ k \<le> log2_loop k f m \<and> log2_loop k f m < (f + 1) * 2 ^ k"
  using assms
proof (induction k arbitrary: f m)
  case (Suc k)
  have f: "f < 2 ^ 63" using Suc.prems(2,3) by (rule frac_small)
  show ?case
  proof (cases "sq m \<ge> 2 ^ 63")
    case True
    have "(2 * f + 1 + 1) * 2 ^ k \<le> 2 ^ 63" using Suc.prems(3) by (simp add: algebra_simps)
    from Suc.IH [OF mantissa_step(1) [OF Suc.prems(1) True] _ this] Suc.prems(2) True show ?thesis
      unfolding log2_loop_step [OF Suc.prems(1,2) f] by (simp add: algebra_simps)
  next
    case False
    have le: "(2 * f + 1) * 2 ^ k \<le> (f + 1) * 2 ^ Suc k" by (simp add: algebra_simps)
    from Suc.IH [OF mantissa_step(2) [OF Suc.prems(1) False] _ order_trans [OF le Suc.prems(3)]]
      Suc.prems(2) False le show ?thesis
      unfolding log2_loop_step [OF Suc.prems(1,2) f] by (simp add: algebra_simps)
  qed
qed simp

text \<open>A larger mantissa never yields a smaller fraction.\<close>

lemma log2_loop_mono:
  assumes "mantissa m" and "mantissa n" and "m \<le> n" and "0 \<le> f" and "(f + 1) * 2 ^ k \<le> 2 ^ 63"
  shows "log2_loop k f m \<le> log2_loop k f n"
  using assms
proof (induction k arbitrary: f m n)
  case (Suc k)
  have f: "f < 2 ^ 63" using Suc.prems(4,5) by (rule frac_small)
  have le1: "(2 * f + 1 + 1) * 2 ^ k \<le> 2 ^ 63" using Suc.prems(5) by (simp add: algebra_simps)
  have "(2 * f + 1) * 2 ^ k \<le> (2 * f + 1 + 1) * 2 ^ k" by (intro mult_right_mono) auto
  with le1 have le0: "(2 * f + 1) * 2 ^ k \<le> 2 ^ 63" by linarith
  note ms = mantissa_step [OF Suc.prems(1)] and ns = mantissa_step [OF Suc.prems(2)]
  have sq: "sq m \<le> sq n" using Suc.prems by (intro sq_mono) (auto simp: mantissa_def)
  note steps = log2_loop_step [OF Suc.prems(1,4) f] log2_loop_step [OF Suc.prems(2,4) f]
  consider (both) "sq m \<ge> 2 ^ 63" "sq n \<ge> 2 ^ 63" | (one) "\<not> sq m \<ge> 2 ^ 63" "sq n \<ge> 2 ^ 63"
    | (none) "\<not> sq m \<ge> 2 ^ 63" "\<not> sq n \<ge> 2 ^ 63"
    using sq by linarith
  then show ?case
  proof cases
    case both
    have "sq m div 2 \<le> sq n div 2" using sq by (rule zdiv_mono1) simp
    from Suc.IH [OF ms(1) [OF both(1)] ns(1) [OF both(2)] this _ le1] Suc.prems(4) both
    show ?thesis unfolding steps by simp
  next
    case one
    have "log2_loop k (2 * f) (sq m) < (2 * f + 1) * 2 ^ k"
      using log2_loop_bounds [OF ms(2) [OF one(1)] _ le0] Suc.prems(4) by simp
    moreover have "(2 * f + 1) * 2 ^ k \<le> log2_loop k (2 * f + 1) (sq n div 2)"
      using log2_loop_bounds [OF ns(1) [OF one(2)] _ le1] Suc.prems(4) by simp
    ultimately show ?thesis unfolding steps using one by simp
  next
    case none
    from Suc.IH [OF ms(2) [OF none(1)] ns(2) [OF none(2)] sq _ le0] Suc.prems(4) none
    show ?thesis unfolding steps by simp
  qed
qed simp

lemma log2_loop_one: "0 \<le> f \<Longrightarrow> (f + 1) * 2 ^ k \<le> 2 ^ 63 \<Longrightarrow> log2_loop k f (2 ^ 62) = f * 2 ^ k"
proof (induction k arbitrary: f)
  case (Suc k)
  have f: "f < 2 ^ 63" using Suc.prems(1,2) by (rule frac_small)
  have m: "mantissa (2 ^ 62)" by (simp add: mantissa_def)
  have "(2 * f + 1) * 2 ^ k \<le> (f + 1) * 2 ^ Suc k" by (simp add: algebra_simps)
  from Suc.IH [OF _ order_trans [OF this Suc.prems(2)]] Suc.prems(1)
  have "log2_loop k (2 * f) (2 ^ 62) = 2 * f * 2 ^ k" by simp
  moreover have "sq (2 ^ 62) = 2 ^ 62" by (simp add: sq_def)
  ultimately show ?case using log2_loop_step [OF m Suc.prems(1) f, of k] by simp
qed simp

subsection \<open>The table\<close>

lemma Len64_bounds:
  assumes "0 < x"
  shows "0 < Len64 x" "2 ^ (Len64 x - 1) \<le> x" "x < 2 ^ Len64 x"
proof -
  have "0 < Len64 x \<and> 2 ^ (Len64 x - 1) \<le> x \<and> x < 2 ^ Len64 x"
    using assms
  proof (induction x rule: Len64.induct)
    case (1 x)
    show ?case
    proof (cases "x div 2 \<le> 0")
      case True
      then have "x = 1" using "1.prems" by simp
      then show ?thesis by (simp add: Len64.simps)
    next
      case False
      then obtain n where n: "Len64 (x div 2) = Suc n"
        and "2 ^ n \<le> x div 2" "x div 2 < 2 ^ Suc n"
        using "1.IH" "1.prems" by (cases "Len64 (x div 2)") auto
      moreover have "Len64 x = Suc (Suc n)" using "1.prems" n by (subst Len64.simps) simp
      ultimately show ?thesis by (simp, linarith)
    qed
  qed
  then show "0 < Len64 x" "2 ^ (Len64 x - 1) \<le> x" "x < 2 ^ Len64 x" by simp_all
qed

lemma Len64_eq:
  assumes "2 ^ n \<le> x" and "x < 2 ^ Suc n"
  shows "Len64 x = Suc n"
proof -
  have "0 < x" using assms(1) by (smt (verit) zero_less_power)
  note b = Len64_bounds [OF this]
  have "(2 :: int) ^ n < 2 ^ Len64 x" "(2 :: int) ^ (Len64 x - 1) < 2 ^ Suc n"
    using assms b by linarith+
  then have "n < Len64 x" "Len64 x - 1 < Suc n" by (simp_all only: power_strict_increasing_iff)
  then show ?thesis by linarith
qed

lemma log2Exact_eq:
  assumes "2 ^ n \<le> x" and "x < 2 ^ Suc n" and "n \<le> 31"
  shows "log2Exact x = int n * 2 ^ 32 + log2_loop 32 0 (x * 2 ^ (62 - n))"
    and "mantissa (x * 2 ^ (62 - n))"
proof -
  have len: "Len64 x = Suc n" by (rule Len64_eq [OF assms(1,2)])
  have pw: "(2 :: int) ^ (63 - n) = 2 * 2 ^ (62 - n)"
    using assms(3) by (simp add: Suc_diff_le flip: power_Suc)
  have "2 ^ n * 2 ^ (62 - n) \<le> x * 2 ^ (62 - n)" "x * 2 ^ (62 - n) < 2 ^ Suc n * 2 ^ (62 - n)"
    using assms(1,2) by (intro mult_right_mono mult_strict_right_mono; simp del: power_Suc)+
  moreover have "(2 :: int) ^ n * 2 ^ (62 - n) = 2 ^ 62" "(2 :: int) ^ Suc n * 2 ^ (62 - n) = 2 ^ 63"
    using assms(3) by (simp_all flip: power_add del: power_Suc)
  ultimately show m: "mantissa (x * 2 ^ (62 - n))" unfolding mantissa_def by linarith
  have "shl64 x (63 - n) = 2 * (x * 2 ^ (62 - n))"
    using m by (simp add: shl64_def pw mantissa_def)
  moreover have "shl64 (int n) 32 = int n * 2 ^ 32" using assms(3) by (simp add: shl64_def)
  moreover have "0 \<le> log2_loop 32 0 (x * 2 ^ (62 - n))" "log2_loop 32 0 (x * 2 ^ (62 - n)) < 2 ^ 32"
    using log2_loop_bounds [OF m, of 0 32] by simp_all
  ultimately show "log2Exact x = int n * 2 ^ 32 + log2_loop 32 0 (x * 2 ^ (62 - n))"
    using assms(3) or_disjoint [of "log2_loop 32 0 (x * 2 ^ (62 - n))" 32 "int n"]
    by (simp add: log2Exact_def LeadingZeros64_def len negLog2Frac_def shr64_def Let_def)
qed

lemma log2Table_small:
  assumes "0 \<le> i" and "i < 1024"
  shows "log2Table i = log2_loop 32 0 ((1024 + i) * 2 ^ 52)" and "mantissa ((1024 + i) * 2 ^ 52)"
    and "0 \<le> log2Table i" and "log2Table i < 2 ^ 32"
proof -
  have x: "2 ^ 10 \<le> 1024 + i" "1024 + i < 2 ^ Suc 10" using assms by simp_all
  note e = log2Exact_eq [OF x] and b = log2_loop_bounds [OF log2Exact_eq(2) [OF x], of 0 32]
  show "mantissa ((1024 + i) * 2 ^ 52)" using e(2) by simp
  show t: "log2Table i = log2_loop 32 0 ((1024 + i) * 2 ^ 52)"
    using e(1) b by (simp add: log2Table_def log2TableBits_def negLog2Frac_def)
  show "0 \<le> log2Table i" "log2Table i < 2 ^ 32" unfolding t using b by simp_all
qed

lemma log2Table_last: "log2Table 1024 = 2 ^ 32"
  using log2Exact_eq(1) [of 11 2048] log2_loop_one [of 0 32]
  by (simp add: log2Table_def log2TableBits_def negLog2Frac_def)

lemma log2Table_mono:
  assumes "0 \<le> i" and "i \<le> j" and "j \<le> 1024"
  shows "log2Table i \<le> log2Table j"
proof (cases "j = 1024")
  case True
  then show ?thesis
    using assms log2Table_small(4) [of i] log2Table_last by (cases "i = 1024") auto
next
  case False
  then have "i < 1024" "j < 1024" "0 \<le> j" using assms by simp_all
  with assms show ?thesis
    unfolding log2Table_small(1) [OF assms(1) \<open>i < 1024\<close>] log2Table_small(1) [OF \<open>0 \<le> j\<close> \<open>j < 1024\<close>]
    by (intro log2_loop_mono log2Table_small(2)) auto
qed

subsection \<open>The negated logarithm\<close>

text \<open>For a normalized mantissa \<open>m\<close>, leading one at bit 63: the table index, the position
  inside the segment, and the interpolated fraction.\<close>

definition seg :: "int \<Rightarrow> int" where
  "seg m = m div 2 ^ 53 - 1024"

definition pos_in_seg :: "int \<Rightarrow> int" where
  "pos_in_seg m = m mod 2 ^ 53 div 2 ^ 21"

definition interp :: "int \<Rightarrow> int \<Rightarrow> int" where
  "interp i r = log2Table i + (log2Table (i + 1) - log2Table i) * r div 2 ^ 32"

lemma seg_bounds:
  assumes "2 ^ 63 \<le> m" and "m < 2 ^ 64"
  shows "0 \<le> seg m" "seg m < 1024" "0 \<le> pos_in_seg m" "pos_in_seg m < 2 ^ 32"
proof -
  have "2 ^ 63 div 2 ^ 53 \<le> m div 2 ^ 53" using assms(1) by (rule zdiv_mono1) simp
  then show "0 \<le> seg m" by (simp add: seg_def)
  show "seg m < 1024" using assms by (simp add: seg_def div_less_iff_less_mult)
  have "0 \<le> m mod 2 ^ 53" "m mod 2 ^ 53 < 2 ^ 53" by simp_all
  then show "0 \<le> pos_in_seg m" "pos_in_seg m < 2 ^ 32"
    by (simp_all add: pos_in_seg_def pos_imp_zdiv_nonneg_iff div_less_iff_less_mult)
qed

lemma seg_words:
  assumes "2 ^ 63 \<le> m" and "m < 2 ^ 64"
  shows "shr64 m 53 AND (2 ^ 10 - 1) = seg m" and "shr64 (shl64 m 11) 32 = pos_in_seg m"
proof -
  have "shr64 m 53 AND (2 ^ 10 - 1) = (m div 2 ^ 53) mod 2 ^ 10"
    using take_bit_eq_mask [of 10 "m div 2 ^ 53"]
    by (simp add: shr64_def mask_eq_exp_minus_1 take_bit_eq_mod)
  also have "\<dots> = seg m mod 1024" by (simp add: seg_def)
  also have "\<dots> = seg m" using seg_bounds(1,2) [OF assms] by (rule mod_pos_pos_trivial)
  finally show "shr64 m 53 AND (2 ^ 10 - 1) = seg m" .
  have "m * 2 ^ 11 mod (2 ^ 53 * 2 ^ 11) = (m mod 2 ^ 53) * 2 ^ 11" by (rule mod_mult_mult2)
  then have "shl64 m 11 = (m mod 2 ^ 53) * 2 ^ 11" by (simp add: shl64_def)
  then have "shr64 (shl64 m 11) 32 = (m mod 2 ^ 53) * 2 ^ 11 div (2 ^ 21 * 2 ^ 11)"
    by (simp add: shr64_def)
  also have "\<dots> = pos_in_seg m" unfolding pos_in_seg_def by (rule div_mult_mult2) simp
  finally show "shr64 (shl64 m 11) 32 = pos_in_seg m" .
qed

lemma interp_bounds:
  assumes "0 \<le> i" and "i < 1024" and "0 \<le> r" and "r < 2 ^ 32"
  shows "log2Table i \<le> interp i r" "interp i r \<le> log2Table (i + 1)" "interp i r < 2 ^ 32"
    and "0 \<le> (log2Table (i + 1) - log2Table i) * r" "(log2Table (i + 1) - log2Table i) * r < 2 ^ 64"
proof -
  let ?d = "log2Table (i + 1) - log2Table i"
  have d: "0 \<le> ?d" using log2Table_mono [of i "i + 1"] assms by simp
  have hi: "log2Table (i + 1) \<le> 2 ^ 32"
    using log2Table_mono [of "i + 1" 1024] assms log2Table_last by simp
  have lo: "0 \<le> log2Table i" "log2Table i < 2 ^ 32" using log2Table_small assms by simp_all
  show p0: "0 \<le> ?d * r" using d assms(3) by simp
  have q: "?d * r div 2 ^ 32 \<le> ?d"
  proof -
    have "?d * r \<le> ?d * 2 ^ 32" using d assms(4) by (intro mult_left_mono) auto
    then have "?d * r div 2 ^ 32 \<le> ?d * 2 ^ 32 div 2 ^ 32" by (rule zdiv_mono1) simp
    then show ?thesis by simp
  qed
  have q1: "?d * r div 2 ^ 32 < ?d" if "0 < ?d"
  proof -
    have "?d * r < ?d * 2 ^ 32" using that assms(4) by (intro mult_strict_left_mono) auto
    then show ?thesis by (simp add: div_less_iff_less_mult)
  qed
  have "?d * r \<le> 2 ^ 32 * (2 ^ 32 - 1)"
    using d hi lo assms(3,4) by (intro mult_mono) auto
  then show "?d * r < 2 ^ 64" by simp
  show "log2Table i \<le> interp i r" using p0 by (simp add: interp_def pos_imp_zdiv_nonneg_iff)
  show "interp i r \<le> log2Table (i + 1)" using q by (simp add: interp_def)
  show "interp i r < 2 ^ 32"
  proof (cases "0 < ?d")
    case True
    with q1 hi show ?thesis by (simp add: interp_def)
  next
    case False
    with d lo show ?thesis by (simp add: interp_def)
  qed
qed

lemma interp_mono:
  assumes "0 \<le> i" and "j < 1024" and "0 \<le> r" and "r < 2 ^ 32" and "0 \<le> s" and "s < 2 ^ 32"
    and "i < j \<or> i = j \<and> r \<le> s"
  shows "interp i r \<le> interp j s"
proof (cases "i = j")
  case True
  have "0 \<le> log2Table (i + 1) - log2Table i" using log2Table_mono [of i "i + 1"] assms True by simp
  then have "(log2Table (i + 1) - log2Table i) * r div 2 ^ 32
      \<le> (log2Table (i + 1) - log2Table i) * s div 2 ^ 32"
    using assms True by (intro zdiv_mono1 mult_left_mono) auto
  with True show ?thesis by (simp add: interp_def)
next
  case False
  then have "interp i r \<le> log2Table (i + 1)" "log2Table (i + 1) \<le> log2Table j"
    "log2Table j \<le> interp j s"
    using assms interp_bounds(2) [of i r] interp_bounds(1) [of j s] log2Table_mono [of "i + 1" j]
    by auto
  then show ?thesis by linarith
qed

lemma or_one_pos: "0 \<le> h \<Longrightarrow> 0 < h OR 1" for h :: int
  by (auto simp: or_one_eq le_less elim: evenE)

lemma negLog2_eq:
  assumes "0 \<le> h" and "h < 2 ^ 64" and "n = Len64 (h OR 1)" and "m = (h OR 1) * 2 ^ (64 - n)"
  shows "0 < n" "n \<le> 64" "2 ^ 63 \<le> m" "m < 2 ^ 64"
    and "negLog2 h = 64 * 2 ^ 32 - ((int n - 1) * 2 ^ 32 + interp (seg m) (pos_in_seg m))"
proof -
  let ?x = "h OR 1"
  have x: "0 < ?x" "?x < 2 ^ 64" using assms(1,2) OR_upper [of h 64 1] by (simp_all add: or_one_pos)
  note len = Len64_bounds [OF x(1), folded assms(3)]
  show n0: "0 < n" by (rule len(1))
  have "(2 :: int) ^ (n - 1) < 2 ^ 64" using len(2) x(2) by linarith
  then have "n - 1 < 64" by (simp only: power_strict_increasing_iff)
  then show n64: "n \<le> 64" by simp
  have "2 ^ (n - 1) * 2 ^ (64 - n) \<le> m" "m < 2 ^ n * 2 ^ (64 - n)"
    unfolding assms(4) using len by (intro mult_right_mono mult_strict_right_mono; simp)+
  moreover have "(2 :: int) ^ (n - 1) * 2 ^ (64 - n) = 2 ^ 63" "(2 :: int) ^ n * 2 ^ (64 - n) = 2 ^ 64"
    using n0 n64 by (simp_all flip: power_add)
  ultimately show m: "2 ^ 63 \<le> m" "m < 2 ^ 64" by linarith+
  note b = seg_bounds [OF m] and w = seg_words [OF m]
  note i = interp_bounds [OF b]
  have lz: "LeadingZeros64 ?x = 64 - n" by (simp add: LeadingZeros64_def assms(3))
  have sm: "shl64 ?x (64 - n) = m" using m assms(4) by (simp add: shl64_def)
  have d: "0 \<le> log2Table (seg m + 1) - log2Table (seg m)"
    "log2Table (seg m + 1) - log2Table (seg m) < 2 ^ 64"
    using log2Table_mono [of "seg m" "seg m + 1"] log2Table_mono [of "seg m + 1" 1024]
      log2Table_last log2Table_small(3) [of "seg m"] b by simp_all
  have fr: "interp (seg m) (pos_in_seg m) = log2Table (seg m) +
      shr64 ((log2Table (seg m + 1) - log2Table (seg m)) mod 2 ^ 64 * pos_in_seg m mod 2 ^ 64) 32"
    using i(4,5) d by (simp add: interp_def shr64_def)
  have e: "63 - int (64 - n) = int n - 1" using n64 by simp
  have "shl64 (int n - 1) 32 = (int n - 1) * 2 ^ 32" using n0 n64 by (simp add: shl64_def)
  moreover have "0 \<le> interp (seg m) (pos_in_seg m)"
    using i(1) log2Table_small(3) [OF b(1,2)] by linarith
  moreover have "(int n - 1) * 2 ^ 32 \<le> 63 * 2 ^ 32" using n64 by (intro mult_right_mono) auto
  ultimately show "negLog2 h = 64 * 2 ^ 32 - ((int n - 1) * 2 ^ 32 + interp (seg m) (pos_in_seg m))"
    using i(3) n0 unfolding negLog2_def Let_def lz sm negLog2Frac_def log2TableBits_def e
    by (simp add: w [simplified] fr [simplified, symmetric])
qed

lemma negLog2_facts:
  assumes "0 \<le> g" and "g \<le> h" and "h < 2 ^ 64"
  shows "0 < negLog2 h \<and> negLog2 h \<le> negLog2 g \<and> negLog2 g \<le> 64 * 2 ^ 32"
proof -
  define ng mg where "ng = Len64 (g OR 1)" and "mg = (g OR 1) * 2 ^ (64 - ng)"
  define nh mh where "nh = Len64 (h OR 1)" and "mh = (h OR 1) * 2 ^ (64 - nh)"
  have g: "0 \<le> g" "g < 2 ^ 64" and h: "0 \<le> h" "h < 2 ^ 64" using assms by linarith+
  note G = negLog2_eq [OF g ng_def mg_def] and H = negLog2_eq [OF h nh_def mh_def]
  note bG = seg_bounds [OF G(3,4)] and bH = seg_bounds [OF H(3,4)]
  note iG = interp_bounds [OF bG] and iH = interp_bounds [OF bH]
  have xle: "g OR 1 \<le> h OR 1"
    using assms(2) unfolding or_one_eq by (cases "g = h") auto
  have x0: "0 < g OR 1" "0 < h OR 1" using g h by (simp_all add: or_one_pos)
  have "(2 :: int) ^ (ng - 1) < 2 ^ nh"
    using Len64_bounds(2) [OF x0(1)] Len64_bounds(3) [OF x0(2)] xle
    unfolding ng_def nh_def by linarith
  then have "ng - 1 < nh" by (simp only: power_strict_increasing_iff)
  then have "ng < nh \<or> ng = nh" by linarith
  moreover have "negLog2 h \<le> negLog2 g" if "ng < nh"
  proof -
    have "int ng * 2 ^ 32 \<le> (int nh - 1) * 2 ^ 32" using that by (intro mult_right_mono) auto
    then show ?thesis
      using iG(3) iH(1) log2Table_small(3) [OF bH(1,2)] unfolding G(5) H(5)
      by (simp add: algebra_simps)
  qed
  moreover have "negLog2 h \<le> negLog2 g" if eq: "ng = nh"
  proof -
    have "mg \<le> mh" unfolding mg_def mh_def eq using xle by (intro mult_right_mono) auto
    then have "mg div 2 ^ 53 \<le> mh div 2 ^ 53" by (rule zdiv_mono1) simp
    moreover have "mg mod 2 ^ 53 \<le> mh mod 2 ^ 53" if "mg div 2 ^ 53 = mh div 2 ^ 53"
      using that \<open>mg \<le> mh\<close> by (simp add: minus_div_mult_eq_mod [symmetric])
    ultimately have "seg mg < seg mh \<or> seg mg = seg mh \<and> pos_in_seg mg \<le> pos_in_seg mh"
      by (auto simp: seg_def pos_in_seg_def intro: zdiv_mono1)
    then have "interp (seg mg) (pos_in_seg mg) \<le> interp (seg mh) (pos_in_seg mh)"
      using bG bH by (intro interp_mono) auto
    then show ?thesis unfolding G(5) H(5) eq by simp
  qed
  moreover have "0 < negLog2 h"
  proof -
    have "(int nh - 1) * 2 ^ 32 \<le> 63 * 2 ^ 32" using H(2) by (intro mult_right_mono) auto
    then show ?thesis unfolding H(5) using iH(3) by linarith
  qed
  moreover have "negLog2 g \<le> 64 * 2 ^ 32"
    unfolding G(5) using G(1) iG(1) log2Table_small(3) [OF bG(1,2)] by simp
  ultimately show ?thesis by blast
qed

text \<open>The fixed-point logarithm used for weighted placement is never zero, so it can divide,
  and it never rises when the score rises: comparing equal-weight backends by their scores
  alone is the same order as comparing them through the logarithm.\<close>

lemma negLog2_positive_antitone:
  assumes "0 \<le> g" and "g \<le> h" and "h < 2 ^ 64"
  shows "0 < negLog2 h \<and> negLog2 h \<le> negLog2 g \<and> negLog2 g \<le> 64 * 2 ^ 32"
  by (rule negLog2_facts [OF assms])

lemma negLog2_positive_antitone_example:
  "0 < negLog2 12345678901234567890 \<and> negLog2 12345678901234567890 \<le> negLog2 7"
  using negLog2_positive_antitone [of 7 12345678901234567890] by simp

end
