(* ===== verification/Affinity_Rank.thy ===== *)
theory Affinity_Rank
  imports Affinity_Log Complex_Main
begin

text \<open>
  The order in which \<^verbatim>\<open>affinity.go\<close> ranks backends for a key, and what follows from it
  being a strict total order: the choice does not depend on the order of the pool, and a
  backend that leaves or joins moves only its own keys.
\<close>

subsection \<open>Rankings\<close>

text \<open>The scan that keeps the best element seen so far, as \<^verbatim>\<open>pickKey\<close> does.\<close>

fun best_by :: "('c \<Rightarrow> 'c \<Rightarrow> bool) \<Rightarrow> 'c \<Rightarrow> 'c list \<Rightarrow> 'c" where
  "best_by better best [] = best"
| "best_by better best (c # cs) = best_by better (if better c best then c else best) cs"

lemma best_by_in: "best_by better b cs \<in> insert b (set cs)"
  by (induction cs arbitrary: b) (auto split: if_splits)

lemma best_by_map:
  "f (best_by (\<lambda>x y. better (f x) (f y)) b cs) = best_by better (f b) (map f cs)"
  by (induction cs arbitrary: b) auto

locale ranking =
  fixes better :: "'c \<Rightarrow> 'c \<Rightarrow> bool" and ok :: "'c \<Rightarrow> bool"
  assumes irrefl: "\<not> better a a"
    and trans: "ok a \<Longrightarrow> ok b \<Longrightarrow> ok c \<Longrightarrow> better a b \<Longrightarrow> better b c \<Longrightarrow> better a c"
    and total: "ok a \<Longrightarrow> ok b \<Longrightarrow> a \<noteq> b \<Longrightarrow> better a b \<or> better b a"
begin

lemma asym: "ok a \<Longrightarrow> ok b \<Longrightarrow> better a b \<Longrightarrow> \<not> better b a"
  using trans irrefl by blast

lemma best_by_best:
  assumes "ok b" and "\<forall>c \<in> set cs. ok c" and "c \<in> insert b (set cs)"
  shows "c = best_by better b cs \<or> better (best_by better b cs) c"
  using assms
proof (induction cs arbitrary: b c)
  case (Cons d cs)
  let ?b = "if better d b then d else b"
  let ?r = "best_by better ?b cs"
  have b: "ok ?b" and cs: "\<forall>c \<in> set cs. ok c" using Cons.prems by auto
  have r: "ok ?r" using best_by_in [of better ?b cs] b cs by auto
  consider "c \<in> insert ?b (set cs)" | "c = b" "better d b" | "c = d" "\<not> better d b"
    using Cons.prems(3) by (cases "better d b") auto
  then show ?case
  proof cases
    case 1
    with Cons.IH [OF b cs] show ?thesis by auto
  next
    case 2
    have "d = ?r \<or> better ?r d" using Cons.IH [OF b cs, of d] 2 by auto
    with 2 r Cons.prems trans [of ?r d b] show ?thesis by auto
  next
    case 3
    have "b = ?r \<or> better ?r b" using Cons.IH [OF b cs, of b] 3 by auto
    moreover have "b = d \<or> better b d" using total [of b d] 3 Cons.prems by auto
    ultimately show ?thesis using 3 r Cons.prems trans [of ?r b d] by auto
  qed
qed simp

lemma best_unique:
  assumes "\<forall>c \<in> S. ok c" and "x \<in> S" and "y \<in> S"
    and "\<forall>c \<in> S. c = x \<or> better x c" and "\<forall>c \<in> S. c = y \<or> better y c"
  shows "x = y"
  using assms asym by metis

lemma best_by_eqI:
  assumes "ok b" and "\<forall>c \<in> set cs. ok c" and "x \<in> insert b (set cs)"
    and "\<forall>c \<in> insert b (set cs). c = x \<or> better x c"
  shows "best_by better b cs = x"
  using assms best_by_best [of b cs] best_by_in [of better b cs]
  by (intro best_unique [of "insert b (set cs)"]) auto

text \<open>Only the set of candidates matters.\<close>

lemma best_by_set_cong:
  assumes "ok b" and "\<forall>c \<in> set cs. ok c" and "insert b (set cs) = insert b' (set cs')"
  shows "best_by better b cs = best_by better b' cs'"
proof (rule best_by_eqI [OF assms(1,2)])
  have ok': "ok b'" "\<forall>c \<in> set cs'. ok c" using assms by auto
  show "best_by better b' cs' \<in> insert b (set cs)"
    using best_by_in [of better b' cs'] assms(3) by simp
  show "\<forall>c \<in> insert b (set cs). c = best_by better b' cs' \<or> better (best_by better b' cs') c"
    using best_by_best [OF ok'] assms(3) by blast
qed

text \<open>Leaving out a candidate that is not the best one changes nothing.\<close>

lemma best_by_subset:
  assumes "ok b" and "\<forall>c \<in> set cs. ok c" and "insert b' (set cs') \<subseteq> insert b (set cs)"
    and "best_by better b cs \<in> insert b' (set cs')"
  shows "best_by better b' cs' = best_by better b cs"
proof (rule best_by_eqI)
  show "ok b'" "\<forall>c \<in> set cs'. ok c" using assms(1,2,3) by auto
  show "\<forall>c \<in> insert b' (set cs'). c = best_by better b cs \<or> better (best_by better b cs) c"
    using best_by_best [OF assms(1,2)] assms(3) by blast
qed (rule assms(4))

end

subsection \<open>The order of candidates\<close>

definition cand_ok :: "Candidate \<Rightarrow> bool" where
  "cand_ok c \<longleftrightarrow> 1 \<le> c_Weight c \<and> c_Sum c = Sum (c_Identity c)"

definition score_log :: "uint64 \<Rightarrow> Candidate \<Rightarrow> int" where
  "score_log key c = negLog2 (uint (Score key (c_Sum c)))"

text \<open>The ratio the code compares by cross-multiplication.\<close>

definition quality :: "uint64 \<Rightarrow> Candidate \<Rightarrow> real" where
  "quality key c = of_int (clampWeight (c_Weight c)) / of_int (score_log key c)"

lemma score_log_pos: "0 < score_log key c"
  using negLog2_facts [of "uint (Score key (c_Sum c))" "uint (Score key (c_Sum c))"]
    uint_bounded [of "Score key (c_Sum c)"]
  by (simp add: score_log_def)

lemma score_log_antitone:
  "Score key (c_Sum a) \<le> Score key (c_Sum b) \<Longrightarrow> score_log key b \<le> score_log key a"
  using negLog2_facts [of "uint (Score key (c_Sum a))" "uint (Score key (c_Sum b))"]
    uint_bounded [of "Score key (c_Sum b)"]
  by (simp add: score_log_def word_le_def)

lemma clampWeight_pos: "0 < clampWeight w"
  by (simp add: clampWeight_def)

lemma cross_less:
  assumes "0 < L" and "0 < M"
  shows "(v * L < w * M) = (of_int v / of_int M < (of_int w / of_int L :: real))"
  using assms by (simp add: divide_simps flip: of_int_mult)

lemma Mul64_compare:
  assumes "Mul64 w M = (ahi, alo)" and "Mul64 v L = (bhi, blo)"
  shows "(if ahi \<noteq> bhi then ahi > bhi else if alo \<noteq> blo then alo > blo else P) =
         (v * L < w * M \<or> v * L = w * M \<and> P)"
proof -
  have e: "w * M = ahi * 2 ^ 64 + alo" "v * L = bhi * 2 ^ 64 + blo"
    and b: "0 \<le> alo" "alo < 2 ^ 64" "0 \<le> blo" "blo < 2 ^ 64"
    using assms by (auto simp: Mul64_def)
  show ?thesis
  proof (cases "ahi = bhi")
    case True
    with e show ?thesis by auto
  next
    case False
    then consider "ahi + 1 \<le> bhi" | "bhi + 1 \<le> ahi" by linarith
    then show ?thesis
    proof cases
      case 1
      then have "(ahi + 1) * 2 ^ 64 \<le> bhi * 2 ^ 64" by (intro mult_right_mono) auto
      with e b 1 show ?thesis by auto
    next
      case 2
      then have "(bhi + 1) * 2 ^ 64 \<le> ahi * 2 ^ 64" by (intro mult_right_mono) auto
      with e b 2 show ?thesis by auto
    qed
  qed
qed

lemma lex_shortcut:
  fixes p q :: real and s t :: uint64
  assumes "t \<le> s \<Longrightarrow> q \<le> p" and "s \<le> t \<Longrightarrow> p \<le> q"
  shows "(t < s \<or> t = s \<and> R) = (q < p \<or> q = p \<and> (t < s \<or> t = s \<and> R))"
proof (cases s t rule: linorder_cases)
  case less
  then show ?thesis using assms(2) [OF less_imp_le] by auto
next
  case greater
  then show ?thesis using assms(1) [OF less_imp_le] by auto
qed (use assms in auto)

lemma Better_iff:
  "Better key a b \<longleftrightarrow>
     quality key b < quality key a \<or>
     quality key b = quality key a \<and>
       (Score key (c_Sum b) < Score key (c_Sum a) \<or>
        Score key (c_Sum b) = Score key (c_Sum a) \<and> c_Identity a < c_Identity b)"
proof -
  let ?sa = "Score key (c_Sum a)" and ?sb = "Score key (c_Sum b)"
  let ?w = "clampWeight (c_Weight a)" and ?v = "clampWeight (c_Weight b)"
  let ?L = "score_log key a" and ?M = "score_log key b"
  let ?rest = "if ?sa \<noteq> ?sb then ?sa > ?sb else c_Identity a < c_Identity b"
  have q: "(?v * ?L < ?w * ?M) = (quality key b < quality key a)"
    "(?w * ?M < ?v * ?L) = (quality key a < quality key b)"
    unfolding quality_def by (rule cross_less; rule score_log_pos)+
  then have eq: "(?v * ?L = ?w * ?M) = (quality key b = quality key a)"
    by (metis not_less_iff_gr_or_eq)
  have rest: "?rest \<longleftrightarrow> ?sb < ?sa \<or> ?sb = ?sa \<and> c_Identity a < c_Identity b"
    by auto
  show ?thesis
  proof (cases "c_Weight a = c_Weight b")
    case False
    obtain ahi alo bhi blo where M: "Mul64 ?w ?M = (ahi, alo)" "Mul64 ?v ?L = (bhi, blo)"
      by fastforce
    have "Better key a b = (?v * ?L < ?w * ?M \<or> ?v * ?L = ?w * ?M \<and> ?rest)"
      using False Mul64_compare [OF M, of ?rest] M by (simp add: Better_def Let_def score_log_def)
    then show ?thesis unfolding q eq rest .
  next
    case True
    have mono: "quality key b \<le> quality key a" if "?sb \<le> ?sa"
      unfolding quality_def True
      using score_log_antitone [OF that] score_log_pos clampWeight_pos
      by (intro divide_left_mono) (auto intro!: mult_pos_pos simp: less_imp_le)
    have mono': "quality key a \<le> quality key b" if "?sa \<le> ?sb"
      unfolding quality_def True
      using score_log_antitone [OF that] score_log_pos clampWeight_pos
      by (intro divide_left_mono) (auto intro!: mult_pos_pos simp: less_imp_le)
    have "Better key a b = ?rest" using True by (simp add: Better_def Let_def)
    then show ?thesis unfolding rest by (rule trans [OF _ lex_shortcut [OF mono mono']])
  qed
qed

lemma Better_total_on_ok:
  assumes "cand_ok a" and "cand_ok b" and "\<not> Better key a b" and "\<not> Better key b a"
  shows "a = b"
proof -
  note nb = assms(3,4) [unfolded Better_iff]
  have q: "quality key a = quality key b"
    using nb linorder_less_linear [of "quality key a" "quality key b"] by blast
  have s: "Score key (c_Sum a) = Score key (c_Sum b)"
    using nb q linorder_less_linear [of "Score key (c_Sum a)" "Score key (c_Sum b)"] by metis
  have i: "c_Identity a = c_Identity b"
    using nb q s linorder_less_linear [of "c_Identity a" "c_Identity b"] by metis
  from i assms(1,2) have sum: "c_Sum a = c_Sum b" by (simp add: cand_ok_def)
  then have "score_log key a = score_log key b" by (simp add: score_log_def)
  with q score_log_pos [of key b] have "clampWeight (c_Weight a) = clampWeight (c_Weight b)"
    by (simp add: quality_def)
  then have "c_Weight a = c_Weight b" using assms(1,2) by (simp add: cand_ok_def clampWeight_def)
  with i sum show ?thesis by simp
qed

interpretation rendezvous_order: ranking "Better key" cand_ok for key
proof
  show "\<not> Better key a a" for a by (simp add: Better_iff)
  show "Better key a c" if "Better key a b" "Better key b c" for a b c
    using that unfolding Better_iff by (auto dest: less_trans)
  show "Better key a b \<or> Better key b a" if "cand_ok a" "cand_ok b" "a \<noteq> b" for a b
    using Better_total_on_ok that by blast
qed

text \<open>For every key, ranking is a strict total order on candidates with valid weights whose
  sum is the hash of their identity: no candidate beats itself, of two different ones exactly
  one beats the other, and the relation is transitive, across any mix of weights and although
  equal weights skip the logarithm.\<close>

lemma Better_strict_total_order:
  assumes "cand_ok a" and "cand_ok b" and "cand_ok c"
  shows "\<not> Better key a a \<and> (a \<noteq> b \<longrightarrow> Better key a b \<noteq> Better key b a) \<and>
         (Better key a b \<and> Better key b c \<longrightarrow> Better key a c)"
  using assms rendezvous_order.irrefl rendezvous_order.asym rendezvous_order.trans
    rendezvous_order.total by metis

subsection \<open>The ranked list\<close>

text \<open>The inner loop of the insertion sort in \<^verbatim>\<open>Rank\<close>: the element at position
  \<open>j\<close> moves down by swaps.\<close>

fun sift :: "uint64 \<Rightarrow> Candidate list \<Rightarrow> nat \<Rightarrow> nat list \<Rightarrow> nat list" where
  "sift key cs 0 order = order"
| "sift key cs (Suc j) order =
     (if Better key (cs ! (order ! Suc j)) (cs ! (order ! j))
      then sift key cs j (order[Suc j := order ! j, j := order ! Suc j])
      else order)"

definition Rank :: "uint64 \<Rightarrow> Candidate list \<Rightarrow> nat list" where
  "Rank key cs = fold (\<lambda>i order. sift key cs i order) [1..<length cs] [0..<length cs]"

lemma mset_sift: "j < length order \<Longrightarrow> mset (sift key cs j order) = mset order"
  by (induction j arbitrary: order) (auto simp: mset_swap)

lemma length_sift [simp]: "length (sift key cs j order) = length order"
  by (induction j arbitrary: order) auto

text \<open>\<open>above\<close> relates the entries at two positions of the order.\<close>

definition above :: "uint64 \<Rightarrow> Candidate list \<Rightarrow> nat \<Rightarrow> nat \<Rightarrow> bool" where
  "above key cs x y \<longleftrightarrow> cs ! x = cs ! y \<or> Better key (cs ! x) (cs ! y)"

lemma above_trans:
  assumes "\<forall>c \<in> set cs. cand_ok c" and "x < length cs" and "y < length cs" and "z < length cs"
    and "above key cs x y" and "above key cs y z"
  shows "above key cs x z"
  using assms rendezvous_order.trans [of "cs ! x" "cs ! y" "cs ! z" key] by (auto simp: above_def)

lemma above_total:
  assumes "\<forall>c \<in> set cs. cand_ok c" and "x < length cs" and "y < length cs"
    and "\<not> Better key (cs ! x) (cs ! y)"
  shows "above key cs y x"
  using assms rendezvous_order.total [of "cs ! x" "cs ! y" key]
  by (cases "cs ! x = cs ! y") (auto simp: above_def)

text \<open>While the element at position \<open>j\<close> moves down, the other entries below position
  \<open>m\<close> are in order and the moving one is above those it has passed.\<close>

definition sifting :: "uint64 \<Rightarrow> Candidate list \<Rightarrow> nat \<Rightarrow> nat \<Rightarrow> nat list \<Rightarrow> bool" where
  "sifting key cs m j order \<longleftrightarrow>
     (\<forall>p q. p < q \<and> q < m \<and> q \<noteq> j \<longrightarrow> above key cs (order ! p) (order ! q))"

lemma sift_step:
  assumes "sifting key cs m (Suc j) order" and "Suc j < m" and "m \<le> length order"
    and "Better key (cs ! (order ! Suc j)) (cs ! (order ! j))"
  shows "sifting key cs m j (order[Suc j := order ! j, j := order ! Suc j])"
  unfolding sifting_def
proof (intro allI impI, elim conjE)
  fix p q
  assume pq: "p < q" "q < m" "q \<noteq> j"
  note inv = assms(1) [unfolded sifting_def, rule_format]
  show "above key cs (order[Suc j := order ! j, j := order ! Suc j] ! p)
      (order[Suc j := order ! j, j := order ! Suc j] ! q)"
  proof (cases "q = Suc j")
    case True
    then show ?thesis
      using pq assms inv [of p j] by (auto simp: nth_list_update above_def less_Suc_eq)
  next
    case False
    then show ?thesis
      using pq assms inv [of p q] inv [of j q] inv [of "Suc j" q]
      by (auto simp: nth_list_update)
  qed
qed

lemma sift_sorted:
  assumes "\<forall>c \<in> set cs. cand_ok c" and "\<forall>x \<in> set order. x < length cs"
    and "sifting key cs m j order" and "j < m" and "m \<le> length order" and "p < q" and "q < m"
  shows "above key cs (sift key cs j order ! p) (sift key cs j order ! q)"
  using assms(2-5)
proof (induction j arbitrary: order)
  case 0
  then show ?case using assms(6,7) by (auto simp: sifting_def)
next
  case (Suc j)
  let ?next = "order[Suc j := order ! j, j := order ! Suc j]"
  have bd: "order ! k < length cs" if "k < m" for k using Suc.prems(1,4) that by auto
  show ?case
  proof (cases "Better key (cs ! (order ! Suc j)) (cs ! (order ! j))")
    case True
    have "set ?next \<subseteq> set order" using Suc.prems(3,4) by (auto simp: in_set_conv_nth nth_list_update)
    then show ?thesis
      using Suc.IH [of ?next] Suc.prems sift_step [OF Suc.prems(2) _ Suc.prems(4) True] True by auto
  next
    case False
    have ji: "above key cs (order ! j) (order ! Suc j)"
      by (rule above_total [OF assms(1) bd bd False]) (use Suc.prems in auto)
    note inv = Suc.prems(2) [unfolded sifting_def, rule_format]
    have "above key cs (order ! p) (order ! q)"
    proof (cases "q = Suc j \<and> p < j")
      case True
      then show ?thesis
        using inv [of p j] ji bd Suc.prems(3) assms(7)
        by (intro above_trans [OF assms(1), of "order ! p" "order ! j" "order ! q"]) auto
    qed (use inv [of p q] ji assms(6,7) in \<open>cases "q = Suc j"; auto simp: less_Suc_eq\<close>)
    with False show ?thesis by simp
  qed
qed

lemma Rank_prefix:
  assumes "\<forall>c \<in> set cs. cand_ok c" and "m \<le> length cs" and "1 \<le> m"
    and "ord = fold (\<lambda>i order. sift key cs i order) [1..<m] [0..<length cs]"
  shows "mset ord = mset [0..<length cs] \<and>
         (\<forall>p q. p < q \<and> q < m \<longrightarrow> above key cs (ord ! p) (ord ! q))"
  using assms(2-4)
proof (induction m arbitrary: ord)
  case (Suc m)
  show ?case
  proof (cases "m = 0")
    case False
    let ?prev = "fold (\<lambda>i order. sift key cs i order) [1..<m] [0..<length cs]"
    have IH: "mset ?prev = mset [0..<length cs]"
      "\<forall>p q. p < q \<and> q < m \<longrightarrow> above key cs (?prev ! p) (?prev ! q)"
      using Suc.IH [of ?prev] Suc.prems False by auto
    have len: "length ?prev = length cs" using mset_eq_length [OF IH(1)] by simp
    have ord: "ord = sift key cs m ?prev" using Suc.prems(3) False by simp
    have sft: "sifting key cs (Suc m) m ?prev" using IH(2) by (auto simp: sifting_def)
    have "\<forall>x \<in> set ?prev. x < length cs" using mset_eq_setD [OF IH(1)] by auto
    from sift_sorted [OF assms(1) this sft] show ?thesis
      using Suc.prems(1) IH(1) len unfolding ord by (auto simp: mset_sift)
  qed (use Suc.prems in auto)
qed simp

text \<open>The ranked list names every candidate exactly once, in falling rank; its first entry
  is the candidate that the one-pass selection returns, and the entry after any prefix is the
  one the selection returns when the candidates of the prefix have been tried.\<close>

lemma Rank_sound:
  assumes "\<forall>c \<in> set cs. cand_ok c"
  shows "mset (Rank key cs) = mset [0..<length cs] \<and>
         (\<forall>k < length cs.
            cs ! (Rank key cs ! k) =
              (case map (\<lambda>i. cs ! i) (drop k (Rank key cs)) of c # rest \<Rightarrow> best_by (Better key) c rest))"
proof (cases "cs = []")
  case False
  let ?ord = "Rank key cs"
  have R: "mset ?ord = mset [0..<length cs]"
    and S: "\<And>p q. p < q \<Longrightarrow> q < length cs \<Longrightarrow> above key cs (?ord ! p) (?ord ! q)"
    using Rank_prefix [OF assms, of "length cs" ?ord] False by (auto simp: Rank_def Suc_le_eq)
  have len: "length ?ord = length cs" using mset_eq_length [OF R] by simp
  have bd: "?ord ! k < length cs" if "k < length cs" for k
    using mset_eq_setD [OF R] len that nth_mem [of k ?ord] by auto
  have "best_by (Better key) (cs ! (?ord ! k)) (map (\<lambda>i. cs ! i) (drop (Suc k) ?ord)) = cs ! (?ord ! k)"
    if k: "k < length cs" for k
  proof (rule rendezvous_order.best_by_eqI)
    show "cand_ok (cs ! (?ord ! k))" using assms bd [OF k] by simp
    have inset: "\<exists>l. k < l \<and> l < length cs \<and> c = cs ! (?ord ! l)"
      if "c \<in> set (map (\<lambda>i. cs ! i) (drop (Suc k) ?ord))" for c
    proof -
      from that obtain i where "i < length cs - Suc k" "c = cs ! (drop (Suc k) ?ord ! i)"
        using len by (auto simp: in_set_conv_nth)
      then show ?thesis using len by (intro exI [of _ "Suc k + i"]) auto
    qed
    show "\<forall>c \<in> set (map (\<lambda>i. cs ! i) (drop (Suc k) ?ord)). cand_ok c"
    proof
      fix c
      assume "c \<in> set (map (\<lambda>i. cs ! i) (drop (Suc k) ?ord))"
      from inset [OF this] bd assms show "cand_ok c" by auto
    qed
    show "\<forall>c \<in> insert (cs ! (?ord ! k)) (set (map (\<lambda>i. cs ! i) (drop (Suc k) ?ord))).
        c = cs ! (?ord ! k) \<or> Better key (cs ! (?ord ! k)) c"
      using inset S by (fastforce simp: above_def)
  qed simp
  then show ?thesis using R len by (auto simp flip: Cons_nth_drop_Suc)
qed (simp add: Rank_def)

subsection \<open>Witnesses\<close>

definition sample_cand :: "string \<Rightarrow> int \<Rightarrow> Candidate" where
  "sample_cand name w = \<lparr>c_Identity = name, c_Sum = Sum name, c_Weight = w\<rparr>"

lemma sample_cand_ok: "1 \<le> w \<Longrightarrow> cand_ok (sample_cand name w)"
  by (simp add: cand_ok_def sample_cand_def)

lemma Better_strict_total_order_example:
  "Better 7 (sample_cand ''a:80'' 1) (sample_cand ''b:80'' 3) \<noteq>
   Better 7 (sample_cand ''b:80'' 3) (sample_cand ''a:80'' 1)"
  using Better_strict_total_order [of "sample_cand ''a:80'' 1" "sample_cand ''b:80'' 3"
      "sample_cand ''b:80'' 3" 7]
  by (simp add: sample_cand_ok) (simp add: sample_cand_def)

lemma Rank_sound_example:
  "mset (Rank 7 [sample_cand ''a:80'' 1, sample_cand ''b:80'' 3]) = {#0, 1#}"
  using Rank_sound [of "[sample_cand ''a:80'' 1, sample_cand ''b:80'' 3]" 7]
  by (simp add: sample_cand_ok upt_rec)

end
