(* ===== verification/Gostrings.thy ===== *)
theory Gostrings
  imports Prelude
begin

text \<open>
  The functions of Go's \<^verbatim>\<open>strings\<close>, \<^verbatim>\<open>strconv\<close> and \<^verbatim>\<open>net\<close> packages
  that the modelled code calls, on byte strings. Case mapping here is that of ASCII: the code
  applies it to host names, header names, methods and schemes. The origins of CORS are compared
  after the Unicode mapping, which theory \<^verbatim>\<open>Cors\<close> takes as an argument.
\<close>

definition index_byte :: "char \<Rightarrow> string \<Rightarrow> nat option" where
  "index_byte c s =
     (let k = length (takeWhile (\<lambda>x. x \<noteq> c) s) in if k < length s then Some k else None)"

definition last_index_byte :: "char \<Rightarrow> string \<Rightarrow> nat option" where
  "last_index_byte c s =
     (case index_byte c (rev s) of None \<Rightarrow> None | Some k \<Rightarrow> Some (length s - 1 - k))"

definition contains_byte :: "char \<Rightarrow> string \<Rightarrow> bool" where
  "contains_byte c s \<longleftrightarrow> c \<in> set s"

definition HasPrefix :: "string \<Rightarrow> string \<Rightarrow> bool" where
  "HasPrefix s p \<longleftrightarrow> take (length p) s = p"

definition HasSuffix :: "string \<Rightarrow> string \<Rightarrow> bool" where
  "HasSuffix s p \<longleftrightarrow> HasPrefix (rev s) (rev p)"

definition TrimPrefix :: "string \<Rightarrow> string \<Rightarrow> string" where
  "TrimPrefix s p = (if HasPrefix s p then drop (length p) s else s)"

definition TrimSuffix :: "string \<Rightarrow> string \<Rightarrow> string" where
  "TrimSuffix s p = (if HasSuffix s p then take (length s - length p) s else s)"

text \<open>\<^verbatim>\<open>strings.Cut\<close> with a one-byte separator.\<close>

definition Cut :: "string \<Rightarrow> char \<Rightarrow> string \<times> string \<times> bool" where
  "Cut s c =
     (case index_byte c s of
        None \<Rightarrow> (s, [], False)
      | Some k \<Rightarrow> (take k s, drop (Suc k) s, True))"

text \<open>\<^verbatim>\<open>strings.Split\<close> with a one-byte separator.\<close>

fun Split :: "string \<Rightarrow> char \<Rightarrow> string list" where
  "Split [] c = [[]]"
| "Split (x # xs) c =
     (if x = c then [] # Split xs c
      else case Split xs c of p # ps \<Rightarrow> (x # p) # ps | [] \<Rightarrow> [[x]])"

definition trim_by :: "(char \<Rightarrow> bool) \<Rightarrow> string \<Rightarrow> string" where
  "trim_by p s = rev (dropWhile p (rev (dropWhile p s)))"

definition is_blank :: "char \<Rightarrow> bool" where
  "is_blank c \<longleftrightarrow> c = CHR '' '' \<or> c = CHR 0x09"

definition is_space :: "char \<Rightarrow> bool" where
  "is_space c \<longleftrightarrow> c \<in> {CHR '' '', CHR 0x09, CHR 0x0A, CHR 0x0B, CHR 0x0C, CHR 0x0D}"

definition TrimSpace :: "string \<Rightarrow> string" where
  "TrimSpace s = trim_by is_space s"

definition to_lower :: "char \<Rightarrow> char" where
  "to_lower c =
     (if 65 \<le> (of_char c :: nat) \<and> (of_char c :: nat) \<le> 90 then char_of (of_char c + 32 :: nat) else c)"

definition ToLower :: "string \<Rightarrow> string" where
  "ToLower s = map to_lower s"

definition EqualFold :: "string \<Rightarrow> string \<Rightarrow> bool" where
  "EqualFold s t \<longleftrightarrow> ToLower s = ToLower t"

definition is_digit :: "char \<Rightarrow> bool" where
  "is_digit c \<longleftrightarrow> 48 \<le> (of_char c :: nat) \<and> (of_char c :: nat) \<le> 57"

definition digit_val :: "char \<Rightarrow> nat" where
  "digit_val c = of_char c - 48"

definition decimal :: "string \<Rightarrow> nat" where
  "decimal s = foldl (\<lambda>n c. 10 * n + digit_val c) 0 s"

text \<open>\<^verbatim>\<open>strconv.ParseUint\<close> in base 10 with a bound on the value.\<close>

definition ParseUint :: "string \<Rightarrow> nat \<Rightarrow> nat option" where
  "ParseUint s bits =
     (if s = [] \<or> \<not> list_all is_digit s \<or> decimal s \<ge> 2 ^ bits then None else Some (decimal s))"

fun FormatUint :: "nat \<Rightarrow> string" where
  "FormatUint n =
     (if n < 10 then [char_of (48 + n)] else FormatUint (n div 10) @ [char_of (48 + n mod 10)])"

declare FormatUint.simps [simp del]

text \<open>\<^verbatim>\<open>hex.EncodeToString\<close>.\<close>

definition hex_nibble :: "nat \<Rightarrow> char" where
  "hex_nibble n = ''0123456789abcdef'' ! n"

definition hex_encode :: "string \<Rightarrow> string" where
  "hex_encode bs = concat (map (\<lambda>b. [hex_nibble (of_char b div 16), hex_nibble (of_char b mod 16)]) bs)"

subsection \<open>Lemmas\<close>

lemma HasPrefix_append [simp]: "HasPrefix (p @ s) p"
  by (simp add: HasPrefix_def)

lemma HasPrefix_iff: "HasPrefix s p \<longleftrightarrow> (\<exists>t. s = p @ t)"
  unfolding HasPrefix_def by (metis append_take_drop_id append_eq_conv_conj)

lemma index_byte_Some:
  "index_byte c s = Some k \<longleftrightarrow> k < length s \<and> s ! k = c \<and> c \<notin> set (take k s)"
proof
  assume "index_byte c s = Some k"
  then have k: "k = length (takeWhile (\<lambda>x. x \<noteq> c) s)" "k < length s"
    by (auto simp: index_byte_def Let_def split: if_splits)
  then have "take k s = takeWhile (\<lambda>x. x \<noteq> c) s"
    by (metis takeWhile_eq_take)
  then have "c \<notin> set (take k s)" using set_takeWhileD [of c "\<lambda>x. x \<noteq> c" s] by auto
  then show "k < length s \<and> s ! k = c \<and> c \<notin> set (take k s)"
    using k nth_length_takeWhile [of "\<lambda>x. x \<noteq> c" s] by auto
next
  assume k: "k < length s \<and> s ! k = c \<and> c \<notin> set (take k s)"
  then have "takeWhile (\<lambda>x. x \<noteq> c) s = take k s"
    by (intro takeWhile_eq_take_P_nth) (auto simp: in_set_conv_nth)
  with k show "index_byte c s = Some k" by (simp add: index_byte_def)
qed

lemma index_byte_None: "index_byte c s = None \<longleftrightarrow> c \<notin> set s"
proof -
  have "length (takeWhile (\<lambda>x. x \<noteq> c) s) < length s \<longleftrightarrow> c \<in> set s"
    using takeWhile_eq_all_conv [of "\<lambda>x. x \<noteq> c" s] length_takeWhile_le [of "\<lambda>x. x \<noteq> c" s]
    by (metis le_neq_implies_less less_irrefl takeWhile_eq_take take_all_iff order_refl)
  then show ?thesis by (auto simp: index_byte_def Let_def)
qed

lemma index_byte_append [simp]: "c \<notin> set s \<Longrightarrow> index_byte c (s @ c # t) = Some (length s)"
  by (simp add: index_byte_Some nth_append)

lemma last_index_byte_append [simp]:
  "c \<notin> set t \<Longrightarrow> last_index_byte c (s @ c # t) = Some (length s)"
  by (simp add: last_index_byte_def)

lemma last_index_byte_None: "last_index_byte c s = None \<longleftrightarrow> c \<notin> set s"
  using index_byte_None [of c "rev s"]
  by (cases "index_byte c (rev s)") (auto simp: last_index_byte_def)

lemma Cut_append [simp]: "c \<notin> set s \<Longrightarrow> Cut (s @ c # t) c = (s, t, True)"
  by (simp add: Cut_def)

lemma Cut_length: "Cut s c = (a, b, ok) \<Longrightarrow> s \<noteq> [] \<Longrightarrow> length b < length s"
  by (auto simp: Cut_def index_byte_Some split: option.splits)

lemma Split_nonempty [simp]: "Split s c \<noteq> []"
  by (induction s) (auto split: list.splits)

lemma Split_no_sep: "p \<in> set (Split s c) \<Longrightarrow> c \<notin> set p"
  by (induction s arbitrary: p) (auto split: list.splits if_splits)

lemma Split_append: "c \<notin> set s \<Longrightarrow> Split (s @ c # t) c = s # Split t c"
  by (induction s) auto

lemma Split_id: "c \<notin> set s \<Longrightarrow> Split s c = [s]"
  by (induction s) auto

lemma to_lower_idem [simp]: "to_lower (to_lower c) = to_lower c"
  by (auto simp: to_lower_def)

lemma ToLower_idem [simp]: "ToLower (ToLower s) = ToLower s"
  by (simp add: ToLower_def)

lemma digit_val_char_of: "(d :: nat) < 10 \<Longrightarrow> digit_val (char_of (48 + d)) = d"
  by (simp add: digit_val_def)

lemma is_digit_char_of: "(d :: nat) < 10 \<Longrightarrow> is_digit (char_of (48 + d))"
  by (simp add: is_digit_def)

lemma decimal_snoc: "decimal (s @ [c]) = 10 * decimal s + digit_val c"
  by (simp add: decimal_def)

lemma decimal_FormatUint: "decimal (FormatUint n) = n"
proof (induction n rule: FormatUint.induct)
  case (1 n)
  show ?case
  proof (cases "n < 10")
    case True
    then show ?thesis by (subst FormatUint.simps) (simp add: decimal_def digit_val_char_of)
  next
    case False
    then show ?thesis
      using 1 by (subst FormatUint.simps) (simp add: decimal_snoc digit_val_char_of)
  qed
qed

lemma digits_FormatUint: "FormatUint n \<noteq> [] \<and> list_all is_digit (FormatUint n)"
proof (induction n rule: FormatUint.induct)
  case (1 n)
  show ?case
  proof (cases "n < 10")
    case True
    then show ?thesis by (subst (1 2) FormatUint.simps) (simp add: is_digit_char_of)
  next
    case False
    with 1 show ?thesis by (subst (1 2) FormatUint.simps) (simp add: is_digit_char_of)
  qed
qed

lemma FormatUint_length: "n < 10 ^ k \<Longrightarrow> 0 < k \<Longrightarrow> length (FormatUint n) \<le> k"
proof (induction k arbitrary: n)
  case (Suc k)
  show ?case
  proof (cases "n < 10")
    case True
    then show ?thesis by (subst FormatUint.simps) simp
  next
    case False
    with Suc.prems have "n div 10 < 10 ^ k" "0 < k" by (auto intro: gr0I)
    with Suc.IH [of "n div 10"] False show ?thesis by (subst FormatUint.simps) simp
  qed
qed simp

lemma ParseUint_FormatUint: "n < 2 ^ b \<Longrightarrow> ParseUint (FormatUint n) b = Some n"
  using digits_FormatUint [of n] by (simp add: ParseUint_def decimal_FormatUint)

subsection \<open>Substrings and joining\<close>

fun Contains :: "string \<Rightarrow> string \<Rightarrow> bool" where
  "Contains [] sub = (sub = [])"
| "Contains (x # xs) sub = (HasPrefix (x # xs) sub \<or> Contains xs sub)"

fun Join :: "string list \<Rightarrow> char \<Rightarrow> string" where
  "Join [] c = []"
| "Join [s] c = s"
| "Join (s # t # ss) c = s @ c # Join (t # ss) c"

lemma Join_Cons: "ss \<noteq> [] \<Longrightarrow> Join (s # ss) c = s @ c # Join ss c"
  by (cases ss) auto

lemma Join_Split: "Join (Split s c) c = s"
proof (induction s)
  case (Cons x xs)
  obtain p ps where "Split xs c = p # ps" by (cases "Split xs c") auto
  with Cons show ?case by (cases ps) (auto simp: Join_Cons)
qed simp

lemma Split_Join: "ss \<noteq> [] \<Longrightarrow> \<forall>s \<in> set ss. c \<notin> set s \<Longrightarrow> Split (Join ss c) c = ss"
proof (induction ss c rule: Join.induct)
  case (3 s t ss c)
  then show ?case by (simp add: Split_append)
qed (simp_all add: Split_id)

lemma HasPrefix_Cons: "HasPrefix (x # xs) (y # ys) \<longleftrightarrow> x = y \<and> HasPrefix xs ys"
  by (simp add: HasPrefix_def)

lemma HasPrefix_Nil [simp]: "HasPrefix s []" "HasPrefix [] p \<longleftrightarrow> p = []"
  by (auto simp: HasPrefix_def)

lemma split_unique:
  fixes c :: char
  assumes "c \<notin> set s" and "c \<notin> set m" and "s @ c # t = m @ c # r"
  shows "s = m \<and> t = r"
proof -
  have "Cut (s @ c # t) c = Cut (m @ c # r) c" by (simp only: assms(3))
  then show ?thesis by (simp only: Cut_append [OF assms(1)] Cut_append [OF assms(2)] prod.inject)
qed

lemma HasSuffix_iff: "HasSuffix s p \<longleftrightarrow> (\<exists>t. s = t @ p)"
  unfolding HasSuffix_def HasPrefix_iff by (metis rev_append rev_rev_ident)

lemma HasPrefix_ToLower: "HasPrefix s p \<Longrightarrow> HasPrefix (ToLower s) (ToLower p)"
  by (auto simp: HasPrefix_iff ToLower_def)

lemma trim_by_id:
  assumes "s = [] \<or> \<not> p (hd s) \<and> \<not> p (last s)"
  shows "trim_by p s = s"
proof (cases s rule: rev_cases)
  case (snoc xs x)
  then show ?thesis using assms by (cases xs) (auto simp: trim_by_def)
qed (simp add: trim_by_def)

lemma trim_by_none: "\<forall>c \<in> set s. \<not> p c \<Longrightarrow> trim_by p s = s"
  by (rule trim_by_id) (cases "s = []"; simp)

text \<open>Reading digits from an accumulator.\<close>

definition dec_from :: "nat \<Rightarrow> string \<Rightarrow> nat" where
  "dec_from n s = foldl (\<lambda>n c. 10 * n + digit_val c) n s"

lemma dec_from_Cons [simp]: "dec_from n (c # s) = dec_from (10 * n + digit_val c) s"
  by (simp add: dec_from_def)

lemma dec_from_ge: "n \<le> dec_from n s"
proof (induction s arbitrary: n)
  case (Cons c s)
  have "n \<le> 10 * n + digit_val c" by simp
  also have "\<dots> \<le> dec_from n (c # s)" using Cons by simp
  finally show ?case .
qed (simp add: dec_from_def)

lemma digit_val_le: "is_digit c \<Longrightarrow> digit_val c \<le> 9"
  unfolding is_digit_def digit_val_def by linarith

lemma dec_from_decimal: "decimal s = dec_from 0 s"
  by (simp add: decimal_def dec_from_def)

end
