(* ===== verification/Affinity_Keys.thy ===== *)
theory Affinity_Keys
  imports Affinity_Rank Gostrings
begin

text \<open>
  \<^verbatim>\<open>src/internal/affinity/key.go\<close>: extracting the affinity key of a request, and the
  canonical backend identity of \<^verbatim>\<open>affinity.go\<close>. Addresses enter as canonical text:
  \<open>canon_ip\<close> stands for \<^verbatim>\<open>netip.ParseAddr\<close> followed by unmapping and printing,
  \<open>canon_key\<close> for \<^verbatim>\<open>textproto.CanonicalMIMEHeaderKey\<close>.
\<close>

subsection \<open>Backend identity\<close>

text \<open>\<^verbatim>\<open>net.SplitHostPort\<close>; every way in which it fails is \<open>None\<close>.\<close>

definition SplitHostPort :: "string \<Rightarrow> (string \<times> string) option" where
  "SplitHostPort hp =
     (case last_index_byte CHR '':'' hp of
        None \<Rightarrow> None
      | Some i \<Rightarrow>
          if hp ! 0 = CHR ''['' then
            (case index_byte CHR '']'' hp of
               None \<Rightarrow> None
             | Some e \<Rightarrow>
                 if e + 1 = length hp then None
                 else if e + 1 \<noteq> i then None
                 else if contains_byte CHR ''['' (drop 1 hp) then None
                 else if contains_byte CHR '']'' (drop (e + 1) hp) then None
                 else Some (drop 1 (take e hp), drop (i + 1) hp))
          else
            if contains_byte CHR '':'' (take i hp) then None
            else if contains_byte CHR ''['' hp then None
            else if contains_byte CHR '']'' hp then None
            else Some (take i hp, drop (i + 1) hp))"

definition JoinHostPort :: "string \<Rightarrow> string \<Rightarrow> string" where
  "JoinHostPort host port =
     (if contains_byte CHR '':'' host then ''['' @ host @ '']:'' @ port else host @ '':'' @ port)"

definition affinity_Identity :: "(string \<Rightarrow> string option) \<Rightarrow> string \<Rightarrow> string \<Rightarrow> string" where
  "affinity_Identity canon_ip network address =
     (if network = ''unix'' then ''unix:'' @ address
      else case SplitHostPort address of
             None \<Rightarrow> ToLower address
           | Some (host, port) \<Rightarrow>
               let port = (case ParseUint port 16 of Some p \<Rightarrow> FormatUint p | None \<Rightarrow> port) in
               (case canon_ip host of
                  Some a \<Rightarrow> JoinHostPort a port
                | None \<Rightarrow> JoinHostPort (TrimSuffix (ToLower host) ''.'') port))"

definition NewCandidate :: "(string \<Rightarrow> string option) \<Rightarrow> string \<Rightarrow> string \<Rightarrow> int \<Rightarrow> Candidate" where
  "NewCandidate canon_ip network address weight =
     (let i = affinity_Identity canon_ip network address in
      \<lparr>c_Identity = i, c_Sum = Sum i, c_Weight = clampWeight weight\<rparr>)"

lemma NewCandidate_ok: "cand_ok (NewCandidate canon_ip network address weight)"
  by (simp add: NewCandidate_def cand_ok_def clampWeight_def Let_def)

subsection \<open>Keys\<close>

datatype Status = StatusNone | StatusHashed | StatusMissing | StatusInvalid

definition status_String :: "Status \<Rightarrow> string" where
  "status_String s =
     (case s of
        StatusHashed \<Rightarrow> ''hashed'' | StatusMissing \<Rightarrow> ''missing''
      | StatusInvalid \<Rightarrow> ''invalid'' | StatusNone \<Rightarrow> ''none'')"

record Key =
  k_sum :: uint64
  k_status :: Status

definition no_key :: Key where
  "no_key = \<lparr>k_sum = 0, k_status = StatusNone\<rparr>"

definition key_with :: "Status \<Rightarrow> Key" where
  "key_with st = \<lparr>k_sum = 0, k_status = st\<rparr>"

definition Hashed :: "Key \<Rightarrow> bool" where
  "Hashed k \<longleftrightarrow> k_status k = StatusHashed"

definition KeyOf :: "string \<Rightarrow> Key" where
  "KeyOf material = \<lparr>k_sum = Sum material, k_status = StatusHashed\<rparr>"

definition valueKey :: "string \<Rightarrow> Key" where
  "valueKey v =
     (if v = [] then key_with StatusMissing
      else if length v > MaxKeyBytes then key_with StatusInvalid
      else \<lparr>k_sum = Sum v, k_status = StatusHashed\<rparr>)"

definition headerKey :: "string list \<Rightarrow> Key" where
  "headerKey values =
     (case values of
        [] \<Rightarrow> key_with StatusMissing
      | [v] \<Rightarrow> valueKey (trim_by is_blank v)
      | _ \<Rightarrow> key_with StatusInvalid)"

definition unquoteCookie :: "string \<Rightarrow> string" where
  "unquoteCookie v =
     (if length v \<ge> 2 \<and> v ! 0 = CHR 0x22 \<and> v ! (length v - 1) = CHR 0x22
      then drop 1 (take (length v - 1) v) else v)"

text \<open>The inner loop over one \<^verbatim>\<open>Cookie\<close> line: the value of the first cookie with the
  name.\<close>

function cookie_line :: "string \<Rightarrow> string \<Rightarrow> string option" where
  "cookie_line line name =
     (if line = [] then None
      else
        let (part, rest, found) = Cut line CHR '';'';
            (k, v, ok) = Cut (trim_by is_blank part) CHR ''='' in
        if \<not> ok \<or> k \<noteq> name then cookie_line rest name else Some (unquoteCookie v))"
  by pat_completeness auto
termination
  by (relation "measure (\<lambda>(line, name). length line)") (auto dest: Cut_length [OF sym])

declare cookie_line.simps [simp del]

fun cookieKey :: "string list \<Rightarrow> string \<Rightarrow> Key" where
  "cookieKey [] name = key_with StatusMissing"
| "cookieKey (line # lines) name =
     (case cookie_line line name of
        Some v \<Rightarrow> valueKey v
      | None \<Rightarrow> cookieKey lines name)"

record Source =
  s_kind :: string
  s_name :: string

definition NewSource :: "(string \<Rightarrow> string) \<Rightarrow> string \<Rightarrow> string \<Rightarrow> Source" where
  "NewSource canon_key kind name =
     (if kind = ''header'' then \<lparr>s_kind = kind, s_name = canon_key name\<rparr>
      else \<lparr>s_kind = kind, s_name = name\<rparr>)"

text \<open>What key extraction reads of a request: the header lines by canonical name, whether a
  client identity is attached and attributed to a client, and the text of the canonical client
  address (\<open>None\<close> when it is not valid).\<close>

record KeyRequest =
  req_header :: "string \<Rightarrow> string list"
  req_identity :: "bool option"
  req_client :: "string option"

definition addrKey :: "string option \<Rightarrow> Key" where
  "addrKey a =
     (case a of
        None \<Rightarrow> key_with StatusInvalid
      | Some txt \<Rightarrow> \<lparr>k_sum = Sum txt, k_status = StatusHashed\<rparr>)"

definition FromRequest :: "Source \<Rightarrow> KeyRequest \<Rightarrow> Key" where
  "FromRequest s r =
     (if s_kind s = ''client_ip'' then
        (if req_identity r = Some False then key_with StatusInvalid else addrKey (req_client r))
      else if s_kind s = ''header'' then headerKey (req_header r (s_name s))
      else if s_kind s = ''cookie'' then cookieKey (req_header r ''Cookie'') (s_name s)
      else no_key)"

text \<open>\<^verbatim>\<open>FromAddr\<close>, for the text of a stream client's address.\<close>

definition FromAddr :: "Source \<Rightarrow> string option \<Rightarrow> Key" where
  "FromAddr s a = (if s_kind s \<noteq> ''client_ip'' then no_key else addrKey a)"

lemma valueKey_hashed:
  "Hashed (valueKey v) \<longleftrightarrow> v \<noteq> [] \<and> length v \<le> 256"
  "Hashed (valueKey v) \<Longrightarrow> k_sum (valueKey v) = Sum v"
  by (auto simp: valueKey_def Hashed_def key_with_def MaxKeyBytes_def split: if_splits)

lemma headerKey_hashed:
  "Hashed (headerKey vs) \<longleftrightarrow> (\<exists>h. vs = [h] \<and> Hashed (valueKey (trim_by is_blank h)))"
  by (auto simp: headerKey_def Hashed_def key_with_def split: list.splits)

lemma headerKey_single: "headerKey [h] = valueKey (trim_by is_blank h)"
  by (simp add: headerKey_def)

lemma cookieKey_skip:
  "\<forall>l \<in> set pre. cookie_line l name = None \<Longrightarrow> cookie_line line name = Some v \<Longrightarrow>
     cookieKey (pre @ line # post) name = valueKey v"
  by (induction pre) auto

lemma cookieKey_hashed:
  assumes "Hashed (cookieKey lines name)"
  obtains pre line post v where "lines = pre @ line # post"
    and "\<forall>l \<in> set pre. cookie_line l name = None" and "cookie_line line name = Some v"
    and "Hashed (valueKey v)" and "cookieKey lines name = valueKey v"
  using assms
proof (induction lines arbitrary: thesis)
  case (Cons l ls)
  show ?case
  proof (cases "cookie_line l name")
    case None
    with Cons.prems(2) have "Hashed (cookieKey ls name)" by simp
    from Cons.IH [OF _ this] obtain pre line post v where
      "ls = pre @ line # post" "\<forall>l \<in> set pre. cookie_line l name = None"
      "cookie_line line name = Some v" "Hashed (valueKey v)" "cookieKey ls name = valueKey v" .
    with None Cons.prems(1) [of "l # pre" line post v] show ?thesis by simp
  next
    case (Some v)
    with Cons.prems(1) [of "[]" l ls v] Cons.prems(2) show ?thesis by simp
  qed
qed (simp add: Hashed_def key_with_def)

text \<open>A request is placed by hash exactly when its key source yields one usable value:
  one header line or the first cookie of that name with 1 to 256 bytes, or a valid client
  address that is attributed to a client. The hash is that of the value, and an address that
  only names a proxy hop is never hashed.\<close>

lemma FromRequest_hashed:
  "Hashed (FromRequest s r) \<longleftrightarrow>
     (\<exists>v. k_sum (FromRequest s r) = Sum v \<and>
        (s_kind s = ''client_ip'' \<and> req_identity r \<noteq> Some False \<and> req_client r = Some v \<or>
         s_kind s = ''header'' \<and> v \<noteq> [] \<and> length v \<le> 256 \<and>
           (\<exists>h. req_header r (s_name s) = [h] \<and> trim_by is_blank h = v) \<or>
         s_kind s = ''cookie'' \<and> v \<noteq> [] \<and> length v \<le> 256 \<and>
           (\<exists>pre line post. req_header r ''Cookie'' = pre @ line # post \<and>
              (\<forall>l \<in> set pre. cookie_line l (s_name s) = None) \<and>
              cookie_line line (s_name s) = Some v)))"
proof -
  consider (ip) "s_kind s = ''client_ip''" | (hdr) "s_kind s = ''header''"
    | (ck) "s_kind s = ''cookie''"
    | (none) "s_kind s \<noteq> ''client_ip''" "s_kind s \<noteq> ''header''" "s_kind s \<noteq> ''cookie''"
    by blast
  then show ?thesis
  proof cases
    case ip
    then show ?thesis
      by (auto simp: FromRequest_def addrKey_def Hashed_def key_with_def split: option.splits)
  next
    case hdr
    then have e: "FromRequest s r = headerKey (req_header r (s_name s))"
      by (simp add: FromRequest_def)
    from hdr show ?thesis
      unfolding e headerKey_hashed by (auto simp: headerKey_single valueKey_hashed)
  next
    case ck
    show ?thesis
    proof
      assume "Hashed (FromRequest s r)"
      with ck obtain pre line post v where
        "req_header r ''Cookie'' = pre @ line # post"
        "\<forall>l \<in> set pre. cookie_line l (s_name s) = None" "cookie_line line (s_name s) = Some v"
        "Hashed (valueKey v)" "FromRequest s r = valueKey v"
        by (auto simp: FromRequest_def elim: cookieKey_hashed)
      with ck show "\<exists>v. k_sum (FromRequest s r) = Sum v \<and>
        (s_kind s = ''client_ip'' \<and> req_identity r \<noteq> Some False \<and> req_client r = Some v \<or>
         s_kind s = ''header'' \<and> v \<noteq> [] \<and> length v \<le> 256 \<and>
           (\<exists>h. req_header r (s_name s) = [h] \<and> trim_by is_blank h = v) \<or>
         s_kind s = ''cookie'' \<and> v \<noteq> [] \<and> length v \<le> 256 \<and>
           (\<exists>pre line post. req_header r ''Cookie'' = pre @ line # post \<and>
              (\<forall>l \<in> set pre. cookie_line l (s_name s) = None) \<and>
              cookie_line line (s_name s) = Some v))"
        by (intro exI [of _ v]) (auto simp: valueKey_hashed)
    qed (use ck in \<open>auto simp: FromRequest_def cookieKey_skip valueKey_hashed\<close>)
  next
    case none
    then show ?thesis by (simp add: FromRequest_def no_key_def Hashed_def)
  qed
qed

lemma FromRequest_hashed_example:
  "Hashed (FromRequest \<lparr>s_kind = ''cookie'', s_name = ''sid''\<rparr>
     \<lparr>req_header = (\<lambda>n. if n = ''Cookie'' then [''a=1; sid=xy''] else []),
      req_identity = None, req_client = None\<rparr>)"
proof -
  have "cookie_line ''a=1; sid=xy'' ''sid'' = Some ''xy''" by code_simp
  then show ?thesis
    by (subst FromRequest_hashed, intro exI [of _ "''xy''"])
       (auto simp: FromRequest_def valueKey_def MaxKeyBytes_def Cons_eq_append_conv)
qed

end
