(* ===== verification/Backend.thy ===== *)
theory Backend
  imports Circuit Affinity_Keys
begin

text \<open>
  \<^verbatim>\<open>src/internal/upstream/backend.go\<close>: one server of a pool with its runtime state.

  The code shares backends by pointer between the live pool, request snapshots and requests
  in flight. Here a backend is named by a number and lives in a store; an operation on a
  backend is an update of its cell.
\<close>

type_synonym ptr = nat

definition NetworkTCP :: string where "NetworkTCP = ''tcp''"
definition NetworkUnix :: string where "NetworkUnix = ''unix''"

definition ParseSocketAddress :: "string \<Rightarrow> string \<times> string" where
  "ParseSocketAddress pass =
     (if HasPrefix pass ''unix:'' then (NetworkUnix, TrimPrefix pass ''unix:'')
      else if HasPrefix pass ''tcp://'' then (NetworkTCP, TrimPrefix pass ''tcp://'')
      else (NetworkTCP, pass))"

record BackendIdentity =
  bi_Scheme :: string
  bi_Network :: string
  bi_Address :: string

text \<open>\<open>b_URL\<close> is the scheme and host of the dial URL, \<open>None\<close> for a unix socket.\<close>

record Backend =
  b_Address :: string
  b_Network :: string
  b_URL :: "(string \<times> string) option"
  b_scheme :: string
  b_id :: string
  b_weight :: int
  b_inflight :: int
  b_circuit :: circuit
  b_activeHealthy :: bool
  b_affinityID :: string
  b_affinitySum :: uint64

type_synonym store = "ptr \<Rightarrow> Backend"

definition affinityCandidate :: "Backend \<Rightarrow> Candidate" where
  "affinityCandidate b =
     \<lparr>c_Identity = b_affinityID b, c_Sum = b_affinitySum b, c_Weight = b_weight b\<rparr>"

definition setWeight :: "int \<Rightarrow> Backend \<Rightarrow> Backend" where
  "setWeight w b = b\<lparr>b_weight := w\<rparr>"

definition backend_Identity :: "Backend \<Rightarrow> BackendIdentity" where
  "backend_Identity b =
     \<lparr>bi_Scheme = b_scheme b, bi_Network = b_Network b, bi_Address = b_Address b\<rparr>"

definition available :: "nanos \<Rightarrow> Backend \<Rightarrow> bool" where
  "available now b \<longleftrightarrow> b_activeHealthy b \<and> eligible now (b_circuit b)"

text \<open>An attempt is a backend together with the admission token of its circuit.\<close>

record Attempt =
  at_Backend :: "ptr option"
  at_adm :: admission

definition no_attempt :: Attempt where
  "no_attempt = \<lparr>at_Backend = None, at_adm = no_admission\<rparr>"

definition attempt_Valid :: "Attempt \<Rightarrow> bool" where
  "attempt_Valid att \<longleftrightarrow> at_Backend att \<noteq> None"

definition backend_admit :: "nanos \<Rightarrow> Backend \<Rightarrow> admission option \<times> Backend" where
  "backend_admit now b =
     (if \<not> b_activeHealthy b then (None, b)
      else let (adm, c) = circuit_admit now (b_circuit b); b' = b\<lparr>b_circuit := c\<rparr> in
           if \<not> admission_ok adm then (None, b') else (Some adm, b'))"

definition backend_State :: "nanos \<Rightarrow> Backend \<Rightarrow> BackendState" where
  "backend_State now b =
     (if \<not> b_activeHealthy b then StateHealthUnhealthy else circuit_state now (b_circuit b))"

definition backend_CircuitStatus :: "nanos \<Rightarrow> Backend \<Rightarrow> CircuitStatus" where
  "backend_CircuitStatus now b =
     (let st = circuit_status now (b_circuit b) in
      if \<not> b_activeHealthy b
      then st\<lparr>st_State := StateHealthUnhealthy, st_OpenUntil := zero_time, st_ProbesRemaining := 0\<rparr>
      else st)"

definition setActiveHealthy :: "bool \<Rightarrow> Backend \<Rightarrow> Backend" where
  "setActiveHealthy h b = b\<lparr>b_activeHealthy := h\<rparr>"

definition backend_acquire :: "Backend \<Rightarrow> Backend" where
  "backend_acquire b = b\<lparr>b_inflight := b_inflight b + 1\<rparr>"

definition backend_Release :: "Backend \<Rightarrow> Backend" where
  "backend_Release b = b\<lparr>b_inflight := b_inflight b - 1\<rparr>"

definition FailCount :: "Backend \<Rightarrow> int" where
  "FailCount b = sint (fails (b_circuit b))"

record circuitParams =
  cp_maxFails :: int
  cp_failTimeout :: duration
  cp_halfOpenProbes :: int

definition newBackendFor ::
  "(string \<Rightarrow> string option) \<Rightarrow> string \<Rightarrow> int \<Rightarrow> string \<Rightarrow> string \<Rightarrow> circuitParams \<Rightarrow> Backend" where
  "newBackendFor canon_ip rawAddress weight i scheme cp =
     (let weight = (if weight < 1 then 1 else weight);
          (network, address) = ParseSocketAddress rawAddress;
          aid = affinity_Identity canon_ip network address in
      \<lparr>b_Address = address, b_Network = network,
       b_URL = (if network = NetworkTCP then Some (scheme, address) else None),
       b_scheme = scheme, b_id = i, b_weight = weight, b_inflight = 0,
       b_circuit = newCircuit (cp_maxFails cp) (cp_failTimeout cp) (cp_halfOpenProbes cp),
       b_activeHealthy = True, b_affinityID = aid, b_affinitySum = Sum aid\<rparr>)"

lemma newBackendFor_cand_ok: "cand_ok (affinityCandidate (newBackendFor canon_ip a w i s cp))"
  by (simp add: newBackendFor_def affinityCandidate_def cand_ok_def Let_def split: prod.splits)

lemma ParseSocketAddress_tcp_prefix:
  "ParseSocketAddress (''tcp://'' @ a) = (NetworkTCP, a)"
  "ParseSocketAddress (''unix:'' @ a) = (NetworkUnix, a)"
  by (simp_all add: ParseSocketAddress_def HasPrefix_def TrimPrefix_def)

lemma backend_admit_facts:
  assumes "backend_admit now b = (r, b')"
  shows "b' = b\<lparr>b_circuit := b_circuit b'\<rparr>"
    and "r = Some adm \<Longrightarrow> b_activeHealthy b \<and> admission_ok adm \<and>
           circuit_admit now (b_circuit b) = (adm, b_circuit b')"
  using assms by (auto simp: backend_admit_def Let_def split: if_splits prod.splits)

end
