(* ===== verification/Balancer.thy ===== *)
theory Balancer
  imports Backend
begin

text \<open>
  \<^verbatim>\<open>src/internal/upstream/balancer.go\<close>: the load-balancing strategies.

  A strategy is a value of \<open>Balancer\<close> with its state. The \<^verbatim>\<open>weights\<close> map of the smooth
  weighted round robin is a tot function, because a missing key reads as 0. Picking reads
  the backends in the store and returns the chosen one with the new strategy state.
\<close>

datatype Balancer =
    roundRobin uint64
  | leastConn
  | weightedRR "ptr \<Rightarrow> int"
  | rendezvous Balancer

fun newBalancer_plain :: "string \<Rightarrow> Balancer" where
  "newBalancer_plain strategy =
     (if strategy = ''least_conn'' then leastConn
      else if strategy = ''weighted_round_robin'' then weightedRR (\<lambda>_. 0)
      else roundRobin 0)"

text \<open>The recursion of \<^verbatim>\<open>newBalancer\<close> is one level deep: the fallback is built with an
  empty fallback, which selects round robin.\<close>

definition newBalancer :: "string \<Rightarrow> string \<Rightarrow> Balancer" where
  "newBalancer strategy fallback =
     (if strategy = ''consistent_hash''
      then rendezvous (if fallback = ''consistent_hash'' then rendezvous (newBalancer_plain '''')
                       else newBalancer_plain fallback)
      else newBalancer_plain strategy)"

subsection \<open>Picking\<close>

definition rr_pick :: "uint64 \<Rightarrow> ptr list \<Rightarrow> ptr option \<times> uint64" where
  "rr_pick n a =
     (if a = [] then (None, n)
      else (Some (a ! (unat ((n + 1) - 1) mod length a)), n + 1))"

fun lc_loop :: "store \<Rightarrow> ptr option \<Rightarrow> int \<Rightarrow> ptr list \<Rightarrow> ptr option" where
  "lc_loop st best mn [] = best"
| "lc_loop st best mn (b # bs) =
     (let c = b_inflight (st b) in
      if best = None \<or> c < mn then lc_loop st (Some b) c bs else lc_loop st best mn bs)"

definition lc_pick :: "store \<Rightarrow> ptr list \<Rightarrow> ptr option" where
  "lc_pick st a = lc_loop st None 0 a"

fun wrr_loop ::
  "store \<Rightarrow> (ptr \<Rightarrow> int) \<Rightarrow> int \<Rightarrow> ptr option \<Rightarrow> ptr list \<Rightarrow> (ptr \<Rightarrow> int) \<times> int \<times> ptr option" where
  "wrr_loop st w tot best [] = (w, tot, best)"
| "wrr_loop st w tot best (b # bs) =
     (let weight = b_weight (st b);
          cw = w b + weight;
          w = w(b := cw);
          best = (case best of None \<Rightarrow> Some b | Some p \<Rightarrow> if cw > w p then Some b else best) in
      wrr_loop st w (tot + weight) best bs)"

definition wrr_pick :: "store \<Rightarrow> (ptr \<Rightarrow> int) \<Rightarrow> ptr list \<Rightarrow> ptr option \<times> (ptr \<Rightarrow> int)" where
  "wrr_pick st w a =
     (if a = [] then (None, w)
      else let (w, tot, best) = wrr_loop st w 0 None a in
           case best of None \<Rightarrow> (None, w) | Some p \<Rightarrow> (Some p, w(p := w p - tot)))"

definition pickKey :: "store \<Rightarrow> ptr list \<Rightarrow> uint64 \<Rightarrow> ptr option" where
  "pickKey st a key =
     (case a of
        [] \<Rightarrow> None
      | b # bs \<Rightarrow>
          Some (best_by (\<lambda>x y. Better key (affinityCandidate (st x)) (affinityCandidate (st y))) b bs))"

fun pickFor :: "store \<Rightarrow> Balancer \<Rightarrow> ptr list \<Rightarrow> Key \<Rightarrow> ptr option \<times> Balancer" where
  "pickFor st (roundRobin n) a key = (case rr_pick n a of (p, n) \<Rightarrow> (p, roundRobin n))"
| "pickFor st leastConn a key = (lc_pick st a, leastConn)"
| "pickFor st (weightedRR w) a key = (case wrr_pick st w a of (p, w) \<Rightarrow> (p, weightedRR w))"
| "pickFor st (rendezvous fb) a key =
     (if Hashed key then (pickKey st a (k_sum key), rendezvous fb)
      else case pickFor st fb a no_key of (p, fb) \<Rightarrow> (p, rendezvous fb))"

fun updateBackends :: "ptr list \<Rightarrow> Balancer \<Rightarrow> Balancer" where
  "updateBackends bs (weightedRR w) = weightedRR (\<lambda>_. 0)"
| "updateBackends bs (rendezvous fb) = rendezvous (updateBackends bs fb)"
| "updateBackends bs b = b"

subsection \<open>Every strategy picks a member of the offered set\<close>

text \<open>The contract of the \<^verbatim>\<open>Balancer\<close> interface towards backend selection.\<close>

locale picker =
  fixes pick :: "'s \<Rightarrow> ptr list \<Rightarrow> ptr option \<times> 's"
  assumes pick_nil: "fst (pick s []) = None"
    and pick_member: "a \<noteq> [] \<Longrightarrow> \<exists>p. fst (pick s a) = Some p \<and> p \<in> set a"
begin

lemma pick_Some: "pick s a = (Some p, s') \<Longrightarrow> p \<in> set a"
  using pick_nil [of s] pick_member [of a s] by (cases "a = []") auto

lemma pick_None: "pick s a = (None, s') \<Longrightarrow> a = []"
  using pick_member [of a s] by auto

end

lemma lc_loop_member: "lc_loop st best mn a = Some p \<Longrightarrow> p \<in> set a \<or> best = Some p"
  by (induction st best mn a rule: lc_loop.induct) (auto simp: Let_def split: if_splits)

lemma lc_loop_Some: "best \<noteq> None \<or> a \<noteq> [] \<Longrightarrow> \<exists>p. lc_loop st best mn a = Some p"
  by (induction st best mn a rule: lc_loop.induct) (auto simp: Let_def)

lemma wrr_loop_member:
  "wrr_loop st w t best a = (w', t', Some p) \<Longrightarrow> p \<in> set a \<or> best = Some p"
  by (induction st w t best a arbitrary: w' t' rule: wrr_loop.induct)
     (auto simp: Let_def split: if_splits option.splits)

lemma wrr_loop_Some: "best \<noteq> None \<or> a \<noteq> [] \<Longrightarrow> \<exists>p. snd (snd (wrr_loop st w t best a)) = Some p"
  by (induction st w t best a rule: wrr_loop.induct) (auto simp: Let_def split: option.splits)

interpretation round_robin_picker: picker rr_pick
  by unfold_locales (auto simp: rr_pick_def)

interpretation least_conn_picker: picker "\<lambda>u a. (lc_pick st a, u)" for st
proof
  fix u and a :: "ptr list"
  assume "a \<noteq> []"
  then obtain p where "lc_loop st None 0 a = Some p" using lc_loop_Some by blast
  with lc_loop_member [OF this]
  show "\<exists>p. fst (lc_pick st a, u) = Some p \<and> p \<in> set a" by (simp add: lc_pick_def)
qed (simp add: lc_pick_def)

interpretation weighted_picker: picker "wrr_pick st" for st
proof
  fix w and a :: "ptr list"
  assume "a \<noteq> []"
  then obtain p where p: "snd (snd (wrr_loop st w 0 None a)) = Some p" using wrr_loop_Some by blast
  then have "p \<in> set a" using wrr_loop_member [of st w 0 None a] by (metis option.discI prod.collapse)
  then show "\<exists>p. fst (wrr_pick st w a) = Some p \<and> p \<in> set a"
    using p \<open>a \<noteq> []\<close> by (auto simp: wrr_pick_def Let_def case_prod_unfold)
qed (simp add: wrr_pick_def)

interpretation keyed_picker: picker "\<lambda>u a. (pickKey st a key, u)" for st key
proof
  fix u and a :: "ptr list"
  assume "a \<noteq> []"
  then obtain b bs where "a = b # bs" by (cases a) auto
  then show "\<exists>p. fst (pickKey st a key, u) = Some p \<and> p \<in> set a"
    using best_by_in [of _ b bs] by (simp add: pickKey_def)
qed (simp add: pickKey_def)

lemma pickFor_member:
  "a \<noteq> [] \<Longrightarrow> \<exists>p. fst (pickFor st bal a key) = Some p \<and> p \<in> set a"
proof (induction st bal a key rule: pickFor.induct)
  case (1 st n a key)
  then show ?case using round_robin_picker.pick_member [of a n] by (simp add: case_prod_unfold)
next
  case (2 st a key)
  then show ?case using least_conn_picker.pick_member [of a st] by simp
next
  case (3 st w a key)
  then show ?case using weighted_picker.pick_member [of a st w] by (simp add: case_prod_unfold)
next
  case (4 st fb a key)
  then show ?case
    using keyed_picker.pick_member [of a st "k_sum key"] by (simp add: case_prod_unfold)
qed

lemma pickFor_nil: "fst (pickFor st bal [] key) = None"
  by (induction st bal "[] :: ptr list" key rule: pickFor.induct)
     (simp_all add: case_prod_unfold rr_pick_def lc_pick_def wrr_pick_def pickKey_def)

interpretation balancer_picker: picker "\<lambda>bal a. pickFor st bal a key" for st key
  by unfold_locales (simp_all add: pickFor_nil pickFor_member)

end
