(* ===== verification/Pool.thy ===== *)
theory Pool
  imports Balancer Admission Budget
begin

text \<open>
  \<^verbatim>\<open>src/internal/upstream/pool.go\<close> and \<^verbatim>\<open>snapshot.go\<close>: a named set of backends,
  its reconfiguration by reload and discovery, and the selection of a backend for a request.

  A \<open>World\<close> is one pool together with the store its backends live in. Every operation is
  one step on the world: \<^verbatim>\<open>updateMu\<close> and \<^verbatim>\<open>discoveryMu\<close> serialize the
  reconfigurations, and a selection reads the published slice once. Hooks are flags, and the
  health transitions reported through them are logged, newest first. \<open>canon_ip\<close> is the
  address parser of the theory \<open>Affinity_Keys\<close>.
\<close>

datatype select_error = ErrNoAvailableBackend | ErrBackendAtCapacity

record Pool =
  p_name :: string
  p_scheme :: string
  p_strategy :: string
  p_balancer :: Balancer
  p_hash :: Source
  p_hashFallback :: string
  p_circuitHook :: bool
  p_circuit :: circuitParams
  p_healthHook :: bool
  p_healthLog :: "(string \<times> bool) list"
  p_dynamic :: bool
  p_backends :: "ptr list"
  p_closed :: bool
  p_discoveryEpoch :: uint64
  p_discoveryCancel :: "uint64 option"
  p_cancelled :: "uint64 list"
  p_admission :: Admission
  p_budget :: Budget

record World =
  cells :: store
  next_ptr :: nat
  pool :: Pool

definition upd_cell :: "ptr \<Rightarrow> (Backend \<Rightarrow> Backend) \<Rightarrow> World \<Rightarrow> World" where
  "upd_cell p f w = w\<lparr>cells := (cells w)(p := f (cells w p))\<rparr>"

definition upd_pool :: "(Pool \<Rightarrow> Pool) \<Rightarrow> World \<Rightarrow> World" where
  "upd_pool f w = w\<lparr>pool := f (pool w)\<rparr>"

subsection \<open>Construction\<close>

record UpstreamServer =
  us_Address :: string
  us_Weight :: int

record Target =
  t_Address :: string
  t_Weight :: int
  t_ID :: string

text \<open>The parts of an upstream configuration a pool is built from.\<close>

record UpstreamConfig =
  uc_Name :: string
  uc_Strategy :: string
  uc_Servers :: "UpstreamServer list"
  uc_Discovery :: bool
  uc_Resilience :: Options
  uc_Hash :: "(string \<times> string \<times> string) option"
  uc_Circuit :: circuitParams

fun alloc_all :: "Backend list \<Rightarrow> World \<Rightarrow> ptr list \<times> World" where
  "alloc_all [] w = ([], w)"
| "alloc_all (b # bs) w =
     (let p = next_ptr w;
          (ps, w) = alloc_all bs (w\<lparr>cells := (cells w)(p := b), next_ptr := p + 1\<rparr>) in
      (p # ps, w))"

definition newBackend ::
  "(string \<Rightarrow> string option) \<Rightarrow> UpstreamServer \<Rightarrow> string \<Rightarrow> circuitParams \<Rightarrow> Backend" where
  "newBackend canon_ip s scheme cp = newBackendFor canon_ip (us_Address s) (us_Weight s) [] scheme cp"

definition buildBackends ::
  "(string \<Rightarrow> string option) \<Rightarrow> UpstreamServer list \<Rightarrow> string \<Rightarrow> circuitParams \<Rightarrow> Backend list" where
  "buildBackends canon_ip servers scheme cp = map (\<lambda>s. newBackend canon_ip s scheme cp) servers"

datatype pool_error = NoServers | BadPolicy resilience_error

definition NewPool ::
  "(string \<Rightarrow> string option) \<Rightarrow> (string \<Rightarrow> string) \<Rightarrow> nanos \<Rightarrow> UpstreamConfig \<Rightarrow> string \<Rightarrow> store
     \<Rightarrow> pool_error + World" where
  "NewPool canon_ip canon_key now cfg scheme st =
     (if uc_Servers cfg = [] \<and> \<not> uc_Discovery cfg then Inl NoServers
      else case Resolve (uc_Resilience cfg) of
             Inl e \<Rightarrow> Inl (BadPolicy e)
           | Inr pol \<Rightarrow>
               let (hash, fb) =
                     (case uc_Hash cfg of
                        Some (k, n, f) \<Rightarrow>
                          if uc_Strategy cfg = ''consistent_hash'' then (NewSource canon_key k n, f)
                          else (\<lparr>s_kind = [], s_name = []\<rparr>, [])
                      | None \<Rightarrow> (\<lparr>s_kind = [], s_name = []\<rparr>, []));
                   p = \<lparr>p_name = uc_Name cfg, p_scheme = scheme, p_strategy = uc_Strategy cfg,
                        p_balancer = newBalancer (uc_Strategy cfg) fb,
                        p_hash = hash, p_hashFallback = fb, p_circuitHook = False,
                        p_circuit = uc_Circuit cfg, p_healthHook = False, p_healthLog = [],
                        p_dynamic = uc_Discovery cfg, p_backends = [], p_closed = False,
                        p_discoveryEpoch = 0, p_discoveryCancel = None, p_cancelled = [],
                        p_admission = NewAdmission (Some pol),
                        p_budget = NewBudget (RetryBudgetPercent pol) now\<rparr>;
                   (bs, w) = alloc_all (buildBackends canon_ip (uc_Servers cfg) scheme (uc_Circuit cfg))
                               \<lparr>cells = st, next_ptr = 0, pool = p\<rparr> in
               Inr (upd_pool (\<lambda>p. p\<lparr>p_backends := bs\<rparr>) w))"

subsection \<open>Reconfiguration\<close>

record reuseKey =
  rk_id :: string
  rk_network :: string
  rk_address :: string

definition keyFor :: "Backend \<Rightarrow> reuseKey" where
  "keyFor b = \<lparr>rk_id = b_id b, rk_network = b_Network b, rk_address = b_Address b\<rparr>"

fun prev_map :: "store \<Rightarrow> ptr list \<Rightarrow> (reuseKey \<rightharpoonup> ptr) \<Rightarrow> (reuseKey \<rightharpoonup> ptr)" where
  "prev_map st [] m = m"
| "prev_map st (b # bs) m = prev_map st bs (m(keyFor (st b) \<mapsto> b))"

fun reuse_loop :: "store \<Rightarrow> (reuseKey \<rightharpoonup> ptr) \<Rightarrow> ptr list \<Rightarrow> store \<times> ptr list" where
  "reuse_loop st prev [] = (st, [])"
| "reuse_loop st prev (b # bs) =
     (let k = keyFor (st b) in
      case prev k of
        None \<Rightarrow> (let (st, rest) = reuse_loop st prev bs in (st, b # rest))
      | Some e \<Rightarrow>
          (let st = st(e := setWeight (b_weight (st b)) (st e));
               (st, rest) = reuse_loop st (prev(k := None)) bs in (st, e # rest)))"

fun hook_all :: "ptr list \<Rightarrow> store \<Rightarrow> store" where
  "hook_all [] st = st"
| "hook_all (b # bs) st =
     hook_all bs (st(b := (st b)\<lparr>b_circuit := setTransitionHook True (b_circuit (st b))\<rparr>))"

definition applyCircuitHook :: "ptr list \<Rightarrow> World \<Rightarrow> World" where
  "applyCircuitHook bs w =
     (if p_circuitHook (pool w) then w\<lparr>cells := hook_all bs (cells w)\<rparr> else w)"

definition replaceBackends :: "ptr list \<Rightarrow> World \<Rightarrow> World" where
  "replaceBackends nxt w =
     (let prev = prev_map (cells w) (p_backends (pool w)) Map.empty;
          (st, nxt) = reuse_loop (cells w) prev nxt;
          w = applyCircuitHook nxt (w\<lparr>cells := st\<rparr>) in
      upd_pool (\<lambda>p. p\<lparr>p_backends := nxt, p_balancer := updateBackends nxt (p_balancer p)\<rparr>) w)"

definition UpdateBackends ::
  "(string \<Rightarrow> string option) \<Rightarrow> UpstreamServer list \<Rightarrow> World \<Rightarrow> World" where
  "UpdateBackends canon_ip servers w =
     (let (nxt, w) = alloc_all (map (\<lambda>s. newBackend canon_ip s (p_scheme (pool w)) (p_circuit (pool w)))
                                  servers) w in
      replaceBackends nxt w)"

definition UpdateTargets :: "(string \<Rightarrow> string option) \<Rightarrow> Target list \<Rightarrow> World \<Rightarrow> World" where
  "UpdateTargets canon_ip targets w =
     (let (nxt, w) = alloc_all (map (\<lambda>t. newBackendFor canon_ip (t_Address t) (t_Weight t) (t_ID t)
                                           (p_scheme (pool w)) (p_circuit (pool w))) targets) w in
      replaceBackends nxt w)"

definition setCircuitLimits :: "circuitParams \<Rightarrow> World \<Rightarrow> World" where
  "setCircuitLimits cp w =
     fold (\<lambda>b. upd_cell b (\<lambda>x. x\<lparr>b_circuit := setLimits (cp_maxFails cp) (cp_failTimeout cp)
                                    (cp_halfOpenProbes cp) (b_circuit x)\<rparr>))
       (p_backends (pool w)) (upd_pool (\<lambda>p. p\<lparr>p_circuit := cp\<rparr>) w)"

definition pool_SetPolicy :: "Policy \<Rightarrow> World \<Rightarrow> World" where
  "pool_SetPolicy pol w =
     upd_pool (\<lambda>p. p\<lparr>p_admission := admission_SetPolicy (Some pol) (p_admission p),
                    p_budget := SetPercent (RetryBudgetPercent pol) (p_budget p)\<rparr>) w"

definition SetCircuitHook :: "bool \<Rightarrow> World \<Rightarrow> World" where
  "SetCircuitHook h w =
     (if \<not> h then w
      else let w = upd_pool (\<lambda>p. p\<lparr>p_circuitHook := True\<rparr>) w in
           w\<lparr>cells := hook_all (p_backends (pool w)) (cells w)\<rparr>)"

definition HealthyCount :: "World \<Rightarrow> nat" where
  "HealthyCount w = length (filter (\<lambda>b. b_activeHealthy (cells w b)) (p_backends (pool w)))"

subsection \<open>Discovery generations and closing\<close>

definition StopDiscovery :: "World \<Rightarrow> World" where
  "StopDiscovery w =
     upd_pool (\<lambda>p. p\<lparr>p_discoveryEpoch := p_discoveryEpoch p + 1,
                    p_cancelled := (case p_discoveryCancel p of None \<Rightarrow> p_cancelled p
                                    | Some g \<Rightarrow> g # p_cancelled p),
                    p_discoveryCancel := None\<rparr>) w"

definition beginDiscoveryGeneration :: "World \<Rightarrow> uint64 \<times> World" where
  "beginDiscoveryGeneration w =
     (let e = p_discoveryEpoch (pool w) + 1 in
      (e, upd_pool (\<lambda>p. p\<lparr>p_cancelled := (case p_discoveryCancel p of None \<Rightarrow> p_cancelled p
                                           | Some g \<Rightarrow> g # p_cancelled p),
                         p_discoveryCancel := Some e, p_discoveryEpoch := e\<rparr>) w))"

definition applyDiscoveryTargets ::
  "(string \<Rightarrow> string option) \<Rightarrow> uint64 \<Rightarrow> Target list \<Rightarrow> World \<Rightarrow> bool \<times> World" where
  "applyDiscoveryTargets canon_ip e targets w =
     (if p_discoveryEpoch (pool w) \<noteq> e then (False, w)
      else (True, UpdateTargets canon_ip targets w))"

definition pool_Close :: "World \<Rightarrow> World" where
  "pool_Close w =
     (if p_closed (pool w) then w
      else upd_pool (\<lambda>p. p\<lparr>p_closed := True, p_admission := Retire (p_admission p)\<rparr>) (StopDiscovery w))"

subsection \<open>Results of requests\<close>

definition report_health :: "string \<Rightarrow> bool \<Rightarrow> World \<Rightarrow> World" where
  "report_health a up w =
     upd_pool (\<lambda>p. if p_healthHook p then p\<lparr>p_healthLog := (a, up) # p_healthLog p\<rparr> else p) w"

definition MarkSuccess :: "Attempt \<Rightarrow> World \<Rightarrow> bool \<times> World" where
  "MarkSuccess att w =
     (case at_Backend att of
        None \<Rightarrow> (False, w)
      | Some b \<Rightarrow>
          let (recovered, c) = circuit_success (at_adm att) (b_circuit (cells w b));
              w = upd_cell b (\<lambda>x. x\<lparr>b_circuit := c\<rparr>) w in
          (recovered, if recovered then report_health (b_Address (cells w b)) True w else w))"

definition MarkFailure :: "nanos \<Rightarrow> Attempt \<Rightarrow> World \<Rightarrow> bool \<times> World" where
  "MarkFailure now att w =
     (case at_Backend att of
        None \<Rightarrow> (False, w)
      | Some b \<Rightarrow>
          let (tripped, c) = circuit_failure now (at_adm att) (b_circuit (cells w b));
              w = upd_cell b (\<lambda>x. x\<lparr>b_circuit := c\<rparr>) w in
          (tripped, if tripped then report_health (b_Address (cells w b)) False w else w))"

definition pool_ReleaseProbe :: "Attempt \<Rightarrow> World \<Rightarrow> World" where
  "pool_ReleaseProbe att w =
     (case at_Backend att of
        None \<Rightarrow> w
      | Some b \<Rightarrow> upd_cell b (\<lambda>x. x\<lparr>b_circuit := releaseProbe (at_adm att) (b_circuit x)\<rparr>) w)"

definition pool_Release :: "ptr option \<Rightarrow> World \<Rightarrow> World" where
  "pool_Release b w = (case b of None \<Rightarrow> w | Some p \<Rightarrow> upd_cell p backend_Release w)"

definition pool_ForceClose :: "ptr \<Rightarrow> World \<Rightarrow> bool \<times> World" where
  "pool_ForceClose b w =
     (let (changed, c) = forceClose (b_circuit (cells w b)) in
      (changed, upd_cell b (\<lambda>x. x\<lparr>b_circuit := c\<rparr>) w))"

end
