(* ===== verification/Pool_Select.thy ===== *)
theory Pool_Select
  imports Pool
begin

text \<open>
  \<^verbatim>\<open>selectBackend\<close> of \<^verbatim>\<open>src/internal/upstream/snapshot.go\<close> and the selections built
  on it. The loop that claims a backend ends only because the balancer returns a member of
  the set it is offered; it is a partial function, and its termination is proved from the
  contract of the balancer.
\<close>

subsection \<open>The claim loop\<close>

definition removeBackend :: "ptr list \<Rightarrow> ptr \<Rightarrow> ptr list" where
  "removeBackend s b = remove1 b s"

lemma removeBackend_shorter: "b \<in> set s \<Longrightarrow> length (removeBackend s b) < length s"
  using length_pos_if_in_set [of b s] by (simp add: removeBackend_def length_remove1)

partial_function (option) claim_loop ::
  "('s \<Rightarrow> ptr list \<Rightarrow> ptr option \<times> 's) \<Rightarrow> (ptr \<Rightarrow> 's \<Rightarrow> admission option \<times> 's) \<Rightarrow> ptr list \<Rightarrow> 's
     \<Rightarrow> (Attempt option \<times> 's) option" where
  "claim_loop pick admit avail s =
     (if avail = [] then Some (None, s)
      else case pick s avail of
             (None, s) \<Rightarrow> Some (None, s)
           | (Some b, s) \<Rightarrow>
               (case admit b s of
                  (Some adm, s) \<Rightarrow> Some (Some \<lparr>at_Backend = Some b, at_adm = adm\<rparr>, s)
                | (None, s) \<Rightarrow> claim_loop pick admit (removeBackend avail b) s))"

context picker
begin

lemma claim_loop_returns: "\<exists>r. claim_loop pick admit avail s = Some r"
proof (induction avail arbitrary: s rule: measure_induct_rule [where f = length])
  case (less avail)
  show ?case
  proof (cases "avail = []")
    case False
    obtain b s1 where p: "pick s avail = (Some b, s1)" "b \<in> set avail"
      using pick_member [OF False, of s] by (metis prod.collapse)
    then have "length (removeBackend avail b) < length avail"
      by (simp add: removeBackend_shorter)
    from less.IH [OF this] p False show ?thesis
      by (subst claim_loop.simps) (auto split: prod.splits option.splits)
  qed (subst claim_loop.simps, simp)
qed

text \<open>An invariant of the loop. Every backend asked before was refused; \<open>R b s\<close> records
  what a refusal of \<open>b\<close> leaves behind.\<close>

lemma claim_loop_cases:
  assumes "claim_loop pick admit avail s = Some (r, s')" and "I (set avail) s"
    and pick_I: "\<And>A a t. I A t \<Longrightarrow> I A (snd (pick t a))"
    and admit_I: "\<And>A b t t'. b \<in> A \<Longrightarrow> I A t \<Longrightarrow> admit b t = (None, t') \<Longrightarrow> I (A - {b}) t'"
    and "distinct avail"
  shows "case r of
           None \<Rightarrow> I {} s'
         | Some att \<Rightarrow> \<exists>b A t adm. b \<in> A \<and> A \<subseteq> set avail \<and> I A t \<and> admit b t = (Some adm, s') \<and>
                        att = \<lparr>at_Backend = Some b, at_adm = adm\<rparr>"
  using assms(1,2,5)
proof (induction avail arbitrary: s rule: measure_induct_rule [where f = length])
  case (less avail)
  show ?case
  proof (cases "avail = []")
    case True
    with less.prems show ?thesis by (subst (asm) claim_loop.simps) auto
  next
    case False
    obtain b s1 where p: "pick s avail = (Some b, s1)" "b \<in> set avail"
      using pick_member [OF False, of s] by (metis prod.collapse)
    have I1: "I (set avail) s1" using pick_I [OF less.prems(2), of avail] p by simp
    obtain m s2 where a: "admit b s1 = (m, s2)" by fastforce
    show ?thesis
    proof (cases m)
      case None
      have run: "claim_loop pick admit (removeBackend avail b) s2 = Some (r, s')"
        using less.prems(1) False p(1) a None by (subst (asm) claim_loop.simps) simp
      have "length (removeBackend avail b) < length avail"
        by (rule removeBackend_shorter [OF p(2)])
      moreover have rest: "set (removeBackend avail b) = set avail - {b}"
        "distinct (removeBackend avail b)"
        using less.prems(3) by (simp_all add: removeBackend_def)
      moreover have "I (set avail - {b}) s2" using admit_I [OF p(2) I1] a None by simp
      ultimately have "case r of None \<Rightarrow> I {} s'
         | Some att \<Rightarrow> \<exists>c A t adm. c \<in> A \<and> A \<subseteq> set avail - {b} \<and> I A t \<and> admit c t = (Some adm, s') \<and>
                        att = \<lparr>at_Backend = Some c, at_adm = adm\<rparr>"
        using less.IH [OF _ run] by metis
      then show ?thesis by (cases r) (simp, fastforce)
    next
      case (Some adm)
      then have "r = Some \<lparr>at_Backend = Some b, at_adm = adm\<rparr>" "s' = s2"
        using less.prems(1) False p(1) a by (subst (asm) claim_loop.simps, simp)+
      with p(2) I1 a Some show ?thesis by auto
    qed
  qed
qed

end

subsection \<open>Selecting a backend\<close>

fun select_filter ::
  "nanos \<Rightarrow> store \<Rightarrow> int \<Rightarrow> BackendIdentity set \<Rightarrow> ptr list \<Rightarrow> ptr list \<times> bool" where
  "select_filter now st perBackend excluded [] = ([], False)"
| "select_filter now st perBackend excluded (b # bs) =
     (let (avail, saturated) = select_filter now st perBackend excluded bs in
      if \<not> available now (st b) then (avail, saturated)
      else if backend_Identity (st b) \<in> excluded then (avail, saturated)
      else if perBackend > 0 \<and> b_inflight (st b) \<ge> perBackend then (avail, True)
      else (b # avail, saturated))"

definition pick_on :: "Key \<Rightarrow> store \<times> Balancer \<Rightarrow> ptr list \<Rightarrow> ptr option \<times> (store \<times> Balancer)" where
  "pick_on key s a = (case s of (st, bal) \<Rightarrow> case pickFor st bal a key of (p, bal) \<Rightarrow> (p, (st, bal)))"

definition admit_on :: "nanos \<Rightarrow> ptr \<Rightarrow> store \<times> Balancer \<Rightarrow> admission option \<times> (store \<times> Balancer)" where
  "admit_on now b s =
     (case s of (st, bal) \<Rightarrow>
        case backend_admit now (st b) of
          (None, x) \<Rightarrow> (None, (st(b := x), bal))
        | (Some adm, x) \<Rightarrow> (Some adm, (st(b := backend_acquire x), bal)))"

definition selectBackend ::
  "nanos \<Rightarrow> ptr list \<Rightarrow> int \<Rightarrow> BackendIdentity set \<Rightarrow> Key \<Rightarrow> store \<times> Balancer
     \<Rightarrow> ((select_error + Attempt) \<times> (store \<times> Balancer)) option" where
  "selectBackend now backends perBackend excluded key s =
     (let (avail, saturated) = select_filter now (fst s) perBackend excluded backends in
      case claim_loop (pick_on key) (admit_on now) avail s of
        None \<Rightarrow> None
      | Some (Some att, s) \<Rightarrow> Some (Inr att, s)
      | Some (None, s) \<Rightarrow>
          Some (Inl (if saturated then ErrBackendAtCapacity else ErrNoAvailableBackend), s))"

interpretation pool_picker: picker "pick_on key" for key
proof
  fix s :: "store \<times> Balancer" and a :: "ptr list"
  show "fst (pick_on key s []) = None"
    using balancer_picker.pick_nil [where st = "fst s" and key = key and s = "snd s"]
    by (simp add: pick_on_def case_prod_unfold)
  assume "a \<noteq> []"
  from balancer_picker.pick_member [where st = "fst s" and key = key and s = "snd s", OF this]
  show "\<exists>p. fst (pick_on key s a) = Some p \<and> p \<in> set a"
    by (simp add: pick_on_def case_prod_unfold)
qed

text \<open>A backend the filter keeps.\<close>

definition candidate :: "nanos \<Rightarrow> store \<Rightarrow> int \<Rightarrow> BackendIdentity set \<Rightarrow> ptr \<Rightarrow> bool" where
  "candidate now st perBackend excluded b \<longleftrightarrow>
     available now (st b) \<and> backend_Identity (st b) \<notin> excluded \<and>
     \<not> (perBackend > 0 \<and> b_inflight (st b) \<ge> perBackend)"

lemma select_filter_eq:
  "select_filter now st per ex bs =
     (filter (candidate now st per ex) bs,
      \<exists>b \<in> set bs. available now (st b) \<and> backend_Identity (st b) \<notin> ex \<and>
        per > 0 \<and> b_inflight (st b) \<ge> per)"
  by (induction bs) (auto simp: candidate_def)

definition refused :: "nanos \<Rightarrow> store \<Rightarrow> ptr \<Rightarrow> bool" where
  "refused now st b \<longleftrightarrow> \<not> admission_ok (fst (circuit_admit now (b_circuit (st b))))"

text \<open>During the loop only circuits of refused candidates have changed.\<close>

definition claiming :: "nanos \<Rightarrow> store \<Rightarrow> ptr set \<Rightarrow> ptr set \<Rightarrow> store \<times> Balancer \<Rightarrow> bool" where
  "claiming now st A0 A s \<longleftrightarrow>
     (\<forall>p. fst s p = (st p)\<lparr>b_circuit := b_circuit (fst s p)\<rparr>) \<and>
     (\<forall>p. p \<in> A \<or> p \<notin> A0 \<longrightarrow> fst s p = st p) \<and>
     (\<forall>p. p \<in> A0 - A \<longrightarrow> refused now st p)"

lemma claiming_refuse:
  assumes "A \<subseteq> A0" and "b \<in> A" and "\<forall>p \<in> A0. b_activeHealthy (st p)" and "claiming now st A0 A s"
    and "admit_on now b s = (None, s')"
  shows "claiming now st A0 (A - {b}) s'"
proof -
  have b: "fst s b = st b" "b_activeHealthy (st b)" using assms by (auto simp: claiming_def)
  obtain x where x: "backend_admit now (st b) = (None, x)" and s': "fst s' = (fst s)(b := x)"
    using assms(5) b by (auto simp: admit_on_def split: prod.splits option.splits)
  have "refused now st b"
    using x b(2) by (auto simp: refused_def backend_admit_def Let_def split: prod.splits if_splits)
  moreover have "x = (st b)\<lparr>b_circuit := b_circuit x\<rparr>" by (rule backend_admit_facts [OF x])
  ultimately show ?thesis using assms(1,2,4) by (auto simp: claiming_def s')
qed

lemma selectBackend_cases:
  assumes "distinct backends"
  shows "\<exists>r st' bal'. selectBackend now backends per ex key (st, bal) = Some (r, st', bal') \<and>
     (case r of
        Inr att \<Rightarrow> \<exists>b \<in> set backends. at_Backend att = Some b \<and> candidate now st per ex b \<and>
          admission_ok (at_adm att) \<and> fst (circuit_admit now (b_circuit (st b))) = at_adm att \<and>
          (\<forall>p. st' p = (st p)\<lparr>b_circuit := b_circuit (st' p),
                             b_inflight := b_inflight (st p) + (if p = b then 1 else 0)\<rparr>) \<and>
          (\<forall>p. p \<noteq> b \<and> st' p \<noteq> st p \<longrightarrow> p \<in> set backends \<and> refused now st p)
      | Inl e \<Rightarrow> (\<forall>p. st' p = (st p)\<lparr>b_circuit := b_circuit (st' p)\<rparr>) \<and>
          (\<forall>b \<in> set backends. candidate now st per ex b \<longrightarrow> refused now st b) \<and>
          (e = ErrBackendAtCapacity \<longleftrightarrow>
             (\<exists>b \<in> set backends. available now (st b) \<and> backend_Identity (st b) \<notin> ex \<and>
                per > 0 \<and> b_inflight (st b) \<ge> per)))"
proof -
  let ?avail = "filter (candidate now st per ex) backends"
  let ?I = "\<lambda>A s. A \<subseteq> set ?avail \<and> claiming now st (set ?avail) A s"
  obtain m st' bal' where run:
    "claim_loop (pick_on key) (admit_on now) ?avail (st, bal) = Some (m, st', bal')"
    using pool_picker.claim_loop_returns [of key "admit_on now" ?avail "(st, bal)"]
    by (metis prod.collapse)
  have h: "\<forall>p \<in> set ?avail. b_activeHealthy (st p)" by (auto simp: candidate_def available_def)
  have pick_I: "\<And>A a t. ?I A t \<Longrightarrow> ?I A (snd (pick_on key t a))"
    by (auto simp: pick_on_def claiming_def split: prod.splits)
  have admit_I: "\<And>A b t t'. b \<in> A \<Longrightarrow> ?I A t \<Longrightarrow> admit_on now b t = (None, t') \<Longrightarrow> ?I (A - {b}) t'"
    using claiming_refuse [OF _ _ h] by blast
  have init: "?I (set ?avail) (st, bal)" by (auto simp: claiming_def)
  have res: "case m of None \<Rightarrow> ?I {} (st', bal')
      | Some att \<Rightarrow> \<exists>b A t adm. b \<in> A \<and> A \<subseteq> set ?avail \<and> ?I A t \<and>
          admit_on now b t = (Some adm, (st', bal')) \<and> att = \<lparr>at_Backend = Some b, at_adm = adm\<rparr>"
  proof (rule pool_picker.claim_loop_cases [where I = ?I, OF run init])
    show "?I A (snd (pick_on key t a))" if "?I A t" for A a t by (rule pick_I [OF that])
    show "?I (A - {b}) t'" if "b \<in> A" "?I A t" "admit_on now b t = (None, t')" for A b t t'
      by (rule admit_I [OF that])
  qed (use assms in simp)
  show ?thesis
  proof (cases m)
    case None
    then have "claiming now st (set ?avail) {} (st', bal')"
      using res by auto
    then have "\<forall>p. st' p = (st p)\<lparr>b_circuit := b_circuit (st' p)\<rparr>"
      and "\<forall>b \<in> set backends. candidate now st per ex b \<longrightarrow> refused now st b"
      by (auto simp: claiming_def)
    with run None show ?thesis by (auto simp: selectBackend_def select_filter_eq)
  next
    case (Some att)
    then obtain b A t adm where b: "b \<in> A" "A \<subseteq> set ?avail" "claiming now st (set ?avail) A t"
      "admit_on now b t = (Some adm, (st', bal'))" "att = \<lparr>at_Backend = Some b, at_adm = adm\<rparr>"
      using res by auto
    then have tb: "fst t b = st b" by (auto simp: claiming_def)
    obtain x where x: "backend_admit now (st b) = (Some adm, x)" and st': "st' = (fst t)(b := backend_acquire x)"
      using b(4) tb by (auto simp: admit_on_def split: prod.splits option.splits)
    have adm: "admission_ok adm" "fst (circuit_admit now (b_circuit (st b))) = adm"
      using backend_admit_facts(2) [OF x refl] by auto
    have x': "x = (st b)\<lparr>b_circuit := b_circuit x\<rparr>" by (rule backend_admit_facts(1) [OF x])
    have cl: "fst t p = (st p)\<lparr>b_circuit := b_circuit (fst t p)\<rparr>" for p
      using b(3) unfolding claiming_def by blast
    have st'_eq: "st' p = (st p)\<lparr>b_circuit := b_circuit (st' p),
        b_inflight := b_inflight (st p) + (if p = b then 1 else 0)\<rparr>" for p
    proof (cases "p = b")
      case True
      have "st' b = backend_acquire x" by (simp add: st')
      then show ?thesis unfolding True by (subst (asm) x') (simp add: backend_acquire_def)
    next
      case False
      with cl [of p] show ?thesis by (cases "st p"; cases "fst t p") (simp add: st')
    qed
    have "\<forall>p. p \<noteq> b \<and> st' p \<noteq> st p \<longrightarrow> p \<in> set backends \<and> refused now st p"
      using b(3) unfolding st' claiming_def by fastforce
    with st'_eq run Some b adm show ?thesis
      by (auto simp: selectBackend_def select_filter_eq intro!: bexI [of _ b])
  qed
qed

text \<open>Backend selection always returns. A backend it returns is a member of the offered
  set that is healthy, has an eligible circuit, is not excluded and is below the per-backend
  limit; its circuit issued the token, its in-flight count is one higher and no other backend
  changed except for the circuits of candidates that refused. It reports an error only when
  every candidate's circuit refuses, and reports lack of capacity exactly when an otherwise
  usable backend is at its limit.\<close>

lemma selectBackend_sound:
  assumes "distinct backends"
  shows "\<exists>r st' bal'. selectBackend now backends per ex key (st, bal) = Some (r, st', bal') \<and>
     (case r of
        Inr att \<Rightarrow> \<exists>b \<in> set backends. at_Backend att = Some b \<and> candidate now st per ex b \<and>
          admission_ok (at_adm att) \<and> fst (circuit_admit now (b_circuit (st b))) = at_adm att \<and>
          (\<forall>p. st' p = (st p)\<lparr>b_circuit := b_circuit (st' p),
                             b_inflight := b_inflight (st p) + (if p = b then 1 else 0)\<rparr>) \<and>
          (\<forall>p. p \<noteq> b \<and> st' p \<noteq> st p \<longrightarrow> p \<in> set backends \<and> refused now st p)
      | Inl e \<Rightarrow> (\<forall>p. st' p = (st p)\<lparr>b_circuit := b_circuit (st' p)\<rparr>) \<and>
          (\<forall>b \<in> set backends. candidate now st per ex b \<longrightarrow> refused now st b) \<and>
          (e = ErrBackendAtCapacity \<longleftrightarrow>
             (\<exists>b \<in> set backends. available now (st b) \<and> backend_Identity (st b) \<notin> ex \<and>
                per > 0 \<and> b_inflight (st b) \<ge> per)))"
  by (rule selectBackend_cases [OF assms])

subsection \<open>Live pools and request snapshots\<close>

text \<open>A snapshot owns a balancer; its backends are shared with the live pool through the
  store. The snapshots a request context carries are a map from pool name and scheme.\<close>

record PoolSnapshot =
  sn_name :: string
  sn_scheme :: string
  sn_strategy :: string
  sn_backends :: "ptr list"
  sn_balancer :: Balancer
  sn_dynamic :: bool

type_synonym SnapshotMap = "string \<times> string \<rightharpoonup> PoolSnapshot"

definition Snapshot :: "World \<Rightarrow> PoolSnapshot" where
  "Snapshot w =
     \<lparr>sn_name = p_name (pool w), sn_scheme = p_scheme (pool w), sn_strategy = p_strategy (pool w),
      sn_backends = p_backends (pool w),
      sn_balancer = newBalancer (p_strategy (pool w)) (p_hashFallback (pool w)),
      sn_dynamic = p_dynamic (pool w)\<rparr>"

definition staticSnapshot ::
  "(string \<Rightarrow> string option) \<Rightarrow> UpstreamServer list \<Rightarrow> World \<Rightarrow> PoolSnapshot \<times> World" where
  "staticSnapshot canon_ip servers w =
     (let (bs, w') = alloc_all (buildBackends canon_ip servers (p_scheme (pool w)) (p_circuit (pool w))) w in
      ((Snapshot w)\<lparr>sn_backends := bs, sn_dynamic := False\<rparr>, w'))"

type_synonym 'a select_result = "((select_error + Attempt) \<times> 'a) option"

definition pool_pickKeyed ::
  "nanos \<Rightarrow> Key \<Rightarrow> BackendIdentity set \<Rightarrow> World \<Rightarrow> World select_result" where
  "pool_pickKeyed now key ex w =
     (case selectBackend now (p_backends (pool w)) (MaxActivePerBackend (policy (p_admission (pool w))))
             ex key (cells w, p_balancer (pool w)) of
        None \<Rightarrow> None
      | Some (r, st, bal) \<Rightarrow> Some (r, w\<lparr>cells := st, pool := (pool w)\<lparr>p_balancer := bal\<rparr>\<rparr>))"

definition snap_pickKeyed ::
  "nanos \<Rightarrow> Key \<Rightarrow> BackendIdentity set \<Rightarrow> PoolSnapshot \<times> World \<Rightarrow> (PoolSnapshot \<times> World) select_result" where
  "snap_pickKeyed now key ex sw =
     (case sw of (s, w) \<Rightarrow>
        if sn_dynamic s then
          (case pool_pickKeyed now key ex w of None \<Rightarrow> None | Some (r, w) \<Rightarrow> Some (r, s, w))
        else
          (case selectBackend now (sn_backends s) (MaxActivePerBackend (policy (p_admission (pool w))))
                  ex key (cells w, sn_balancer s) of
             None \<Rightarrow> None
           | Some (r, st, bal) \<Rightarrow> Some (r, s\<lparr>sn_balancer := bal\<rparr>, w\<lparr>cells := st\<rparr>)))"

definition snap_Backends :: "PoolSnapshot \<Rightarrow> World \<Rightarrow> ptr list" where
  "snap_Backends s w = (if sn_dynamic s then p_backends (pool w) else sn_backends s)"

definition snapshotFrom :: "SnapshotMap option \<Rightarrow> string \<Rightarrow> string \<Rightarrow> PoolSnapshot option" where
  "snapshotFrom m name scheme = (case m of None \<Rightarrow> None | Some m \<Rightarrow> m (name, scheme))"

text \<open>\<open>ctx\<close> is the snapshot of this pool in the request context, if there is one; its
  balancer advances with every pick.\<close>

definition PickKeyed ::
  "nanos \<Rightarrow> Key \<Rightarrow> BackendIdentity set \<Rightarrow> PoolSnapshot option \<times> World
     \<Rightarrow> (PoolSnapshot option \<times> World) select_result" where
  "PickKeyed now key ex cw =
     (case cw of
        (Some s, w) \<Rightarrow>
          (case snap_pickKeyed now key ex (s, w) of None \<Rightarrow> None | Some (r, s, w) \<Rightarrow> Some (r, Some s, w))
      | (None, w) \<Rightarrow>
          (case pool_pickKeyed now key ex w of None \<Rightarrow> None | Some (r, w) \<Rightarrow> Some (r, None, w)))"

definition candidates :: "PoolSnapshot option \<times> World \<Rightarrow> ptr list" where
  "candidates cw =
     (case cw of (Some s, w) \<Rightarrow> snap_Backends s w | (None, w) \<Rightarrow> p_backends (pool w))"

subsection \<open>Witness\<close>

definition lone_store :: store where
  "lone_store p =
     newBackendFor (\<lambda>_. None) ''10.0.0.1:80'' 1 [] ''http''
       \<lparr>cp_maxFails = 3, cp_failTimeout = 10 * second, cp_halfOpenProbes = 1\<rparr>"

lemma selectBackend_sound_example:
  "\<exists>r s. selectBackend 5 [0] 1 {} no_key (lone_store, roundRobin 0) = Some (r, s)"
  using selectBackend_sound [of "[0]" 5 1 "{}" no_key lone_store "roundRobin 0"] by auto

end
