(* ===== verification/Pool_Reload.thy ===== *)
theory Pool_Reload
  imports Pool_Select
begin

text \<open>
  Reconfiguring a pool: which backends survive a reload or a discovery result, what they keep,
  and how a discovery generation that has been fenced off is kept from writing.
\<close>

subsection \<open>Frames\<close>

text \<open>Two views of a backend that agree on everything but the weight and the flag that says
  whether the transition hook is installed.\<close>

definition state_kept :: "Backend \<Rightarrow> Backend \<Rightarrow> bool" where
  "state_kept b b' \<longleftrightarrow>
     b' = b\<lparr>b_weight := b_weight b',
           b_circuit := (b_circuit b)\<lparr>onTransition := onTransition (b_circuit b')\<rparr>\<rparr>"

lemma state_kept_refl [simp]: "state_kept b b"
  by (simp add: state_kept_def)

lemma state_kept_trans: "state_kept a b \<Longrightarrow> state_kept b c \<Longrightarrow> state_kept a c"
  unfolding state_kept_def
  by (cases a; cases b; cases c; cases "b_circuit a"; cases "b_circuit b"; cases "b_circuit c") simp

lemma state_kept_setWeight [simp]: "state_kept b (setWeight w b)"
  by (simp add: state_kept_def setWeight_def)

lemma state_kept_hook: "state_kept b (b\<lparr>b_circuit := setTransitionHook h (b_circuit b)\<rparr>)"
  by (simp add: state_kept_def setTransitionHook_def)

lemma keyFor_kept: "state_kept b b' \<Longrightarrow> keyFor b' = keyFor b"
  by (cases b; cases b') (simp add: state_kept_def keyFor_def)

lemma state_kept_inflight: "state_kept b b' \<Longrightarrow> b_inflight b' = b_inflight b"
  by (cases b; cases b') (simp add: state_kept_def)

lemma hook_all_kept: "state_kept (st p) (hook_all bs st p)"
proof (induction bs arbitrary: st)
  case (Cons b bs)
  show ?case
    unfolding hook_all.simps by (rule state_kept_trans [OF _ Cons.IH]) (simp add: state_kept_hook)
qed simp

lemma hook_all_weight: "b_weight (hook_all bs st p) = b_weight (st p)"
  by (induction bs arbitrary: st) simp_all

lemma upt_shift: "[n..<n + Suc m] = n # [Suc n..<Suc n + m]"
  by (simp add: upt_conv_Cons)

lemma alloc_all_eq:
  "alloc_all bs w =
     ([next_ptr w..<next_ptr w + length bs],
      w\<lparr>cells := (\<lambda>p. if next_ptr w \<le> p \<and> p < next_ptr w + length bs
                     then bs ! (p - next_ptr w) else cells w p),
        next_ptr := next_ptr w + length bs\<rparr>)"
proof (induction bs arbitrary: w)
  case (Cons b bs)
  show ?case
    unfolding alloc_all.simps Let_def Cons.IH length_Cons upt_shift
    by (auto simp: fun_eq_iff nth_Cons' Suc_diff_Suc not_less_eq_eq)
next
  case Nil
  have "(\<lambda>p. if next_ptr w \<le> p \<and> p < next_ptr w then x p else cells w p) = cells w" for x
    by (rule ext) auto
  then show ?case by simp
qed

subsection \<open>Matching by reuse key\<close>

lemma prev_map_sound:
  "prev_map st bs m k = Some e \<Longrightarrow> (e \<in> set bs \<and> keyFor (st e) = k) \<or> m k = Some e"
  by (induction bs arbitrary: m) (fastforce split: if_splits)+

lemma prev_map_complete: "b \<in> set bs \<or> m (keyFor (st b)) \<noteq> None \<Longrightarrow> prev_map st bs m (keyFor (st b)) \<noteq> None"
  by (induction bs arbitrary: m) auto

lemma prev_map_inj:
  "inj_on (\<lambda>b. keyFor (st b)) (set bs) \<Longrightarrow> b \<in> set bs \<Longrightarrow> prev_map st bs Map.empty (keyFor (st b)) = Some b"
  using prev_map_complete [of b bs Map.empty st] prev_map_sound [of st bs Map.empty "keyFor (st b)"]
  by (auto dest: inj_onD)

text \<open>What the matching loop delivers, for old backends below \<open>n\<close> and new ones from
  \<open>n\<close> on.\<close>

definition reuse_spec ::
  "nat \<Rightarrow> store \<Rightarrow> (reuseKey \<rightharpoonup> ptr) \<Rightarrow> ptr list \<Rightarrow> store \<Rightarrow> ptr list \<Rightarrow> bool" where
  "reuse_spec n st prev nxt st' out \<longleftrightarrow>
     length out = length nxt \<and> distinct out \<and> set out \<subseteq> ran prev \<union> set nxt \<and>
     (\<forall>p. state_kept (st p) (st' p) \<and> (p \<notin> ran prev \<longrightarrow> st' p = st p)) \<and>
     (\<forall>i < length nxt. keyFor (st (out ! i)) = keyFor (st (nxt ! i)) \<and>
        b_weight (st' (out ! i)) = b_weight (st (nxt ! i))) \<and>
     (\<forall>b \<in> set nxt. \<forall>e. prev (keyFor (st b)) = Some e \<longrightarrow> e \<in> set out)"

definition prev_ok :: "nat \<Rightarrow> store \<Rightarrow> (reuseKey \<rightharpoonup> ptr) \<Rightarrow> bool" where
  "prev_ok n st prev \<longleftrightarrow> (\<forall>k e. prev k = Some e \<longrightarrow> e < n \<and> keyFor (st e) = k)"

lemma reuse_spec_fresh:
  assumes "reuse_spec n st prev bs st' rest" and "prev_ok n st prev" and "n \<le> b" and "b \<notin> set bs"
    and "prev (keyFor (st b)) = None"
  shows "reuse_spec n st prev (b # bs) st' (b # rest)"
proof -
  have "b \<notin> ran prev" using assms(2,3) by (fastforce simp: ran_def prev_ok_def)
  with assms show ?thesis by (auto simp: reuse_spec_def nth_Cons')
qed

lemma reuse_spec_match:
  assumes "reuse_spec n (st(e := setWeight (b_weight (st b)) (st e))) (prev(keyFor (st b) := None)) bs st' rest"
    and "prev_ok n st prev" and "n \<le> b" and "\<forall>c \<in> set bs. n \<le> c" and "prev (keyFor (st b)) = Some e"
  shows "reuse_spec n st prev (b # bs) st' (e # rest)"
proof -
  let ?k = "keyFor (st b)"
  let ?st = "st(e := setWeight (b_weight (st b)) (st e))"
  have e: "e < n" "keyFor (st e) = ?k" using assms(2,5) by (auto simp: prev_ok_def)
  have e_out: "e \<notin> ran (prev(?k := None))" using assms(2) e by (auto simp: ran_def prev_ok_def)
  have key [simp]: "keyFor (?st p) = keyFor (st p)" for p by (simp add: keyFor_def setWeight_def)
  have wgt: "b_weight (?st c) = b_weight (st c)" if "c \<in> set bs" for c
    using that assms(4) e(1) by auto
  have e_fresh: "e \<notin> set rest"
    using assms(1,4) e(1) e_out unfolding reuse_spec_def by fastforce
  have kept: "state_kept (st p) (st' p)" for p
    using assms(1) state_kept_trans [of "st p" "?st p" "st' p"] by (auto simp: reuse_spec_def)
  have same: "st' p = st p" if "p \<notin> ran prev" for p
  proof -
    have "p \<noteq> e" "p \<notin> ran (prev(?k := None))" using that assms(5) by (auto simp: ran_def)
    with assms(1) show ?thesis by (simp add: reuse_spec_def)
  qed
  have ste: "st' e = ?st e" using assms(1) e_out by (simp add: reuse_spec_def)
  have nth: "keyFor (st ((e # rest) ! i)) = keyFor (st ((b # bs) ! i)) \<and>
      b_weight (st' ((e # rest) ! i)) = b_weight (st ((b # bs) ! i))" if "i < length (b # bs)" for i
  proof (cases i)
    case 0
    then show ?thesis using e(2) ste by (simp add: setWeight_def)
  next
    case (Suc j)
    then have "j < length bs" using that by simp
    moreover from this have "keyFor (?st (rest ! j)) = keyFor (?st (bs ! j)) \<and>
        b_weight (st' (rest ! j)) = b_weight (?st (bs ! j))"
      using assms(1) unfolding reuse_spec_def by blast
    ultimately show ?thesis using Suc wgt [of "bs ! j"] unfolding key by simp
  qed
  have "set rest \<subseteq> ran prev \<union> set bs" using assms(1) by (auto simp: reuse_spec_def ran_def split: if_splits)
  moreover have "c \<in> set (e # rest)" if "d \<in> set (b # bs)" "prev (keyFor (st d)) = Some c" for c d
  proof (cases "keyFor (st d) = ?k")
    case False
    have "\<forall>x \<in> set bs. \<forall>y. (prev(?k := None)) (keyFor (?st x)) = Some y \<longrightarrow> y \<in> set rest"
      using assms(1) unfolding reuse_spec_def by blast
    with False that show ?thesis unfolding key by auto
  qed (use assms(5) that in simp)
  ultimately show ?thesis
    using assms(1,5) e_fresh kept same nth unfolding reuse_spec_def by (auto simp: ran_def)
qed

lemma reuse_loop_sound:
  assumes "reuse_loop st prev nxt = (st', out)" and "prev_ok n st prev"
    and "\<forall>b \<in> set nxt. n \<le> b" and "distinct nxt"
  shows "reuse_spec n st prev nxt st' out"
  using assms
proof (induction nxt arbitrary: st prev st' out)
  case Nil
  then show ?case by (simp add: reuse_spec_def)
next
  case (Cons b bs)
  show ?case
  proof (cases "prev (keyFor (st b))")
    case None
    obtain rest where run: "reuse_loop st prev bs = (st', rest)" and out: "out = b # rest"
      using Cons.prems(1) None by (auto simp: Let_def split: prod.splits)
    from Cons.IH [OF run Cons.prems(2)] Cons.prems None show ?thesis
      unfolding out by (intro reuse_spec_fresh) auto
  next
    case (Some e)
    let ?st = "st(e := setWeight (b_weight (st b)) (st e))" and ?prev = "prev(keyFor (st b) := None)"
    obtain rest where run: "reuse_loop ?st ?prev bs = (st', rest)" and out: "out = e # rest"
      using Cons.prems(1) Some by (auto simp: Let_def split: prod.splits)
    have "prev_ok n ?st ?prev"
      using Cons.prems(2) by (auto simp: prev_ok_def keyFor_def setWeight_def split: if_splits)
    moreover have "\<forall>c \<in> set bs. n \<le> c" "distinct bs" using Cons.prems by simp_all
    ultimately have "reuse_spec n ?st ?prev bs st' rest" by (rule Cons.IH [OF run])
    from reuse_spec_match [OF this Cons.prems(2) _ _ Some] Cons.prems(3) show ?thesis
      unfolding out by simp
  qed
qed

subsection \<open>What a reload keeps\<close>

definition pool_wf :: "World \<Rightarrow> bool" where
  "pool_wf w \<longleftrightarrow> distinct (p_backends (pool w)) \<and> (\<forall>p \<in> set (p_backends (pool w)). p < next_ptr w)"

definition target_key :: "Target \<Rightarrow> reuseKey" where
  "target_key t =
     (case ParseSocketAddress (t_Address t) of
        (n, a) \<Rightarrow> \<lparr>rk_id = t_ID t, rk_network = n, rk_address = a\<rparr>)"

definition server_target :: "UpstreamServer \<Rightarrow> Target" where
  "server_target s = \<lparr>t_Address = us_Address s, t_Weight = us_Weight s, t_ID = []\<rparr>"

lemma UpdateBackends_targets: "UpdateBackends canon_ip ss w = UpdateTargets canon_ip (map server_target ss) w"
  by (simp add: UpdateBackends_def UpdateTargets_def newBackend_def server_target_def o_def)

lemma newBackendFor_facts:
  "keyFor (newBackendFor c (t_Address t) (t_Weight t) (t_ID t) s cp) = target_key t"
  "b_weight (newBackendFor c a v i s cp) = max 1 v" "b_inflight (newBackendFor c a v i s cp) = 0"
  by (simp_all add: newBackendFor_def keyFor_def target_key_def Let_def split: prod.splits)

text \<open>\<open>replaceBackends\<close> on freshly allocated backends.\<close>

lemma replaceBackends_sound:
  assumes "distinct (p_backends (pool w))" and "\<forall>p \<in> set (p_backends (pool w)). p < n"
    and "\<forall>b \<in> set nxt. n \<le> b" and "distinct nxt"
    and "w' = replaceBackends nxt w" and "new = p_backends (pool w')"
  shows "length new = length nxt" "distinct new" "set new \<subseteq> set (p_backends (pool w)) \<union> set nxt"
    and "\<And>p. state_kept (cells w p) (cells w' p)"
    and "\<And>i. i < length nxt \<Longrightarrow> keyFor (cells w (new ! i)) = keyFor (cells w (nxt ! i)) \<and>
           b_weight (cells w' (new ! i)) = b_weight (cells w (nxt ! i))"
    and "\<And>b. inj_on (\<lambda>p. keyFor (cells w p)) (set (p_backends (pool w))) \<Longrightarrow>
           b \<in> set (p_backends (pool w)) \<Longrightarrow> \<exists>c \<in> set nxt. keyFor (cells w c) = keyFor (cells w b) \<Longrightarrow>
           b \<in> set new"
    and "next_ptr w' = next_ptr w"
proof -
  let ?old = "p_backends (pool w)"
  let ?prev = "prev_map (cells w) ?old Map.empty"
  obtain st out where loop: "reuse_loop (cells w) ?prev nxt = (st, out)" by fastforce
  have prev: "e \<in> set ?old \<and> keyFor (cells w e) = k" if "?prev k = Some e" for k e
    using prev_map_sound [OF that] by simp
  then have "prev_ok n (cells w) ?prev" using assms(2) by (auto simp: prev_ok_def)
  from reuse_loop_sound [OF loop this assms(3,4)] have R: "reuse_spec n (cells w) ?prev nxt st out" .
  have new: "new = out" and c: "cells w' = (if p_circuitHook (pool w) then hook_all out st else st)"
    and np: "next_ptr w' = next_ptr w"
    using assms(5,6) loop by (auto simp: replaceBackends_def applyCircuitHook_def upd_pool_def Let_def)
  show "next_ptr w' = next_ptr w" by (rule np)
  show "length new = length nxt" "distinct new" using R unfolding new reuse_spec_def by blast+
  have "ran ?prev \<subseteq> set ?old" using prev by (auto simp: ran_def)
  then show "set new \<subseteq> set ?old \<union> set nxt" using R unfolding new reuse_spec_def by blast
  show "state_kept (cells w p) (cells w' p)" for p
  proof -
    have "state_kept (cells w p) (st p)" using R unfolding reuse_spec_def by blast
    moreover have "state_kept (st p) (cells w' p)" unfolding c by (simp add: hook_all_kept)
    ultimately show ?thesis by (rule state_kept_trans)
  qed
  show "keyFor (cells w (new ! i)) = keyFor (cells w (nxt ! i)) \<and>
      b_weight (cells w' (new ! i)) = b_weight (cells w (nxt ! i))" if "i < length nxt" for i
    using R that unfolding new c reuse_spec_def by (auto simp: hook_all_weight)
  show "b \<in> set new" if "inj_on (\<lambda>p. keyFor (cells w p)) (set ?old)" "b \<in> set ?old"
    "\<exists>c \<in> set nxt. keyFor (cells w c) = keyFor (cells w b)" for b
    using R that prev_map_inj [OF that(1,2)] unfolding new reuse_spec_def by metis
qed

text \<open>A reload by targets allocates one cell per target and replaces the backends by them.\<close>

lemma UpdateTargets_alloc:
  assumes "w' = UpdateTargets canon_ip ts w"
  obtains nxt w1 where "w' = replaceBackends nxt w1" and "pool w1 = pool w"
    and "next_ptr w1 = next_ptr w + length ts" and "nxt = [next_ptr w..<next_ptr w + length ts]"
    and "\<And>p. p < next_ptr w \<Longrightarrow> cells w1 p = cells w p"
    and "\<And>i. i < length ts \<Longrightarrow> cells w1 (nxt ! i) = newBackendFor canon_ip (t_Address (ts ! i)) (t_Weight (ts ! i))
      (t_ID (ts ! i)) (p_scheme (pool w)) (p_circuit (pool w))"
proof -
  define bs where "bs = map (\<lambda>t. newBackendFor canon_ip (t_Address t) (t_Weight t) (t_ID t)
    (p_scheme (pool w)) (p_circuit (pool w))) ts"
  let ?n = "next_ptr w" and ?w1 = "snd (alloc_all bs w)"
  let ?nxt = "[?n..<?n + length ts]"
  have len: "length bs = length ts" by (simp add: bs_def)
  have ptrs: "fst (alloc_all bs w) = ?nxt" by (simp add: alloc_all_eq len)
  have c1: "cells ?w1 p = (if ?n \<le> p \<and> p < ?n + length bs then bs ! (p - ?n) else cells w p)" for p
    by (simp add: alloc_all_eq)
  show ?thesis
  proof (rule that)
    show "w' = replaceBackends ?nxt ?w1"
      by (simp add: assms UpdateTargets_def case_prod_beta ptrs flip: bs_def)
    show "cells ?w1 p = cells w p" if "p < ?n" for p using that by (simp add: c1)
    show "cells ?w1 (?nxt ! i) = newBackendFor canon_ip (t_Address (ts ! i)) (t_Weight (ts ! i))
        (t_ID (ts ! i)) (p_scheme (pool w)) (p_circuit (pool w))" if "i < length ts" for i
    proof -
      have "cells ?w1 (?nxt ! i) = bs ! i" using that len by (simp add: c1)
      with that show ?thesis by (simp add: bs_def)
    qed
  qed (simp_all add: alloc_all_eq len)
qed

text \<open>C11: A reload or discovery result keeps what it can. Whatever targets it brings, the new set
  has one backend per target, in order, with the target's identity and normalized weight, and
  no backend twice. Backends that existed before keep their in-flight count, health and
  circuit. When the old set has no two entries with the same logical ID, network and address,
  an old backend stays in the pool exactly when a target names it; every other member is new,
  with nothing in flight.\<close>

theorem reload_keeps_backend_state:
  assumes "pool_wf w" and "w' = UpdateTargets canon_ip ts w"
    and "old = p_backends (pool w)" and "new = p_backends (pool w')"
  shows "pool_wf w' \<and> length new = length ts \<and>
    (\<forall>i < length ts. keyFor (cells w' (new ! i)) = target_key (ts ! i) \<and>
       b_weight (cells w' (new ! i)) = max 1 (t_Weight (ts ! i)) \<and>
       (new ! i \<in> set old \<or> next_ptr w \<le> new ! i \<and> b_inflight (cells w' (new ! i)) = 0)) \<and>
    (\<forall>p < next_ptr w. state_kept (cells w p) (cells w' p)) \<and>
    (inj_on (\<lambda>p. keyFor (cells w p)) (set old) \<longrightarrow>
       (\<forall>p \<in> set old. p \<in> set new \<longleftrightarrow> keyFor (cells w p) \<in> target_key ` set ts))"
proof -
  let ?n = "next_ptr w"
  obtain nxt w1 where w': "w' = replaceBackends nxt w1" and w1: "pool w1 = pool w" "next_ptr w1 = ?n + length ts"
    and nxt: "nxt = [?n..<?n + length ts]" and oldc: "\<And>p. p < ?n \<Longrightarrow> cells w1 p = cells w p"
    and nth1: "\<And>i. i < length ts \<Longrightarrow> cells w1 (nxt ! i) = newBackendFor canon_ip (t_Address (ts ! i)) (t_Weight (ts ! i))
      (t_ID (ts ! i)) (p_scheme (pool w)) (p_circuit (pool w))"
    using UpdateTargets_alloc [OF assms(2)] by blast
  have len: "length nxt = length ts" "length nxt = length ts" by (simp_all add: nxt)
  have old: "distinct old" "\<forall>p \<in> set old. p < ?n" using assms(1,3) by (simp_all add: pool_wf_def)
  have nx: "\<forall>b \<in> set nxt. ?n \<le> b" "distinct nxt" by (simp_all add: nxt)
  note R = replaceBackends_sound [of w1 ?n nxt w' new, unfolded w1(1) assms(3) [symmetric],
      OF old nx w' assms(4)]
  have key1: "keyFor (cells w1 (new ! i)) = target_key (ts ! i)"
    and wgt1: "b_weight (cells w' (new ! i)) = max 1 (t_Weight (ts ! i))" if "i < length ts" for i
    using R(5) [of i] that len nth1 [OF that] by (simp_all add: newBackendFor_facts)
  have newptr: "p \<in> set old \<or> p \<in> set nxt" if "p \<in> set new" for p using R(3) that by auto
  have fresh: "b_inflight (cells w' p) = 0" if p: "p \<in> set nxt" for p
  proof -
    obtain i where "i < length ts" "p = nxt ! i" using p by (auto simp: in_set_conv_nth len(2))
    then have "b_inflight (cells w1 p) = 0" using nth1 by (simp add: newBackendFor_facts)
    then show ?thesis using state_kept_inflight [OF R(4)] by simp
  qed
  have "\<forall>p \<in> set new. p < next_ptr w'"
    using newptr old(2) R(7) w1(2) by (fastforce simp: nxt)
  then have wf: "pool_wf w'" using R(2) assms(4) by (simp add: pool_wf_def)
  have "keyFor (cells w' (new ! i)) = target_key (ts ! i) \<and>
       b_weight (cells w' (new ! i)) = max 1 (t_Weight (ts ! i)) \<and>
       (new ! i \<in> set old \<or> ?n \<le> new ! i \<and> b_inflight (cells w' (new ! i)) = 0)"
    if "i < length ts" for i
  proof (intro conjI)
    show "keyFor (cells w' (new ! i)) = target_key (ts ! i)"
      using keyFor_kept [OF R(4) [of "new ! i"]] key1 [OF that] by simp
    have "new ! i \<in> set new" using R(1) len(2) that by simp
    with newptr fresh nx(1)
    show "new ! i \<in> set old \<or> ?n \<le> new ! i \<and> b_inflight (cells w' (new ! i)) = 0" by blast
  qed (rule wgt1 [OF that])
  moreover have "state_kept (cells w p) (cells w' p)" if "p < ?n" for p
    using R(4) [of p] oldc [OF that] by simp
  moreover have "p \<in> set new \<longleftrightarrow> keyFor (cells w p) \<in> target_key ` set ts"
    if inj: "inj_on (\<lambda>p. keyFor (cells w p)) (set old)" and p: "p \<in> set old" for p
  proof
    assume "p \<in> set new"
    then obtain i where "i < length ts" "p = new ! i" by (auto simp: in_set_conv_nth R(1) len(2))
    then have "keyFor (cells w p) = target_key (ts ! i)" using key1 [of i] oldc [of p] old(2) p by simp
    with \<open>i < length ts\<close> show "keyFor (cells w p) \<in> target_key ` set ts" by simp
  next
    assume "keyFor (cells w p) \<in> target_key ` set ts"
    then obtain i where i: "i < length ts" "keyFor (cells w p) = target_key (ts ! i)"
      by (auto simp: in_set_conv_nth)
    have "nxt ! i \<in> set nxt" using i(1) len by simp
    then have "\<exists>c \<in> set nxt. keyFor (cells w1 c) = keyFor (cells w1 p)"
      using i nth1 [OF i(1)] oldc old(2) p by (intro bexI [of _ "nxt ! i"]) (auto simp: newBackendFor_facts)
    moreover have "inj_on (\<lambda>p. keyFor (cells w1 p)) (set old)"
      using inj old(2) oldc by (auto simp: inj_on_def)
    ultimately show "p \<in> set new" using R(6) p by blast
  qed
  moreover have "length new = length ts" using R(1) len(2) by simp
  ultimately show ?thesis using wf by (intro conjI allI impI ballI) blast+
qed

lemma of_nat_zero_iff: "n < 2 ^ 64 \<Longrightarrow> (of_nat n :: uint64) = 0 \<longleftrightarrow> n = 0"
  by (auto simp: word_of_nat_eq_0_iff dest: nat_dvd_not_less)

subsection \<open>Fencing discovery generations\<close>

datatype discovery_op = Stop | Begin | Apply uint64 "Target list"

definition discovery_exec :: "(string \<Rightarrow> string option) \<Rightarrow> World \<Rightarrow> discovery_op \<Rightarrow> World" where
  "discovery_exec canon_ip w op =
     (case op of
        Stop \<Rightarrow> StopDiscovery w
      | Begin \<Rightarrow> snd (beginDiscoveryGeneration w)
      | Apply e ts \<Rightarrow> snd (applyDiscoveryTargets canon_ip e ts w))"

fun advances :: "discovery_op \<Rightarrow> nat" where
  "advances (Apply _ _) = 0"
| "advances _ = 1"

lemma UpdateTargets_epoch [simp]: "p_discoveryEpoch (pool (UpdateTargets c ts w)) = p_discoveryEpoch (pool w)"
  by (simp add: UpdateTargets_def replaceBackends_def applyCircuitHook_def upd_pool_def alloc_all_eq
      Let_def split: prod.splits)

lemma discovery_exec_epoch:
  "p_discoveryEpoch (pool (discovery_exec c w op)) = p_discoveryEpoch (pool w) + of_nat (advances op)"
  by (cases op)
     (simp_all add: discovery_exec_def StopDiscovery_def beginDiscoveryGeneration_def upd_pool_def
        applyDiscoveryTargets_def Let_def)

lemma discovery_run_epoch:
  "p_discoveryEpoch (pool (foldl (discovery_exec c) w ops)) =
     p_discoveryEpoch (pool w) + of_nat (sum_list (map advances ops))"
  by (induction ops arbitrary: w) (simp_all add: discovery_exec_epoch add.assoc)

text \<open>A fenced discovery worker cannot write. Once a later generation has begun or discovery
  was stopped, a result that carries the earlier generation number is rejected and leaves the
  pool untouched, whatever happened in between, as long as fewer than 2 ^ 64 generations have
  passed; a result of the current generation is applied.\<close>

lemma discovery_fence:
  assumes "beginDiscoveryGeneration w = (e, w1)" and "w2 = foldl (discovery_exec canon_ip) w1 ops"
    and "sum_list (map advances ops) < 2 ^ 64"
  shows "applyDiscoveryTargets canon_ip e ts w2 =
           (if sum_list (map advances ops) = 0 then (True, UpdateTargets canon_ip ts w2) else (False, w2))"
proof -
  have "p_discoveryEpoch (pool w1) = e"
    using assms(1) by (auto simp: beginDiscoveryGeneration_def upd_pool_def Let_def)
  then have "p_discoveryEpoch (pool w2) = e + of_nat (sum_list (map advances ops))"
    by (simp add: assms(2) discovery_run_epoch)
  moreover have "(of_nat (sum_list (map advances ops)) :: uint64) = 0 \<longleftrightarrow> sum_list (map advances ops) = 0"
    using of_nat_zero_iff [OF assms(3)] by simp
  ultimately show ?thesis by (auto simp: applyDiscoveryTargets_def)
qed

subsection \<open>Witnesses\<close>

definition sample_config :: UpstreamConfig where
  "sample_config =
     \<lparr>uc_Name = ''api'', uc_Strategy = ''round_robin'',
      uc_Servers = [\<lparr>us_Address = ''10.0.0.1:80'', us_Weight = 1\<rparr>, \<lparr>us_Address = ''unix:/run/a'', us_Weight = 0\<rparr>],
      uc_Discovery = False, uc_Resilience = zero_options, uc_Hash = None,
      uc_Circuit = \<lparr>cp_maxFails = 3, cp_failTimeout = 10 * second, cp_halfOpenProbes = 1\<rparr>\<rparr>"

definition sample_world :: World where
  "sample_world = projr (NewPool (\<lambda>_. None) id 0 sample_config ''http'' lone_store)"

lemma sample_world_pool: "p_backends (pool sample_world) = [0, 1]" "next_ptr sample_world = 2"
  by (simp_all add: sample_world_def NewPool_def sample_config_def Resolve_def check_options_def
      zero_options_def Let_def alloc_all_eq buildBackends_def upd_pool_def numeral_2_eq_2)

lemma sample_world_wf: "pool_wf sample_world"
  by (simp add: pool_wf_def sample_world_pool)

theorem reload_keeps_backend_state_witness:
  "length (p_backends (pool (UpdateTargets (\<lambda>_. None)
     [\<lparr>t_Address = ''10.0.0.1:80'', t_Weight = 5, t_ID = []\<rparr>] sample_world))) = 1"
  using reload_keeps_backend_state [OF sample_world_wf refl refl refl, of "\<lambda>_. None"
      "[\<lparr>t_Address = ''10.0.0.1:80'', t_Weight = 5, t_ID = []\<rparr>]"] by simp

lemma discovery_fence_example:
  "fst (applyDiscoveryTargets (\<lambda>_. None) (fst (beginDiscoveryGeneration sample_world)) []
     (StopDiscovery (snd (beginDiscoveryGeneration sample_world)))) = False"
  using discovery_fence [of sample_world "fst (beginDiscoveryGeneration sample_world)"
      "snd (beginDiscoveryGeneration sample_world)" "StopDiscovery (snd (beginDiscoveryGeneration sample_world))"
      "\<lambda>_. None" "[Stop]" "[]"]
  by (simp add: discovery_exec_def)

end
