(* ===== verification/Pool_Do.thy ===== *)
theory Pool_Do
  imports Pool_Reload
begin

text \<open>
  The retry driver \<^verbatim>\<open>Pool.Do\<close> of \<^verbatim>\<open>src/internal/upstream/retry.go\<close>.

  What the driver does not control enters through an \<open>Env\<close>: the adapter's closure, which
  performs one attempt and may change the world (as may everything else that runs meanwhile),
  the clock, the request context, the random source of the jitter, and whether a backoff timer
  or the deadline ends a wait first. Handing the cancel function of the driver's context to
  the adapter (\<^verbatim>\<open>RetainContext\<close>) and the \<^verbatim>\<open>OnBackoff\<close> observer are left out.

  The loop is a partial function; that it returns is part of the theorem below. The outcome
  also lists the backends that were handed out, newest first.
\<close>

type_synonym dstate = "PoolSnapshot option \<times> World"

record AttemptResult =
  r_Err :: "errval option"
  r_ResponseStarted :: bool
  r_Terminal :: bool
  r_Retain :: bool

record Env =
  fn :: "Attempt \<Rightarrow> int \<Rightarrow> dstate \<Rightarrow> AttemptResult \<times> dstate"
  clock_pick :: "int \<Rightarrow> nanos"
  clock_done :: "int \<Rightarrow> nanos"
  start_time :: nanos
  ctx_deadline :: "nanos option"
  ctx_err :: "int \<Rightarrow> bool"
  rand_src :: "int \<Rightarrow> int \<Rightarrow> int"
  timer_first :: "int \<Rightarrow> bool"

record Outcome =
  o_reason :: StopReason
  o_err :: "errval option"
  o_state :: dstate
  o_trail :: "ptr list"

definition noDeadline :: "64 word" where
  "noDeadline = word_of_int (2 ^ 63 - 1)"

text \<open>\<^verbatim>\<open>time.Until\<close> saturates at the ends of the 64-bit range.\<close>

definition saturate64 :: "int \<Rightarrow> 64 word" where
  "saturate64 d =
     (if d > 2 ^ 63 - 1 then word_of_int (2 ^ 63 - 1)
      else if d < - (2 ^ 63) then word_of_int (- (2 ^ 63)) else word_of_int d)"

definition remainingFor :: "nanos option \<Rightarrow> bool \<Rightarrow> nanos \<Rightarrow> 64 word" where
  "remainingFor deadline err now =
     (case deadline of
        None \<Rightarrow> if err then 0 else noDeadline
      | Some dl \<Rightarrow> saturate64 (dl - now))"

definition hasUntried :: "nanos \<Rightarrow> dstate \<Rightarrow> BackendIdentity set \<Rightarrow> bool" where
  "hasUntried now s excluded \<longleftrightarrow>
     (\<exists>b \<in> set (candidates s). backend_Identity (cells (snd s) b) \<notin> excluded \<and>
        available now (cells (snd s) b))"

definition select_err :: "select_error \<Rightarrow> errval" where
  "select_err e =
     (case e of
        ErrNoAvailableBackend \<Rightarrow> Sentinel ''no available upstream backend''
      | ErrBackendAtCapacity \<Rightarrow> Sentinel ''all upstream backends are at capacity'')"

definition do_deadline :: "Env \<Rightarrow> RetryRequest \<Rightarrow> nanos option" where
  "do_deadline env rr =
     (if Deadline rr > 0
      then Some (case ctx_deadline env of None \<Rightarrow> start_time env + Deadline rr
                 | Some dl \<Rightarrow> min dl (start_time env + Deadline rr))
      else ctx_deadline env)"

definition on_world :: "(World \<Rightarrow> World) \<Rightarrow> dstate \<Rightarrow> dstate" where
  "on_world f s = (fst s, f (snd s))"

definition set_budget :: "Budget \<Rightarrow> World \<Rightarrow> World" where
  "set_budget b w = upd_pool (\<lambda>p. p\<lparr>p_budget := b\<rparr>) w"

definition do_release :: "Attempt \<Rightarrow> dstate \<Rightarrow> dstate" where
  "do_release att s = on_world (pool_Release (at_Backend att)) s"

text \<open>The decision after a failed attempt: why to stop, or the state in which the next
  attempt starts. The budget is asked only when every free condition agrees.\<close>

definition after_failure ::
  "Env \<Rightarrow> RetryRequest \<Rightarrow> int \<Rightarrow> AttemptResult \<Rightarrow> BackendIdentity set \<Rightarrow> dstate \<Rightarrow> StopReason \<times> dstate" where
  "after_failure env rr n res tried s =
     (let remaining = remainingFor (do_deadline env rr) (ctx_err env n) (clock_done env n);
          d = \<lparr>d_Err = r_Err res, d_Attempts = n, d_MaxAttempts = MaxAttempts rr,
               d_ResponseStarted = r_ResponseStarted res, d_Replayable = Replayable rr,
               d_Terminal = r_Terminal res, d_Remaining = sint remaining,
               d_UntriedBackend = hasUntried (clock_done env n) s tried, d_BudgetAllows = True\<rparr>;
          reason = Retryable d in
      if reason \<noteq> StopNone then (reason, s)
      else
        let (allowed, b) = Allow (clock_done env n) (p_budget (pool (snd s)));
            s = on_world (set_budget b) s in
        if \<not> allowed then (StopBudget, s)
        else
          let (delay, ok) = backoffFor n (word_of_int (BackoffInitial rr)) (word_of_int (BackoffMax rr))
                              remaining (fullJitter (rand_src env n)) in
          if \<not> ok then (StopDeadline, s)
          else if sint delay > 0 \<and> \<not> timer_first env n then (StopDeadline, s)
          else (StopNone, s))"

partial_function (option) do_loop ::
  "Env \<Rightarrow> RetryRequest \<Rightarrow> Key \<Rightarrow> int \<Rightarrow> BackendIdentity set \<Rightarrow> errval option \<Rightarrow> ptr list \<Rightarrow> dstate
     \<Rightarrow> Outcome option" where
  "do_loop env rr key n tried lastErr trail s =
     (case PickKeyed (clock_pick env n) key tried s of
        None \<Rightarrow> None
      | Some (Inl e, s) \<Rightarrow>
          Some \<lparr>o_reason = StopNoBackend,
                o_err = Some (case lastErr of Some l \<Rightarrow> l | None \<Rightarrow> select_err e),
                o_state = s, o_trail = trail\<rparr>
      | Some (Inr att, s) \<Rightarrow>
          (let s = (if n = 1
                    then on_world (\<lambda>w. set_budget (Primary (clock_pick env n) (p_budget (pool w))) w) s else s);
               b = the (at_Backend att);
               trail = b # trail;
               (res, s) = fn env att n s in
           case r_Err res of
             None \<Rightarrow>
               Some \<lparr>o_reason = StopSuccess, o_err = None,
                     o_state = (if r_Retain res then s else do_release att s), o_trail = trail\<rparr>
           | Some e \<Rightarrow>
               (let s = do_release att s;
                    tried = insert (backend_Identity (cells (snd s) b)) tried;
                    (reason, s) = after_failure env rr n res tried s in
                if reason \<noteq> StopNone
                then Some \<lparr>o_reason = reason, o_err = Some e, o_state = s, o_trail = trail\<rparr>
                else do_loop env rr key (n + 1) tried (Some e) trail s)))"

definition Do :: "Env \<Rightarrow> RetryRequest \<Rightarrow> Key \<Rightarrow> dstate \<Rightarrow> Outcome option" where
  "Do env rr key s = do_loop env rr key 1 {} None [] s"

subsection \<open>What a selection and a decision leave alone\<close>

text \<open>The view of a state on which the driver's accounting rests: the candidates, the
  identities of all backends and their in-flight counts.\<close>

definition same_view :: "dstate \<Rightarrow> dstate \<Rightarrow> bool" where
  "same_view s t \<longleftrightarrow> candidates t = candidates s \<and>
     (\<forall>p. backend_Identity (cells (snd t) p) = backend_Identity (cells (snd s) p) \<and>
          b_inflight (cells (snd t) p) = b_inflight (cells (snd s) p))"

definition charged :: "ptr \<Rightarrow> dstate \<Rightarrow> dstate \<Rightarrow> bool" where
  "charged b s t \<longleftrightarrow> candidates t = candidates s \<and>
     (\<forall>p. backend_Identity (cells (snd t) p) = backend_Identity (cells (snd s) p) \<and>
          b_inflight (cells (snd t) p) = b_inflight (cells (snd s) p) + (if p = b then 1 else 0))"

lemma same_view_refl [simp]: "same_view s s"
  by (simp add: same_view_def)

lemma same_view_trans: "same_view s t \<Longrightarrow> same_view t u \<Longrightarrow> same_view s u"
  by (simp add: same_view_def)

lemma charged_same: "charged b s t \<Longrightarrow> same_view t u \<Longrightarrow> charged b s u"
  by (simp add: charged_def same_view_def)

lemma candidates_cong:
  assumes "fst t = fst s" and "p_backends (pool (snd t)) = p_backends (pool (snd s))"
  shows "candidates t = candidates s"
  using assms by (cases s; cases t) (auto simp: candidates_def snap_Backends_def split: option.splits)

lemma same_view_budget: "same_view s (on_world (set_budget b) s)"
  by (simp add: same_view_def on_world_def set_budget_def upd_pool_def)
     (rule candidates_cong, simp_all)

lemma set_budget_world_view: "same_view s (on_world (\<lambda>w. set_budget (f w) w) s)"
  using same_view_budget [of s "f (snd s)"] by (simp add: on_world_def)

lemma do_release_charged:
  assumes "charged b s t" and "at_Backend att = Some b"
  shows "same_view s (do_release att t)"
proof -
  have "candidates (do_release att t) = candidates t"
    by (rule candidates_cong) (simp_all add: do_release_def on_world_def pool_Release_def upd_cell_def assms(2))
  then show ?thesis
    using assms by (auto simp: charged_def same_view_def do_release_def on_world_def pool_Release_def
        upd_cell_def backend_Release_def backend_Identity_def)
qed

lemma after_failure_view: "after_failure env rr n res tried s = (reason, t) \<Longrightarrow> same_view s t"
  by (auto simp: after_failure_def Let_def same_view_budget split: prod.splits if_splits)

lemma after_failure_continues:
  assumes "after_failure env rr n res tried s = (StopNone, t)"
  shows "MaxAttempts rr \<le> 0 \<or> n < MaxAttempts rr" and "Replayable rr" and "\<not> r_ResponseStarted res"
    and "\<not> r_Terminal res"
  using assms
  by (auto simp: after_failure_def Let_def Retryable_def split: prod.splits if_splits option.splits)

lemma after_failure_reason:
  assumes "after_failure env rr n res tried s = (reason, t)" and "r_Err res \<noteq> None"
  shows "reason \<noteq> StopSuccess"
  using assms
  by (auto simp: after_failure_def Let_def Retryable_def split: prod.splits if_splits option.splits)

lemma selectBackend_view:
  assumes "distinct bs" and "selectBackend now bs per ex key (st, bal) = Some (r, st', bal')"
  shows "case r of
      Inr att \<Rightarrow> \<exists>b \<in> set bs. at_Backend att = Some b \<and> backend_Identity (st b) \<notin> ex \<and>
        (\<forall>p. backend_Identity (st' p) = backend_Identity (st p) \<and>
             b_inflight (st' p) = b_inflight (st p) + (if p = b then 1 else 0))
    | Inl e \<Rightarrow> \<forall>p. backend_Identity (st' p) = backend_Identity (st p) \<and> b_inflight (st' p) = b_inflight (st p)"
proof (cases r)
  case (Inl e)
  then have "st' p = (st p)\<lparr>b_circuit := b_circuit (st' p)\<rparr>" for p
    using selectBackend_cases [OF assms(1), of now per ex key st bal] assms(2) by auto
  from arg_cong [OF this, of backend_Identity] arg_cong [OF this, of b_inflight] Inl show ?thesis
    by (simp add: backend_Identity_def)
next
  case (Inr att)
  then obtain b where b: "b \<in> set bs" "at_Backend att = Some b" "candidate now st per ex b"
    and st': "\<And>p. st' p = (st p)\<lparr>b_circuit := b_circuit (st' p),
        b_inflight := b_inflight (st p) + (if p = b then 1 else 0)\<rparr>"
    using selectBackend_cases [OF assms(1), of now per ex key st bal] assms(2) by auto
  from b arg_cong [OF st', of backend_Identity] arg_cong [OF st', of b_inflight] Inr show ?thesis
    by (auto simp: backend_Identity_def candidate_def)
qed

lemma selectBackend_returns:
  "distinct bs \<Longrightarrow> \<exists>r st' bal'. selectBackend now bs per ex key (st, bal) = Some (r, st', bal')"
  using selectBackend_cases [of bs now per ex key st bal] by blast

text \<open>The result of a selection, in terms of the driver's view.\<close>

definition pick_view :: "BackendIdentity set \<Rightarrow> dstate \<Rightarrow> (select_error + Attempt) \<Rightarrow> dstate \<Rightarrow> bool" where
  "pick_view ex s r t \<longleftrightarrow>
     (case r of
        Inr att \<Rightarrow> \<exists>b \<in> set (candidates s). at_Backend att = Some b \<and>
          backend_Identity (cells (snd s) b) \<notin> ex \<and> charged b s t
      | Inl e \<Rightarrow> same_view s t)"

lemma pool_pickKeyed_view:
  assumes "distinct (p_backends (pool w))"
  shows "\<exists>r w'. pool_pickKeyed now key ex w = Some (r, w') \<and> p_backends (pool w') = p_backends (pool w) \<and>
           pick_view ex (None, w) r (None, w')"
proof -
  let ?per = "MaxActivePerBackend (policy (p_admission (pool w)))"
  obtain r st bal where sel:
    "selectBackend now (p_backends (pool w)) ?per ex key (cells w, p_balancer (pool w)) = Some (r, st, bal)"
    using selectBackend_returns [OF assms] by blast
  from selectBackend_view [OF assms sel] sel show ?thesis
    by (cases r) (auto simp: pool_pickKeyed_def pick_view_def same_view_def charged_def candidates_def)
qed

lemma PickKeyed_view:
  assumes "distinct (candidates s)"
  shows "\<exists>r t. PickKeyed now key ex s = Some (r, t) \<and> pick_view ex s r t"
proof -
  obtain c w where s: "s = (c, w)" by fastforce
  show ?thesis
  proof (cases c)
    case None
    with pool_pickKeyed_view [of w now key ex] assms s show ?thesis
      by (auto simp: PickKeyed_def candidates_def)
  next
    case (Some sn)
    show ?thesis
    proof (cases "sn_dynamic sn")
      case True
      then have "distinct (p_backends (pool w))" using assms s Some by (simp add: candidates_def snap_Backends_def)
      from pool_pickKeyed_view [OF this, of now key ex] obtain r w' where
        p: "pool_pickKeyed now key ex w = Some (r, w')" "p_backends (pool w') = p_backends (pool w)"
        "pick_view ex (None, w) r (None, w')" by blast
      then have "pick_view ex (Some sn, w) r (Some sn, w')"
        using True by (cases r) (auto simp: pick_view_def same_view_def charged_def candidates_def snap_Backends_def)
      then show ?thesis using p True s Some by (auto simp: PickKeyed_def snap_pickKeyed_def)
    next
      case False
      then have d: "distinct (sn_backends sn)" using assms s Some by (simp add: candidates_def snap_Backends_def)
      let ?per = "MaxActivePerBackend (policy (p_admission (pool w)))"
      obtain r st bal where sel:
        "selectBackend now (sn_backends sn) ?per ex key (cells w, sn_balancer sn) = Some (r, st, bal)"
        using selectBackend_returns [OF d] by blast
      from selectBackend_view [OF d sel] sel False s Some show ?thesis
        by (cases r) (auto simp: PickKeyed_def snap_pickKeyed_def pick_view_def same_view_def charged_def
            candidates_def snap_Backends_def)
    qed
  qed
qed

subsection \<open>The driver returns, and accounts for every backend it hands out\<close>

text \<open>The adapter neither changes the set of candidates nor keeps or returns in-flight slots
  of its own.\<close>

definition adapter_ok :: "Env \<Rightarrow> bool" where
  "adapter_ok env \<longleftrightarrow> (\<forall>att n s. same_view s (snd (fn env att n s)))"

definition identities :: "dstate \<Rightarrow> BackendIdentity set" where
  "identities s = (\<lambda>b. backend_Identity (cells (snd s) b)) ` set (candidates s)"

definition trail_ids :: "dstate \<Rightarrow> ptr list \<Rightarrow> BackendIdentity list" where
  "trail_ids s trail = map (\<lambda>b. backend_Identity (cells (snd s) b)) trail"

lemma same_view_ids:
  assumes "same_view s t"
  shows "identities t = identities s" "trail_ids t = trail_ids s" "candidates t = candidates s"
  using assms by (auto simp: same_view_def identities_def trail_ids_def fun_eq_iff)

lemma charged_ids:
  assumes "charged b s t"
  shows "trail_ids t = trail_ids s" "candidates t = candidates s"
  using assms by (auto simp: charged_def trail_ids_def fun_eq_iff)

text \<open>What holds of every outcome, relative to the state in which the driver was called.\<close>

definition slots_settled :: "Env \<Rightarrow> dstate \<Rightarrow> Outcome \<Rightarrow> bool" where
  "slots_settled env s0 out \<longleftrightarrow>
     (if o_reason out = StopSuccess
      then \<exists>att s1 res s2 b trail.
             o_trail out = b # trail \<and> at_Backend att = Some b \<and> charged b s0 s1 \<and>
             fn env att (int (length (o_trail out))) s1 = (res, s2) \<and> r_Err res = None \<and>
             (if r_Retain res then charged b s0 (o_state out) else same_view s0 (o_state out))
      else same_view s0 (o_state out))"

definition outcome_ok :: "Env \<Rightarrow> RetryRequest \<Rightarrow> dstate \<Rightarrow> Outcome \<Rightarrow> bool" where
  "outcome_ok env rr s0 out \<longleftrightarrow>
     distinct (trail_ids s0 (o_trail out)) \<and> set (o_trail out) \<subseteq> set (candidates s0) \<and>
     (MaxAttempts rr > 0 \<longrightarrow> int (length (o_trail out)) \<le> MaxAttempts rr) \<and>
     (o_reason out = StopSuccess \<longleftrightarrow> o_err out = None) \<and> o_reason out \<noteq> StopNone \<and>
     slots_settled env s0 out"

text \<open>What holds at the head of the loop.\<close>

definition loop_ok :: "RetryRequest \<Rightarrow> dstate \<Rightarrow> int \<Rightarrow> BackendIdentity set \<Rightarrow> ptr list \<Rightarrow> dstate \<Rightarrow> bool" where
  "loop_ok rr s0 n tried trail s \<longleftrightarrow>
     same_view s0 s \<and> n = int (length trail) + 1 \<and> tried = set (trail_ids s0 trail) \<and>
     distinct (trail_ids s0 trail) \<and> set trail \<subseteq> set (candidates s0) \<and>
     (MaxAttempts rr > 0 \<longrightarrow> n \<le> MaxAttempts rr)"

lemma charged_pre: "same_view s0 s \<Longrightarrow> charged b s t \<Longrightarrow> charged b s0 t"
  by (simp add: charged_def same_view_def)

text \<open>One round after a successful selection: the new trail is still free of repetitions, and
  if the round ends in another round, fewer identities are left.\<close>

lemma loop_ok_next:
  assumes "loop_ok rr s0 n tried trail s" and "b \<in> set (candidates s)"
    and "backend_Identity (cells (snd s) b) \<notin> tried" and "same_view s0 v"
  shows "distinct (trail_ids s0 (b # trail))" "set (b # trail) \<subseteq> set (candidates s0)"
    and "insert (backend_Identity (cells (snd v) b)) tried = set (trail_ids s0 (b # trail))"
    and "card (identities s0 - insert (backend_Identity (cells (snd v) b)) tried) < card (identities s0 - tried)"
proof -
  note L = assms(1) [unfolded loop_ok_def]
  have view: "same_view s0 s" using L by blast
  have ids: "backend_Identity (cells (snd s) b) = backend_Identity (cells (snd s0) b)"
    "backend_Identity (cells (snd v) b) = backend_Identity (cells (snd s0) b)"
    using view assms(4) by (simp_all add: same_view_def)
  have b: "b \<in> set (candidates s0)" using assms(2) same_view_ids(3) [OF view] by simp
  show "distinct (trail_ids s0 (b # trail))" "set (b # trail) \<subseteq> set (candidates s0)"
    "insert (backend_Identity (cells (snd v) b)) tried = set (trail_ids s0 (b # trail))"
    using L assms(3) ids b by (auto simp: trail_ids_def)
  have "backend_Identity (cells (snd v) b) \<in> identities s0 - tried"
    using b assms(3) ids by (auto simp: identities_def)
  moreover have "finite (identities s0 - tried)" by (simp add: identities_def)
  ultimately show "card (identities s0 - insert (backend_Identity (cells (snd v) b)) tried)
      < card (identities s0 - tried)"
    by (intro psubset_card_mono) auto
qed

lemma do_loop_ok:
  assumes "adapter_ok env" and "distinct (candidates s0)" and "loop_ok rr s0 n tried trail s"
  shows "\<exists>out. do_loop env rr key n tried lastErr trail s = Some out \<and> outcome_ok env rr s0 out"
  using assms(3)
proof (induction "card (identities s0 - tried)" arbitrary: n tried trail lastErr s rule: less_induct)
  case less
  note L = less.prems [unfolded loop_ok_def]
  have s0s: "same_view s0 s" using L by blast
  have "distinct (candidates s)" using assms(2) same_view_ids(3) [OF s0s] by simp
  then obtain r t where pick: "PickKeyed (clock_pick env n) key tried s = Some (r, t)"
    and view: "pick_view tried s r t" using PickKeyed_view by blast
  show ?case
  proof (cases r)
    case (Inl e)
    then have "same_view s t" using view by (simp add: pick_view_def)
    then have "same_view s0 t" by (rule same_view_trans [OF s0s])
    with pick Inl L show ?thesis by (subst do_loop.simps) (auto simp: outcome_ok_def slots_settled_def)
  next
    case (Inr att)
    then obtain b where b: "b \<in> set (candidates s)" "at_Backend att = Some b"
      "backend_Identity (cells (snd s) b) \<notin> tried" and "charged b s t"
      using view by (auto simp: pick_view_def)
    define t1 where "t1 = (if n = 1
      then on_world (\<lambda>w. set_budget (Primary (clock_pick env n) (p_budget (pool w))) w) t else t)"
    obtain res u where fn: "fn env att n t1 = (res, u)" by (meson surj_pair)
    have "same_view t t1" by (simp add: t1_def set_budget_world_view)
    moreover have "same_view t1 u" using assms(1) fn unfolding adapter_ok_def by (metis snd_conv)
    ultimately have ch: "charged b s0 u" and ch1: "charged b s0 t1"
      using charged_pre [OF s0s] charged_same \<open>charged b s t\<close> by blast+
    have rel: "same_view s0 (do_release att u)" by (rule do_release_charged [OF ch b(2)])
    note N = loop_ok_next [OF less.prems b(1,3)]
    have len: "MaxAttempts rr > 0 \<longrightarrow> int (length (b # trail)) \<le> MaxAttempts rr" using L by auto
    show ?thesis
    proof (cases "r_Err res")
      case None
      define out where "out = \<lparr>o_reason = StopSuccess, o_err = None,
        o_state = (if r_Retain res then u else do_release att u), o_trail = b # trail\<rparr>"
      have "do_loop env rr key n tried lastErr trail s = Some out"
        using pick Inr None fn b(2) by (subst do_loop.simps) (simp add: out_def t1_def)
      moreover have "slots_settled env s0 out"
      proof -
        have n: "n = int (length (o_trail out))" using L by (simp add: out_def)
        have "if r_Retain res then charged b s0 (o_state out) else same_view s0 (o_state out)"
          using rel ch by (simp add: out_def)
        moreover have "o_trail out = b # trail" "o_reason out = StopSuccess"
          by (simp_all add: out_def)
        moreover have "fn env att (int (length (o_trail out))) t1 = (res, u)" using fn n by simp
        ultimately show ?thesis
          unfolding slots_settled_def using ch1 b(2) None by (metis (full_types))
      qed
      then have "outcome_ok env rr s0 out"
        using N(1,2) [OF rel] len by (simp add: outcome_ok_def out_def)
      ultimately show ?thesis by blast
    next
      case (Some e)
      let ?v = "do_release att u"
      let ?tried = "insert (backend_Identity (cells (snd ?v) b)) tried"
      obtain reason x where af: "after_failure env rr n res ?tried ?v = (reason, x)" by (meson surj_pair)
      have x: "same_view s0 x" using same_view_trans [OF rel after_failure_view [OF af]] .
      have step: "do_loop env rr key n tried lastErr trail s =
          (if reason \<noteq> StopNone
           then Some \<lparr>o_reason = reason, o_err = Some e, o_state = x, o_trail = b # trail\<rparr>
           else do_loop env rr key (n + 1) ?tried (Some e) (b # trail) x)"
        using pick Inr Some fn b(2) af by (subst do_loop.simps) (simp add: t1_def)
      show ?thesis
      proof (cases "reason = StopNone")
        case True
        have "loop_ok rr s0 (n + 1) ?tried (b # trail) x"
          unfolding loop_ok_def
        proof (intro conjI)
          show "n + 1 = int (length (b # trail)) + 1" using L by simp
          show "0 < MaxAttempts rr \<longrightarrow> n + 1 \<le> MaxAttempts rr"
            using after_failure_continues(1) af True by fastforce
        qed (use x N(1,2,3) [OF rel] in blast)+
        from less.hyps [OF N(4) [OF rel] this] step True show ?thesis by simp
      next
        case False
        with step after_failure_reason [OF af] Some N(1,2) [OF rel] len x show ?thesis
          by (simp add: outcome_ok_def slots_settled_def)
      qed
    qed
  qed
qed

text \<open>C10: The retry driver always returns, with a definite reason, and succeeds exactly when it
  reports no error. It never tries the same backend identity twice and never exceeds the
  attempt cap, and every backend it hands out is a candidate. When it does not succeed, it has
  returned every in-flight slot it took. When it succeeds, the backend handed out last was
  given to the adapter with one slot charged to it, the adapter answered without an error, and
  that slot is still charged if the adapter asked to retain it and has been returned if not;
  every other slot has been returned. This holds for every adapter that leaves the candidate set
  and the in-flight counts alone.\<close>

theorem Do_returns_and_accounts:
  assumes "adapter_ok env" and "distinct (candidates s)"
  shows "\<exists>out. Do env rr key s = Some out \<and>
     distinct (trail_ids s (o_trail out)) \<and> set (o_trail out) \<subseteq> set (candidates s) \<and>
     (MaxAttempts rr > 0 \<longrightarrow> int (length (o_trail out)) \<le> MaxAttempts rr) \<and>
     (o_reason out = StopSuccess \<longleftrightarrow> o_err out = None) \<and> o_reason out \<noteq> StopNone \<and>
     (if o_reason out = StopSuccess
      then \<exists>att s1 res s2 b trail.
             o_trail out = b # trail \<and> at_Backend att = Some b \<and> charged b s s1 \<and>
             fn env att (int (length (o_trail out))) s1 = (res, s2) \<and> r_Err res = None \<and>
             (if r_Retain res then charged b s (o_state out) else same_view s (o_state out))
      else same_view s (o_state out))"
proof -
  have "loop_ok rr s 1 {} [] s" by (auto simp: loop_ok_def trail_ids_def)
  from do_loop_ok [OF assms this] show ?thesis
    unfolding Do_def outcome_ok_def slots_settled_def by blast
qed

subsection \<open>Witness\<close>

definition failing_env :: Env where
  "failing_env =
     \<lparr>fn = (\<lambda>att n s. (\<lparr>r_Err = Some (Sentinel ''connection refused''), r_ResponseStarted = False,
                        r_Terminal = False, r_Retain = False\<rparr>, s)),
      clock_pick = (\<lambda>_. 0), clock_done = (\<lambda>_. 0), start_time = 0, ctx_deadline = None,
      ctx_err = (\<lambda>_. False), rand_src = (\<lambda>_ _. 0), timer_first = (\<lambda>_. True)\<rparr>"

definition plain_retry :: RetryRequest where
  "plain_retry = \<lparr>MaxAttempts = 5, Deadline = 0, BackoffInitial = 0, BackoffMax = 0, Replayable = True\<rparr>"

theorem Do_returns_and_accounts_witness:
  "\<exists>out. Do failing_env plain_retry no_key (None, sample_world) = Some out \<and> length (o_trail out) \<le> 5"
proof -
  have "adapter_ok failing_env" by (simp add: adapter_ok_def failing_env_def)
  moreover have "distinct (candidates (None, sample_world))"
    by (simp add: candidates_def sample_world_pool)
  ultimately show ?thesis
    using Do_returns_and_accounts [of failing_env "(None, sample_world)" plain_retry no_key]
    by (auto simp: plain_retry_def)
qed

end
