(* ===== verification/Balancer_Props.thy ===== *)
theory Balancer_Props
  imports Balancer
begin

text \<open>
  What the strategies promise: exact shares for the smooth weighted round robin, the least
  loaded backend for \<^verbatim>\<open>least_conn\<close>, and minimal movement of keys for
  \<^verbatim>\<open>consistent_hash\<close>.
\<close>

subsection \<open>Smooth weighted round robin\<close>

abbreviation wt :: "store \<Rightarrow> ptr \<Rightarrow> int" where
  "wt st p \<equiv> b_weight (st p)"

definition bump :: "store \<Rightarrow> (ptr \<Rightarrow> int) \<Rightarrow> ptr list \<Rightarrow> ptr \<Rightarrow> int" where
  "bump st w a p = (if p \<in> set a then w p + wt st p else w p)"

lemma wrr_loop_result:
  assumes "distinct a" and "\<forall>q. best = Some q \<longrightarrow> q \<notin> set a"
    and "wrr_loop st w t best a = (w', t', r)"
  shows "w' = bump st w a \<and> t' = t + (\<Sum>p\<leftarrow>a. wt st p) \<and>
         (\<forall>q \<in> set a \<union> set_option best. \<forall>p. r = Some p \<longrightarrow> w' q \<le> w' p)"
  using assms
proof (induction a arbitrary: w t best)
  case Nil
  then show ?case by (auto simp: bump_def fun_eq_iff)
next
  case (Cons b bs)
  let ?cw = "w b + wt st b"
  let ?w = "w(b := ?cw)"
  let ?best = "case best of None \<Rightarrow> Some b | Some p \<Rightarrow> if ?cw > ?w p then Some b else best"
  have fresh: "\<forall>q. ?best = Some q \<longrightarrow> q \<notin> set bs"
    using Cons.prems(1,2) by (auto split: option.splits)
  have run: "wrr_loop st ?w (t + wt st b) ?best bs = (w', t', r)"
    using Cons.prems(3) by (simp add: Let_def)
  have d: "distinct bs" using Cons.prems(1) by simp
  have IH: "w' = bump st ?w bs" "t' = t + wt st b + (\<Sum>p\<leftarrow>bs. wt st p)"
    "\<forall>q \<in> set bs \<union> set_option ?best. \<forall>p. r = Some p \<longrightarrow> w' q \<le> w' p"
    using Cons.IH [OF d fresh run] by blast+
  have stay: "w' q = ?w q" if "q \<notin> set bs" for q using that by (simp add: IH(1) bump_def)
  have old: "w' q \<le> w' p" if "q \<in> {b} \<union> set_option best" and r: "r = Some p" for q p
  proof -
    have "?best \<noteq> None" by (simp split: option.splits)
    then obtain m where m: "?best = Some m" by blast
    have "w' m \<le> w' p" using IH(3) m r by simp
    moreover have "?w q \<le> ?w m"
      using that(1) m Cons.prems(2) by (auto split: option.splits if_splits)
    moreover have "q \<notin> set bs" "m \<notin> set bs"
      using that(1) Cons.prems(1,2) fresh m by auto
    ultimately show ?thesis using stay by simp
  qed
  have "w' = bump st w (b # bs)" using IH(1) Cons.prems(1) by (auto simp: bump_def fun_eq_iff)
  moreover have "\<forall>q \<in> set (b # bs) \<union> set_option best. \<forall>p. r = Some p \<longrightarrow> w' q \<le> w' p"
    using old IH(3) by auto
  ultimately show ?case using IH(2) by simp
qed

text \<open>One pick, described by its effect on the accumulators.\<close>

lemma wrr_pick_effect:
  assumes "distinct a" and "a \<noteq> []" and "wrr_pick st w a = (r, w')"
  shows "\<exists>p \<in> set a. r = Some p \<and> (\<forall>q \<in> set a. w q + wt st q \<le> w p + wt st p) \<and>
           (\<forall>q \<in> set a. w' q = w q + wt st q - (if q = p then \<Sum>x\<leftarrow>a. wt st x else 0))"
proof -
  obtain w1 t1 r1 where loop: "wrr_loop st w 0 None a = (w1, t1, r1)" using prod_cases3 by blast
  obtain p where r1: "r1 = Some p" using wrr_loop_Some [of None a st w 0] assms(2) loop by auto
  have p: "p \<in> set a" using wrr_loop_member [of st w 0 None a] loop r1 by auto
  have res: "w1 = bump st w a" "t1 = (\<Sum>x\<leftarrow>a. wt st x)" "\<forall>q \<in> set a. w1 q \<le> w1 p"
    using wrr_loop_result [OF assms(1) _ loop] r1 by auto
  have "r = Some p" "w' = w1(p := w1 p - t1)"
    using assms(2,3) loop r1 by (auto simp: wrr_pick_def)
  with p res show ?thesis by (intro bexI [of _ p]) (auto simp: bump_def)
qed

fun wrr_picks :: "store \<Rightarrow> ptr list \<Rightarrow> nat \<Rightarrow> (ptr \<Rightarrow> int) \<Rightarrow> ptr option list \<times> (ptr \<Rightarrow> int)" where
  "wrr_picks st a 0 w = ([], w)"
| "wrr_picks st a (Suc k) w =
     (let (r, w) = wrr_pick st w a; (rs, w) = wrr_picks st a k w in (r # rs, w))"

definition wrr_balanced :: "store \<Rightarrow> ptr list \<Rightarrow> (ptr \<Rightarrow> int) \<Rightarrow> bool" where
  "wrr_balanced st a w \<longleftrightarrow>
     (\<Sum>p\<leftarrow>a. w p) = 0 \<and> (\<forall>p \<in> set a. - (\<Sum>x\<leftarrow>a. wt st x) < w p)"

lemma wrr_pick_balanced:
  assumes "distinct a" and "a \<noteq> []" and "\<forall>p \<in> set a. 1 \<le> wt st p"
    and "wrr_balanced st a w" and "wrr_pick st w a = (r, w')"
  shows "wrr_balanced st a w'"
proof -
  let ?T = "\<Sum>x\<leftarrow>a. wt st x"
  obtain p where p: "p \<in> set a" and max: "\<forall>q \<in> set a. w q + wt st q \<le> w p + wt st p"
    and w': "\<forall>q \<in> set a. w' q = w q + wt st q - (if q = p then ?T else 0)"
    using wrr_pick_effect [OF assms(1,2,5)] by blast
  have sums: "(\<Sum>q\<leftarrow>a. f q) = (\<Sum>q\<in>set a. f q)" for f :: "ptr \<Rightarrow> int"
    using assms(1) by (simp add: sum_list_distinct_conv_sum_set)
  have "(\<Sum>q\<in>set a. w q + wt st q) = ?T" using assms(4) by (simp add: wrr_balanced_def sums sum.distrib)
  moreover have "0 < ?T"
    using assms(2,3) unfolding sums by (intro sum_pos) (auto simp: int_one_le_iff_zero_less)
  moreover have "(\<Sum>q\<in>set a. w q + wt st q) \<le> 0" if "w p + wt st p \<le> 0"
    using that max by (intro sum_nonpos) auto
  ultimately have "0 < w p + wt st p" by linarith
  then have "\<forall>q \<in> set a. - ?T < w' q"
    using w' assms(3,4) by (auto simp: wrr_balanced_def) (smt (verit, best))+
  moreover have "(\<Sum>q\<in>set a. w' q) = (\<Sum>q\<in>set a. w q + wt st q) - (\<Sum>q\<in>set a. if q = p then ?T else 0)"
    unfolding sum_subtractf [symmetric] using w' by (intro sum.cong) auto
  then have "(\<Sum>q\<leftarrow>a. w' q) = 0"
    using p \<open>(\<Sum>q\<in>set a. w q + wt st q) = ?T\<close> by (simp add: sums)
  ultimately show ?thesis by (simp add: wrr_balanced_def)
qed

lemma wrr_picks_account:
  assumes "distinct a" and "a \<noteq> []" and "\<forall>p \<in> set a. 1 \<le> wt st p"
    and "wrr_balanced st a w" and "wrr_picks st a k w = (rs, w')"
  shows "wrr_balanced st a w' \<and>
         (\<forall>p \<in> set a. w' p = w p + int k * wt st p
            - (\<Sum>x\<leftarrow>a. wt st x) * int (count_list rs (Some p)))"
  using assms(4,5)
proof (induction k arbitrary: w rs w')
  case (Suc k)
  obtain r w1 where r: "wrr_pick st w a = (r, w1)" by fastforce
  obtain rs1 w2 where rs1: "wrr_picks st a k w1 = (rs1, w2)" by fastforce
  have res: "rs = r # rs1" "w' = w2" using Suc.prems(2) r rs1 by auto
  have "wrr_balanced st a w1" by (rule wrr_pick_balanced [OF assms(1-3) Suc.prems(1) r])
  note IH = Suc.IH [OF this rs1]
  obtain m where m: "r = Some m"
    and w1: "\<forall>q \<in> set a. w1 q = w q + wt st q - (if q = m then \<Sum>x\<leftarrow>a. wt st x else 0)"
    using wrr_pick_effect [OF assms(1,2) r] by blast
  have "w2 p = w p + int (Suc k) * wt st p - (\<Sum>x\<leftarrow>a. wt st x) * int (count_list rs (Some p))"
    if "p \<in> set a" for p
  proof -
    have "w2 p = w1 p + int k * wt st p - (\<Sum>x\<leftarrow>a. wt st x) * int (count_list rs1 (Some p))"
      using IH that by blast
    then show ?thesis
      using bspec [OF w1 that] unfolding res(1) m by (simp add: algebra_simps split: if_splits)
  qed
  with IH res(2) show ?case by blast
qed auto

text \<open>C12: The smooth weighted round robin gives every backend exactly its share: from a cleared
  accumulator, over as many picks as the weights add up to, each backend is picked exactly
  weight times and the accumulator is back at zero, so the cycle repeats; and at every moment
  in between no backend is a full pick ahead of its proportional share.\<close>

theorem smooth_wrr_exact_shares:
  assumes "distinct a" and "a \<noteq> []" and "\<forall>p \<in> set a. 1 \<le> wt st p"
    and "T = (\<Sum>x\<leftarrow>a. wt st x)" and "wrr_picks st a k (\<lambda>_. 0) = (rs, w)"
  shows "(\<forall>p \<in> set a. T * (int (count_list rs (Some p)) - 1) < int k * wt st p) \<and>
         (int k = T \<longrightarrow> (\<forall>p \<in> set a. int (count_list rs (Some p)) = wt st p \<and> w p = 0))"
proof -
  have T: "0 < T"
    using assms(1-4) by (auto simp: sum_list_distinct_conv_sum_set int_one_le_iff_zero_less intro!: sum_pos)
  then have "wrr_balanced st a (\<lambda>_. 0)" using assms(4) by (simp add: wrr_balanced_def)
  from wrr_picks_account [OF assms(1-3) this assms(5)]
  have bal: "wrr_balanced st a w"
    and w: "\<And>p. p \<in> set a \<Longrightarrow> w p = int k * wt st p - T * int (count_list rs (Some p))"
    using assms(4) by auto
  have lower: "\<And>p. p \<in> set a \<Longrightarrow> - T < w p" using bal assms(4) by (simp add: wrr_balanced_def)
  have "int (count_list rs (Some p)) = wt st p \<and> w p = 0" if k: "int k = T" and p: "p \<in> set a" for p
  proof -
    have mult: "w q = T * (wt st q - int (count_list rs (Some q)))" if "q \<in> set a" for q
      using w [OF that] k by (simp add: algebra_simps)
    have nonneg: "0 \<le> w q" if "q \<in> set a" for q
    proof -
      have "T * (- 1) < T * (wt st q - int (count_list rs (Some q)))"
        using lower [OF that] mult [OF that] by simp
      then have "- 1 < wt st q - int (count_list rs (Some q))"
        using T by (simp only: mult_less_cancel_left_pos)
      then show ?thesis using mult [OF that] T by simp
    qed
    have "(\<Sum>q\<in>set a. w q) = 0"
      using bal assms(1) by (simp add: wrr_balanced_def sum_list_distinct_conv_sum_set)
    then have "w p = 0" using nonneg p by (simp add: sum_nonneg_eq_0_iff)
    then show ?thesis using mult [OF p] T by simp
  qed
  moreover have "T * (int (count_list rs (Some p)) - 1) < int k * wt st p" if "p \<in> set a" for p
    using lower [OF that] w [OF that] by (simp add: algebra_simps)
  ultimately show ?thesis by blast
qed

subsection \<open>Least connections\<close>

lemma lc_loop_min:
  assumes "lc_loop st best mn a = Some p" and "\<forall>q. best = Some q \<longrightarrow> mn = b_inflight (st q)"
  shows "\<forall>x \<in> set a \<union> set_option best. b_inflight (st p) \<le> b_inflight (st x)"
  using assms
proof (induction a arbitrary: best mn)
  case (Cons b bs)
  show ?case
  proof (cases "best = None \<or> b_inflight (st b) < mn")
    case True
    then have "lc_loop st (Some b) (b_inflight (st b)) bs = Some p" using Cons.prems(1) by auto
    from Cons.IH [OF this] True Cons.prems(2) show ?thesis by auto
  next
    case False
    then have "lc_loop st best mn bs = Some p" using Cons.prems(1) by auto
    from Cons.IH [OF this Cons.prems(2)] False Cons.prems(2) show ?thesis by auto
  qed
qed auto

subsection \<open>Consistent hashing\<close>

abbreviation cand :: "store \<Rightarrow> ptr \<Rightarrow> Candidate" where
  "cand st p \<equiv> affinityCandidate (st p)"

lemma pickKey_cand:
  "pickKey st (x # xs) key = Some p \<Longrightarrow> cand st p = best_by (Better key) (cand st x) (map (cand st) xs)"
  using best_by_map [of "cand st" "Better key" x xs] by (simp add: pickKey_def)

text \<open>C13: Consistent hashing moves no key without need: whatever the order of the pool, if
  backends leave but the one that holds a key stays, the key stays on it; hence a backend that
  joins can only take keys for itself. The result is the same backend whenever the identities
  in the pool are distinct, and otherwise one with the same identity and weight.\<close>

theorem consistent_hash_minimal_disruption:
  assumes "\<forall>p \<in> set a. cand_ok (cand st p)" and "set b \<subseteq> set a"
    and "pickKey st a key = Some p" and "p \<in> set b"
  shows "\<exists>q \<in> set b. pickKey st b key = Some q \<and> cand st q = cand st p \<and>
           (inj_on (\<lambda>x. b_affinityID (st x)) (set a) \<longrightarrow> q = p)"
proof -
  obtain x xs where a: "a = x # xs" using assms(3) by (cases a) (auto simp: pickKey_def)
  obtain y ys where b: "b = y # ys" using assms(4) by (cases b) auto
  obtain q where q: "pickKey st b key = Some q" "q \<in> set b"
    using keyed_picker.pick_member [of b st key] b by auto
  have p: "cand st p = best_by (Better key) (cand st x) (map (cand st) xs)"
    using pickKey_cand assms(3) unfolding a .
  have "cand st q = best_by (Better key) (cand st y) (map (cand st) ys)"
    using pickKey_cand q(1) unfolding b .
  also have "\<dots> = best_by (Better key) (cand st x) (map (cand st) xs)"
  proof (rule rendezvous_order.best_by_subset)
    show "cand_ok (cand st x)" "\<forall>c \<in> set (map (cand st) xs). cand_ok c" using assms(1) a by auto
    show "insert (cand st y) (set (map (cand st) ys)) \<subseteq> insert (cand st x) (set (map (cand st) xs))"
      using assms(2) a b by auto
    show "best_by (Better key) (cand st x) (map (cand st) xs) \<in> insert (cand st y) (set (map (cand st) ys))"
      using assms(4) b unfolding p [symmetric] by auto
  qed
  finally have eq: "cand st q = cand st p" using p by simp
  then have "b_affinityID (st q) = b_affinityID (st p)" by (simp add: affinityCandidate_def)
  with q eq assms(2,4) show ?thesis by (auto dest: inj_onD)
qed

subsection \<open>Witnesses\<close>

definition sample_store :: store where
  "sample_store p =
     newBackendFor (\<lambda>_. None) (if p = 0 then ''a:1'' else ''b:1'') (if p = 0 then 2 else 1) '''' ''http''
       \<lparr>cp_maxFails = 3, cp_failTimeout = 10 * second, cp_halfOpenProbes = 1\<rparr>"

lemma b_weight_new [simp]: "b_weight (newBackendFor c a w i s cp) = max 1 w"
  by (simp add: newBackendFor_def Let_def split: prod.splits)

theorem smooth_wrr_exact_shares_witness:
  "int (count_list (fst (wrr_picks sample_store [0, 1] 3 (\<lambda>_. 0))) (Some 0)) = 2"
proof -
  obtain rs w where e: "wrr_picks sample_store [0, 1] 3 (\<lambda>_. 0) = (rs, w)" by (meson surj_pair)
  have "wt sample_store 0 = 2" "wt sample_store 1 = 1" by (simp_all add: sample_store_def)
  then have "int (count_list rs (Some 0)) = 2"
    using smooth_wrr_exact_shares [OF _ _ _ _ e, of 3] by simp
  then show ?thesis unfolding e by simp
qed

theorem consistent_hash_minimal_disruption_witness:
  "\<exists>p. pickKey sample_store [0, 1] 7 = Some p \<and> (\<exists>q. pickKey sample_store [p] 7 = Some q)"
proof -
  obtain p where p: "pickKey sample_store [0, 1] 7 = Some p" "p \<in> set [0, 1]"
    using keyed_picker.pick_member [of "[0, 1]" sample_store 7] by auto
  with consistent_hash_minimal_disruption [of "[0, 1]" sample_store "[p]" 7 p] show ?thesis
    by (auto simp: newBackendFor_cand_ok sample_store_def)
qed

end
