(* ===== verification/Paths.thy ===== *)
theory Paths
  imports Gostrings
begin

text \<open>
  \<^verbatim>\<open>src/internal/router/canonical.go\<close>: the canonical form of a request path, and the
  trigger the code tests first to leave clean paths alone.
\<close>

abbreviation slash :: char where
  "slash \<equiv> CHR ''/''"

fun canon_loop :: "string list \<Rightarrow> bool \<Rightarrow> string list \<Rightarrow> string list \<times> bool" where
  "canon_loop out trailing [] = (out, trailing)"
| "canon_loop out trailing (s # segs) =
     (let last = (segs = []) in
      if s = [] \<or> s = ''.'' then canon_loop out last segs
      else if s = ''..'' then canon_loop (if out \<noteq> [] then butlast out else out) last segs
      else canon_loop (out @ [s]) False segs)"

definition needsCanonical :: "string \<Rightarrow> bool" where
  "needsCanonical p \<longleftrightarrow>
     Contains p ''//'' \<or> Contains p ''/./'' \<or> Contains p ''/../'' \<or>
     HasSuffix p ''/.'' \<or> HasSuffix p ''/..''"

text \<open>The rebuilt path, before the shortcut.\<close>

definition rebuild :: "string \<Rightarrow> string" where
  "rebuild p =
     (let (out, trailing) = canon_loop [] False (Split (drop 1 p) slash);
          res = slash # Join out slash in
      if trailing \<and> out \<noteq> [] then res @ [slash] else res)"

definition canonicalPath :: "string \<Rightarrow> string" where
  "canonicalPath p =
     (if p = [] \<or> p ! 0 \<noteq> slash \<or> \<not> needsCanonical p then p else rebuild p)"

text \<open>\<^verbatim>\<open>canonicalizeRequest\<close> on the decoded and the raw path of a URL.\<close>

definition canonicalizeRequest :: "string \<times> string \<Rightarrow> string \<times> string" where
  "canonicalizeRequest u =
     (case u of (path, raw) \<Rightarrow>
        let c = canonicalPath path in if c \<noteq> path then (c, []) else (path, raw))"

subsection \<open>Dot segments and empty segments\<close>

definition plain :: "string \<Rightarrow> bool" where
  "plain s \<longleftrightarrow> s \<noteq> [] \<and> s \<noteq> ''.'' \<and> s \<noteq> ''..'' \<and> slash \<notin> set s"

lemma canon_loop_plain:
  assumes "\<forall>s \<in> set segs. slash \<notin> set s" and "\<forall>s \<in> set out. plain s"
    and "canon_loop out tr segs = (out', tr')"
  shows "\<forall>s \<in> set out'. plain s"
  using assms
proof (induction segs arbitrary: out tr)
  case (Cons s segs)
  have b: "\<forall>x \<in> set (butlast out). plain x" using Cons.prems(2) by (auto dest: in_set_butlastD)
  consider (skip) "s = [] \<or> s = ''.''" | (up) "s = ''..''" | (keep) "plain s"
    using Cons.prems(1) by (auto simp: plain_def)
  then show ?case
  proof cases
    case skip
    with Cons.prems Cons.IH [of out "segs = []"] show ?thesis by auto
  next
    case up
    with Cons.prems b Cons.IH [of "if out \<noteq> [] then butlast out else out" "segs = []"] show ?thesis
      by (auto split: if_splits)
  next
    case keep
    then have "canon_loop (out @ [s]) False segs = (out', tr')"
      using Cons.prems(3) by (simp add: plain_def)
    from Cons.IH [OF _ _ this] Cons.prems keep show ?thesis by auto
  qed
qed simp

text \<open>A path as the list of its segments; the shape of the code's results.\<close>

definition path_of :: "string list \<Rightarrow> string" where
  "path_of segs = slash # Join segs slash"

lemma path_of_Cons: "segs \<noteq> [] \<Longrightarrow> path_of (s # segs) = slash # s @ path_of segs"
  by (simp add: path_of_def Join_Cons)

lemma Contains_skip: "c \<notin> set u \<Longrightarrow> Contains (u @ v) (c # q) = Contains v (c # q)"
  by (induction u) (auto simp: HasPrefix_Cons)

lemma Contains_none: "c \<notin> set u \<Longrightarrow> \<not> Contains u (c # q)"
  by (induction u) (auto simp: HasPrefix_Cons)

lemma between_slashes:
  assumes "slash \<notin> set s" and "slash \<notin> set m"
  shows "HasPrefix (s @ slash # t) (m @ [slash]) \<longleftrightarrow> s = m"
proof
  assume "HasPrefix (s @ slash # t) (m @ [slash])"
  then obtain r where "s @ slash # t = m @ slash # r" by (auto simp: HasPrefix_iff)
  from split_unique [OF assms this] show "s = m" by simp
qed (simp add: HasPrefix_iff)

lemma Contains_segment:
  assumes "slash \<notin> set s" and "slash \<notin> set m" and "segs \<noteq> []"
  shows "Contains (path_of (s # segs)) (slash # m @ [slash]) \<longleftrightarrow>
           s = m \<or> Contains (path_of segs) (slash # m @ [slash])"
proof -
  obtain t where t: "path_of segs = slash # t" by (simp add: path_of_def)
  have "Contains (path_of (s # segs)) (slash # m @ [slash]) \<longleftrightarrow>
      HasPrefix (s @ slash # t) (m @ [slash]) \<or> Contains (s @ slash # t) (slash # m @ [slash])"
    using assms(3) t by (simp add: path_of_Cons HasPrefix_Cons)
  then show ?thesis by (simp only: between_slashes [OF assms(1,2)] Contains_skip [OF assms(1)] t)
qed

lemma Contains_last:
  assumes "slash \<notin> set s"
  shows "\<not> Contains (path_of [s]) (slash # m @ [slash])"
proof -
  have "\<not> HasPrefix s (m @ [slash])" using assms by (auto simp: HasPrefix_iff)
  with assms show ?thesis by (simp add: path_of_def HasPrefix_Cons Contains_none)
qed

lemma HasSuffix_segment:
  assumes "slash \<notin> set m" and "segs \<noteq> []"
  shows "HasSuffix (path_of (s # segs)) (slash # m) \<longleftrightarrow> HasSuffix (path_of segs) (slash # m)"
proof
  assume "HasSuffix (path_of (s # segs)) (slash # m)"
  then obtain t where t: "slash # s @ path_of segs = t @ slash # m"
    using assms(2) by (auto simp: HasSuffix_iff path_of_Cons)
  obtain u where u: "path_of segs = slash # u" by (simp add: path_of_def)
  from t have "(\<exists>us. slash # s = t @ us \<and> us @ path_of segs = slash # m) \<or>
      (\<exists>us. (slash # s) @ us = t \<and> path_of segs = us @ slash # m)"
    unfolding append_Cons [symmetric] append_eq_append_conv2 by blast
  then show "HasSuffix (path_of segs) (slash # m)"
  proof (elim disjE exE conjE)
    fix us
    assume "us @ path_of segs = slash # m"
    with assms(1) u show ?thesis by (cases us) (auto simp: HasSuffix_iff)
  qed (auto simp: HasSuffix_iff)
qed (use assms(2) in \<open>auto simp: HasSuffix_iff path_of_Cons\<close>)

lemma HasSuffix_last: "slash \<notin> set s \<Longrightarrow> slash \<notin> set m \<Longrightarrow> HasSuffix (path_of [s]) (slash # m) \<longleftrightarrow> s = m"
  by (auto simp: HasSuffix_iff path_of_def Cons_eq_append_conv)

lemma Contains_iff_segment:
  assumes "segs \<noteq> []" and "\<forall>s \<in> set segs. slash \<notin> set s" and "slash \<notin> set m"
  shows "Contains (path_of segs) (slash # m @ [slash]) \<longleftrightarrow> m \<in> set (butlast segs)"
  using assms(1,2)
proof (induction segs)
  case (Cons s segs)
  show ?case
  proof (cases "segs = []")
    case True
    with Contains_last [of s m] Cons.prems show ?thesis by simp
  next
    case False
    with Contains_segment [of s m segs] assms(3) Cons show ?thesis by auto
  qed
qed simp

lemma HasSuffix_iff_segment:
  assumes "segs \<noteq> []" and "\<forall>s \<in> set segs. slash \<notin> set s" and "slash \<notin> set m"
  shows "HasSuffix (path_of segs) (slash # m) \<longleftrightarrow> last segs = m"
  using assms(1,2)
proof (induction segs)
  case (Cons s segs)
  show ?case
  proof (cases "segs = []")
    case True
    with HasSuffix_last [of s m] assms(3) Cons.prems show ?thesis by simp
  next
    case False
    with HasSuffix_segment [of m segs s] assms(3) Cons show ?thesis by auto
  qed
qed simp

definition clean :: "string list \<Rightarrow> bool" where
  "clean segs \<longleftrightarrow> segs \<noteq> [] \<and> (\<forall>s \<in> set (butlast segs). plain s) \<and> (last segs = [] \<or> plain (last segs))"

lemma set_butlast_last: "segs \<noteq> [] \<Longrightarrow> set segs = insert (last segs) (set (butlast segs))"
  by (metis append_butlast_last_id insert_is_Un list.set(1) list.simps(15) set_append Un_commute)

text \<open>The trigger is exact: it fires unless every segment but an empty last one is plain.\<close>

lemma needsCanonical_iff:
  assumes "segs \<noteq> []" and "\<forall>s \<in> set segs. slash \<notin> set s"
  shows "needsCanonical (path_of segs) \<longleftrightarrow> \<not> clean segs"
proof -
  have "''//'' = slash # [] @ [slash]" "''/./'' = slash # ''.'' @ [slash]"
    "''/../'' = slash # ''..'' @ [slash]" "''/.'' = slash # ''.''" "''/..'' = slash # ''..''"
    by simp_all
  then have "needsCanonical (path_of segs) \<longleftrightarrow>
      [] \<in> set (butlast segs) \<or> ''.'' \<in> set (butlast segs) \<or> ''..'' \<in> set (butlast segs) \<or>
      last segs = ''.'' \<or> last segs = ''..''"
    unfolding needsCanonical_def
    using Contains_iff_segment [OF assms, of "[]"] Contains_iff_segment [OF assms, of "''.''"]
      Contains_iff_segment [OF assms, of "''..''"] HasSuffix_iff_segment [OF assms, of "''.''"]
      HasSuffix_iff_segment [OF assms, of "''..''"] by simp
  moreover have "slash \<notin> set s" if "s \<in> set (butlast segs) \<or> s = last segs" for s
    using that assms set_butlast_last [OF assms(1)] by auto
  ultimately show ?thesis using assms(1) by (auto simp: clean_def plain_def)
qed

lemma rooted_path: "p = slash # r \<Longrightarrow> p = path_of (Split r slash)"
  by (simp add: path_of_def Join_Split)

subsection \<open>Walking a path\<close>

text \<open>The directory a path leads to: where a file system walk along its segments ends.\<close>

definition walk :: "string list \<Rightarrow> string list \<Rightarrow> string list" where
  "walk out segs =
     foldl (\<lambda>st s. if s = [] \<or> s = ''.'' then st else if s = ''..'' then butlast st else st @ [s]) out segs"

definition leads_to :: "string \<Rightarrow> string list" where
  "leads_to p = walk [] (Split (drop 1 p) slash)"

lemma canon_loop_walk: "fst (canon_loop out tr segs) = walk out segs"
proof (induction segs arbitrary: out tr)
  case (Cons s segs)
  show ?case by (simp add: Cons.IH walk_def Let_def)
qed (simp add: walk_def)

lemma canon_loop_trailing:
  "segs \<noteq> [] \<Longrightarrow> snd (canon_loop out tr segs) \<longleftrightarrow> last segs \<in> {[], ''.'', ''..''}"
proof (induction segs arbitrary: out tr)
  case (Cons s segs)
  show ?case
  proof (cases "segs = []")
    case True
    then show ?thesis by (simp add: Let_def)
  next
    case False
    with Cons.IH show ?thesis by (simp add: Let_def)
  qed
qed simp

lemma walk_plain: "\<forall>s \<in> set segs. plain s \<Longrightarrow> walk out segs = out @ segs"
  by (induction segs arbitrary: out) (auto simp: walk_def plain_def)

lemma walk_append: "walk out (xs @ ys) = walk (walk out xs) ys"
  by (simp add: walk_def)

lemma walk_clean: "clean segs \<Longrightarrow> walk [] segs = (if last segs = [] then butlast segs else segs)"
proof -
  assume c: "clean segs"
  then have "walk [] segs = walk (butlast segs) [last segs]"
    using walk_append [of "[]" "butlast segs" "[last segs]"] walk_plain [of "butlast segs" "[]"]
    by (simp add: clean_def)
  also have "\<dots> = (if last segs = [] then butlast segs else butlast segs @ [last segs])"
  proof (cases "last segs = []")
    case False
    with c have "last segs \<noteq> ''.''" "last segs \<noteq> ''..''" by (simp_all add: clean_def plain_def)
    with False show ?thesis by (simp add: walk_def)
  qed (simp add: walk_def)
  also have "\<dots> = (if last segs = [] then butlast segs else segs)" using c by (simp add: clean_def)
  finally show ?thesis .
qed

definition closed_with :: "string list \<Rightarrow> bool \<Rightarrow> string list" where
  "closed_with out tr = (if out = [] then [[]] else if tr then out @ [[]] else out)"

lemma clean_closed_with: "\<forall>s \<in> set out. plain s \<Longrightarrow> clean (closed_with out tr)"
  by (auto simp: closed_with_def clean_def dest: in_set_butlastD intro: last_in_set)

lemma clean_closed:
  assumes "clean segs"
  shows "closed_with (walk [] segs) (last segs \<in> {[], ''.'', ''..''}) = segs"
proof (cases "last segs = []")
  case True
  have "segs = butlast segs @ [[]]"
    using assms True append_butlast_last_id [of segs] by (simp add: clean_def)
  then show ?thesis
    using True walk_clean [OF assms] by (cases "butlast segs = []") (simp_all add: closed_with_def)
next
  case False
  then have "last segs \<notin> {[], ''.'', ''..''}" "segs \<noteq> []"
    using assms by (auto simp: clean_def plain_def)
  with False walk_clean [OF assms] show ?thesis by (simp add: closed_with_def)
qed

lemma Join_snoc_empty: "out \<noteq> [] \<Longrightarrow> Join (out @ [[]]) c = Join out c @ [c]"
  by (induction out c rule: Join.induct) (auto simp: Join_Cons)

lemma rebuild_segments:
  assumes "segs = Split r slash" and "out = walk [] segs"
  shows "rebuild (slash # r) = path_of (closed_with out (last segs \<in> {[], ''.'', ''..''}))"
    and "\<forall>s \<in> set out. plain s"
proof -
  obtain o' t where loop: "canon_loop [] False segs = (o', t)" by fastforce
  have "o' = out" "t \<longleftrightarrow> last segs \<in> {[], ''.'', ''..''}"
    using canon_loop_walk [of "[]" False segs] canon_loop_trailing [of segs "[]" False] loop assms by auto
  with loop assms(1) show "rebuild (slash # r) = path_of (closed_with out (last segs \<in> {[], ''.'', ''..''}))"
    by (auto simp: rebuild_def path_of_def closed_with_def Join_snoc_empty)
  show "\<forall>s \<in> set out. plain s"
    using canon_loop_plain [OF _ _ loop] Split_no_sep assms(1) \<open>o' = out\<close> by auto
qed

text \<open>C18: Every rooted request path is brought into one canonical form: single slashes, no dot
  segments, at most an empty last segment for a trailing slash. The form leads to the same
  place as the original path under a directory walk, canonicalizing twice changes nothing, and
  the cheap trigger test is exact, so a path it leaves alone is the one the full
  reconstruction would return.\<close>

theorem canonicalPath_correct:
  assumes "p = slash # r"
  shows "canonicalPath p = rebuild p \<and> canonicalPath (canonicalPath p) = canonicalPath p \<and>
         leads_to (canonicalPath p) = leads_to p \<and>
         (\<exists>segs. canonicalPath p = path_of segs \<and> clean segs \<and> (\<forall>s \<in> set segs. slash \<notin> set s))"
proof -
  let ?segs = "Split r slash"
  let ?out = "walk [] ?segs"
  let ?c = "closed_with ?out (last ?segs \<in> {[], ''.'', ''..''})"
  have ns: "\<forall>s \<in> set ?segs. slash \<notin> set s" by (auto dest: Split_no_sep)
  note R = rebuild_segments [OF refl refl, of r]
  have c: "clean ?c" by (rule clean_closed_with [OF R(2)])
  have nc: "\<forall>s \<in> set ?c. slash \<notin> set s" "?c \<noteq> []"
    using R(2) by (auto simp: closed_with_def plain_def)
  have needs: "needsCanonical p \<longleftrightarrow> \<not> clean ?segs"
    using needsCanonical_iff [OF Split_nonempty ns] rooted_path [OF assms] by simp
  have same: "rebuild p = p" if "clean ?segs"
  proof -
    have "?c = ?segs"
      by (rule clean_closed [OF that])
    then show ?thesis using R(1) rooted_path [OF assms] assms by simp
  qed
  have canon: "canonicalPath p = path_of ?c"
    using needs same R(1) assms by (auto simp: canonicalPath_def)
  have "\<not> needsCanonical (path_of ?c)" using needsCanonical_iff [OF nc(2,1)] c by simp
  then have idem: "canonicalPath (path_of ?c) = path_of ?c" by (simp add: canonicalPath_def)
  have "Split (drop 1 (path_of ?c)) slash = ?c" using Split_Join nc by (simp add: path_of_def)
  moreover have "walk [] ?c = ?out"
    using walk_plain [OF R(2), of "[]"] walk_append [of "[]" ?out "[[]]"]
    by (auto simp: closed_with_def walk_def)
  ultimately have "leads_to (path_of ?c) = leads_to p" using assms by (simp add: leads_to_def)
  with canon idem c nc R(1) assms show ?thesis by auto
qed

theorem canonicalPath_correct_witness:
  "canonicalPath ''/a//b/../c/.'' = rebuild ''/a//b/../c/.'' \<and> canonicalPath ''/a//b/../c/.'' = ''/a/c/''"
proof
  show "canonicalPath ''/a//b/../c/.'' = rebuild ''/a//b/../c/.''"
    using canonicalPath_correct [of "''/a//b/../c/.''" "''a//b/../c/.''"] by simp
qed code_simp

end
