(* ===== verification/Predicates.thy ===== *)
theory Predicates
  imports Paths
begin

text \<open>
  \<^verbatim>\<open>src/internal/router/predicates.go\<close> and the match part of
  \<^verbatim>\<open>src/internal/config\<close>: the request predicates of a location (methods, headers,
  query parameters), how they compile, how they are evaluated on a request, and the lint rule
  that decides when one location takes every request of another
  (\<^verbatim>\<open>lint_match.go\<close>).

  A compiled regular expression is a record of its two operations; the compiler
  \<^verbatim>\<open>regexp.Compile\<close> is the argument \<open>compile\<close>, a partial function. A request header maps
  canonical field names to the list of their values, \<open>[]\<close> when the field is absent. A Go
  slice that may be \<^verbatim>\<open>nil\<close> is an option where the code tests for it.
\<close>

record regexp =
  MatchString :: "string \<Rightarrow> bool"
  ReplaceAllString :: "string \<Rightarrow> string \<Rightarrow> string"

type_synonym header = "string \<Rightarrow> string list"

record request =
  req_method :: string
  req_host :: string
  req_header :: header
  req_path :: string
  req_raw_path :: string
  req_raw_query :: string
  req_uri :: string
  req_tls :: bool

subsection \<open>Configuration\<close>

record HeaderMatch =
  hm_name :: string
  hm_op :: string
  hm_value :: "string option"

record QueryMatch =
  qm_name :: string
  qm_op :: string
  qm_value :: "string option"

record MatchConfig =
  m_type :: string
  m_path :: string
  m_methods :: "string list option"
  m_headers :: "HeaderMatch list"
  m_query :: "QueryMatch list"

record RewriteConfig =
  rw_pattern :: string
  rw_replacement_of :: string
  rw_flag_of :: string

record ResponseHeaderOp =
  rho_op :: string
  rho_name :: string
  rho_value :: "string option"

text \<open>The fields of \<^verbatim>\<open>LocationConfig\<close> the router reads; \<open>lc_cors\<close> is the
  \<^verbatim>\<open>Enabled\<close> flag of the CORS block when there is one.\<close>

record LocationConfig =
  lc_match :: MatchConfig
  lc_cors :: "bool option"
  lc_route_id :: "string option"
  lc_send_timeout :: "duration option"
  lc_deny :: bool
  lc_redirect :: string
  lc_return :: nat
  lc_proxy_pass :: string
  lc_fastcgi_pass :: string
  lc_uwsgi_pass :: string
  lc_grpc_transcode :: bool
  lc_plugin :: string
  lc_root :: string
  lc_rewrites :: "RewriteConfig list"
  lc_withdrawn :: bool
  lc_response_headers :: "ResponseHeaderOp list"

definition HasPredicates :: "MatchConfig \<Rightarrow> bool" where
  "HasPredicates m \<longleftrightarrow>
     length (case m_methods m of None \<Rightarrow> [] | Some ms \<Rightarrow> ms) > 0 \<or> length (m_headers m) > 0 \<or>
     length (m_query m) > 0"

definition LocationPreflightWidening :: "LocationConfig \<Rightarrow> bool" where
  "LocationPreflightWidening loc \<longleftrightarrow> lc_cors loc = Some True \<and> m_methods (lc_match loc) \<noteq> None"

subsection \<open>Header names\<close>

definition is_upper :: "char \<Rightarrow> bool" where
  "is_upper c \<longleftrightarrow> 65 \<le> (of_char c :: nat) \<and> (of_char c :: nat) \<le> 90"

definition is_lower :: "char \<Rightarrow> bool" where
  "is_lower c \<longleftrightarrow> 97 \<le> (of_char c :: nat) \<and> (of_char c :: nat) \<le> 122"

definition to_upper :: "char \<Rightarrow> char" where
  "to_upper c = (if is_lower c then char_of (of_char c - 32 :: nat) else c)"

definition token_byte :: "char \<Rightarrow> bool" where
  "token_byte c \<longleftrightarrow>
     is_lower c \<or> is_upper c \<or> is_digit c \<or> c \<in> set ''!#$%&*+-.^_`|~'' \<or> c = CHR 0x27"

definition isCORSToken :: "string \<Rightarrow> bool" where
  "isCORSToken s \<longleftrightarrow> s \<noteq> [] \<and> list_all token_byte s"

text \<open>\<^verbatim>\<open>textproto.CanonicalMIMEHeaderKey\<close>.\<close>

fun canon_key :: "bool \<Rightarrow> string \<Rightarrow> string" where
  "canon_key up [] = []"
| "canon_key up (c # s) =
     (if up then to_upper c else to_lower c) # canon_key (c = CHR ''-'') s"

definition CanonicalMIMEHeaderKey :: "string \<Rightarrow> string" where
  "CanonicalMIMEHeaderKey s = (if list_all token_byte s then canon_key True s else s)"

text \<open>\<^verbatim>\<open>http.Header.Set\<close>, \<^verbatim>\<open>Add\<close> and \<^verbatim>\<open>Del\<close>.\<close>

definition header_Set :: "header \<Rightarrow> string \<Rightarrow> string \<Rightarrow> header" where
  "header_Set h name v = h(CanonicalMIMEHeaderKey name := [v])"

definition header_Add :: "header \<Rightarrow> string \<Rightarrow> string \<Rightarrow> header" where
  "header_Add h name v =
     h(CanonicalMIMEHeaderKey name := h (CanonicalMIMEHeaderKey name) @ [v])"

definition header_Del :: "header \<Rightarrow> string \<Rightarrow> header" where
  "header_Del h name = h(CanonicalMIMEHeaderKey name := [])"

subsection \<open>Compiled predicates\<close>

record compiledHeaderPredicate =
  chp_name :: string
  chp_op :: string
  chp_value :: string
  chp_re :: "regexp option"

record compiledQueryPredicate =
  cqp_name :: string
  cqp_op :: string
  cqp_value :: string

record compiledPredicates =
  cp_methods :: "string list option"
  cp_acceptsHEAD :: bool
  cp_preflightWidening :: bool
  cp_headers :: "compiledHeaderPredicate list"
  cp_query :: "compiledQueryPredicate list"

definition str_of :: "string option \<Rightarrow> string" where
  "str_of v = (case v of None \<Rightarrow> [] | Some s \<Rightarrow> s)"

definition compile_header ::
  "(string \<Rightarrow> regexp option) \<Rightarrow> HeaderMatch \<Rightarrow> compiledHeaderPredicate option" where
  "compile_header compile h =
     (let cp = \<lparr>chp_name = CanonicalMIMEHeaderKey (TrimSpace (hm_name h)), chp_op = hm_op h,
                chp_value = str_of (hm_value h), chp_re = None\<rparr> in
      if hm_op h = ''regex'' then
        (case compile (chp_value cp) of None \<Rightarrow> None | Some re \<Rightarrow> Some (cp\<lparr>chp_re := Some re\<rparr>))
      else Some cp)"

fun compile_headers ::
  "(string \<Rightarrow> regexp option) \<Rightarrow> HeaderMatch list \<Rightarrow> compiledHeaderPredicate list option" where
  "compile_headers compile [] = Some []"
| "compile_headers compile (h # hs) =
     (case compile_header compile h of
        None \<Rightarrow> None
      | Some c \<Rightarrow> (case compile_headers compile hs of None \<Rightarrow> None | Some cs \<Rightarrow> Some (c # cs)))"

definition compile_query :: "QueryMatch \<Rightarrow> compiledQueryPredicate" where
  "compile_query q = \<lparr>cqp_name = qm_name q, cqp_op = qm_op q, cqp_value = str_of (qm_value q)\<rparr>"

text \<open>\<^verbatim>\<open>append([]string(nil), ms...)\<close> of an empty list is \<^verbatim>\<open>nil\<close>.\<close>

definition copy_slice :: "string list \<Rightarrow> string list option" where
  "copy_slice ms = (if ms = [] then None else Some ms)"

text \<open>\<open>None\<close> is the error; the inner option is the possibly nil predicate set.\<close>

definition compilePredicates ::
  "(string \<Rightarrow> regexp option) \<Rightarrow> LocationConfig \<Rightarrow> compiledPredicates option option" where
  "compilePredicates compile loc =
     (let m = lc_match loc in
      if \<not> HasPredicates m then Some None
      else case compile_headers compile (m_headers m) of
             None \<Rightarrow> None
           | Some hs \<Rightarrow>
               Some (Some \<lparr>cp_methods = (case m_methods m of None \<Rightarrow> None | Some ms \<Rightarrow> copy_slice ms),
                           cp_acceptsHEAD = (case m_methods m of None \<Rightarrow> False | Some ms \<Rightarrow> ''GET'' \<in> set ms),
                           cp_preflightWidening = LocationPreflightWidening loc,
                           cp_headers = hs, cp_query = map compile_query (m_query m)\<rparr>))"

subsection \<open>The query string\<close>

definition hex_digit :: "char \<Rightarrow> nat option" where
  "hex_digit c =
     (let n = (of_char c :: nat) in
      if 48 \<le> n \<and> n \<le> 57 then Some (n - 48)
      else if 97 \<le> n \<and> n \<le> 102 then Some (n - 97 + 10)
      else if 65 \<le> n \<and> n \<le> 70 then Some (n - 65 + 10)
      else None)"

text \<open>\<^verbatim>\<open>url.QueryUnescape\<close>; \<open>None\<close> is the malformed escape.\<close>

fun QueryUnescape :: "string \<Rightarrow> string option" where
  "QueryUnescape [] = Some []"
| "QueryUnescape (c # s) =
     (if c = CHR ''%'' then
        (case s of
           h # l # t \<Rightarrow>
             (case (hex_digit h, hex_digit l, QueryUnescape t) of
                (Some a, Some b, Some r) \<Rightarrow> Some (char_of (16 * a + b) # r)
              | _ \<Rightarrow> None)
         | _ \<Rightarrow> None)
      else map_option ((#) (if c = CHR ''+'' then CHR '' '' else c)) (QueryUnescape s))"

type_synonym queryPair = "string \<times> string"

definition MaxQueryPairsParsed :: nat where
  "MaxQueryPairsParsed = 1024"

definition decode_pair :: "string \<Rightarrow> queryPair list" where
  "decode_pair pair =
     (if pair = [] \<or> Contains pair '';'' then []
      else let (name, value, _) = Cut pair (CHR ''='') in
           case QueryUnescape name of
             None \<Rightarrow> []
           | Some n \<Rightarrow> (case QueryUnescape value of None \<Rightarrow> [] | Some v \<Rightarrow> [(n, v)]))"

fun parse_pairs :: "nat \<Rightarrow> string \<Rightarrow> queryPair list" where
  "parse_pairs 0 raw = []"
| "parse_pairs (Suc left) raw =
     (if raw = [] then []
      else let (pair, rest, _) = Cut raw (CHR ''&'') in decode_pair pair @ parse_pairs left rest)"

definition parseBoundedQuery :: "string \<Rightarrow> queryPair list" where
  "parseBoundedQuery raw = parse_pairs MaxQueryPairsParsed raw"

record requestQuery =
  rq_raw :: string
  rq_parsed :: bool
  rq_pairs :: "queryPair list"

definition new_query :: "string \<Rightarrow> requestQuery" where
  "new_query raw = \<lparr>rq_raw = raw, rq_parsed = False, rq_pairs = []\<rparr>"

definition ensureParsed :: "requestQuery \<Rightarrow> requestQuery" where
  "ensureParsed q =
     (if rq_parsed q then q else q\<lparr>rq_pairs := parseBoundedQuery (rq_raw q), rq_parsed := True\<rparr>)"

definition query_present :: "requestQuery \<Rightarrow> string \<Rightarrow> bool \<times> requestQuery" where
  "query_present q name =
     (let q = ensureParsed q in (list_ex (\<lambda>p. fst p = name) (rq_pairs q), q))"

definition hasValue :: "requestQuery \<Rightarrow> string \<Rightarrow> string \<Rightarrow> bool \<times> requestQuery" where
  "hasValue q name value =
     (let q = ensureParsed q in (list_ex (\<lambda>p. fst p = name \<and> snd p = value) (rq_pairs q), q))"

subsection \<open>Evaluation\<close>

datatype predicateFailure =
  NoFailure
| MethodFailure
| HeaderFailure nat
| QueryFailure nat

definition IsPreflight :: "request \<Rightarrow> bool" where
  "IsPreflight r \<longleftrightarrow>
     req_method r = ''OPTIONS'' \<and> length (req_header r ''Origin'') = 1 \<and>
     (let acrm = req_header r ''Access-Control-Request-Method'' in
      length acrm = 1 \<and> isCORSToken (acrm ! 0))"

definition isCORSPreflight :: "request \<Rightarrow> bool" where
  "isCORSPreflight r = IsPreflight r"

definition matchMethod :: "compiledPredicates \<Rightarrow> request \<Rightarrow> bool" where
  "matchMethod p r =
     (case cp_methods p of
        None \<Rightarrow> True
      | Some ms \<Rightarrow>
          if list_ex (\<lambda>m. req_method r = m) ms then True
          else if cp_acceptsHEAD p \<and> req_method r = ''HEAD'' then True
          else cp_preflightWidening p \<and> isCORSPreflight r)"

definition header_match :: "compiledHeaderPredicate \<Rightarrow> header \<Rightarrow> bool" where
  "header_match h hdr =
     (let values = hdr (chp_name h) in
      if chp_op h = ''present'' then length values > 0
      else if chp_op h = ''exact'' then list_ex (\<lambda>v. v = chp_value h) values
      else if chp_op h = ''regex'' then
        (case chp_re h of None \<Rightarrow> False | Some re \<Rightarrow> list_ex (\<lambda>v. MatchString re v) values)
      else False)"

definition query_match :: "compiledQueryPredicate \<Rightarrow> requestQuery \<Rightarrow> bool \<times> requestQuery" where
  "query_match c q =
     (if cqp_op c = ''present'' then query_present q (cqp_name c)
      else if cqp_op c = ''exact'' then hasValue q (cqp_name c) (cqp_value c)
      else (False, q))"

fun match_headers :: "nat \<Rightarrow> compiledHeaderPredicate list \<Rightarrow> header \<Rightarrow> predicateFailure" where
  "match_headers i [] hdr = NoFailure"
| "match_headers i (h # hs) hdr =
     (if \<not> header_match h hdr then HeaderFailure i else match_headers (Suc i) hs hdr)"

fun match_query ::
  "nat \<Rightarrow> compiledQueryPredicate list \<Rightarrow> requestQuery \<Rightarrow> predicateFailure \<times> requestQuery" where
  "match_query i [] q = (NoFailure, q)"
| "match_query i (c # cs) q =
     (case query_match c q of
        (False, q') \<Rightarrow> (QueryFailure i, q')
      | (True, q') \<Rightarrow> match_query (Suc i) cs q')"

definition predicates_match ::
  "compiledPredicates option \<Rightarrow> request \<Rightarrow> requestQuery \<Rightarrow> (bool \<times> predicateFailure) \<times> requestQuery" where
  "predicates_match po r q =
     (case po of
        None \<Rightarrow> ((True, NoFailure), q)
      | Some p \<Rightarrow>
          if \<not> matchMethod p r then ((False, MethodFailure), q)
          else case match_headers 0 (cp_headers p) (req_header r) of
                 NoFailure \<Rightarrow>
                   (case match_query 0 (cp_query p) q of
                      (NoFailure, q') \<Rightarrow> ((True, NoFailure), q')
                    | (f, q') \<Rightarrow> ((False, f), q'))
               | f \<Rightarrow> ((False, f), q))"

definition failure_field :: "predicateFailure \<Rightarrow> string" where
  "failure_field f =
     (case f of
        NoFailure \<Rightarrow> []
      | MethodFailure \<Rightarrow> ''match.methods''
      | HeaderFailure i \<Rightarrow> ''match.headers['' @ FormatUint i @ '']''
      | QueryFailure i \<Rightarrow> ''match.query['' @ FormatUint i @ '']'')"

subsection \<open>What the predicates mean\<close>

text \<open>The query parser against the pairs of the whole query string.\<close>

lemma Split_Cut:
  "s \<noteq> [] \<Longrightarrow> Cut s c = (a, b, ok) \<Longrightarrow> Split s c = (if ok then a # Split b c else [a])"
proof (cases "index_byte c s")
  case None
  then show "s \<noteq> [] \<Longrightarrow> Cut s c = (a, b, ok) \<Longrightarrow> ?thesis"
    by (auto simp: Cut_def index_byte_None Split_id)
next
  case (Some k)
  then have k: "k < length s" "s ! k = c" "c \<notin> set (take k s)" by (auto simp: index_byte_Some)
  have "s = take k s @ c # drop (Suc k) s" using id_take_nth_drop [OF k(1)] k(2) by simp
  with Split_append [OF k(3), of "drop (Suc k) s"] Some
  show "s \<noteq> [] \<Longrightarrow> Cut s c = (a, b, ok) \<Longrightarrow> ?thesis" by (auto simp: Cut_def)
qed

lemma Cut_not_found: "Cut s c = (a, b, False) \<Longrightarrow> b = []"
  by (auto simp: Cut_def split: option.splits)

lemma parse_pairs_Split:
  "parse_pairs n raw = concat (map decode_pair (take n (Split raw (CHR ''&''))))"
proof (induction n arbitrary: raw)
  case (Suc n)
  show ?case
  proof (cases "raw = []")
    case True
    then show ?thesis by (cases n) (simp_all add: decode_pair_def)
  next
    case False
    obtain a b ok where c: "Cut raw (CHR ''&'') = (a, b, ok)" by (cases "Cut raw (CHR ''&'')") auto
    have "parse_pairs n [] = []" by (cases n) simp_all
    with Split_Cut [OF False c] Cut_not_found [of raw "CHR ''&''" a b] c False Suc.IH [of b]
    show ?thesis by (cases ok) (simp_all add: Let_def)
  qed
qed simp

lemma parseBoundedQuery_bounded: "length (parseBoundedQuery raw) \<le> MaxQueryPairsParsed"
proof -
  have one: "length (decode_pair p) \<le> 1" for p
    by (auto simp: decode_pair_def Let_def split: prod.splits option.splits)
  have "length (concat (map decode_pair ps)) \<le> length ps" for ps
  proof (induction ps)
    case (Cons p ps)
    with one [of p] show ?case by simp
  qed simp
  then have "length (parse_pairs n raw) \<le> length (take n (Split raw (CHR ''&'')))" for n
    by (simp only: parse_pairs_Split)
  from this [of MaxQueryPairsParsed] show ?thesis by (simp add: parseBoundedQuery_def)
qed

definition rq_ok :: "string \<Rightarrow> requestQuery \<Rightarrow> bool" where
  "rq_ok raw q \<longleftrightarrow> rq_raw q = raw \<and> (rq_parsed q \<longrightarrow> rq_pairs q = parseBoundedQuery raw)"

definition query_holds :: "compiledQueryPredicate \<Rightarrow> queryPair list \<Rightarrow> bool" where
  "query_holds c pairs \<longleftrightarrow>
     cqp_op c = ''present'' \<and> (\<exists>p \<in> set pairs. fst p = cqp_name c) \<or>
     cqp_op c = ''exact'' \<and> (\<exists>p \<in> set pairs. fst p = cqp_name c \<and> snd p = cqp_value c)"

definition predicates_hold :: "compiledPredicates option \<Rightarrow> request \<Rightarrow> bool" where
  "predicates_hold po r =
     (case po of
        None \<Rightarrow> True
      | Some p \<Rightarrow> matchMethod p r \<and> (\<forall>h \<in> set (cp_headers p). header_match h (req_header r)) \<and>
                  (\<forall>c \<in> set (cp_query p). query_holds c (parseBoundedQuery (req_raw_query r))))"

lemma rq_ok_new [simp]: "rq_ok raw (new_query raw)"
  by (simp add: rq_ok_def new_query_def)

lemma rq_ok_ensureParsed:
  "rq_ok raw q \<Longrightarrow> rq_ok raw (ensureParsed q) \<and> rq_pairs (ensureParsed q) = parseBoundedQuery raw"
  by (auto simp: rq_ok_def ensureParsed_def)

lemma query_match_holds:
  assumes "rq_ok raw q" and "query_match c q = (b, q')"
  shows "b = query_holds c (parseBoundedQuery raw) \<and> rq_ok raw q'"
proof -
  note E = rq_ok_ensureParsed [OF assms(1)]
  consider (present) "cqp_op c = ''present''" | (exact) "cqp_op c = ''exact''"
    | (other) "cqp_op c \<noteq> ''present''" "cqp_op c \<noteq> ''exact''" by blast
  then show ?thesis
  proof cases
    case present
    with assms(2) E show ?thesis
      by (auto simp: query_match_def query_present_def query_holds_def Let_def list_ex_iff)
  next
    case exact
    with assms(2) E show ?thesis
      by (auto simp: query_match_def hasValue_def query_holds_def Let_def list_ex_iff)
  next
    case other
    with assms show ?thesis by (simp add: query_match_def query_holds_def)
  qed
qed

lemma match_query_holds:
  "rq_ok raw q \<Longrightarrow> match_query i cs q = (f, q') \<Longrightarrow>
     (f = NoFailure \<longleftrightarrow> (\<forall>c \<in> set cs. query_holds c (parseBoundedQuery raw))) \<and>
     f \<noteq> MethodFailure \<and> rq_ok raw q'"
proof (induction cs arbitrary: i q)
  case (Cons c cs)
  obtain b q1 where m: "query_match c q = (b, q1)" by fastforce
  note Q = query_match_holds [OF Cons.prems(1) m]
  show ?case
  proof (cases b)
    case True
    with m Cons.prems(2) have "match_query (Suc i) cs q1 = (f, q')" by simp
    from Cons.IH [OF _ this] Q True show ?thesis by simp
  next
    case False
    with m Cons.prems(2) Q show ?thesis by auto
  qed
qed auto

lemma match_headers_holds:
  "match_headers i hs hdr = NoFailure \<longleftrightarrow> (\<forall>h \<in> set hs. header_match h hdr)"
  by (induction hs arbitrary: i) auto

lemma predicates_match_holds:
  assumes "rq_ok (req_raw_query r) q" and "predicates_match po r q = ((b, f), q')"
  shows "b = predicates_hold po r \<and> (f = NoFailure \<longleftrightarrow> b) \<and> rq_ok (req_raw_query r) q'"
proof (cases po)
  case None
  with assms show ?thesis by (simp add: predicates_match_def predicates_hold_def)
next
  case (Some p)
  show ?thesis
  proof (cases "matchMethod p r \<and> match_headers 0 (cp_headers p) (req_header r) = NoFailure")
    case True
    obtain f2 q2 where m: "match_query 0 (cp_query p) q = (f2, q2)" by fastforce
    note M = match_query_holds [OF assms(1) m]
    have eq: "((b, f), q') = (case f2 of NoFailure \<Rightarrow> ((True, NoFailure), q2) | _ \<Rightarrow> ((False, f2), q2))"
      using True assms(2) Some m by (cases f2) (auto simp: predicates_match_def)
    have "predicates_hold po r \<longleftrightarrow> f2 = NoFailure"
      using True Some M match_headers_holds [of 0 "cp_headers p" "req_header r"]
      by (simp add: predicates_hold_def)
    with eq M show ?thesis by (cases f2) auto
  next
    case False
    then have "\<not> predicates_hold po r"
      using Some match_headers_holds [of 0 "cp_headers p" "req_header r"] by (auto simp: predicates_hold_def)
    moreover have "\<not> b \<and> f \<noteq> NoFailure \<and> q' = q"
      using False assms(2) Some
      by (cases "match_headers 0 (cp_headers p) (req_header r)")
         (auto simp: predicates_match_def split: if_splits)
    ultimately show ?thesis using assms(1) by simp
  qed
qed

text \<open>Which predicate rejects a request, in the order methods, headers, query: the field is
  the one of the first predicate that does not hold.\<close>

definition rejected_by :: "compiledPredicates \<Rightarrow> request \<Rightarrow> string \<Rightarrow> bool" where
  "rejected_by p r fld \<longleftrightarrow>
     (let hs = cp_headers p; qs = cp_query p; pairs = parseBoundedQuery (req_raw_query r) in
      if \<not> matchMethod p r then fld = ''match.methods''
      else if \<exists>h \<in> set hs. \<not> header_match h (req_header r)
      then \<exists>i < length hs. \<not> header_match (hs ! i) (req_header r) \<and>
             (\<forall>j < i. header_match (hs ! j) (req_header r)) \<and>
             fld = ''match.headers['' @ FormatUint i @ '']''
      else \<exists>i < length qs. \<not> query_holds (qs ! i) pairs \<and>
             (\<forall>j < i. query_holds (qs ! j) pairs) \<and>
             fld = ''match.query['' @ FormatUint i @ '']'')"

lemma match_headers_first:
  assumes "match_headers k hs hdr \<noteq> NoFailure"
  shows "\<exists>i < length hs. match_headers k hs hdr = HeaderFailure (k + i) \<and>
           \<not> header_match (hs ! i) hdr \<and> (\<forall>j < i. header_match (hs ! j) hdr)"
  using assms
proof (induction hs arbitrary: k)
  case (Cons h hs)
  show ?case
  proof (cases "header_match h hdr")
    case True
    with Cons.prems Cons.IH [of "Suc k"] obtain i where i: "i < length hs"
      "match_headers (Suc k) hs hdr = HeaderFailure (Suc k + i)"
      "\<not> header_match (hs ! i) hdr" "\<forall>j < i. header_match (hs ! j) hdr" by auto
    with True show ?thesis
      by (intro exI [of _ "Suc i"]) (auto simp: less_Suc_eq_0_disj)
  qed (use Cons.prems in auto)
qed simp

lemma match_query_first:
  assumes "rq_ok raw q" and "match_query k cs q = (f, q')" and "f \<noteq> NoFailure"
  shows "\<exists>i < length cs. f = QueryFailure (k + i) \<and>
           \<not> query_holds (cs ! i) (parseBoundedQuery raw) \<and>
           (\<forall>j < i. query_holds (cs ! j) (parseBoundedQuery raw))"
  using assms
proof (induction cs arbitrary: k q)
  case (Cons c cs)
  obtain b q1 where m: "query_match c q = (b, q1)" by fastforce
  note Q = query_match_holds [OF Cons.prems(1) m]
  show ?case
  proof (cases b)
    case True
    with m Cons.prems(2) have "match_query (Suc k) cs q1 = (f, q')" by simp
    with Cons.IH Q Cons.prems(3) obtain i where i: "i < length cs" "f = QueryFailure (Suc k + i)"
      "\<not> query_holds (cs ! i) (parseBoundedQuery raw)"
      "\<forall>j < i. query_holds (cs ! j) (parseBoundedQuery raw)" by blast
    with True Q show ?thesis
      by (intro exI [of _ "Suc i"]) (auto simp: less_Suc_eq_0_disj)
  next
    case False
    with m Cons.prems(2) Q show ?thesis by auto
  qed
qed simp

lemma predicates_match_rejected:
  assumes "rq_ok (req_raw_query r) q" and "predicates_match po r q = ((False, f), q')"
  shows "\<exists>p. po = Some p \<and> rejected_by p r (failure_field f)"
proof -
  obtain p where p: "po = Some p" using assms(2) by (cases po) (auto simp: predicates_match_def)
  let ?h = "match_headers 0 (cp_headers p) (req_header r)"
  consider (meth) "\<not> matchMethod p r" | (hdr) "matchMethod p r" "?h \<noteq> NoFailure"
    | (qry) "matchMethod p r" "?h = NoFailure" by blast
  then have "rejected_by p r (failure_field f)"
  proof cases
    case meth
    with assms(2) p show ?thesis
      by (auto simp: predicates_match_def rejected_by_def failure_field_def Let_def)
  next
    case hdr
    from match_headers_first [OF hdr(2)] obtain i where i: "i < length (cp_headers p)"
      "?h = HeaderFailure i" "\<not> header_match (cp_headers p ! i) (req_header r)"
      "\<forall>j < i. header_match (cp_headers p ! j) (req_header r)" by auto
    then have "f = HeaderFailure i" using assms(2) p hdr by (simp add: predicates_match_def)
    moreover have "\<exists>h \<in> set (cp_headers p). \<not> header_match h (req_header r)"
      using i by (meson nth_mem)
    ultimately show ?thesis
      using hdr i by (auto simp: rejected_by_def failure_field_def Let_def)
  next
    case qry
    obtain f2 q2 where m: "match_query 0 (cp_query p) q = (f2, q2)" by fastforce
    have f: "f = f2" "f2 \<noteq> NoFailure"
      using assms(2) p qry m by (cases f2; auto simp: predicates_match_def)+
    from match_query_first [OF assms(1) m f(2)] f(1) obtain i where i: "i < length (cp_query p)"
      "f = QueryFailure i" "\<not> query_holds (cp_query p ! i) (parseBoundedQuery (req_raw_query r))"
      "\<forall>j < i. query_holds (cp_query p ! j) (parseBoundedQuery (req_raw_query r))" by auto
    moreover have "\<forall>h \<in> set (cp_headers p). header_match h (req_header r)"
      using qry(2) by (simp add: match_headers_holds)
    ultimately show ?thesis
      using qry by (auto simp: rejected_by_def failure_field_def Let_def)
  qed
  with p show ?thesis by blast
qed

subsection \<open>The lint rule for shadowed locations\<close>

definition normalizedMatchType :: "string \<Rightarrow> string" where
  "normalizedMatchType t = (if t = [] then ''prefix'' else t)"

definition predicateValuesEqual :: "string option \<Rightarrow> string option \<Rightarrow> bool" where
  "predicateValuesEqual a b =
     (if a = None \<or> b = None then a = None \<and> b = None else the a = the b)"

fun queryPredicateSubsumed :: "QueryMatch \<Rightarrow> QueryMatch list \<Rightarrow> bool" where
  "queryPredicateSubsumed e [] = False"
| "queryPredicateSubsumed e (l # ls) =
     (if qm_name l \<noteq> qm_name e then queryPredicateSubsumed e ls
      else if qm_op e = ''present'' then True
      else if qm_op l = qm_op e \<and> predicateValuesEqual (qm_value e) (qm_value l) then True
      else queryPredicateSubsumed e ls)"

fun headerPredicateSubsumed :: "HeaderMatch \<Rightarrow> HeaderMatch list \<Rightarrow> bool" where
  "headerPredicateSubsumed e [] = False"
| "headerPredicateSubsumed e (l # ls) =
     (if CanonicalMIMEHeaderKey (TrimSpace (hm_name l)) \<noteq> CanonicalMIMEHeaderKey (TrimSpace (hm_name e))
      then headerPredicateSubsumed e ls
      else if hm_op e = ''present'' then True
      else if hm_op l = hm_op e \<and> predicateValuesEqual (hm_value e) (hm_value l) then True
      else headerPredicateSubsumed e ls)"

definition methodsSubsume :: "string list option \<Rightarrow> string list option \<Rightarrow> bool" where
  "methodsSubsume earlier later =
     (case earlier of
        None \<Rightarrow> True
      | Some e \<Rightarrow> (case later of None \<Rightarrow> False | Some l \<Rightarrow> list_all (\<lambda>m. m \<in> set e) l))"

definition subsumes :: "LocationConfig \<Rightarrow> LocationConfig \<Rightarrow> bool" where
  "subsumes earlier later =
     (let e = lc_match earlier; l = lc_match later in
      if \<not> HasPredicates e then True
      else if \<not> methodsSubsume (m_methods e) (m_methods l) then False
      else if m_methods e \<noteq> None \<and> LocationPreflightWidening later \<and> \<not> LocationPreflightWidening earlier
      then False
      else list_all (\<lambda>p. headerPredicateSubsumed p (m_headers l)) (m_headers e) \<and>
           list_all (\<lambda>p. queryPredicateSubsumed p (m_query l)) (m_query e))"

lemma predicateValuesEqual_iff [simp]: "predicateValuesEqual a b \<longleftrightarrow> a = b"
  by (cases a; cases b) (auto simp: predicateValuesEqual_def)

lemma compile_headers_all2:
  "compile_headers compile hs = Some cs \<Longrightarrow> list_all2 (\<lambda>h c. compile_header compile h = Some c) hs cs"
  by (induction hs arbitrary: cs) (auto split: option.splits)

lemma headerPredicateSubsumed_sound:
  assumes "headerPredicateSubsumed e ls" and "compile_header compile e = Some c"
    and "\<forall>l \<in> set ls. \<exists>cl. compile_header compile l = Some cl \<and> header_match cl hdr"
  shows "header_match c hdr"
  using assms(1,3)
proof (induction ls)
  case (Cons l ls)
  from Cons.prems(2) obtain cl where cl: "compile_header compile l = Some cl" "header_match cl hdr" by auto
  show ?case
  proof (cases "headerPredicateSubsumed e ls")
    case True
    with Cons show ?thesis by simp
  next
    case False
    with Cons.prems(1) have name: "CanonicalMIMEHeaderKey (TrimSpace (hm_name l)) =
        CanonicalMIMEHeaderKey (TrimSpace (hm_name e))"
      and which: "hm_op e = ''present'' \<or> hm_op l = hm_op e \<and> hm_value e = hm_value l"
      by (simp_all split: if_splits)
    from which show ?thesis
    proof
      assume op: "hm_op e = ''present''"
      have "hdr (chp_name cl) \<noteq> []" using cl(2) by (auto simp: header_match_def Let_def split: if_splits option.splits)
      moreover have "chp_name c = chp_name cl \<and> chp_op c = ''present''"
        using cl(1) assms(2) name op by (auto simp: compile_header_def Let_def split: if_splits option.splits)
      ultimately show ?thesis by (simp add: header_match_def)
    next
      assume "hm_op l = hm_op e \<and> hm_value e = hm_value l"
      then have "c = cl" using cl(1) assms(2) name by (simp add: compile_header_def Let_def)
      with cl(2) show ?thesis by simp
    qed
  qed
qed simp

lemma queryPredicateSubsumed_sound:
  assumes "queryPredicateSubsumed e ls" and "\<forall>l \<in> set ls. query_holds (compile_query l) pairs"
  shows "query_holds (compile_query e) pairs"
  using assms
proof (induction ls)
  case (Cons l ls)
  show ?case
  proof (cases "queryPredicateSubsumed e ls")
    case True
    with Cons show ?thesis by simp
  next
    case False
    with Cons.prems(1) have name: "qm_name l = qm_name e"
      and which: "qm_op e = ''present'' \<or> qm_op l = qm_op e \<and> qm_value e = qm_value l"
      by (simp_all split: if_splits)
    have l: "query_holds (compile_query l) pairs" using Cons.prems(2) by simp
    from which show ?thesis
    proof
      assume "qm_op e = ''present''"
      with l name show ?thesis by (auto simp: query_holds_def compile_query_def bexI)
    next
      assume "qm_op l = qm_op e \<and> qm_value e = qm_value l"
      with l name show ?thesis by (simp add: query_holds_def compile_query_def)
    qed
  qed
qed simp

lemma matchMethod_subsumed:
  assumes "cp_methods pe = Some me" and "cp_methods pl = Some ml" and "set ml \<subseteq> set me"
    and "cp_acceptsHEAD pl \<longrightarrow> cp_acceptsHEAD pe"
    and "cp_preflightWidening pl \<longrightarrow> cp_preflightWidening pe" and "matchMethod pl r"
  shows "matchMethod pe r"
  using assms by (auto simp: matchMethod_def list_ex_iff split: if_splits)

lemma compilePredicates_shape:
  assumes "HasPredicates (lc_match loc)" and "compilePredicates compile loc = Some po"
  obtains p where "po = Some p" and "compile_headers compile (m_headers (lc_match loc)) = Some (cp_headers p)"
    and "cp_query p = map compile_query (m_query (lc_match loc))"
    and "cp_preflightWidening p = LocationPreflightWidening loc"
    and "cp_methods p = (case m_methods (lc_match loc) of None \<Rightarrow> None | Some ms \<Rightarrow> copy_slice ms)"
    and "cp_acceptsHEAD p = (case m_methods (lc_match loc) of None \<Rightarrow> False | Some ms \<Rightarrow> ''GET'' \<in> set ms)"
proof -
  from assms obtain hs where hs: "compile_headers compile (m_headers (lc_match loc)) = Some hs"
    by (cases "compile_headers compile (m_headers (lc_match loc))") (simp_all add: compilePredicates_def Let_def)
  show thesis
    using assms hs by (intro that [of "the po"]) (auto simp: compilePredicates_def Let_def)
qed

lemma compiled_header_source:
  assumes "compile_headers compile hs = Some cs"
  shows "(\<forall>c \<in> set cs. \<exists>h \<in> set hs. compile_header compile h = Some c) \<and>
         (\<forall>h \<in> set hs. \<exists>c \<in> set cs. compile_header compile h = Some c)"
  using assms by (induction hs arbitrary: cs) (auto split: option.splits)

text \<open>What \<^verbatim>\<open>subsumes\<close> tests, on the configurations.\<close>

lemma subsumesD:
  assumes "subsumes earlier later" and "HasPredicates (lc_match earlier)"
  shows "methodsSubsume (m_methods (lc_match earlier)) (m_methods (lc_match later))"
    and "m_methods (lc_match earlier) \<noteq> None \<Longrightarrow> LocationPreflightWidening later \<Longrightarrow>
           LocationPreflightWidening earlier"
    and "\<forall>p \<in> set (m_headers (lc_match earlier)). headerPredicateSubsumed p (m_headers (lc_match later))"
    and "\<forall>p \<in> set (m_query (lc_match earlier)). queryPredicateSubsumed p (m_query (lc_match later))"
  using assms by (auto simp: subsumes_def Let_def list_all_iff split: if_splits)

lemma subsumes_HasPredicates:
  assumes "subsumes earlier later" and "HasPredicates (lc_match earlier)"
    and "m_methods (lc_match later) \<noteq> Some []"
  shows "HasPredicates (lc_match later)"
proof -
  note S = subsumesD [OF assms(1,2)]
  from assms(2) consider me where "m_methods (lc_match earlier) = Some me" "me \<noteq> []"
    | h where "h \<in> set (m_headers (lc_match earlier))" | q where "q \<in> set (m_query (lc_match earlier))"
    by (cases "m_methods (lc_match earlier)"; cases "m_headers (lc_match earlier)";
        cases "m_query (lc_match earlier)") (auto simp: HasPredicates_def)
  then show ?thesis
  proof cases
    case 1
    with S(1) obtain ml where "m_methods (lc_match later) = Some ml"
      by (auto simp: methodsSubsume_def split: option.splits)
    with assms(3) show ?thesis by (auto simp: HasPredicates_def)
  next
    case (2 h)
    with S(3) have "m_headers (lc_match later) \<noteq> []" by auto
    then show ?thesis by (simp add: HasPredicates_def)
  next
    case (3 q)
    with S(4) have "m_query (lc_match later) \<noteq> []" by auto
    then show ?thesis by (simp add: HasPredicates_def)
  qed
qed

lemma subsumes_sound:
  assumes sub: "subsumes earlier later"
    and ce: "compilePredicates compile earlier = Some pe"
    and cl: "compilePredicates compile later = Some pl"
    and ne: "m_methods (lc_match earlier) \<noteq> Some []" "m_methods (lc_match later) \<noteq> Some []"
    and m: "predicates_hold pl r"
  shows "predicates_hold pe r"
proof (cases "HasPredicates (lc_match earlier)")
  case False
  with ce have "pe = None" by (simp add: compilePredicates_def)
  then show ?thesis by (simp add: predicates_hold_def)
next
  case True
  note S = subsumesD [OF sub True]
  from compilePredicates_shape [OF True ce] obtain p1 where p1: "pe = Some p1"
    and H1: "compile_headers compile (m_headers (lc_match earlier)) = Some (cp_headers p1)"
    and Q1: "cp_query p1 = map compile_query (m_query (lc_match earlier))"
    and R1: "cp_preflightWidening p1 = LocationPreflightWidening earlier"
      "cp_methods p1 = (case m_methods (lc_match earlier) of None \<Rightarrow> None | Some ms \<Rightarrow> copy_slice ms)"
      "cp_acceptsHEAD p1 = (case m_methods (lc_match earlier) of None \<Rightarrow> False | Some ms \<Rightarrow> ''GET'' \<in> set ms)" .
  from compilePredicates_shape [OF subsumes_HasPredicates [OF sub True ne(2)] cl] obtain p2
    where p2: "pl = Some p2" and H2: "compile_headers compile (m_headers (lc_match later)) = Some (cp_headers p2)"
    and Q2: "cp_query p2 = map compile_query (m_query (lc_match later))"
    and R2: "cp_preflightWidening p2 = LocationPreflightWidening later"
      "cp_methods p2 = (case m_methods (lc_match later) of None \<Rightarrow> None | Some ms \<Rightarrow> copy_slice ms)"
      "cp_acceptsHEAD p2 = (case m_methods (lc_match later) of None \<Rightarrow> False | Some ms \<Rightarrow> ''GET'' \<in> set ms)" .
  have M: "matchMethod p2 r" "\<forall>h \<in> set (cp_headers p2). header_match h (req_header r)"
    "\<forall>c \<in> set (cp_query p2). query_holds c (parseBoundedQuery (req_raw_query r))"
    using m p2 by (simp_all add: predicates_hold_def)
  have "matchMethod p1 r"
  proof (cases "m_methods (lc_match earlier)")
    case (Some me)
    with S(1) obtain ml where "m_methods (lc_match later) = Some ml" "set ml \<subseteq> set me"
      by (auto simp: methodsSubsume_def list_all_iff split: option.splits)
    with Some ne R1 R2 S(2) M(1) show ?thesis
      by (intro matchMethod_subsumed [of p1 me p2 ml r]) (auto simp: copy_slice_def)
  qed (simp add: matchMethod_def R1)
  moreover have "header_match h (req_header r)" if "h \<in> set (cp_headers p1)" for h
    using that compiled_header_source [OF H1] compiled_header_source [OF H2] M(2) S(3)
      headerPredicateSubsumed_sound [of _ "m_headers (lc_match later)" compile h "req_header r"] by blast
  moreover have "query_holds c (parseBoundedQuery (req_raw_query r))" if "c \<in> set (cp_query p1)" for c
    using that S(4) M(3) queryPredicateSubsumed_sound by (auto simp: Q1 Q2)
  ultimately show ?thesis using p1 by (simp add: predicates_hold_def)
qed

end
