(* ===== verification/Hosts.thy ===== *)
theory Hosts
  imports Gostrings
begin

text \<open>
  \<^verbatim>\<open>src/internal/router/host.go\<close> and \<^verbatim>\<open>CanonicalHTTPHost\<close> of
  \<^verbatim>\<open>src/internal/middleware/responsewriter.go\<close>: the canonical form of a request host and
  of a configured server name, and how well a name matches a host.
\<close>

definition Count_byte :: "string \<Rightarrow> char \<Rightarrow> nat" where
  "Count_byte s c = length (filter (\<lambda>x. x = c) s)"

text \<open>\<^verbatim>\<open>strconv.Atoi\<close> of a string of digits fails when the value leaves an \<^verbatim>\<open>int\<close>.\<close>

definition validHTTPHostPort :: "string \<Rightarrow> bool" where
  "validHTTPHostPort port \<longleftrightarrow>
     port \<noteq> [] \<and> list_all is_digit port \<and> decimal port < 2 ^ 63 \<and> decimal port \<le> 65535"

definition CanonicalHTTPHost :: "string \<Rightarrow> string" where
  "CanonicalHTTPHost host =
     (let host = ToLower (TrimSpace host) in
      if HasPrefix host ''['' then
        (case index_byte (CHR '']'') host of
           Some e \<Rightarrow>
             let rest = drop (e + 1) host in
             if rest = [] \<or> HasPrefix rest '':'' \<and> validHTTPHostPort (drop 1 rest) then take (e + 1) host
             else []
         | None \<Rightarrow> [])
      else
        (let bare =
           (case last_index_byte (CHR '':'') host of
              None \<Rightarrow> Some host
            | Some e \<Rightarrow>
                if Count_byte host (CHR '':'') \<noteq> 1 \<or> \<not> validHTTPHostPort (drop (e + 1) host) then None
                else Some (take e host)) in
         case bare of
           None \<Rightarrow> []
         | Some host \<Rightarrow>
             let host = TrimSuffix host ''.'' in
             if HasPrefix host ''.'' \<or> HasSuffix host ''.'' \<or> Contains host ''..'' then [] else host))"

definition normalizeHost :: "string \<Rightarrow> string" where
  "normalizeHost host = CanonicalHTTPHost host"

definition code_of :: "char \<Rightarrow> nat" where
  "code_of c = of_char c"

definition needsServerNameNormalization :: "string \<Rightarrow> bool" where
  "needsServerNameNormalization name =
     (if name = [] then False
      else if code_of (hd name) \<le> 32 \<or> code_of (last name) \<le> 32 \<or> last name = CHR ''.'' then True
      else list_ex (\<lambda>c. 65 \<le> code_of c \<and> code_of c \<le> 90 \<or> code_of c \<ge> 128) name)"

definition normalizeServerName :: "string \<Rightarrow> string" where
  "normalizeServerName name =
     (if \<not> needsServerNameNormalization name then name
      else TrimSuffix (ToLower (TrimSpace name)) ''.'')"

definition normalizeServerNames :: "string list \<Rightarrow> string list" where
  "normalizeServerNames names = map normalizeServerName names"

definition wildcard_match :: "string \<Rightarrow> string \<Rightarrow> bool" where
  "wildcard_match name host \<longleftrightarrow>
     HasPrefix name ''*.'' \<and> (let suffix = drop 1 name in length host > length suffix \<and> HasSuffix host suffix)"

fun score_loop :: "nat \<Rightarrow> string list \<Rightarrow> string \<Rightarrow> nat" where
  "score_loop best [] host = best"
| "score_loop best (name # names) host =
     (if name = host then 3
      else if wildcard_match name host then score_loop (if best < 2 then 2 else best) names host
      else score_loop best names host)"

definition normalizedHostScore :: "string list \<Rightarrow> string \<Rightarrow> nat" where
  "normalizedHostScore names host = score_loop 0 names host"

fun hostScore_loop :: "nat \<Rightarrow> string list \<Rightarrow> string \<Rightarrow> nat" where
  "hostScore_loop best [] host = best"
| "hostScore_loop best (name # names) host =
     (let name = normalizeServerName name in
      if name = host then 3
      else if wildcard_match name host then hostScore_loop (if best < 2 then 2 else best) names host
      else hostScore_loop best names host)"

definition hostScore :: "string list \<Rightarrow> string \<Rightarrow> nat" where
  "hostScore names host = hostScore_loop 0 names host"

subsection \<open>Normalising once is enough\<close>

lemma space_code: "is_space c \<Longrightarrow> code_of c \<le> 32"
  by (auto simp: is_space_def code_of_def)

lemma ToLower_id: "\<forall>c \<in> set s. \<not> (65 \<le> code_of c \<and> code_of c \<le> 90) \<Longrightarrow> ToLower s = s"
  by (auto simp: ToLower_def to_lower_def code_of_def intro!: map_idI)

lemma normalizeServerName_full: "normalizeServerName name = TrimSuffix (ToLower (TrimSpace name)) ''.''"
proof (cases "needsServerNameNormalization name \<or> name = []")
  case True
  then show ?thesis
    by (auto simp: normalizeServerName_def needsServerNameNormalization_def TrimSpace_def trim_by_def
        ToLower_def TrimSuffix_def HasSuffix_def)
next
  case False
  then have n: "code_of (hd name) > 32" "code_of (last name) > 32" "last name \<noteq> CHR ''.''"
    "\<forall>c \<in> set name. \<not> (65 \<le> code_of c \<and> code_of c \<le> 90)"
    by (auto simp: needsServerNameNormalization_def list_ex_iff split: if_splits)
  have "TrimSpace name = name"
    unfolding TrimSpace_def using n(1,2) space_code by (intro trim_by_id) (fastforce dest: space_code)
  moreover have "\<not> HasSuffix name ''.''" using n(3) by (auto simp: HasSuffix_iff)
  ultimately show ?thesis using False ToLower_id [OF n(4)]
    by (simp add: normalizeServerName_def TrimSuffix_def)
qed

lemma hostScore_loop_normalized: "hostScore_loop best names host = score_loop best (normalizeServerNames names) host"
  by (induction names arbitrary: best) (simp_all add: normalizeServerNames_def Let_def)

lemma score_loop_meaning:
  assumes "best \<le> 2"
  shows "score_loop best names host =
    (if host \<in> set names then 3
     else if \<exists>n \<in> set names. wildcard_match n host then 2 else best)"
  using assms by (induction names arbitrary: best) auto

lemma hostScore_meaning:
  "hostScore names host =
     (let ns = map (\<lambda>n. TrimSuffix (ToLower (TrimSpace n)) ''.'') names in
      if host \<in> set ns then 3 else if \<exists>n \<in> set ns. wildcard_match n host then 2 else 0)"
  by (simp add: hostScore_def hostScore_loop_normalized score_loop_meaning normalizeServerNames_def
      normalizeServerName_full Let_def)

end
