(* ===== verification/Router.thy ===== *)
theory Router
  imports Predicates Hosts Affinity_Keys
begin

text \<open>
  \<^verbatim>\<open>src/internal/router\<close>: the compiled routing tables (\<^verbatim>\<open>router.go\<close>), the
  actions of a location (\<^verbatim>\<open>location.go\<close>), the selection of a location and the rewrite
  rules (\<^verbatim>\<open>matcher.go\<close>), and the explanation of a selection (\<^verbatim>\<open>explain.go\<close>).

  Handlers are opaque: a location keeps the name of the action its handler was built for, and
  serving a request ends in a value of \<open>outcome\<close>. The builders of content actions are the
  argument \<open>build\<close>, which says whether building the handler succeeds; \<open>secret\<close> stands for
  the test \<^verbatim>\<open>config.ContainsSecretRef\<close>. The header \<^verbatim>\<open>req_uri\<close> of the
  request record is the value of \<^verbatim>\<open>URL.RequestURI()\<close>.
\<close>

record compiledRewrite =
  rw_re :: regexp
  rw_replacement :: string
  rw_flag :: string

record locationRoute =
  lr_matchType :: string
  lr_path :: string
  lr_re :: "regexp option"
  lr_predicates :: "compiledPredicates option"
  lr_rewrites :: "compiledRewrite list"
  lr_withdrawn :: "ResponseHeaderOp list option"
  lr_handler :: string
  lr_metricRoute :: string
  lr_routeID :: string
  lr_sendTimeout :: duration
  lr_overrideSendTimeout :: bool
  lr_index :: nat

record serverRoute =
  sr_names :: "string list"
  sr_metricHost :: string
  sr_locations :: "locationRoute list"
  sr_exactLocations :: "locationRoute list"
  sr_exactByPath :: "(string \<rightharpoonup> locationRoute list) option"
  sr_prefixLocations :: "locationRoute list"
  sr_regexLocations :: "locationRoute list"
  sr_rootLocations :: "locationRoute list"
  sr_redirectHTTPS :: nat
  sr_sendTimeout :: duration
  sr_writeTimeout :: duration
  sr_index :: nat

record addrRouter =
  ar_servers :: "serverRoute list"
  ar_def :: "serverRoute option"

record ServerConfig =
  sc_listen :: string
  sc_names :: "string list"
  sc_redirectHTTPS :: nat
  sc_sendTimeout :: duration
  sc_writeTimeout :: duration
  sc_locations :: "LocationConfig list"

datatype route_error =
  BadLocationRegex nat
| BadPredicate nat
| BadRewrite nat
| NoAction nat
| BuilderError nat

subsection \<open>Actions\<close>

definition actionOf :: "LocationConfig \<Rightarrow> string option" where
  "actionOf loc =
     (if lc_deny loc then Some ''deny''
      else if lc_redirect loc \<noteq> [] then Some ''redirect''
      else if lc_return loc \<noteq> 0 then Some ''return''
      else if lc_proxy_pass loc \<noteq> [] then Some ''proxy''
      else if lc_fastcgi_pass loc \<noteq> [] \<or> lc_uwsgi_pass loc \<noteq> [] then Some ''fastcgi''
      else if lc_grpc_transcode loc then Some ''grpc_transcode''
      else if lc_plugin loc \<noteq> [] then Some ''plugin''
      else if lc_root loc \<noteq> [] then Some ''static''
      else None)"

text \<open>The status and the target of the handler of \<^verbatim>\<open>redirect\<close> and \<^verbatim>\<open>return\<close>.\<close>

definition redirectHandler :: "LocationConfig \<Rightarrow> nat \<times> string" where
  "redirectHandler loc =
     (let code = (if lc_redirect loc \<noteq> [] \<and> lc_return loc = 0 then 302 else lc_return loc) in
      (if code = 0 then 200 else code, lc_redirect loc))"

definition redirectToHTTPS :: "request \<Rightarrow> nat \<Rightarrow> nat \<times> string" where
  "redirectToHTTPS r code =
     (let code = (if code \<noteq> 301 \<and> code \<noteq> 308 then 301 else code);
          host = (case SplitHostPort (req_host r) of Some (h, _) \<Rightarrow> h | None \<Rightarrow> req_host r) in
      (code, ''https://'' @ host @ req_uri r))"

text \<open>The header operations of a withdrawn location, on a response header.\<close>

definition header_op :: "header \<Rightarrow> ResponseHeaderOp \<Rightarrow> header" where
  "header_op h o' =
     (let v = str_of (rho_value o') in
      if rho_op o' = ''add'' then header_Add h (rho_name o') v
      else if rho_op o' = ''set'' then header_Set h (rho_name o') v
      else if rho_op o' = ''remove'' then header_Del h (rho_name o')
      else h)"

definition buildWithdrawnHandler :: "ResponseHeaderOp list \<Rightarrow> header \<Rightarrow> header \<times> nat" where
  "buildWithdrawnHandler ops h =
     (let h = foldl header_op h ops;
          h = header_Set h ''Cache-Control'' ''no-store'';
          h = header_Del h ''Expires'' in (h, 403))"

subsection \<open>Building the tables\<close>

definition exactMapThreshold :: nat where
  "exactMapThreshold = 4"

definition is_exact :: "locationRoute \<Rightarrow> bool" where
  "is_exact l \<longleftrightarrow> lr_matchType l = ''exact''"

definition is_regex :: "locationRoute \<Rightarrow> bool" where
  "is_regex l \<longleftrightarrow> \<not> is_exact l \<and> lr_matchType l = ''regex''"

definition is_root :: "locationRoute \<Rightarrow> bool" where
  "is_root l \<longleftrightarrow> \<not> is_exact l \<and> \<not> is_regex l \<and> lr_path l = ''/''"

definition is_prefix :: "locationRoute \<Rightarrow> bool" where
  "is_prefix l \<longleftrightarrow> \<not> is_exact l \<and> \<not> is_regex l \<and> \<not> is_root l"

definition add_exact ::
  "(string \<rightharpoonup> locationRoute list) \<Rightarrow> locationRoute \<Rightarrow> (string \<rightharpoonup> locationRoute list)" where
  "add_exact m l =
     m(lr_path l \<mapsto> (case m (lr_path l) of None \<Rightarrow> [] | Some ls \<Rightarrow> ls) @ [l])"

definition indexLocations :: "serverRoute \<Rightarrow> serverRoute" where
  "indexLocations s =
     (let ls = sr_locations s; exact = filter is_exact ls in
      s\<lparr>sr_exactLocations := exact,
        sr_exactByPath :=
          (if length exact > exactMapThreshold then Some (foldl add_exact Map.empty exact) else None),
        sr_prefixLocations := sort_key (\<lambda>l. - int (length (lr_path l))) (filter is_prefix ls),
        sr_regexLocations := filter is_regex ls,
        sr_rootLocations := filter is_root ls\<rparr>)"

fun compileRewrites :: "(string \<Rightarrow> regexp option) \<Rightarrow> RewriteConfig list \<Rightarrow> compiledRewrite list option" where
  "compileRewrites compile [] = Some []"
| "compileRewrites compile (rule # rules) =
     (case compile (rw_pattern rule) of
        None \<Rightarrow> None
      | Some re \<Rightarrow>
          (case compileRewrites compile rules of
             None \<Rightarrow> None
           | Some out \<Rightarrow> Some (\<lparr>rw_re = re, rw_replacement = rw_replacement_of rule,
                                rw_flag = rw_flag_of rule\<rparr> # out)))"

definition compile_path :: "(string \<Rightarrow> regexp option) \<Rightarrow> MatchConfig \<Rightarrow> regexp option option" where
  "compile_path compile m =
     (if m_type m = ''regex''
      then (case compile (m_path m) of None \<Rightarrow> None | Some re \<Rightarrow> Some (Some re))
      else Some None)"

text \<open>One iteration of the loop of \<^verbatim>\<open>buildServerRoute\<close>.\<close>

definition build_location ::
  "(string \<Rightarrow> regexp option) \<Rightarrow> (string \<Rightarrow> LocationConfig \<Rightarrow> bool) \<Rightarrow> (string \<Rightarrow> bool) \<Rightarrow>
   nat \<Rightarrow> LocationConfig \<Rightarrow> route_error + locationRoute" where
  "build_location compile build secret i loc =
     (case compile_path compile (lc_match loc) of
        None \<Rightarrow> Inl (BadLocationRegex i)
      | Some re \<Rightarrow>
     (case compilePredicates compile loc of
        None \<Rightarrow> Inl (BadPredicate i)
      | Some predicates \<Rightarrow>
     (case compileRewrites compile (lc_rewrites loc) of
        None \<Rightarrow> Inl (BadRewrite i)
      | Some rewrites \<Rightarrow>
     (case actionOf loc of
        None \<Rightarrow> Inl (NoAction i)
      | Some action \<Rightarrow>
          if \<not> build action loc then Inl (BuilderError i)
          else
            (let id = str_of (lc_route_id loc) in
             Inr \<lparr>lr_matchType = m_type (lc_match loc), lr_path = m_path (lc_match loc), lr_re = re,
                  lr_predicates = predicates, lr_rewrites = rewrites,
                  lr_withdrawn = (if lc_withdrawn loc then Some (lc_response_headers loc) else None),
                  lr_handler = action,
                  lr_metricRoute = (if id \<noteq> [] then id else ''_unidentified''),
                  lr_routeID = (if id \<noteq> [] \<and> \<not> secret id then id else []),
                  lr_sendTimeout = (case lc_send_timeout loc of None \<Rightarrow> 0 | Some d \<Rightarrow> d),
                  lr_overrideSendTimeout = (lc_send_timeout loc \<noteq> None), lr_index = i\<rparr>)))))"

fun build_locations ::
  "(string \<Rightarrow> regexp option) \<Rightarrow> (string \<Rightarrow> LocationConfig \<Rightarrow> bool) \<Rightarrow> (string \<Rightarrow> bool) \<Rightarrow>
   nat \<Rightarrow> LocationConfig list \<Rightarrow> route_error + locationRoute list" where
  "build_locations compile build secret i [] = Inr []"
| "build_locations compile build secret i (loc # locs) =
     (case build_location compile build secret i loc of
        Inl e \<Rightarrow> Inl e
      | Inr l \<Rightarrow>
          (case build_locations compile build secret (Suc i) locs of
             Inl e \<Rightarrow> Inl e
           | Inr ls \<Rightarrow> Inr (l # ls)))"

definition buildServerRoute ::
  "(string \<Rightarrow> regexp option) \<Rightarrow> (string \<Rightarrow> LocationConfig \<Rightarrow> bool) \<Rightarrow> (string \<Rightarrow> bool) \<Rightarrow>
   ServerConfig \<Rightarrow> route_error + serverRoute" where
  "buildServerRoute compile build secret srv =
     (case build_locations compile build secret 0 (sc_locations srv) of
        Inl e \<Rightarrow> Inl e
      | Inr ls \<Rightarrow>
          Inr (indexLocations
            \<lparr>sr_names = normalizeServerNames (sc_names srv),
             sr_metricHost = (case sc_names srv of [] \<Rightarrow> [] | n # _ \<Rightarrow> normalizeHost n),
             sr_locations = ls, sr_exactLocations = [], sr_exactByPath = None,
             sr_prefixLocations = [], sr_regexLocations = [], sr_rootLocations = [],
             sr_redirectHTTPS = sc_redirectHTTPS srv, sr_sendTimeout = sc_sendTimeout srv,
             sr_writeTimeout = sc_writeTimeout srv, sr_index = 0\<rparr>))"

type_synonym Router = "string \<rightharpoonup> addrRouter"

definition add_server :: "Router \<Rightarrow> string \<Rightarrow> serverRoute \<Rightarrow> Router" where
  "add_server byAddr listen sr =
     (let ar = (case byAddr listen of None \<Rightarrow> \<lparr>ar_servers = [], ar_def = None\<rparr> | Some ar \<Rightarrow> ar);
          sr = (case ar_def ar of None \<Rightarrow> sr | Some d \<Rightarrow> sr\<lparr>sr_writeTimeout := sr_writeTimeout d\<rparr>) in
      byAddr(listen \<mapsto>
        \<lparr>ar_servers = ar_servers ar @ [sr],
         ar_def = (case ar_def ar of None \<Rightarrow> Some sr | Some d \<Rightarrow> Some d)\<rparr>))"

fun New_loop ::
  "(string \<Rightarrow> regexp option) \<Rightarrow> (string \<Rightarrow> LocationConfig \<Rightarrow> bool) \<Rightarrow> (string \<Rightarrow> bool) \<Rightarrow>
   nat \<Rightarrow> Router \<Rightarrow> ServerConfig list \<Rightarrow> route_error + Router" where
  "New_loop compile build secret i byAddr [] = Inr byAddr"
| "New_loop compile build secret i byAddr (srv # srvs) =
     (if sc_listen srv = [] then New_loop compile build secret (Suc i) byAddr srvs
      else case buildServerRoute compile build secret srv of
             Inl e \<Rightarrow> Inl e
           | Inr sr \<Rightarrow>
               New_loop compile build secret (Suc i)
                 (add_server byAddr (sc_listen srv) (sr\<lparr>sr_index := i\<rparr>)) srvs)"

definition New ::
  "(string \<Rightarrow> regexp option) \<Rightarrow> (string \<Rightarrow> LocationConfig \<Rightarrow> bool) \<Rightarrow> (string \<Rightarrow> bool) \<Rightarrow>
   ServerConfig list \<Rightarrow> route_error + Router" where
  "New compile build secret servers = New_loop compile build secret 0 Map.empty servers"

subsection \<open>Selection\<close>

definition server_score :: "serverRoute \<Rightarrow> string \<Rightarrow> nat" where
  "server_score s host = normalizedHostScore (sr_names s) host"

fun match_loop :: "string \<Rightarrow> serverRoute option \<Rightarrow> nat \<Rightarrow> serverRoute list \<Rightarrow> serverRoute option \<times> nat" where
  "match_loop h best bestScore [] = (best, bestScore)"
| "match_loop h best bestScore (s # ss) =
     (let sc = server_score s h in
      if sc > bestScore then match_loop h (Some s) sc ss else match_loop h best bestScore ss)"

definition addr_match :: "addrRouter \<Rightarrow> string \<Rightarrow> serverRoute option \<times> bool" where
  "addr_match ar host =
     (let (best, bestScore) = match_loop (normalizeHost host) (ar_def ar) 0 (ar_servers ar) in
      (best, bestScore > 0))"

text \<open>A visitor gets the tier and the location, and says whether the enumeration ends.\<close>

fun visit_tier ::
  "(locationRoute \<Rightarrow> bool) \<Rightarrow> (locationRoute \<Rightarrow> 's \<Rightarrow> bool \<times> 's) \<Rightarrow> locationRoute list \<Rightarrow> 's \<Rightarrow> bool \<times> 's" where
  "visit_tier guard visit [] st = (False, st)"
| "visit_tier guard visit (l # ls) st =
     (if \<not> guard l then visit_tier guard visit ls st
      else case visit l st of
             (True, st') \<Rightarrow> (True, st')
           | (False, st') \<Rightarrow> visit_tier guard visit ls st')"

definition regex_hit :: "string \<Rightarrow> locationRoute \<Rightarrow> bool" where
  "regex_hit path l = (case lr_re l of None \<Rightarrow> False | Some re \<Rightarrow> MatchString re path)"

definition exact_tier ::
  "serverRoute \<Rightarrow> string \<Rightarrow> (locationRoute \<Rightarrow> 's \<Rightarrow> bool \<times> 's) \<Rightarrow> 's \<Rightarrow> bool \<times> 's" where
  "exact_tier s path visit st =
     (case sr_exactByPath s of
        Some m \<Rightarrow> visit_tier (\<lambda>l. True) visit (case m path of None \<Rightarrow> [] | Some ls \<Rightarrow> ls) st
      | None \<Rightarrow> visit_tier (\<lambda>l. lr_path l = path) visit (sr_exactLocations s) st)"

definition eachCandidate ::
  "serverRoute \<Rightarrow> string \<Rightarrow> (nat \<Rightarrow> locationRoute \<Rightarrow> 's \<Rightarrow> bool \<times> 's) \<Rightarrow> 's \<Rightarrow> 's" where
  "eachCandidate s path visit st =
     (case exact_tier s path (visit 1) st of
        (True, st) \<Rightarrow> st
      | (False, st) \<Rightarrow>
     (case visit_tier (\<lambda>l. HasPrefix path (lr_path l)) (visit 2) (sr_prefixLocations s) st of
        (True, st) \<Rightarrow> st
      | (False, st) \<Rightarrow>
     (case visit_tier (regex_hit path) (visit 3) (sr_regexLocations s) st of
        (True, st) \<Rightarrow> st
      | (False, st) \<Rightarrow>
          snd (visit_tier (\<lambda>l. HasPrefix path ''/'') (visit 4) (sr_rootLocations s) st))))"

definition select_visit ::
  "request \<Rightarrow> nat \<Rightarrow> locationRoute \<Rightarrow> requestQuery \<times> locationRoute option \<Rightarrow>
   bool \<times> requestQuery \<times> locationRoute option" where
  "select_visit r tier loc st =
     (case predicates_match (lr_predicates loc) r (fst st) of
        ((True, _), q) \<Rightarrow> (True, q, Some loc)
      | ((False, _), q) \<Rightarrow> (False, q, snd st))"

definition selectLocation :: "serverRoute \<Rightarrow> request \<Rightarrow> locationRoute option" where
  "selectLocation s r =
     snd (eachCandidate s (req_path r) (select_visit r) (new_query (req_raw_query r), None))"

subsection \<open>Rewrites and serving\<close>

function localRedirectTarget :: "string \<Rightarrow> string" where
  "localRedirectTarget target =
     (if \<not> HasPrefix target ''/'' then target
      else if length target > 1 \<and> (target ! 1 = slash \<or> target ! 1 = CHR 0x5C)
      then localRedirectTarget (''/'' @ drop 2 target)
      else target)"
  by auto
termination by (relation "measure length") auto

declare localRedirectTarget.simps [simp del]

datatype rewritten =
  Redirected nat string
| Rewritten string

fun applyRewrites :: "compiledRewrite list \<Rightarrow> string \<Rightarrow> rewritten" where
  "applyRewrites [] path = Rewritten path"
| "applyRewrites (rw # rules) path =
     (if \<not> MatchString (rw_re rw) path then applyRewrites rules path
      else let target = ReplaceAllString (rw_re rw) path (rw_replacement rw) in
           if rw_flag rw = ''redirect'' then Redirected 302 (localRedirectTarget target)
           else if rw_flag rw = ''permanent'' then Redirected 301 (localRedirectTarget target)
           else if rw_flag rw = ''last'' \<or> rw_flag rw = ''break'' then Rewritten target
           else applyRewrites rules target)"

datatype outcome =
  NotFound
| ToHTTPS nat string
| Withdrawn locationRoute
| RewriteRedirect locationRoute nat string
| Serve locationRoute request

definition canonical_request :: "request \<Rightarrow> request" where
  "canonical_request r =
     (case canonicalizeRequest (req_path r, req_raw_path r) of
        (p, raw) \<Rightarrow> r\<lparr>req_path := p, req_raw_path := raw\<rparr>)"

definition For :: "Router \<Rightarrow> string \<Rightarrow> request \<Rightarrow> outcome" where
  "For byAddr addr req =
     (case byAddr addr of
        None \<Rightarrow> NotFound
      | Some ar \<Rightarrow>
     (case addr_match ar (req_host req) of
        (None, _) \<Rightarrow> NotFound
      | (Some srv, _) \<Rightarrow>
          if sr_redirectHTTPS srv \<noteq> 0 \<and> \<not> req_tls req then
            (case redirectToHTTPS req (sr_redirectHTTPS srv) of (code, target) \<Rightarrow> ToHTTPS code target)
          else
            (let req = canonical_request req in
             case selectLocation srv req of
               None \<Rightarrow> NotFound
             | Some loc \<Rightarrow>
                 if lr_withdrawn loc \<noteq> None then Withdrawn loc
                 else case applyRewrites (lr_rewrites loc) (req_path req) of
                        Redirected code target \<Rightarrow> RewriteRedirect loc code target
                      | Rewritten path \<Rightarrow> Serve loc (req\<lparr>req_path := path\<rparr>))))"

subsection \<open>Explaining a selection\<close>

record RouteCandidate =
  rc_ServerIndex :: nat
  rc_LocationIndex :: nat
  rc_Tier :: nat
  rc_MatchType :: string
  rc_Path :: string
  rc_Selected :: bool
  rc_Rejection :: string

record Explanation =
  ex_ServerMatched :: bool
  ex_ServerIndex :: nat
  ex_Candidates :: "RouteCandidate list"
  ex_Selected :: int

definition SelectedCandidate :: "Explanation \<Rightarrow> RouteCandidate option" where
  "SelectedCandidate e =
     (if ex_Selected e < 0 \<or> ex_Selected e \<ge> int (length (ex_Candidates e)) then None
      else Some (ex_Candidates e ! nat (ex_Selected e)))"

definition candidate_of :: "serverRoute \<Rightarrow> nat \<Rightarrow> locationRoute \<Rightarrow> RouteCandidate" where
  "candidate_of srv tier loc =
     \<lparr>rc_ServerIndex = sr_index srv, rc_LocationIndex = lr_index loc, rc_Tier = tier,
      rc_MatchType = normalizedMatchType (lr_matchType loc), rc_Path = lr_path loc,
      rc_Selected = False, rc_Rejection = []\<rparr>"

definition explain_visit ::
  "serverRoute \<Rightarrow> request \<Rightarrow> nat \<Rightarrow> locationRoute \<Rightarrow> requestQuery \<times> Explanation \<Rightarrow>
   bool \<times> requestQuery \<times> Explanation" where
  "explain_visit srv r tier loc st =
     (case st of (q, out) \<Rightarrow>
      let candidate = candidate_of srv tier loc in
      case predicates_match (lr_predicates loc) r q of
        ((True, _), q') \<Rightarrow>
          (let cs = ex_Candidates out @ [candidate\<lparr>rc_Selected := True\<rparr>] in
           (True, q', out\<lparr>ex_Candidates := cs, ex_Selected := int (length cs) - 1\<rparr>))
      | ((False, failure), q') \<Rightarrow>
          (False, q', out\<lparr>ex_Candidates :=
             ex_Candidates out @ [candidate\<lparr>rc_Rejection := failure_field failure\<rparr>]\<rparr>))"

definition beats :: "nat \<Rightarrow> serverRoute \<Rightarrow> nat \<Rightarrow> serverRoute option \<Rightarrow> bool" where
  "beats score srv bestScore best \<longleftrightarrow>
     (case best of
        None \<Rightarrow> True
      | Some b \<Rightarrow> score > bestScore \<or> score = bestScore \<and> sr_index srv < sr_index b)"

definition dry_score :: "serverRoute \<Rightarrow> string \<Rightarrow> nat" where
  "dry_score srv h =
     (let score = server_score srv h in if score = 0 \<and> sr_names srv = [] then 1 else score)"

fun best_server_loop ::
  "string \<Rightarrow> serverRoute option \<times> nat \<Rightarrow> serverRoute list \<Rightarrow> serverRoute option \<times> nat" where
  "best_server_loop h (best, bestScore) [] = (best, bestScore)"
| "best_server_loop h (best, bestScore) (srv # srvs) =
     (let score = dry_score srv h in
      if score = 0 then best_server_loop h (best, bestScore) srvs
      else if beats score srv bestScore best then best_server_loop h (Some srv, score) srvs
      else best_server_loop h (best, bestScore) srvs)"

text \<open>\<open>ars\<close> lists the address routers in the order the iteration over the map yields them.\<close>

definition bestServerForHost :: "addrRouter list \<Rightarrow> string \<Rightarrow> serverRoute option" where
  "bestServerForHost ars host =
     fst (best_server_loop (normalizeHost host) (None, 0) (concat (map ar_servers ars)))"

definition Explain :: "addrRouter list \<Rightarrow> string \<Rightarrow> request \<Rightarrow> Explanation" where
  "Explain ars host req =
     (let out = \<lparr>ex_ServerMatched = False, ex_ServerIndex = 0, ex_Candidates = [], ex_Selected = -1\<rparr> in
      case bestServerForHost ars host of
        None \<Rightarrow> out
      | Some srv \<Rightarrow>
          snd (eachCandidate srv (canonicalPath (req_path req)) (explain_visit srv req)
            (new_query (req_raw_query req), out\<lparr>ex_ServerMatched := True, ex_ServerIndex := sr_index srv\<rparr>)))"

text \<open>The dry run over a server block that has not been built.\<close>

fun path_routes ::
  "(string \<Rightarrow> regexp option) \<Rightarrow> nat \<Rightarrow> LocationConfig list \<Rightarrow> locationRoute list option" where
  "path_routes compile i [] = Some []"
| "path_routes compile i (loc # locs) =
     (case compile_path compile (lc_match loc) of
        None \<Rightarrow> None
      | Some re \<Rightarrow>
          (case path_routes compile (Suc i) locs of
             None \<Rightarrow> None
           | Some ls \<Rightarrow>
               Some (\<lparr>lr_matchType = m_type (lc_match loc), lr_path = m_path (lc_match loc), lr_re = re,
                      lr_predicates = None, lr_rewrites = [], lr_withdrawn = None, lr_handler = [],
                      lr_metricRoute = [], lr_routeID = [], lr_sendTimeout = 0,
                      lr_overrideSendTimeout = False, lr_index = i\<rparr> # ls)))"

definition PathCandidateIndices ::
  "(string \<Rightarrow> regexp option) \<Rightarrow> ServerConfig \<Rightarrow> string \<Rightarrow> nat list option" where
  "PathCandidateIndices compile srv rawPath =
     (case path_routes compile 0 (sc_locations srv) of
        None \<Rightarrow> None
      | Some ls \<Rightarrow>
          Some (eachCandidate
            (indexLocations
              \<lparr>sr_names = [], sr_metricHost = [], sr_locations = ls, sr_exactLocations = [],
               sr_exactByPath = None, sr_prefixLocations = [], sr_regexLocations = [],
               sr_rootLocations = [], sr_redirectHTTPS = 0, sr_sendTimeout = 0, sr_writeTimeout = 0,
               sr_index = 0\<rparr>)
            (canonicalPath rawPath)
            (\<lambda>tier loc indices.
               (\<not> HasPredicates (lc_match (sc_locations srv ! lr_index loc)), indices @ [lr_index loc]))
            []))"

end
