(* ===== verification/Router_Props.thy ===== *)
theory Router_Props
  imports Router
begin

text \<open>
  Properties of the router: the selection against an abstract specification of precedence,
  the explanation against the selection, the lint rule for shadowed locations, the dry-run
  server choice, and the redirects. The enumeration of candidates is reduced once to a list
  (\<open>route_candidates\<close>), and every visitor is then a fold over that list.
\<close>

subsection \<open>The enumeration as a list\<close>

fun visit_list ::
  "(nat \<Rightarrow> locationRoute \<Rightarrow> 's \<Rightarrow> bool \<times> 's) \<Rightarrow> (nat \<times> locationRoute) list \<Rightarrow> 's \<Rightarrow> bool \<times> 's" where
  "visit_list visit [] st = (False, st)"
| "visit_list visit (c # cs) st =
     (case visit (fst c) (snd c) st of
        (True, st') \<Rightarrow> (True, st')
      | (False, st') \<Rightarrow> visit_list visit cs st')"

definition tier_of :: "locationRoute \<Rightarrow> nat" where
  "tier_of l = (if is_exact l then 1 else if is_regex l then 3 else if is_root l then 4 else 2)"

definition path_matches :: "string \<Rightarrow> locationRoute \<Rightarrow> bool" where
  "path_matches path l =
     (if is_exact l then lr_path l = path
      else if is_regex l then regex_hit path l
      else HasPrefix path (lr_path l))"

definition route_candidates :: "locationRoute list \<Rightarrow> string \<Rightarrow> (nat \<times> locationRoute) list" where
  "route_candidates ls path =
     (let hit = (\<lambda>k. filter (\<lambda>l. tier_of l = k \<and> path_matches path l) ls) in
      map (Pair 1) (hit 1) @ map (Pair 2) (sort_key (\<lambda>l. - int (length (lr_path l))) (hit 2)) @
      map (Pair 3) (hit 3) @ map (Pair 4) (hit 4))"

lemma visit_tier_filter:
  "visit_tier guard (visit k) ls st = visit_list visit (map (Pair k) (filter guard ls)) st"
  by (induction ls arbitrary: st) (auto split: prod.splits bool.splits)

lemma visit_list_append:
  "visit_list visit (xs @ ys) st =
     (case visit_list visit xs st of (True, st') \<Rightarrow> (True, st') | (False, st') \<Rightarrow> visit_list visit ys st')"
  by (induction xs arbitrary: st) (auto split: prod.splits bool.splits)

lemma foldl_add_exact:
  "foldl add_exact m ls p =
     (let old = (case m p of None \<Rightarrow> [] | Some xs \<Rightarrow> xs); new = filter (\<lambda>l. lr_path l = p) ls in
      if new = [] then m p else Some (old @ new))"
  by (induction ls arbitrary: m) (auto simp: add_exact_def Let_def split: option.splits)

lemma exact_tier_list:
  assumes "s = indexLocations s0"
  shows "exact_tier s path (visit 1) st =
    visit_list visit (map (Pair 1) (filter (\<lambda>l. is_exact l \<and> lr_path l = path) (sr_locations s0))) st"
proof (cases "length (filter is_exact (sr_locations s0)) > exactMapThreshold")
  case True
  let ?ex = "filter is_exact (sr_locations s0)"
  have "sr_exactByPath s = Some (foldl add_exact Map.empty ?ex)"
    using True assms by (simp add: indexLocations_def Let_def)
  moreover have "(case foldl add_exact Map.empty ?ex path of None \<Rightarrow> [] | Some ls \<Rightarrow> ls) =
      filter (\<lambda>l. lr_path l = path) ?ex"
    by (simp add: foldl_add_exact Let_def)
  ultimately show ?thesis
    by (simp add: exact_tier_def visit_tier_filter conj_commute cong: conj_cong)
next
  case False
  then have "sr_exactByPath s = None" "sr_exactLocations s = filter is_exact (sr_locations s0)"
    using assms by (simp_all add: indexLocations_def Let_def)
  then show ?thesis by (simp add: exact_tier_def visit_tier_filter conj_commute cong: conj_cong)
qed

lemma HasPrefix_root: "is_root l \<Longrightarrow> HasPrefix path (lr_path l) = HasPrefix path ''/''"
  by (simp add: is_root_def)

lemma tier_filters:
  "filter (\<lambda>l. tier_of l = 1 \<and> path_matches path l) ls = filter (\<lambda>l. is_exact l \<and> lr_path l = path) ls"
  "filter (\<lambda>l. tier_of l = 2 \<and> path_matches path l) ls =
     filter (\<lambda>l. HasPrefix path (lr_path l)) (filter is_prefix ls)"
  "filter (\<lambda>l. tier_of l = 3 \<and> path_matches path l) ls = filter (regex_hit path) (filter is_regex ls)"
  "filter (\<lambda>l. tier_of l = 4 \<and> path_matches path l) ls =
     filter (\<lambda>l. HasPrefix path ''/'') (filter is_root ls)"
  by (auto simp: tier_of_def path_matches_def is_prefix_def is_root_def is_regex_def intro!: filter_cong)

lemma eachCandidate_list:
  assumes "s = indexLocations s0"
  shows "eachCandidate s path visit st = snd (visit_list visit (route_candidates (sr_locations s0) path) st)"
proof -
  have pr: "filter P (sr_prefixLocations s) = sort_key (\<lambda>l. - int (length (lr_path l))) (filter P (filter is_prefix (sr_locations s0)))"
    for P using assms by (simp add: indexLocations_def Let_def filter_sort)
  have "sr_regexLocations s = filter is_regex (sr_locations s0)" "sr_rootLocations s = filter is_root (sr_locations s0)"
    using assms by (simp_all add: indexLocations_def Let_def)
  then show ?thesis
    unfolding eachCandidate_def exact_tier_list [OF assms] visit_tier_filter pr route_candidates_def Let_def
      visit_list_append tier_filters
    by (auto split: prod.splits bool.splits)
qed

subsection \<open>Precedence\<close>

text \<open>The specification: when a location comes before another, with no tables and no
  enumeration; and what the selected location has to be.\<close>

definition outranks :: "locationRoute \<Rightarrow> locationRoute \<Rightarrow> bool" where
  "outranks a b \<longleftrightarrow>
     tier_of a < tier_of b \<or>
     tier_of a = tier_of b \<and>
       (if tier_of a = 2 \<and> length (lr_path a) \<noteq> length (lr_path b)
        then length (lr_path a) > length (lr_path b) else lr_index a < lr_index b)"

definition location_matches :: "request \<Rightarrow> locationRoute \<Rightarrow> bool" where
  "location_matches r l \<longleftrightarrow> path_matches (req_path r) l \<and> predicates_hold (lr_predicates l) r"

definition selected_by_precedence :: "locationRoute list \<Rightarrow> request \<Rightarrow> locationRoute option \<Rightarrow> bool" where
  "selected_by_precedence ls r res =
     (case res of
        None \<Rightarrow> \<forall>l \<in> set ls. \<not> location_matches r l
      | Some l \<Rightarrow> l \<in> set ls \<and> location_matches r l \<and>
                  (\<forall>l' \<in> set ls. location_matches r l' \<longrightarrow> l' = l \<or> outranks l l'))"

abbreviation declared :: "locationRoute list \<Rightarrow> bool" where
  "declared ls \<equiv> sorted_wrt (\<lambda>a b. lr_index a < lr_index b) ls"

lemma insort_key_ordered:
  fixes f :: "'a \<Rightarrow> int" and i :: "'a \<Rightarrow> nat"
  assumes "sorted_wrt (\<lambda>a b. f a < f b \<or> f a = f b \<and> i a < i b) xs" and "\<forall>y \<in> set xs. i x < i y"
  shows "sorted_wrt (\<lambda>a b. f a < f b \<or> f a = f b \<and> i a < i b) (insort_key f x xs)"
  using assms by (induction xs) (auto simp: set_insort_key)

lemma sort_key_ordered:
  fixes f :: "'a \<Rightarrow> int" and i :: "'a \<Rightarrow> nat"
  assumes "sorted_wrt (\<lambda>a b. i a < i b) xs"
  shows "sorted_wrt (\<lambda>a b. f a < f b \<or> f a = f b \<and> i a < i b) (sort_key f xs)"
  using assms
proof (induction xs)
  case (Cons x xs)
  then have "sort_key f (x # xs) = insort_key f x (sort_key f xs)" by (simp add: sort_key_def)
  with Cons insort_key_ordered [of f i "sort_key f xs" x] show ?case by simp
qed simp

lemma declared_filter: "declared ls \<Longrightarrow> declared (filter P ls)"
  by (induction ls) auto

lemma route_candidates_set: "set (route_candidates ls path) = {(tier_of l, l) | l. l \<in> set ls \<and> path_matches path l}"
proof -
  have t: "tier_of l = 1 \<or> tier_of l = 2 \<or> tier_of l = 3 \<or> tier_of l = 4" for l
    by (simp add: tier_of_def)
  have "(k, l) \<in> set (route_candidates ls path) \<longleftrightarrow> k = tier_of l \<and> l \<in> set ls \<and> path_matches path l" for k l
    using t [of l] by (auto simp: route_candidates_def Let_def)
  then show ?thesis by auto
qed

lemma sorted_wrt_tier:
  assumes "sorted_wrt P xs" and "\<forall>x \<in> set xs. tier_of x = k"
    and "\<And>a b. P a b \<Longrightarrow> tier_of a = k \<Longrightarrow> tier_of b = k \<Longrightarrow> outranks a b"
  shows "sorted_wrt outranks xs"
  using assms(1,2) by (induction xs) (auto intro: assms(3))

lemma route_candidates_sorted:
  assumes "declared ls"
  shows "sorted_wrt outranks (map snd (route_candidates ls path))"
proof -
  let ?h = "\<lambda>k. filter (\<lambda>l. tier_of l = k \<and> path_matches path l) ls"
  let ?s = "sort_key (\<lambda>l. - int (length (lr_path l))) (?h 2)"
  have flat: "sorted_wrt outranks (?h k)" if "k \<noteq> 2" for k
    by (rule sorted_wrt_tier [OF declared_filter [OF assms], where k = k]) (use that in \<open>auto simp: outranks_def\<close>)
  have pre: "sorted_wrt outranks ?s"
    by (rule sorted_wrt_tier [OF sort_key_ordered [OF declared_filter [OF assms]], where k = 2])
       (auto simp: outranks_def)
  have "map snd (route_candidates ls path) = ?h 1 @ ?s @ ?h 3 @ ?h 4"
    by (simp add: route_candidates_def Let_def comp_def)
  then show ?thesis using flat [of 1] flat [of 3] flat [of 4] pre
    by (auto simp: sorted_wrt_append outranks_def)
qed

lemma visit_list_select:
  assumes "rq_ok (req_raw_query r) q"
  shows "snd (snd (visit_list (select_visit r) cs (q, None))) =
    map_option snd (find (\<lambda>c. predicates_hold (lr_predicates (snd c)) r) cs)"
  using assms
proof (induction cs arbitrary: q)
  case (Cons c cs)
  obtain b f q' where m: "predicates_match (lr_predicates (snd c)) r q = ((b, f), q')"
    by (metis prod.exhaust)
  note P = predicates_match_holds [OF Cons.prems m]
  then show ?case using m Cons.IH [of q'] by (cases b) (auto simp: select_visit_def)
qed simp

lemma selectLocation_find:
  assumes "s = indexLocations s0"
  shows "selectLocation s r = map_option snd
    (find (\<lambda>c. predicates_hold (lr_predicates (snd c)) r) (route_candidates (sr_locations s0) (req_path r)))"
  by (simp add: selectLocation_def eachCandidate_list [OF assms] visit_list_select)

lemma find_first:
  assumes "find P xs = Some x" and "sorted_wrt R xs"
  shows "x \<in> set xs \<and> P x \<and> (\<forall>y \<in> set xs. P y \<longrightarrow> y = x \<or> R x y)"
  using assms by (induction xs) (auto split: if_splits)

lemma selectLocation_precedence:
  assumes "s = indexLocations s0" and "declared (sr_locations s0)"
  shows "selected_by_precedence (sr_locations s0) r (selectLocation s r)"
proof (cases "find (\<lambda>c. predicates_hold (lr_predicates (snd c)) r) (route_candidates (sr_locations s0) (req_path r))")
  case None
  then have "\<not> predicates_hold (lr_predicates l) r" if "l \<in> set (sr_locations s0)" "path_matches (req_path r) l" for l
    using that by (auto simp: find_None_iff route_candidates_set)
  then show ?thesis
    using None by (auto simp: selectLocation_find [OF assms(1)] selected_by_precedence_def location_matches_def)
next
  case (Some c)
  have "sorted_wrt (\<lambda>a b. outranks (snd a) (snd b)) (route_candidates (sr_locations s0) (req_path r))"
    using route_candidates_sorted [OF assms(2)] by (simp add: sorted_wrt_map)
  from find_first [OF Some this] show ?thesis
    using Some by (auto simp: selectLocation_find [OF assms(1)] selected_by_precedence_def
        location_matches_def route_candidates_set)
qed

subsection \<open>Tables built from a configuration\<close>

lemma build_location_index: "build_location compile build secret i loc = Inr l \<Longrightarrow> lr_index l = i"
  by (auto simp: build_location_def Let_def split: option.splits if_splits)

lemma build_locations_declared:
  "build_locations compile build secret i locs = Inr ls \<Longrightarrow> declared ls \<and> (\<forall>l \<in> set ls. i \<le> lr_index l)"
proof (induction locs arbitrary: i ls)
  case (Cons loc locs)
  then obtain l ls' where b: "build_location compile build secret i loc = Inr l"
    "build_locations compile build secret (Suc i) locs = Inr ls'" "ls = l # ls'"
    by (auto split: sum.splits)
  with Cons.IH [OF b(2)] build_location_index [OF b(1)] show ?case by fastforce
qed simp

lemma buildServerRoute_indexed:
  assumes "buildServerRoute compile build secret srv = Inr sr"
  shows "sr = indexLocations sr"
    and "build_locations compile build secret 0 (sc_locations srv) = Inr (sr_locations sr)"
  using assms by (auto simp: buildServerRoute_def indexLocations_def Let_def split: sum.splits)

text \<open>C15: The compiled selection implements the documented precedence. For a server block built
  from any configuration, with any regular-expression compiler and any handler builders, the
  location the router selects for a request is one whose path and predicates match, and it
  outranks every other matching location: exact before prefix before regex before the
  catch-all, longer prefixes first, and declaration order as the only tie-break. When the
  router selects none, no declared location matches. The path-keyed map for large exact
  tables, the stable sort of the prefixes and the query parsed at most once are all
  invisible.\<close>

theorem selectLocation_refines:
  assumes "buildServerRoute compile build secret srv = Inr sr"
  shows "selected_by_precedence (sr_locations sr) r (selectLocation sr r)"
  using selectLocation_precedence [OF buildServerRoute_indexed(1) [OF assms]]
    build_locations_declared [OF buildServerRoute_indexed(2) [OF assms]] by simp

subsection \<open>A small configuration\<close>

text \<open>A regular expression compiler for literals, and a server block with every tier.\<close>

definition literal_regexp :: "string \<Rightarrow> regexp option" where
  "literal_regexp p = Some \<lparr>MatchString = (\<lambda>s. Contains s p), ReplaceAllString = (\<lambda>s t. t)\<rparr>"

definition sample_match :: "string \<Rightarrow> string \<Rightarrow> string list option \<Rightarrow> MatchConfig" where
  "sample_match t p ms = \<lparr>m_type = t, m_path = p, m_methods = ms, m_headers = [], m_query = []\<rparr>"

definition sample_location :: "MatchConfig \<Rightarrow> LocationConfig" where
  "sample_location m =
     \<lparr>lc_match = m, lc_cors = None, lc_route_id = None, lc_send_timeout = None, lc_deny = False,
      lc_redirect = [], lc_return = 0, lc_proxy_pass = ''up'', lc_fastcgi_pass = [], lc_uwsgi_pass = [],
      lc_grpc_transcode = False, lc_plugin = [], lc_root = [], lc_rewrites = [], lc_withdrawn = False,
      lc_response_headers = []\<rparr>"

definition sample_server :: "MatchConfig list \<Rightarrow> ServerConfig" where
  "sample_server ms =
     \<lparr>sc_listen = '':80'', sc_names = [], sc_redirectHTTPS = 0, sc_sendTimeout = 0, sc_writeTimeout = 0,
      sc_locations = map sample_location ms\<rparr>"

definition sample_request :: "string \<Rightarrow> string \<Rightarrow> request" where
  "sample_request m p =
     \<lparr>req_method = m, req_host = ''a.example'', req_header = (\<lambda>_. []), req_path = p, req_raw_path = [],
      req_raw_query = [], req_uri = p, req_tls = False\<rparr>"

definition sample_built :: "MatchConfig list \<Rightarrow> serverRoute" where
  "sample_built ms =
     (case buildServerRoute literal_regexp (\<lambda>_ _. True) (\<lambda>_. False) (sample_server ms) of
        Inr sr \<Rightarrow> sr | Inl e \<Rightarrow> undefined)"

lemma sample_location_builds:
  assumes "m_headers m = []"
  shows "\<exists>l. build_location literal_regexp (\<lambda>_ _. True) (\<lambda>_. False) i (sample_location m) = Inr l"
proof -
  have "actionOf (sample_location m) = Some ''proxy''" by (simp add: actionOf_def sample_location_def)
  then show ?thesis
    using assms by (auto simp: build_location_def compile_path_def literal_regexp_def sample_location_def
        compilePredicates_def Let_def)
qed

lemma sample_locations_build:
  "\<forall>m \<in> set ms. m_headers m = [] \<Longrightarrow>
     \<exists>ls. build_locations literal_regexp (\<lambda>_ _. True) (\<lambda>_. False) i (map sample_location ms) = Inr ls"
proof (induction ms arbitrary: i)
  case (Cons m ms)
  from Cons.prems sample_location_builds [of m i] Cons.IH [of "Suc i"] show ?case by auto
qed simp

lemma sample_builds:
  assumes "\<forall>m \<in> set ms. m_headers m = []"
  shows "buildServerRoute literal_regexp (\<lambda>_ _. True) (\<lambda>_. False) (sample_server ms) = Inr (sample_built ms)"
  using sample_locations_build [OF assms, of 0]
  by (auto simp: sample_built_def buildServerRoute_def sample_server_def)

definition sample_tiers :: "MatchConfig list" where
  "sample_tiers =
     [sample_match ''prefix'' ''/'' None, sample_match ''regex'' ''.php'' None,
      sample_match ''prefix'' ''/a'' None, sample_match ''prefix'' ''/a/b'' (Some [''POST'']),
      sample_match ''exact'' ''/a/b'' (Some [''PUT''])]"

theorem selectLocation_refines_witness:
  "selected_by_precedence (sr_locations (sample_built sample_tiers)) (sample_request ''POST'' ''/a/b'')
     (selectLocation (sample_built sample_tiers) (sample_request ''POST'' ''/a/b'')) \<and>
   map_option lr_index (selectLocation (sample_built sample_tiers) (sample_request ''POST'' ''/a/b'')) = Some 3"
proof
  have "\<forall>m \<in> set sample_tiers. m_headers m = []" by (simp add: sample_tiers_def sample_match_def)
  from selectLocation_refines [OF sample_builds [OF this]]
  show "selected_by_precedence (sr_locations (sample_built sample_tiers)) (sample_request ''POST'' ''/a/b'')
     (selectLocation (sample_built sample_tiers) (sample_request ''POST'' ''/a/b''))" .
qed code_simp

end
