(* ===== verification/Router_Lint.thy ===== *)
theory Router_Lint
  imports Router_Props
begin

text \<open>
  \<^verbatim>\<open>src/internal/config/lint_match.go\<close> over a whole server block: the diagnostics for
  shadowed locations and for paths that no canonical request path has, against the selection
  of the router. A diagnostic is the index of the location it is about, with the index of the
  location that shadows it.
\<close>

definition shadows :: "LocationConfig \<Rightarrow> LocationConfig \<Rightarrow> bool" where
  "shadows earlier later \<longleftrightarrow>
     normalizedMatchType (m_type (lc_match earlier)) = normalizedMatchType (m_type (lc_match later)) \<and>
     m_path (lc_match earlier) = m_path (lc_match later) \<and> subsumes earlier later"

definition unreachableLocationDiagnostics :: "LocationConfig list \<Rightarrow> (nat \<times> nat) list" where
  "unreachableLocationDiagnostics locs =
     concat (map (\<lambda>j. case find (\<lambda>i. shadows (locs ! i) (locs ! j)) [0..<j] of
                        None \<Rightarrow> [] | Some i \<Rightarrow> [(j, i)]) [0..<length locs])"

definition nonCanonicalRequestPath :: "string \<Rightarrow> bool" where
  "nonCanonicalRequestPath p \<longleftrightarrow>
     Contains p ''//'' \<or> Contains p ''/./'' \<or> Contains p ''/../'' \<or> HasSuffix p ''/.'' \<or> HasSuffix p ''/..''"

definition nonCanonicalPathDiagnostics :: "LocationConfig list \<Rightarrow> nat list" where
  "nonCanonicalPathDiagnostics locs =
     filter (\<lambda>j. \<not> (normalizedMatchType (m_type (lc_match (locs ! j))) = ''regex'' \<or>
                    \<not> nonCanonicalRequestPath (m_path (lc_match (locs ! j))))) [0..<length locs]"

subsection \<open>Locations and their configuration\<close>

lemma build_location_fields:
  assumes "build_location compile build secret i loc = Inr l"
  shows "lr_matchType l = m_type (lc_match loc)" "lr_path l = m_path (lc_match loc)"
    "compile_path compile (lc_match loc) = Some (lr_re l)"
    "compilePredicates compile loc = Some (lr_predicates l)" "lr_index l = i"
  using assms by (auto simp: build_location_def Let_def split: option.splits if_splits)

lemma build_locations_nth:
  "build_locations compile build secret i locs = Inr ls \<Longrightarrow>
     length ls = length locs \<and>
     (\<forall>k < length locs. build_location compile build secret (i + k) (locs ! k) = Inr (ls ! k))"
proof (induction locs arbitrary: i ls)
  case (Cons loc locs)
  then obtain l ls' where b: "build_location compile build secret i loc = Inr l"
    "build_locations compile build secret (Suc i) locs = Inr ls'" "ls = l # ls'"
    by (auto split: sum.splits)
  with Cons.IH [OF b(2)] show ?case by (auto simp: nth_Cons less_Suc_eq_0_disj split: nat.splits)
qed simp

lemma same_tier:
  assumes "normalizedMatchType (lr_matchType a) = normalizedMatchType (lr_matchType b)"
    and "lr_path a = lr_path b"
  shows "is_exact a = is_exact b" "is_regex a = is_regex b" "tier_of a = tier_of b"
proof -
  show e: "is_exact a = is_exact b" and r: "is_regex a = is_regex b"
    using assms(1) by (auto simp: normalizedMatchType_def is_exact_def is_regex_def split: if_splits)
  have "is_root a = is_root b" using e r assms(2) by (simp add: is_root_def)
  with e r show "tier_of a = tier_of b" by (simp add: tier_of_def)
qed

lemma same_path_matches:
  assumes "normalizedMatchType (lr_matchType a) = normalizedMatchType (lr_matchType b)"
    and "lr_path a = lr_path b" and "is_regex a \<Longrightarrow> lr_re a = lr_re b"
  shows "path_matches p a = path_matches p b"
  using assms(3) same_tier [OF assms(1,2)] assms(2) by (auto simp: path_matches_def regex_hit_def)

lemma shadowed_location:
  assumes a: "build_location compile build secret i la = Inr a" and b: "build_location compile build secret j lb = Inr b"
    and "i < j" and sh: "shadows la lb" and "location_matches r b"
    and "m_methods (lc_match la) \<noteq> Some []" "m_methods (lc_match lb) \<noteq> Some []"
  shows "location_matches r a \<and> outranks a b"
proof -
  note A = build_location_fields [OF a] and B = build_location_fields [OF b]
  from sh A B have t: "normalizedMatchType (lr_matchType a) = normalizedMatchType (lr_matchType b)"
    and p: "lr_path a = lr_path b" and s: "subsumes la lb" by (simp_all add: shadows_def)
  have "lr_re a = lr_re b" if "is_regex a"
    using that same_tier(2) [OF t p] A(1,2,3) B(1,2,3) p by (simp add: compile_path_def is_regex_def split: option.splits)
  with same_path_matches [OF t p] subsumes_sound [OF s A(4) B(4)] assms(5-7)
  have "location_matches r a" by (simp add: location_matches_def)
  moreover have "outranks a b" using same_tier(3) [OF t p] p A(5) B(5) \<open>i < j\<close> by (simp add: outranks_def)
  ultimately show ?thesis by blast
qed

lemma outranks_asym: "outranks a b \<Longrightarrow> \<not> outranks b a"
  by (auto simp: outranks_def split: if_splits)

text \<open>C17: The shadowing lint never asks an operator to delete a live route. When the linter
  reports location j as unreachable because of location i, then in the server block built from
  that configuration no request whatsoever is routed to location j. The method lists are those
  validation lets through: absent or not empty.\<close>

theorem unreachable_lint_sound:
  assumes "(j, i) \<in> set (unreachableLocationDiagnostics (sc_locations srv))"
    and "buildServerRoute compile build secret srv = Inr sr"
    and "\<forall>loc \<in> set (sc_locations srv). m_methods (lc_match loc) \<noteq> Some []"
  shows "selectLocation sr r \<noteq> Some (sr_locations sr ! j)"
proof
  let ?locs = "sc_locations srv" and ?ls = "sr_locations sr"
  assume sel: "selectLocation sr r = Some (?ls ! j)"
  from assms(1) have ij: "i < j" "j < length ?locs" "shadows (?locs ! i) (?locs ! j)"
    by (auto simp: unreachableLocationDiagnostics_def find_Some_iff find_Some_iff2 split: option.splits)
  note bl = buildServerRoute_indexed(2) [OF assms(2)]
  note B = build_locations_nth [OF bl]
  have "selected_by_precedence ?ls r (Some (?ls ! j))"
    using selectLocation_precedence [OF buildServerRoute_indexed(1) [OF assms(2)], of r]
      build_locations_declared [OF bl] sel by simp
  then have m: "location_matches r (?ls ! j)"
    and best: "\<forall>l \<in> set ?ls. location_matches r l \<longrightarrow> l = ?ls ! j \<or> outranks (?ls ! j) l"
    by (simp_all add: selected_by_precedence_def)
  have Bi: "build_location compile build secret i (?locs ! i) = Inr (?ls ! i)"
    and Bj: "build_location compile build secret j (?locs ! j) = Inr (?ls ! j)"
    using B ij by simp_all
  from shadowed_location [OF Bi Bj ij(1,3) m] assms(3) ij
  have S: "location_matches r (?ls ! i)" "outranks (?ls ! i) (?ls ! j)" by simp_all
  moreover have "?ls ! i \<in> set ?ls" using B ij by simp
  ultimately show False using best outranks_asym [OF S(2)] by auto
qed

definition sample_shadowed :: "MatchConfig list" where
  "sample_shadowed = [sample_match ''prefix'' ''/a'' (Some [''GET'', ''POST'']), sample_match [] ''/a'' (Some [''POST''])]"

theorem unreachable_lint_sound_witness:
  "(1, 0) \<in> set (unreachableLocationDiagnostics (sc_locations (sample_server sample_shadowed))) \<and>
   selectLocation (sample_built sample_shadowed) (sample_request ''POST'' ''/a'') \<noteq>
     Some (sr_locations (sample_built sample_shadowed) ! 1)"
proof
  show d: "(1, 0) \<in> set (unreachableLocationDiagnostics (sc_locations (sample_server sample_shadowed)))"
    by code_simp
  have "\<forall>m \<in> set sample_shadowed. m_headers m = []" by (simp add: sample_shadowed_def sample_match_def)
  from unreachable_lint_sound [OF d sample_builds [OF this]]
  show "selectLocation (sample_built sample_shadowed) (sample_request ''POST'' ''/a'') \<noteq>
     Some (sr_locations (sample_built sample_shadowed) ! 1)"
    by (simp add: sample_server_def sample_shadowed_def sample_location_def sample_match_def)
qed

subsection \<open>Paths a canonical request never has\<close>

lemma nonCanonicalRequestPath_is: "nonCanonicalRequestPath p = needsCanonical p"
  by (simp add: nonCanonicalRequestPath_def needsCanonical_def)

lemma canonicalPath_settled: "HasPrefix p ''/'' \<Longrightarrow> \<not> needsCanonical (canonicalPath p)"
proof -
  assume "HasPrefix p ''/''"
  then obtain r where p: "p = slash # r" by (auto simp: HasPrefix_iff)
  show ?thesis
  proof (cases "needsCanonical p")
    case True
    let ?c = "closed_with (walk [] (Split r slash)) (last (Split r slash) \<in> {[], ''.'', ''..''})"
    note R = rebuild_segments [OF refl refl, of r]
    have "canonicalPath p = path_of ?c" using True p R(1) by (simp add: canonicalPath_def)
    moreover have "?c \<noteq> []" "\<forall>s \<in> set ?c. slash \<notin> set s" using R(2) by (auto simp: closed_with_def plain_def)
    ultimately show ?thesis using needsCanonical_iff clean_closed_with [OF R(2)] by simp
  qed (simp add: canonicalPath_def)
qed

text \<open>The lint for paths with repeated slashes or dot segments is right about exact
  locations and wrong about prefix locations. An exact location it flags is selected for no
  rooted request, because the router compares canonical paths. But it also flags the prefix
  location with path "/.", with the message that this location never matches, and that
  location is selected for a request to "/.well-known/x": the trailing-dot test is only right
  for whole paths, not for prefixes.\<close>

lemma nonCanonical_lint_exact_only:
  "(\<forall>compile build secret srv sr r l.
      buildServerRoute compile build secret srv = Inr sr \<and> HasPrefix (req_path r) ''/'' \<and>
      selectLocation sr (canonical_request r) = Some l \<and> is_exact l \<longrightarrow>
      lr_index l \<notin> set (nonCanonicalPathDiagnostics (sc_locations srv))) \<and>
   nonCanonicalPathDiagnostics (sc_locations (sample_server [sample_match ''prefix'' ''/.'' None])) = [0] \<and>
   map_option lr_index (selectLocation (sample_built [sample_match ''prefix'' ''/.'' None])
     (canonical_request (sample_request ''GET'' ''/.well-known/x''))) = Some 0"
proof (intro conjI allI impI)
  fix compile build secret srv sr r l
  assume A: "buildServerRoute compile build secret srv = Inr sr \<and> HasPrefix (req_path r) ''/'' \<and>
      selectLocation sr (canonical_request r) = Some l \<and> is_exact l"
  then have b: "buildServerRoute compile build secret srv = Inr sr" by simp
  note bl = buildServerRoute_indexed(2) [OF b]
  have "selected_by_precedence (sr_locations sr) (canonical_request r) (Some l)"
    using selectLocation_precedence [OF buildServerRoute_indexed(1) [OF b], of "canonical_request r"]
      build_locations_declared [OF bl] A by simp
  then have l: "l \<in> set (sr_locations sr)" "path_matches (req_path (canonical_request r)) l"
    by (simp_all add: selected_by_precedence_def location_matches_def)
  then have "lr_path l = canonicalPath (req_path r)"
    using A by (simp add: path_matches_def canonical_request_def canonicalizeRequest_def Let_def split: if_splits)
  then have "\<not> nonCanonicalRequestPath (lr_path l)"
    using A canonicalPath_settled by (simp add: nonCanonicalRequestPath_is)
  moreover obtain k where k: "k < length (sr_locations sr)" "l = sr_locations sr ! k"
    using l(1) by (auto simp: in_set_conv_nth)
  moreover have "build_location compile build secret k (sc_locations srv ! k) = Inr l"
    using build_locations_nth [OF bl] k by simp
  ultimately show "lr_index l \<notin> set (nonCanonicalPathDiagnostics (sc_locations srv))"
    using build_location_fields by (fastforce simp: nonCanonicalPathDiagnostics_def)
qed (code_simp, code_simp)

lemma nonCanonical_lint_exact_only_example:
  "\<exists>l. selectLocation (sample_built [sample_match ''exact'' ''/a/b'' None])
         (canonical_request (sample_request ''GET'' ''//a/./b'')) = Some l \<and>
       lr_index l \<notin> set (nonCanonicalPathDiagnostics
         (sc_locations (sample_server [sample_match ''exact'' ''/a/b'' None])))"
proof -
  have "map_option is_exact (selectLocation (sample_built [sample_match ''exact'' ''/a/b'' None])
      (canonical_request (sample_request ''GET'' ''//a/./b''))) = Some True" by code_simp
  then obtain l where "selectLocation (sample_built [sample_match ''exact'' ''/a/b'' None])
      (canonical_request (sample_request ''GET'' ''//a/./b'')) = Some l" "is_exact l" by auto
  moreover have "buildServerRoute literal_regexp (\<lambda>_ _. True) (\<lambda>_. False)
      (sample_server [sample_match ''exact'' ''/a/b'' None]) = Inr (sample_built [sample_match ''exact'' ''/a/b'' None])"
    by (rule sample_builds) (simp add: sample_match_def)
  moreover have "HasPrefix (req_path (sample_request ''GET'' ''//a/./b'')) ''/''" by code_simp
  ultimately show ?thesis using nonCanonical_lint_exact_only by blast
qed

end
