(* ===== verification/Router_Explain.thy ===== *)
theory Router_Explain
  imports Router_Props
begin

text \<open>
  The explanation of a selection (\<^verbatim>\<open>src/internal/router/explain.go\<close>) against the
  selection itself, the choice of the dry-run server against the undefined iteration order of a
  Go map, and the redirects of \<^verbatim>\<open>Router.For\<close>.
\<close>

subsection \<open>Every server of a router is indexed\<close>

definition servers_of :: "Router \<Rightarrow> serverRoute set" where
  "servers_of byAddr = (\<Union>ar \<in> ran byAddr. set (ar_servers ar))"

definition server_ok :: "serverRoute \<Rightarrow> bool" where
  "server_ok s \<longleftrightarrow> indexLocations s = s \<and> declared (sr_locations s)"

definition router_ok :: "nat \<Rightarrow> Router \<Rightarrow> bool" where
  "router_ok n byAddr \<longleftrightarrow>
     (\<forall>s \<in> servers_of byAddr. server_ok s \<and> sr_index s < n) \<and> inj_on sr_index (servers_of byAddr)"

lemma server_ok_update [simp]:
  "server_ok (s\<lparr>sr_index := i\<rparr>) = server_ok s" "server_ok (s\<lparr>sr_writeTimeout := d\<rparr>) = server_ok s"
  by (cases s; simp add: server_ok_def indexLocations_def Let_def)+

lemma servers_of_add_server:
  obtains sr' where "sr_index sr' = sr_index sr" and "server_ok sr' = server_ok sr"
    and "servers_of (add_server byAddr listen sr) \<subseteq> insert sr' (servers_of byAddr)"
proof -
  define ar where "ar = (case byAddr listen of None \<Rightarrow> \<lparr>ar_servers = [], ar_def = None\<rparr> | Some ar \<Rightarrow> ar)"
  define sr' where "sr' = (case ar_def ar of None \<Rightarrow> sr | Some d \<Rightarrow> sr\<lparr>sr_writeTimeout := sr_writeTimeout d\<rparr>)"
  have "set (ar_servers ar) \<subseteq> servers_of byAddr"
    by (auto simp: ar_def servers_of_def ran_def split: option.splits)
  then have "servers_of (add_server byAddr listen sr) \<subseteq> insert sr' (servers_of byAddr)"
    by (auto simp: add_server_def Let_def ar_def [symmetric] sr'_def [symmetric] servers_of_def ran_def
        split: if_splits)
  moreover have "sr_index sr' = sr_index sr" "server_ok sr' = server_ok sr"
    by (simp_all add: sr'_def split: option.splits)
  ultimately show thesis using that by blast
qed

lemma add_server_ok:
  assumes "router_ok n byAddr" and "server_ok sr"
  shows "router_ok (Suc n) (add_server byAddr listen (sr\<lparr>sr_index := n\<rparr>))"
proof -
  obtain sr' where sr': "sr_index sr' = n" "server_ok sr'"
    "servers_of (add_server byAddr listen (sr\<lparr>sr_index := n\<rparr>)) \<subseteq> insert sr' (servers_of byAddr)"
    using servers_of_add_server [of "sr\<lparr>sr_index := n\<rparr>" byAddr listen] assms(2) by auto
  have "inj_on sr_index (insert sr' (servers_of byAddr))"
    using assms(1) sr'(1) by (auto simp: router_ok_def inj_on_def)
  then show ?thesis
    using sr' assms(1) inj_on_subset [OF _ sr'(3)] by (auto simp: router_ok_def less_Suc_eq)
qed

lemma New_loop_ok:
  "New_loop compile build secret n byAddr srvs = Inr byAddr' \<Longrightarrow> router_ok n byAddr \<Longrightarrow> \<exists>m. router_ok m byAddr'"
proof (induction srvs arbitrary: n byAddr)
  case (Cons srv srvs)
  show ?case
  proof (cases "sc_listen srv = []")
    case True
    have "router_ok (Suc n) byAddr" using Cons.prems(2) by (auto simp: router_ok_def)
    with Cons True show ?thesis by simp
  next
    case False
    with Cons.prems(1) obtain sr where sr: "buildServerRoute compile build secret srv = Inr sr"
      by (auto split: sum.splits)
    have "server_ok sr"
      using buildServerRoute_indexed [OF sr] build_locations_declared by (auto simp: server_ok_def)
    with Cons False sr add_server_ok show ?thesis by simp
  qed
qed auto

lemma New_ok: "New compile build secret srvs = Inr byAddr \<Longrightarrow> \<exists>m. router_ok m byAddr"
  using New_loop_ok [of compile build secret 0 Map.empty srvs byAddr]
  by (simp add: New_def router_ok_def servers_of_def)

subsection \<open>The dry-run server\<close>

definition dry_better :: "string \<Rightarrow> serverRoute \<Rightarrow> serverRoute \<Rightarrow> bool" where
  "dry_better h a b \<longleftrightarrow>
     dry_score a h > dry_score b h \<or> dry_score a h = dry_score b h \<and> sr_index a \<le> sr_index b"

definition best_among :: "string \<Rightarrow> serverRoute set \<Rightarrow> serverRoute option \<Rightarrow> bool" where
  "best_among h S res =
     (case res of
        None \<Rightarrow> \<forall>s \<in> S. dry_score s h = 0
      | Some b \<Rightarrow> b \<in> S \<and> dry_score b h > 0 \<and> (\<forall>s \<in> S. dry_better h b s))"

lemma best_server_loop_best:
  assumes "best_among h S best" and "best \<noteq> None \<Longrightarrow> sc = dry_score (the best) h"
  shows "best_among h (S \<union> set srvs) (fst (best_server_loop h (best, sc) srvs))"
  using assms
proof (induction srvs arbitrary: S best sc)
  case (Cons s srvs)
  have step: "best_among h (insert s S \<union> set srvs) (fst (best_server_loop h (best', sc') srvs))"
    if "best_among h (insert s S) best'" "best' \<noteq> None \<Longrightarrow> sc' = dry_score (the best') h" for best' sc'
    using Cons.IH [OF that] .
  consider (zero) "dry_score s h = 0"
    | (win) "dry_score s h \<noteq> 0" "beats (dry_score s h) s sc best"
    | (lose) "dry_score s h \<noteq> 0" "\<not> beats (dry_score s h) s sc best" by blast
  then show ?case
  proof cases
    case zero
    then have "best_among h (insert s S) best"
      using Cons.prems(1) by (auto simp: best_among_def dry_better_def split: option.splits)
    with step [of best sc] Cons.prems(2) zero show ?thesis by simp
  next
    case win
    then have "best_among h (insert s S) (Some s)"
      using Cons.prems by (cases best) (fastforce simp: best_among_def beats_def dry_better_def)+
    with step [of "Some s" "dry_score s h"] win show ?thesis by (simp add: Let_def)
  next
    case lose
    then have "best_among h (insert s S) best"
      using Cons.prems by (cases best) (auto simp: best_among_def beats_def dry_better_def)
    with step [of best sc] Cons.prems(2) lose show ?thesis by (simp add: Let_def)
  qed
qed simp

lemma best_among_unique:
  assumes "best_among h S a" and "best_among h S b" and "inj_on sr_index S"
  shows "a = b"
proof (cases a; cases b)
  fix x y
  assume "a = Some x" "b = Some y"
  with assms(1,2) have S: "x \<in> S" "y \<in> S" and "dry_better h x y" "dry_better h y x"
    by (simp_all add: best_among_def)
  then have "sr_index x = sr_index y" by (auto simp: dry_better_def)
  with assms(3) S \<open>a = Some x\<close> \<open>b = Some y\<close> show ?thesis by (simp add: inj_on_def)
qed (use assms in \<open>auto simp: best_among_def\<close>)

lemma bestServerForHost_best:
  "set ars = ran byAddr \<Longrightarrow> best_among (normalizeHost host) (servers_of byAddr) (bestServerForHost ars host)"
  using best_server_loop_best [of "normalizeHost host" "{}" None 0 "concat (map ar_servers ars)"]
  by (simp add: bestServerForHost_def best_among_def servers_of_def)

text \<open>The server a dry run picks does not depend on the order in which Go iterates over the
  map of listen addresses. For a router built from any configuration, two iterations that
  visit the same address routers, in whatever order, end with the same server block, and
  that block has the best score, the earliest declared one among equals; no block is picked
  exactly when every block scores zero.\<close>

lemma bestServerForHost_deterministic:
  assumes "New compile build secret srvs = Inr byAddr" and "set ars = ran byAddr" and "set ars' = ran byAddr"
  shows "bestServerForHost ars host = bestServerForHost ars' host \<and>
         best_among (normalizeHost host) (servers_of byAddr) (bestServerForHost ars host)"
  using New_ok [OF assms(1)] bestServerForHost_best [OF assms(2), of host]
    best_among_unique [OF bestServerForHost_best [OF assms(2), of host] bestServerForHost_best [OF assms(3), of host]]
  by (auto simp: router_ok_def)

definition sample_other :: ServerConfig where
  "sample_other = (sample_server sample_tiers)\<lparr>sc_listen := '':81''\<rparr>"

definition sample_router :: Router where
  "sample_router =
     add_server (add_server Map.empty '':80'' (sample_built sample_tiers)) '':81''
       ((sample_built sample_tiers)\<lparr>sr_index := 1\<rparr>)"

lemma sample_tiers_build:
  "buildServerRoute literal_regexp (\<lambda>_ _. True) (\<lambda>_. False) (sample_server sample_tiers) =
     Inr (sample_built sample_tiers)"
  by (rule sample_builds) (simp add: sample_tiers_def sample_match_def)

lemma buildServerRoute_index: "buildServerRoute compile build secret srv = Inr sr \<Longrightarrow> sr_index sr = 0"
  by (auto simp: buildServerRoute_def indexLocations_def Let_def split: sum.splits)

lemma sample_router_New:
  "New literal_regexp (\<lambda>_ _. True) (\<lambda>_. False) [sample_server sample_tiers, sample_other] = Inr sample_router"
proof -
  have other: "buildServerRoute literal_regexp (\<lambda>_ _. True) (\<lambda>_. False) sample_other =
      buildServerRoute literal_regexp (\<lambda>_ _. True) (\<lambda>_. False) (sample_server sample_tiers)"
    by (simp add: buildServerRoute_def sample_other_def split: sum.splits)
  have "sr_index (sample_built sample_tiers) = 0" by (rule buildServerRoute_index [OF sample_tiers_build])
  then have zero: "(sample_built sample_tiers)\<lparr>sr_index := 0\<rparr> = sample_built sample_tiers"
    by (cases "sample_built sample_tiers") simp
  have "sc_listen (sample_server sample_tiers) = '':80''" "sc_listen sample_other = '':81''"
    by (simp_all add: sample_server_def sample_other_def)
  then show ?thesis
    by (simp add: New_def other sample_tiers_build sample_router_def zero)
qed

lemma sample_router_ran:
  "ran sample_router = {the (sample_router '':80''), the (sample_router '':81'')}"
proof -
  have "\<exists>a b. sample_router = ['':80'' \<mapsto> a, '':81'' \<mapsto> b]"
    unfolding sample_router_def add_server_def Let_def by blast
  then obtain a b where eq: "sample_router = ['':80'' \<mapsto> a, '':81'' \<mapsto> b]" by blast
  show ?thesis unfolding eq by auto
qed

lemma bestServerForHost_deterministic_example:
  "bestServerForHost [the (sample_router '':80''), the (sample_router '':81'')] ''a.example'' =
   bestServerForHost [the (sample_router '':81''), the (sample_router '':80'')] ''a.example''"
  using bestServerForHost_deterministic [OF sample_router_New,
      of "[the (sample_router '':80''), the (sample_router '':81'')]"
         "[the (sample_router '':81''), the (sample_router '':80'')]" "''a.example''"] sample_router_ran
  by auto

subsection \<open>Explanation and selection\<close>

definition holds_on :: "request \<Rightarrow> nat \<times> locationRoute \<Rightarrow> bool" where
  "holds_on r c = predicates_hold (lr_predicates (snd c)) r"

definition winner :: "serverRoute \<Rightarrow> nat \<times> locationRoute \<Rightarrow> RouteCandidate" where
  "winner srv c = (candidate_of srv (fst c) (snd c))\<lparr>rc_Selected := True\<rparr>"

lemma failure_field_empty: "failure_field f = [] \<longleftrightarrow> f = NoFailure"
  by (cases f) (simp_all add: failure_field_def)

text \<open>What the explanation says of a location it visited.\<close>

definition explains :: "request \<Rightarrow> RouteCandidate \<Rightarrow> nat \<times> locationRoute \<Rightarrow> bool" where
  "explains r c l \<longleftrightarrow>
     rc_LocationIndex c = lr_index (snd l) \<and>
     (if holds_on r l then rc_Selected c \<and> rc_Rejection c = []
      else \<not> rc_Selected c \<and>
        (\<exists>p. lr_predicates (snd l) = Some p \<and> rejected_by p r (rc_Rejection c)))"

definition visited :: "request \<Rightarrow> (nat \<times> locationRoute) list \<Rightarrow> (nat \<times> locationRoute) list" where
  "visited r cs = takeWhile (\<lambda>c. \<not> holds_on r c) cs @
     (case find (holds_on r) cs of None \<Rightarrow> [] | Some c \<Rightarrow> [c])"

lemma visit_list_explain:
  assumes "rq_ok (req_raw_query r) q" and "ex_Selected out = -1"
    and "list_all2 (explains r) (ex_Candidates out) ds"
    and "snd (snd (visit_list (explain_visit srv r) cs (q, out))) = e"
  shows "SelectedCandidate e = map_option (winner srv) (find (holds_on r) cs) \<and>
    ex_ServerMatched e = ex_ServerMatched out \<and> ex_ServerIndex e = ex_ServerIndex out \<and>
    list_all2 (explains r) (ex_Candidates e) (ds @ visited r cs)"
  using assms
proof (induction cs arbitrary: q out ds)
  case Nil
  then show ?case by (auto simp: SelectedCandidate_def visited_def)
next
  case (Cons c cs)
  obtain b f q' where m: "predicates_match (lr_predicates (snd c)) r q = ((b, f), q')"
    by (metis prod.exhaust)
  note P = predicates_match_holds [OF Cons.prems(1) m]
  show ?case
  proof (cases b)
    case True
    then have h: "holds_on r c" using P by (simp add: holds_on_def)
    have "explains r (winner srv c) c"
      using h by (simp add: explains_def winner_def candidate_of_def)
    with h m True Cons.prems show ?thesis
      by (auto simp: explain_visit_def winner_def SelectedCandidate_def candidate_of_def nth_append
          Let_def visited_def list_all2_appendI)
  next
    case False
    define k where "k = (candidate_of srv (fst c) (snd c))\<lparr>rc_Rejection := failure_field f\<rparr>"
    define out' where "out' = out\<lparr>ex_Candidates := ex_Candidates out @ [k]\<rparr>"
    have h: "\<not> holds_on r c" using P False by (simp add: holds_on_def)
    have "explains r k c"
      using h predicates_match_rejected [OF Cons.prems(1)] m False
      by (auto simp: explains_def k_def candidate_of_def)
    then have "list_all2 (explains r) (ex_Candidates out') (ds @ [c])"
      using Cons.prems(3) by (simp add: out'_def list_all2_appendI)
    moreover have "explain_visit srv r (fst c) (snd c) (q, out) = (False, q', out')"
      using False m by (simp add: explain_visit_def out'_def k_def Let_def)
    then have "snd (snd (visit_list (explain_visit srv r) cs (q', out'))) = e"
      using Cons.prems(4) by simp
    moreover have "ex_Selected out' = -1" "ex_ServerMatched out' = ex_ServerMatched out"
      "ex_ServerIndex out' = ex_ServerIndex out"
      using Cons.prems(2) by (simp_all add: out'_def)
    moreover have "(ds @ [c]) @ visited r cs = ds @ visited r (c # cs)"
      using h by (simp add: visited_def)
    ultimately show ?thesis using Cons.IH [of q' out' "ds @ [c]"] P h by simp
  qed
qed

lemma predicates_hold_canonical [simp]:
  "predicates_hold po (canonical_request r) = predicates_hold po r"
  "req_path (canonical_request r) = canonicalPath (req_path r)"
proof -
  have c: "\<exists>p raw. canonical_request r = r\<lparr>req_path := p, req_raw_path := raw\<rparr>"
    by (auto simp: canonical_request_def split: prod.splits)
  then show "predicates_hold po (canonical_request r) = predicates_hold po r"
    by (auto simp: predicates_hold_def matchMethod_def isCORSPreflight_def IsPreflight_def split: option.splits)
  show "req_path (canonical_request r) = canonicalPath (req_path r)"
    by (simp add: canonical_request_def canonicalizeRequest_def Let_def)
qed

text \<open>C16: The explanation an operator sees is the decision the router takes. For a router built
  from any configuration, when the dry run resolves to a server block, the candidate it marks
  as selected is the location that block would select for the request, and it reports no
  selection exactly when the block would select none. The candidates it lists are the locations
  of the block's precedence order up to the first one whose predicates hold, or all of them if
  none holds: that one is marked selected with no rejection, and every other one is listed as
  not selected with the field of the first predicate that rejects the request, methods before
  headers before query parameters, by its position in the configuration.\<close>

theorem Explain_agrees:
  assumes "New compile build secret srvs = Inr byAddr" and "set ars = ran byAddr"
    and "bestServerForHost ars host = Some srv"
  shows "map_option rc_LocationIndex (SelectedCandidate (Explain ars host r)) =
           map_option lr_index (selectLocation srv (canonical_request r)) \<and>
         ex_ServerMatched (Explain ars host r) \<and> ex_ServerIndex (Explain ars host r) = sr_index srv \<and>
         list_all2
           (\<lambda>c l. rc_LocationIndex c = lr_index (snd l) \<and>
              (if predicates_hold (lr_predicates (snd l)) r
               then rc_Selected c \<and> rc_Rejection c = []
               else \<not> rc_Selected c \<and>
                 (\<exists>p. lr_predicates (snd l) = Some p \<and> rejected_by p r (rc_Rejection c))))
           (ex_Candidates (Explain ars host r))
           (visited r (route_candidates (sr_locations srv) (canonicalPath (req_path r))))"
proof -
  have "srv \<in> servers_of byAddr"
    using bestServerForHost_best [OF assms(2), of host] assms(3) by (simp add: best_among_def)
  with New_ok [OF assms(1)] have ok: "srv = indexLocations srv" by (auto simp: router_ok_def server_ok_def)
  define out where "out = \<lparr>ex_ServerMatched = True, ex_ServerIndex = sr_index srv, ex_Candidates = [], ex_Selected = -1\<rparr>"
  let ?cs = "route_candidates (sr_locations srv) (canonicalPath (req_path r))"
  have "Explain ars host r = snd (snd (visit_list (explain_visit srv r) ?cs (new_query (req_raw_query r), out)))"
    by (simp add: Explain_def assms(3) eachCandidate_list [OF ok] out_def)
  note E = visit_list_explain [OF rq_ok_new _ _ this [symmetric], of "[]"]
  have "selectLocation srv (canonical_request r) = map_option snd (find (holds_on r) ?cs)"
    by (simp add: selectLocation_find [OF ok] holds_on_def [abs_def])
  with E show ?thesis
    by (simp add: out_def winner_def candidate_of_def option.map_comp comp_def
        explains_def [abs_def] holds_on_def)
qed

theorem Explain_agrees_witness:
  "map_option rc_LocationIndex (SelectedCandidate
     (Explain [the (sample_router '':81''), the (sample_router '':80'')] ''a.example'' (sample_request ''POST'' ''//a/b''))) = Some 3"
proof -
  let ?ars = "[the (sample_router '':81''), the (sample_router '':80'')]"
  have ran: "set ?ars = ran sample_router" using sample_router_ran by auto
  have "map_option (\<lambda>s. lr_index (the (selectLocation s (canonical_request (sample_request ''POST'' ''//a/b'')))))
      (bestServerForHost ?ars ''a.example'') = Some 3" by code_simp
  then obtain srv where srv: "bestServerForHost ?ars ''a.example'' = Some srv" by auto
  have "map_option (\<lambda>s. map_option lr_index (selectLocation s (canonical_request (sample_request ''POST'' ''//a/b''))))
      (bestServerForHost ?ars ''a.example'') = Some (Some 3)" by code_simp
  with Explain_agrees [OF sample_router_New ran srv] srv show ?thesis by simp
qed

subsection \<open>Redirects\<close>

lemma localRedirectTarget_local:
  "HasPrefix (localRedirectTarget t) ''/'' \<Longrightarrow>
     \<not> HasPrefix (localRedirectTarget t) ''//'' \<and> \<not> HasPrefix (localRedirectTarget t) [slash, CHR 0x5C]"
proof (induction t rule: localRedirectTarget.induct)
  case (1 t)
  show ?case
  proof (cases "HasPrefix t ''/'' \<and> length t > 1 \<and> (t ! 1 = slash \<or> t ! 1 = CHR 0x5C)")
    case True
    then have "localRedirectTarget t = localRedirectTarget (''/'' @ drop 2 t)"
      by (subst localRedirectTarget.simps) simp
    with 1 True show ?thesis by simp
  next
    case False
    then have "localRedirectTarget t = t" by (subst localRedirectTarget.simps) auto
    with False "1.prems" show ?thesis by (auto simp: HasPrefix_iff)
  qed
qed

lemma applyRewrites_local:
  "applyRewrites rules p = Redirected code t \<Longrightarrow>
     code \<in> {301, 302} \<and> (HasPrefix t ''/'' \<longrightarrow> \<not> HasPrefix t ''//'' \<and> \<not> HasPrefix t [slash, CHR 0x5C])"
  by (induction rules arbitrary: p) (auto simp: Let_def localRedirectTarget_local split: if_splits)

text \<open>A request cannot turn a rewrite rule into an open redirect, and plain HTTP is only ever
  upgraded. When serving a request ends in a rewrite redirect, the status is 301 or 302 and a
  target that starts with a slash does not start with two slashes or with a slash and a
  backslash, which browsers read as another host. When it ends in the upgrade redirect, the
  status is 301 or 308, the target is an https URL, and the request came without TLS.\<close>

lemma For_redirects:
  "(For byAddr addr r = RewriteRedirect loc code t \<longrightarrow>
      code \<in> {301, 302} \<and>
      (HasPrefix t ''/'' \<longrightarrow> \<not> HasPrefix t ''//'' \<and> \<not> HasPrefix t [slash, CHR 0x5C])) \<and>
   (For byAddr addr r = ToHTTPS code t \<longrightarrow>
      code \<in> {301, 308} \<and> HasPrefix t ''https://'' \<and> \<not> req_tls r)"
proof (intro conjI impI)
  assume "For byAddr addr r = RewriteRedirect loc code t"
  then have "\<exists>rules p. applyRewrites rules p = Redirected code t"
    by (auto simp: For_def Let_def split: option.splits prod.splits if_splits rewritten.splits)
  then show "code \<in> {301, 302}" "HasPrefix t ''/'' \<Longrightarrow> \<not> HasPrefix t ''//''"
    "HasPrefix t ''/'' \<Longrightarrow> \<not> HasPrefix t [slash, CHR 0x5C]"
    using applyRewrites_local by blast+
next
  assume "For byAddr addr r = ToHTTPS code t"
  then obtain c where "redirectToHTTPS r c = (code, t)" and tls: "\<not> req_tls r"
    by (auto simp: For_def Let_def split: option.splits prod.splits if_splits rewritten.splits)
  then show "code \<in> {301, 308}" "HasPrefix t ''https://''" "\<not> req_tls r"
    by (auto simp: redirectToHTTPS_def Let_def HasPrefix_def split: if_splits)
qed

definition sample_rewriting :: Router where
  "sample_rewriting =
     (let l = (hd (sr_locations (sample_built sample_tiers)))\<lparr>lr_rewrites :=
                [\<lparr>rw_re = \<lparr>MatchString = (\<lambda>s. HasPrefix s ''/go/''), ReplaceAllString = (\<lambda>s t. drop 3 s)\<rparr>,
                  rw_replacement = ''/$1'', rw_flag = ''redirect''\<rparr>]\<rparr>;
          s = indexLocations ((sample_built sample_tiers)\<lparr>sr_locations := [l]\<rparr>) in
      Map.empty('':80'' \<mapsto> \<lparr>ar_servers = [s], ar_def = Some s\<rparr>,
                '':81'' \<mapsto> \<lparr>ar_servers = [], ar_def = Some (s\<lparr>sr_redirectHTTPS := 308\<rparr>)\<rparr>))"

definition redirect_of :: "outcome \<Rightarrow> (nat \<times> string) option" where
  "redirect_of o' = (case o' of RewriteRedirect l c t \<Rightarrow> Some (c, t) | ToHTTPS c t \<Rightarrow> Some (c, t) | _ \<Rightarrow> None)"

definition is_rewrite :: "outcome \<Rightarrow> bool" where
  "is_rewrite o' = (case o' of RewriteRedirect l c t \<Rightarrow> True | _ \<Rightarrow> False)"

text \<open>A rule that copies the rest of the path would send \<^verbatim>\<open>/go/\evil.example\<close> to another
  host; it is sent to a local path.\<close>

lemma For_redirects_example:
  "redirect_of (For sample_rewriting '':80'' (sample_request ''GET'' ([slash] @ ''go'' @ [slash, CHR 0x5C] @ ''evil.example''))) =
     Some (302, ''/evil.example'') \<and> \<not> HasPrefix ''/evil.example'' ''//''"
proof -
  let ?o = "For sample_rewriting '':80'' (sample_request ''GET'' ([slash] @ ''go'' @ [slash, CHR 0x5C] @ ''evil.example''))"
  have r: "redirect_of ?o = Some (302, ''/evil.example'')" by code_simp
  moreover have "is_rewrite ?o" by code_simp
  ultimately obtain l where "?o = RewriteRedirect l 302 ''/evil.example''"
    by (auto simp: redirect_of_def is_rewrite_def split: outcome.splits)
  with For_redirects [of sample_rewriting "'':80''"] have "\<not> HasPrefix ''/evil.example'' ''//''"
    by (metis HasPrefix_append append_Cons append_Nil)
  with r show ?thesis by simp
qed

subsection \<open>Withdrawn locations\<close>

lemma withdrawn_not_cacheable:
  "fst (buildWithdrawnHandler ops h) ''Cache-Control'' = [''no-store''] \<and>
   fst (buildWithdrawnHandler ops h) ''Expires'' = [] \<and> snd (buildWithdrawnHandler ops h) = 403"
proof -
  have "CanonicalMIMEHeaderKey ''Cache-Control'' = ''Cache-Control''" "CanonicalMIMEHeaderKey ''Expires'' = ''Expires''"
    by code_simp+
  then show ?thesis by (simp add: buildWithdrawnHandler_def Let_def header_Set_def header_Del_def)
qed

text \<open>A withdrawn location answers nothing but the withdrawal, whatever its rewrites and
  handler are.\<close>

lemma For_withdrawn:
  assumes "For byAddr addr r = Serve loc r' \<or> For byAddr addr r = RewriteRedirect loc code t"
  shows "lr_withdrawn loc = None"
  using assms by (auto simp: For_def Let_def split: option.splits prod.splits if_splits rewritten.splits)

end
