(* ===== verification/Clientaddr.thy ===== *)
theory Clientaddr
  imports Gostrings "HOL-Library.Product_Lexorder"
begin

text \<open>
  \<^verbatim>\<open>src/internal/clientaddr\<close>: the address of the client behind trusted proxies. The
  parsers of the forwarding headers (\<^verbatim>\<open>parse.go\<close>), the policy and the walk along the
  chain of hops (\<^verbatim>\<open>policy.go\<close>), and the identity a request carries
  (\<^verbatim>\<open>clientaddr.go\<close>).

  The text parsers of \<^verbatim>\<open>net/netip\<close> are the arguments \<open>pa\<close> (\<^verbatim>\<open>ParseAddr\<close>),
  \<open>pp\<close> (\<^verbatim>\<open>ParsePrefix\<close>) and \<open>pap\<close> (\<^verbatim>\<open>ParseAddrPort\<close>); addresses and
  prefixes themselves are modelled.
\<close>

subsection \<open>Addresses\<close>

datatype Addr =
  NoAddr
| V4 "32 word"
| V6 "128 word" string

definition IsValid :: "Addr \<Rightarrow> bool" where
  "IsValid a \<longleftrightarrow> a \<noteq> NoAddr"

definition Is4 :: "Addr \<Rightarrow> bool" where
  "Is4 a = (case a of V4 _ \<Rightarrow> True | _ \<Rightarrow> False)"

definition Is4In6 :: "Addr \<Rightarrow> bool" where
  "Is4In6 a = (case a of V6 w _ \<Rightarrow> drop_bit 32 w = 0xFFFF | _ \<Rightarrow> False)"

definition BitLen :: "Addr \<Rightarrow> nat" where
  "BitLen a = (case a of NoAddr \<Rightarrow> 0 | V4 _ \<Rightarrow> 32 | V6 _ _ \<Rightarrow> 128)"

definition Unmap :: "Addr \<Rightarrow> Addr" where
  "Unmap a = (case a of V6 w z \<Rightarrow> if Is4In6 a then V4 (ucast w) else a | _ \<Rightarrow> a)"

definition without_zone :: "Addr \<Rightarrow> Addr" where
  "without_zone a = (case a of V6 w z \<Rightarrow> V6 w [] | _ \<Rightarrow> a)"

definition addr_normalize :: "Addr \<Rightarrow> Addr" where
  "addr_normalize a = (if \<not> IsValid a then NoAddr else without_zone (Unmap a))"

record Prefix =
  pf_addr :: Addr
  pf_bits :: nat

definition prefix_Contains :: "Prefix \<Rightarrow> Addr \<Rightarrow> bool" where
  "prefix_Contains p a =
     (case (pf_addr p, a) of
        (V4 x, V4 y) \<Rightarrow> pf_bits p \<le> 32 \<and> drop_bit (32 - pf_bits p) x = drop_bit (32 - pf_bits p) y
      | (V6 x _, V6 y z) \<Rightarrow>
          z = [] \<and> pf_bits p \<le> 128 \<and> drop_bit (128 - pf_bits p) x = drop_bit (128 - pf_bits p) y
      | _ \<Rightarrow> False)"

definition Masked :: "Prefix \<Rightarrow> Prefix" where
  "Masked p =
     (case pf_addr p of
        NoAddr \<Rightarrow> p
      | V4 x \<Rightarrow> p\<lparr>pf_addr := V4 (push_bit (32 - pf_bits p) (drop_bit (32 - pf_bits p) x))\<rparr>
      | V6 x z \<Rightarrow> p\<lparr>pf_addr := V6 (push_bit (128 - pf_bits p) (drop_bit (128 - pf_bits p) x)) []\<rparr>)"

subsection \<open>Parsing the headers\<close>

datatype chain_error = ErrMalformed | ErrTooManyHops

datatype addr_Source = SourcePeer | SourceForwarded | SourceXFF

abbreviation dquote :: char where
  "dquote \<equiv> CHR 0x22"

abbreviation backslash :: char where
  "backslash \<equiv> CHR 0x5C"

definition maxHeaderBytes :: nat where
  "maxHeaderBytes = 8192"

fun split_quoted :: "char \<Rightarrow> bool \<Rightarrow> bool \<Rightarrow> string list \<Rightarrow> string \<Rightarrow> string \<Rightarrow> string list option" where
  "split_quoted sep inQuote escaped out cur [] =
     (if inQuote \<or> escaped then None else Some (out @ [cur]))"
| "split_quoted sep inQuote escaped out cur (c # s) =
     (if escaped then split_quoted sep inQuote False out (cur @ [c]) s
      else if inQuote \<and> c = backslash then split_quoted sep inQuote True out (cur @ [c]) s
      else if c = dquote then split_quoted sep (\<not> inQuote) False out (cur @ [c]) s
      else if c = sep \<and> \<not> inQuote then split_quoted sep inQuote False (out @ [cur]) [] s
      else split_quoted sep inQuote False out (cur @ [c]) s)"

definition splitOutsideQuotes :: "string \<Rightarrow> char \<Rightarrow> string list option" where
  "splitOutsideQuotes s sep = split_quoted sep False False [] [] s"

fun unescape_quoted :: "string \<Rightarrow> string option" where
  "unescape_quoted [] = Some []"
| "unescape_quoted (c # s) =
     (if c = backslash then
        (case s of [] \<Rightarrow> None | d # t \<Rightarrow> map_option ((#) d) (unescape_quoted t))
      else if c = dquote then None
      else map_option ((#) c) (unescape_quoted s))"

definition unquote :: "string \<Rightarrow> string option" where
  "unquote s =
     (if s = [] \<or> hd s \<noteq> dquote then
        (if dquote \<in> set s \<or> backslash \<in> set s then None else Some s)
      else if length s < 2 \<or> last s \<noteq> dquote then None
      else let inner = butlast (tl s) in
           if backslash \<notin> set inner then (if dquote \<in> set inner then None else Some inner)
           else unescape_quoted inner)"

definition validPortSuffix :: "string \<Rightarrow> bool" where
  "validPortSuffix s =
     (if length s < 2 \<or> s ! 0 \<noteq> CHR '':'' \<or> length s > 6 then False else list_all is_digit (drop 1 s))"

definition parseBareAddr :: "(string \<Rightarrow> Addr option) \<Rightarrow> string \<Rightarrow> Addr" where
  "parseBareAddr pa s =
     (if s = [] \<or> list_ex (\<lambda>c. c = CHR ''%'' \<or> c = CHR ''/'' \<or> c = CHR '' '' \<or> c = CHR 0x09) s then NoAddr
      else case pa s of None \<Rightarrow> NoAddr | Some a \<Rightarrow> addr_normalize a)"

definition parseForwardedFor :: "(string \<Rightarrow> Addr option) \<Rightarrow> string \<Rightarrow> Addr" where
  "parseForwardedFor pa raw =
     (if raw = [] \<or> raw ! 0 = CHR ''_'' \<or> EqualFold raw ''unknown'' then NoAddr
      else if raw ! 0 = CHR ''['' then
        (case index_byte (CHR '']'') raw of
           None \<Rightarrow> NoAddr
         | Some e \<Rightarrow>
             let rest = drop (e + 1) raw in
             if rest \<noteq> [] \<and> \<not> validPortSuffix rest then NoAddr
             else let a = parseBareAddr pa (drop 1 (take e raw)) in if Is4 a then NoAddr else a)
      else
        (case Cut raw (CHR '':'') of
           (host, port, True) \<Rightarrow>
             if \<not> validPortSuffix (CHR '':'' # port) then NoAddr
             else let a = parseBareAddr pa host in if \<not> Is4 a then NoAddr else a
         | (_, _, False) \<Rightarrow> parseBareAddr pa raw))"

fun element_params :: "string option \<Rightarrow> string list \<Rightarrow> (string option) option" where
  "element_params seen [] = Some seen"
| "element_params seen (param # params) =
     (let param = TrimSpace param in
      if param = [] then element_params seen params
      else case Cut param (CHR ''='') of
             (_, _, False) \<Rightarrow> None
           | (name, value, True) \<Rightarrow>
               if \<not> EqualFold (TrimSpace name) ''for'' then element_params seen params
               else if seen \<noteq> None then None
               else case unquote (TrimSpace value) of
                      None \<Rightarrow> None
                    | Some v \<Rightarrow> element_params (Some v) params)"

definition forwardedElementAddr :: "(string \<Rightarrow> Addr option) \<Rightarrow> string \<Rightarrow> Addr option" where
  "forwardedElementAddr pa element =
     (if TrimSpace element = [] then Some NoAddr
      else case splitOutsideQuotes element (CHR '';'') of
             None \<Rightarrow> None
           | Some params \<Rightarrow>
               (case element_params None params of
                  None \<Rightarrow> None
                | Some None \<Rightarrow> Some NoAddr
                | Some (Some raw) \<Rightarrow> Some (parseForwardedFor pa raw)))"

fun append_hops ::
  "(string \<Rightarrow> Addr option) \<Rightarrow> nat \<Rightarrow> Addr list \<Rightarrow> string list \<Rightarrow> chain_error + Addr list" where
  "append_hops addr maxHops hops [] = Inr hops"
| "append_hops addr maxHops hops (e # es) =
     (if length hops \<ge> maxHops then Inl ErrTooManyHops
      else case addr e of
             None \<Rightarrow> Inl ErrMalformed
           | Some a \<Rightarrow> append_hops addr maxHops (hops @ [a]) es)"

definition appendXFF ::
  "(string \<Rightarrow> Addr option) \<Rightarrow> Addr list \<Rightarrow> string \<Rightarrow> nat \<Rightarrow> chain_error + Addr list" where
  "appendXFF pa hops value maxHops =
     append_hops (\<lambda>e. Some (parseBareAddr pa (TrimSpace e))) maxHops hops (Split value (CHR '',''))"

definition appendForwarded ::
  "(string \<Rightarrow> Addr option) \<Rightarrow> Addr list \<Rightarrow> string \<Rightarrow> nat \<Rightarrow> chain_error + Addr list" where
  "appendForwarded pa hops value maxHops =
     (case splitOutsideQuotes value (CHR '','') of
        None \<Rightarrow> Inl ErrMalformed
      | Some elements \<Rightarrow> append_hops (forwardedElementAddr pa) maxHops hops elements)"

fun parse_values ::
  "(string \<Rightarrow> Addr option) \<Rightarrow> addr_Source \<Rightarrow> nat \<Rightarrow> Addr list \<Rightarrow> string list \<Rightarrow> chain_error + Addr list" where
  "parse_values pa source maxHops hops [] = Inr hops"
| "parse_values pa source maxHops hops (v # vs) =
     (case (if source = SourceForwarded then appendForwarded pa hops v maxHops
            else appendXFF pa hops v maxHops) of
        Inl e \<Rightarrow> Inl e
      | Inr hops' \<Rightarrow> parse_values pa source maxHops hops' vs)"

definition parseChain ::
  "(string \<Rightarrow> Addr option) \<Rightarrow> addr_Source \<Rightarrow> string list \<Rightarrow> nat \<Rightarrow> chain_error + Addr list" where
  "parseChain pa source values maxHops =
     (if sum_list (map length values) > maxHeaderBytes then Inl ErrMalformed
      else case parse_values pa source maxHops [] values of
             Inl e \<Rightarrow> Inl e
           | Inr hops \<Rightarrow> if hops = [] then Inl ErrMalformed else Inr hops)"

subsection \<open>The policy\<close>

record addr_Policy =
  ap_trusted :: "Prefix list"
  ap_sources :: "addr_Source list"
  ap_maxHops :: int

datatype policy_error =
  MaxHopsTooLarge
| EmptyEntry
| InvalidEntry
| MappedPrefix
| HostBitsSet
| DuplicateHeader
| UnsupportedHeader

definition DefaultMaxHops :: int where
  "DefaultMaxHops = 16"

definition MaxHopsLimit :: int where
  "MaxHopsLimit = 255"

definition DefaultForwardedHeaders :: "string list" where
  "DefaultForwardedHeaders = [''x-forwarded-for'']"

definition ParsePrefix ::
  "(string \<Rightarrow> Addr option) \<Rightarrow> (string \<Rightarrow> Prefix option) \<Rightarrow> string \<Rightarrow> policy_error + Prefix" where
  "ParsePrefix pa pp raw =
     (let entry = TrimSpace raw in
      if entry = [] then Inl EmptyEntry
      else if \<not> Contains entry ''/'' then
        (case pa entry of
           None \<Rightarrow> Inl InvalidEntry
         | Some a \<Rightarrow> let a = addr_normalize a in Inr \<lparr>pf_addr = a, pf_bits = BitLen a\<rparr>)
      else
        (case pp entry of
           None \<Rightarrow> Inl InvalidEntry
         | Some p \<Rightarrow>
             if Is4In6 (pf_addr p) then Inl MappedPrefix
             else if Masked p \<noteq> p then Inl HostBitsSet
             else Inr p))"

fun parse_prefixes ::
  "(string \<Rightarrow> Addr option) \<Rightarrow> (string \<Rightarrow> Prefix option) \<Rightarrow> string list \<Rightarrow> policy_error + Prefix list" where
  "parse_prefixes pa pp [] = Inr []"
| "parse_prefixes pa pp (raw # raws) =
     (case ParsePrefix pa pp raw of
        Inl e \<Rightarrow> Inl e
      | Inr p \<Rightarrow> (case parse_prefixes pa pp raws of Inl e \<Rightarrow> Inl e | Inr ps \<Rightarrow> Inr (p # ps)))"

definition addr_value :: "Addr \<Rightarrow> int" where
  "addr_value a = (case a of NoAddr \<Rightarrow> 0 | V4 w \<Rightarrow> uint w | V6 w _ \<Rightarrow> uint w)"

definition sortPrefixes :: "Prefix list \<Rightarrow> Prefix list" where
  "sortPrefixes ps = sort_key (\<lambda>p. (BitLen (pf_addr p), addr_value (pf_addr p), pf_bits p)) ps"

fun parse_headers :: "string list \<Rightarrow> addr_Source list \<Rightarrow> string list \<Rightarrow> policy_error + addr_Source list" where
  "parse_headers seen out [] = Inr out"
| "parse_headers seen out (raw # raws) =
     (let name = ToLower (TrimSpace raw) in
      if name \<in> set seen then Inl DuplicateHeader
      else if name = ''forwarded'' then parse_headers (name # seen) (out @ [SourceForwarded]) raws
      else if name = ''x-forwarded-for'' then parse_headers (name # seen) (out @ [SourceXFF]) raws
      else Inl UnsupportedHeader)"

definition NewPolicy ::
  "(string \<Rightarrow> Addr option) \<Rightarrow> (string \<Rightarrow> Prefix option) \<Rightarrow> string list \<Rightarrow> string list option \<Rightarrow> int \<Rightarrow>
   policy_error + addr_Policy" where
  "NewPolicy pa pp trustedProxies forwardedHeaders maxHops =
     (let hops = (if maxHops \<le> 0 then DefaultMaxHops else maxHops) in
      if hops > MaxHopsLimit then Inl MaxHopsTooLarge
      else case parse_prefixes pa pp trustedProxies of
             Inl e \<Rightarrow> Inl e
           | Inr ps \<Rightarrow>
               (case parse_headers [] [] (case forwardedHeaders of None \<Rightarrow> DefaultForwardedHeaders | Some hs \<Rightarrow> hs) of
                  Inl e \<Rightarrow> Inl e
                | Inr sources \<Rightarrow> Inr \<lparr>ap_trusted = sortPrefixes ps, ap_sources = sources, ap_maxHops = hops\<rparr>))"

definition TrustedCount :: "addr_Policy option \<Rightarrow> nat" where
  "TrustedCount po = (case po of None \<Rightarrow> 0 | Some p \<Rightarrow> length (ap_trusted p))"

definition Trusts :: "addr_Policy option \<Rightarrow> Addr \<Rightarrow> bool" where
  "Trusts po a =
     (case po of
        None \<Rightarrow> False
      | Some p \<Rightarrow>
          if \<not> IsValid a then False
          else list_ex (\<lambda>q. prefix_Contains q (addr_normalize a)) (ap_trusted p))"

subsection \<open>Deriving the client\<close>

datatype addr_Result = ResultAccepted | ResultUntrustedPeer | ResultMalformed | ResultTooManyHops

record addr_Identity =
  ai_Client :: Addr
  ai_Peer :: Addr
  ai_Source :: addr_Source
  ai_Result :: addr_Result

definition source_String :: "addr_Source \<Rightarrow> string" where
  "source_String s =
     (case s of SourceForwarded \<Rightarrow> ''forwarded'' | SourceXFF \<Rightarrow> ''xff'' | SourcePeer \<Rightarrow> ''peer'')"

definition result_String :: "addr_Result \<Rightarrow> string" where
  "result_String r =
     (case r of
        ResultUntrustedPeer \<Rightarrow> ''untrusted_peer''
      | ResultMalformed \<Rightarrow> ''malformed''
      | ResultTooManyHops \<Rightarrow> ''too_many_hops''
      | ResultAccepted \<Rightarrow> ''accepted'')"

definition Spoofed :: "addr_Identity \<Rightarrow> bool" where
  "Spoofed i \<longleftrightarrow> ai_Result i = ResultUntrustedPeer"

definition Attributed :: "addr_Identity \<Rightarrow> bool" where
  "Attributed i \<longleftrightarrow> ai_Result i = ResultAccepted \<or> ai_Result i = ResultUntrustedPeer"

definition headerName :: "addr_Source \<Rightarrow> string" where
  "headerName source = (if source = SourceForwarded then ''Forwarded'' else ''X-Forwarded-For'')"

definition any_value :: "string list \<Rightarrow> bool" where
  "any_value values = list_ex (\<lambda>v. TrimSpace v \<noteq> []) values"

text \<open>The loop of \<^verbatim>\<open>walk\<close> runs from the last hop to the first: \<open>rhops\<close> is reversed.\<close>

fun walk_loop :: "addr_Policy \<Rightarrow> addr_Identity \<Rightarrow> addr_Source \<Rightarrow> Addr list \<Rightarrow> addr_Identity option" where
  "walk_loop p i source [] = None"
| "walk_loop p i source (a # rhops) =
     (if \<not> IsValid a then Some (i\<lparr>ai_Result := ResultMalformed\<rparr>)
      else if Trusts (Some p) a then walk_loop p i source rhops
      else Some (i\<lparr>ai_Client := a, ai_Source := source, ai_Result := ResultAccepted\<rparr>))"

definition addr_walk :: "addr_Policy \<Rightarrow> addr_Identity \<Rightarrow> addr_Source \<Rightarrow> Addr list \<Rightarrow> addr_Identity" where
  "addr_walk p i source hops =
     (case walk_loop p i source (rev hops) of
        Some i' \<Rightarrow> i'
      | None \<Rightarrow> i\<lparr>ai_Client := hops ! 0, ai_Source := source, ai_Result := ResultAccepted\<rparr>)"

fun derive_loop ::
  "(string \<Rightarrow> Addr option) \<Rightarrow> addr_Policy \<Rightarrow> addr_Identity \<Rightarrow> bool \<Rightarrow> (string \<Rightarrow> string list) \<Rightarrow>
   addr_Source list \<Rightarrow> addr_Identity" where
  "derive_loop pa p i trusted h [] = i"
| "derive_loop pa p i trusted h (source # sources) =
     (let values = h (headerName source) in
      if \<not> any_value values then derive_loop pa p i trusted h sources
      else if \<not> trusted then i\<lparr>ai_Result := ResultUntrustedPeer\<rparr>
      else case parseChain pa source values (nat (ap_maxHops p)) of
             Inl ErrTooManyHops \<Rightarrow> i\<lparr>ai_Result := ResultTooManyHops\<rparr>
           | Inl ErrMalformed \<Rightarrow> i\<lparr>ai_Result := ResultMalformed\<rparr>
           | Inr hops \<Rightarrow> addr_walk p i source hops)"

definition Derive ::
  "(string \<Rightarrow> Addr option) \<Rightarrow> addr_Policy option \<Rightarrow> Addr \<Rightarrow> (string \<Rightarrow> string list) \<Rightarrow> addr_Identity" where
  "Derive pa po peer h =
     (let peer = addr_normalize peer;
          i = \<lparr>ai_Client = peer, ai_Peer = peer, ai_Source = SourcePeer, ai_Result = ResultAccepted\<rparr> in
      if \<not> IsValid peer then i\<lparr>ai_Result := ResultMalformed\<rparr>
      else case po of
             None \<Rightarrow> i
           | Some p \<Rightarrow>
               if ap_trusted p = [] \<or> ap_sources p = [] then i
               else derive_loop pa p i (Trusts po peer) h (ap_sources p))"

definition PeerFromRemoteAddr ::
  "(string \<Rightarrow> Addr option) \<Rightarrow> (string \<Rightarrow> Addr option) \<Rightarrow> string \<Rightarrow> Addr" where
  "PeerFromRemoteAddr pa pap remote =
     (if remote = [] then NoAddr
      else case pap remote of
             Some a \<Rightarrow> addr_normalize a
           | None \<Rightarrow> (case pa remote of Some a \<Rightarrow> addr_normalize a | None \<Rightarrow> NoAddr))"

text \<open>A context is the identity it carries, if any.\<close>

definition request_Client ::
  "(string \<Rightarrow> Addr option) \<Rightarrow> (string \<Rightarrow> Addr option) \<Rightarrow> addr_Identity option \<Rightarrow> string \<Rightarrow> Addr" where
  "request_Client pa pap ctx remote =
     (case ctx of
        Some i \<Rightarrow> if IsValid (ai_Client i) then ai_Client i else PeerFromRemoteAddr pa pap remote
      | None \<Rightarrow> PeerFromRemoteAddr pa pap remote)"

definition request_Peer ::
  "(string \<Rightarrow> Addr option) \<Rightarrow> (string \<Rightarrow> Addr option) \<Rightarrow> addr_Identity option \<Rightarrow> string \<Rightarrow> Addr" where
  "request_Peer pa pap ctx remote =
     (case ctx of
        Some i \<Rightarrow> if IsValid (ai_Peer i) then ai_Peer i else PeerFromRemoteAddr pa pap remote
      | None \<Rightarrow> PeerFromRemoteAddr pa pap remote)"

subsection \<open>Chains are bounded\<close>

lemma append_hops_bound:
  "append_hops addr m hops es = Inr hops' \<Longrightarrow> length hops \<le> m \<Longrightarrow> length hops' \<le> m \<and> (es \<noteq> [] \<longrightarrow> hops' \<noteq> [])"
proof (induction es arbitrary: hops)
  case (Cons e es)
  then obtain a where "append_hops addr m (hops @ [a]) es = Inr hops'" "length hops < m"
    by (auto split: if_splits option.splits)
  with Cons.IH [of "hops @ [a]"] show ?case by (cases es) auto
qed simp

lemma parse_values_bound:
  "parse_values pa source m hops vs = Inr hops' \<Longrightarrow> length hops \<le> m \<Longrightarrow> length hops' \<le> m"
proof (induction vs arbitrary: hops)
  case (Cons v vs)
  then obtain h1 where h1: "(if source = SourceForwarded then appendForwarded pa hops v m else appendXFF pa hops v m) = Inr h1"
    and rest: "parse_values pa source m h1 vs = Inr hops'"
    by (auto split: sum.splits)
  have "length h1 \<le> m"
    using h1 Cons.prems(2)
    by (auto simp: appendForwarded_def appendXFF_def split: if_splits option.splits dest: append_hops_bound)
  with Cons.IH [OF rest] show ?case by simp
qed simp

lemma parseChain_bound: "parseChain pa source vs m = Inr hops \<Longrightarrow> hops \<noteq> [] \<and> length hops \<le> m"
  by (auto simp: parseChain_def split: if_splits sum.splits dest: parse_values_bound)

subsection \<open>Quoting\<close>

text \<open>A quoted string, with every quote and backslash escaped, reads back as it was.\<close>

definition quoted :: "string \<Rightarrow> string" where
  "quoted s = dquote # concat (map (\<lambda>c. if c = dquote \<or> c = backslash then [backslash, c] else [c]) s) @ [dquote]"

lemma unescape_escape:
  "unescape_quoted (concat (map (\<lambda>c. if c = dquote \<or> c = backslash then [backslash, c] else [c]) s)) = Some s"
  by (induction s) auto

lemma unquote_quoted: "unquote (quoted s) = Some s"
proof -
  let ?e = "concat (map (\<lambda>c. if c = dquote \<or> c = backslash then [backslash, c] else [c]) s)"
  have plain: "backslash \<notin> set ?e \<Longrightarrow> ?e = s \<and> dquote \<notin> set s"
    by (induction s) (auto split: if_splits)
  have q: "quoted s = dquote # ?e @ [dquote]" by (simp add: quoted_def)
  have "hd (quoted s) = dquote" "last (quoted s) = dquote" "\<not> length (quoted s) < 2" "butlast (tl (quoted s)) = ?e" "quoted s \<noteq> []"
    by (simp_all add: q)
  then show ?thesis using plain unescape_escape [of s] by (auto simp: unquote_def Let_def)
qed

text \<open>A separator inside a quoted string does not split it.\<close>

lemma split_quoted_inside:
  assumes "sep \<noteq> dquote" "sep \<noteq> backslash"
  shows "split_quoted sep True False out cur
      (concat (map (\<lambda>c. if c = dquote \<or> c = backslash then [backslash, c] else [c]) s) @ dquote # rest) =
    split_quoted sep False False out
      (cur @ concat (map (\<lambda>c. if c = dquote \<or> c = backslash then [backslash, c] else [c]) s) @ [dquote]) rest"
  by (induction s arbitrary: cur) (auto simp: assms)

lemma splitOutsideQuotes_quoted:
  "sep \<noteq> dquote \<Longrightarrow> sep \<noteq> backslash \<Longrightarrow> splitOutsideQuotes (quoted s) sep = Some [quoted s]"
  using split_quoted_inside [of sep "[]" "[dquote]" s "[]"] by (simp add: splitOutsideQuotes_def quoted_def)

subsection \<open>Whom the derivation believes\<close>

lemma walk_loop_cases:
  "case walk_loop p i source rhops of
     None \<Rightarrow> \<forall>a \<in> set rhops. IsValid a \<and> Trusts (Some p) a
   | Some i' \<Rightarrow> \<exists>suf a pre. rhops = suf @ a # pre \<and> (\<forall>b \<in> set suf. IsValid b \<and> Trusts (Some p) b) \<and>
       (if IsValid a then \<not> Trusts (Some p) a \<and> i' = i\<lparr>ai_Client := a, ai_Source := source, ai_Result := ResultAccepted\<rparr>
        else i' = i\<lparr>ai_Result := ResultMalformed\<rparr>)"
proof (induction rhops)
  case (Cons a rhops)
  consider (bad) "\<not> IsValid a" | (trusted) "IsValid a" "Trusts (Some p) a" | (client) "IsValid a" "\<not> Trusts (Some p) a"
    by blast
  then show ?case
  proof cases
    case trusted
    then have eq: "walk_loop p i source (a # rhops) = walk_loop p i source rhops" by simp
    show ?thesis
    proof (cases "walk_loop p i source rhops")
      case None
      with Cons.IH trusted eq show ?thesis by simp
    next
      case (Some i')
      with Cons.IH obtain suf b pre where "rhops = suf @ b # pre" "\<forall>c \<in> set suf. IsValid c \<and> Trusts (Some p) c"
        "if IsValid b then \<not> Trusts (Some p) b \<and> i' = i\<lparr>ai_Client := b, ai_Source := source, ai_Result := ResultAccepted\<rparr>
         else i' = i\<lparr>ai_Result := ResultMalformed\<rparr>" by auto
      with trusted show ?thesis
        unfolding eq Some option.case by (intro exI [of _ "a # suf"] exI [of _ b] exI [of _ pre]) simp
    qed
  qed (auto intro!: exI [of _ "[]"])
qed simp

text \<open>What a derived identity may be, given the chain of hops it was read from.\<close>

definition believed :: "addr_Policy \<Rightarrow> Addr list \<Rightarrow> Addr \<Rightarrow> bool" where
  "believed p hops client \<longleftrightarrow>
     (\<exists>pre suf. hops = pre @ client # suf \<and> IsValid client \<and>
        (\<forall>b \<in> set suf. Trusts (Some p) b) \<and> (Trusts (Some p) client \<longrightarrow> pre = []))"

lemma addr_walk_cases:
  assumes "hops \<noteq> []"
  shows "addr_walk p i source hops = i\<lparr>ai_Result := ResultMalformed\<rparr> \<or>
    (\<exists>c. believed p hops c \<and>
       addr_walk p i source hops = i\<lparr>ai_Client := c, ai_Source := source, ai_Result := ResultAccepted\<rparr>)"
proof (cases "walk_loop p i source (rev hops)")
  case None
  with walk_loop_cases [where p = p and i = i and source = source and rhops = "rev hops"] have all: "\<forall>a \<in> set hops. IsValid a \<and> Trusts (Some p) a" by simp
  obtain a as where "hops = a # as" using assms by (cases hops) auto
  with all have "believed p hops a" by (auto simp: believed_def)
  with \<open>hops = a # as\<close> None show ?thesis by (auto simp: addr_walk_def)
next
  case (Some i')
  with walk_loop_cases [where p = p and i = i and source = source and rhops = "rev hops"] obtain suf a pre where r: "rev hops = suf @ a # pre"
    "\<forall>b \<in> set suf. IsValid b \<and> Trusts (Some p) b"
    "if IsValid a then \<not> Trusts (Some p) a \<and> i' = i\<lparr>ai_Client := a, ai_Source := source, ai_Result := ResultAccepted\<rparr>
     else i' = i\<lparr>ai_Result := ResultMalformed\<rparr>" by auto
  have hops: "hops = rev pre @ a # rev suf" using arg_cong [OF r(1), of rev] by simp
  show ?thesis
  proof (cases "IsValid a")
    case True
    with r have "believed p hops a" unfolding believed_def hops by (intro exI [of _ "rev pre"] exI [of _ "rev suf"]) auto
    with True r(3) Some show ?thesis by (auto simp: addr_walk_def)
  next
    case False
    with r(3) Some show ?thesis by (simp add: addr_walk_def)
  qed
qed

lemma derive_loop_cases:
  assumes "ai_Source i = SourcePeer" and "ai_Client i = ai_Peer i" and "SourcePeer \<notin> set sources"
  shows "let d = derive_loop pa p i trusted h sources in
    ai_Peer d = ai_Peer i \<and>
    (ai_Source d = SourcePeer \<longrightarrow> ai_Client d = ai_Peer i) \<and>
    (ai_Source d \<noteq> SourcePeer \<longrightarrow> trusted \<and> ai_Result d = ResultAccepted \<and>
       (\<exists>source hops. source \<in> set sources \<and>
          parseChain pa source (h (headerName source)) (nat (ap_maxHops p)) = Inr hops \<and>
          believed p hops (ai_Client d)))"
  using assms(3)
proof (induction sources)
  case (Cons source sources)
  consider (skip) "\<not> any_value (h (headerName source))" | (untrusted) "any_value (h (headerName source))" "\<not> trusted"
    | (err) e where "any_value (h (headerName source))" trusted
        "parseChain pa source (h (headerName source)) (nat (ap_maxHops p)) = Inl e"
    | (chain) hops where "any_value (h (headerName source))" trusted
        "parseChain pa source (h (headerName source)) (nat (ap_maxHops p)) = Inr hops"
    by (cases "parseChain pa source (h (headerName source)) (nat (ap_maxHops p))") auto
  then show ?case
  proof cases
    case skip
    with Cons show ?thesis by (auto simp: Let_def)
  next
    case untrusted
    with assms show ?thesis by (simp add: Let_def)
  next
    case (err e)
    with assms show ?thesis by (cases e) (simp_all add: Let_def)
  next
    case (chain hops)
    then have eq: "derive_loop pa p i trusted h (source # sources) = addr_walk p i source hops" by (simp add: Let_def)
    from addr_walk_cases [OF parseChain_bound [OF chain(3), THEN conjunct1], of p i source] chain assms(1,2) Cons.prems
    show ?thesis unfolding eq by (auto simp: Let_def)
  qed
qed (simp add: assms(1,2) Let_def)

lemma parse_headers_sources:
  "parse_headers seen out raws = Inr sources \<Longrightarrow> SourcePeer \<notin> set out \<Longrightarrow> SourcePeer \<notin> set sources"
  by (induction raws arbitrary: seen out) (auto simp: Let_def split: if_splits)

lemma NewPolicy_sound:
  assumes "NewPolicy pa pp tps fhs mh = Inr p"
  shows "SourcePeer \<notin> set (ap_sources p) \<and> 0 < ap_maxHops p \<and> ap_maxHops p \<le> 255"
  using assms parse_headers_sources
  by (fastforce simp: NewPolicy_def Let_def DefaultMaxHops_def MaxHopsLimit_def split: if_splits sum.splits)

text \<open>C19: A client cannot choose its own address. Whatever the forwarding headers say, and
  whatever the address parser accepts: the derived client is the transport peer unless the peer
  is a trusted proxy; when an address is taken from a header instead, the header parsed into
  at most max_hops hops, every hop to the right of that address is a trusted proxy, and the
  address itself is not one, except that it is the leftmost hop when all of them are trusted.
  Hops further left, which a client can forge, are never used. Every other result, a
  malformed or overlong chain included, falls back to the peer.\<close>

theorem Derive_spoof_proof:
  assumes "NewPolicy pa pp tps fhs mh = Inr p" and "d = Derive pa (Some p) peer h"
  shows "ai_Peer d = addr_normalize peer \<and>
    (\<not> Trusts (Some p) (addr_normalize peer) \<longrightarrow> ai_Client d = addr_normalize peer \<and> ai_Source d = SourcePeer) \<and>
    (ai_Source d = SourcePeer \<or> ai_Result d \<noteq> ResultAccepted \<longrightarrow> ai_Client d = addr_normalize peer) \<and>
    (ai_Source d \<noteq> SourcePeer \<longrightarrow>
       (\<exists>source hops. source \<in> set (ap_sources p) \<and> hops \<noteq> [] \<and> length hops \<le> 255 \<and> int (length hops) \<le> ap_maxHops p \<and>
          parseChain pa source (h (headerName source)) (nat (ap_maxHops p)) = Inr hops \<and>
          believed p hops (ai_Client d)))"
proof -
  define i where "i = \<lparr>ai_Client = addr_normalize peer, ai_Peer = addr_normalize peer, ai_Source = SourcePeer,
    ai_Result = ResultAccepted\<rparr>"
  have i: "ai_Source i = SourcePeer" "ai_Client i = ai_Peer i" "ai_Peer i = addr_normalize peer" by (simp_all add: i_def)
  consider (none) "d = i \<or> d = i\<lparr>ai_Result := ResultMalformed\<rparr>"
    | (loop) "d = derive_loop pa p i (Trusts (Some p) (addr_normalize peer)) h (ap_sources p)"
    using assms(2) by (auto simp: Derive_def Let_def i_def split: if_splits)
  then show ?thesis
  proof cases
    case none
    with i show ?thesis by auto
  next
    case loop
    note D = derive_loop_cases [OF i(1,2) NewPolicy_sound [OF assms(1), THEN conjunct1], of pa p "Trusts (Some p) (addr_normalize peer)" h,
        folded loop, unfolded Let_def i(3)]
    have "hops \<noteq> [] \<and> length hops \<le> 255 \<and> int (length hops) \<le> ap_maxHops p"
      if "parseChain pa source vs (nat (ap_maxHops p)) = Inr hops" for source vs hops
      using parseChain_bound [OF that] NewPolicy_sound [OF assms(1)] by auto
    with D show ?thesis by blast
  qed
qed

text \<open>A peer in 10.0.0.0/8 is trusted; a client put a forged address in front of its own.\<close>

definition sample_addr :: "string \<Rightarrow> Addr option" where
  "sample_addr s =
     (if s = ''10.0.0.1'' then Some (V4 0x0A000001)
      else if s = ''10.0.0.2'' then Some (V4 0x0A000002)
      else if s = ''1.2.3.4'' then Some (V4 0x01020304)
      else if s = ''6.6.6.6'' then Some (V4 0x06060606) else None)"

definition sample_prefix :: "string \<Rightarrow> Prefix option" where
  "sample_prefix s = (if s = ''10.0.0.0/8'' then Some \<lparr>pf_addr = V4 0x0A000000, pf_bits = 8\<rparr> else None)"

definition sample_trust :: addr_Policy where
  "sample_trust = \<lparr>ap_trusted = [\<lparr>pf_addr = V4 0x0A000000, pf_bits = 8\<rparr>], ap_sources = [SourceXFF], ap_maxHops = 16\<rparr>"

definition sample_forwarded :: "string \<Rightarrow> string list" where
  "sample_forwarded n = (if n = ''X-Forwarded-For'' then [''6.6.6.6, 1.2.3.4, 10.0.0.2''] else [])"

theorem Derive_spoof_proof_witness:
  "NewPolicy sample_addr sample_prefix [''10.0.0.0/8''] None 0 = Inr sample_trust \<and>
   ai_Client (Derive sample_addr (Some sample_trust) (V4 0x0A000001) sample_forwarded) = V4 0x01020304 \<and>
   ai_Peer (Derive sample_addr (Some sample_trust) (V4 0x0A000001) sample_forwarded) = V4 0x0A000001"
proof -
  have n: "NewPolicy sample_addr sample_prefix [''10.0.0.0/8''] None 0 = Inr sample_trust" by code_simp
  have "addr_normalize (V4 0x0A000001) = V4 0x0A000001" by code_simp
  moreover have "ai_Client (Derive sample_addr (Some sample_trust) (V4 0x0A000001) sample_forwarded) = V4 0x01020304"
    by code_simp
  ultimately show ?thesis using n Derive_spoof_proof [OF n refl] by metis
qed

end
