(* ===== verification/Rbac.thy ===== *)
theory Rbac
  imports Gostrings
begin

text \<open>
  \<^verbatim>\<open>src/internal/rbac\<close>: the permission catalogue and its wildcards
  (\<^verbatim>\<open>permission.go\<close>), the predefined and custom roles (\<^verbatim>\<open>role.go\<close>), tokens
  (\<^verbatim>\<open>token.go\<close>), and the policy that authenticates and authorises administrators
  (\<^verbatim>\<open>policy.go\<close>, \<^verbatim>\<open>identity.go\<close>).

  SHA-256 is the argument \<open>sha\<close>; what the code relies on is that it returns 32 bytes. The
  custom roles are the association list of the configuration map, with distinct names.
\<close>

type_synonym Permission = string

definition Wildcard :: Permission where
  "Wildcard = ''*''"

definition ConfigTrust :: Permission where
  "ConfigTrust = ''config:trust''"

definition ConfigAdopt :: Permission where
  "ConfigAdopt = ''config:adopt''"

definition ConfigRaw :: Permission where
  "ConfigRaw = ''config:raw''"

definition AdminManage :: Permission where
  "AdminManage = ''admin:manage''"

definition catalog :: "Permission list" where
  "catalog =
     [''status:read'', ''metrics:read'', ''config:read'', ConfigRaw, ''config:write'', ''config:apply'',
      ConfigTrust, ConfigAdopt, ''history:read'', ''history:raw'', ''history:rollback'',
      ''plugins:upload'', ''observability:read'', ''audit:read'', ''audit:export'', ''cache:inspect'',
      ''cache:purge'', ''reload:trigger'', AdminManage]"

text \<open>The test both \<^verbatim>\<open>Known\<close> and \<^verbatim>\<open>Matches\<close> make for a resource prefix.\<close>

definition resource_wildcard :: "string \<Rightarrow> bool" where
  "resource_wildcard s \<longleftrightarrow> length s > 2 \<and> drop (length s - 2) s = '':*''"

definition under_resource :: "string \<Rightarrow> string \<Rightarrow> bool" where
  "under_resource res s \<longleftrightarrow>
     length s > length res + 1 \<and> take (length res + 1) s = res @ '':''"

definition Known :: "Permission \<Rightarrow> bool" where
  "Known p =
     (if p = Wildcard then True
      else if resource_wildcard p then list_ex (under_resource (take (length p - 2) p)) catalog
      else p \<in> set catalog)"

definition Matches :: "Permission \<Rightarrow> Permission \<Rightarrow> bool" where
  "Matches g r =
     (if g = Wildcard then True
      else if g = r then True
      else resource_wildcard g \<and> under_resource (take (length g - 2) g) r)"

subsection \<open>Roles\<close>

definition predefinedRoles :: "(string \<times> Permission list) list" where
  "predefinedRoles =
     [(''viewer'', [''status:read'', ''metrics:read'', ''config:read'', ''history:read'',
                    ''observability:read'', ''audit:read'']),
      (''operator'', [''status:read'', ''metrics:read'', ''config:read'', ''config:write'', ''config:apply'',
                      ''history:read'', ''history:rollback'', ''plugins:upload'', ''observability:read'',
                      ''audit:read'', ''audit:export'', ''cache:purge'', ''reload:trigger'']),
      (''admin'', [Wildcard]),
      (''auditor'', [''status:read'', ''observability:read'', ''audit:read'', ''audit:export''])]"

definition RoleHas :: "string \<Rightarrow> Permission \<Rightarrow> bool" where
  "RoleHas role p =
     (case map_of predefinedRoles role of None \<Rightarrow> False | Some perms \<Rightarrow> list_ex (\<lambda>g. Matches g p) perms)"

datatype rbac_error =
  UnknownPermission
| UnknownDefaultRole
| DuplicateToken
| PrincipalWithoutToken
| UnknownRole
| NoPrincipals
| NoAdmin

fun resolve_loop :: "Permission list \<Rightarrow> string list \<Rightarrow> Permission list option" where
  "resolve_loop out [] = Some out"
| "resolve_loop out (s # raw) =
     (if \<not> Known s then None
      else if s \<notin> set out then resolve_loop (out @ [s]) raw
      else resolve_loop out raw)"

definition resolveCustom :: "string list \<Rightarrow> Permission list option" where
  "resolveCustom raw = resolve_loop [] raw"

fun add_roles ::
  "(string \<rightharpoonup> Permission list) \<Rightarrow> (string \<times> string list) list \<Rightarrow> (string \<rightharpoonup> Permission list) option" where
  "add_roles rolePerms [] = Some rolePerms"
| "add_roles rolePerms ((name, raw) # rest) =
     (case resolveCustom raw of
        None \<Rightarrow> None
      | Some resolved \<Rightarrow> add_roles (rolePerms(name \<mapsto> resolved)) rest)"

definition buildRoleMap :: "(string \<times> string list) list \<Rightarrow> (string \<rightharpoonup> Permission list) option" where
  "buildRoleMap customRoles = add_roles (map_of predefinedRoles) customRoles"

subsection \<open>Tokens\<close>

definition tokenIDLen :: nat where
  "tokenIDLen = 12"

definition hashToken :: "(string \<Rightarrow> string) \<Rightarrow> string \<Rightarrow> string" where
  "hashToken sha raw = sha raw"

definition tokenID :: "string \<Rightarrow> string" where
  "tokenID h = take tokenIDLen (hex_encode h)"

definition TokenDigest :: "(string \<Rightarrow> string) \<Rightarrow> string \<Rightarrow> string" where
  "TokenDigest sha token = (if token = [] then [] else hex_encode (hashToken sha token))"

definition extractBearer :: "string \<Rightarrow> string option" where
  "extractBearer h =
     (if \<not> HasPrefix h ''Bearer '' then None
      else let tok = drop 7 h in if tok = [] then None else Some tok)"

record principalEntry =
  pe_name :: string
  pe_role :: string
  pe_tokenHash :: string
  pe_tokenID :: string
  pe_permissions :: "Permission list"
  pe_disabled :: bool
  pe_expiresAt :: nanos
  pe_legacy :: bool

definition entry_expired :: "principalEntry \<Rightarrow> nanos \<Rightarrow> bool" where
  "entry_expired e now \<longleftrightarrow> pe_expiresAt e \<noteq> zero_time \<and> now > pe_expiresAt e"

definition entry_active :: "principalEntry \<Rightarrow> nanos \<Rightarrow> bool" where
  "entry_active e now \<longleftrightarrow> \<not> pe_disabled e \<and> \<not> entry_expired e now"

definition matchToken :: "(string \<Rightarrow> string) \<Rightarrow> principalEntry \<Rightarrow> string \<Rightarrow> bool" where
  "matchToken sha e raw = (if pe_tokenHash e = [] then False else hashToken sha raw = pe_tokenHash e)"

datatype token_error = TokenEmpty | TokenTooShort nat

definition MinTokenLen :: nat where
  "MinTokenLen = 32"

definition ValidateToken :: "string \<Rightarrow> token_error option" where
  "ValidateToken raw =
     (if raw = [] then Some TokenEmpty
      else if length raw < MinTokenLen then Some (TokenTooShort (length raw)) else None)"

subsection \<open>The policy\<close>

record rbac_Identity =
  id_Principal :: string
  id_Role :: string
  id_TokenID :: string
  id_TokenDigest :: string
  id_Permissions :: "Permission list"
  id_Legacy :: bool

definition identity_Has :: "rbac_Identity \<Rightarrow> Permission \<Rightarrow> bool" where
  "identity_Has i p = list_ex (\<lambda>g. Matches g p) (id_Permissions i)"

record rbac_Policy =
  po_entries :: "string \<rightharpoonup> principalEntry"
  po_all :: "principalEntry list"
  po_enabled :: bool
  po_roles :: "(string \<rightharpoonup> Permission list)"
  po_catalogVersion :: nat

record PrincipalDef =
  pd_Name :: string
  pd_Role :: string
  pd_Token :: string
  pd_Disabled :: bool
  pd_ExpiresAt :: nanos

datatype auth_error = ErrUnauthenticated | ErrDisabled | ErrForbidden

definition buildLegacyEntry ::
  "(string \<Rightarrow> string) \<Rightarrow> string \<Rightarrow> string \<Rightarrow> (string \<times> string list) list \<Rightarrow> rbac_error + principalEntry" where
  "buildLegacyEntry sha legacyToken defaultRole customRoles =
     (case buildRoleMap customRoles of
        None \<Rightarrow> Inl UnknownPermission
      | Some rolePerms \<Rightarrow>
          (let role = (if defaultRole = [] then ''admin'' else defaultRole) in
           case rolePerms role of
             None \<Rightarrow> Inl UnknownDefaultRole
           | Some perms \<Rightarrow>
               (let h = hashToken sha legacyToken in
                Inr \<lparr>pe_name = ''shared'', pe_role = role, pe_tokenHash = h, pe_tokenID = tokenID h,
                     pe_permissions = perms, pe_disabled = False, pe_expiresAt = zero_time,
                     pe_legacy = True\<rparr>)))"

definition add_entry :: "rbac_Policy \<Rightarrow> principalEntry \<Rightarrow> rbac_error + rbac_Policy" where
  "add_entry p e =
     (case po_entries p (pe_tokenID e) of
        Some _ \<Rightarrow> Inl DuplicateToken
      | None \<Rightarrow> Inr (p\<lparr>po_entries := (po_entries p)(pe_tokenID e \<mapsto> e), po_all := po_all p @ [e]\<rparr>))"

definition principal_entry :: "(string \<Rightarrow> string) \<Rightarrow> PrincipalDef \<Rightarrow> Permission list \<Rightarrow> principalEntry" where
  "principal_entry sha d perms =
     (let h = hashToken sha (pd_Token d) in
      \<lparr>pe_name = pd_Name d, pe_role = pd_Role d, pe_tokenHash = h, pe_tokenID = tokenID h,
       pe_permissions = perms, pe_disabled = pd_Disabled d, pe_expiresAt = pd_ExpiresAt d,
       pe_legacy = False\<rparr>)"

fun add_principals ::
  "(string \<Rightarrow> string) \<Rightarrow> (string \<rightharpoonup> Permission list) \<Rightarrow> rbac_Policy \<Rightarrow> PrincipalDef list \<Rightarrow>
   rbac_error + rbac_Policy" where
  "add_principals sha rolePerms p [] = Inr p"
| "add_principals sha rolePerms p (d # ds) =
     (if pd_Token d = [] then Inl PrincipalWithoutToken
      else case rolePerms (pd_Role d) of
             None \<Rightarrow> Inl UnknownRole
           | Some perms \<Rightarrow>
               (case add_entry p (principal_entry sha d perms) of
                  Inl e \<Rightarrow> Inl e
                | Inr p' \<Rightarrow> add_principals sha rolePerms p' ds))"

fun hasActivePrincipalWith :: "principalEntry list \<Rightarrow> nanos \<Rightarrow> Permission \<Rightarrow> bool" where
  "hasActivePrincipalWith [] now perm = False"
| "hasActivePrincipalWith (e # es) now perm =
     (if \<not> entry_active e now then hasActivePrincipalWith es now perm
      else if list_ex (\<lambda>g. Matches g perm) (pe_permissions e) then True
      else hasActivePrincipalWith es now perm)"

definition empty_policy :: "bool \<Rightarrow> rbac_Policy" where
  "empty_policy enabled =
     \<lparr>po_entries = Map.empty, po_all = [], po_enabled = enabled, po_roles = Map.empty,
      po_catalogVersion = length catalog\<rparr>"

text \<open>The part of \<^verbatim>\<open>Build\<close> that installs the synthetic principal of the shared token.\<close>

definition add_legacy ::
  "(string \<Rightarrow> string) \<Rightarrow> string \<Rightarrow> string \<Rightarrow> (string \<times> string list) list \<Rightarrow> rbac_Policy \<Rightarrow>
   rbac_error + rbac_Policy" where
  "add_legacy sha legacyToken defaultRole customRoles p =
     (if legacyToken = [] then Inr p
      else case buildLegacyEntry sha legacyToken defaultRole customRoles of
             Inl e \<Rightarrow> Inl e
           | Inr entry \<Rightarrow> add_entry p entry)"

definition Build ::
  "(string \<Rightarrow> string) \<Rightarrow> bool \<Rightarrow> string \<Rightarrow> (string \<times> string list) list \<Rightarrow> PrincipalDef list \<Rightarrow> string \<Rightarrow>
   nanos \<Rightarrow> rbac_error + rbac_Policy" where
  "Build sha enabled defaultRole customRoles principals legacyToken now =
     (if \<not> enabled then add_legacy sha legacyToken defaultRole customRoles (empty_policy enabled)
      else case buildRoleMap customRoles of
             None \<Rightarrow> Inl UnknownPermission
           | Some rolePerms \<Rightarrow>
     (case add_legacy sha legacyToken defaultRole customRoles ((empty_policy enabled)\<lparr>po_roles := rolePerms\<rparr>) of
        Inl e \<Rightarrow> Inl e
      | Inr p \<Rightarrow>
     (case add_principals sha rolePerms p principals of
        Inl e \<Rightarrow> Inl e
      | Inr p \<Rightarrow>
          if po_all p = [] then Inl NoPrincipals
          else if \<not> hasActivePrincipalWith (po_all p) now AdminManage then Inl NoAdmin
          else Inr p)))"

definition identity_of :: "principalEntry \<Rightarrow> rbac_Identity" where
  "identity_of e =
     \<lparr>id_Principal = pe_name e, id_Role = pe_role e, id_TokenID = pe_tokenID e,
      id_TokenDigest = hex_encode (pe_tokenHash e), id_Permissions = pe_permissions e,
      id_Legacy = pe_legacy e\<rparr>"

definition Authenticate ::
  "(string \<Rightarrow> string) \<Rightarrow> rbac_Policy \<Rightarrow> string \<Rightarrow> nanos \<Rightarrow> auth_error + rbac_Identity" where
  "Authenticate sha p bearer now =
     (case extractBearer bearer of
        None \<Rightarrow> Inl ErrUnauthenticated
      | Some raw \<Rightarrow>
          (case po_entries p (tokenID (hashToken sha raw)) of
             None \<Rightarrow> Inl ErrUnauthenticated
           | Some entry \<Rightarrow>
               if \<not> matchToken sha entry raw then Inl ErrUnauthenticated
               else if \<not> entry_active entry now then Inl ErrDisabled
               else Inr (identity_of entry)))"

definition Authorize :: "rbac_Policy \<Rightarrow> rbac_Identity \<Rightarrow> Permission \<Rightarrow> bool" where
  "Authorize p i perm = identity_Has i perm"

definition ExternalIdentity ::
  "rbac_Policy option \<Rightarrow> string \<Rightarrow> string \<Rightarrow> string \<Rightarrow> auth_error + rbac_Identity" where
  "ExternalIdentity po name role fingerprint =
     (case po of
        None \<Rightarrow> Inl ErrUnauthenticated
      | Some p \<Rightarrow>
          if \<not> po_enabled p then Inl ErrUnauthenticated
          else case po_roles p role of
                 None \<Rightarrow> Inl ErrForbidden
               | Some perms \<Rightarrow>
                   Inr \<lparr>id_Principal = name, id_Role = role, id_TokenID = ''oidc:'' @ fingerprint,
                        id_TokenDigest = [], id_Permissions = perms, id_Legacy = False\<rparr>)"

subsection \<open>What a grant covers\<close>

lemma Matches_iff:
  "Matches g r \<longleftrightarrow> g = ''*'' \<or> g = r \<or> (\<exists>res a. res \<noteq> [] \<and> a \<noteq> [] \<and> g = res @ '':*'' \<and> r = res @ '':'' @ a)"
proof -
  have "resource_wildcard g \<and> under_resource (take (length g - 2) g) r \<longleftrightarrow>
      (\<exists>res a. res \<noteq> [] \<and> a \<noteq> [] \<and> g = res @ '':*'' \<and> r = res @ '':'' @ a)" (is "?l \<longleftrightarrow> ?r")
  proof
    assume l: ?l
    define res where "res = take (length g - 2) g"
    have "g = res @ '':*''" "res \<noteq> []" "length res = length g - 2"
      using l append_take_drop_id [of "length g - 2" g] by (auto simp: resource_wildcard_def res_def)
    moreover have "r = res @ '':'' @ drop (length res + 1) r" "drop (length res + 1) r \<noteq> []"
      using l append_take_drop_id [of "length res + 1" r] by (auto simp: under_resource_def res_def [symmetric])
    ultimately show ?r by blast
  qed (auto simp: resource_wildcard_def under_resource_def)
  then show ?thesis by (auto simp: Matches_def Wildcard_def)
qed

text \<open>The grants reserved for administrators are in no other predefined role.\<close>

lemma reserved_to_admin:
  "list_all (\<lambda>role. list_all (\<lambda>p. RoleHas role p = (role = ''admin'')) [ConfigTrust, ConfigAdopt, ConfigRaw, AdminManage])
     (map fst predefinedRoles)"
  by code_simp

subsection \<open>The policy as a table of credentials\<close>

definition policy_ok :: "rbac_Policy \<Rightarrow> bool" where
  "policy_ok p \<longleftrightarrow>
     (\<forall>e \<in> set (po_all p). pe_tokenID e = tokenID (pe_tokenHash e)) \<and>
     (\<forall>k e. po_entries p k = Some e \<longleftrightarrow> e \<in> set (po_all p) \<and> pe_tokenID e = k)"

lemma policy_ok_empty [simp]: "policy_ok (empty_policy b)" "policy_ok ((empty_policy b)\<lparr>po_roles := r\<rparr>)"
  by (simp_all add: policy_ok_def empty_policy_def)

lemma add_entry_ok:
  assumes "add_entry p e = Inr p'" and "policy_ok p" and "pe_tokenID e = tokenID (pe_tokenHash e)"
  shows "policy_ok p' \<and> po_all p' = po_all p @ [e]"
proof -
  from assms(1) have n: "po_entries p (pe_tokenID e) = None"
    and p': "p' = p\<lparr>po_entries := (po_entries p)(pe_tokenID e \<mapsto> e), po_all := po_all p @ [e]\<rparr>"
    by (auto simp: add_entry_def split: option.splits)
  have "e' \<in> set (po_all p) \<Longrightarrow> pe_tokenID e' \<noteq> pe_tokenID e" for e'
    using assms(2) n unfolding policy_ok_def by (metis option.distinct(1))
  with assms(2,3) show ?thesis by (auto simp: p' policy_ok_def)
qed

lemma principal_entry_id: "pe_tokenID (principal_entry sha d perms) = tokenID (pe_tokenHash (principal_entry sha d perms))"
  by (simp add: principal_entry_def Let_def)

lemma add_principals_ok:
  "add_principals sha rolePerms p ds = Inr p' \<Longrightarrow> policy_ok p \<Longrightarrow>
     policy_ok p' \<and> set (po_all p) \<subseteq> set (po_all p') \<and>
     (\<forall>d \<in> set ds. pd_Token d \<noteq> [] \<and>
        (\<exists>perms. rolePerms (pd_Role d) = Some perms \<and> principal_entry sha d perms \<in> set (po_all p')))"
proof (induction ds arbitrary: p)
  case (Cons d ds)
  from Cons.prems(1) obtain perms p1 where t: "pd_Token d \<noteq> []" and r: "rolePerms (pd_Role d) = Some perms"
    and a: "add_entry p (principal_entry sha d perms) = Inr p1" and n: "add_principals sha rolePerms p1 ds = Inr p'"
    by (auto split: if_splits option.splits sum.splits)
  note A = add_entry_ok [OF a Cons.prems(2) principal_entry_id]
  from Cons.IH [OF n] A t r show ?case by auto
qed auto

lemma add_principals_all:
  "add_principals sha rolePerms p ds = Inr p' \<Longrightarrow>
     po_all p' = po_all p @ map (\<lambda>d. principal_entry sha d (the (rolePerms (pd_Role d)))) ds"
proof (induction ds arbitrary: p)
  case (Cons d ds)
  from Cons.prems obtain perms p1 where "rolePerms (pd_Role d) = Some perms"
    and a: "add_entry p (principal_entry sha d perms) = Inr p1" and n: "add_principals sha rolePerms p1 ds = Inr p'"
    by (auto split: if_splits option.splits sum.splits)
  moreover have "po_all p1 = po_all p @ [principal_entry sha d perms]"
    using a by (auto simp: add_entry_def split: option.splits)
  ultimately show ?case using Cons.IH [OF n] by simp
qed simp

lemma add_legacy_ok:
  assumes "add_legacy sha tok dr cr p = Inr p'" and "policy_ok p"
  shows "policy_ok p'"
proof (cases "tok = []")
  case False
  with assms(1) obtain e where e: "buildLegacyEntry sha tok dr cr = Inr e" "add_entry p e = Inr p'"
    by (auto simp: add_legacy_def split: sum.splits)
  have "pe_tokenID e = tokenID (pe_tokenHash e)"
    using e(1) by (auto simp: buildLegacyEntry_def Let_def split: option.splits)
  with add_entry_ok [OF e(2) assms(2)] show ?thesis by simp
qed (use assms in \<open>simp add: add_legacy_def\<close>)

lemma Build_ok:
  assumes "Build sha enabled dr cr ds tok now = Inr p"
  shows "policy_ok p"
proof (cases enabled)
  case True
  with assms obtain rp p1 where "add_legacy sha tok dr cr ((empty_policy True)\<lparr>po_roles := rp\<rparr>) = Inr p1"
    "add_principals sha rp p1 ds = Inr p"
    by (auto simp: Build_def split: option.splits sum.splits if_splits)
  with add_legacy_ok add_principals_ok policy_ok_empty(2) show ?thesis by blast
next
  case False
  with assms have "add_legacy sha tok dr cr (empty_policy False) = Inr p" by (simp add: Build_def)
  with add_legacy_ok policy_ok_empty(1) show ?thesis by blast
qed

lemma extractBearer_token: "t \<noteq> [] \<Longrightarrow> extractBearer (''Bearer '' @ t) = Some t"
  by (simp add: extractBearer_def HasPrefix_def)

lemma extractBearer_Some: "extractBearer h = Some t \<longleftrightarrow> h = ''Bearer '' @ t \<and> t \<noteq> []"
proof
  assume "extractBearer h = Some t"
  then show "h = ''Bearer '' @ t \<and> t \<noteq> []"
    by (auto simp: extractBearer_def HasPrefix_iff Let_def split: if_splits)
qed (use extractBearer_token in blast)

text \<open>The outcome of a credential, over the list of all entries.\<close>

lemma Authenticate_entry:
  assumes ok: "policy_ok p" and len: "\<forall>t. length (sha t) = 32" and e: "e \<in> set (po_all p)"
    and h: "pe_tokenHash e = sha t" and t: "t \<noteq> []"
  shows "Authenticate sha p (''Bearer '' @ t) now = (if entry_active e now then Inr (identity_of e) else Inl ErrDisabled)"
proof -
  have "po_entries p (tokenID (sha t)) = Some e" using ok e h by (auto simp: policy_ok_def)
  moreover have "pe_tokenHash e \<noteq> []" using h len [rule_format, of t] by auto
  ultimately show ?thesis
    using h by (simp add: Authenticate_def extractBearer_token [OF t, simplified] hashToken_def matchToken_def)
qed

lemma Authenticate_none:
  assumes "policy_ok p" and "\<forall>t. bearer = ''Bearer '' @ t \<longrightarrow> t = [] \<or> (\<forall>e \<in> set (po_all p). pe_tokenHash e \<noteq> sha t)"
  shows "Authenticate sha p bearer now = Inl ErrUnauthenticated"
proof (cases "extractBearer bearer")
  case (Some t)
  then have "\<forall>e \<in> set (po_all p). pe_tokenHash e \<noteq> sha t" using assms(2) by (auto simp: extractBearer_Some)
  then show ?thesis
    using assms(1) Some by (auto simp: Authenticate_def policy_ok_def matchToken_def hashToken_def split: option.splits)
qed (simp add: Authenticate_def)

lemma Authenticate_entries:
  assumes "policy_ok p" and "\<forall>t. length (sha t) = 32"
  shows "case Authenticate sha p bearer now of
           Inr i \<Rightarrow> \<exists>t e. bearer = ''Bearer '' @ t \<and> t \<noteq> [] \<and> e \<in> set (po_all p) \<and> pe_tokenHash e = sha t \<and>
                         entry_active e now \<and> i = identity_of e
         | Inl ErrDisabled \<Rightarrow> \<exists>t e. bearer = ''Bearer '' @ t \<and> t \<noteq> [] \<and> e \<in> set (po_all p) \<and>
                         pe_tokenHash e = sha t \<and> \<not> entry_active e now
         | Inl ErrUnauthenticated \<Rightarrow> \<forall>t. bearer = ''Bearer '' @ t \<longrightarrow>
                         t = [] \<or> (\<forall>e \<in> set (po_all p). pe_tokenHash e \<noteq> sha t)
         | Inl ErrForbidden \<Rightarrow> False"
proof (cases "\<exists>t e. bearer = ''Bearer '' @ t \<and> t \<noteq> [] \<and> e \<in> set (po_all p) \<and> pe_tokenHash e = sha t")
  case True
  then obtain t e where te: "bearer = ''Bearer '' @ t" "t \<noteq> []" "e \<in> set (po_all p)" "pe_tokenHash e = sha t" by blast
  with Authenticate_entry [OF assms te(3,4,2), of now] show ?thesis by auto
next
  case False
  then have none: "\<forall>t. bearer = ''Bearer '' @ t \<longrightarrow> t = [] \<or> (\<forall>e \<in> set (po_all p). pe_tokenHash e \<noteq> sha t)" by blast
  with Authenticate_none [OF assms(1) none] show ?thesis by simp
qed

text \<open>The entries of an enabled policy, from the configuration.\<close>

definition shared_entry :: "(string \<Rightarrow> string) \<Rightarrow> string \<Rightarrow> string \<Rightarrow> Permission list \<Rightarrow> principalEntry" where
  "shared_entry sha tok dr perms =
     \<lparr>pe_name = ''shared'', pe_role = (if dr = [] then ''admin'' else dr), pe_tokenHash = sha tok,
      pe_tokenID = tokenID (sha tok), pe_permissions = perms, pe_disabled = False,
      pe_expiresAt = zero_time, pe_legacy = True\<rparr>"

lemma add_legacy_all:
  assumes "add_legacy sha tok dr cr p = Inr p'" and "po_all p = []" and "buildRoleMap cr = Some rp"
  shows "if tok = [] then po_all p' = []
         else \<exists>perms. rp (if dr = [] then ''admin'' else dr) = Some perms \<and>
                po_all p' = [shared_entry sha tok dr perms]"
  using assms
  by (auto simp: add_legacy_def add_entry_def buildLegacyEntry_def shared_entry_def Let_def hashToken_def
      split: if_splits sum.splits option.splits)

lemma Build_entries:
  assumes "Build sha True dr cr ds tok now = Inr p"
  obtains rp where "buildRoleMap cr = Some rp"
    and "\<And>e. e \<in> set (po_all p) \<longleftrightarrow>
           (\<exists>d \<in> set ds. \<exists>perms. rp (pd_Role d) = Some perms \<and> e = principal_entry sha d perms) \<or>
           (tok \<noteq> [] \<and> (\<exists>perms. rp (if dr = [] then ''admin'' else dr) = Some perms \<and>
              e = shared_entry sha tok dr perms))"
proof -
  from assms obtain rp p1 where rp: "buildRoleMap cr = Some rp"
    and l: "add_legacy sha tok dr cr ((empty_policy True)\<lparr>po_roles := rp\<rparr>) = Inr p1"
    and a: "add_principals sha rp p1 ds = Inr p"
    by (auto simp: Build_def split: option.splits sum.splits if_splits)
  have roles: "\<forall>d \<in> set ds. \<exists>perms. rp (pd_Role d) = Some perms"
    using add_principals_ok [OF a add_legacy_ok [OF l]] by auto
  have named: "(\<exists>d \<in> set ds. e = principal_entry sha d (the (rp (pd_Role d)))) \<longleftrightarrow>
      (\<exists>d \<in> set ds. \<exists>perms. rp (pd_Role d) = Some perms \<and> e = principal_entry sha d perms)" for e
    using roles by (metis option.sel)
  have shared: "e \<in> set (po_all p1) \<longleftrightarrow>
      tok \<noteq> [] \<and> (\<exists>perms. rp (if dr = [] then ''admin'' else dr) = Some perms \<and>
        e = shared_entry sha tok dr perms)" for e
    using add_legacy_all [OF l _ rp] by (cases "tok = []") (auto simp: empty_policy_def)
  have "e \<in> set (po_all p) \<longleftrightarrow>
      (\<exists>d \<in> set ds. \<exists>perms. rp (pd_Role d) = Some perms \<and> e = principal_entry sha d perms) \<or>
      (tok \<noteq> [] \<and> (\<exists>perms. rp (if dr = [] then ''admin'' else dr) = Some perms \<and>
         e = shared_entry sha tok dr perms))" for e
    unfolding named [symmetric] shared [symmetric] add_principals_all [OF a] by auto
  with rp that show thesis by blast
qed

lemma Build_roles:
  assumes "Build sha True dr cr ds tok now = Inr p" and "buildRoleMap cr = Some rp"
  shows "\<forall>d \<in> set ds. \<exists>perms. rp (pd_Role d) = Some perms"
    and "tok \<noteq> [] \<Longrightarrow> \<exists>perms. rp (if dr = [] then ''admin'' else dr) = Some perms"
proof -
  from assms obtain p1 where
    l: "add_legacy sha tok dr cr ((empty_policy True)\<lparr>po_roles := rp\<rparr>) = Inr p1"
    and a: "add_principals sha rp p1 ds = Inr p"
    by (auto simp: Build_def split: option.splits sum.splits if_splits)
  show "\<forall>d \<in> set ds. \<exists>perms. rp (pd_Role d) = Some perms"
    using add_principals_ok [OF a add_legacy_ok [OF l]] by auto
  show "tok \<noteq> [] \<Longrightarrow> \<exists>perms. rp (if dr = [] then ''admin'' else dr) = Some perms"
    using add_legacy_all [OF l _ assms(2)] by (auto simp: empty_policy_def)
qed

lemma principal_entry_facts:
  "pe_tokenHash (principal_entry sha d perms) = sha (pd_Token d)"
  "entry_active (principal_entry sha d perms) now \<longleftrightarrow>
     \<not> pd_Disabled d \<and> (pd_ExpiresAt d = zero_time \<or> now \<le> pd_ExpiresAt d)"
  "pe_tokenHash (shared_entry sha tok dr perms) = sha tok"
  "entry_active (shared_entry sha tok dr perms) now"
  by (auto simp: principal_entry_def shared_entry_def Let_def hashToken_def entry_active_def
      entry_expired_def)

lemma Build_digests:
  assumes "Build sha True dr cr ds tok now = Inr p"
  shows "(\<forall>e \<in> set (po_all p). pe_tokenHash e \<noteq> h) \<longleftrightarrow>
           (\<forall>d \<in> set ds. sha (pd_Token d) \<noteq> h) \<and> (tok = [] \<or> sha tok \<noteq> h)"
proof -
  from Build_entries [OF assms] obtain rp where rp: "buildRoleMap cr = Some rp"
    and entries: "\<And>e. e \<in> set (po_all p) \<longleftrightarrow>
           (\<exists>d \<in> set ds. \<exists>perms. rp (pd_Role d) = Some perms \<and> e = principal_entry sha d perms) \<or>
           (tok \<noteq> [] \<and> (\<exists>perms. rp (if dr = [] then ''admin'' else dr) = Some perms \<and>
              e = shared_entry sha tok dr perms))" by blast
  have "\<exists>e \<in> set (po_all p). pe_tokenHash e = sha (pd_Token d)" if d: "d \<in> set ds" for d
  proof -
    obtain perms where "rp (pd_Role d) = Some perms" using Build_roles(1) [OF assms rp] d by blast
    then have "principal_entry sha d perms \<in> set (po_all p)" using entries d by blast
    then show ?thesis using principal_entry_facts(1) by blast
  qed
  moreover have "\<exists>e \<in> set (po_all p). pe_tokenHash e = sha tok" if k: "tok \<noteq> []"
  proof -
    obtain perms where "shared_entry sha tok dr perms \<in> set (po_all p)"
      using Build_roles(2) [OF assms rp k] entries k by blast
    then show ?thesis using principal_entry_facts(3) by blast
  qed
  moreover have "(\<exists>d \<in> set ds. pe_tokenHash e = sha (pd_Token d)) \<or> tok \<noteq> [] \<and> pe_tokenHash e = sha tok"
    if "e \<in> set (po_all p)" for e
    using that by (auto simp: entries principal_entry_facts)
  ultimately show ?thesis by metis
qed

text \<open>C21: Authentication decides by the credential alone. For an enabled policy built from any
  configuration, a bearer value authenticates exactly when its token has the digest of the
  token of a configured principal that is neither disabled nor expired, or of the shared
  token. The identity then carries the digest and the truncated digest of that token, and the
  name, the role and the permissions that role has in the configuration: those of the
  principal, or the name shared and the default role, marked as legacy. The token of a
  disabled or expired principal is reported as disabled, and everything else, including a missing prefix and an
  empty token, as unauthenticated. The truncated lookup key never decides.\<close>

theorem Authenticate_outcomes:
  assumes "Build sha True dr cr ds tok now0 = Inr p" and "\<forall>t. length (sha t) = 32"
  shows "case Authenticate sha p bearer now of
           Inr i \<Rightarrow> \<exists>t rp. bearer = ''Bearer '' @ t \<and> t \<noteq> [] \<and> buildRoleMap cr = Some rp \<and>
             id_TokenID i = tokenID (sha t) \<and> id_TokenDigest i = hex_encode (sha t) \<and>
             rp (id_Role i) = Some (id_Permissions i) \<and>
             ((\<exists>d \<in> set ds. sha (pd_Token d) = sha t \<and> \<not> pd_Disabled d \<and>
                 (pd_ExpiresAt d = zero_time \<or> now \<le> pd_ExpiresAt d) \<and>
                 id_Principal i = pd_Name d \<and> id_Role i = pd_Role d \<and> \<not> id_Legacy i) \<or>
              (tok \<noteq> [] \<and> sha tok = sha t \<and> id_Principal i = ''shared'' \<and>
                 id_Role i = (if dr = [] then ''admin'' else dr) \<and> id_Legacy i))
         | Inl ErrDisabled \<Rightarrow> \<exists>t. bearer = ''Bearer '' @ t \<and> t \<noteq> [] \<and>
             (\<exists>d \<in> set ds. sha (pd_Token d) = sha t \<and>
                (pd_Disabled d \<or> pd_ExpiresAt d \<noteq> zero_time \<and> pd_ExpiresAt d < now))
         | Inl ErrUnauthenticated \<Rightarrow> \<forall>t. bearer = ''Bearer '' @ t \<longrightarrow>
             t = [] \<or> (\<forall>d \<in> set ds. sha (pd_Token d) \<noteq> sha t) \<and> (tok = [] \<or> sha tok \<noteq> sha t)
         | Inl ErrForbidden \<Rightarrow> False"
proof -
  from Build_entries [OF assms(1)] obtain rp where rp: "buildRoleMap cr = Some rp"
    and entries: "\<And>e. e \<in> set (po_all p) \<longleftrightarrow>
           (\<exists>d \<in> set ds. \<exists>perms. rp (pd_Role d) = Some perms \<and> e = principal_entry sha d perms) \<or>
           (tok \<noteq> [] \<and> (\<exists>perms. rp (if dr = [] then ''admin'' else dr) = Some perms \<and>
              e = shared_entry sha tok dr perms))" by blast
  note out = Authenticate_entries [OF Build_ok [OF assms(1)] assms(2), of bearer now]
  show ?thesis
  proof (cases "Authenticate sha p bearer now")
    case (Inr i)
    with out obtain t e where e: "bearer = ''Bearer '' @ t" "t \<noteq> []" "e \<in> set (po_all p)"
      "pe_tokenHash e = sha t" "entry_active e now" "i = identity_of e" by auto
    from e(3) have "(\<exists>d \<in> set ds. sha (pd_Token d) = sha t \<and> \<not> pd_Disabled d \<and>
          (pd_ExpiresAt d = zero_time \<or> now \<le> pd_ExpiresAt d) \<and>
          id_Principal i = pd_Name d \<and> id_Role i = pd_Role d \<and> \<not> id_Legacy i) \<or>
        (tok \<noteq> [] \<and> sha tok = sha t \<and> id_Principal i = ''shared'' \<and>
          id_Role i = (if dr = [] then ''admin'' else dr) \<and> id_Legacy i)"
      and "rp (id_Role i) = Some (id_Permissions i)"
      using e(4-6)
      by (auto simp: entries principal_entry_facts identity_of_def)
         (auto simp: principal_entry_def shared_entry_def Let_def)
    moreover have "id_TokenID i = tokenID (sha t)" "id_TokenDigest i = hex_encode (sha t)"
      using Build_ok [OF assms(1)] e(3,4,6) by (auto simp: identity_of_def policy_ok_def)
    ultimately show ?thesis using Inr e(1,2) rp by auto
  next
    case (Inl err)
    show ?thesis
    proof (cases err)
      case ErrDisabled
      with Inl out obtain t e where e: "bearer = ''Bearer '' @ t" "t \<noteq> []" "e \<in> set (po_all p)"
        "pe_tokenHash e = sha t" "\<not> entry_active e now" by auto
      then have "\<exists>d \<in> set ds. sha (pd_Token d) = sha t \<and>
          (pd_Disabled d \<or> pd_ExpiresAt d \<noteq> zero_time \<and> pd_ExpiresAt d < now)"
        by (auto simp: entries principal_entry_facts)
      with Inl ErrDisabled e(1,2) show ?thesis by auto
    next
      case ErrUnauthenticated
      with Inl out show ?thesis by (simp add: Build_digests [OF assms(1)])
    qed (use Inl out in simp)
  qed
qed

text \<open>The comment of \<^verbatim>\<open>Authenticate\<close> promises a zero identity when role-based access is
  off. The code looks the token up all the same, and with a shared token configured it returns
  the identity of the \<^verbatim>\<open>shared\<close> principal.\<close>

lemma Authenticate_disabled_policy:
  assumes "Build sha False dr cr ds tok now0 = Inr p" and "\<forall>t. length (sha t) = 32" and "tok \<noteq> []"
  shows "\<exists>i. Authenticate sha p (''Bearer '' @ tok) now = Inr i \<and> id_Principal i = ''shared'' \<and>
           id_Role i = (if dr = [] then ''admin'' else dr) \<and> id_Legacy i"
proof -
  from assms have l: "add_legacy sha tok dr cr (empty_policy False) = Inr p" by (simp add: Build_def)
  then obtain rp where rp: "buildRoleMap cr = Some rp"
    using assms(3) by (auto simp: add_legacy_def buildLegacyEntry_def split: option.splits)
  from add_legacy_all [OF l _ rp] assms(3) obtain perms where "po_all p = [shared_entry sha tok dr perms]"
    by (auto simp: empty_policy_def)
  with Authenticate_entry [OF Build_ok [OF assms(1)] assms(2) _ _ assms(3), of "shared_entry sha tok dr perms"]
  show ?thesis by (simp add: principal_entry_facts) (simp add: identity_of_def shared_entry_def)
qed

lemma hasActivePrincipalWith_iff:
  "hasActivePrincipalWith es now perm \<longleftrightarrow>
     (\<exists>e \<in> set es. entry_active e now \<and> identity_Has (identity_of e) perm)"
  by (induction es) (auto simp: identity_Has_def identity_of_def)

text \<open>Every entry of an enabled policy was made from a token.\<close>

lemma add_principals_tokens:
  "add_principals sha rolePerms p ds = Inr p' \<Longrightarrow> \<forall>e \<in> set (po_all p). \<exists>t. t \<noteq> [] \<and> pe_tokenHash e = sha t \<Longrightarrow>
     \<forall>e \<in> set (po_all p'). \<exists>t. t \<noteq> [] \<and> pe_tokenHash e = sha t"
proof (induction ds arbitrary: p)
  case (Cons d ds)
  from Cons.prems(1) obtain perms p1 where t: "pd_Token d \<noteq> []"
    and a: "add_entry p (principal_entry sha d perms) = Inr p1" and n: "add_principals sha rolePerms p1 ds = Inr p'"
    by (auto split: if_splits option.splits sum.splits)
  have "po_all p1 = po_all p @ [principal_entry sha d perms]" using a by (auto simp: add_entry_def split: option.splits)
  with Cons.IH [OF n] Cons.prems(2) t show ?case by (auto simp: principal_entry_def Let_def hashToken_def)
qed simp

lemma add_legacy_tokens:
  assumes "add_legacy sha tok dr cr p = Inr p'" and "po_all p = []"
  shows "\<forall>e \<in> set (po_all p'). \<exists>t. t \<noteq> [] \<and> pe_tokenHash e = sha t"
  using assms by (auto simp: add_legacy_def add_entry_def buildLegacyEntry_def Let_def hashToken_def
      split: if_splits sum.splits option.splits)

text \<open>C22: Enabling role-based access cannot lock the operator out, and every configured principal
  gets what its role says. When an enabled policy is built at some time, there is a token that
  authenticates at that time and is authorised to manage administration. Each configured
  principal that is enabled and not expired authenticates with its own token, under its own
  name and role, and is authorised for exactly the permissions its role matches; a disabled or
  expired one is refused.\<close>

theorem Build_no_lockout:
  assumes "Build sha True dr cr ds tok now = Inr p" and "\<forall>t. length (sha t) = 32"
  shows "(\<exists>t i. Authenticate sha p (''Bearer '' @ t) now = Inr i \<and> Authorize p i AdminManage) \<and>
         (\<forall>d \<in> set ds. \<exists>rolePerms perms. buildRoleMap cr = Some rolePerms \<and> rolePerms (pd_Role d) = Some perms \<and>
            (\<forall>now'. Authenticate sha p (''Bearer '' @ pd_Token d) now' =
               (if \<not> pd_Disabled d \<and> (pd_ExpiresAt d = zero_time \<or> now' \<le> pd_ExpiresAt d)
                then Inr (identity_of (principal_entry sha d perms)) else Inl ErrDisabled)) \<and>
            (\<forall>perm. Authorize p (identity_of (principal_entry sha d perms)) perm \<longleftrightarrow>
               (\<exists>g \<in> set perms. Matches g perm)))"
proof -
  from assms(1) obtain rp p1 where rp: "buildRoleMap cr = Some rp"
    and l: "add_legacy sha tok dr cr ((empty_policy True)\<lparr>po_roles := rp\<rparr>) = Inr p1"
    and a: "add_principals sha rp p1 ds = Inr p" and act: "hasActivePrincipalWith (po_all p) now AdminManage"
    by (auto simp: Build_def split: option.splits sum.splits if_splits)
  note ok = Build_ok [OF assms(1)]
  from act obtain e where e: "e \<in> set (po_all p)" "entry_active e now" "identity_Has (identity_of e) AdminManage"
    by (auto simp: hasActivePrincipalWith_iff)
  obtain t where t: "t \<noteq> []" "pe_tokenHash e = sha t"
    using add_principals_tokens [OF a] add_legacy_tokens [OF l] e(1) by (auto simp: empty_policy_def)
  have "\<exists>t i. Authenticate sha p (''Bearer '' @ t) now = Inr i \<and> Authorize p i AdminManage"
    using Authenticate_entry [OF ok assms(2) e(1) t(2,1), of now] e(2,3) by (auto simp: Authorize_def)
  moreover have "\<exists>rolePerms perms. buildRoleMap cr = Some rolePerms \<and> rolePerms (pd_Role d) = Some perms \<and>
      (\<forall>now'. Authenticate sha p (''Bearer '' @ pd_Token d) now' =
         (if \<not> pd_Disabled d \<and> (pd_ExpiresAt d = zero_time \<or> now' \<le> pd_ExpiresAt d)
          then Inr (identity_of (principal_entry sha d perms)) else Inl ErrDisabled)) \<and>
      (\<forall>perm. Authorize p (identity_of (principal_entry sha d perms)) perm \<longleftrightarrow> (\<exists>g \<in> set perms. Matches g perm))"
    if d: "d \<in> set ds" for d
  proof -
    have "policy_ok p1" using add_legacy_ok [OF l] by simp
    from add_principals_ok [OF a this] d obtain perms where perms: "pd_Token d \<noteq> []" "rp (pd_Role d) = Some perms"
      "principal_entry sha d perms \<in> set (po_all p)" by blast
    have h: "pe_tokenHash (principal_entry sha d perms) = sha (pd_Token d)"
      by (simp add: principal_entry_def Let_def hashToken_def)
    have "entry_active (principal_entry sha d perms) now' \<longleftrightarrow>
        \<not> pd_Disabled d \<and> (pd_ExpiresAt d = zero_time \<or> now' \<le> pd_ExpiresAt d)" for now'
      by (auto simp: entry_active_def entry_expired_def principal_entry_def Let_def)
    with Authenticate_entry [OF ok assms(2) perms(3) h perms(1)] rp perms(2) show ?thesis
      by (auto simp: Authorize_def identity_Has_def identity_of_def principal_entry_def Let_def list_ex_iff)
  qed
  ultimately show ?thesis by blast
qed

subsection \<open>A sample policy\<close>

definition sample_sha :: "string \<Rightarrow> string" where
  "sample_sha t =
     (if t = ''secret-a'' then ''0123456789abcdef0123456789abcdef'' else ''fedcba9876543210fedcba9876543210'')"

definition sample_principals :: "PrincipalDef list" where
  "sample_principals =
     [\<lparr>pd_Name = ''alice'', pd_Role = ''admin'', pd_Token = ''secret-a'', pd_Disabled = False, pd_ExpiresAt = 0\<rparr>,
      \<lparr>pd_Name = ''bob'', pd_Role = ''cachier'', pd_Token = ''secret-b'', pd_Disabled = False, pd_ExpiresAt = 50\<rparr>]"

definition sample_policy :: rbac_Policy where
  "sample_policy =
     (case Build sample_sha True [] [(''cachier'', [''cache:*''])] sample_principals [] 10 of
        Inr p \<Rightarrow> p | Inl e \<Rightarrow> empty_policy False)"

lemma sample_sha_length: "\<forall>t. length (sample_sha t) = 32"
  by (simp add: sample_sha_def)

lemma sample_ids:
  "tokenID (sample_sha ''secret-a'') = ''303132333435''" "tokenID (sample_sha ''secret-b'') = ''666564636261''"
  by (simp_all add: tokenID_def sample_sha_def hex_encode_def hex_nibble_def tokenIDLen_def)

lemma sample_roles:
  "\<exists>rp. buildRoleMap [(''cachier'', [''cache:*''])] = Some rp \<and> rp ''admin'' = Some [Wildcard] \<and>
     rp ''cachier'' = Some [''cache:*'']"
proof -
  have "Known ''cache:*''" by code_simp
  then show ?thesis by (simp add: buildRoleMap_def resolveCustom_def predefinedRoles_def)
qed

lemma sample_policy_built:
  "Build sample_sha True [] [(''cachier'', [''cache:*''])] sample_principals [] 10 = Inr sample_policy"
proof -
  have "Matches Wildcard AdminManage" by (simp add: Matches_def)
  then have "\<not> isl (Build sample_sha True [] [(''cachier'', [''cache:*''])] sample_principals [] 10)"
    using sample_roles sample_ids
    by (auto simp: Build_def sample_principals_def add_legacy_def add_entry_def empty_policy_def principal_entry_def
        hashToken_def entry_active_def entry_expired_def zero_time_def Let_def)
  then show ?thesis by (auto simp: sample_policy_def split: sum.splits)
qed

lemma sample_policy_all:
  "po_all sample_policy = [principal_entry sample_sha (sample_principals ! 0) [Wildcard],
     principal_entry sample_sha (sample_principals ! 1) [''cache:*'']]"
proof -
  from sample_roles obtain rp where rp: "buildRoleMap [(''cachier'', [''cache:*''])] = Some rp"
    "rp ''admin'' = Some [Wildcard]" "rp ''cachier'' = Some [''cache:*'']" by blast
  with sample_policy_built have "add_principals sample_sha rp ((empty_policy True)\<lparr>po_roles := rp\<rparr>) sample_principals = Inr sample_policy"
    by (auto simp: Build_def add_legacy_def split: sum.splits if_splits)
  from add_principals_all [OF this] rp show ?thesis by (simp add: empty_policy_def sample_principals_def)
qed

theorem Authenticate_outcomes_witness:
  "\<exists>i. Authenticate sample_sha sample_policy (''Bearer '' @ ''secret-b'') 40 = Inr i \<and> id_Principal i = ''bob''"
proof -
  have b: "sample_sha ''secret-a'' \<noteq> sample_sha ''secret-b''" by (simp add: sample_sha_def)
  show ?thesis
    using Authenticate_outcomes [OF sample_policy_built sample_sha_length, of "''Bearer '' @ ''secret-b''" 40] b
    by (cases "Authenticate sample_sha sample_policy (''Bearer '' @ ''secret-b'') 40")
       (auto simp: sample_principals_def zero_time_def split: auth_error.splits)
qed

theorem Build_no_lockout_witness:
  "\<exists>t i. Authenticate sample_sha sample_policy (''Bearer '' @ t) 10 = Inr i \<and> Authorize sample_policy i AdminManage"
  using Build_no_lockout [OF sample_policy_built sample_sha_length] by blast

end
