(* ===== verification/Cache_Entry.thy ===== *)
theory Cache_Entry
  imports Predicates "HOL-Library.AList"
begin

text \<open>
  \<^verbatim>\<open>src/internal/cache/store.go\<close>: a cached response with its freshness metadata, and the
  header and time arithmetic of Go that the cache relies on.

  A header is the list of its fields, the Go map in one iteration order; \<open>hdr_Values\<close> and
  its companions canonicalise the name as \<^verbatim>\<open>http.Header\<close> does. A header the code reads
  from the network has distinct canonical names. Times and durations are nanoseconds; where the
  code adds two durations or subtracts two times, the 64-bit result is written out.
\<close>

subsection \<open>Headers\<close>

type_synonym hdr = "(string \<times> string list) list"

definition hdr_Values :: "hdr \<Rightarrow> string \<Rightarrow> string list" where
  "hdr_Values h name = (case map_of h (CanonicalMIMEHeaderKey name) of None \<Rightarrow> [] | Some vs \<Rightarrow> vs)"

definition hdr_Get :: "hdr \<Rightarrow> string \<Rightarrow> string" where
  "hdr_Get h name = (case hdr_Values h name of [] \<Rightarrow> [] | v # _ \<Rightarrow> v)"

definition hdr_Set :: "hdr \<Rightarrow> string \<Rightarrow> string \<Rightarrow> hdr" where
  "hdr_Set h name v = AList.update (CanonicalMIMEHeaderKey name) [v] h"

definition hdr_Add :: "hdr \<Rightarrow> string \<Rightarrow> string \<Rightarrow> hdr" where
  "hdr_Add h name v = AList.update (CanonicalMIMEHeaderKey name) (hdr_Values h name @ [v]) h"

definition hdr_Del :: "hdr \<Rightarrow> string \<Rightarrow> hdr" where
  "hdr_Del h name = AList.delete (CanonicalMIMEHeaderKey name) h"

definition hasHeaderField :: "hdr \<Rightarrow> string \<Rightarrow> bool" where
  "hasHeaderField h name \<longleftrightarrow> length (hdr_Values h name) > 0"

text \<open>The request as the cache reads it.\<close>

record crequest =
  cr_Method :: string
  cr_Header :: hdr
  cr_Host :: string
  cr_URI :: string
  cr_TLS :: bool

subsection \<open>Times\<close>

definition wrap64 :: "int \<Rightarrow> int" where
  "wrap64 x = (x + 2 ^ 63) mod 2 ^ 64 - 2 ^ 63"

text \<open>\<^verbatim>\<open>time.Time.Sub\<close> saturates.\<close>

definition time_Sub :: "nanos \<Rightarrow> nanos \<Rightarrow> duration" where
  "time_Sub t u = max (- (2 ^ 63)) (min (2 ^ 63 - 1) (t - u))"

text \<open>The Unix epoch on the scale of \<^typ>\<open>nanos\<close>.\<close>

definition unix_epoch :: nanos where
  "unix_epoch = 62135596800 * second"

definition UnixNano :: "nanos \<Rightarrow> int" where
  "UnixNano t = wrap64 (t - unix_epoch)"

subsection \<open>Entries\<close>

record publicationEvidence =
  ev_InsertedAt :: int
  ev_ValidatedAt :: int
  ev_PolicyID :: string
  ev_SWR :: duration
  ev_SIE :: duration
  ev_FreshnessSource :: string
  ev_SWRSource :: string
  ev_SIESource :: string
  ev_NoCache :: bool
  ev_MustRevalidate :: bool
  ev_SharedAuthReuse :: bool
  ev_StaleIfError :: bool
  ev_StaleBasisKnown :: bool
  ev_NoRequestCookies :: bool

text \<open>The flags of \<^verbatim>\<open>publicationEvidence.Flags\<close> are booleans, in the order of their bits; the
  sources, which the code numbers through tables, are the strings of those tables.\<close>

definition evidenceTime :: "int \<Rightarrow> nanos" where
  "evidenceTime n = (if n = 0 then zero_time else unix_epoch + n)"

record Entry =
  en_Evidence :: "publicationEvidence option"
  en_Status :: int
  en_Header :: hdr
  en_Body :: string
  en_diskBody :: "string option"
  en_CreatedAt :: nanos
  en_ExpiresAt :: nanos
  en_StaleUntil :: nanos
  en_ETag :: string
  en_LastModified :: string
  en_RequiresValidation :: bool
  en_MustRevalidate :: bool
  en_SharedAuthReuse :: bool
  en_StaleIfError :: duration
  en_HasStaleIfError :: bool
  en_Vary :: "string list"
  en_VaryValues :: "(string \<times> string) list"
  en_IsVaryStub :: bool
  en_Variants :: "string list"
  en_Tags :: "string list"
  en_ingestedTagHeaders :: "string list"
  en_tagPolicyTracked :: bool
  en_RouteScope :: string
  en_RouteEpoch :: uint64
  en_BypassDigest :: string
  en_RouteConfigDigest :: string
  en_RouteVary :: "(string \<times> string list) list"

text \<open>The zero value of the struct.\<close>

definition zero_Entry :: Entry where
  "zero_Entry =
     \<lparr>en_Evidence = None, en_Status = 0, en_Header = [], en_Body = [], en_diskBody = None,
      en_CreatedAt = zero_time, en_ExpiresAt = zero_time, en_StaleUntil = zero_time, en_ETag = [],
      en_LastModified = [], en_RequiresValidation = False, en_MustRevalidate = False,
      en_SharedAuthReuse = False, en_StaleIfError = 0, en_HasStaleIfError = False, en_Vary = [],
      en_VaryValues = [], en_IsVaryStub = False, en_Variants = [], en_Tags = [],
      en_ingestedTagHeaders = [], en_tagPolicyTracked = False, en_RouteScope = [], en_RouteEpoch = 0,
      en_BypassDigest = [], en_RouteConfigDigest = [], en_RouteVary = []\<rparr>"

text \<open>A disk-backed entry carries the contents of its blob; \<^verbatim>\<open>BodyLen\<close> and the body reader
  see those, and otherwise the bytes in memory.\<close>

definition entry_payload :: "Entry \<Rightarrow> string" where
  "entry_payload e = (case en_diskBody e of Some b \<Rightarrow> b | None \<Rightarrow> en_Body e)"

definition BodyLen_entry :: "Entry \<Rightarrow> int" where
  "BodyLen_entry e =
     (case en_diskBody e of Some b \<Rightarrow> int (length b) | None \<Rightarrow> int (length (en_Body e)))"

definition field_bytes :: "string \<times> string list \<Rightarrow> nat" where
  "field_bytes f = length (fst f) + sum_list (map length (snd f))"

definition entry_Size :: "Entry \<Rightarrow> int" where
  "entry_Size e = int
     (length (en_Body e) + 256 + (if en_Evidence e \<noteq> None then 96 else 0) +
      sum_list (map field_bytes (en_Header e)) + sum_list (map length (en_Vary e)) +
      sum_list (map (\<lambda>(n, v). length n + length v) (en_VaryValues e)) +
      sum_list (map length (en_Variants e)) + sum_list (map length (en_Tags e)) +
      sum_list (map field_bytes (en_RouteVary e)) +
      (length (en_RouteScope e) + length (en_ETag e) + length (en_LastModified e)))"

definition entry_Fresh :: "Entry \<Rightarrow> nanos \<Rightarrow> bool" where
  "entry_Fresh e now \<longleftrightarrow> now < en_ExpiresAt e"

definition ServableStale :: "Entry \<Rightarrow> nanos \<Rightarrow> bool" where
  "ServableStale e now \<longleftrightarrow> \<not> entry_Fresh e now \<and> now < en_StaleUntil e"

definition ownsVariant :: "Entry \<Rightarrow> string \<Rightarrow> bool" where
  "ownsVariant e vk \<longleftrightarrow> vk \<in> set (en_Variants e)"

subsection \<open>Lemmas\<close>

lemma hdr_Values_Del: "hdr_Values (hdr_Del h n) m =
  (if CanonicalMIMEHeaderKey m = CanonicalMIMEHeaderKey n then [] else hdr_Values h m)"
  by (simp add: hdr_Values_def hdr_Del_def AList.delete_conv')

lemma hdr_Values_Set: "hdr_Values (hdr_Set h n v) m =
  (if CanonicalMIMEHeaderKey m = CanonicalMIMEHeaderKey n then [v] else hdr_Values h m)"
  by (simp add: hdr_Values_def hdr_Set_def AList.update_conv')

lemma wrap64_id: "- (2 ^ 63) \<le> x \<Longrightarrow> x < 2 ^ 63 \<Longrightarrow> wrap64 x = x"
  unfolding wrap64_def by simp

lemma time_Sub_range: "- (2 ^ 63) \<le> time_Sub t u" "time_Sub t u < 2 ^ 63"
  by (simp_all add: time_Sub_def min_less_iff_disj)

end
