(* ===== verification/Cachecontrol.thy ===== *)
theory Cachecontrol
  imports Cache_Entry
begin

text \<open>
  \<^verbatim>\<open>src/internal/cache/policy.go\<close>: the \<^verbatim>\<open>Cache-Control\<close> parser, the policy of a request
  and the shared-cache policy of a response.

  Arguments stand for the calendar of the \<^verbatim>\<open>time\<close> package (\<open>timelib\<close>) and for the parser
  of structured fields, \<^verbatim>\<open>httpsfv.UnmarshalDictionary\<close> (\<open>sfv\<close>), which gives the members
  of a dictionary with distinct names in order, or nothing.
\<close>

subsection \<open>Numbers and dates\<close>

definition maxDeltaSeconds :: int where
  "maxDeltaSeconds = 100 * 365 * 24 * 60 * 60"

datatype num_error = ErrSyntax | ErrRange

text \<open>\<^verbatim>\<open>strconv.ParseUint\<close> and \<^verbatim>\<open>strconv.ParseInt\<close> in base 10 and 64 bits. The scan
  stops at the first byte that is not a digit or that makes the value too large, whichever
  comes first.\<close>

fun parse_uint64 :: "int \<Rightarrow> string \<Rightarrow> num_error + int" where
  "parse_uint64 n [] = Inr n"
| "parse_uint64 n (c # s) =
     (if \<not> is_digit c then Inl ErrSyntax
      else let n1 = 10 * n + int (digit_val c) in
           if n1 \<ge> 2 ^ 64 then Inl ErrRange else parse_uint64 n1 s)"

definition ParseInt64 :: "string \<Rightarrow> num_error + int" where
  "ParseInt64 s =
     (if s = [] then Inl ErrSyntax
      else
        (let neg = (hd s = CHR ''-'');
             digits = (if hd s = CHR ''+'' \<or> hd s = CHR ''-'' then tl s else s) in
         if digits = [] then Inl ErrSyntax
         else case parse_uint64 0 digits of
                Inl er \<Rightarrow> Inl er
              | Inr un \<Rightarrow>
                  if \<not> neg \<and> un \<ge> 2 ^ 63 then Inl ErrRange
                  else if neg \<and> un > 2 ^ 63 then Inl ErrRange
                  else Inr (if neg then - un else un)))"

record timelib =
  tl_ParseTime :: "string \<Rightarrow> nanos option"
  tl_Format :: "string \<Rightarrow> nanos \<Rightarrow> string"
  tl_Year :: "nanos \<Rightarrow> int"
  tl_AddYears :: "int \<Rightarrow> nanos \<Rightarrow> nanos"

definition TimeFormat :: string where
  "TimeFormat = ''Mon, 02 Jan 2006 15:04:05 GMT''"

definition layout850 :: string where
  "layout850 = ''Monday, 02-Jan-06 15:04:05 GMT''"

definition layoutANSIC :: string where
  "layoutANSIC = ''Mon Jan _2 15:04:05 2006''"

text \<open>The candidate of one layout: a two-digit year is placed within the fifty years to come.\<close>

definition date_candidate :: "timelib \<Rightarrow> nanos \<Rightarrow> nanos \<Rightarrow> string \<Rightarrow> nanos" where
  "date_candidate lib now parsed layout =
     (if layout = layout850 then
        (let limit = tl_AddYears lib 50 now;
             year = tl_Year lib limit div 100 * 100 + tl_Year lib parsed mod 100;
             candidate = tl_AddYears lib (year - tl_Year lib parsed) parsed in
         if candidate > limit then tl_AddYears lib (- 100) candidate else candidate)
      else parsed)"

definition parseCacheDate :: "timelib \<Rightarrow> string \<Rightarrow> nanos \<Rightarrow> nanos option" where
  "parseCacheDate lib value0 now =
     (if length value0 > 33 then None
      else
        (let value = (if length value0 \<ge> 3 \<and> EqualFold (drop (length value0 - 3) value0) ''GMT''
                      then take (length value0 - 3) value0 @ ''GMT'' else value0) in
         case tl_ParseTime lib value of
           None \<Rightarrow> None
         | Some parsed \<Rightarrow>
             map_option (date_candidate lib now parsed)
               (find (\<lambda>layout. EqualFold (tl_Format lib layout (date_candidate lib now parsed layout)) value)
                  [TimeFormat, layout850, layoutANSIC])))"

fun age_digits :: "int \<Rightarrow> string \<Rightarrow> int option" where
  "age_digits seconds [] = Some seconds"
| "age_digits seconds (c # s) =
     (if \<not> is_digit c then None
      else age_digits (min (seconds * 10 + int (digit_val c)) maxDeltaSeconds) s)"

definition parseAge :: "string list \<Rightarrow> duration" where
  "parseAge values =
     (case values of
        [] \<Rightarrow> 0
      | v # _ \<Rightarrow>
          (let first = trim_by is_blank (fst (Cut v (CHR '',''))) in
           case age_digits 0 first of None \<Rightarrow> 0 | Some seconds \<Rightarrow> seconds * second))"

subsection \<open>Directives\<close>

record cacheControl =
  cc_flags :: "(string \<times> bool) list"
  cc_secs :: "(string \<times> duration) list"

definition no_directives :: cacheControl where
  "no_directives = \<lparr>cc_flags = [], cc_secs = []\<rparr>"

definition cc_has :: "cacheControl \<Rightarrow> string \<Rightarrow> bool" where
  "cc_has cc name \<longleftrightarrow> map_of (cc_flags cc) name = Some True"

definition cc_delta :: "cacheControl \<Rightarrow> string \<Rightarrow> duration option" where
  "cc_delta cc name = map_of (cc_secs cc) name"

definition deltaDirectives :: "string list" where
  "deltaDirectives =
     [''max-age'', ''s-maxage'', ''stale-while-revalidate'', ''stale-if-error'', ''min-fresh'', ''max-stale'']"

fun cons_head :: "char \<Rightarrow> string list \<Rightarrow> string list" where
  "cons_head c [] = [[c]]"
| "cons_head c (p # ps) = (c # p) # ps"

text \<open>The scan of \<^verbatim>\<open>splitDirectives\<close> with its two flags.\<close>

fun split_scan :: "bool \<Rightarrow> bool \<Rightarrow> string \<Rightarrow> string list" where
  "split_scan inQuotes escaped [] = [[]]"
| "split_scan inQuotes escaped (c # s) =
     (if escaped then cons_head c (split_scan inQuotes False s)
      else if c = CHR 0x5C \<and> inQuotes then cons_head c (split_scan inQuotes True s)
      else if c = CHR 0x22 then cons_head c (split_scan (\<not> inQuotes) False s)
      else if c = CHR '','' \<and> \<not> inQuotes then [] # split_scan inQuotes False s
      else cons_head c (split_scan inQuotes False s))"

definition splitDirectives :: "string \<Rightarrow> string list" where
  "splitDirectives v = split_scan False False v"

text \<open>\<^verbatim>\<open>strings.ReplaceAll(s, `\"`, `"`)\<close>.\<close>

fun unescape_quotes :: "string \<Rightarrow> string" where
  "unescape_quotes (a # b # s) =
     (if a = CHR 0x5C \<and> b = CHR 0x22 then CHR 0x22 # unescape_quotes s else a # unescape_quotes (b # s))"
| "unescape_quotes s = s"

definition splitDirective :: "string \<Rightarrow> string \<times> string \<times> bool" where
  "splitDirective part0 =
     (let part = TrimSpace part0 in
      if part = [] then ([], [], False)
      else case index_byte (CHR ''='') part of
             None \<Rightarrow> (ToLower part, [], False)
           | Some i \<Rightarrow>
               (let name = ToLower (TrimSpace (take i part));
                    value = TrimSpace (drop (i + 1) part) in
                (name,
                 if length value \<ge> 2 \<and> hd value = CHR 0x22 \<and> last value = CHR 0x22
                 then unescape_quotes (butlast (tl value)) else value,
                 True)))"

definition parseDeltaSeconds :: "string \<Rightarrow> bool \<Rightarrow> duration" where
  "parseDeltaSeconds v given =
     (if \<not> given \<or> v = [] then 0
      else case ParseInt64 v of
             Inl er \<Rightarrow>
               if er = ErrRange \<and> \<not> HasPrefix v ''-'' then maxDeltaSeconds * second else 0
           | Inr n \<Rightarrow>
               if n < 0 then 0 else (if n > maxDeltaSeconds then maxDeltaSeconds else n) * second)"

definition add_directive :: "cacheControl \<Rightarrow> string \<Rightarrow> cacheControl" where
  "add_directive cc part =
     (let (name, value, given) = splitDirective part in
      if name = [] then cc
      else
        (let cc = cc\<lparr>cc_flags := AList.update name True (cc_flags cc)\<rparr> in
         if name \<notin> set deltaDirectives then cc
         else
           (let d = parseDeltaSeconds value given in
            case map_of (cc_secs cc) name of
              Some prev \<Rightarrow> if d < prev then cc\<lparr>cc_secs := AList.update name d (cc_secs cc)\<rparr> else cc
            | None \<Rightarrow> cc\<lparr>cc_secs := AList.update name d (cc_secs cc)\<rparr>)))"

definition parseCacheControl :: "hdr \<Rightarrow> string \<Rightarrow> cacheControl" where
  "parseCacheControl h field =
     foldl (\<lambda>cc line. foldl add_directive cc (splitDirectives line)) no_directives (hdr_Values h field)"

subsection \<open>Requests\<close>

record requestPolicy =
  rqp_NoStore :: bool
  rqp_MustValidate :: bool

definition pragmaNoCache :: "hdr \<Rightarrow> bool" where
  "pragmaNoCache h \<longleftrightarrow>
     list_ex (\<lambda>line. list_ex (\<lambda>part. fst (splitDirective part) = ''no-cache'') (splitDirectives line))
       (hdr_Values h ''Pragma'')"

definition parseRequestPolicy :: "hdr \<Rightarrow> requestPolicy" where
  "parseRequestPolicy h =
     (let cc = parseCacheControl h ''Cache-Control'';
          p = \<lparr>rqp_NoStore = cc_has cc ''no-store'', rqp_MustValidate = cc_has cc ''no-cache''\<rparr>;
          p = (if cc_delta cc ''max-age'' = Some 0 then p\<lparr>rqp_MustValidate := True\<rparr> else p) in
      if cc_flags cc = [] \<and> pragmaNoCache h then p\<lparr>rqp_MustValidate := True\<rparr> else p)"

subsection \<open>Responses\<close>

datatype sfv_value = SfvInt int | SfvString string | SfvBool bool | SfvOther

datatype sfv_member = SfvItem sfv_value | SfvInner

type_synonym sfv_parser = "string list \<Rightarrow> (string \<times> sfv_member) list option"

record responsePolicy =
  rp_Targeted :: bool
  rp_NoStore :: bool
  rp_Private :: bool
  rp_Public :: bool
  rp_NoCache :: bool
  rp_MustRevalidate :: bool
  rp_ProxyRevalidate :: bool
  rp_SMaxAge :: duration
  rp_HasSMaxAge :: bool
  rp_MaxAge :: duration
  rp_HasMaxAge :: bool
  rp_SWR :: duration
  rp_HasSWR :: bool
  rp_SIE :: duration
  rp_HasSIE :: bool

definition maxTargetedBytes :: int where
  "maxTargetedBytes = 16 * 2 ^ 10"

text \<open>The loop that bounds the joined length of the lines.\<close>

fun targeted_size_ok :: "int \<Rightarrow> string list \<Rightarrow> bool" where
  "targeted_size_ok joined [] = True"
| "targeted_size_ok joined (v # vs) =
     (if int (length v) > maxTargetedBytes - joined then False
      else targeted_size_ok (joined + int (length v)) vs)"

definition targeted_member :: "cacheControl \<Rightarrow> string \<times> sfv_member \<Rightarrow> cacheControl" where
  "targeted_member cc m =
     (case m of
        (name, SfvInner) \<Rightarrow> cc
      | (name, SfvItem v) \<Rightarrow>
          if name \<in> {''max-age'', ''s-maxage'', ''stale-while-revalidate'', ''stale-if-error''} then
            (case v of
               SfvInt seconds \<Rightarrow>
                 cc\<lparr>cc_secs := AList.update name (min (max seconds 0) maxDeltaSeconds * second) (cc_secs cc)\<rparr>
             | _ \<Rightarrow> cc)
          else if name \<in> {''no-cache'', ''private''} then
            cc\<lparr>cc_flags :=
                 AList.update name (v = SfvBool True \<or> (case v of SfvString _ \<Rightarrow> True | _ \<Rightarrow> False)) (cc_flags cc)\<rparr>
          else if name \<in> {''no-store'', ''must-revalidate'', ''proxy-revalidate'', ''public''} then
            cc\<lparr>cc_flags := AList.update name (v = SfvBool True) (cc_flags cc)\<rparr>
          else cc)"

definition parseTargetedCacheControl :: "sfv_parser \<Rightarrow> string list \<Rightarrow> cacheControl option" where
  "parseTargetedCacheControl sfv values =
     (if values = [] \<or> length values > 128 then None
      else if \<not> targeted_size_ok (2 * (int (length values) - 1)) values then None
      else case sfv values of
             None \<Rightarrow> None
           | Some [] \<Rightarrow> None
           | Some dictionary \<Rightarrow> Some (foldl targeted_member no_directives dictionary))"

definition selectResponseCacheControl :: "sfv_parser \<Rightarrow> hdr \<Rightarrow> cacheControl \<times> bool" where
  "selectResponseCacheControl sfv h =
     (case parseTargetedCacheControl sfv (hdr_Values h ''CDN-Cache-Control'') of
        Some cc \<Rightarrow> (cc, True)
      | None \<Rightarrow> (parseCacheControl h ''Cache-Control'', False))"

definition or_zero :: "duration option \<Rightarrow> duration" where
  "or_zero d = (case d of None \<Rightarrow> 0 | Some x \<Rightarrow> x)"

definition parseResponsePolicy :: "sfv_parser \<Rightarrow> hdr \<Rightarrow> responsePolicy" where
  "parseResponsePolicy sfv h =
     (let (cc, targeted) = selectResponseCacheControl sfv h in
      \<lparr>rp_Targeted = targeted, rp_NoStore = cc_has cc ''no-store'', rp_Private = cc_has cc ''private'',
       rp_Public = cc_has cc ''public'', rp_NoCache = cc_has cc ''no-cache'',
       rp_MustRevalidate = cc_has cc ''must-revalidate'',
       rp_ProxyRevalidate = cc_has cc ''proxy-revalidate'',
       rp_SMaxAge = or_zero (cc_delta cc ''s-maxage''), rp_HasSMaxAge = (cc_delta cc ''s-maxage'' \<noteq> None),
       rp_MaxAge = or_zero (cc_delta cc ''max-age''), rp_HasMaxAge = (cc_delta cc ''max-age'' \<noteq> None),
       rp_SWR = or_zero (cc_delta cc ''stale-while-revalidate''),
       rp_HasSWR = (cc_delta cc ''stale-while-revalidate'' \<noteq> None),
       rp_SIE = or_zero (cc_delta cc ''stale-if-error''), rp_HasSIE = (cc_delta cc ''stale-if-error'' \<noteq> None)\<rparr>)"

definition revalidationRequired :: "responsePolicy \<Rightarrow> bool" where
  "revalidationRequired p \<longleftrightarrow> rp_MustRevalidate p \<or> rp_ProxyRevalidate p \<or> rp_HasSMaxAge p"

definition sharedAuthReuse :: "responsePolicy \<Rightarrow> bool" where
  "sharedAuthReuse p \<longleftrightarrow> rp_Public p \<or> rp_HasSMaxAge p \<or> revalidationRequired p"

definition sharedAuthStorable :: "responsePolicy \<Rightarrow> bool" where
  "sharedAuthStorable p \<longleftrightarrow> rp_Public p \<or> rp_HasSMaxAge p"

subsection \<open>Numbers are clamped, never wrapped\<close>

lemma parse_uint64_digits:
  assumes "list_all is_digit s" and "n < 2 ^ 64"
  shows "parse_uint64 (int n) s =
    (if dec_from n s < 2 ^ 64 then Inr (int (dec_from n s)) else Inl ErrRange)"
  using assms
proof (induction s arbitrary: n)
  case Nil
  then show ?case by (simp add: dec_from_def)
next
  case (Cons c s)
  let ?m = "10 * n + digit_val c"
  have m: "10 * int n + int (digit_val c) = int ?m" by simp
  show ?case
  proof (cases "?m < 2 ^ 64")
    case True
    then have "int ?m < 2 ^ 64" by simp
    then show ?thesis using Cons.IH [OF _ True] Cons.prems(1) by (simp add: Let_def m del: of_nat_add of_nat_mult)
  next
    case False
    moreover have "?m \<le> dec_from ?m s" by (rule dec_from_ge)
    moreover have "int ?m \<ge> 2 ^ 64" using False by simp
    ultimately show ?thesis using Cons.prems(1) by (simp add: Let_def m del: of_nat_add of_nat_mult)
  qed
qed

lemma digits_no_sign:
  assumes "list_all is_digit s" and "s \<noteq> []"
  shows "hd s \<noteq> CHR ''-''" and "hd s \<noteq> CHR ''+''" and "\<not> HasPrefix s ''-''"
  using assms by (cases s; auto simp: is_digit_def HasPrefix_def)+

text \<open>Every digit string is read exactly, up to the clamp.\<close>

lemma parseDeltaSeconds_digits:
  assumes "list_all is_digit s" and "s \<noteq> []"
  shows "parseDeltaSeconds s True = min (int (decimal s)) maxDeltaSeconds * second"
proof -
  note sign = digits_no_sign [OF assms]
  have "ParseInt64 s = (if decimal s < 2 ^ 63 then Inr (int (decimal s)) else Inl ErrRange)"
    using parse_uint64_digits [OF assms(1), of 0] assms(2) sign(1,2)
    by (auto simp: ParseInt64_def Let_def dec_from_decimal)
  moreover have "min (int (decimal s)) maxDeltaSeconds = maxDeltaSeconds" if "\<not> decimal s < 2 ^ 63"
    using that by (simp add: maxDeltaSeconds_def)
  ultimately show ?thesis using assms(2) sign(3)
    by (auto simp: parseDeltaSeconds_def min_def)
qed

lemma parseDeltaSeconds_range: "parseDeltaSeconds v given \<in> {0..maxDeltaSeconds * second}"
  by (auto simp: parseDeltaSeconds_def second_def maxDeltaSeconds_def split: sum.splits)

lemma age_digits_clamped:
  "list_all is_digit s \<Longrightarrow> 0 \<le> n \<Longrightarrow> n \<le> maxDeltaSeconds \<Longrightarrow>
   age_digits n s = Some (min (int (dec_from (nat n) s)) maxDeltaSeconds)"
proof (induction s arbitrary: n)
  case Nil
  then show ?case by (simp add: dec_from_def)
next
  case (Cons c s)
  let ?m = "10 * nat n + digit_val c"
  have m: "n * 10 + int (digit_val c) = int ?m" using Cons.prems by simp
  show ?case
  proof (cases "int ?m \<le> maxDeltaSeconds")
    case True
    then show ?thesis using Cons.IH [of "int ?m"] Cons.prems by (simp add: m min_def del: of_nat_add of_nat_mult)
  next
    case False
    have "?m \<le> dec_from ?m s" "nat maxDeltaSeconds \<le> dec_from (nat maxDeltaSeconds) s" by (rule dec_from_ge)+
    then show ?thesis using Cons.IH [of maxDeltaSeconds] Cons.prems False
      by (simp add: m min_def maxDeltaSeconds_def del: of_nat_add of_nat_mult)
  qed
qed

subsection \<open>The set of directives\<close>

text \<open>The directives of all lines: the names in lower case, each with its argument as a number
  of seconds.\<close>

definition directives :: "hdr \<Rightarrow> string \<Rightarrow> (string \<times> duration) list" where
  "directives h field =
     filter (\<lambda>(n, d). n \<noteq> [])
       (map (\<lambda>part. let (n, v, given) = splitDirective part in (n, parseDeltaSeconds v given))
          (concat (map splitDirectives (hdr_Values h field))))"

text \<open>The directive set of a list of directives, whatever their order.\<close>

definition directive_set :: "(string \<times> duration) list \<Rightarrow> cacheControl \<Rightarrow> bool" where
  "directive_set ds cc \<longleftrightarrow>
     (\<forall>n. cc_has cc n = (n \<in> fst ` set ds)) \<and>
     (\<forall>n. cc_delta cc n =
        (if n \<in> set deltaDirectives \<and> n \<in> fst ` set ds then Some (Min {d. (n, d) \<in> set ds}) else None))"

lemma directive_set_empty: "directive_set [] no_directives"
  by (simp add: directive_set_def no_directives_def cc_has_def cc_delta_def)

lemma Min_snoc:
  assumes "(n, x) \<in> set ds"
  shows "Min {d. (n, d) \<in> set (ds @ [(n, y)])} = min y (Min {d. (n, d) \<in> set ds})"
proof -
  have "finite {d. (n, d) \<in> set ds}"
    by (rule finite_subset [of _ "snd ` set ds"]) force+
  moreover have "{d. (n, d) \<in> set (ds @ [(n, y)])} = insert y {d. (n, d) \<in> set ds}" by auto
  ultimately show ?thesis using assms by (subst Min_insert [symmetric]) auto
qed

lemma add_directive_named:
  assumes "splitDirective part = (n, v, given)" and "n \<noteq> []"
  shows "map_of (cc_flags (add_directive cc part)) = (map_of (cc_flags cc))(n \<mapsto> True)"
    and "cc_delta (add_directive cc part) =
      (if n \<in> set deltaDirectives
       then (cc_delta cc)(n \<mapsto> (case cc_delta cc n of None \<Rightarrow> parseDeltaSeconds v given
                                  | Some prev \<Rightarrow> min (parseDeltaSeconds v given) prev))
       else cc_delta cc)"
  using assms
  by (auto simp: add_directive_def Let_def cc_delta_def AList.update_conv' min_def fun_eq_iff split: option.split)

lemma directive_set_add:
  assumes "directive_set ds cc" and "splitDirective part = (n, v, given)" and "n \<noteq> []"
  shows "directive_set (ds @ [(n, parseDeltaSeconds v given)]) (add_directive cc part)"
proof -
  let ?d = "parseDeltaSeconds v given"
  let ?ds = "ds @ [(n, ?d)]"
  note add = add_directive_named [OF assms(2,3), of cc]
  have has: "cc_has (add_directive cc part) m = (m \<in> fst ` set ?ds)" for m
    using assms(1) by (auto simp: directive_set_def cc_has_def add(1))
  have "{d. (m, d) \<in> set ?ds} = {d. (m, d) \<in> set ds}" if "m \<noteq> n" for m using that by auto
  moreover have "{d. (n, d) \<in> set ?ds} = {?d}" if "n \<notin> fst ` set ds" using that by force
  moreover have "Min {d. (n, d) \<in> set ?ds} = min ?d (Min {d. (n, d) \<in> set ds})" if "n \<in> fst ` set ds"
    using that Min_snoc by force
  ultimately have "cc_delta (add_directive cc part) m =
      (if m \<in> set deltaDirectives \<and> m \<in> fst ` set ?ds then Some (Min {d. (m, d) \<in> set ?ds}) else None)" for m
    using assms(1) by (cases "m = n"; cases "n \<in> fst ` set ds") (simp_all add: directive_set_def add(2) del: set_append, auto)
  then show ?thesis unfolding directive_set_def using has by blast
qed

lemma directive_set_foldl:
  "directive_set ds cc \<Longrightarrow>
   directive_set
     (ds @ filter (\<lambda>(n, d). n \<noteq> [])
       (map (\<lambda>part. let (n, v, given) = splitDirective part in (n, parseDeltaSeconds v given)) parts))
     (foldl add_directive cc parts)"
proof (induction parts arbitrary: ds cc)
  case (Cons part parts)
  obtain n v given where sp: "splitDirective part = (n, v, given)" by (metis prod_cases3)
  show ?case
  proof (cases "n = []")
    case True
    then show ?thesis using Cons sp by (simp add: add_directive_def)
  next
    case False
    then show ?thesis
      using Cons.IH [OF directive_set_add [OF Cons.prems sp False]] sp by simp
  qed
qed simp

lemma foldl_concat_map: "foldl (\<lambda>a x. foldl f a (g x)) a xs = foldl f a (concat (map g xs))"
  by (induction xs arbitrary: a) auto

lemma parseCacheControl_set: "directive_set (directives h field) (parseCacheControl h field)"
  using directive_set_foldl [OF directive_set_empty]
  by (simp add: parseCacheControl_def directives_def foldl_concat_map)

text \<open>The result of parsing Cache-Control depends only on the set of directives on all
  lines: a directive is present just when some line has it, and where a directive with a
  lifetime is repeated, in whatever order, the shortest lifetime counts. Lifetimes lie between
  zero and a hundred years, whatever the argument says.\<close>

lemma parseCacheControl_safest:
  "directive_set (directives h field) (parseCacheControl h field) \<and>
   set_option (cc_delta (parseCacheControl h field) n) \<subseteq> {0..maxDeltaSeconds * second}"
proof -
  have fin: "finite {d. (n, d) \<in> set ds}" for ds :: "(string \<times> duration) list"
    by (rule finite_subset [of _ "snd ` set ds"]) force+
  have "{d. (n, d) \<in> set (directives h field)} \<subseteq> {0..maxDeltaSeconds * second}"
    using parseDeltaSeconds_range by (auto simp: directives_def split: prod.splits)
  moreover have "Min {d. (n, d) \<in> set (directives h field)} \<in> {d. (n, d) \<in> set (directives h field)}"
    if "n \<in> fst ` set (directives h field)" using that fin [of "directives h field"] by (intro Min_in) force+
  ultimately have "Min {d. (n, d) \<in> set (directives h field)} \<in> {0..maxDeltaSeconds * second}"
    if "n \<in> fst ` set (directives h field)" using that by blast
  then show ?thesis using parseCacheControl_set [of h field] by (simp add: directive_set_def)
qed

lemma parseCacheControl_order_free:
  assumes "set (directives h field) = set (directives h' field')"
  shows "cc_has (parseCacheControl h field) = cc_has (parseCacheControl h' field')"
    and "cc_delta (parseCacheControl h field) = cc_delta (parseCacheControl h' field')"
  using parseCacheControl_set [of h field] parseCacheControl_set [of h' field'] assms
  by (auto simp: directive_set_def fun_eq_iff)

end
