(* ===== verification/Cache_Vary.thy ===== *)
theory Cache_Vary
  imports Cache_Entry "HOL-Library.Char_ord" "HOL-Library.List_Lexorder"
begin

text \<open>
  The variants of a cached resource: the fields a response varies on (\<^verbatim>\<open>http.go\<close>), the key
  of a variant and the membership of a stub (\<^verbatim>\<open>cache.go\<close>, \<^verbatim>\<open>store.go\<close>), and the guard
  that refuses fields which carry credentials or which the gateway rewrites
  (\<^verbatim>\<open>vary_security.go\<close>), all under \<^verbatim>\<open>src/internal/cache\<close>.

  The test \<^verbatim>\<open>httpguts.ValidHeaderFieldName\<close> is the argument \<open>valid\<close> and SHA-256 the
  argument \<open>sha\<close>. Strings are sorted by their bytes.
\<close>

subsection \<open>Fields and keys\<close>

definition parseList :: "string \<Rightarrow> string list" where
  "parseList v = filter (\<lambda>p. p \<noteq> []) (map TrimSpace (Split v (CHR '','')))"

definition vary_lines :: "hdr \<Rightarrow> string list" where
  "vary_lines h = concat (map snd (filter (\<lambda>(k, lines). EqualFold k ''Vary'') h))"

definition varyFields :: "hdr \<Rightarrow> string list" where
  "varyFields h = concat (map parseList (vary_lines h))"

definition normalizeFields :: "string list \<Rightarrow> string list" where
  "normalizeFields f = sort (map (\<lambda>v. ToLower (TrimSpace v)) f)"

definition sameFields :: "string list \<Rightarrow> string list \<Rightarrow> bool" where
  "sameFields a b \<longleftrightarrow> length a = length b \<and> normalizeFields a = normalizeFields b"

definition frame_value :: "string \<Rightarrow> string" where
  "frame_value v = CHR '':'' # FormatUint (length v) @ CHR '':'' # v"

definition varyRequestValue :: "hdr \<Rightarrow> string \<Rightarrow> string" where
  "varyRequestValue h name =
     (let values = hdr_Values h name in
      CHR 0x00 # ''v2:'' @ FormatUint (length values) @ concat (map frame_value values))"

definition key_fields :: "string list \<Rightarrow> hdr \<Rightarrow> string" where
  "key_fields flds h =
     concat (map (\<lambda>f. CHR 0x00 # f @ CHR 0x1F # varyRequestValue h f) flds)"

definition variantKey :: "string \<Rightarrow> string list \<Rightarrow> hdr \<Rightarrow> string" where
  "variantKey base vary h = base @ key_fields (normalizeFields vary) h"

definition routeVariantKey :: "string \<Rightarrow> string \<Rightarrow> string list \<Rightarrow> hdr \<Rightarrow> string" where
  "routeVariantKey base routeScope vary h =
     (if routeScope = [] then variantKey base vary h
      else base @ CHR 0x00 # ''route'' @ CHR 0x1F # routeScope @ key_fields (normalizeFields vary) h)"

definition matchesVary :: "Entry \<Rightarrow> hdr \<Rightarrow> bool" where
  "matchesVary e h \<longleftrightarrow>
     list_all (\<lambda>name. name \<noteq> ''*'' \<and>
       varyRequestValue h name = (case map_of (en_VaryValues e) name of None \<Rightarrow> [] | Some v \<Rightarrow> v)) (en_Vary e)"

definition maxVariantsPerResource :: nat where
  "maxVariantsPerResource = 64"

text \<open>The stub and the key that must be deleted because the membership is full.\<close>

definition addVariant :: "Entry \<Rightarrow> string \<Rightarrow> string \<times> Entry" where
  "addVariant e vk =
     (if ownsVariant e vk then ([], e)
      else
        (let vs = en_Variants e @ [vk] in
         if length vs > maxVariantsPerResource then (hd vs, e\<lparr>en_Variants := tl vs\<rparr>)
         else ([], e\<lparr>en_Variants := vs\<rparr>)))"

fun merge_fields :: "string list \<Rightarrow> string list \<Rightarrow> string list \<Rightarrow> string list" where
  "merge_fields known out [] = out"
| "merge_fields known out (f # fs) =
     (let lower = ToLower (TrimSpace f) in
      if lower = [] \<or> lower \<in> set known then merge_fields known out fs
      else merge_fields (lower # known) (out @ [f]) fs)"

definition mergeRouteVaryFields :: "(string \<times> string list) list \<Rightarrow> string list" where
  "mergeRouteVaryFields routeVary = sort (merge_fields [] [] (concat (map snd routeVary)))"

subsection \<open>The guard\<close>

definition MaxProxyVaryNames :: nat where "MaxProxyVaryNames = 256"
definition maxConnectionVaryBytes :: nat where "maxConnectionVaryBytes = 8192"
definition maxConnectionVaryNames :: nat where "maxConnectionVaryNames = 128"
definition maxProxyVaryFieldBytes :: nat where "maxProxyVaryFieldBytes = 128"
definition maxProxyVaryFields :: nat where "maxProxyVaryFields = 128"
definition maxProxyVaryBytes :: nat where "maxProxyVaryBytes = 8192"

record varyTransformPolicy =
  vt_names :: "string list"
  vt_prefixes :: "string list"
  vt_reject :: bool
  vt_cgi :: bool
  vt_digest :: string

definition computeVaryTransformDigest :: "(string \<Rightarrow> string) \<Rightarrow> varyTransformPolicy \<Rightarrow> string" where
  "computeVaryTransformDigest sha p =
     take 16 (sha
       ((if vt_reject p then [CHR 0x01] else [CHR 0x00]) @ (if vt_cgi p then [CHR 0x01] else [CHR 0x00]) @
        concat (map (\<lambda>k. k @ [CHR 0x00]) (sort (vt_names p))) @ [CHR 0xFF] @
        concat (map (\<lambda>k. k @ [CHR 0x00]) (sort (vt_prefixes p)))))"

definition sameVaryGuard :: "varyTransformPolicy option \<Rightarrow> varyTransformPolicy option \<Rightarrow> bool" where
  "sameVaryGuard a b =
     (case (a, b) of (None, None) \<Rightarrow> True | (Some p, Some q) \<Rightarrow> vt_digest p = vt_digest q | _ \<Rightarrow> False)"

text \<open>The loop over the names; it stops at the first name it cannot record.\<close>

fun add_vary_names :: "(string \<Rightarrow> bool) \<Rightarrow> varyTransformPolicy \<Rightarrow> string list \<Rightarrow> varyTransformPolicy" where
  "add_vary_names valid p [] = p"
| "add_vary_names valid p (name # ns) =
     (if \<not> valid name then p\<lparr>vt_reject := True\<rparr>
      else
        (let lower = ToLower name in
         if lower \<notin> set (vt_names p) \<and> length (vt_names p) \<ge> MaxProxyVaryNames then p\<lparr>vt_reject := True\<rparr>
         else add_vary_names valid (p\<lparr>vt_names := List.insert lower (vt_names p)\<rparr>) ns))"

definition newProxyVaryTransformPolicy ::
  "(string \<Rightarrow> string) \<Rightarrow> (string \<Rightarrow> bool) \<Rightarrow> string list \<Rightarrow> bool \<Rightarrow> varyTransformPolicy" where
  "newProxyVaryTransformPolicy sha valid names complete =
     (let p = add_vary_names valid
                \<lparr>vt_names = [], vt_prefixes = [], vt_reject = \<not> complete, vt_cgi = False, vt_digest = []\<rparr> names in
      p\<lparr>vt_digest := computeVaryTransformDigest sha p\<rparr>)"

definition underscored :: "string \<Rightarrow> string" where
  "underscored s = map (\<lambda>c. if c = CHR ''-'' then CHR ''_'' else c) s"

fun add_vary_prefixes :: "(string \<Rightarrow> bool) \<Rightarrow> varyTransformPolicy \<Rightarrow> string list \<Rightarrow> varyTransformPolicy" where
  "add_vary_prefixes valid p [] = p"
| "add_vary_prefixes valid p (pre # ps) =
     (if \<not> valid pre then p\<lparr>vt_reject := True\<rparr>
      else add_vary_prefixes valid (p\<lparr>vt_prefixes := vt_prefixes p @ [underscored (ToLower pre)]\<rparr>) ps)"

definition newCGIVaryTransformPolicy ::
  "(string \<Rightarrow> string) \<Rightarrow> (string \<Rightarrow> bool) \<Rightarrow> string list \<Rightarrow> string list \<Rightarrow> bool \<Rightarrow> varyTransformPolicy" where
  "newCGIVaryTransformPolicy sha valid names pres complete =
     (let p = newProxyVaryTransformPolicy sha valid names complete;
          p = p\<lparr>vt_cgi := True, vt_names := remdups (map underscored (vt_names p))\<rparr>;
          p = (if length names + length pres > MaxProxyVaryNames then p\<lparr>vt_reject := True\<rparr> else p);
          p = add_vary_prefixes valid p pres in
      p\<lparr>vt_digest := computeVaryTransformDigest sha p\<rparr>)"

definition varyRewriteReason :: "varyTransformPolicy option \<Rightarrow> string" where
  "varyRewriteReason policy =
     (case policy of
        Some p \<Rightarrow> if vt_cgi p then ''vary_cgi_rewrite_rejected'' else ''vary_proxy_rewrite_rejected''
      | None \<Rightarrow> ''vary_proxy_rewrite_rejected'')"

definition trim_quotes :: "string \<Rightarrow> string" where
  "trim_quotes s = trim_by (\<lambda>c. c = CHR 0x22 \<or> c = CHR 0x27) s"

definition isSensitiveVaryField :: "string \<Rightarrow> bool" where
  "isSensitiveVaryField field =
     (let trimmed = trim_quotes (TrimSpace field);
          (base, _, ok) = Cut trimmed (CHR '';'');
          trimmed = (if ok then trim_quotes (TrimSpace base) else trimmed);
          trimmed = TrimSpace trimmed in
      EqualFold trimmed ''cookie'' \<or> EqualFold trimmed ''authorization'')"

definition sensitiveVaryFields :: "string list \<Rightarrow> bool" where
  "sensitiveVaryFields flds \<longleftrightarrow>
     list_ex (\<lambda>field. list_ex isSensitiveVaryField (Split field (CHR '',''))) flds"

definition sensitiveVaryHeader :: "hdr \<Rightarrow> bool" where
  "sensitiveVaryHeader h \<longleftrightarrow> sensitiveVaryFields (vary_lines h)"

definition sensitiveVaryEntry :: "Entry \<Rightarrow> bool" where
  "sensitiveVaryEntry e \<longleftrightarrow>
     sensitiveVaryFields (en_Vary e) \<or> sensitiveVaryHeader (en_Header e) \<or>
     list_ex (\<lambda>(name, _). isSensitiveVaryField name) (en_VaryValues e) \<or>
     list_ex (\<lambda>(_, flds). sensitiveVaryFields flds) (en_RouteVary e)"

text \<open>The scan of the \<^verbatim>\<open>Connection\<close> header: nothing when a limit is passed, a name is
  malformed, or the varied field is one of the names.\<close>

fun conn_fields :: "(string \<Rightarrow> bool) \<Rightarrow> string \<Rightarrow> nat \<Rightarrow> string list \<Rightarrow> nat option" where
  "conn_fields valid name cnt [] = Some cnt"
| "conn_fields valid name cnt (f # fs) =
     (let field = TrimSpace f; cnt = cnt + 1 in
      if cnt > maxConnectionVaryNames \<or> \<not> valid field \<or> EqualFold field name then None
      else conn_fields valid name cnt fs)"

fun conn_lines :: "(string \<Rightarrow> bool) \<Rightarrow> string \<Rightarrow> nat \<Rightarrow> nat \<Rightarrow> string list \<Rightarrow> bool" where
  "conn_lines valid name bytes cnt [] = False"
| "conn_lines valid name bytes cnt (line # ls) =
     (let bytes = bytes + length line in
      if bytes > maxConnectionVaryBytes then True
      else case conn_fields valid name cnt (Split line (CHR '','')) of
             None \<Rightarrow> True
           | Some cnt \<Rightarrow> conn_lines valid name bytes cnt ls)"

definition proxyVaryField ::
  "(string \<Rightarrow> bool) \<Rightarrow> hdr option \<Rightarrow> varyTransformPolicy \<Rightarrow> string \<Rightarrow> bool" where
  "proxyVaryField valid r policy name0 =
     (if vt_reject policy then True
      else
        (let name = TrimSpace name0 in
         if length name > maxProxyVaryFieldBytes \<or> \<not> valid name then True
         else
           (let normalized = (if vt_cgi policy then underscored (ToLower name) else ToLower name) in
            if normalized \<in> set (vt_names policy) then True
            else if vt_cgi policy then
              (if list_ex (HasPrefix normalized) (vt_prefixes policy) then True
               else if contains_byte (CHR ''_'') name then True
               else case r of
                      None \<Rightarrow> False
                    | Some h \<Rightarrow>
                        length h > MaxProxyVaryNames \<or>
                        list_ex (\<lambda>(header, _). length header = length name \<and> \<not> EqualFold header name \<and>
                          EqualFold (underscored header) normalized) h)
            else case r of
                   None \<Rightarrow> False
                 | Some h \<Rightarrow>
                     (let lines = hdr_Values h ''Connection'' in
                      length lines > maxConnectionVaryNames \<or> conn_lines valid name 0 0 lines))))"

definition varyRejectionFields ::
  "(string \<Rightarrow> bool) \<Rightarrow> hdr option \<Rightarrow> varyTransformPolicy option \<Rightarrow> string list \<Rightarrow> string" where
  "varyRejectionFields valid r policy flds =
     (if sensitiveVaryFields flds then ''vary_sensitive_rejected''
      else case policy of
             None \<Rightarrow> []
           | Some p \<Rightarrow>
               if length flds > maxProxyVaryFields then varyRewriteReason policy
               else if list_ex (\<lambda>field. list_ex (\<lambda>tok0.
                      let tok = TrimSpace tok0 in tok \<noteq> [] \<and> tok \<noteq> ''*'' \<and> proxyVaryField valid r p tok)
                    (Split field (CHR '',''))) flds then varyRewriteReason policy
               else [])"

fun header_fields ::
  "(string \<Rightarrow> bool) \<Rightarrow> hdr option \<Rightarrow> varyTransformPolicy \<Rightarrow> nat \<Rightarrow> string list \<Rightarrow> nat option" where
  "header_fields valid r p cnt [] = Some cnt"
| "header_fields valid r p cnt (f # fs) =
     (let trimmed = TrimSpace f; cnt = cnt + 1 in
      if cnt > maxProxyVaryFields \<or> (trimmed \<noteq> ''*'' \<and> proxyVaryField valid r p trimmed) then None
      else header_fields valid r p cnt fs)"

fun header_lines ::
  "(string \<Rightarrow> bool) \<Rightarrow> hdr option \<Rightarrow> varyTransformPolicy \<Rightarrow> nat \<Rightarrow> nat \<Rightarrow> string list \<Rightarrow> bool" where
  "header_lines valid r p bytes cnt [] = True"
| "header_lines valid r p bytes cnt (line # ls) =
     (let bytes = bytes + length line in
      if bytes > maxProxyVaryBytes then False
      else case header_fields valid r p cnt (Split line (CHR '','')) of
             None \<Rightarrow> False
           | Some cnt \<Rightarrow> header_lines valid r p bytes cnt ls)"

definition varyRejectionHeader ::
  "(string \<Rightarrow> bool) \<Rightarrow> hdr option \<Rightarrow> varyTransformPolicy option \<Rightarrow> hdr \<Rightarrow> string" where
  "varyRejectionHeader valid r policy h =
     (if sensitiveVaryHeader h then ''vary_sensitive_rejected''
      else case policy of
             None \<Rightarrow> []
           | Some p \<Rightarrow> if header_lines valid r p 0 0 (vary_lines h) then [] else varyRewriteReason policy)"

fun first_reason :: "string list \<Rightarrow> string" where
  "first_reason [] = []"
| "first_reason (r # rs) = (if r \<noteq> [] then r else first_reason rs)"

definition varyRejectionEntry ::
  "(string \<Rightarrow> bool) \<Rightarrow> hdr option \<Rightarrow> varyTransformPolicy option \<Rightarrow> Entry \<Rightarrow> string" where
  "varyRejectionEntry valid r policy e =
     (if sensitiveVaryEntry e then ''vary_sensitive_rejected''
      else if varyRejectionFields valid r policy (en_Vary e) \<noteq> [] then varyRejectionFields valid r policy (en_Vary e)
      else if varyRejectionHeader valid r policy (en_Header e) \<noteq> []
           then varyRejectionHeader valid r policy (en_Header e)
      else if policy \<noteq> None \<and> length (en_VaryValues e) > maxProxyVaryFields then varyRewriteReason policy
      else first_reason (map (\<lambda>(name, _). varyRejectionFields valid r policy [name]) (en_VaryValues e)))"

subsection \<open>Length framing is uniquely readable\<close>

definition no_digit_next :: "string \<Rightarrow> bool" where
  "no_digit_next s \<longleftrightarrow> (case s of [] \<Rightarrow> True | c # _ \<Rightarrow> \<not> is_digit c)"

lemma FormatUint_inj: "FormatUint n = FormatUint m \<Longrightarrow> n = m"
  by (metis decimal_FormatUint)

lemma number_prefix:
  assumes "FormatUint n @ r = FormatUint m @ r'" and "no_digit_next r" and "no_digit_next r'"
  shows "n = m \<and> r = r'"
proof -
  have tw: "takeWhile is_digit (FormatUint k @ s) = FormatUint k" if "no_digit_next s" for k s
    using digits_FormatUint [of k] that
    by (subst takeWhile_append2) (auto simp: list_all_iff no_digit_next_def split: list.splits)
  from assms have "FormatUint n = FormatUint m" using tw [of r n] tw [of r' m] by simp
  then show ?thesis using assms(1) FormatUint_inj by auto
qed

lemma frame_value_prefix:
  assumes "frame_value v @ r = frame_value w @ r'"
  shows "v = w \<and> r = r'"
proof -
  have "FormatUint (length v) @ (CHR '':'' # v @ r) = FormatUint (length w) @ (CHR '':'' # w @ r')"
    using assms by (simp add: frame_value_def)
  from number_prefix [OF this] have "length v = length w \<and> v @ r = w @ r'"
    by (simp add: no_digit_next_def is_digit_def)
  then show ?thesis using append_eq_append_conv by blast
qed

interpretation frame: prefix_code frame_value
  by unfold_locales (rule frame_value_prefix)

lemma frames_no_digit: "no_digit_next r \<Longrightarrow> no_digit_next (concat (map frame_value vs) @ r)"
  by (cases vs) (auto simp: no_digit_next_def frame_value_def is_digit_def)

lemma varyRequestValue_prefix:
  assumes "varyRequestValue h n @ r = varyRequestValue h' n' @ r'" and "no_digit_next r" and "no_digit_next r'"
  shows "hdr_Values h n = hdr_Values h' n' \<and> r = r'"
proof -
  let ?vs = "hdr_Values h n" and ?ws = "hdr_Values h' n'"
  have "FormatUint (length ?vs) @ (concat (map frame_value ?vs) @ r) =
        FormatUint (length ?ws) @ (concat (map frame_value ?ws) @ r')"
    using assms(1) by (simp add: varyRequestValue_def Let_def)
  from number_prefix [OF this frames_no_digit frames_no_digit] assms(2,3)
  show ?thesis using frame.enc_list_prefix by blast
qed

lemma varyRequestValue_inj: "varyRequestValue h n = varyRequestValue h' n' \<Longrightarrow> hdr_Values h n = hdr_Values h' n'"
  using varyRequestValue_prefix [of h n "[]" h' n' "[]"] by (simp add: no_digit_next_def)

lemma key_fields_next: "no_digit_next (key_fields fs h)"
  by (cases fs) (auto simp: key_fields_def no_digit_next_def is_digit_def)

lemma key_fields_inj: "key_fields fs h = key_fields fs h' \<longleftrightarrow> map (hdr_Values h) fs = map (hdr_Values h') fs"
proof (induction fs)
  case (Cons f fs)
  have "key_fields (f # fs) h = key_fields (f # fs) h' \<longleftrightarrow>
        varyRequestValue h f @ key_fields fs h = varyRequestValue h' f @ key_fields fs h'"
    by (simp add: key_fields_def)
  also have "\<dots> \<longleftrightarrow> hdr_Values h f = hdr_Values h' f \<and> key_fields fs h = key_fields fs h'"
    using varyRequestValue_prefix [OF _ key_fields_next key_fields_next] by (auto simp: varyRequestValue_def)
  finally show ?case using Cons.IH by simp
qed (simp add: key_fields_def)

lemma variantKey_iff:
  "variantKey base vary h = variantKey base vary h' \<longleftrightarrow>
   map (hdr_Values h) (normalizeFields vary) = map (hdr_Values h') (normalizeFields vary)"
  by (simp add: variantKey_def key_fields_inj)

text \<open>The key does not depend on the order or the case in which the response lists the fields.\<close>

lemma normalizeFields_order:
  "normalizeFields a = normalizeFields b \<longleftrightarrow>
   mset (map (\<lambda>v. ToLower (TrimSpace v)) a) = mset (map (\<lambda>v. ToLower (TrimSpace v)) b)"
  (is "_ \<longleftrightarrow> mset ?a = mset ?b")
proof
  assume "normalizeFields a = normalizeFields b"
  then have "mset (sort ?a) = mset (sort ?b)" by (simp only: normalizeFields_def)
  then show "mset ?a = mset ?b" by (simp only: mset_sort)
next
  assume "mset ?a = mset ?b"
  then have "sort ?a = sort ?b" by (intro properties_for_sort) (simp_all only: mset_sort sorted_sort)
  then show "normalizeFields a = normalizeFields b" by (simp only: normalizeFields_def)
qed

lemma sameFields_iff:
  "sameFields a b \<longleftrightarrow> mset (map (\<lambda>v. ToLower (TrimSpace v)) a) = mset (map (\<lambda>v. ToLower (TrimSpace v)) b)"
proof -
  have "length a = length b" if "normalizeFields a = normalizeFields b"
    using that by (metis length_map length_sort normalizeFields_def)
  then show ?thesis unfolding sameFields_def normalizeFields_order [symmetric] by blast
qed

subsection \<open>What the guard lets through\<close>

lemma to_lower_fixed: "\<not> is_upper c \<Longrightarrow> to_lower c = c"
  by (auto simp: to_lower_def is_upper_def)

lemma EqualFold_bytes:
  assumes "EqualFold x t" and "c \<in> set x" and "\<not> is_upper c"
  shows "c \<in> set (ToLower t)"
  using assms to_lower_fixed [OF assms(3)] by (metis EqualFold_def ToLower_def image_eqI list.set_map)

lemma credential_names_lower:
  "ToLower ''cookie'' = ''cookie''" "ToLower ''authorization'' = ''authorization''"
  by (simp_all add: ToLower_def to_lower_def)

lemma credential_name_bytes:
  assumes "EqualFold x ''cookie'' \<or> EqualFold x ''authorization''" and "c \<in> set x"
  shows "is_upper c \<or> c \<in> set ''cookieauthrzn''"
proof -
  have "set ''cookie'' \<subseteq> set ''cookieauthrzn''" "set ''authorization'' \<subseteq> set ''cookieauthrzn''" by simp_all
  then show ?thesis
    using assms EqualFold_bytes [of x "''cookie''" c] EqualFold_bytes [of x "''authorization''" c]
    unfolding credential_names_lower by blast
qed

lemma credential_name_sensitive:
  assumes "EqualFold (TrimSpace p) ''cookie'' \<or> EqualFold (TrimSpace p) ''authorization''"
  shows "isSensitiveVaryField p"
proof -
  let ?x = "TrimSpace p"
  note bytes = credential_name_bytes [OF assms]
  have out: "CHR 0x22 \<notin> set ?x" "CHR 0x27 \<notin> set ?x" "CHR '';'' \<notin> set ?x" "CHR '' '' \<notin> set ?x"
    "CHR 0x09 \<notin> set ?x" "CHR 0x0A \<notin> set ?x" "CHR 0x0B \<notin> set ?x" "CHR 0x0C \<notin> set ?x" "CHR 0x0D \<notin> set ?x"
    by (rule notI, drule bytes, simp add: is_upper_def)+
  have "trim_quotes ?x = ?x" unfolding trim_quotes_def using out(1,2) by (intro trim_by_none) auto
  moreover have "Cut ?x (CHR '';'') = (?x, [], False)" using out(3) by (simp add: Cut_def index_byte_None [THEN iffD2])
  moreover have "TrimSpace ?x = ?x" unfolding TrimSpace_def [of ?x] is_space_def
    using out(4-) by (intro trim_by_none) auto
  ultimately show ?thesis using assms by (simp add: isSensitiveVaryField_def Let_def)
qed

lemma varyFields_source:
  "f \<in> set (varyFields h) \<Longrightarrow> \<exists>line \<in> set (vary_lines h). \<exists>p \<in> set (Split line (CHR '','')). f = TrimSpace p"
  by (auto simp: varyFields_def parseList_def)

lemma header_fields_ok:
  "header_fields valid r p cnt fs = Some n \<Longrightarrow> f \<in> set fs \<Longrightarrow>
   TrimSpace f = ''*'' \<or> \<not> proxyVaryField valid r p (TrimSpace f)"
  by (induction fs arbitrary: cnt) (auto simp: Let_def split: if_splits)

lemma header_lines_ok:
  "header_lines valid r p bytes cnt ls \<Longrightarrow> line \<in> set ls \<Longrightarrow> f \<in> set (Split line (CHR '','')) \<Longrightarrow>
   TrimSpace f = ''*'' \<or> \<not> proxyVaryField valid r p (TrimSpace f)"
proof (induction ls arbitrary: bytes cnt)
  case (Cons l ls)
  then show ?case using header_fields_ok [of valid r p cnt "Split l (CHR '','')" _ f]
    by (auto simp: Let_def split: if_splits option.splits)
qed simp

lemma varyRejectionHeader_ok:
  assumes "varyRejectionHeader valid r policy h = []" and "f \<in> set (varyFields h)"
  shows "\<not> EqualFold f ''cookie'' \<and> \<not> EqualFold f ''authorization''"
    and "policy = Some p \<Longrightarrow> f = ''*'' \<or> \<not> proxyVaryField valid r p f"
proof -
  obtain line q where q: "line \<in> set (vary_lines h)" "q \<in> set (Split line (CHR '',''))" "f = TrimSpace q"
    using varyFields_source [OF assms(2)] by blast
  have "\<not> isSensitiveVaryField q" using assms(1) q(1,2)
    by (auto simp: varyRejectionHeader_def sensitiveVaryHeader_def sensitiveVaryFields_def list_ex_iff
        split: if_splits)
  then show "\<not> EqualFold f ''cookie'' \<and> \<not> EqualFold f ''authorization''"
    using credential_name_sensitive q(3) by blast
  assume "policy = Some p"
  then have "header_lines valid r p 0 0 (vary_lines h)" using assms(1)
    by (auto simp: varyRejectionHeader_def varyRewriteReason_def split: if_splits)
  then show "f = ''*'' \<or> \<not> proxyVaryField valid r p f" using header_lines_ok q by blast
qed

end
