(* ===== verification/Cache_Tags.thy ===== *)
theory Cache_Tags
  imports Cache_Vary
begin

text \<open>
  \<^verbatim>\<open>src/internal/cache/tags.go\<close>: the grouping tags an origin attaches to a response. Parsing
  and validation within fixed bounds, the refusal of tags that look like credentials, and the
  union of tag sets.
\<close>

definition MaxTagsPerEntry :: nat where "MaxTagsPerEntry = 32"
definition MaxTagLength :: nat where "MaxTagLength = 128"
definition MaxTagBytesPerEntry :: nat where "MaxTagBytesPerEntry = 1024"
definition MaxRawTagHeaderBytes :: nat where "MaxRawTagHeaderBytes = 4096"

definition TagSkipInvalid :: string where "TagSkipInvalid = ''invalid''"
definition TagSkipOversize :: string where "TagSkipOversize = ''oversize''"

definition credential_words :: "string list" where
  "credential_words =
     [''bearer'', ''basic'', ''digest'', ''negotiate'', ''ntlm'', ''oauth'', ''aws4-hmac-sha256'']"

definition credential_prefixes :: "string list" where
  "credential_prefixes =
     [''bearer '', ''bearer'' @ [CHR 0x09], ''bearer:'', ''bearer_'', ''bearer-'',
      ''basic '', ''basic'' @ [CHR 0x09], ''basic:'', ''basic_'', ''basic-'',
      ''digest '', ''digest'' @ [CHR 0x09], ''digest:'',
      ''token '', ''token'' @ [CHR 0x09], ''token='', ''token:'', ''access_token='', ''refresh_token='',
      ''secret '', ''secret'' @ [CHR 0x09], ''secret='', ''secret:'', ''client_secret='',
      ''password='', ''passwd='', ''pwd='',
      ''apikey='', ''api_key='', ''api-key='',
      ''authorization='', ''authorization:'',
      ''cookie='', ''set-cookie='', ''session='', ''sessionid='', ''session_id='',
      ''ghp_'', ''gho_'', ''ghu_'', ''ghs_'', ''ghr_'', ''github_pat_'',
      ''sk-'', ''akia'']"

definition looksLikeCredentialTag :: "string \<Rightarrow> bool" where
  "looksLikeCredentialTag tag =
     (let lower = ToLower (TrimSpace tag) in
      lower \<in> set credential_words \<or> list_ex (HasPrefix lower) credential_prefixes \<or>
      (HasPrefix tag ''eyJ'' \<and> length (filter (\<lambda>c. c = CHR ''.'') tag) \<ge> 2 \<and> length tag \<ge> 24))"

datatype tag_error = errEmptyTag | errTagTooLong | errInvalidTagChr | errCredentialTag

definition tag_byte :: "char \<Rightarrow> bool" where
  "tag_byte c \<longleftrightarrow>
     0x21 \<le> (of_char c :: nat) \<and> (of_char c :: nat) \<le> 0x7E \<and>
     c \<noteq> CHR '','' \<and> c \<noteq> CHR '';'' \<and> c \<noteq> CHR 0x22 \<and> c \<noteq> CHR 0x27"

definition ValidateTag :: "string \<Rightarrow> tag_error option" where
  "ValidateTag tag =
     (if tag = [] then Some errEmptyTag
      else if length tag > MaxTagLength then Some errTagTooLong
      else if \<not> list_all tag_byte tag then Some errInvalidTagChr
      else if looksLikeCredentialTag tag then Some errCredentialTag
      else None)"

fun canon_tag_headers :: "string list \<Rightarrow> string list \<Rightarrow> string list" where
  "canon_tag_headers known [] = []"
| "canon_tag_headers known (raw # rs) =
     (let trimmed = TrimSpace raw; canon = CanonicalMIMEHeaderKey trimmed; lower = ToLower canon in
      if trimmed = [] \<or> lower \<in> set known then canon_tag_headers known rs
      else canon # canon_tag_headers (lower # known) rs)"

definition canonicalizeTagHeaders :: "string list \<Rightarrow> string list" where
  "canonicalizeTagHeaders headers = canon_tag_headers [] headers"

text \<open>\<^verbatim>\<open>strings.Fields\<close>.\<close>

fun ws_pieces :: "string \<Rightarrow> string list" where
  "ws_pieces [] = [[]]"
| "ws_pieces (c # s) =
     (if is_space c then [] # ws_pieces s
      else case ws_pieces s of p # ps \<Rightarrow> (c # p) # ps | [] \<Rightarrow> [[c]])"

definition Fields :: "string \<Rightarrow> string list" where
  "Fields s = filter (\<lambda>p. p \<noteq> []) (ws_pieces s)"

record tag_scan =
  ts_raw :: nat
  ts_collected :: "string list"
  ts_total :: nat

text \<open>The loops of \<^verbatim>\<open>extractOriginTags\<close>, from the inside out; \<open>Inl\<close> is the reason to skip.\<close>

definition scan_token :: "tag_scan \<Rightarrow> string \<Rightarrow> string + tag_scan" where
  "scan_token st tok =
     (if ValidateTag tok \<noteq> None then Inl TagSkipInvalid
      else if tok \<in> set (ts_collected st) then Inr st
      else
        (let st = st\<lparr>ts_collected := ts_collected st @ [tok]\<rparr> in
         if length (ts_collected st) > MaxTagsPerEntry then Inl TagSkipOversize
         else
           (let st = st\<lparr>ts_total := ts_total st + length tok\<rparr> in
            if ts_total st > MaxTagBytesPerEntry then Inl TagSkipOversize else Inr st)))"

fun scan_all :: "('s \<Rightarrow> 'a \<Rightarrow> string + 's) \<Rightarrow> 's \<Rightarrow> 'a list \<Rightarrow> string + 's" where
  "scan_all f st [] = Inr st"
| "scan_all f st (x # xs) = (case f st x of Inl er \<Rightarrow> Inl er | Inr st \<Rightarrow> scan_all f st xs)"

definition scan_part :: "tag_scan \<Rightarrow> string \<Rightarrow> string + tag_scan" where
  "scan_part st part0 =
     (let part = TrimSpace part0 in
      if part = [] \<or> looksLikeCredentialTag part then Inl TagSkipInvalid
      else scan_all scan_token st (Fields part))"

definition scan_line :: "tag_scan \<Rightarrow> string \<Rightarrow> string + tag_scan" where
  "scan_line st line =
     (let st = st\<lparr>ts_raw := ts_raw st + length line\<rparr>; trimmedLine = TrimSpace line in
      if ts_raw st > MaxRawTagHeaderBytes then Inl TagSkipOversize
      else if trimmedLine = [] then Inr st
      else if looksLikeCredentialTag trimmedLine then Inl TagSkipInvalid
      else scan_all scan_part st (Split trimmedLine (CHR '','')))"

text \<open>The tags, whether a tag header was present, and the reason to skip.\<close>

definition extractOriginTags :: "hdr \<Rightarrow> string list \<Rightarrow> string list \<times> bool \<times> string" where
  "extractOriginTags h tagHeaders =
     (let present = list_ex (\<lambda>n. hdr_Values h n \<noteq> []) tagHeaders in
      if h = [] \<or> tagHeaders = [] then ([], False, [])
      else case scan_all scan_line \<lparr>ts_raw = 0, ts_collected = [], ts_total = 0\<rparr>
                  (concat (map (hdr_Values h) tagHeaders)) of
             Inl reason \<Rightarrow> ([], True, reason)
           | Inr st \<Rightarrow> (sort (ts_collected st), present, []))"

definition stripTagHeaders :: "hdr \<Rightarrow> string list \<Rightarrow> hdr" where
  "stripTagHeaders h tagHeaders = foldl hdr_Del h tagHeaders"

text \<open>The inner loop of \<^verbatim>\<open>mergeTagSetsBounded\<close> ends at the first tag that does not fit.\<close>

fun merge_one :: "nat \<Rightarrow> nat \<Rightarrow> string list \<times> nat \<Rightarrow> string list \<Rightarrow> string list \<times> nat" where
  "merge_one maxCount maxBytes (out, tot) [] = (out, tot)"
| "merge_one maxCount maxBytes (out, tot) (t # ts) =
     (if t \<in> set out then merge_one maxCount maxBytes (out, tot) ts
      else if maxCount > 0 \<and> length out + 1 > maxCount \<or> maxBytes > 0 \<and> tot + length t > maxBytes
      then (out, tot)
      else merge_one maxCount maxBytes (out @ [t], tot + length t) ts)"

definition mergeTagSetsBounded :: "nat \<Rightarrow> nat \<Rightarrow> string list list \<Rightarrow> string list" where
  "mergeTagSetsBounded maxCount maxBytes sets = sort (fst (foldl (merge_one maxCount maxBytes) ([], 0) sets))"

definition mergeTagSets :: "string list list \<Rightarrow> string list" where
  "mergeTagSets sets = mergeTagSetsBounded MaxTagsPerEntry MaxTagBytesPerEntry sets"

definition mergeBaseTagSets :: "string list list \<Rightarrow> string list" where
  "mergeBaseTagSets sets = mergeTagSetsBounded 0 0 sets"

subsection \<open>The bounds hold\<close>

definition tags_within :: "nat \<Rightarrow> nat \<Rightarrow> string list \<Rightarrow> bool" where
  "tags_within maxCount maxBytes tags \<longleftrightarrow>
     distinct tags \<and> (maxCount > 0 \<longrightarrow> length tags \<le> maxCount) \<and>
     (maxBytes > 0 \<longrightarrow> sum_list (map length tags) \<le> maxBytes)"

definition tags_ok :: "string list \<Rightarrow> bool" where
  "tags_ok tags \<longleftrightarrow>
     sorted tags \<and> tags_within MaxTagsPerEntry MaxTagBytesPerEntry tags \<and>
     list_all (\<lambda>t. ValidateTag t = None) tags"

definition scan_ok :: "tag_scan \<Rightarrow> bool" where
  "scan_ok st \<longleftrightarrow>
     tags_within MaxTagsPerEntry MaxTagBytesPerEntry (ts_collected st) \<and>
     ts_total st = sum_list (map length (ts_collected st)) \<and>
     list_all (\<lambda>t. ValidateTag t = None) (ts_collected st)"

lemma scan_all_inv:
  assumes "\<And>st x st'. f st x = Inr st' \<Longrightarrow> P st \<Longrightarrow> P st'"
  shows "scan_all f st xs = Inr st' \<Longrightarrow> P st \<Longrightarrow> P st'"
  by (induction xs arbitrary: st) (auto split: sum.splits intro: assms)

lemma scan_token_ok: "scan_token st tok = Inr st' \<Longrightarrow> scan_ok st \<Longrightarrow> scan_ok st'"
  by (auto simp: scan_token_def scan_ok_def tags_within_def Let_def MaxTagsPerEntry_def MaxTagBytesPerEntry_def
      split: if_splits)

lemma scan_part_ok: "scan_part st part = Inr st' \<Longrightarrow> scan_ok st \<Longrightarrow> scan_ok st'"
  using scan_all_inv [of scan_token scan_ok, OF scan_token_ok] by (auto simp: scan_part_def Let_def split: if_splits)

lemma scan_line_ok: "scan_line st line = Inr st' \<Longrightarrow> scan_ok st \<Longrightarrow> scan_ok st'"
proof -
  assume s: "scan_line st line = Inr st'" and "scan_ok st"
  then have "scan_ok (st\<lparr>ts_raw := ts_raw st + length line\<rparr>)" by (simp add: scan_ok_def)
  then show ?thesis using s scan_all_inv [of scan_part scan_ok, OF scan_part_ok]
    by (auto simp: scan_line_def Let_def split: if_splits)
qed

lemma tags_within_sort: "tags_within maxCount maxBytes (sort tags) = tags_within maxCount maxBytes tags"
proof -
  have "sum_list (map length (sort tags)) = sum_list (map length tags)"
    by (metis mset_map mset_sort sum_mset_sum_list)
  then show ?thesis by (simp add: tags_within_def)
qed

text \<open>Whatever an origin sends, the tags of an entry are sorted, distinct, at most 32 with at most
  1024 bytes together, and each of them is a valid tag that does not look like a credential.\<close>

lemma extractOriginTags_ok: "tags_ok (fst (extractOriginTags h tagHeaders))"
proof -
  have empty: "scan_ok \<lparr>ts_raw = 0, ts_collected = [], ts_total = 0\<rparr>" "tags_ok []"
    by (simp_all add: scan_ok_def tags_ok_def tags_within_def)
  have "scan_ok st" if "scan_all scan_line \<lparr>ts_raw = 0, ts_collected = [], ts_total = 0\<rparr>
    (concat (map (hdr_Values h) tagHeaders)) = Inr st" for st
    by (rule scan_all_inv [of scan_line scan_ok, OF _ that empty(1)]) (rule scan_line_ok)
  then show ?thesis using empty(2)
    by (auto simp: extractOriginTags_def Let_def scan_ok_def tags_ok_def tags_within_sort list_all_iff
        split: sum.split)
qed

lemma merge_one_inv:
  assumes "merge_one maxCount maxBytes (out, tot) ts = (out', tot')"
    and "tags_within maxCount maxBytes out" and "tot = sum_list (map length out)"
  shows "tags_within maxCount maxBytes out' \<and> tot' = sum_list (map length out') \<and> set out \<subseteq> set out'
    \<and> set out' \<subseteq> set out \<union> set ts"
  using assms
proof (induction ts arbitrary: out tot)
  case (Cons t ts)
  show ?case
  proof (cases "t \<in> set out")
    case True
    then show ?thesis using Cons.IH [of out tot] Cons.prems by auto
  next
    case new: False
    show ?thesis
    proof (cases "maxCount > 0 \<and> length out + 1 > maxCount \<or> maxBytes > 0 \<and> tot + length t > maxBytes")
      case True
      then show ?thesis using new Cons.prems by auto
    next
      case False
      then have "tags_within maxCount maxBytes (out @ [t])" using new Cons.prems by (auto simp: tags_within_def)
      moreover have "merge_one maxCount maxBytes (out @ [t], tot + length t) ts = (out', tot')"
        using False new Cons.prems(1) by (simp only: merge_one.simps if_False)
      ultimately show ?thesis using Cons.IH [of "out @ [t]" "tot + length t"] Cons.prems(3) by auto
    qed
  qed
qed simp

lemma merge_all_inv:
  assumes "foldl (merge_one maxCount maxBytes) (out, tot) sets = (out', tot')"
    and "tags_within maxCount maxBytes out" and "tot = sum_list (map length out)"
  shows "tags_within maxCount maxBytes out' \<and> set out' \<subseteq> set out \<union> \<Union> (set (map set sets))"
  using assms
proof (induction sets arbitrary: out tot)
  case (Cons ts sets)
  obtain o1 t1 where one: "merge_one maxCount maxBytes (out, tot) ts = (o1, t1)" by fastforce
  from merge_one_inv [OF one Cons.prems(2,3)] Cons.IH [of o1 t1] Cons.prems(1) one show ?case by auto
qed simp

lemma mergeTagSets_ok:
  "tags_within MaxTagsPerEntry MaxTagBytesPerEntry (mergeTagSets sets) \<and> set (mergeTagSets sets) \<subseteq> \<Union> (set (map set sets))"
proof -
  obtain out tot where f: "foldl (merge_one MaxTagsPerEntry MaxTagBytesPerEntry) ([], 0) sets = (out, tot)"
    by fastforce
  then show ?thesis using merge_all_inv [OF f]
    by (simp add: mergeTagSets_def mergeTagSetsBounded_def tags_within_sort) (simp add: tags_within_def)
qed

lemma merge_one_unbounded: "set (fst (merge_one 0 0 (out, tot) ts)) = set out \<union> set ts"
  by (induction ts arbitrary: out tot) auto

text \<open>Without bounds nothing is lost.\<close>

lemma mergeBaseTagSets_union: "set (mergeBaseTagSets sets) = \<Union> (set (map set sets))"
proof -
  have "set (fst (foldl (merge_one 0 0) (out, tot) sets)) = set out \<union> \<Union> (set (map set sets))" for out tot
  proof (induction sets arbitrary: out tot)
    case (Cons ts sets)
    obtain o1 t1 where "merge_one 0 0 (out, tot) ts = (o1, t1)" by fastforce
    then show ?case using Cons.IH [of o1 t1] merge_one_unbounded [of out tot ts] by auto
  qed simp
  then show ?thesis by (simp add: mergeBaseTagSets_def mergeTagSetsBounded_def)
qed

end
