(* ===== verification/Memstore.thy ===== *)
theory Memstore
  imports Cache_Entry
begin

text \<open>
  \<^verbatim>\<open>src/internal/cache/memstore.go\<close>: the memory tier of the response cache, a byte-bounded
  LRU store.

  The code keeps a doubly linked list and a map from keys to list elements; both share the
  items. The model keeps that sharing: list elements are addresses, an item lives in a heap of
  addresses, and the map leads to addresses. The abstract store is the list of items alone, most
  recently used first. Sizes are mathematical integers; the code's \<^verbatim>\<open>int64\<close> counters stay
  below the byte cap plus the size of one entry.

  Every operation runs under the store's mutex and is one step. The hooks that receive evicted
  items are represented by the list of victims, in the order the hooks are called.
\<close>

record memItem =
  mi_key :: string
  mi_entry :: Entry
  mi_size :: int
  mi_gen :: uint64

record memStore =
  ms_maxBytes :: int
  ms_curBytes :: int
  ms_evictions :: int
  ms_ll :: "nat list"
  ms_items :: "string \<rightharpoonup> nat"
  ms_heap :: "nat \<Rightarrow> memItem"
  ms_next :: nat

definition default_cap :: int where
  "default_cap = 64 * 2 ^ 20"

definition no_item :: memItem where
  "no_item =
     \<lparr>mi_key = [],
      mi_entry = zero_Entry,
      mi_size = 0, mi_gen = 0\<rparr>"

definition newMemStore :: "int \<Rightarrow> memStore" where
  "newMemStore maxBytes =
     \<lparr>ms_maxBytes = (if maxBytes \<le> 0 then default_cap else maxBytes), ms_curBytes = 0, ms_evictions = 0,
      ms_ll = [], ms_items = Map.empty, ms_heap = (\<lambda>_. no_item), ms_next = 0\<rparr>"

definition hasKey :: "memStore \<Rightarrow> string \<Rightarrow> bool" where
  "hasKey m key \<longleftrightarrow> ms_items m key \<noteq> None"

definition MoveToFront :: "nat \<Rightarrow> nat list \<Rightarrow> nat list" where
  "MoveToFront a ll = a # remove1 a ll"

definition getWithGen :: "memStore \<Rightarrow> string \<Rightarrow> (Entry \<times> uint64) option \<times> memStore" where
  "getWithGen m key =
     (case ms_items m key of
        None \<Rightarrow> (None, m)
      | Some el \<Rightarrow>
          (Some (mi_entry (ms_heap m el), mi_gen (ms_heap m el)), m\<lparr>ms_ll := MoveToFront el (ms_ll m)\<rparr>))"

definition remove_element :: "memStore \<Rightarrow> nat \<Rightarrow> memStore" where
  "remove_element m el =
     m\<lparr>ms_ll := remove1 el (ms_ll m), ms_items := (ms_items m)(mi_key (ms_heap m el) := None),
       ms_curBytes := ms_curBytes m - mi_size (ms_heap m el)\<rparr>"

function evict_loop :: "memStore \<Rightarrow> memItem list \<Rightarrow> memItem list \<times> memStore" where
  "evict_loop m victims =
     (if ms_curBytes m > ms_maxBytes m \<and> ms_ll m \<noteq> [] then
        (let el = last (ms_ll m) in evict_loop (remove_element m el) (victims @ [ms_heap m el]))
      else (victims, m))"
  by auto
termination
  by (relation "measure (\<lambda>(m, _). length (ms_ll m))")
     (auto simp: remove_element_def length_remove1)

declare evict_loop.simps [simp del]

definition evictLocked :: "memStore \<Rightarrow> memItem list \<times> memStore" where
  "evictLocked m =
     (case evict_loop m [] of
        (victims, m') \<Rightarrow> (victims, m'\<lparr>ms_evictions := ms_evictions m' + int (length victims)\<rparr>))"

definition putWithGen :: "memStore \<Rightarrow> string \<Rightarrow> Entry \<Rightarrow> uint64 \<Rightarrow> memItem list \<times> memStore" where
  "putWithGen m key e gen =
     (let size = entry_Size e + int (length key) in
      evictLocked
        (case ms_items m key of
           Some el \<Rightarrow>
             (let it = ms_heap m el in
              m\<lparr>ms_curBytes := ms_curBytes m + (size - mi_size it),
                ms_heap := (ms_heap m)(el := it\<lparr>mi_entry := e, mi_size := size,
                                                mi_gen := (if gen \<noteq> 0 then gen else mi_gen it)\<rparr>),
                ms_ll := MoveToFront el (ms_ll m)\<rparr>)
         | None \<Rightarrow>
             m\<lparr>ms_heap := (ms_heap m)(ms_next m := \<lparr>mi_key = key, mi_entry = e, mi_size = size, mi_gen = gen\<rparr>),
               ms_ll := ms_next m # ms_ll m, ms_items := (ms_items m)(key \<mapsto> ms_next m),
               ms_next := Suc (ms_next m), ms_curBytes := ms_curBytes m + size\<rparr>))"

definition mem_put :: "memStore \<Rightarrow> string \<Rightarrow> Entry \<Rightarrow> memItem list \<times> memStore" where
  "mem_put m key e = putWithGen m key e 0"

definition mem_stats :: "memStore \<Rightarrow> int \<times> int \<times> nat \<times> int" where
  "mem_stats m = (ms_curBytes m, ms_maxBytes m, length (ms_ll m), ms_evictions m)"

definition delIfGenAtMost :: "memStore \<Rightarrow> string \<Rightarrow> uint64 \<Rightarrow> bool \<times> memStore" where
  "delIfGenAtMost m key maxGen =
     (case ms_items m key of
        Some el \<Rightarrow>
          if maxGen \<noteq> - 1 \<and> mi_gen (ms_heap m el) > maxGen then (False, m)
          else (True, remove_element m el)
      | None \<Rightarrow> (False, m))"

definition mem_del :: "memStore \<Rightarrow> string \<Rightarrow> memStore" where
  "mem_del m key = snd (delIfGenAtMost m key (- 1))"

definition mem_purge :: "memStore \<Rightarrow> memStore" where
  "mem_purge m = m\<lparr>ms_ll := [], ms_items := Map.empty, ms_curBytes := 0\<rparr>"

definition mem_Resize :: "memStore \<Rightarrow> int \<Rightarrow> (nat \<times> int) \<times> memItem list \<times> memStore" where
  "mem_Resize m maxBytes =
     (case evictLocked (m\<lparr>ms_maxBytes := (if maxBytes \<le> 0 then default_cap else maxBytes)\<rparr>) of
        (victims, m') \<Rightarrow> ((length victims, sum_list (map mi_size victims)), victims, m'))"

subsection \<open>The abstract store\<close>

record lru =
  lru_cap :: int
  lru_items :: "memItem list"
  lru_evicted :: int

definition lru_new :: "int \<Rightarrow> lru" where
  "lru_new cap = \<lparr>lru_cap = (if cap \<le> 0 then default_cap else cap), lru_items = [], lru_evicted = 0\<rparr>"

definition lru_bytes :: "memItem list \<Rightarrow> int" where
  "lru_bytes its = sum_list (map mi_size its)"

definition lru_find :: "memItem list \<Rightarrow> string \<Rightarrow> memItem option" where
  "lru_find its key = find (\<lambda>i. mi_key i = key) its"

definition lru_without :: "memItem list \<Rightarrow> string \<Rightarrow> memItem list" where
  "lru_without its key = filter (\<lambda>i. mi_key i \<noteq> key) its"

text \<open>What fits: the longest initial part within the cap; the rest is evicted, last first.\<close>

fun lru_fit :: "int \<Rightarrow> memItem list \<Rightarrow> nat" where
  "lru_fit cap [] = 0"
| "lru_fit cap (i # its) = (if mi_size i > cap then 0 else Suc (lru_fit (cap - mi_size i) its))"

definition lru_trim :: "lru \<Rightarrow> memItem list \<times> lru" where
  "lru_trim s =
     (let n = lru_fit (lru_cap s) (lru_items s); victims = rev (drop n (lru_items s)) in
      (victims, s\<lparr>lru_items := take n (lru_items s), lru_evicted := lru_evicted s + int (length victims)\<rparr>))"

definition lru_get :: "lru \<Rightarrow> string \<Rightarrow> (Entry \<times> uint64) option \<times> lru" where
  "lru_get s key =
     (case lru_find (lru_items s) key of
        None \<Rightarrow> (None, s)
      | Some i \<Rightarrow> (Some (mi_entry i, mi_gen i), s\<lparr>lru_items := i # lru_without (lru_items s) key\<rparr>))"

definition lru_put :: "lru \<Rightarrow> string \<Rightarrow> Entry \<Rightarrow> uint64 \<Rightarrow> memItem list \<times> lru" where
  "lru_put s key e gen =
     (let gen' = (if gen \<noteq> 0 then gen else case lru_find (lru_items s) key of None \<Rightarrow> 0 | Some i \<Rightarrow> mi_gen i);
          new = \<lparr>mi_key = key, mi_entry = e, mi_size = entry_Size e + int (length key), mi_gen = gen'\<rparr> in
      lru_trim (s\<lparr>lru_items := new # lru_without (lru_items s) key\<rparr>))"

definition lru_del :: "lru \<Rightarrow> string \<Rightarrow> uint64 \<Rightarrow> bool \<times> lru" where
  "lru_del s key maxGen =
     (case lru_find (lru_items s) key of
        None \<Rightarrow> (False, s)
      | Some i \<Rightarrow>
          if maxGen \<noteq> - 1 \<and> mi_gen i > maxGen then (False, s)
          else (True, s\<lparr>lru_items := lru_without (lru_items s) key\<rparr>))"

definition lru_resize :: "lru \<Rightarrow> int \<Rightarrow> memItem list \<times> lru" where
  "lru_resize s cap = lru_trim (s\<lparr>lru_cap := (if cap \<le> 0 then default_cap else cap)\<rparr>)"

subsection \<open>Invariant\<close>

definition ms_inv :: "memStore \<Rightarrow> bool" where
  "ms_inv m \<longleftrightarrow>
     distinct (ms_ll m) \<and> (\<forall>a \<in> set (ms_ll m). a < ms_next m \<and> mi_size (ms_heap m a) > 0) \<and>
     (\<forall>k a. ms_items m k = Some a \<longleftrightarrow> a \<in> set (ms_ll m) \<and> mi_key (ms_heap m a) = k) \<and>
     ms_curBytes m = lru_bytes (map (ms_heap m) (ms_ll m)) \<and> ms_maxBytes m > 0"

definition lru_of :: "memStore \<Rightarrow> lru" where
  "lru_of m =
     \<lparr>lru_cap = ms_maxBytes m, lru_items = map (ms_heap m) (ms_ll m), lru_evicted = ms_evictions m\<rparr>"

lemma entry_Size_pos: "entry_Size e > 0"
  by (simp add: entry_Size_def)

lemma lru_bytes_simps [simp]:
  "lru_bytes [] = 0" "lru_bytes (i # is) = mi_size i + lru_bytes is"
  "lru_bytes (is @ js) = lru_bytes is + lru_bytes js"
  by (simp_all add: lru_bytes_def)

lemma bytes_remove1:
  "a \<in> set ll \<Longrightarrow> lru_bytes (map h (remove1 a ll)) = lru_bytes (map h ll) - mi_size (h a)"
  by (induction ll) auto

lemma find_distinct:
  assumes "\<And>k a. items k = Some a \<longleftrightarrow> a \<in> set ll \<and> mi_key (h a) = k"
  shows "lru_find (map h ll) key = map_option h (items key)"
proof (cases "items key")
  case None
  then have "\<forall>a \<in> set ll. mi_key (h a) \<noteq> key" using assms by (metis option.distinct(1))
  with None show ?thesis by (auto simp: lru_find_def find_None_iff)
next
  case (Some a)
  obtain i where i: "lru_find (map h ll) key = Some i"
    using Some assms [of key a] by (cases "lru_find (map h ll) key") (auto simp: lru_find_def find_None_iff)
  then obtain b where "b \<in> set ll" "i = h b" "mi_key i = key"
    by (auto simp: lru_find_def find_Some_iff in_set_conv_nth) (metis nth_mem)
  with Some assms have "b = a" by (metis option.inject)
  with i Some \<open>i = h b\<close> show ?thesis by simp
qed

lemma without_remove1:
  assumes "\<And>k a. items k = Some a \<longleftrightarrow> a \<in> set ll \<and> mi_key (h a) = k" and "distinct ll"
  shows "lru_without (map h ll) key =
    (case items key of None \<Rightarrow> map h ll | Some a \<Rightarrow> map h (remove1 a ll))"
proof (cases "items key")
  case None
  then have "\<forall>a \<in> set ll. mi_key (h a) \<noteq> key" using assms(1) by (metis option.distinct(1))
  with None show ?thesis by (auto simp: lru_without_def filter_map comp_def)
next
  case (Some a)
  have "\<forall>b \<in> set ll. mi_key (h b) \<noteq> key \<longleftrightarrow> b \<noteq> a" using Some assms(1) by (metis option.inject)
  then have "filter (\<lambda>b. mi_key (h b) \<noteq> key) ll = remove1 a ll"
    using assms(2) by (simp add: distinct_remove1_removeAll removeAll_filter_not_eq cong: filter_cong) (metis filter_cong)
  with Some show ?thesis by (simp add: lru_without_def filter_map comp_def)
qed

lemma lru_fit_snoc: "lru_bytes (ys @ [i]) > cap \<Longrightarrow> lru_fit cap (ys @ [i]) = lru_fit cap ys"
  by (induction ys arbitrary: cap) auto

lemma lru_fit_le: "lru_fit cap ys \<le> length ys"
  by (induction ys arbitrary: cap) auto

lemma lru_bytes_nonneg: "\<forall>i \<in> set ys. mi_size i > 0 \<Longrightarrow> lru_bytes ys \<ge> 0"
  by (induction ys) auto

lemma lru_fit_all: "lru_bytes ys \<le> cap \<Longrightarrow> \<forall>i \<in> set ys. mi_size i > 0 \<Longrightarrow> lru_fit cap ys = length ys"
proof (induction ys arbitrary: cap)
  case (Cons i ys)
  then show ?case using lru_bytes_nonneg [of ys] by simp
qed simp

lemma remove_element_inv:
  assumes "ms_inv m" and "el \<in> set (ms_ll m)"
  shows "ms_inv (remove_element m el)"
proof -
  note I = assms(1) [unfolded ms_inv_def]
  have "ms_items (remove_element m el) k = Some a \<longleftrightarrow>
      a \<in> set (ms_ll (remove_element m el)) \<and> mi_key (ms_heap (remove_element m el) a) = k" for k a
    using I assms(2) by (auto simp: remove_element_def) (metis option.inject)
  then show ?thesis using I assms(2) by (auto simp: ms_inv_def remove_element_def bytes_remove1)
qed

lemma evict_loop_spec:
  assumes "ms_inv m"
  defines "n \<equiv> lru_fit (ms_maxBytes m) (map (ms_heap m) (ms_ll m))"
  shows "evict_loop m v = (v @ rev (drop n (map (ms_heap m) (ms_ll m))), snd (evict_loop m v)) \<and>
    ms_inv (snd (evict_loop m v)) \<and>
    lru_of (snd (evict_loop m v)) = (lru_of m)\<lparr>lru_items := take n (map (ms_heap m) (ms_ll m))\<rparr> \<and>
    ms_curBytes (snd (evict_loop m v)) \<le> ms_maxBytes (snd (evict_loop m v))"
  using assms(1) unfolding n_def
proof (induction m v rule: evict_loop.induct)
  case (1 m v)
  note I = "1.prems" [unfolded ms_inv_def]
  show ?case
  proof (cases "ms_curBytes m > ms_maxBytes m \<and> ms_ll m \<noteq> []")
    case True
    then obtain xs a where xs: "ms_ll m = xs @ [a]" by (meson rev_exhaust)
    let ?m = "remove_element m a" and ?h = "ms_heap m"
    have r: "ms_ll ?m = xs" "ms_heap ?m = ?h" "ms_maxBytes ?m = ms_maxBytes m" "ms_evictions ?m = ms_evictions m"
      using xs I by (auto simp: remove_element_def remove1_append)
    have inv: "ms_inv ?m" using remove_element_inv [OF "1.prems"] xs by simp
    have step: "evict_loop m v = evict_loop ?m (v @ [?h a])"
      using True xs by (subst evict_loop.simps) simp
    have fit: "lru_fit (ms_maxBytes m) (map ?h xs @ [?h a]) = lru_fit (ms_maxBytes m) (map ?h xs)"
      using lru_fit_snoc [of "ms_maxBytes m" "map ?h xs" "?h a"] I True xs by simp
    have la: "a = last (ms_ll m)" using xs by simp
    note IH = "1.IH" [OF True la inv, unfolded r]
    show ?thesis
      using IH lru_fit_le [of "ms_maxBytes m" "map ?h xs"] unfolding step
      by (simp add: xs fit lru_of_def r)
  next
    case False
    then have stop: "evict_loop m v = (v, m)" by (subst evict_loop.simps) auto
    have le: "ms_curBytes m \<le> ms_maxBytes m" using False I by auto
    then have "lru_fit (ms_maxBytes m) (map (ms_heap m) (ms_ll m)) = length (ms_ll m)"
      using lru_fit_all [of "map (ms_heap m) (ms_ll m)" "ms_maxBytes m"] I by simp
    with stop le "1.prems" show ?thesis by (simp add: lru_of_def)
  qed
qed

lemma evictLocked_refines:
  assumes "ms_inv m" and "evictLocked m = (victims, m')"
  shows "(victims, lru_of m') = lru_trim (lru_of m) \<and> ms_inv m' \<and> ms_curBytes m' \<le> ms_maxBytes m'"
proof -
  obtain v2 m2 where e: "evict_loop m [] = (v2, m2)" by fastforce
  note S = evict_loop_spec [OF assms(1), of "[]", unfolded e snd_conv]
  from assms(2) e have "victims = v2" "m' = m2\<lparr>ms_evictions := ms_evictions m2 + int (length v2)\<rparr>"
    by (auto simp: evictLocked_def)
  with S show ?thesis by (auto simp: lru_trim_def lru_of_def ms_inv_def Let_def)
qed

subsection \<open>Refinement\<close>

primrec run_ops :: "('s \<Rightarrow> 'e \<Rightarrow> 'o \<times> 's) \<Rightarrow> 's \<Rightarrow> 'e list \<Rightarrow> 'o list \<times> 's" where
  "run_ops exec s [] = ([], s)"
| "run_ops exec s (e # es) =
     (case exec s e of (o', s') \<Rightarrow> case run_ops exec s' es of (os, s'') \<Rightarrow> (o' # os, s''))"

text \<open>A machine implements another one when an abstraction commutes with every event, outputs
  included, on the states its invariant allows.\<close>

locale functional_refinement =
  fixes cexec :: "'s \<Rightarrow> 'e \<Rightarrow> 'o \<times> 's"
    and aexec :: "'t \<Rightarrow> 'e \<Rightarrow> 'o \<times> 't"
    and abs :: "'s \<Rightarrow> 't"
    and inv :: "'s \<Rightarrow> bool"
  assumes step_refines: "inv s \<Longrightarrow> aexec (abs s) e = (fst (cexec s e), abs (snd (cexec s e)))"
    and step_inv: "inv s \<Longrightarrow> inv (snd (cexec s e))"
begin

lemma run_refines:
  "inv s \<Longrightarrow> run_ops aexec (abs s) es = (fst (run_ops cexec s es), abs (snd (run_ops cexec s es))) \<and>
     inv (snd (run_ops cexec s es))"
proof (induction es arbitrary: s)
  case (Cons e es)
  obtain o' s' where c: "cexec s e = (o', s')" by fastforce
  with step_refines [OF Cons.prems, of e] step_inv [OF Cons.prems, of e] Cons.IH [of s']
  show ?case by (auto split: prod.splits)
qed simp

end

datatype mem_op =
  OpHas string
| OpGet string
| OpPut string Entry uint64
| OpDel string uint64
| OpPurge
| OpResize int

datatype mem_out =
  Has bool
| Got "(Entry \<times> uint64) option"
| Victims "memItem list"
| Deleted bool
| Purged

text \<open>The operations of the store, and those of the specification, as steps with an output.\<close>

fun mem_exec :: "memStore \<Rightarrow> mem_op \<Rightarrow> mem_out \<times> memStore" where
  "mem_exec m (OpHas k) = (Has (hasKey m k), m)"
| "mem_exec m (OpGet k) = (case getWithGen m k of (r, m') \<Rightarrow> (Got r, m'))"
| "mem_exec m (OpPut k e g) = (case putWithGen m k e g of (vs, m') \<Rightarrow> (Victims vs, m'))"
| "mem_exec m (OpDel k g) = (case delIfGenAtMost m k g of (b, m') \<Rightarrow> (Deleted b, m'))"
| "mem_exec m OpPurge = (Purged, mem_purge m)"
| "mem_exec m (OpResize c) = (case mem_Resize m c of (_, vs, m') \<Rightarrow> (Victims vs, m'))"

fun lru_exec :: "lru \<Rightarrow> mem_op \<Rightarrow> mem_out \<times> lru" where
  "lru_exec s (OpHas k) = (Has (lru_find (lru_items s) k \<noteq> None), s)"
| "lru_exec s (OpGet k) = (case lru_get s k of (r, s') \<Rightarrow> (Got r, s'))"
| "lru_exec s (OpPut k e g) = (case lru_put s k e g of (vs, s') \<Rightarrow> (Victims vs, s'))"
| "lru_exec s (OpDel k g) = (case lru_del s k g of (b, s') \<Rightarrow> (Deleted b, s'))"
| "lru_exec s OpPurge = (Purged, s\<lparr>lru_items := []\<rparr>)"
| "lru_exec s (OpResize c) = (case lru_resize s c of (vs, s') \<Rightarrow> (Victims vs, s'))"

definition mem_ok :: "memStore \<Rightarrow> bool" where
  "mem_ok m \<longleftrightarrow> ms_inv m \<and> ms_curBytes m \<le> ms_maxBytes m"

lemma items_iff: "ms_inv m \<Longrightarrow> ms_items m k = Some a \<longleftrightarrow> a \<in> set (ms_ll m) \<and> mi_key (ms_heap m a) = k"
  by (simp add: ms_inv_def)

lemma lru_find_of: "ms_inv m \<Longrightarrow> lru_find (map (ms_heap m) (ms_ll m)) k = map_option (ms_heap m) (ms_items m k)"
  using find_distinct [of "ms_items m" "ms_ll m" "ms_heap m" k] by (simp add: lru_of_def ms_inv_def)

lemma lru_without_of:
  "ms_inv m \<Longrightarrow> lru_without (map (ms_heap m) (ms_ll m)) k =
     (case ms_items m k of None \<Rightarrow> map (ms_heap m) (ms_ll m) | Some a \<Rightarrow> map (ms_heap m) (remove1 a (ms_ll m)))"
  using without_remove1 [of "ms_items m" "ms_ll m" "ms_heap m" k] by (simp add: lru_of_def ms_inv_def)

lemma getWithGen_refines:
  assumes "ms_inv m" and "getWithGen m k = (r, m')"
  shows "lru_get (lru_of m) k = (r, lru_of m') \<and> ms_inv m' \<and> ms_curBytes m' = ms_curBytes m \<and> ms_maxBytes m' = ms_maxBytes m"
proof (cases "ms_items m k")
  case None
  with assms show ?thesis by (auto simp: getWithGen_def lru_get_def lru_find_of lru_of_def)
next
  case (Some a)
  then have a: "a \<in> set (ms_ll m)" using assms(1) by (simp add: items_iff)
  have m': "m' = m\<lparr>ms_ll := MoveToFront a (ms_ll m)\<rparr>" "r = Some (mi_entry (ms_heap m a), mi_gen (ms_heap m a))"
    using assms(2) Some by (auto simp: getWithGen_def)
  have "ms_inv m'"
    using assms(1) a by (auto simp: m'(1) ms_inv_def MoveToFront_def bytes_remove1)
  moreover have "lru_get (lru_of m) k = (r, lru_of m')"
    using Some assms(1) by (simp add: lru_get_def lru_find_of lru_without_of m' lru_of_def MoveToFront_def)
  ultimately show ?thesis by (simp add: m'(1))
qed

lemma putWithGen_refines:
  assumes "ms_inv m" and "putWithGen m k e g = (vs, m')"
  shows "lru_put (lru_of m) k e g = (vs, lru_of m') \<and> mem_ok m'"
proof -
  define size where "size = entry_Size e + int (length k)"
  have pos: "size > 0" using entry_Size_pos [of e] by (simp add: size_def)
  define m1 where "m1 = (case ms_items m k of
      Some el \<Rightarrow> m\<lparr>ms_curBytes := ms_curBytes m + (size - mi_size (ms_heap m el)),
          ms_heap := (ms_heap m)(el := (ms_heap m el)\<lparr>mi_entry := e, mi_size := size,
            mi_gen := (if g \<noteq> 0 then g else mi_gen (ms_heap m el))\<rparr>),
          ms_ll := MoveToFront el (ms_ll m)\<rparr>
    | None \<Rightarrow> m\<lparr>ms_heap := (ms_heap m)(ms_next m := \<lparr>mi_key = k, mi_entry = e, mi_size = size, mi_gen = g\<rparr>),
          ms_ll := ms_next m # ms_ll m, ms_items := (ms_items m)(k \<mapsto> ms_next m),
          ms_next := Suc (ms_next m), ms_curBytes := ms_curBytes m + size\<rparr>)"
  have ev: "evictLocked m1 = (vs, m')"
    using assms(2) unfolding putWithGen_def Let_def m1_def size_def by assumption
  have "ms_inv m1 \<and> lru_put (lru_of m) k e g = lru_trim (lru_of m1)"
  proof (cases "ms_items m k")
    case None
    then have fresh: "ms_next m \<notin> set (ms_ll m)" "\<forall>a \<in> set (ms_ll m). mi_key (ms_heap m a) \<noteq> k"
      using assms(1) by (auto simp: ms_inv_def) (metis option.distinct(1))
    then have same: "map ((ms_heap m)(ms_next m := it)) (ms_ll m) = map (ms_heap m) (ms_ll m)" for it by auto
    have "ms_inv m1"
      using assms(1) None fresh pos same by (auto simp: m1_def ms_inv_def less_Suc_eq)
    moreover have "lru_put (lru_of m) k e g = lru_trim (lru_of m1)"
      using assms(1) None fresh(1) by (simp add: lru_put_def lru_find_of lru_without_of Let_def m1_def lru_of_def size_def)
    ultimately show ?thesis by blast
  next
    case (Some a)
    then have a: "a \<in> set (ms_ll m)" "mi_key (ms_heap m a) = k" using assms(1) by (simp_all add: items_iff)
    let ?it = "(ms_heap m a)\<lparr>mi_entry := e, mi_size := size, mi_gen := (if g \<noteq> 0 then g else mi_gen (ms_heap m a))\<rparr>"
    have gone: "a \<notin> set (remove1 a (ms_ll m))" using assms(1) by (simp add: ms_inv_def)
    have rest: "map ((ms_heap m)(a := ?it)) (remove1 a (ms_ll m)) = map (ms_heap m) (remove1 a (ms_ll m))"
      using assms(1) by (auto simp: ms_inv_def)
    have f: "ms_ll m1 = a # remove1 a (ms_ll m)" "ms_items m1 = ms_items m" "ms_heap m1 = (ms_heap m)(a := ?it)"
      "ms_curBytes m1 = ms_curBytes m + (size - mi_size (ms_heap m a))" "ms_next m1 = ms_next m"
      "ms_maxBytes m1 = ms_maxBytes m"
      by (simp_all add: m1_def Some MoveToFront_def)
    have "lru_bytes (map (ms_heap m1) (ms_ll m1)) = ms_curBytes m1"
      using assms(1) a(1) rest by (simp add: f ms_inv_def bytes_remove1)
    moreover have "mi_key (ms_heap m1 b) = mi_key (ms_heap m b)" for b by (simp add: f)
    moreover have "set (ms_ll m1) = set (ms_ll m)" "distinct (ms_ll m1)"
      using assms(1) a(1) by (auto simp: f ms_inv_def)
    moreover have "\<forall>b \<in> set (ms_ll m). mi_size (ms_heap m1 b) > 0" using assms(1) pos by (simp add: f ms_inv_def)
    ultimately have "ms_inv m1" using assms(1) f(2,5,6) by (simp add: ms_inv_def)
    moreover have "?it = \<lparr>mi_key = k, mi_entry = e, mi_size = size, mi_gen = (if g \<noteq> 0 then g else mi_gen (ms_heap m a))\<rparr>"
      using a(2) by (cases "ms_heap m a") simp
    then have "lru_put (lru_of m) k e g = lru_trim (lru_of m1)"
      using assms(1) Some gone
      by (simp add: lru_put_def lru_find_of lru_without_of Let_def m1_def lru_of_def size_def MoveToFront_def)
    ultimately show ?thesis by blast
  qed
  with evictLocked_refines [OF _ ev] show ?thesis by (auto simp: mem_ok_def)
qed

lemma delIfGenAtMost_refines:
  assumes "mem_ok m" and "delIfGenAtMost m k g = (b, m')"
  shows "lru_del (lru_of m) k g = (b, lru_of m') \<and> mem_ok m'"
proof (cases "ms_items m k")
  case None
  with assms show ?thesis by (auto simp: delIfGenAtMost_def lru_del_def lru_find_of mem_ok_def lru_of_def)
next
  case (Some a)
  have inv: "ms_inv m" using assms(1) by (simp add: mem_ok_def)
  have a: "a \<in> set (ms_ll m)" using Some inv by (simp add: items_iff)
  have pos: "mi_size (ms_heap m a) > 0" using inv a by (simp add: ms_inv_def)
  have "mem_ok (remove_element m a)"
    using remove_element_inv [OF inv a] assms(1) pos by (simp add: mem_ok_def remove_element_def)
  with Some assms inv show ?thesis
    by (auto simp: delIfGenAtMost_def lru_del_def lru_find_of lru_without_of remove_element_def lru_of_def split: if_splits)
qed

lemma mem_Resize_refines:
  assumes "ms_inv m" and "mem_Resize m c = (r, vs, m')"
  shows "lru_resize (lru_of m) c = (vs, lru_of m') \<and> mem_ok m' \<and> r = (length vs, lru_bytes vs)"
proof -
  let ?m = "m\<lparr>ms_maxBytes := (if c \<le> 0 then default_cap else c)\<rparr>"
  have "ms_inv ?m" using assms(1) by (auto simp: ms_inv_def default_cap_def)
  moreover have e: "evictLocked ?m = (vs, m')" "r = (length vs, lru_bytes vs)"
    using assms(2) by (auto simp: mem_Resize_def lru_bytes_def split: prod.splits)
  moreover have "lru_of ?m = (lru_of m)\<lparr>lru_cap := (if c \<le> 0 then default_cap else c)\<rparr>" by (simp add: lru_of_def)
  ultimately show ?thesis using evictLocked_refines [OF _ e(1)] by (auto simp: lru_resize_def mem_ok_def)
qed

lemma mem_exec_refines:
  assumes "mem_ok m"
  shows "lru_exec (lru_of m) op = (fst (mem_exec m op), lru_of (snd (mem_exec m op))) \<and> mem_ok (snd (mem_exec m op))"
proof (cases op)
  case (OpHas k)
  with assms show ?thesis by (simp add: hasKey_def lru_find_of mem_ok_def lru_of_def)
next
  case (OpGet k)
  obtain r m' where g: "getWithGen m k = (r, m')" by fastforce
  with OpGet getWithGen_refines [OF _ g] assms show ?thesis by (auto simp: mem_ok_def)
next
  case (OpPut k e g)
  obtain vs m' where p: "putWithGen m k e g = (vs, m')" by fastforce
  with OpPut putWithGen_refines [OF _ p] assms show ?thesis by (auto simp: mem_ok_def)
next
  case (OpDel k g)
  obtain b m' where d: "delIfGenAtMost m k g = (b, m')" by fastforce
  with OpDel delIfGenAtMost_refines [OF assms d] show ?thesis by simp
next
  case OpPurge
  with assms show ?thesis by (auto simp: mem_purge_def mem_ok_def ms_inv_def lru_of_def)
next
  case (OpResize c)
  obtain r vs m' where d: "mem_Resize m c = (r, vs, m')" by (metis prod.exhaust)
  with OpResize mem_Resize_refines [OF _ d] assms show ?thesis by (auto simp: mem_ok_def)
qed

interpretation memlru: functional_refinement mem_exec lru_exec lru_of mem_ok
  by unfold_locales (simp_all add: mem_exec_refines)

lemma newMemStore_ok: "mem_ok (newMemStore cap) \<and> lru_of (newMemStore cap) = lru_new cap"
  by (simp add: mem_ok_def ms_inv_def newMemStore_def lru_of_def lru_new_def default_cap_def)

text \<open>C20: The memory tier of the cache is an LRU store bounded in bytes. For every sequence of
  lookups, insertions, conditional deletions, purges and resizes on a new store, the linked
  list, the map and the counters give exactly the answers and the eviction order of the
  abstract store: a list of items, most recently used first, cut to the longest initial part
  that fits the cap. In every state the byte counter is the sum of the sizes of the retained
  items and does not exceed the cap, and the map leads to each retained item and to nothing
  else.\<close>

theorem memStore_refines_lru:
  "run_ops lru_exec (lru_new cap) ops =
     (fst (run_ops mem_exec (newMemStore cap) ops), lru_of (snd (run_ops mem_exec (newMemStore cap) ops))) \<and>
   (let m = snd (run_ops mem_exec (newMemStore cap) ops) in
    ms_curBytes m = lru_bytes (map (ms_heap m) (ms_ll m)) \<and> ms_curBytes m \<le> ms_maxBytes m \<and>
    ran (ms_items m) = set (ms_ll m) \<and> distinct (map (\<lambda>a. mi_key (ms_heap m a)) (ms_ll m)))"
proof -
  let ?m = "snd (run_ops mem_exec (newMemStore cap) ops)"
  note R = memlru.run_refines [of "newMemStore cap" ops]
  have ok: "mem_ok ?m" using R newMemStore_ok [of cap] by simp
  then have I: "ms_inv ?m" and le: "ms_curBytes ?m \<le> ms_maxBytes ?m" by (simp_all add: mem_ok_def)
  have "ran (ms_items ?m) = set (ms_ll ?m)" using I by (auto simp: ran_def items_iff)
  moreover have "inj_on (\<lambda>a. mi_key (ms_heap ?m a)) (set (ms_ll ?m))"
    using items_iff [OF I] by (intro inj_onI) (metis option.inject)
  then have "distinct (map (\<lambda>a. mi_key (ms_heap ?m a)) (ms_ll ?m))" using I by (simp add: distinct_map ms_inv_def)
  ultimately show ?thesis using R newMemStore_ok [of cap] I le by (simp add: Let_def ms_inv_def)
qed

text \<open>What the abstract store promises: an entry that fits is found right after it was stored, with
  its generation, and it survives until the items used after it fill the cap.\<close>

lemma lru_get_after_put:
  assumes "entry_Size e + int (length k) \<le> lru_cap s"
  shows "fst (lru_get (snd (lru_put s k e g)) k) =
    Some (e, if g \<noteq> 0 then g else case lru_find (lru_items s) k of None \<Rightarrow> 0 | Some i \<Rightarrow> mi_gen i)"
  using assms by (simp add: lru_put_def lru_trim_def lru_get_def lru_find_def Let_def)

lemma lru_put_too_large:
  assumes "entry_Size e + int (length k) > lru_cap s"
  shows "lru_items (snd (lru_put s k e g)) = []"
  using assms by (simp add: lru_put_def lru_trim_def Let_def)

end
