(* ===== verification/Ranges.thy ===== *)
theory Ranges
  imports Predicates Memstore
begin

text \<open>
  \<^verbatim>\<open>src/internal/cache/range.go\<close>: byte ranges. Parsing the \<^verbatim>\<open>Range\<close> header with
  overflow-checked 64-bit arithmetic, the \<^verbatim>\<open>If-Range\<close> precondition, resolving a range
  against a representation, and the partial response cut from a cached body.

  The parser of HTTP dates, \<^verbatim>\<open>parseCacheDate\<close>, is the argument \<open>date\<close>: it takes the
  reference time and a string and gives nanoseconds. A response is its status, header and body.
\<close>

datatype rangeKind = RangeNone | RangePrefix | RangeOpen | RangeSuffix

record byteRangeSpec =
  br_kind :: rangeKind
  br_first :: int
  br_last :: int
  br_suffix :: int

datatype rangeParseResult = RangeSingle | RangeMulti | RangeNonBytes | RangeInvalid

definition no_range :: byteRangeSpec where
  "no_range = \<lparr>br_kind = RangeNone, br_first = 0, br_last = 0, br_suffix = 0\<rparr>"

definition maxRangeParserHardCap :: int where
  "maxRangeParserHardCap = 16"

definition TrimString :: "string \<Rightarrow> string" where
  "TrimString s = trim_by (\<lambda>c. c \<in> {CHR '' '', CHR 0x09, CHR 0x0A, CHR 0x0D}) s"

definition isHTTPToken :: "string \<Rightarrow> bool" where
  "isHTTPToken s \<longleftrightarrow> s \<noteq> [] \<and> list_all token_byte s"

definition max_int64 :: uint64 where
  "max_int64 = 0x7FFFFFFFFFFFFFFF"

fun parse_digits :: "uint64 \<Rightarrow> string \<Rightarrow> uint64 option" where
  "parse_digits n [] = Some n"
| "parse_digits n (c # s) =
     (if \<not> is_digit c then None
      else let digit = word_of_nat (digit_val c) in
           if n > (max_int64 - digit) div 10 then None else parse_digits (n * 10 + digit) s)"

definition parseDecimalInt63 :: "string \<Rightarrow> int option" where
  "parseDecimalInt63 s =
     (if s = [] \<or> length s > 19 then None else map_option sint (parse_digits 0 s))"

definition parseSingleByteRangeSpec :: "string \<Rightarrow> byteRangeSpec option" where
  "parseSingleByteRangeSpec s =
     (if s = [] then None
      else case index_byte (CHR ''-'') s of
             None \<Rightarrow> None
           | Some dash \<Rightarrow>
               if dash = 0 then
                 (case parseDecimalInt63 (drop 1 s) of
                    None \<Rightarrow> None
                  | Some n \<Rightarrow> Some (no_range\<lparr>br_kind := RangeSuffix, br_suffix := n\<rparr>))
               else
                 (case parseDecimalInt63 (take dash s) of
                    None \<Rightarrow> None
                  | Some first \<Rightarrow>
                      (let rem = drop (dash + 1) s in
                       if rem = [] then Some (no_range\<lparr>br_kind := RangeOpen, br_first := first\<rparr>)
                       else case parseDecimalInt63 rem of
                              None \<Rightarrow> None
                            | Some lst \<Rightarrow>
                                if first > lst then None
                                else Some (no_range\<lparr>br_kind := RangePrefix, br_first := first, br_last := lst\<rparr>))))"

text \<open>The loop over the list elements; \<open>parts\<close> are the elements still to scan.\<close>

fun range_loop ::
  "int \<Rightarrow> int \<Rightarrow> int \<Rightarrow> int \<Rightarrow> byteRangeSpec \<Rightarrow> string list \<Rightarrow> (int \<times> byteRangeSpec) option" where
  "range_loop maxRanges hardCap cnt segments firstSpec [] = Some (cnt, firstSpec)"
| "range_loop maxRanges hardCap cnt segments firstSpec (raw # parts) =
     (let part = TrimString raw; segments = segments + 1 in
      if segments > hardCap then None
      else if part \<noteq> [] then
        (let cnt = cnt + 1 in
         if cnt > maxRanges then None
         else case parseSingleByteRangeSpec part of
                None \<Rightarrow> None
              | Some spec \<Rightarrow>
                  range_loop maxRanges hardCap cnt segments (if cnt = 1 then spec else firstSpec) parts)
      else range_loop maxRanges hardCap cnt segments firstSpec parts)"

definition parseRangeHeader :: "string list \<Rightarrow> int \<Rightarrow> byteRangeSpec \<times> rangeParseResult" where
  "parseRangeHeader values maxRanges =
     (if length values \<noteq> 1 then (no_range, RangeInvalid)
      else
        (let maxRanges = (if maxRanges \<le> 0 then 1 else maxRanges);
             hardCap = (if maxRanges < maxRangeParserHardCap then maxRangeParserHardCap else maxRanges);
             raw = TrimString (values ! 0) in
         case index_byte (CHR ''='') raw of
           None \<Rightarrow> (no_range, RangeInvalid)
         | Some eq \<Rightarrow>
             if eq = 0 then (no_range, RangeInvalid)
             else if \<not> isHTTPToken (take eq raw) then (no_range, RangeInvalid)
             else if \<not> EqualFold (take eq raw) ''bytes'' then (no_range, RangeNonBytes)
             else
               (let rest = TrimString (drop (eq + 1) raw) in
                if rest = [] then (no_range, RangeInvalid)
                else case range_loop maxRanges hardCap 0 0 no_range (Split rest (CHR '','')) of
                       None \<Rightarrow> (no_range, RangeInvalid)
                     | Some (cnt, spec) \<Rightarrow>
                         if cnt = 0 then (no_range, RangeInvalid)
                         else if cnt > 1 then (no_range, RangeMulti)
                         else (spec, RangeSingle))))"

definition resolveByteRange :: "byteRangeSpec \<Rightarrow> int \<Rightarrow> (int \<times> int) option" where
  "resolveByteRange spec totalLen =
     (if totalLen \<le> 0 then None
      else case br_kind spec of
             RangePrefix \<Rightarrow>
               if br_first spec \<ge> totalLen then None
               else let e = (if br_last spec \<ge> totalLen then totalLen - 1 else br_last spec) in
                    Some (br_first spec, e - br_first spec + 1)
           | RangeOpen \<Rightarrow>
               if br_first spec \<ge> totalLen then None else Some (br_first spec, totalLen - br_first spec)
           | RangeSuffix \<Rightarrow>
               if br_suffix spec \<le> 0 then None
               else if br_suffix spec \<ge> totalLen then Some (0, totalLen)
               else Some (totalLen - br_suffix spec, br_suffix spec)
           | RangeNone \<Rightarrow> None)"

subsection \<open>If-Range\<close>

definition opaqueETag :: "string \<Rightarrow> string option" where
  "opaqueETag tag0 =
     (let tag = TrimPrefix tag0 ''W/'' in
      if length tag < 2 \<or> hd tag \<noteq> CHR 0x22 \<or> last tag \<noteq> CHR 0x22 then None
      else if list_ex (\<lambda>c. (of_char c :: nat) < 33 \<or> c = CHR 0x22 \<or> c = CHR 0x7F) (butlast (tl tag)) then None
      else Some tag)"

definition entry_values :: "Entry \<Rightarrow> string \<Rightarrow> string list" where
  "entry_values e name = (case map_of (en_Header e) name of None \<Rightarrow> [] | Some vs \<Rightarrow> vs)"

definition ifRangeMatches ::
  "(nanos \<Rightarrow> string \<Rightarrow> nanos option) \<Rightarrow> nanos \<Rightarrow> header \<Rightarrow> Entry \<Rightarrow> bool" where
  "ifRangeMatches date now h e =
     (let vals = h ''If-Range'' in
      if length vals \<noteq> 1 then False
      else let val = TrimString (vals ! 0) in
        if val = [] then False
        else if HasPrefix val ''W/'' \<or> HasPrefix val ''w/'' then False
        else if HasPrefix val [CHR 0x22] then
          (if en_ETag e = [] \<or> HasPrefix (en_ETag e) ''W/'' \<or> HasPrefix (en_ETag e) ''w/'' then False
           else case (opaqueETag val, opaqueETag (en_ETag e)) of (Some a, Some b) \<Rightarrow> a = b | _ \<Rightarrow> False)
        else if en_LastModified e = [] then False
        else
          (let refNow = (if en_CreatedAt e = zero_time then now else en_CreatedAt e) in
           case (date refNow val, date refNow (TrimString (en_LastModified e))) of
             (Some tReq, Some tEntry) \<Rightarrow>
               if tReq \<noteq> tEntry \<or> length (entry_values e ''Date'') \<noteq> 1 then False
               else (case date refNow (TrimString (entry_values e ''Date'' ! 0)) of
                       None \<Rightarrow> False | Some tDate \<Rightarrow> tDate - tEntry \<ge> second)
           | _ \<Rightarrow> False))"

subsection \<open>The response\<close>

definition FormatInt :: "int \<Rightarrow> string" where
  "FormatInt n = (if n < 0 then CHR ''-'' # FormatUint (nat (- n)) else FormatUint (nat n))"

definition isContentScopedHeader :: "string \<Rightarrow> bool" where
  "isContentScopedHeader k \<longleftrightarrow>
     EqualFold k ''Content-Digest'' \<or> EqualFold k ''Content-MD5'' \<or> EqualFold k ''Signature'' \<or>
     EqualFold k ''Signature-Input''"

text \<open>The loop that copies the stored fields which \<open>skip\<close> does not exclude.\<close>

definition copy_stored :: "(string \<Rightarrow> bool) \<Rightarrow> Entry \<Rightarrow> header \<Rightarrow> header" where
  "copy_stored skip e h =
     (\<lambda>k. let vs = entry_values e k in if vs = [] \<or> skip k then h k else vs)"

definition stripConfiguredTagHeaders :: "header \<Rightarrow> string list \<Rightarrow> header" where
  "stripConfiguredTagHeaders h tagHeaders = foldl header_Del h tagHeaders"

text \<open>The status, the header and the body of the response; \<open>strip\<close> lists the tag headers to remove.\<close>

definition serveRangeResponse ::
  "string list \<Rightarrow> header \<Rightarrow> Entry \<Rightarrow> byteRangeSpec \<Rightarrow> string \<Rightarrow> int \<Rightarrow> nat \<times> header \<times> string" where
  "serveRangeResponse strip h e spec state age =
     (let totalLen = BodyLen_entry e in
      case resolveByteRange spec totalLen of
        None \<Rightarrow>
          (let skip = (\<lambda>k. EqualFold k ''Content-Length'' \<or> EqualFold k ''Content-Encoding'' \<or>
                          EqualFold k ''Content-Range'' \<or> isContentScopedHeader k);
               h = stripConfiguredTagHeaders (copy_stored skip e h) strip;
               h = header_Set h ''Accept-Ranges'' ''bytes'';
               h = header_Set h ''Content-Range'' (''bytes */'' @ FormatInt totalLen);
               h = header_Set h ''Content-Length'' ''0'';
               h = header_Set h ''Age'' (FormatInt age);
               h = header_Set h ''X-Cache'' state in
           (416, h, []))
      | Some (start, len) \<Rightarrow>
          (let h = stripConfiguredTagHeaders (copy_stored isContentScopedHeader e h) strip;
               h = header_Set h ''Accept-Ranges'' ''bytes'';
               h = header_Set h ''Content-Range''
                     (''bytes '' @ FormatInt start @ ''-'' @ FormatInt (start + len - 1) @ ''/'' @ FormatInt totalLen);
               h = header_Set h ''Content-Length'' (FormatInt len);
               h = header_Set h ''Age'' (FormatInt age);
               h = header_Set h ''X-Cache'' state in
           (206, h, take (nat len) (drop (nat start) (entry_payload e)))))"

subsection \<open>Decimal numbers below two to the 63\<close>

text \<open>The guard of the loop is exact: it fails just when the next value would leave 63 bits.\<close>

lemma digit_guard:
  assumes "unat n < 2 ^ 63" and "is_digit c"
  shows "\<not> n > (max_int64 - word_of_nat (digit_val c)) div 10 \<longleftrightarrow> 10 * unat n + digit_val c < 2 ^ 63"
    and "10 * unat n + digit_val c < 2 ^ 63 \<Longrightarrow> unat (n * 10 + word_of_nat (digit_val c)) = 10 * unat n + digit_val c"
proof -
  have d: "digit_val c \<le> 9" by (rule digit_val_le [OF assms(2)])
  then have ud: "unat (word_of_nat (digit_val c) :: uint64) = digit_val c" by (simp add: unat_of_nat)
  have "(word_of_nat (digit_val c) :: uint64) \<le> max_int64" using d ud by (simp add: max_int64_def word_le_nat_alt)
  then have "unat (max_int64 - word_of_nat (digit_val c)) = 2 ^ 63 - 1 - digit_val c"
    using ud by (simp add: unat_sub max_int64_def)
  then have q: "unat ((max_int64 - word_of_nat (digit_val c)) div 10) = (2 ^ 63 - 1 - digit_val c) div 10"
    by (simp add: unat_div)
  show "\<not> n > (max_int64 - word_of_nat (digit_val c)) div 10 \<longleftrightarrow> 10 * unat n + digit_val c < 2 ^ 63"
    unfolding word_less_nat_alt q using d by auto
  show "unat (n * 10 + word_of_nat (digit_val c)) = 10 * unat n + digit_val c"
    if "10 * unat n + digit_val c < 2 ^ 63"
    using that ud by (simp add: unat_word_ariths)
qed

lemma parse_digits_exact:
  "unat n < 2 ^ 63 \<Longrightarrow>
     map_option unat (parse_digits n s) = (if list_all is_digit s \<and> dec_from (unat n) s < 2 ^ 63 then Some (dec_from (unat n) s) else None)"
proof (induction s arbitrary: n)
  case (Cons c s)
  show ?case
  proof (cases "is_digit c \<and> 10 * unat n + digit_val c < 2 ^ 63")
    case True
    note G = digit_guard [OF Cons.prems, of c]
    have u: "unat (n * 10 + word_of_nat (digit_val c)) = 10 * unat n + digit_val c" using G True by simp
    with True have "map_option unat (parse_digits (n * 10 + word_of_nat (digit_val c)) s) =
        (if list_all is_digit s \<and> dec_from (10 * unat n + digit_val c) s < 2 ^ 63
         then Some (dec_from (10 * unat n + digit_val c) s) else None)"
      using Cons.IH [of "n * 10 + word_of_nat (digit_val c)"] by simp
    with True G show ?thesis by (simp add: Let_def)
  next
    case False
    have "\<not> dec_from (10 * unat n + digit_val c) s < 2 ^ 63" if "is_digit c"
      using False that dec_from_ge [of "10 * unat n + digit_val c" s] by auto
    with False digit_guard(1) [OF Cons.prems, of c] show ?thesis by (auto simp: Let_def)
  qed
qed (simp add: dec_from_def)

lemma sint_small:
  fixes r :: uint64
  assumes "unat r < 2 ^ 63"
  shows "sint r = int (unat r)"
proof -
  from assms have "int (unat r) < int (2 ^ 63)" by (simp only: of_nat_less_iff)
  then have u: "uint r < 2 ^ 63" by simp
  have "sint r = signed_take_bit 63 (uint r)" by (simp add: sint_uint)
  also have "\<dots> = uint r" using u uint_ge_0 [of r] by (intro signed_take_bit_int_eq_self) linarith+
  finally show ?thesis by simp
qed

lemma parseDecimalInt63_exact:
  "parseDecimalInt63 s =
     (if s \<noteq> [] \<and> length s \<le> 19 \<and> list_all is_digit s \<and> decimal s < 2 ^ 63 then Some (int (decimal s)) else None)"
proof -
  have dec: "decimal s = dec_from 0 s" by (simp add: decimal_def dec_from_def)
  have P: "map_option unat (parse_digits 0 s) = (if list_all is_digit s \<and> decimal s < 2 ^ 63 then Some (decimal s) else None)"
    using parse_digits_exact [of 0 s] unfolding dec by simp
  show ?thesis
  proof (cases "parse_digits 0 s")
    case None
    with P show ?thesis by (auto simp: parseDecimalInt63_def split: if_splits)
  next
    case (Some r)
    with P have r: "list_all is_digit s" "decimal s < 2 ^ 63" "unat r = decimal s" by (auto split: if_splits)
    have "sint r = int (unat r)" using r(2,3) by (intro sint_small) simp
    with Some r show ?thesis by (auto simp: parseDecimalInt63_def)
  qed
qed

subsection \<open>Ranges\<close>

text \<open>The bytes a range asks for, as RFC 9110 describes them.\<close>

definition range_bytes :: "byteRangeSpec \<Rightarrow> int \<Rightarrow> int set" where
  "range_bytes spec tot =
     {i. 0 \<le> i \<and> i < tot \<and>
         (case br_kind spec of
            RangePrefix \<Rightarrow> br_first spec \<le> i \<and> i \<le> br_last spec
          | RangeOpen \<Rightarrow> br_first spec \<le> i
          | RangeSuffix \<Rightarrow> tot - br_suffix spec \<le> i
          | RangeNone \<Rightarrow> False)}"

definition range_ok :: "byteRangeSpec \<Rightarrow> bool" where
  "range_ok spec \<longleftrightarrow>
     0 \<le> br_first spec \<and> br_first spec < 2 ^ 63 \<and> 0 \<le> br_suffix spec \<and> br_suffix spec < 2 ^ 63 \<and>
     br_last spec < 2 ^ 63 \<and> (br_kind spec = RangePrefix \<longrightarrow> br_first spec \<le> br_last spec) \<and>
     br_kind spec \<noteq> RangeNone"

lemma parseSingle_ok: "parseSingleByteRangeSpec s = Some spec \<Longrightarrow> range_ok spec"
  by (auto simp: parseSingleByteRangeSpec_def parseDecimalInt63_exact no_range_def range_ok_def Let_def
      split: if_splits option.splits)

lemma range_loop_count:
  "range_loop mr hc c sg f parts = Some (c', f') \<Longrightarrow> c \<le> c' \<and> (c' = c \<longrightarrow> f' = f)"
proof (induction parts arbitrary: c sg f)
  case (Cons raw parts)
  show ?case
  proof (cases "TrimString raw = []")
    case True
    with Cons.prems have "range_loop mr hc c (sg + 1) f parts = Some (c', f')" by (simp add: Let_def split: if_splits)
    from Cons.IH [OF this] show ?thesis .
  next
    case False
    with Cons.prems obtain spec where
      "range_loop mr hc (c + 1) (sg + 1) (if c + 1 = 1 then spec else f) parts = Some (c', f')"
      by (auto simp: Let_def split: if_splits option.splits)
    from Cons.IH [OF this] show ?thesis by auto
  qed
qed simp

lemma range_loop_first:
  "range_loop mr hc 0 sg f parts = Some (1, spec) \<Longrightarrow> range_ok spec"
proof (induction parts arbitrary: sg f)
  case (Cons raw parts)
  show ?case
  proof (cases "TrimString raw = []")
    case True
    with Cons.prems have "range_loop mr hc 0 (sg + 1) f parts = Some (1, spec)" by (simp add: Let_def split: if_splits)
    from Cons.IH [OF this] show ?thesis .
  next
    case False
    with Cons.prems obtain sp where "parseSingleByteRangeSpec (TrimString raw) = Some sp"
      "range_loop mr hc 1 (sg + 1) sp parts = Some (1, spec)"
      by (auto simp: Let_def split: if_splits option.splits)
    with parseSingle_ok range_loop_count show ?thesis by blast
  qed
qed simp

lemma parseRangeHeader_ok:
  assumes "parseRangeHeader vs mr = (spec, RangeSingle)"
  shows "range_ok spec"
proof -
  from assms obtain mr' hc parts cnt where l: "range_loop mr' hc 0 0 no_range parts = Some (cnt, spec)" "cnt \<noteq> 0" "\<not> cnt > 1"
    by (auto simp: parseRangeHeader_def Let_def split: if_splits option.splits)
  with range_loop_count [OF l(1)] have "cnt = 1" by simp
  with range_loop_first l(1) show ?thesis by blast
qed

lemma resolve_exact:
  assumes "range_ok spec" and "0 \<le> tot"
  shows "case resolveByteRange spec tot of
           None \<Rightarrow> range_bytes spec tot = {}
         | Some (start, len) \<Rightarrow> 0 \<le> start \<and> 0 < len \<and> start + len \<le> tot \<and> {start..<start + len} = range_bytes spec tot"
  using assms
  by (cases "br_kind spec") (auto simp: resolveByteRange_def range_bytes_def range_ok_def Let_def)

lemma FormatUint_no: "c \<in> set (FormatUint n) \<Longrightarrow> is_digit c"
  using digits_FormatUint [of n] by (auto simp: list_all_iff)

lemma canonical_names:
  "CanonicalMIMEHeaderKey ''Accept-Ranges'' = ''Accept-Ranges''"
  "CanonicalMIMEHeaderKey ''Content-Range'' = ''Content-Range''"
  "CanonicalMIMEHeaderKey ''Content-Length'' = ''Content-Length''"
  "CanonicalMIMEHeaderKey ''Age'' = ''Age''" "CanonicalMIMEHeaderKey ''X-Cache'' = ''X-Cache''"
  by code_simp+

lemma BodyLen_payload: "BodyLen_entry e = int (length (entry_payload e))"
  by (simp add: BodyLen_entry_def entry_payload_def split: option.splits)

lemma serve_None:
  assumes "resolveByteRange spec (BodyLen_entry e) = None"
  obtains hd' where "serveRangeResponse strip h e spec state age = (416, hd', [])"
    and "hd' ''Content-Range'' = [''bytes */'' @ FormatUint (length (entry_payload e))]"
  using assms
  by (simp add: serveRangeResponse_def Let_def header_Set_def canonical_names BodyLen_payload FormatInt_def)

lemma serve_Some:
  assumes "resolveByteRange spec (BodyLen_entry e) = Some (s, l)"
  obtains hd' where "serveRangeResponse strip h e spec state age = (206, hd', take (nat l) (drop (nat s) (entry_payload e)))"
    and "hd' ''Content-Range'' = [''bytes '' @ FormatInt s @ ''-'' @ FormatInt (s + l - 1) @ ''/'' @ FormatInt (BodyLen_entry e)]"
    and "hd' ''Content-Length'' = [FormatInt l]"
  using assms by (simp add: serveRangeResponse_def Let_def header_Set_def canonical_names)

text \<open>C40: A range request gets exactly the bytes it asks for. Whatever the header lines, when they
  parse as a single byte range, the numbers fit in 63 bits, and the response from a cached
  payload, in memory or on disk, is either 416 with an empty body, when no byte of the payload
  lies in the range, or 206 with the bytes at exactly the positions the range denotes, in
  order; the slice stays inside the payload, and Content-Range and Content-Length say so.\<close>

theorem range_response_exact:
  assumes "parseRangeHeader vs maxRanges = (spec, RangeSingle)"
    and "serveRangeResponse strip h e spec state age = (status, hdr, body)"
  shows "range_ok spec \<and>
    (status = 416 \<and> body = [] \<and> range_bytes spec (int (length (entry_payload e))) = {} \<and>
       hdr ''Content-Range'' = [''bytes */'' @ FormatUint (length (entry_payload e))] \<or>
     status = 206 \<and>
       (\<exists>start len. 0 < len \<and> start + len \<le> length (entry_payload e) \<and>
         {int start..<int (start + len)} = range_bytes spec (int (length (entry_payload e))) \<and>
         body = map (\<lambda>i. entry_payload e ! i) [start..<start + len] \<and>
         hdr ''Content-Length'' = [FormatUint len] \<and>
         hdr ''Content-Range'' = [''bytes '' @ FormatUint start @ ''-'' @ FormatUint (start + len - 1) @ ''/'' @
              FormatUint (length (entry_payload e))]))"
proof -
  let ?n = "int (length (entry_payload e))"
  have ok: "range_ok spec" by (rule parseRangeHeader_ok [OF assms(1)])
  note R = resolve_exact [OF ok, of ?n]
  show ?thesis
  proof (cases "resolveByteRange spec ?n")
    case None
    then have "resolveByteRange spec (BodyLen_entry e) = None" by (simp add: BodyLen_payload)
    from serve_None [OF this, of strip h state age] obtain hd' where
      S: "serveRangeResponse strip h e spec state age = (416, hd', [])"
      "hd' ''Content-Range'' = [''bytes */'' @ FormatUint (length (entry_payload e))]" by blast
    then have "status = 416" "hdr = hd'" "body = []" using assms(2) by simp_all
    with S(2) None R ok show ?thesis by simp
  next
    case (Some p)
    then obtain s l where p: "resolveByteRange spec ?n = Some (s, l)" by (cases p) auto
    with R have b: "0 \<le> s" "0 < l" "s + l \<le> ?n" "{s..<s + l} = range_bytes spec ?n" by simp_all
    define start where "start = nat s"
    define len where "len = nat l"
    have sl: "s = int start" "l = int len" using b by (simp_all add: start_def len_def)
    have slice: "take len (drop start (entry_payload e)) = map (\<lambda>i. entry_payload e ! i) [start..<start + len]"
      using b(3) by (intro nth_equalityI) (simp_all add: sl)
    have fmt: "FormatInt s = FormatUint start" "FormatInt (s + l - 1) = FormatUint (start + len - 1)"
      "FormatInt ?n = FormatUint (length (entry_payload e))" "FormatInt l = FormatUint len"
      using b(2) by (auto simp: FormatInt_def sl nat_diff_distrib nat_add_distrib)
    have nn: "nat s = start" "nat l = len" by (simp_all add: sl)
    have "resolveByteRange spec (BodyLen_entry e) = Some (s, l)" using p by (simp add: BodyLen_payload)
    from serve_Some [OF this, of strip h state age] obtain hd' where
      S: "serveRangeResponse strip h e spec state age = (206, hd', take (nat l) (drop (nat s) (entry_payload e)))"
      "hd' ''Content-Range'' = [''bytes '' @ FormatInt s @ ''-'' @ FormatInt (s + l - 1) @ ''/'' @ FormatInt (BodyLen_entry e)]"
      "hd' ''Content-Length'' = [FormatInt l]" by blast
    have st: "status = 206" "hdr = hd'" "body = map (\<lambda>i. entry_payload e ! i) [start..<start + len]"
      using S(1) assms(2) unfolding nn slice by (simp_all only: prod.inject)
    note cr = S(2,3) [unfolded BodyLen_payload fmt, folded st(2)]
    have "0 < len" "start + len \<le> length (entry_payload e)" "{int start..<int (start + len)} = range_bytes spec ?n"
      using b by (simp_all add: sl)
    with ok st(1,3) cr show ?thesis by blast
  qed
qed

definition sample_entry :: Entry where
  "sample_entry = (mi_entry no_item)\<lparr>en_Body := ''hello''\<rparr>"

theorem range_response_exact_witness:
  "range_ok (no_range\<lparr>br_kind := RangeSuffix, br_suffix := 3\<rparr>) \<and>
   (case serveRangeResponse [] (\<lambda>_. []) sample_entry (no_range\<lparr>br_kind := RangeSuffix, br_suffix := 3\<rparr>) ''HIT'' 7 of
      (status, hdr, body) \<Rightarrow> status = 206 \<and> body = ''llo'' \<and> hdr ''Content-Range'' = [''bytes 2-4/5''])"
proof
  have "parseRangeHeader ['' bytes= ,-3''] 1 = (no_range\<lparr>br_kind := RangeSuffix, br_suffix := 3\<rparr>, RangeSingle)"
    by code_simp
  from range_response_exact [OF this, of "[]" "\<lambda>_. []" sample_entry "''HIT''" 7]
  show "range_ok (no_range\<lparr>br_kind := RangeSuffix, br_suffix := 3\<rparr>)" by (metis prod.exhaust)
qed code_simp

text \<open>What the gateway prints as a range it also reads back.\<close>

lemma FormatUint_no_dash: "CHR ''-'' \<notin> set (FormatUint n)"
  using FormatUint_no [of "CHR ''-''" n] by (auto simp: is_digit_def)

lemma parseDecimal_Format:
  "n < 2 ^ 63 \<Longrightarrow> length (FormatUint n) \<le> 19 \<Longrightarrow> parseDecimalInt63 (FormatUint n) = Some (int n)"
  using digits_FormatUint [of n] by (simp add: parseDecimalInt63_exact decimal_FormatUint)

lemma parse_printed_range:
  assumes "f \<le> l" and "l < 2 ^ 63"
  shows "parseSingleByteRangeSpec (FormatUint f @ ''-'' @ FormatUint l) =
    Some (no_range\<lparr>br_kind := RangePrefix, br_first := int f, br_last := int l\<rparr>)"
proof -
  have "length (FormatUint n) \<le> 19" if "n < 2 ^ 63" for n using that by (intro FormatUint_length) auto
  then have p: "parseDecimalInt63 (FormatUint f) = Some (int f)" "parseDecimalInt63 (FormatUint l) = Some (int l)"
    using assms parseDecimal_Format by (metis order_le_less_trans)+
  have ne: "FormatUint f \<noteq> []" "FormatUint l \<noteq> []" using digits_FormatUint by auto
  have "index_byte (CHR ''-'') (FormatUint f @ ''-'' @ FormatUint l) = Some (length (FormatUint f))"
    using FormatUint_no_dash by simp
  with p ne assms(1) show ?thesis by (simp add: parseSingleByteRangeSpec_def Let_def)
qed

end
