(* ===== verification/Cache_Policy.thy ===== *)
theory Cache_Policy
  imports Cachecontrol Cache_Tags Ranges
begin

text \<open>
  The policies a cache decision is taken under: the scalar policy of the configuration
  (\<^verbatim>\<open>scalar_policy.go\<close>), the overrides of a route with its cookie bypass
  (\<^verbatim>\<open>route_policy.go\<close>), and the digests that identify a policy (\<^verbatim>\<open>inspection.go\<close>),
  all under \<^verbatim>\<open>src/internal/cache\<close>.

  The fixed arrays of tag headers and cookie names, with their counts, are lists; code outside
  the repository that decisions use is collected in the record \<open>cachelib\<close>.
\<close>

record cachelib =
  cl_sfv :: sfv_parser
  cl_time :: timelib
  cl_valid :: "string \<Rightarrow> bool"
  cl_sha :: "string \<Rightarrow> string"

subsection \<open>Policies\<close>

definition maxTagHeaders :: nat where "maxTagHeaders = 8"
definition MaxBypassCookies :: nat where "MaxBypassCookies = 32"
definition MaxBypassCookieNameBytes :: nat where "MaxBypassCookieNameBytes = 128"

record CacheConfig =
  cfg_DecisionSamples :: bool
  cfg_MemoryMaxSize :: int
  cfg_DiskMaxSize :: int
  cfg_MaxEntrySize :: int
  cfg_DefaultTTL :: duration
  cfg_StaleWhileRevalidate :: duration
  cfg_StaleIfError :: duration
  cfg_Lock :: bool
  cfg_LockTimeout :: duration
  cfg_RangeEnabled :: bool
  cfg_MaxRanges :: int
  cfg_TagHeaders :: "string list"
  cfg_StripTagHeaders :: "bool option"

definition StripTagHeadersEnabled :: "CacheConfig \<Rightarrow> bool" where
  "StripTagHeadersEnabled c =
     (if cfg_TagHeaders c = [] then (case cfg_StripTagHeaders c of Some b \<Rightarrow> b | None \<Rightarrow> False)
      else case cfg_StripTagHeaders c of None \<Rightarrow> True | Some b \<Rightarrow> b)"

record CachePolicy =
  cp_DecisionSamples :: bool
  cp_DefaultTTL :: duration
  cp_StaleWhileRevalidate :: duration
  cp_StaleIfError :: duration
  cp_MemoryMaxBytes :: int
  cp_MaxEntryBytes :: int
  cp_Lock :: bool
  cp_LockTimeout :: duration
  cp_RangeEnabled :: bool
  cp_MaxRanges :: int
  cp_TagHeaders :: "string list"
  cp_StripTagHeaders :: bool
  cp_RouteScope :: string
  cp_RouteEpoch :: uint64
  cp_MultiRouteOverlap :: bool
  cp_HasRouteDefaultTTL :: bool
  cp_HasMaxTTL :: bool
  cp_MaxTTL :: duration
  cp_HasRouteSWR :: bool
  cp_HasRouteSIE :: bool
  cp_BypassAnyCookie :: bool
  cp_BypassCookies :: "string list"
  cp_varyGuard :: "varyTransformPolicy option"

definition zero_policy :: CachePolicy where
  "zero_policy =
     \<lparr>cp_DecisionSamples = False, cp_DefaultTTL = 0, cp_StaleWhileRevalidate = 0, cp_StaleIfError = 0,
      cp_MemoryMaxBytes = 0, cp_MaxEntryBytes = 0, cp_Lock = False, cp_LockTimeout = 0,
      cp_RangeEnabled = False, cp_MaxRanges = 0, cp_TagHeaders = [], cp_StripTagHeaders = False,
      cp_RouteScope = [], cp_RouteEpoch = 0, cp_MultiRouteOverlap = False, cp_HasRouteDefaultTTL = False,
      cp_HasMaxTTL = False, cp_MaxTTL = 0, cp_HasRouteSWR = False, cp_HasRouteSIE = False,
      cp_BypassAnyCookie = False, cp_BypassCookies = [], cp_varyGuard = None\<rparr>"

definition MemoryCapBytes :: "CachePolicy \<Rightarrow> int" where
  "MemoryCapBytes p =
     (if cp_MemoryMaxBytes p \<le> 0 then cp_MaxEntryBytes p
      else if cp_MaxEntryBytes p > 0 \<and> cp_MaxEntryBytes p < cp_MemoryMaxBytes p then cp_MaxEntryBytes p
      else cp_MemoryMaxBytes p)"

definition defaultLockTimeout :: duration where
  "defaultLockTimeout = 5 * second"

definition policyFromConfig :: "CacheConfig \<Rightarrow> CachePolicy" where
  "policyFromConfig cfg =
     zero_policy\<lparr>
       cp_DecisionSamples := cfg_DecisionSamples cfg,
       cp_DefaultTTL := cfg_DefaultTTL cfg,
       cp_StaleWhileRevalidate := cfg_StaleWhileRevalidate cfg,
       cp_StaleIfError := cfg_StaleIfError cfg,
       cp_MemoryMaxBytes := cfg_MemoryMaxSize cfg,
       cp_MaxEntryBytes := (if cfg_MaxEntrySize cfg \<le> 0 then cfg_MemoryMaxSize cfg else cfg_MaxEntrySize cfg),
       cp_Lock := cfg_Lock cfg,
       cp_LockTimeout :=
         (if cfg_Lock cfg \<and> cfg_LockTimeout cfg \<le> 0 then defaultLockTimeout else cfg_LockTimeout cfg),
       cp_RangeEnabled := cfg_RangeEnabled cfg,
       cp_MaxRanges := (if cfg_RangeEnabled cfg \<and> cfg_MaxRanges cfg \<le> 0 then 1 else cfg_MaxRanges cfg),
       cp_TagHeaders := take maxTagHeaders (canonicalizeTagHeaders (cfg_TagHeaders cfg)),
       cp_StripTagHeaders := StripTagHeadersEnabled cfg\<rparr>"

record LocationCachePolicy =
  lcp_DefaultTTL :: "duration option"
  lcp_MaxTTL :: "duration option"
  lcp_StaleWhileRevalidate :: "duration option"
  lcp_StaleIfError :: "duration option"
  lcp_BypassAnyCookie :: bool
  lcp_BypassCookies :: "string list"

record RouteCacheConfig =
  rc_Scope :: string
  rc_Epoch :: uint64
  rc_MultiRouteOverlap :: bool
  rc_DefaultTTL :: "duration option"
  rc_MaxTTL :: "duration option"
  rc_SWR :: "duration option"
  rc_SIE :: "duration option"
  rc_BypassAnyCookie :: bool
  rc_BypassCookies :: "string list"
  rc_varyGuard :: "varyTransformPolicy option"
  rc_matcherProof :: string
  rc_backendProof :: string
  rc_reloadInvalidate :: bool

text \<open>A flag with its value is an option. The names: trimmed, in lower case, without repetition.\<close>

fun norm_cookies :: "string list \<Rightarrow> string list \<Rightarrow> string list" where
  "norm_cookies known [] = []"
| "norm_cookies known (raw # rs) =
     (let trimmed = ToLower (TrimSpace raw) in
      if trimmed = [] \<or> trimmed \<in> set known then norm_cookies known rs
      else trimmed # norm_cookies (trimmed # known) rs)"

definition CompileRouteCacheConfig :: "string \<Rightarrow> bool \<Rightarrow> LocationCachePolicy option \<Rightarrow> RouteCacheConfig" where
  "CompileRouteCacheConfig scope multiRouteOverlap locPol =
     (let out = \<lparr>rc_Scope = scope, rc_Epoch = 0, rc_MultiRouteOverlap = multiRouteOverlap,
                 rc_DefaultTTL = None, rc_MaxTTL = None, rc_SWR = None, rc_SIE = None,
                 rc_BypassAnyCookie = False, rc_BypassCookies = [], rc_varyGuard = None,
                 rc_matcherProof = [], rc_backendProof = [], rc_reloadInvalidate = False\<rparr> in
      case locPol of
        None \<Rightarrow> out
      | Some lp \<Rightarrow>
          out\<lparr>rc_DefaultTTL := lcp_DefaultTTL lp, rc_MaxTTL := lcp_MaxTTL lp,
              rc_SWR := lcp_StaleWhileRevalidate lp, rc_SIE := lcp_StaleIfError lp,
              rc_BypassAnyCookie := lcp_BypassAnyCookie lp,
              rc_BypassCookies :=
                (if lcp_BypassCookies lp \<noteq> [] \<and> \<not> lcp_BypassAnyCookie lp
                 then take MaxBypassCookies (sort (norm_cookies [] (lcp_BypassCookies lp))) else [])\<rparr>)"

definition baseEffectivePolicy :: "CachePolicy \<Rightarrow> RouteCacheConfig option \<Rightarrow> CachePolicy" where
  "baseEffectivePolicy pol0 route =
     (case route of
        None \<Rightarrow> pol0
      | Some rc \<Rightarrow>
          (let pol = pol0\<lparr>cp_RouteScope := rc_Scope rc, cp_RouteEpoch := rc_Epoch rc,
                         cp_MultiRouteOverlap := rc_MultiRouteOverlap rc, cp_varyGuard := rc_varyGuard rc\<rparr>;
               pol = (case rc_DefaultTTL rc of None \<Rightarrow> pol
                      | Some d \<Rightarrow> pol\<lparr>cp_HasRouteDefaultTTL := True, cp_DefaultTTL := d\<rparr>);
               pol = (case rc_MaxTTL rc of None \<Rightarrow> pol
                      | Some d \<Rightarrow> pol\<lparr>cp_HasMaxTTL := True, cp_MaxTTL := d\<rparr>);
               pol = (case rc_SWR rc of None \<Rightarrow> pol
                      | Some d \<Rightarrow> pol\<lparr>cp_HasRouteSWR := True, cp_StaleWhileRevalidate := d\<rparr>);
               pol = (case rc_SIE rc of None \<Rightarrow> pol
                      | Some d \<Rightarrow> pol\<lparr>cp_HasRouteSIE := True, cp_StaleIfError := d\<rparr>) in
           pol\<lparr>cp_BypassAnyCookie := rc_BypassAnyCookie rc, cp_BypassCookies := rc_BypassCookies rc\<rparr>))"

subsection \<open>Digests\<close>

text \<open>\<^verbatim>\<open>binary.AppendUvarint\<close> and the conversion \<^verbatim>\<open>uint64(x)\<close> of a signed number.\<close>

fun Uvarint :: "nat \<Rightarrow> string" where
  "Uvarint n = (if n < 128 then [char_of n] else char_of (128 + n mod 128) # Uvarint (n div 128))"

declare Uvarint.simps [simp del]

definition to_uint64 :: "int \<Rightarrow> nat" where
  "to_uint64 x = nat (x mod 2 ^ 64)"

definition pad :: "nat \<Rightarrow> string list \<Rightarrow> string list" where
  "pad n xs = take n xs @ replicate (n - length xs) []"

definition appendString :: "string \<Rightarrow> string" where
  "appendString v = Uvarint (length v) @ v"

definition flag_byte :: "bool \<Rightarrow> char" where
  "flag_byte b = (if b then CHR 0x01 else CHR 0x00)"

definition policy_numbers :: "CachePolicy \<Rightarrow> nat list" where
  "policy_numbers p =
     [to_uint64 (cp_DefaultTTL p), to_uint64 (cp_StaleWhileRevalidate p), to_uint64 (cp_StaleIfError p),
      to_uint64 (cp_MemoryMaxBytes p), to_uint64 (cp_MaxEntryBytes p), to_uint64 (cp_LockTimeout p),
      to_uint64 (cp_MaxRanges p), length (cp_TagHeaders p), unat (cp_RouteEpoch p),
      to_uint64 (cp_MaxTTL p), length (cp_BypassCookies p)]"

definition policy_flags :: "CachePolicy \<Rightarrow> bool list" where
  "policy_flags p =
     [cp_Lock p, cp_RangeEnabled p, cp_StripTagHeaders p, cp_HasRouteDefaultTTL p, cp_HasMaxTTL p,
      cp_HasRouteSWR p, cp_HasRouteSIE p, cp_BypassAnyCookie p]"

definition policy_strings :: "CachePolicy \<Rightarrow> string list" where
  "policy_strings p =
     cp_RouteScope p # pad maxTagHeaders (cp_TagHeaders p) @ pad MaxBypassCookies (cp_BypassCookies p)"

definition policy_bytes :: "CachePolicy \<Rightarrow> string" where
  "policy_bytes p =
     ''jul-cache-policy-v2'' @ [CHR 0x00] @ concat (map Uvarint (policy_numbers p)) @
     map flag_byte (policy_flags p) @ concat (map appendString (policy_strings p))"

definition policyID :: "(string \<Rightarrow> string) \<Rightarrow> CachePolicy \<Rightarrow> string" where
  "policyID sha p = sha (policy_bytes p)"

definition zero_digest :: string where
  "zero_digest = replicate 16 (CHR 0x00)"

definition bypass_bytes :: "CachePolicy \<Rightarrow> string" where
  "bypass_bytes pol =
     (if cp_BypassAnyCookie pol then ''any'' @ [CHR 0x0A] else []) @
     concat (map (\<lambda>c. c @ [CHR 0x0A]) (cp_BypassCookies pol))"

definition bypassPolicyDigest :: "(string \<Rightarrow> string) \<Rightarrow> CachePolicy \<Rightarrow> string" where
  "bypassPolicyDigest sha pol =
     (if \<not> cp_BypassAnyCookie pol \<and> cp_BypassCookies pol = [] then zero_digest
      else take 16 (sha (bypass_bytes pol)))"

definition routeConfigDigest :: "(string \<Rightarrow> string) \<Rightarrow> CachePolicy \<Rightarrow> string" where
  "routeConfigDigest sha pol =
     (if cp_RouteScope pol = [] \<and> \<not> cp_HasRouteDefaultTTL pol \<and> \<not> cp_HasMaxTTL pol \<and>
         \<not> cp_HasRouteSWR pol \<and> \<not> cp_HasRouteSIE pol \<and> \<not> cp_BypassAnyCookie pol \<and> cp_BypassCookies pol = []
      then zero_digest
      else
        (let p = zero_policy\<lparr>cp_RouteScope := cp_RouteScope pol, cp_RouteEpoch := cp_RouteEpoch pol,
               cp_HasRouteDefaultTTL := cp_HasRouteDefaultTTL pol, cp_HasMaxTTL := cp_HasMaxTTL pol,
               cp_MaxTTL := cp_MaxTTL pol, cp_HasRouteSWR := cp_HasRouteSWR pol,
               cp_HasRouteSIE := cp_HasRouteSIE pol, cp_BypassAnyCookie := cp_BypassAnyCookie pol,
               cp_BypassCookies := cp_BypassCookies pol\<rparr>;
             p = (if cp_HasRouteDefaultTTL pol then p\<lparr>cp_DefaultTTL := cp_DefaultTTL pol\<rparr> else p);
             p = (if cp_HasRouteSWR pol then p\<lparr>cp_StaleWhileRevalidate := cp_StaleWhileRevalidate pol\<rparr> else p);
             p = (if cp_HasRouteSIE pol then p\<lparr>cp_StaleIfError := cp_StaleIfError pol\<rparr> else p) in
         take 16 (policyID sha p)))"

record policyIdentity =
  pi_policy :: CachePolicy
  pi_digest :: string
  pi_bypassDigest :: string

definition newPolicyIdentity :: "(string \<Rightarrow> string) \<Rightarrow> CachePolicy \<Rightarrow> policyIdentity" where
  "newPolicyIdentity sha p =
     \<lparr>pi_policy = p, pi_digest = policyID sha p, pi_bypassDigest = bypassPolicyDigest sha p\<rparr>"

subsection \<open>Cookie bypass\<close>

definition maxCookieHeaderLines :: nat where "maxCookieHeaderLines = 16"
definition maxCookieHeaderBytes :: nat where "maxCookieHeaderBytes = 8192"
definition maxCookiePairs :: nat where "maxCookiePairs = 128"

definition isCookieOctet :: "char \<Rightarrow> bool" where
  "isCookieOctet b \<longleftrightarrow>
     0x20 < (of_char b :: nat) \<and> (of_char b :: nat) < 0x7F \<and>
     b \<notin> {CHR 0x22, CHR '','', CHR '';'', CHR 0x5C}"

definition hasInvalidCookieValueByte :: "string \<Rightarrow> bool" where
  "hasInvalidCookieValueByte val =
     (let val = (if length val \<ge> 2 \<and> hd val = CHR 0x22 \<and> last val = CHR 0x22 then butlast (tl val) else val) in
      list_ex (\<lambda>b. \<not> isCookieOctet b) val)"

text \<open>The name of one cookie pair, unless it is malformed.\<close>

definition cookie_pair :: "string \<Rightarrow> string option" where
  "cookie_pair seg =
     (let part = TrimString seg in
      if part = [] then None
      else case index_byte (CHR ''='') part of
             None \<Rightarrow> None
           | Some eq \<Rightarrow>
               if eq = 0 then None
               else
                 (let name = take eq part; val = drop (eq + 1) part in
                  if length name > MaxBypassCookieNameBytes \<or> \<not> isHTTPToken name \<or> hasInvalidCookieValueByte val
                  then None else Some name))"

fun cookie_pairs :: "string list \<Rightarrow> nat \<times> bool \<Rightarrow> string list \<Rightarrow> (nat \<times> bool) option" where
  "cookie_pairs cookies (pairs, matched) [] = Some (pairs, matched)"
| "cookie_pairs cookies (pairs, matched) (seg # segs) =
     (if pairs + 1 > maxCookiePairs then None
      else case cookie_pair seg of
             None \<Rightarrow> None
           | Some name \<Rightarrow>
               cookie_pairs cookies (pairs + 1, matched \<or> list_ex (EqualFold name) cookies) segs)"

fun cookie_lines :: "string list \<Rightarrow> nat \<Rightarrow> nat \<times> bool \<Rightarrow> string list \<Rightarrow> bool option" where
  "cookie_lines cookies bytes (pairs, matched) [] = Some matched"
| "cookie_lines cookies bytes (pairs, matched) (line # ls) =
     (let bytes = bytes + length line in
      if bytes > maxCookieHeaderBytes then None
      else if TrimString line = [] then None
      else case cookie_pairs cookies (pairs, matched) (Split line (CHR '';'')) of
             None \<Rightarrow> None
           | Some st \<Rightarrow> cookie_lines cookies bytes st ls)"

definition cookie_header_lines :: "hdr \<Rightarrow> string list" where
  "cookie_header_lines h =
     hdr_Values h ''Cookie'' @
     concat (map snd (filter (\<lambda>(k, vs). k \<noteq> ''Cookie'' \<and> EqualFold k ''Cookie'') h))"

definition evaluateCookieBypass :: "hdr \<Rightarrow> CachePolicy \<Rightarrow> string" where
  "evaluateCookieBypass h pol =
     (if \<not> cp_BypassAnyCookie pol \<and> cp_BypassCookies pol = [] then []
      else
        (let lines = cookie_header_lines h in
         if lines = [] then []
         else if cp_BypassAnyCookie pol then ''cookie_bypass''
         else if length lines > maxCookieHeaderLines then ''cookie_bypass_malformed''
         else case cookie_lines (cp_BypassCookies pol) 0 (0, False) lines of
                None \<Rightarrow> ''cookie_bypass_malformed''
              | Some True \<Rightarrow> ''cookie_bypass''
              | Some False \<Rightarrow> []))"

subsection \<open>The policy digest covers the policy\<close>

lemma char_of_eq_iff: "n < 256 \<Longrightarrow> m < 256 \<Longrightarrow> char_of (n :: nat) = char_of m \<longleftrightarrow> n = m"
  by (metis mod_less of_char_of)

lemma Uvarint_prefix: "Uvarint n @ r = Uvarint m @ r' \<Longrightarrow> n = m \<and> r = r'"
proof (induction n arbitrary: m rule: less_induct)
  case (less n)
  show ?case
  proof (cases "n < 128")
    case True
    then have "m < 128" using less.prems
      by (subst (asm) (1 2) Uvarint.simps) (auto simp: char_of_eq_iff split: if_splits)
    with True show ?thesis using less.prems
      by (subst (asm) (1 2) Uvarint.simps) (auto simp: char_of_eq_iff)
  next
    case n: False
    then have m: "\<not> m < 128" using less.prems
      by (subst (asm) (1 2) Uvarint.simps) (auto simp: char_of_eq_iff split: if_splits)
    have "n mod 128 = m mod 128 \<and> Uvarint (n div 128) @ r = Uvarint (m div 128) @ r'"
      using less.prems n m by (subst (asm) (1 2) Uvarint.simps) (auto simp: char_of_eq_iff)
    moreover from this have "n div 128 = m div 128 \<and> r = r'" using n by (intro less.IH) auto
    ultimately show ?thesis by (metis div_mult_mod_eq)
  qed
qed

interpretation uvarint: prefix_code Uvarint
  by unfold_locales (rule Uvarint_prefix)

interpretation framed: prefix_code appendString
proof
  fix a b r r' :: string
  assume "appendString a @ r = appendString b @ r'"
  then have "Uvarint (length a) @ (a @ r) = Uvarint (length b) @ (b @ r')" by (simp add: appendString_def)
  then have "length a = length b \<and> a @ r = b @ r'" by (rule Uvarint_prefix)
  then show "a = b \<and> r = r'" using append_eq_append_conv by blast
qed

definition policy_wf :: "CachePolicy \<Rightarrow> bool" where
  "policy_wf p \<longleftrightarrow>
     list_all (\<lambda>x. - (2 ^ 63) \<le> x \<and> x < 2 ^ 63)
       [cp_DefaultTTL p, cp_StaleWhileRevalidate p, cp_StaleIfError p, cp_MemoryMaxBytes p,
        cp_MaxEntryBytes p, cp_LockTimeout p, cp_MaxRanges p, cp_MaxTTL p] \<and>
     length (cp_TagHeaders p) \<le> maxTagHeaders \<and> length (cp_BypassCookies p) \<le> MaxBypassCookies"

text \<open>The part of a policy that can change a decision about an entry.\<close>

definition policy_view :: "CachePolicy \<Rightarrow> CachePolicy" where
  "policy_view p = p\<lparr>cp_DecisionSamples := False, cp_MultiRouteOverlap := False, cp_varyGuard := None\<rparr>"

lemma to_uint64_inj:
  assumes "to_uint64 x = to_uint64 y" and "- (2 ^ 63) \<le> x" "x < 2 ^ 63" and "- (2 ^ 63) \<le> y" "y < 2 ^ 63"
  shows "x = y"
proof -
  have "x mod 2 ^ 64 = y mod 2 ^ 64" using assms(1) by (simp add: to_uint64_def nat_eq_iff2)
  then have "(x + 2 ^ 63) mod 2 ^ 64 = (y + 2 ^ 63) mod 2 ^ 64" by (metis mod_add_left_eq)
  then show ?thesis using assms(2-) by simp
qed

lemma length_pad [simp]: "length (pad n xs) = n"
  by (simp add: pad_def)

lemma pad_inj:
  assumes "pad n xs = pad n ys" and "length xs = length ys" and "length xs \<le> n"
  shows "xs = ys"
  using assms by (simp add: pad_def)

lemma flag_bytes_inj: "map flag_byte bs = map flag_byte cs \<Longrightarrow> bs = cs"
  by (rule map_injective) (auto simp: inj_def flag_byte_def split: if_splits)

lemma policy_bytes_parts:
  assumes "policy_bytes p = policy_bytes q"
  shows "policy_numbers p = policy_numbers q" and "policy_flags p = policy_flags q"
    and "policy_strings p = policy_strings q"
proof -
  have len: "length (policy_numbers p) = length (policy_numbers q)"
    "length (map flag_byte (policy_flags p)) = length (map flag_byte (policy_flags q))"
    "length (policy_strings p) = length (policy_strings q)"
    by (simp_all add: policy_numbers_def policy_flags_def policy_strings_def)
  from assms have "concat (map Uvarint (policy_numbers p)) @ map flag_byte (policy_flags p) @ concat (map appendString (policy_strings p))
    = concat (map Uvarint (policy_numbers q)) @ map flag_byte (policy_flags q) @ concat (map appendString (policy_strings q))"
    by (simp add: policy_bytes_def)
  from uvarint.enc_list_prefix [OF len(1) this]
  have num: "policy_numbers p = policy_numbers q"
    and rest: "map flag_byte (policy_flags p) @ concat (map appendString (policy_strings p)) =
       map flag_byte (policy_flags q) @ concat (map appendString (policy_strings q))" by blast+
  show "policy_numbers p = policy_numbers q" by (rule num)
  from rest len(2) have "map flag_byte (policy_flags p) = map flag_byte (policy_flags q)"
    and str: "concat (map appendString (policy_strings p)) = concat (map appendString (policy_strings q))"
    by (simp_all add: append_eq_append_conv)
  then show "policy_flags p = policy_flags q" using flag_bytes_inj by blast
  show "policy_strings p = policy_strings q" using framed.enc_list_prefix [OF len(3), of "[]" "[]"] str by simp
qed

lemma policy_bytes_inj:
  assumes "policy_bytes p = policy_bytes q" and "policy_wf p" and "policy_wf q"
  shows "policy_view p = policy_view q"
proof -
  note parts = policy_bytes_parts [OF assms(1)]
  have lens: "length (cp_TagHeaders p) = length (cp_TagHeaders q)" "length (cp_BypassCookies p) = length (cp_BypassCookies q)"
    and "unat (cp_RouteEpoch p) = unat (cp_RouteEpoch q)" using parts(1) by (simp_all add: policy_numbers_def)
  then have epoch: "cp_RouteEpoch p = cp_RouteEpoch q" by (simp add: word_unat_eq_iff)
  from parts(3) have "pad maxTagHeaders (cp_TagHeaders p) = pad maxTagHeaders (cp_TagHeaders q)"
    "pad MaxBypassCookies (cp_BypassCookies p) = pad MaxBypassCookies (cp_BypassCookies q)"
    and scope: "cp_RouteScope p = cp_RouteScope q"
    by (simp_all add: policy_strings_def append_eq_append_conv)
  then have lists: "cp_TagHeaders p = cp_TagHeaders q" "cp_BypassCookies p = cp_BypassCookies q"
    using lens assms(2) by (auto intro: pad_inj simp: policy_wf_def)
  have "cp_DefaultTTL p = cp_DefaultTTL q" "cp_StaleWhileRevalidate p = cp_StaleWhileRevalidate q"
    "cp_StaleIfError p = cp_StaleIfError q" "cp_MemoryMaxBytes p = cp_MemoryMaxBytes q"
    "cp_MaxEntryBytes p = cp_MaxEntryBytes q" "cp_LockTimeout p = cp_LockTimeout q"
    "cp_MaxRanges p = cp_MaxRanges q" "cp_MaxTTL p = cp_MaxTTL q"
    using parts(1) assms(2,3) by (simp_all add: policy_numbers_def policy_wf_def to_uint64_inj)
  then show ?thesis using parts(2) epoch scope lists
    by (intro CachePolicy.equality) (simp_all add: policy_view_def policy_flags_def)
qed

text \<open>C30: The digest that decides whether a stored entry may be reused as it stands identifies the
  policy: two policies with the same digest agree on every field that can change the decision,
  when SHA-256 does not collide on their encodings. The encoding is self-delimiting, so neither a number
  nor a name of any length can make two different policies look alike.\<close>

theorem policyID_identifies:
  assumes "policyID sha p = policyID sha q" and "inj_on sha {policy_bytes p, policy_bytes q}"
    and "policy_wf p" and "policy_wf q"
  shows "policy_view p = policy_view q"
proof (rule policy_bytes_inj [OF _ assms(3,4)])
  have "sha (policy_bytes p) = sha (policy_bytes q)" using assms(1) by (simp only: policyID_def)
  then show "policy_bytes p = policy_bytes q" by (rule inj_onD [OF assms(2) _ insertI1 insertI2 [OF insertI1]])
qed

lemma policy_bytes_overlap: "policy_bytes (p\<lparr>cp_MultiRouteOverlap := b\<rparr>) = policy_bytes p"
  by (simp only: policy_bytes_def policy_numbers_def policy_flags_def policy_strings_def) simp

lemma zero_policy_wf: "policy_wf zero_policy" "policy_wf (zero_policy\<lparr>cp_MultiRouteOverlap := True\<rparr>)"
  by (simp_all add: policy_wf_def zero_policy_def)

theorem policyID_identifies_witness:
  "policy_view (zero_policy\<lparr>cp_MultiRouteOverlap := True\<rparr>) = policy_view zero_policy"
  by (rule policyID_identifies [where sha = "\<lambda>s. s", OF _ _ zero_policy_wf(2) zero_policy_wf(1)])
    (simp_all only: policyID_def policy_bytes_overlap inj_on_id2)

subsection \<open>Cookie bypass fails closed\<close>

lemma cookie_pairs_sound:
  "cookie_pairs cookies (n, matched) segs = Some (n', False) \<Longrightarrow>
   \<not> matched \<and> (\<forall>seg \<in> set segs. \<exists>name. cookie_pair seg = Some name \<and> \<not> list_ex (EqualFold name) cookies)"
proof (induction segs arbitrary: n matched)
  case (Cons seg segs)
  then show ?case by (fastforce split: if_splits option.splits)
qed simp

lemma cookie_lines_sound:
  "cookie_lines cookies bytes (n, matched) lines = Some False \<Longrightarrow>
   \<not> matched \<and> (\<forall>line \<in> set lines. \<forall>seg \<in> set (Split line (CHR '';'')).
     \<exists>name. cookie_pair seg = Some name \<and> \<not> list_ex (EqualFold name) cookies)"
proof (induction lines arbitrary: bytes n matched)
  case (Cons line lines)
  then obtain n' m' where st: "cookie_pairs cookies (n, matched) (Split line (CHR '';'')) = Some (n', m')"
    "cookie_lines cookies (bytes + length line) (n', m') lines = Some False"
    by (auto simp: Let_def split: if_splits option.splits)
  from Cons.IH [OF st(2)] have "\<not> m'" by blast
  with st(1) cookie_pairs_sound [of cookies n matched _ n'] Cons.IH [OF st(2)] show ?case by auto
qed simp

text \<open>When the cache may be consulted, every cookie of the request was well formed and none of
  them has a configured name, in any case.\<close>

lemma evaluateCookieBypass_sound:
  assumes "evaluateCookieBypass h pol = []" and "cp_BypassAnyCookie pol \<or> cp_BypassCookies pol \<noteq> []"
    and "line \<in> set (cookie_header_lines h)" and "seg \<in> set (Split line (CHR '';''))"
  shows "\<not> cp_BypassAnyCookie pol \<and>
    (\<exists>name. cookie_pair seg = Some name \<and> \<not> list_ex (EqualFold name) (cp_BypassCookies pol))"
proof -
  have "\<not> cp_BypassAnyCookie pol" "cookie_lines (cp_BypassCookies pol) 0 (0, False) (cookie_header_lines h) = Some False"
    using assms by (auto simp: evaluateCookieBypass_def Let_def split: if_splits option.splits bool.splits)
  with cookie_lines_sound [OF this(2)] assms(3,4) show ?thesis by blast
qed

text \<open>The digest of the bypass rules, in contrast, does not separate a route that bypasses the
  cookie named \<^verbatim>\<open>any\<close> from a route that bypasses every cookie.\<close>

lemma bypass_digest_collision:
  "bypassPolicyDigest sha (zero_policy\<lparr>cp_BypassAnyCookie := True\<rparr>) =
   bypassPolicyDigest sha (zero_policy\<lparr>cp_BypassCookies := [''any'']\<rparr>)"
  by (simp add: bypassPolicyDigest_def bypass_bytes_def zero_policy_def)

end
