(* ===== verification/Cache_Decision.thy ===== *)
theory Cache_Decision
  imports Cache_Policy
begin

text \<open>
  The decisions of the cache engine, \<^verbatim>\<open>src/internal/cache/cache.go\<close> and \<^verbatim>\<open>merge.go\<close>:
  whether and for how long a response may be stored, the entry that is built from it, whether
  an entry may answer a request, and the merge of a 304 into a stored entry. From
  \<^verbatim>\<open>http.go\<close> come the hop-by-hop fields and conditional requests, from
  \<^verbatim>\<open>inspection.go\<close> the evidence kept with an entry, from \<^verbatim>\<open>validate.go\<close> the reuse of a
  validated entry.

  A reason that the code records when it refuses is the left value of a sum.
\<close>

subsection \<open>Freshness\<close>

definition cacheableStatus :: "int \<Rightarrow> bool" where
  "cacheableStatus status \<longleftrightarrow> status \<in> {200, 203, 301, 404, 410}"

text \<open>The latest parseable \<^verbatim>\<open>Date\<close>, or the given time.\<close>

fun date_base :: "timelib \<Rightarrow> nanos \<Rightarrow> bool \<Rightarrow> string list \<Rightarrow> nanos" where
  "date_base tb base foundDate [] = base"
| "date_base tb base foundDate (v # vs) =
     (case tl_ParseTime tb v of
        Some d \<Rightarrow>
          if \<not> foundDate \<or> d > base then date_base tb d True vs else date_base tb base foundDate vs
      | None \<Rightarrow> date_base tb base foundDate vs)"

text \<open>The lifetime the response or the policy gives, with its source, or nothing where
  \<^verbatim>\<open>Expires\<close> is repeated or malformed.\<close>

definition explicit_ttl ::
  "timelib \<Rightarrow> hdr \<Rightarrow> responsePolicy \<Rightarrow> nanos \<Rightarrow> CachePolicy \<Rightarrow> (duration \<times> string) option" where
  "explicit_ttl tb h p now pol =
     (let default = (cp_DefaultTTL pol,
                     if cp_HasRouteDefaultTTL pol then ''route_default_ttl'' else ''gateway_fallback'') in
      if rp_HasSMaxAge p then Some (rp_SMaxAge p, ''origin_s_maxage'')
      else if rp_HasMaxAge p then Some (rp_MaxAge p, ''origin_max_age'')
      else if \<not> rp_Targeted p then
        (case hdr_Values h ''Expires'' of
           [] \<Rightarrow> Some default
         | [ex] \<Rightarrow>
             (case parseCacheDate tb ex now of
                None \<Rightarrow> None
              | Some expiry \<Rightarrow>
                  Some (time_Sub expiry (date_base tb now False (hdr_Values h ''Date'')), ''origin_expires''))
         | _ \<Rightarrow> None)
      else Some default)"

definition cap_ttl :: "CachePolicy \<Rightarrow> duration \<times> string \<Rightarrow> duration \<times> string" where
  "cap_ttl pol ts =
     (if cp_HasMaxTTL pol \<and> fst ts > cp_MaxTTL pol then (cp_MaxTTL pol, ''route_max_ttl_cap'') else ts)"

definition freshnessDecision ::
  "timelib \<Rightarrow> int \<Rightarrow> hdr \<Rightarrow> responsePolicy \<Rightarrow> nanos \<Rightarrow> CachePolicy \<Rightarrow> (duration \<times> duration \<times> string) option" where
  "freshnessDecision tb status h p now pol =
     (if \<not> cacheableStatus status then None
      else if length (hdr_Values h ''ETag'') > 1 \<or> length (hdr_Values h ''Last-Modified'') > 1 then None
      else if rp_NoStore p then None
      else if rp_Private p then None
      else if hasHeaderField h ''Set-Cookie'' then None
      else case explicit_ttl tb h p now pol of
             None \<Rightarrow> None
           | Some ts0 \<Rightarrow>
               (let (ttl, source) = cap_ttl pol ts0 in
                if ttl \<le> 0 \<and> \<not> rp_NoCache p then None
                else if rp_NoCache p \<and> cp_HasMaxTTL pol \<and> cp_MaxTTL pol \<le> 0 then None
                else
                  (let (ttl, source) =
                         (if rp_NoCache p \<and> ttl \<le> 0 then
                            cap_ttl pol (cp_DefaultTTL pol,
                              if cp_HasRouteDefaultTTL pol then ''route_default_ttl_no_cache''
                              else ''gateway_fallback_no_cache'')
                          else (ttl, source));
                       swr = (if rp_HasSWR p then rp_SWR p else cp_StaleWhileRevalidate pol);
                       swr = (if revalidationRequired p \<or> rp_NoCache p then 0 else swr) in
                   if rp_NoCache p \<and> ttl \<le> 0 then None
                   else Some (ttl, swr, if rp_Targeted p then ''targeted_'' @ source else source))))"

text \<open>The age of a response on arrival.\<close>

definition initialAge :: "timelib \<Rightarrow> hdr \<Rightarrow> nanos \<Rightarrow> duration" where
  "initialAge tb h now =
     (let apparent = foldl (\<lambda>a v. case tl_ParseTime tb v of
                                     Some d \<Rightarrow> if time_Sub now d > a then time_Sub now d else a
                                   | None \<Rightarrow> a) 0 (hdr_Values h ''Date'');
          aged = parseAge (hdr_Values h ''Age'') in
      if aged > apparent then aged else apparent)"

definition staleOnErrorWindowWithPolicy :: "Entry \<Rightarrow> CachePolicy \<Rightarrow> duration" where
  "staleOnErrorWindowWithPolicy e pol =
     (if en_MustRevalidate e then 0
      else if en_HasStaleIfError e then en_StaleIfError e
      else if en_RequiresValidation e then 0
      else cp_StaleIfError pol)"

subsection \<open>Evidence\<close>

definition freshnessSources :: "string list" where
  "freshnessSources =
     [[], ''gateway_fallback'', ''origin_s_maxage'', ''origin_max_age'', ''origin_expires'',
      ''gateway_fallback_no_cache'', ''targeted_gateway_fallback'', ''targeted_origin_s_maxage'',
      ''targeted_origin_max_age'', ''targeted_gateway_fallback_no_cache'', ''route_default_ttl'',
      ''route_default_ttl_no_cache'', ''targeted_route_default_ttl'', ''targeted_route_default_ttl_no_cache'',
      ''route_max_ttl_cap'', ''targeted_route_max_ttl_cap'']"

definition windowSources :: "string list" where
  "windowSources = [[], ''gateway_fallback'', ''origin'', ''mandatory_validation'', ''route_policy'']"

definition known_source :: "string \<Rightarrow> string list \<Rightarrow> string" where
  "known_source s values = (if s \<in> set values then s else [])"

definition entryEvidenceForRequest ::
  "cachelib \<Rightarrow> hdr option \<Rightarrow> int \<Rightarrow> hdr \<Rightarrow> responsePolicy \<Rightarrow> CachePolicy \<Rightarrow> nanos \<Rightarrow> duration \<Rightarrow>
   duration \<Rightarrow> publicationEvidence" where
  "entryEvidenceForRequest lib r status h p pol now ttl swr =
     (let source = (case freshnessDecision (cl_time lib) status h p now pol of
                      None \<Rightarrow> [] | Some (_, _, s) \<Rightarrow> s);
          forced = (revalidationRequired p \<or> rp_NoCache p);
          sie_forced = (revalidationRequired p \<or> (rp_NoCache p \<and> \<not> rp_HasSIE p));
          swrSource = (if forced then ''mandatory_validation'' else if rp_HasSWR p then ''origin''
                       else if cp_HasRouteSWR pol then ''route_policy'' else ''gateway_fallback'');
          sie = (if sie_forced then 0 else if rp_HasSIE p then rp_SIE p else cp_StaleIfError pol);
          sieSource = (if sie_forced then ''mandatory_validation'' else if rp_HasSIE p then ''origin''
                       else if cp_HasRouteSIE pol then ''route_policy'' else ''gateway_fallback'') in
      \<lparr>ev_InsertedAt = UnixNano now, ev_ValidatedAt = 0, ev_PolicyID = policyID (cl_sha lib) pol,
       ev_SWR = swr, ev_SIE = sie, ev_FreshnessSource = known_source source freshnessSources,
       ev_SWRSource = known_source swrSource windowSources,
       ev_SIESource = known_source sieSource windowSources,
       ev_NoCache = rp_NoCache p, ev_MustRevalidate = revalidationRequired p,
       ev_SharedAuthReuse = sharedAuthReuse p, ev_StaleIfError = False, ev_StaleBasisKnown = True,
       ev_NoRequestCookies = (case r of None \<Rightarrow> False | Some rh \<Rightarrow> hdr_Values rh ''Cookie'' = [])\<rparr>)"

definition markStaleIfError :: "Entry \<Rightarrow> Entry" where
  "markStaleIfError e =
     e\<lparr>en_Evidence := map_option (\<lambda>ev. ev\<lparr>ev_StaleIfError := True, ev_StaleBasisKnown := True\<rparr>) (en_Evidence e)\<rparr>"

subsection \<open>Storing\<close>

definition hopByHopHeaders :: "string list" where
  "hopByHopHeaders =
     [''Connection'', ''Proxy-Connection'', ''Keep-Alive'', ''Proxy-Authenticate'',
      ''Proxy-Authorization'', ''Te'', ''Trailer'', ''Transfer-Encoding'', ''Upgrade'', ''X-Jul-WAF-Event'']"

definition removeHopByHop :: "hdr \<Rightarrow> hdr" where
  "removeHopByHop h =
     foldl hdr_Del h (concat (map parseList (hdr_Values h ''Connection'')) @ hopByHopHeaders)"

definition declaredLength :: "hdr \<Rightarrow> int" where
  "declaredLength h =
     (case hdr_Values h ''Content-Length'' of
        [v] \<Rightarrow> (case ParseInt64 (TrimSpace v) of Inr n \<Rightarrow> if n < 0 then - 1 else n | Inl _ \<Rightarrow> - 1)
      | _ \<Rightarrow> - 1)"

definition storageReason ::
  "cachelib \<Rightarrow> hdr \<Rightarrow> int \<Rightarrow> hdr \<Rightarrow> nanos \<Rightarrow> CachePolicy \<Rightarrow> string" where
  "storageReason lib rh status h now pol =
     (let p = parseResponsePolicy (cl_sfv lib) h in
      if freshnessDecision (cl_time lib) status h p now pol = None then
        (if rp_NoStore p then ''response_no_store''
         else if rp_Private p then ''response_private''
         else if hasHeaderField h ''Set-Cookie'' then ''response_set_cookie''
         else ''response_policy_rejected'')
      else if varyRejectionHeader (cl_valid lib) (Some rh) (cp_varyGuard pol) h \<noteq> []
        then varyRejectionHeader (cl_valid lib) (Some rh) (cp_varyGuard pol) h
      else if hasHeaderField rh ''Authorization'' \<and> \<not> sharedAuthStorable p then ''auth_storage_restricted''
      else if ''*'' \<in> set (varyFields h) then ''vary_star''
      else [])"

definition stored_header :: "timelib \<Rightarrow> hdr \<Rightarrow> nanos \<Rightarrow> CachePolicy \<Rightarrow> hdr" where
  "stored_header tb h now pol =
     (let stored = removeHopByHop h;
          stored = (if cp_StripTagHeaders pol \<and> cp_TagHeaders pol \<noteq> []
                    then stripTagHeaders stored (cp_TagHeaders pol) else stored) in
      if \<not> hasHeaderField stored ''Date'' then hdr_Set stored ''Date'' (tl_Format tb TimeFormat now) else stored)"

text \<open>The entry, as the code fills the struct.\<close>

definition new_entry ::
  "cachelib \<Rightarrow> hdr \<Rightarrow> int \<Rightarrow> hdr \<Rightarrow> string \<Rightarrow> nanos \<Rightarrow> CachePolicy \<Rightarrow> string list \<Rightarrow> duration \<Rightarrow> duration \<Rightarrow> Entry" where
  "new_entry lib rh status h body now pol tags ttl swr =
     (let p = parseResponsePolicy (cl_sfv lib) h;
          created = now - initialAge (cl_time lib) h now;
          vary = varyFields h in
      \<lparr>en_Evidence = Some (entryEvidenceForRequest lib (Some rh) status h p pol now ttl swr),
       en_Status = status, en_Header = stored_header (cl_time lib) h now pol,
       en_Body = body, en_diskBody = None,
       en_CreatedAt = created, en_ExpiresAt = created + ttl, en_StaleUntil = created + wrap64 (ttl + swr),
       en_ETag = hdr_Get h ''ETag'', en_LastModified = hdr_Get h ''Last-Modified'',
       en_RequiresValidation = rp_NoCache p, en_MustRevalidate = revalidationRequired p,
       en_SharedAuthReuse = sharedAuthReuse p, en_StaleIfError = rp_SIE p, en_HasStaleIfError = rp_HasSIE p,
       en_Vary = vary, en_VaryValues = map (\<lambda>name. (name, varyRequestValue rh name)) vary,
       en_IsVaryStub = False, en_Variants = [], en_Tags = tags,
       en_ingestedTagHeaders = cp_TagHeaders pol, en_tagPolicyTracked = True,
       en_RouteScope = cp_RouteScope pol, en_RouteEpoch = cp_RouteEpoch pol,
       en_BypassDigest = bypassPolicyDigest (cl_sha lib) pol,
       en_RouteConfigDigest = routeConfigDigest (cl_sha lib) pol, en_RouteVary = []\<rparr>)"

definition buildEntryFromCapture ::
  "cachelib \<Rightarrow> crequest \<Rightarrow> int \<Rightarrow> hdr \<Rightarrow> string \<Rightarrow> int \<Rightarrow> bool \<Rightarrow> nanos \<Rightarrow> CachePolicy \<Rightarrow> string + Entry" where
  "buildEntryFromCapture lib r status h body bodyLen streamBacked now pol =
     (if cr_Method r \<noteq> ''HEAD'' \<and> declaredLength h \<ge> 0 \<and> bodyLen \<noteq> declaredLength h
      then Inl ''capture_incomplete''
      else
        (let (parsedTags, _, skipReason) =
               (if cp_TagHeaders pol \<noteq> [] then extractOriginTags h (cp_TagHeaders pol) else ([], False, []));
             p = parseResponsePolicy (cl_sfv lib) h in
         if skipReason \<noteq> [] then Inl ''tag_capture_rejected''
         else case freshnessDecision (cl_time lib) status h p now pol of
                None \<Rightarrow> Inl (storageReason lib (cr_Header r) status h now pol)
              | Some (ttl, swr, _) \<Rightarrow>
                  if varyRejectionHeader (cl_valid lib) (Some (cr_Header r)) (cp_varyGuard pol) h \<noteq> []
                  then Inl (varyRejectionHeader (cl_valid lib) (Some (cr_Header r)) (cp_varyGuard pol) h)
                  else if hasHeaderField (cr_Header r) ''Authorization'' \<and> \<not> sharedAuthStorable p
                  then Inl ''auth_storage_restricted''
                  else if ''*'' \<in> set (varyFields h) then Inl ''vary_star''
                  else Inr (new_entry lib (cr_Header r) status h (if streamBacked then [] else body) now pol
                              parsedTags ttl swr)))"

subsection \<open>Reuse\<close>

datatype reuseKind = reuseNone | reuseHit | reuseStale | reuseValidate

definition reuseDecision :: "Entry \<Rightarrow> hdr \<Rightarrow> requestPolicy \<Rightarrow> nanos \<Rightarrow> reuseKind" where
  "reuseDecision e rh p now =
     (if hasHeaderField rh ''Authorization'' \<and> \<not> en_SharedAuthReuse e then reuseNone
      else
        (let mustValidate = (rqp_MustValidate p \<or> en_RequiresValidation e) in
         if \<not> mustValidate \<and> entry_Fresh e now then reuseHit
         else if \<not> mustValidate \<and> \<not> en_MustRevalidate e \<and> ServableStale e now then reuseStale
         else if en_ETag e = [] \<and> en_LastModified e = [] then reuseNone
         else reuseValidate))"

text \<open>The deadline, but not after the stored one.\<close>

definition not_after :: "nanos \<Rightarrow> nanos \<Rightarrow> nanos" where
  "not_after limit t = (if limit \<noteq> zero_time \<and> t > limit then limit else t)"

text \<open>The moment the entry was inserted or last validated.\<close>

definition reference_time :: "Entry \<Rightarrow> nanos" where
  "reference_time e =
     (case en_Evidence e of
        None \<Rightarrow> en_CreatedAt e
      | Some ev \<Rightarrow>
          if ev_ValidatedAt ev \<noteq> 0 then evidenceTime (ev_ValidatedAt ev)
          else if ev_InsertedAt ev \<noteq> 0 then evidenceTime (ev_InsertedAt ev)
          else en_CreatedAt e)"

definition no_request_cookies :: "Entry \<Rightarrow> bool" where
  "no_request_cookies e = (case en_Evidence e of None \<Rightarrow> False | Some ev \<Rightarrow> ev_NoRequestCookies ev)"

definition reuseDecisionWithIdentity ::
  "cachelib \<Rightarrow> Entry \<Rightarrow> hdr \<Rightarrow> requestPolicy \<Rightarrow> policyIdentity \<Rightarrow> nanos \<Rightarrow> reuseKind \<times> string" where
  "reuseDecisionWithIdentity lib e rh p identity now =
     (let pol = pi_policy identity in
      if hasHeaderField rh ''Authorization'' \<and> \<not> en_SharedAuthReuse e then (reuseNone, ''auth_reuse_restricted'')
      else if (cp_BypassAnyCookie pol \<or> cp_BypassCookies pol \<noteq> []) \<and> \<not> no_request_cookies e \<and>
              en_BypassDigest e \<noteq> pi_bypassDigest identity then (reuseNone, ''route_policy_mismatch'')
      else if map_option ev_PolicyID (en_Evidence e) = Some (pi_digest identity) then (reuseDecision e rh p now, [])
      else if en_Evidence e = None \<and> \<not> cp_HasRouteDefaultTTL pol \<and> \<not> cp_HasMaxTTL pol \<and>
              \<not> cp_HasRouteSWR pol \<and> \<not> cp_HasRouteSIE pol then (reuseDecision e rh p now, [])
      else
        (let respPol = parseResponsePolicy (cl_sfv lib) (en_Header e);
             refNow = reference_time e in
         case freshnessDecision (cl_time lib) (en_Status e) (en_Header e) respPol refNow pol of
           None \<Rightarrow> (reuseNone, ''route_policy_mismatch'')
         | Some (ttl, swr, _) \<Rightarrow>
             (let effExpiresAt = not_after (en_ExpiresAt e) (en_CreatedAt e + ttl);
                  sie = staleOnErrorWindowWithPolicy e pol;
                  effStaleUntil =
                    (if (case en_Evidence e of None \<Rightarrow> False | Some ev \<Rightarrow> ev_StaleIfError ev) then
                       (if sie \<le> 0 then effExpiresAt else not_after (en_StaleUntil e) (refNow + sie))
                     else not_after (en_StaleUntil e) (effExpiresAt + swr));
                  mustValidate = (rqp_MustValidate p \<or> en_RequiresValidation e) in
              if \<not> mustValidate \<and> now < effExpiresAt then (reuseHit, [])
              else if \<not> mustValidate \<and> \<not> en_MustRevalidate e \<and> now < effStaleUntil then (reuseStale, [])
              else if en_ETag e = [] \<and> en_LastModified e = [] then
                (if (en_ExpiresAt e \<noteq> zero_time \<and> effExpiresAt < en_ExpiresAt e \<and> now < en_ExpiresAt e) \<or>
                    (en_StaleUntil e \<noteq> zero_time \<and> effStaleUntil < en_StaleUntil e \<and> now < en_StaleUntil e)
                 then (reuseNone, ''route_policy_mismatch'') else (reuseNone, []))
              else (reuseValidate, []))))"

subsection \<open>Merging a 304\<close>

datatype mergeResult = mergeReplace Entry | mergeDiscard string

definition notModifiedExcluded :: "string list" where
  "notModifiedExcluded = [''Content-Length'', ''X-Cache'']"

definition merged_header :: "hdr \<Rightarrow> hdr \<Rightarrow> CachePolicy \<Rightarrow> hdr" where
  "merged_header stored h304 pol =
     (let merged = hdr_Del stored ''Warning'';
          update = foldl hdr_Del (removeHopByHop h304) notModifiedExcluded;
          merged = foldl (\<lambda>m (name, vs). AList.update name vs m) merged update in
      if cp_StripTagHeaders pol \<and> cp_TagHeaders pol \<noteq> [] then stripTagHeaders merged (cp_TagHeaders pol) else merged)"

definition merge_created :: "cachelib \<Rightarrow> hdr \<Rightarrow> hdr \<Rightarrow> nanos \<Rightarrow> nanos" where
  "merge_created lib h304 merged now =
     (if hasHeaderField h304 ''Date'' \<or> hasHeaderField h304 ''Age''
      then now - initialAge (cl_time lib) merged now else now)"

definition merge_evidence :: "publicationEvidence option \<Rightarrow> publicationEvidence \<Rightarrow> nanos \<Rightarrow> publicationEvidence" where
  "merge_evidence old ev now =
     (case old of
        Some o_ev \<Rightarrow>
          ev\<lparr>ev_InsertedAt := ev_InsertedAt o_ev,
             ev_NoRequestCookies := ev_NoRequestCookies ev \<and> ev_NoRequestCookies o_ev, ev_ValidatedAt := UnixNano now\<rparr>
      | None \<Rightarrow> ev\<lparr>ev_InsertedAt := 0, ev_NoRequestCookies := False, ev_ValidatedAt := UnixNano now\<rparr>)"

text \<open>The refreshed clone, before its tags.\<close>

definition refreshed_entry ::
  "cachelib \<Rightarrow> hdr option \<Rightarrow> Entry \<Rightarrow> hdr \<Rightarrow> hdr \<Rightarrow> nanos \<Rightarrow> CachePolicy \<Rightarrow> duration \<Rightarrow> duration \<Rightarrow> Entry" where
  "refreshed_entry lib req stored h304 merged now pol ttl swr =
     (let p = parseResponsePolicy (cl_sfv lib) merged;
          created = merge_created lib h304 merged now;
          ev = entryEvidenceForRequest lib req (en_Status stored) merged p pol now ttl swr in
      stored\<lparr>
        en_Header := merged, en_CreatedAt := created, en_RouteScope := cp_RouteScope pol,
        en_RouteEpoch := cp_RouteEpoch pol,
        en_BypassDigest := bypassPolicyDigest (cl_sha lib) pol,
        en_RouteConfigDigest := routeConfigDigest (cl_sha lib) pol,
        en_Evidence := Some (merge_evidence (en_Evidence stored) ev now), en_ExpiresAt := created + ttl,
        en_StaleUntil := created + wrap64 (ttl + swr),
        en_ETag := hdr_Get merged ''ETag'', en_LastModified := hdr_Get merged ''Last-Modified'',
        en_RequiresValidation := rp_NoCache p, en_MustRevalidate := revalidationRequired p,
        en_SharedAuthReuse := sharedAuthReuse p, en_StaleIfError := rp_SIE p,
        en_HasStaleIfError := rp_HasSIE p\<rparr>)"

definition refresh_tags :: "CachePolicy \<Rightarrow> string list \<Rightarrow> bool \<Rightarrow> Entry \<Rightarrow> Entry" where
  "refresh_tags pol tags304 present304 e =
     (if cp_TagHeaders pol = [] then e\<lparr>en_Tags := []\<rparr>
      else if present304 then
        e\<lparr>en_Tags := tags304, en_ingestedTagHeaders := cp_TagHeaders pol, en_tagPolicyTracked := True\<rparr>
      else e)"

definition merge304DecisionWithPolicy ::
  "cachelib \<Rightarrow> hdr option \<Rightarrow> Entry \<Rightarrow> hdr \<Rightarrow> nanos \<Rightarrow> CachePolicy \<Rightarrow> mergeResult" where
  "merge304DecisionWithPolicy lib req stored h304 now pol =
     (let guard = cp_varyGuard pol; valid = cl_valid lib;
          (tags304, present304, skipReason) =
            (if cp_TagHeaders pol \<noteq> [] then extractOriginTags h304 (cp_TagHeaders pol) else ([], False, []));
          merged = merged_header (en_Header stored) h304 pol;
          p = parseResponsePolicy (cl_sfv lib) merged in
      if varyRejectionEntry valid req guard stored \<noteq> [] then mergeDiscard (varyRejectionEntry valid req guard stored)
      else if varyRejectionHeader valid req guard h304 \<noteq> [] then mergeDiscard (varyRejectionHeader valid req guard h304)
      else if skipReason \<noteq> [] then mergeDiscard ''tag_capture_rejected''
      else if varyRejectionHeader valid req guard merged \<noteq> [] then mergeDiscard (varyRejectionHeader valid req guard merged)
      else if \<not> sameFields (en_Vary stored) (varyFields merged) then mergeDiscard ''vary_changed''
      else case freshnessDecision (cl_time lib) (en_Status stored) merged p now pol of
             None \<Rightarrow> mergeDiscard (storageReason lib [] (en_Status stored) merged now pol)
           | Some (ttl, swr, _) \<Rightarrow>
               mergeReplace (refresh_tags pol tags304 present304
                 (refreshed_entry lib req stored h304 merged now pol ttl swr)))"

subsection \<open>Validated entries and conditional requests\<close>

definition validatedReusable :: "Entry \<Rightarrow> hdr \<Rightarrow> bool" where
  "validatedReusable e rh \<longleftrightarrow>
     \<not> en_IsVaryStub e \<and> matchesVary e rh \<and> (\<not> hasHeaderField rh ''Authorization'' \<or> en_SharedAuthReuse e)"

definition validatedReusableWithPolicy :: "cachelib \<Rightarrow> Entry \<Rightarrow> hdr \<Rightarrow> CachePolicy \<Rightarrow> bool" where
  "validatedReusableWithPolicy lib e rh pol \<longleftrightarrow>
     validatedReusable e rh \<and>
     varyRejectionEntry (cl_valid lib) (Some rh) (cp_varyGuard pol) e = [] \<and>
     (if cp_RouteScope pol \<noteq> [] \<or> en_RouteScope e \<noteq> []
      then en_RouteScope e = cp_RouteScope pol \<and> en_RouteEpoch e = cp_RouteEpoch pol else True) \<and>
     (if cp_BypassAnyCookie pol \<or> cp_BypassCookies pol \<noteq> []
      then no_request_cookies e \<or> en_BypassDigest e = bypassPolicyDigest (cl_sha lib) pol else True)"

text \<open>The scan of one \<^verbatim>\<open>If-None-Match\<close> line: its parts, and whether a quote stays open.\<close>

fun etag_parts :: "bool \<Rightarrow> string \<Rightarrow> string list \<times> bool" where
  "etag_parts quoted [] = ([[]], quoted)"
| "etag_parts quoted (c # s) =
     (let quoted = (if c = CHR 0x22 then \<not> quoted else quoted);
          (ps, unclosed) = etag_parts quoted s in
      (if c = CHR '','' \<and> \<not> quoted then [] # ps else cons_head c ps, unclosed))"

definition matchesIfNoneMatch :: "string list \<Rightarrow> string \<Rightarrow> bool" where
  "matchesIfNoneMatch flds stored =
     (if length flds = 1 \<and> TrimSpace (flds ! 0) = ''*'' then True
      else case opaqueETag stored of
             None \<Rightarrow> False
           | Some want \<Rightarrow>
               (let parts = filter (\<lambda>p. p \<noteq> []) (map TrimSpace (concat (map (fst \<circ> etag_parts False) flds))) in
                list_all (\<lambda>p. opaqueETag p \<noteq> None) parts \<and>
                list_all (\<lambda>line. \<not> snd (etag_parts False line)) flds \<and>
                list_ex (\<lambda>p. opaqueETag p = Some want) parts))"

definition notModified :: "timelib \<Rightarrow> hdr \<Rightarrow> Entry \<Rightarrow> bool" where
  "notModified tb rh e =
     (let inm = hdr_Values rh ''If-None-Match'' in
      if inm \<noteq> [] then matchesIfNoneMatch inm (en_ETag e)
      else case hdr_Values rh ''If-Modified-Since'' of
             [ims] \<Rightarrow>
               en_LastModified e \<noteq> [] \<and>
               (case (tl_ParseTime tb ims, tl_ParseTime tb (en_LastModified e)) of
                  (Some t1, Some t2) \<Rightarrow> \<not> t2 > t1 | _ \<Rightarrow> False)
           | _ \<Rightarrow> False)"

subsection \<open>What a decision guarantees\<close>

lemma freshness_facts:
  assumes "freshnessDecision tb status h p now pol = Some (ttl, swr, source)"
  shows "cacheableStatus status" and "\<not> rp_NoStore p" and "\<not> rp_Private p" and "\<not> hasHeaderField h ''Set-Cookie''"
    and "0 < ttl" and "cp_HasMaxTTL pol \<Longrightarrow> ttl \<le> cp_MaxTTL pol"
    and "revalidationRequired p \<or> rp_NoCache p \<Longrightarrow> swr = 0"
  using assms
  by (auto simp: freshnessDecision_def cap_ttl_def Let_def split: if_splits option.splits prod.splits)

text \<open>Both ways to decide on an entry pass the same gate.\<close>

lemma reuse_gate:
  assumes "reuseDecisionWithIdentity lib e rh p identity now = (k, reason)" and "k = reuseHit \<or> k = reuseStale"
    and "en_ExpiresAt e \<noteq> zero_time" and "en_StaleUntil e \<noteq> zero_time"
  shows "\<not> rqp_MustValidate p" and "\<not> en_RequiresValidation e"
    and "hasHeaderField rh ''Authorization'' \<Longrightarrow> en_SharedAuthReuse e"
    and "k = reuseHit \<Longrightarrow> now < en_ExpiresAt e"
    and "k = reuseStale \<Longrightarrow> \<not> en_MustRevalidate e \<and> now < en_StaleUntil e"
  using assms
  by (auto simp: reuseDecisionWithIdentity_def reuseDecision_def entry_Fresh_def ServableStale_def not_after_def
      Let_def split: if_splits option.splits prod.splits)

lemma reuse_route_cap:
  assumes "reuseDecisionWithIdentity lib e rh p identity now = (reuseHit, reason)"
    and "map_option ev_PolicyID (en_Evidence e) \<noteq> Some (pi_digest identity)"
    and "cp_HasMaxTTL (pi_policy identity)"
  shows "now < en_CreatedAt e + cp_MaxTTL (pi_policy identity)"
proof -
  from assms obtain ttl swr source where
    f: "freshnessDecision (cl_time lib) (en_Status e) (en_Header e) (parseResponsePolicy (cl_sfv lib) (en_Header e))
      (reference_time e) (pi_policy identity) = Some (ttl, swr, source)"
    and "now < not_after (en_ExpiresAt e) (en_CreatedAt e + ttl)"
    by (auto simp: reuseDecisionWithIdentity_def Let_def split: if_splits option.splits prod.splits)
  moreover have "not_after (en_ExpiresAt e) (en_CreatedAt e + ttl) \<le> en_CreatedAt e + ttl" by (simp add: not_after_def)
  ultimately show ?thesis using freshness_facts(6) [OF f assms(3)] by linarith
qed

lemma build_facts:
  assumes "buildEntryFromCapture lib r status h body n sb now pol = Inr e"
  shows "\<exists>ttl swr source tags.
    freshnessDecision (cl_time lib) status h (parseResponsePolicy (cl_sfv lib) h) now pol = Some (ttl, swr, source) \<and>
    varyRejectionHeader (cl_valid lib) (Some (cr_Header r)) (cp_varyGuard pol) h = [] \<and>
    (hasHeaderField (cr_Header r) ''Authorization'' \<longrightarrow> sharedAuthStorable (parseResponsePolicy (cl_sfv lib) h)) \<and>
    ''*'' \<notin> set (varyFields h) \<and>
    e = new_entry lib (cr_Header r) status h (if sb then [] else body) now pol tags ttl swr"
  using assms
  by (auto simp: buildEntryFromCapture_def Let_def split: if_splits option.splits prod.splits)

lemma new_entry_fields:
  "en_Status (new_entry lib rh status h body now pol tags ttl swr) = status"
  "en_Vary (new_entry lib rh status h body now pol tags ttl swr) = varyFields h"
  "en_VaryValues (new_entry lib rh status h body now pol tags ttl swr) =
     map (\<lambda>name. (name, varyRequestValue rh name)) (varyFields h)"
  "en_RequiresValidation (new_entry lib rh status h body now pol tags ttl swr) =
     rp_NoCache (parseResponsePolicy (cl_sfv lib) h)"
  "en_MustRevalidate (new_entry lib rh status h body now pol tags ttl swr) =
     revalidationRequired (parseResponsePolicy (cl_sfv lib) h)"
  "en_SharedAuthReuse (new_entry lib rh status h body now pol tags ttl swr) =
     sharedAuthReuse (parseResponsePolicy (cl_sfv lib) h)"
  "en_ExpiresAt (new_entry lib rh status h body now pol tags ttl swr) = now - initialAge (cl_time lib) h now + ttl"
  "en_StaleUntil (new_entry lib rh status h body now pol tags ttl swr) =
     now - initialAge (cl_time lib) h now + wrap64 (ttl + swr)"
  "en_CreatedAt (new_entry lib rh status h body now pol tags ttl swr) = now - initialAge (cl_time lib) h now"
  by (simp_all add: new_entry_def Let_def)

lemma merge_facts:
  assumes "merge304DecisionWithPolicy lib req stored h304 now pol = mergeReplace e"
  shows "\<exists>ttl swr source tags present. let m = merged_header (en_Header stored) h304 pol in
    freshnessDecision (cl_time lib) (en_Status stored) m (parseResponsePolicy (cl_sfv lib) m) now pol = Some (ttl, swr, source) \<and>
    sameFields (en_Vary stored) (varyFields m) \<and>
    varyRejectionHeader (cl_valid lib) req (cp_varyGuard pol) m = [] \<and>
    e = refresh_tags pol tags present (refreshed_entry lib req stored h304 m now pol ttl swr)"
  using assms by (auto simp: merge304DecisionWithPolicy_def Let_def split: if_splits option.splits prod.splits)

lemma refresh_tags_fields:
  "en_Body (refresh_tags pol ts pr e) = en_Body e" "en_diskBody (refresh_tags pol ts pr e) = en_diskBody e"
  "en_Status (refresh_tags pol ts pr e) = en_Status e" "en_Vary (refresh_tags pol ts pr e) = en_Vary e"
  "en_VaryValues (refresh_tags pol ts pr e) = en_VaryValues e" "en_Header (refresh_tags pol ts pr e) = en_Header e"
  "en_RequiresValidation (refresh_tags pol ts pr e) = en_RequiresValidation e"
  "en_MustRevalidate (refresh_tags pol ts pr e) = en_MustRevalidate e"
  "en_SharedAuthReuse (refresh_tags pol ts pr e) = en_SharedAuthReuse e"
  "en_ETag (refresh_tags pol ts pr e) = en_ETag e" "en_CreatedAt (refresh_tags pol ts pr e) = en_CreatedAt e"
  "en_ExpiresAt (refresh_tags pol ts pr e) = en_ExpiresAt e" "en_StaleUntil (refresh_tags pol ts pr e) = en_StaleUntil e"
  by (simp_all add: refresh_tags_def)

text \<open>The merge of the header, field by field.\<close>

lemma fold_update_lookup:
  "distinct (map fst us) \<Longrightarrow>
   map_of (foldl (\<lambda>m (name, vs). AList.update name vs m) m us) k = (case map_of us k of None \<Rightarrow> map_of m k | Some vs \<Rightarrow> Some vs)"
proof (induction us arbitrary: m)
  case (Cons u us)
  obtain n vs where u: "u = (n, vs)" by fastforce
  have "map_of us n = None" using Cons.prems u by (auto simp: map_of_eq_None_iff)
  then show ?case using Cons u by (auto simp: AList.update_conv' split: option.split)
qed simp

lemma hdr_Dels_Values:
  "hdr_Values (foldl hdr_Del h names) n =
   (if CanonicalMIMEHeaderKey n \<in> CanonicalMIMEHeaderKey ` set names then [] else hdr_Values h n)"
  by (induction names arbitrary: h) (auto simp: hdr_Values_Del)

lemma hdr_Dels_distinct: "distinct (map fst h) \<Longrightarrow> distinct (map fst (foldl hdr_Del h names))"
  by (induction names arbitrary: h) (auto simp: hdr_Del_def AList.distinct_delete)

lemma hdr_Dels_lookup:
  "map_of (foldl hdr_Del h names) k =
     (if k \<in> CanonicalMIMEHeaderKey ` set names then None else map_of h k)"
  by (induction names arbitrary: h) (auto simp: hdr_Del_def AList.delete_conv')

text \<open>The field is in the header and is meant for the cache: no hop-by-hop field, none that the
  connection nominates, and neither the length of the empty body nor the gateway's own mark.\<close>

definition carried :: "hdr \<Rightarrow> string \<Rightarrow> bool" where
  "carried h n \<longleftrightarrow>
     CanonicalMIMEHeaderKey n \<in> fst ` set h \<and>
     CanonicalMIMEHeaderKey n \<notin> CanonicalMIMEHeaderKey `
       (set (concat (map parseList (hdr_Values h ''Connection''))) \<union> set hopByHopHeaders \<union>
        {''Content-Length'', ''X-Cache''})"

lemma merged_header_Values:
  assumes "distinct (map fst h304)"
  shows "hdr_Values (merged_header stored h304 pol) n =
    (if cp_StripTagHeaders pol \<and> CanonicalMIMEHeaderKey n \<in> CanonicalMIMEHeaderKey ` set (cp_TagHeaders pol)
     then []
     else if carried h304 n then hdr_Values h304 n
     else if CanonicalMIMEHeaderKey n = CanonicalMIMEHeaderKey ''Warning'' then []
     else hdr_Values stored n)"
proof -
  let ?u = "foldl hdr_Del (removeHopByHop h304) notModifiedExcluded"
  let ?m = "foldl (\<lambda>m (name, vs). AList.update name vs m) (hdr_Del stored ''Warning'') ?u"
  have d: "distinct (map fst ?u)"
    unfolding removeHopByHop_def using assms by (intro hdr_Dels_distinct)
  have excl: "set notModifiedExcluded = {''Content-Length'', ''X-Cache''}"
    by (simp add: notModifiedExcluded_def)
  have k: "map_of h304 (CanonicalMIMEHeaderKey n) =
      (if CanonicalMIMEHeaderKey n \<in> fst ` set h304 then Some (hdr_Values h304 n) else None)"
    by (cases "map_of h304 (CanonicalMIMEHeaderKey n)")
       (auto simp: hdr_Values_def map_of_eq_None_iff intro: rev_image_eqI dest: map_of_SomeD)
  have u: "map_of ?u (CanonicalMIMEHeaderKey n) =
      (if carried h304 n then Some (hdr_Values h304 n) else None)"
    unfolding hdr_Dels_lookup removeHopByHop_def carried_def excl k by auto
  have "hdr_Values ?m n = (if carried h304 n then hdr_Values h304 n
      else if CanonicalMIMEHeaderKey n = CanonicalMIMEHeaderKey ''Warning'' then [] else hdr_Values stored n)"
    by (simp add: hdr_Values_def [of ?m] fold_update_lookup [OF d] u)
       (simp add: hdr_Values_def hdr_Del_def AList.delete_conv')
  then show ?thesis
    by (auto simp: merged_header_def Let_def stripTagHeaders_def hdr_Dels_Values)
qed

end
