(* ===== verification/Cache_Props.thy ===== *)
theory Cache_Props
  imports Cache_Decision
begin

text \<open>
  What the decisions of the cache promise together: the contract of a shared cache, the separation of
  variants, the refresh by a 304, and a deadline that overflows.
\<close>

text \<open>C27: The contract of a shared cache. When a response is stored and the stored entry later answers a
  request as it stands, fresh or stale, then the response had a cacheable status, did not say
  no-store, private or no-cache and set no cookie; the request did not
  ask for validation; if either request was authenticated, the response had explicitly allowed
  that; a hit lies within the lifetime of the response; and a stale answer lies within its
  window and is never given when the response demands revalidation.\<close>

theorem shared_cache_contract:
  assumes "buildEntryFromCapture lib r status h body n sb now pol = Inr e"
    and "reuseDecisionWithIdentity lib e rh p' identity now' = (k, reason)" and "k = reuseHit \<or> k = reuseStale"
    and "en_ExpiresAt e \<noteq> zero_time" and "en_StaleUntil e \<noteq> zero_time"
  shows "let p = parseResponsePolicy (cl_sfv lib) h; created = now - initialAge (cl_time lib) h now in
    cacheableStatus status \<and> \<not> rp_NoStore p \<and> \<not> rp_Private p \<and> \<not> rp_NoCache p \<and>
    \<not> hasHeaderField h ''Set-Cookie'' \<and> \<not> rqp_MustValidate p' \<and>
    (hasHeaderField (cr_Header r) ''Authorization'' \<longrightarrow> rp_Public p \<or> rp_HasSMaxAge p) \<and>
    (hasHeaderField rh ''Authorization'' \<longrightarrow> sharedAuthReuse p) \<and>
    (\<exists>ttl swr source. freshnessDecision (cl_time lib) status h p now pol = Some (ttl, swr, source) \<and> 0 < ttl \<and>
      (if k = reuseHit then now' < created + ttl
       else \<not> revalidationRequired p \<and> now' < created + wrap64 (ttl + swr)))"
proof -
  let ?p = "parseResponsePolicy (cl_sfv lib) h"
  from build_facts [OF assms(1)] obtain ttl swr source tags where
    f: "freshnessDecision (cl_time lib) status h ?p now pol = Some (ttl, swr, source)"
    and auth: "hasHeaderField (cr_Header r) ''Authorization'' \<longrightarrow> sharedAuthStorable ?p"
    and e: "e = new_entry lib (cr_Header r) status h (if sb then [] else body) now pol tags ttl swr" by blast
  note gate = reuse_gate [OF assms(2-5)]
  show ?thesis using freshness_facts(1-5) [OF f] f auth gate assms(3) unfolding e
    by (auto simp: new_entry_fields sharedAuthStorable_def Let_def)
qed

subsection \<open>Variants\<close>

lemma to_lower_upper:
  assumes "is_upper c"
  shows "is_lower (to_lower c)" "to_upper (to_lower c) = c" "\<not> is_lower c"
proof -
  have n: "65 \<le> (of_char c :: nat)" "(of_char c :: nat) \<le> 90" using assms by (simp_all add: is_upper_def)
  then have l: "(of_char (to_lower c) :: nat) = of_char c + 32" by (simp add: to_lower_def)
  then show "is_lower (to_lower c)" using n by (simp add: is_lower_def)
  then show "to_upper (to_lower c) = c" using l by (simp add: to_upper_def)
  show "\<not> is_lower c" using n by (simp add: is_lower_def)
qed

lemma to_lower_byte:
  "to_upper (to_lower c) = to_upper c" "token_byte (to_lower c) \<longleftrightarrow> token_byte c"
  "to_lower c = CHR ''-'' \<longleftrightarrow> c = CHR ''-''"
proof -
  have hyphen: "\<not> is_lower CHR ''-''" "\<not> is_upper CHR ''-''" by (simp_all add: is_lower_def is_upper_def)
  show "to_upper (to_lower c) = to_upper c" "token_byte (to_lower c) \<longleftrightarrow> token_byte c"
    "to_lower c = CHR ''-'' \<longleftrightarrow> c = CHR ''-''"
    using to_lower_upper [of c] to_lower_fixed [of c] hyphen
    by (cases "is_upper c"; auto simp: to_upper_def token_byte_def)+
qed

lemma token_byte_not_space: "token_byte c \<Longrightarrow> \<not> is_space c"
  by (auto simp: token_byte_def is_space_def is_lower_def is_upper_def is_digit_def)

lemma canon_key_lower: "canon_key up (ToLower s) = canon_key up s"
  by (induction s arbitrary: up) (simp_all add: ToLower_def to_lower_byte)

lemma hdr_Values_lower:
  assumes "list_all token_byte f"
  shows "hdr_Values h (ToLower (TrimSpace f)) = hdr_Values h f"
proof -
  have "TrimSpace f = f"
    unfolding TrimSpace_def
    using assms by (intro trim_by_none) (auto simp: list_all_iff dest: token_byte_not_space)
  moreover have "list_all token_byte (ToLower f)"
    using assms by (auto simp: ToLower_def list_all_iff to_lower_byte(2))
  ultimately show ?thesis
    using assms by (simp add: hdr_Values_def CanonicalMIMEHeaderKey_def canon_key_lower)
qed

text \<open>C28: The variants of a resource are kept apart exactly. A stored response matches a request just
  when the request has, line for line, the same values as the original request in every field
  the response varies on. The variant key of the request is the key of the stored response just
  when the two requests have the same values under the trimmed and lower-cased names of these
  fields; so when the names are made of token bytes, as header field names are, a request
  leads to the key of the stored response exactly when the response matches it. No response
  that varies on a cookie or on credentials is stored.\<close>

theorem variants_exact:
  assumes "buildEntryFromCapture lib r status h body n sb now pol = Inr e"
  shows "(matchesVary e rh \<longleftrightarrow> map (hdr_Values rh) (en_Vary e) = map (hdr_Values (cr_Header r)) (en_Vary e)) \<and>
    (variantKey base (en_Vary e) rh = variantKey base (en_Vary e) (cr_Header r) \<longleftrightarrow>
     (\<forall>f \<in> set (en_Vary e). hdr_Values rh (ToLower (TrimSpace f)) =
        hdr_Values (cr_Header r) (ToLower (TrimSpace f)))) \<and>
    (list_all (list_all token_byte) (en_Vary e) \<longrightarrow>
      (variantKey base (en_Vary e) rh = variantKey base (en_Vary e) (cr_Header r) \<longleftrightarrow> matchesVary e rh)) \<and>
    list_all (\<lambda>f. f \<noteq> ''*'' \<and> \<not> EqualFold f ''cookie'' \<and> \<not> EqualFold f ''authorization'') (en_Vary e)"
proof -
  from build_facts [OF assms] obtain ttl swr tags where
    ok: "varyRejectionHeader (cl_valid lib) (Some (cr_Header r)) (cp_varyGuard pol) h = []" "''*'' \<notin> set (varyFields h)"
    and e: "e = new_entry lib (cr_Header r) status h (if sb then [] else body) now pol tags ttl swr" by blast
  have vary: "en_Vary e = varyFields h"
    and vals: "en_VaryValues e = map (\<lambda>name. (name, varyRequestValue (cr_Header r) name)) (varyFields h)"
    unfolding e by (simp_all add: new_entry_fields)
  have lookup: "map_of (map (\<lambda>name. (name, g name)) xs) x = (if x \<in> set xs then Some (g x) else None)" for g xs x
    by (induction xs) auto
  have "varyRequestValue rh f = varyRequestValue (cr_Header r) f \<longleftrightarrow> hdr_Values rh f = hdr_Values (cr_Header r) f" for f
    using varyRequestValue_inj by (auto simp: varyRequestValue_def)
  then have matches: "matchesVary e rh \<longleftrightarrow>
      map (hdr_Values rh) (en_Vary e) = map (hdr_Values (cr_Header r)) (en_Vary e)"
    using ok(2) by (auto simp: matchesVary_def vary vals lookup list_all_iff)
  moreover have key: "variantKey base (en_Vary e) rh = variantKey base (en_Vary e) (cr_Header r) \<longleftrightarrow>
      (\<forall>f \<in> set (en_Vary e). hdr_Values rh (ToLower (TrimSpace f)) =
         hdr_Values (cr_Header r) (ToLower (TrimSpace f)))"
    by (simp add: variantKey_iff normalizeFields_def)
  moreover have "variantKey base (en_Vary e) rh = variantKey base (en_Vary e) (cr_Header r) \<longleftrightarrow> matchesVary e rh"
    if "list_all (list_all token_byte) (en_Vary e)"
    unfolding key matches using that by (auto simp: list_all_iff hdr_Values_lower)
  moreover have "list_all (\<lambda>f. f \<noteq> ''*'' \<and> \<not> EqualFold f ''cookie'' \<and> \<not> EqualFold f ''authorization'') (en_Vary e)"
    using ok(2) varyRejectionHeader_ok(1) [OF ok(1)] by (auto simp: vary list_all_iff)
  ultimately show ?thesis by blast
qed


subsection \<open>A response and its requests\<close>

text \<open>A calendar that knows two dates, the other arguments as small as they can be.\<close>

definition sample_now :: nanos where
  "sample_now = 63900000000000000000"

definition sample_lib :: cachelib where
  "sample_lib =
     \<lparr>cl_sfv = (\<lambda>_. None),
      cl_time = \<lparr>tl_ParseTime = (\<lambda>s. if s = ''Fri, 31 Dec 9999 23:59:59 GMT'' then Some 315537897599000000000 else None),
                 tl_Format = (\<lambda>_ t. if t = 315537897599000000000 then ''Fri, 31 Dec 9999 23:59:59 GMT'' else ''now''),
                 tl_Year = (\<lambda>_. 2026), tl_AddYears = (\<lambda>n t. t + n * 31536000 * second)\<rparr>,
      cl_valid = (\<lambda>s. s \<noteq> []), cl_sha = (\<lambda>s. s)\<rparr>"

definition sample_response :: hdr where
  "sample_response = [(''Cache-Control'', [''public, max-age=60'']), (''Vary'', [''Accept'']), (''Etag'', [''q''])]"

definition sample_request :: crequest where
  "sample_request = \<lparr>cr_Method = ''GET'', cr_Header = [(''Accept'', [''text'']), (''Authorization'', [''t''])],
     cr_Host = ''h'', cr_URI = ''/'', cr_TLS = False\<rparr>"

lemma sample_policy:
  "parseResponsePolicy (cl_sfv sample_lib) sample_response =
     \<lparr>rp_Targeted = False, rp_NoStore = False, rp_Private = False, rp_Public = True, rp_NoCache = False,
      rp_MustRevalidate = False, rp_ProxyRevalidate = False, rp_SMaxAge = 0, rp_HasSMaxAge = False,
      rp_MaxAge = 60000000000, rp_HasMaxAge = True, rp_SWR = 0, rp_HasSWR = False, rp_SIE = 0, rp_HasSIE = False\<rparr>"
  by code_simp

lemma sample_freshness:
  "freshnessDecision (cl_time sample_lib) 200 sample_response (parseResponsePolicy (cl_sfv sample_lib) sample_response)
     sample_now zero_policy = Some (60000000000, 0, ''origin_max_age'')"
  by code_simp

lemma sample_guards:
  "varyFields sample_response = [''Accept'']"
  "varyRejectionHeader (cl_valid sample_lib) (Some (cr_Header sample_request)) (cp_varyGuard zero_policy) sample_response = []"
  "declaredLength sample_response = - 1" "cp_TagHeaders zero_policy = []"
  "sharedAuthStorable (parseResponsePolicy (cl_sfv sample_lib) sample_response)"
  "initialAge (cl_time sample_lib) sample_response sample_now = 0"
  by code_simp+

definition sample_entry :: Entry where
  "sample_entry = new_entry sample_lib (cr_Header sample_request) 200 sample_response ''x'' sample_now zero_policy []
     60000000000 0"

lemma sample_build:
  "buildEntryFromCapture sample_lib sample_request 200 sample_response ''x'' 1 False sample_now zero_policy = Inr sample_entry"
  by (simp add: buildEntryFromCapture_def sample_freshness sample_guards sample_entry_def)

lemma sample_entry_fields:
  "en_ExpiresAt sample_entry = sample_now + 60000000000" "en_StaleUntil sample_entry = sample_now + 60000000000"
  "\<not> en_RequiresValidation sample_entry" "en_SharedAuthReuse sample_entry" "en_Vary sample_entry = [''Accept'']"
  by (simp_all add: sample_entry_def new_entry_fields sample_guards sample_policy sharedAuthReuse_def wrap64_def)

lemma sample_hit:
  "reuseDecisionWithIdentity sample_lib sample_entry [] \<lparr>rqp_NoStore = False, rqp_MustValidate = False\<rparr>
     (newPolicyIdentity (cl_sha sample_lib) zero_policy) (sample_now + second) = (reuseHit, [])"
proof -
  have "map_option ev_PolicyID (en_Evidence sample_entry) = Some (policyID (cl_sha sample_lib) zero_policy)"
    by (simp add: sample_entry_def new_entry_def entryEvidenceForRequest_def Let_def)
  moreover have "cp_BypassAnyCookie zero_policy = False" "cp_BypassCookies zero_policy = []" by (simp_all add: zero_policy_def)
  ultimately show ?thesis
    by (simp add: reuseDecisionWithIdentity_def newPolicyIdentity_def reuseDecision_def entry_Fresh_def
        sample_entry_fields hasHeaderField_def hdr_Values_def second_def)
qed

theorem shared_cache_contract_witness:
  "buildEntryFromCapture sample_lib sample_request 200 sample_response ''x'' 1 False sample_now zero_policy = Inr sample_entry \<and>
   rp_Public (parseResponsePolicy (cl_sfv sample_lib) sample_response)"
proof -
  have "en_ExpiresAt sample_entry \<noteq> zero_time" "en_StaleUntil sample_entry \<noteq> zero_time"
    by (simp_all add: sample_entry_fields sample_now_def zero_time_def)
  from shared_cache_contract [OF sample_build sample_hit _ this]
  have "hasHeaderField (cr_Header sample_request) ''Authorization'' \<longrightarrow>
    rp_Public (parseResponsePolicy (cl_sfv sample_lib) sample_response) \<or>
    rp_HasSMaxAge (parseResponsePolicy (cl_sfv sample_lib) sample_response)" by (simp add: Let_def)
  then show ?thesis using sample_build by (simp add: sample_policy)
qed

theorem variants_exact_witness:
  "matchesVary sample_entry [(''Accept'', [''text''])] \<and> \<not> matchesVary sample_entry [(''Accept'', [''te'', ''xt''])]"
proof -
  have "hdr_Values [(''Accept'', [''text''])] ''Accept'' = [''text'']"
    "hdr_Values [(''Accept'', [''te'', ''xt''])] ''Accept'' = [''te'', ''xt'']"
    "hdr_Values (cr_Header sample_request) ''Accept'' = [''text'']" by code_simp+
  then show ?thesis
    using variants_exact [OF sample_build, of "[(''Accept'', [''text''])]"]
      variants_exact [OF sample_build, of "[(''Accept'', [''te'', ''xt''])]"] by (simp add: sample_entry_fields)
qed



subsection \<open>A deadline that wraps\<close>

text \<open>The lifetime of a response that expires in the distant future is the largest duration, so that
  adding the stale window overflows: the stale deadline lies centuries before the response was
  made, although the response is fresh.\<close>

definition far_response :: hdr where
  "far_response = [(''Expires'', [''Fri, 31 Dec 9999 23:59:59 GMT''])]"

lemma far_freshness:
  "freshnessDecision (cl_time sample_lib) 200 far_response (parseResponsePolicy (cl_sfv sample_lib) far_response)
     sample_now (zero_policy\<lparr>cp_StaleWhileRevalidate := 60 * second\<rparr>) =
   Some (9223372036854775807, 60000000000, ''origin_expires'')"
  by code_simp

lemma far_guards:
  "varyRejectionHeader (cl_valid sample_lib) (Some []) None far_response = []" "varyFields far_response = []"
  "declaredLength far_response = - 1" "hasHeaderField [] ''Authorization'' = False"
  by code_simp+

lemma far_stale_deadline:
  "\<exists>e. buildEntryFromCapture sample_lib (sample_request\<lparr>cr_Header := []\<rparr>) 200 far_response ''x'' 1 False sample_now
     (zero_policy\<lparr>cp_StaleWhileRevalidate := 60 * second\<rparr>) = Inr e \<and>
     en_ExpiresAt e = en_CreatedAt e + 9223372036854775807 \<and> en_StaleUntil e < en_CreatedAt e"
  by (simp add: buildEntryFromCapture_def far_freshness far_guards new_entry_fields wrap64_def sample_guards)
    (simp add: zero_policy_def far_guards)

end
