(* ===== verification/Cache_Flight.thy ===== *)
theory Cache_Flight
  imports Cache_Policy
begin

text \<open>
  \<^verbatim>\<open>src/internal/cache/fill.go\<close> and \<^verbatim>\<open>revalidate.go\<close>: the tables of origin requests in
  flight. A miss becomes the leader of its key or waits for the leader's result, and so does a
  validation. Both tables have one shape, a map from keys to shared call objects: a call is an
  address in a list of objects, its result is present once it is finished, and \<open>beginFill\<close>,
  \<open>beginRevalidate\<close> and their companions are the operations of either table. Every one of them
  is one critical section.

  The step relation \<open>flight_step\<close> interleaves any number of requests. Its first argument tells
  the fill table, whose leaders look into the store once more before they fetch, from the
  validation table, whose leaders publish a result while they are still registered; its second
  argument allows the request handler to panic in that second look.
\<close>

subsection \<open>Calls\<close>

record 'r flight_call =
  fl_result :: "'r option"
  fl_joined :: "32 word"

definition new_call :: "'r flight_call" where
  "new_call = \<lparr>fl_result = None, fl_joined = 0\<rparr>"

text \<open>\<^verbatim>\<open>finish\<close>: the first result stays.\<close>

definition finish_call :: "'r \<Rightarrow> 'r flight_call \<Rightarrow> 'r flight_call" where
  "finish_call r call = (case fl_result call of None \<Rightarrow> call\<lparr>fl_result := Some r\<rparr> | Some _ \<Rightarrow> call)"

definition join_call :: "'r flight_call \<Rightarrow> 'r flight_call" where
  "join_call call = call\<lparr>fl_joined := fl_joined call + 1\<rparr>"

record ('k, 'r) flight_table =
  ft_calls :: "'k \<rightharpoonup> nat"
  ft_heap :: "'r flight_call list"

definition begin_call :: "('k, 'r) flight_table \<Rightarrow> 'k \<Rightarrow> ('k, 'r) flight_table \<times> nat \<times> bool" where
  "begin_call t k =
     (case ft_calls t k of
        Some c \<Rightarrow> (t, c, False)
      | None \<Rightarrow>
          (let c = length (ft_heap t) in
           (\<lparr>ft_calls = (ft_calls t)(k \<mapsto> c), ft_heap = ft_heap t @ [new_call]\<rparr>, c, True)))"

definition end_call :: "('k, 'r) flight_table \<Rightarrow> 'k \<Rightarrow> nat \<Rightarrow> ('k, 'r) flight_table" where
  "end_call t k c = (if ft_calls t k = Some c then t\<lparr>ft_calls := (ft_calls t)(k := None)\<rparr> else t)"

definition update_call ::
  "('k, 'r) flight_table \<Rightarrow> nat \<Rightarrow> ('r flight_call \<Rightarrow> 'r flight_call) \<Rightarrow> ('k, 'r) flight_table" where
  "update_call t c f = t\<lparr>ft_heap := (ft_heap t)[c := f (ft_heap t ! c)]\<rparr>"

subsection \<open>The fill lock\<close>

type_synonym fill_table = "(string, bool) flight_table"

definition beginFill :: "fill_table \<Rightarrow> string \<Rightarrow> fill_table \<times> nat \<times> bool" where
  "beginFill = begin_call"

definition endFill :: "fill_table \<Rightarrow> string \<Rightarrow> nat \<Rightarrow> fill_table" where
  "endFill = end_call"

definition finishFill :: "fill_table \<Rightarrow> nat \<Rightarrow> bool \<Rightarrow> fill_table" where
  "finishFill t c stored = update_call t c (finish_call stored)"

definition hashKey :: "(string \<Rightarrow> string) \<Rightarrow> string \<Rightarrow> string" where
  "hashKey sha k = hex_encode (sha k)"

definition fillLockKey :: "(string \<Rightarrow> string) \<Rightarrow> string \<Rightarrow> string \<Rightarrow> string" where
  "fillLockKey sha base effKey = (if effKey = base then base else base @ [CHR 0x00] @ hashKey sha effKey)"

definition fillLockKeyForPolicy ::
  "(string \<Rightarrow> string) \<Rightarrow> string \<Rightarrow> string \<Rightarrow> CachePolicy \<Rightarrow> string" where
  "fillLockKeyForPolicy sha base effKey pol =
     (let fk = fillLockKey sha base effKey in
      if cp_RouteScope pol = [] \<and> \<not> cp_HasRouteDefaultTTL pol \<and> \<not> cp_HasMaxTTL pol \<and> \<not> cp_HasRouteSWR pol \<and>
         \<not> cp_HasRouteSIE pol \<and> \<not> cp_BypassAnyCookie pol \<and> length (cp_BypassCookies pol) = 0
      then fk
      else fk @ [CHR 0x00] @ ''p:'' @ routeConfigDigest sha pol)"

datatype fillOutcome = fillWait | fillReused | fillNotReusable | fillUncacheable | fillTimeout | fillCanceled

datatype fill_wake = WokenDone | WokenContext | WokenTimer

datatype fill_action = NoAnswer | ProxyUncached | FetchAndStore | AlreadyServed | RetryFill string

text \<open>What a waiter does once it wakes: the events it counts and how its request goes on. The
  second look at the store (\<open>lookup\<close>) gives the effective key of the moment and whether the
  request was answered.\<close>

definition awaitFill ::
  "(string \<Rightarrow> string) \<Rightarrow> string \<Rightarrow> string \<Rightarrow> CachePolicy \<Rightarrow> bool \<Rightarrow>
   fill_wake \<Rightarrow> bool \<Rightarrow> bool \<Rightarrow> string \<times> bool \<Rightarrow> fillOutcome list \<times> fill_action" where
  "awaitFill sha base fk pol allowVariantRetry wake ctxErr stored lookup =
     (case wake of
        WokenContext \<Rightarrow> ([fillWait, fillCanceled], NoAnswer)
      | WokenTimer \<Rightarrow> ([fillWait, fillTimeout], ProxyUncached)
      | WokenDone \<Rightarrow>
          if ctxErr then ([fillWait, fillCanceled], NoAnswer)
          else if \<not> stored then ([fillWait, fillUncacheable], FetchAndStore)
          else case lookup of (latestEffKey, served) \<Rightarrow>
            if served then ([fillWait, fillReused], AlreadyServed)
            else if allowVariantRetry \<and> latestEffKey \<noteq> base \<and>
                    fillLockKeyForPolicy sha base latestEffKey pol \<noteq> fk
            then ([fillWait, fillNotReusable], RetryFill latestEffKey)
            else ([fillWait, fillNotReusable], FetchAndStore))"

subsection \<open>Validations\<close>

record revalidateKey =
  rk_key :: string
  rk_gen :: uint64
  rk_route :: string
  rk_routeConfig :: string

datatype revalidateOutcome =
  outcomeStored | outcomeNotModified | outcomeUncacheable | outcomeOriginError | outcomeCanceled
| outcomePanic | outcomeNoLease | outcomeDeduplicated

type_synonym revalidate_result = "Entry option \<times> revalidateOutcome \<times> string option"

type_synonym revalidate_table = "(revalidateKey, revalidate_result) flight_table"

definition beginRevalidate :: "revalidate_table \<Rightarrow> revalidateKey \<Rightarrow> revalidate_table \<times> nat \<times> bool" where
  "beginRevalidate = begin_call"

definition endRevalidate :: "revalidate_table \<Rightarrow> revalidateKey \<Rightarrow> nat \<Rightarrow> revalidate_table" where
  "endRevalidate = end_call"

definition finishRevalidate :: "revalidate_table \<Rightarrow> nat \<Rightarrow> revalidate_result \<Rightarrow> revalidate_table" where
  "finishRevalidate t c r = update_call t c (finish_call r)"

definition lookupRevalidation :: "revalidate_table \<Rightarrow> revalidateKey \<Rightarrow> nat option" where
  "lookupRevalidation t k = ft_calls t k"

text \<open>\<^verbatim>\<open>wait\<close>: the results a waiter may return with, that of the finished call and the
  cancellation of its own context (\<open>ctxErr\<close>); while there is none it waits, and where there are
  two it may take either.\<close>

definition wait_results :: "revalidate_result flight_call \<Rightarrow> string option \<Rightarrow> revalidate_result list" where
  "wait_results call ctxErr =
     (case fl_result call of Some r \<Rightarrow> [r] | None \<Rightarrow> []) @
     (case ctxErr of Some er \<Rightarrow> [(None, outcomeCanceled, Some er)] | None \<Rightarrow> [])"

subsection \<open>Runs of many requests\<close>

text \<open>Where a request stands. A leader that has removed its call and not yet finished it keeps
  the result it will publish, and whether it goes on afterwards (early abandonment) or returns.\<close>

datatype ('k, 'r) flight_phase =
  Idle
| Rechecking 'k nat
| Leading 'k nat
| Unlinked 'k nat 'r bool
| Returned
| Crashed
| Waiting 'k nat
| Woken nat 'r
| GaveUp

record ('k, 'r) flight_sys =
  fs_table :: "('k, 'r) flight_table"
  fs_phase :: "nat \<Rightarrow> ('k, 'r) flight_phase"

definition at_phase :: "('k, 'r) flight_sys \<Rightarrow> nat \<Rightarrow> ('k, 'r) flight_table \<Rightarrow> ('k, 'r) flight_phase \<Rightarrow> ('k, 'r) flight_sys" where
  "at_phase s p t ph = \<lparr>fs_table = t, fs_phase = (fs_phase s)(p := ph)\<rparr>"

inductive flight_step :: "bool \<Rightarrow> bool \<Rightarrow> ('k, 'r) flight_sys \<Rightarrow> ('k, 'r) flight_sys \<Rightarrow> bool"
  for fill crash where
  lead: "fs_phase s p = Idle \<Longrightarrow> begin_call (fs_table s) k = (t, c, True) \<Longrightarrow>
    flight_step fill crash s (at_phase s p t (if fill then Rechecking k c else Leading k c))"
| join: "fs_phase s p = Idle \<Longrightarrow> begin_call (fs_table s) k = (t, c, False) \<Longrightarrow>
    flight_step fill crash s (at_phase s p (update_call t c join_call) (Waiting k c))"
| recheck_hit: "fs_phase s p = Rechecking k c \<Longrightarrow>
    flight_step fill crash s (at_phase s p (end_call (fs_table s) k c) (Unlinked k c r False))"
| recheck_miss: "fs_phase s p = Rechecking k c \<Longrightarrow>
    flight_step fill crash s (at_phase s p (fs_table s) (Leading k c))"
| recheck_panic: "crash \<Longrightarrow> fs_phase s p = Rechecking k c \<Longrightarrow>
    flight_step fill crash s (at_phase s p (fs_table s) Crashed)"
| publish: "\<not> fill \<Longrightarrow> fs_phase s p = Leading k c \<Longrightarrow>
    flight_step fill crash s (at_phase s p (update_call (fs_table s) c (finish_call r)) (Leading k c))"
| unlink: "fs_phase s p = Leading k c \<Longrightarrow>
    flight_step fill crash s (at_phase s p (end_call (fs_table s) k c) (Unlinked k c r again))"
| settle: "fs_phase s p = Unlinked k c r again \<Longrightarrow>
    flight_step fill crash s (at_phase s p (update_call (fs_table s) c (finish_call r)) (if again then Leading k c else Returned))"
| wake: "fs_phase s p = Waiting k c \<Longrightarrow> fl_result (ft_heap (fs_table s) ! c) = Some r \<Longrightarrow>
    flight_step fill crash s (at_phase s p (fs_table s) (Woken c r))"
| give_up: "fs_phase s p = Waiting k c \<Longrightarrow>
    flight_step fill crash s (at_phase s p (fs_table s) GaveUp)"

definition flight_init :: "('k, 'r) flight_sys" where
  "flight_init = \<lparr>fs_table = \<lparr>ft_calls = (\<lambda>_. None), ft_heap = []\<rparr>, fs_phase = (\<lambda>_. Idle)\<rparr>"

subsection \<open>One leader per call, and no call without one\<close>

fun led :: "('k, 'r) flight_phase \<Rightarrow> ('k \<times> nat) option" where
  "led (Rechecking k c) = Some (k, c)"
| "led (Leading k c) = Some (k, c)"
| "led _ = None"

fun own :: "('k, 'r) flight_phase \<Rightarrow> nat option" where
  "own (Rechecking k c) = Some c"
| "own (Leading k c) = Some c"
| "own (Unlinked k c r again) = Some c"
| "own _ = None"

lemma led_own: "led ph = Some (k, c) \<Longrightarrow> own ph = Some c"
  by (cases ph) auto

text \<open>The invariant, piece by piece: registered calls exist, have a leader, and in the fill table
  are not finished; no call is registered twice, or under another key than its leader's, or after
  its leader removed it; a call has one owner, and an unfinished call has one; waiters and woken
  waiters hold calls that exist, the latter with the result they took.\<close>

definition registered_ok :: "bool \<Rightarrow> bool \<Rightarrow> ('k, 'r) flight_sys \<Rightarrow> bool" where
  "registered_ok fill crash s \<longleftrightarrow>
     (\<forall>k c. ft_calls (fs_table s) k = Some c \<longrightarrow>
        c < length (ft_heap (fs_table s)) \<and> (\<not> crash \<longrightarrow> (\<exists>p. led (fs_phase s p) = Some (k, c))) \<and>
        (fill \<longrightarrow> fl_result (ft_heap (fs_table s) ! c) = None))"

definition registered_once :: "('k, 'r) flight_sys \<Rightarrow> bool" where
  "registered_once s \<longleftrightarrow>
     (\<forall>k j c. ft_calls (fs_table s) k = Some c \<longrightarrow> ft_calls (fs_table s) j = Some c \<longrightarrow> k = j) \<and>
     (\<forall>p c j. own (fs_phase s p) = Some c \<longrightarrow> ft_calls (fs_table s) j = Some c \<longrightarrow>
        led (fs_phase s p) = Some (j, c))"

definition owned_once :: "('k, 'r) flight_sys \<Rightarrow> bool" where
  "owned_once s \<longleftrightarrow>
     (\<forall>p q c. own (fs_phase s p) = Some c \<longrightarrow> own (fs_phase s q) = Some c \<longrightarrow> p = q) \<and>
     (\<forall>p c. own (fs_phase s p) = Some c \<longrightarrow> c < length (ft_heap (fs_table s)))"

definition unfinished_owned :: "bool \<Rightarrow> ('k, 'r) flight_sys \<Rightarrow> bool" where
  "unfinished_owned crash s \<longleftrightarrow>
     (\<not> crash \<longrightarrow> (\<forall>c < length (ft_heap (fs_table s)). fl_result (ft_heap (fs_table s) ! c) = None \<longrightarrow>
        (\<exists>p. own (fs_phase s p) = Some c)))"

definition waiters_ok :: "('k, 'r) flight_sys \<Rightarrow> bool" where
  "waiters_ok s \<longleftrightarrow>
     (\<forall>p k c. fs_phase s p = Waiting k c \<longrightarrow> c < length (ft_heap (fs_table s))) \<and>
     (\<forall>p c r. fs_phase s p = Woken c r \<longrightarrow> c < length (ft_heap (fs_table s)) \<and>
        fl_result (ft_heap (fs_table s) ! c) = Some r)"

definition flight_inv :: "bool \<Rightarrow> bool \<Rightarrow> ('k, 'r) flight_sys \<Rightarrow> bool" where
  "flight_inv fill crash s \<longleftrightarrow>
     registered_ok fill crash s \<and> registered_once s \<and> owned_once s \<and> unfinished_owned crash s \<and> waiters_ok s"

lemma begin_new:
  "begin_call t k = (t', c, True) \<Longrightarrow>
   ft_calls t k = None \<and> c = length (ft_heap t) \<and>
   t' = \<lparr>ft_calls = (ft_calls t)(k \<mapsto> length (ft_heap t)), ft_heap = ft_heap t @ [new_call]\<rparr>"
  by (auto simp: begin_call_def Let_def split: option.splits)

lemma begin_old: "begin_call t k = (t', c, False) \<Longrightarrow> ft_calls t k = Some c \<and> t' = t"
  by (auto simp: begin_call_def Let_def split: option.splits)

lemma at_phase_sel [simp]:
  "fs_table (at_phase s p t ph) = t" "fs_phase (at_phase s p t ph) = (fs_phase s)(p := ph)"
  by (simp_all add: at_phase_def)

lemma update_call_sel [simp]:
  "ft_calls (update_call t c f) = ft_calls t" "length (ft_heap (update_call t c f)) = length (ft_heap t)"
  by (simp_all add: update_call_def)

lemma update_call_nth:
  "d < length (ft_heap t) \<Longrightarrow>
   ft_heap (update_call t c f) ! d = (if c = d then f (ft_heap t ! d) else ft_heap t ! d)"
  by (auto simp: update_call_def nth_list_update)

lemma end_call_sel [simp]:
  "ft_heap (end_call t k c) = ft_heap t"
  "ft_calls (end_call t k c) j = (if j = k \<and> ft_calls t k = Some c then None else ft_calls t j)"
  by (auto simp: end_call_def)

lemma fl_result_join [simp]: "fl_result (join_call c) = fl_result c"
  by (simp add: join_call_def)

lemma fl_result_finish: "fl_result (finish_call r c) = (case fl_result c of None \<Rightarrow> Some r | Some x \<Rightarrow> Some x)"
  by (auto simp: finish_call_def split: option.splits)

lemma fl_result_new [simp]: "fl_result new_call = None"
  by (simp add: new_call_def)

lemmas flight_parts = registered_ok_def registered_once_def owned_once_def unfinished_owned_def waiters_ok_def

text \<open>The steps, by what they do to the table and to the one phase they change.\<close>

lemma flight_step_cases:
  assumes "flight_step fill crash s s'"
  obtains
    (Lead) p k ph where "own (fs_phase s p) = None" "ft_calls (fs_table s) k = None"
      "s' = at_phase s p \<lparr>ft_calls = (ft_calls (fs_table s))(k \<mapsto> length (ft_heap (fs_table s))),
              ft_heap = ft_heap (fs_table s) @ [new_call]\<rparr> ph"
      "led ph = Some (k, length (ft_heap (fs_table s)))"
  | (End) p k c ph where "led (fs_phase s p) = Some (k, c)" "s' = at_phase s p (end_call (fs_table s) k c) ph"
      "own ph = Some c" "led ph = None"
  | (Join) p k c where "own (fs_phase s p) = None" "ft_calls (fs_table s) k = Some c"
      "s' = at_phase s p (update_call (fs_table s) c join_call) (Waiting k c)"
  | (Finish) p c k ph r where "own (fs_phase s p) = Some c" "\<not> fill \<or> led (fs_phase s p) = None"
      "s' = at_phase s p (update_call (fs_table s) c (finish_call r)) ph"
      "ph = Returned \<or> (led ph = Some (k, c) \<and> (led (fs_phase s p) = None \<or> led (fs_phase s p) = Some (k, c)))"
      "ph = Returned \<Longrightarrow> led (fs_phase s p) = None"
  | (Recheck) p k c where "led (fs_phase s p) = Some (k, c)" "s' = at_phase s p (fs_table s) (Leading k c)"
  | (Crash) p where "crash" "s' = at_phase s p (fs_table s) Crashed"
  | (Wake) p k c r where "fs_phase s p = Waiting k c" "fl_result (ft_heap (fs_table s) ! c) = Some r"
      "s' = at_phase s p (fs_table s) (Woken c r)"
  | (GiveUp) p k c where "fs_phase s p = Waiting k c" "s' = at_phase s p (fs_table s) GaveUp"
  using assms
proof (cases rule: flight_step.cases)
  case (lead p k t c)
  with Lead [of p k "if fill then Rechecking k c else Leading k c"] show ?thesis by (auto dest!: begin_new)
next
  case (join p k t c)
  with Join [of p k c] show ?thesis by (auto dest!: begin_old)
next
  case (recheck_hit p k c r)
  with End [of p k c "Unlinked k c r False"] show ?thesis by simp
next
  case (unlink p k c r again)
  with End [of p k c "Unlinked k c r again"] show ?thesis by simp
next
  case (settle p k c r again)
  with Finish [of p c r "if again then Leading k c else Returned" k] show ?thesis by simp
next
  case (publish p k c r)
  with Finish [of p c r "Leading k c" k] show ?thesis by auto
next
  case (recheck_miss p k c)
  with Recheck [of p k c] show ?thesis by simp
next
  case (recheck_panic p k c)
  with Crash [of p] show ?thesis by simp
next
  case (wake p k c r)
  with Wake [of p k c r] show ?thesis by simp
next
  case (give_up p k c)
  with GiveUp [of p k c] show ?thesis by simp
qed

lemma flight_invD:
  assumes "flight_inv fill crash s"
  shows "ft_calls (fs_table s) k = Some c \<Longrightarrow> c < length (ft_heap (fs_table s))"
    and "ft_calls (fs_table s) k = Some c \<Longrightarrow> \<not> crash \<Longrightarrow> \<exists>p. led (fs_phase s p) = Some (k, c)"
    and "ft_calls (fs_table s) k = Some c \<Longrightarrow> fill \<Longrightarrow> fl_result (ft_heap (fs_table s) ! c) = None"
    and "ft_calls (fs_table s) k = Some c \<Longrightarrow> ft_calls (fs_table s) j = Some c \<Longrightarrow> k = j"
    and "own (fs_phase s p) = Some c \<Longrightarrow> ft_calls (fs_table s) j = Some c \<Longrightarrow> led (fs_phase s p) = Some (j, c)"
    and "own (fs_phase s p) = Some c \<Longrightarrow> own (fs_phase s q) = Some c \<Longrightarrow> p = q"
    and "own (fs_phase s p) = Some c \<Longrightarrow> c < length (ft_heap (fs_table s))"
    and "\<not> crash \<Longrightarrow> c < length (ft_heap (fs_table s)) \<Longrightarrow> fl_result (ft_heap (fs_table s) ! c) = None \<Longrightarrow>
           \<exists>p. own (fs_phase s p) = Some c"
    and "fs_phase s p = Waiting k c \<Longrightarrow> c < length (ft_heap (fs_table s))"
    and "fs_phase s p = Woken c r \<Longrightarrow> c < length (ft_heap (fs_table s)) \<and> fl_result (ft_heap (fs_table s) ! c) = Some r"
  using assms unfolding flight_inv_def flight_parts by blast+

lemma step_registered_once:
  assumes step: "flight_step fill crash s s'" and inv: "flight_inv fill crash s"
  shows "registered_once s'"
  using step
proof (cases rule: flight_step_cases)
  case (Lead p k ph)
  let ?n = "length (ft_heap (fs_table s))"
  have new: "ft_calls (fs_table s) j \<noteq> Some ?n" "own (fs_phase s q) \<noteq> Some ?n" for j q
    using flight_invD(1) [OF inv, of j ?n] flight_invD(7) [OF inv, of q ?n] by auto
  show ?thesis
    unfolding registered_once_def
    using Lead(4) new led_own [OF Lead(4)] flight_invD(4,5) [OF inv] by (auto simp: Lead(3))
next
  case (End p k c ph)
  have "ft_calls (end_call (fs_table s) k c) j \<noteq> Some c" for j
    using flight_invD(5) [OF inv led_own [OF End(1)], of j] End(1) by auto
  with End(3) show ?thesis
    unfolding registered_once_def using flight_invD(4,5) [OF inv] by (auto simp: End(2) split: if_splits)
next
  case (Finish p c k ph r)
  have "ft_calls (fs_table s) j = Some c \<Longrightarrow> led (fs_phase s p) = Some (j, c)" for j
    by (rule flight_invD(5) [OF inv Finish(1)])
  with Finish(4,5) have "own ph = Some d \<Longrightarrow> ft_calls (fs_table s) j = Some d \<Longrightarrow> led ph = Some (j, d)" for j d
    using led_own [of ph k c] by (metis option.distinct(1) option.inject own.simps(5) prod.inject)
  then show ?thesis
    unfolding registered_once_def using flight_invD(4,5) [OF inv] by (auto simp: Finish(3))
next
  case (Recheck p k c)
  have "ft_calls (fs_table s) j = Some c \<Longrightarrow> j = k" for j
    using flight_invD(5) [OF inv led_own [OF Recheck(1)], of j] Recheck(1) by auto
  then show ?thesis
    unfolding registered_once_def using flight_invD(4,5) [OF inv] by (auto simp: Recheck(2))
qed (use flight_invD(4,5) [OF inv] in \<open>auto simp: registered_once_def\<close>)

lemma step_owned_once:
  assumes step: "flight_step fill crash s s'" and inv: "flight_inv fill crash s"
  shows "owned_once s'"
  using step
proof (cases rule: flight_step_cases)
  case (Lead p k ph)
  let ?n = "length (ft_heap (fs_table s))"
  have "own (fs_phase s q) \<noteq> Some ?n" for q
    using flight_invD(7) [OF inv, of q ?n] by auto
  then show ?thesis
    unfolding owned_once_def
    using led_own [OF Lead(4)] flight_invD(6,7) [OF inv] by (auto simp: Lead(3) less_SucI)
next
  case (End p k c ph)
  then show ?thesis
    unfolding owned_once_def using led_own [OF End(1)] flight_invD(6,7) [OF inv] by (auto simp: End(2))
next
  case (Finish p c k ph r)
  have "own ph = None \<or> own ph = Some c" using Finish(4) led_own [of ph k c] by auto
  then show ?thesis
    unfolding owned_once_def using Finish(1) flight_invD(6,7) [OF inv] by (auto simp: Finish(3))
next
  case (Recheck p k c)
  then show ?thesis
    unfolding owned_once_def using led_own [OF Recheck(1)] flight_invD(6,7) [OF inv] by (auto simp: Recheck(2))
qed (use flight_invD(6,7) [OF inv] in \<open>auto simp: owned_once_def\<close>)

lemma registered_ok_at:
  assumes inv: "flight_inv fill crash s"
    and sub: "\<And>k c. ft_calls t k = Some c \<Longrightarrow> ft_calls (fs_table s) k = Some c"
    and len: "length (ft_heap t) = length (ft_heap (fs_table s))"
    and led: "\<And>k c. \<not> crash \<Longrightarrow> ft_calls t k = Some c \<Longrightarrow> led (fs_phase s p) = Some (k, c) \<Longrightarrow> led ph = Some (k, c)"
    and res: "\<And>k c. fill \<Longrightarrow> ft_calls t k = Some c \<Longrightarrow> fl_result (ft_heap t ! c) = fl_result (ft_heap (fs_table s) ! c)"
  shows "registered_ok fill crash (at_phase s p t ph)"
  unfolding registered_ok_def
proof (intro allI impI)
  fix k c
  assume t: "ft_calls (fs_table (at_phase s p t ph)) k = Some c"
  then have k: "ft_calls (fs_table s) k = Some c" using sub by simp
  have "\<exists>q. led (((fs_phase s)(p := ph)) q) = Some (k, c)" if nc: "\<not> crash"
  proof -
    obtain q where q: "led (fs_phase s q) = Some (k, c)" using flight_invD(2) [OF inv k nc] by blast
    then show ?thesis using led [OF nc] t by (intro exI [of _ q]) auto
  qed
  then show "c < length (ft_heap (fs_table (at_phase s p t ph))) \<and>
      (\<not> crash \<longrightarrow> (\<exists>q. led (fs_phase (at_phase s p t ph) q) = Some (k, c))) \<and>
      (fill \<longrightarrow> fl_result (ft_heap (fs_table (at_phase s p t ph)) ! c) = None)"
    using flight_invD(1,3) [OF inv k] res t len by auto
qed

lemma step_registered_ok:
  assumes step: "flight_step fill crash s s'" and inv: "flight_inv fill crash s"
  shows "registered_ok fill crash s'"
  using step
proof (cases rule: flight_step_cases)
  case (Lead p k ph)
  have other: "\<exists>q. q \<noteq> p \<and> led (fs_phase s q) = Some (j, c)" if reg: "ft_calls (fs_table s) j = Some c" "\<not> crash" for j c
  proof -
    obtain q where "led (fs_phase s q) = Some (j, c)" using flight_invD(2) [OF inv reg] by blast
    with Lead(1) led_own [OF this] show ?thesis by (intro exI [of _ q]) auto
  qed
  show ?thesis
    unfolding registered_ok_def
    using flight_invD(1,3) [OF inv] Lead(4) other by (auto simp: Lead(3) nth_append less_SucI) blast
next
  case (End p k c ph)
  show ?thesis unfolding End(2)
    by (rule registered_ok_at [OF inv]) (use End(1) in \<open>auto split: if_splits\<close>)
next
  case (Join p k c)
  then show ?thesis unfolding Join(3)
    by (intro registered_ok_at [OF inv]) (auto simp: update_call_nth flight_invD(1) [OF inv] dest: led_own)
next
  case (Finish p c k ph r)
  have "ft_calls (fs_table s) j \<noteq> Some c" if fill for j
    using flight_invD(5) [OF inv Finish(1), of j] Finish(2) that by auto
  then show ?thesis unfolding Finish(3)
    by (intro registered_ok_at [OF inv]) (use Finish(4,5) in \<open>auto simp: update_call_nth flight_invD(1) [OF inv]\<close>)
next
  case (Recheck p k c)
  then show ?thesis unfolding Recheck(2) by (intro registered_ok_at [OF inv]) auto
next
  case (Crash p)
  then show ?thesis unfolding Crash(2) by (intro registered_ok_at [OF inv]) auto
next
  case (Wake p k c r)
  then show ?thesis unfolding Wake(3) by (intro registered_ok_at [OF inv]) auto
next
  case (GiveUp p k c)
  then show ?thesis unfolding GiveUp(2) by (intro registered_ok_at [OF inv]) auto
qed

lemma unfinished_owned_at:
  assumes inv: "flight_inv fill crash s"
    and len: "length (ft_heap t) = length (ft_heap (fs_table s))"
    and own: "\<And>c. \<not> crash \<Longrightarrow> own (fs_phase s p) = Some c \<Longrightarrow> fl_result (ft_heap t ! c) = None \<Longrightarrow> own ph = Some c"
    and res: "\<And>c. c < length (ft_heap t) \<Longrightarrow> fl_result (ft_heap t ! c) = None \<Longrightarrow> fl_result (ft_heap (fs_table s) ! c) = None"
  shows "unfinished_owned crash (at_phase s p t ph)"
  unfolding unfinished_owned_def
proof (intro allI impI)
  fix c
  assume nc: "\<not> crash" and c: "c < length (ft_heap (fs_table (at_phase s p t ph)))"
    "fl_result (ft_heap (fs_table (at_phase s p t ph)) ! c) = None"
  then have "\<exists>q. own (fs_phase s q) = Some c"
    using res len by (intro flight_invD(8) [OF inv nc]) auto
  then obtain q where "own (fs_phase s q) = Some c" ..
  with own [OF nc] c show "\<exists>q. own (fs_phase (at_phase s p t ph) q) = Some c"
    by (intro exI [of _ q]) auto
qed

lemma step_unfinished_owned:
  assumes step: "flight_step fill crash s s'" and inv: "flight_inv fill crash s"
  shows "unfinished_owned crash s'"
  using step
proof (cases rule: flight_step_cases)
  case (Lead p k ph)
  have "\<exists>q. q \<noteq> p \<and> own (fs_phase s q) = Some c"
    if "\<not> crash" "c < length (ft_heap (fs_table s))" "fl_result (ft_heap (fs_table s) ! c) = None" for c
    using flight_invD(8) [OF inv that] Lead(1) by (metis option.distinct(1))
  then show ?thesis
    unfolding unfinished_owned_def
    using led_own [OF Lead(4)] by (auto simp: Lead(3) nth_append less_Suc_eq)
next
  case (End p k c ph)
  show ?thesis unfolding End(2)
    by (rule unfinished_owned_at [OF inv]) (use End(3) led_own [OF End(1)] in auto)
next
  case (Join p k c)
  then show ?thesis unfolding Join(3)
    by (intro unfinished_owned_at [OF inv]) (auto simp: update_call_nth split: if_splits)
next
  case (Finish p c k ph r)
  have "c < length (ft_heap (fs_table s))" by (rule flight_invD(7) [OF inv Finish(1)])
  with Finish(1) show ?thesis unfolding Finish(3)
    by (intro unfinished_owned_at [OF inv]) (auto simp: update_call_nth fl_result_finish split: if_splits option.splits)
next
  case (Recheck p k c)
  then show ?thesis unfolding Recheck(2) by (intro unfinished_owned_at [OF inv]) (auto dest: led_own)
next
  case (Crash p)
  then show ?thesis by (simp add: unfinished_owned_def)
next
  case (Wake p k c r)
  then show ?thesis unfolding Wake(3) by (intro unfinished_owned_at [OF inv]) auto
next
  case (GiveUp p k c)
  then show ?thesis unfolding GiveUp(2) by (intro unfinished_owned_at [OF inv]) auto
qed

lemma step_waiters_ok:
  assumes step: "flight_step fill crash s s'" and inv: "flight_inv fill crash s"
  shows "waiters_ok s'"
proof -
  have at: "waiters_ok (at_phase s p t ph)"
    if "length (ft_heap (fs_table s)) \<le> length (ft_heap t)"
      and "\<And>c r. c < length (ft_heap (fs_table s)) \<Longrightarrow> fl_result (ft_heap (fs_table s) ! c) = Some r \<Longrightarrow> fl_result (ft_heap t ! c) = Some r"
      and "\<And>k c. ph = Waiting k c \<Longrightarrow> c < length (ft_heap t)"
      and "\<And>c r. ph = Woken c r \<Longrightarrow> c < length (ft_heap t) \<and> fl_result (ft_heap t ! c) = Some r" for p t ph
    unfolding waiters_ok_def
    using that(2-4) flight_invD(10) [OF inv] less_le_trans [OF flight_invD(9) [OF inv] that(1)]
      less_le_trans [OF conjunct1 [OF flight_invD(10) [OF inv]] that(1)]
    by auto
  show ?thesis
    using step
  proof (cases rule: flight_step_cases)
    case (Lead p k ph)
    then show ?thesis unfolding Lead(3) by (intro at) (auto simp: nth_append)
  next
    case (End p k c ph)
    then show ?thesis unfolding End(2) by (intro at) auto
  next
    case (Join p k c)
    then show ?thesis unfolding Join(3)
      by (intro at) (auto simp: update_call_nth dest: flight_invD(1) [OF inv])
  next
    case (Finish p c k ph r)
    then show ?thesis unfolding Finish(3)
      by (intro at) (auto simp: update_call_nth fl_result_finish)
  next
    case (Recheck p k c)
    then show ?thesis unfolding Recheck(2) by (intro at) auto
  next
    case (Crash p)
    then show ?thesis unfolding Crash(2) by (intro at) auto
  next
    case (Wake p k c r)
    then show ?thesis unfolding Wake(3) by (intro at) (auto dest: flight_invD(9) [OF inv])
  next
    case (GiveUp p k c)
    then show ?thesis unfolding GiveUp(2) by (intro at) auto
  qed
qed

interpretation flight: invariant_system "flight_step fill crash" "\<lambda>s. s = flight_init" "flight_inv fill crash" for fill crash
proof unfold_locales
  fix s :: "('k, 'r) flight_sys"
  assume "s = flight_init"
  then show "flight_inv fill crash s" by (simp add: flight_inv_def flight_parts flight_init_def)
next
  fix s s' :: "('k, 'r) flight_sys"
  assume "flight_step fill crash s s'" and "flight_inv fill crash s"
  then show "flight_inv fill crash s'"
    unfolding flight_inv_def [of fill crash s']
    by (intro conjI step_registered_ok step_registered_once step_owned_once step_unfinished_owned step_waiters_ok)
qed

subsection \<open>What a request can rely on\<close>

lemma finish_stable:
  "c < length (ft_heap t) \<Longrightarrow>
   fl_result (ft_heap (update_call t c (finish_call r)) ! c) = (case fl_result (ft_heap t ! c) of None \<Rightarrow> Some r | x \<Rightarrow> x)"
  by (auto simp: update_call_nth fl_result_finish split: option.splits)

lemma settled_wakes:
  assumes "fs_phase s p = Waiting k c" and "fl_result (ft_heap (fs_table s) ! c) = Some r"
  shows "\<exists>t. reachable_by (flight_step fill crash) s t \<and> fs_phase t p = Woken c r"
  using flight_step.wake [OF assms] by (intro exI [of _ "at_phase s p (fs_table s) (Woken c r)"]) (auto intro: reachable_by_single)

text \<open>The owner of a call finishes it in its own next steps: it removes the call and publishes.\<close>

lemma owner_finishes:
  assumes inv: "flight_inv fill crash s" and p: "fs_phase s p = Waiting k c"
    and none: "fl_result (ft_heap (fs_table s) ! c) = None" and q: "own (fs_phase s q) = Some c"
  shows "\<exists>t r. reachable_by (flight_step fill crash) s t \<and> fs_phase t p = Woken c (r :: 'r)"
proof -
  have c: "c < length (ft_heap (fs_table s))" by (rule flight_invD(9) [OF inv p])
  have pq: "p \<noteq> q" using p q by auto
  have settle: "\<exists>t. reachable_by (flight_step fill crash) u t \<and> fs_phase t p = Woken c r"
    if u: "fs_phase u q = Unlinked j c r again" "fs_phase u p = Waiting k c"
      "ft_heap (fs_table u) = ft_heap (fs_table s)" for u j r again
  proof -
    let ?v = "at_phase u q (update_call (fs_table u) c (finish_call r)) (if again then Leading j c else Returned)"
    have "flight_step fill crash u ?v" by (rule flight_step.settle [OF u(1)])
    moreover have "fs_phase ?v p = Waiting k c" "fl_result (ft_heap (fs_table ?v) ! c) = Some r"
      using u(2,3) pq c none by (simp_all add: update_call_nth fl_result_finish)
    ultimately show ?thesis using settled_wakes [of ?v p k c r fill crash] by (auto intro: reachable_by_Cons)
  qed
  from q consider (recheck) j where "fs_phase s q = Rechecking j c" | (lead) j where "fs_phase s q = Leading j c"
    | (unlinked) j r again where "fs_phase s q = Unlinked j c r again" by (cases "fs_phase s q") auto
  then show ?thesis
  proof cases
    case recheck
    let ?u = "at_phase s q (end_call (fs_table s) j c) (Unlinked j c undefined False)"
    have "flight_step fill crash s ?u" by (rule flight_step.recheck_hit [OF recheck])
    with settle [of ?u j undefined False] p pq show ?thesis by (auto intro: reachable_by_Cons)
  next
    case lead
    let ?u = "at_phase s q (end_call (fs_table s) j c) (Unlinked j c undefined False)"
    have "flight_step fill crash s ?u" by (rule flight_step.unlink [OF lead])
    with settle [of ?u j undefined False] p pq show ?thesis by (auto intro: reachable_by_Cons)
  next
    case unlinked
    with settle [of s j r again] p show ?thesis by auto
  qed
qed

text \<open>C31: Concurrent misses and validations of a key share one origin request, and nobody waits for
  ever. In every interleaving of any number of requests, as long as no handler panics in the second
  look at the store, a registered call has exactly one leader and every newcomer of its key joins
  it; in the fill table the call a newcomer joins is not finished yet; a leader that cleans up late
  never removes the registration of a newer call; every waiter can still be released by steps of
  its leader, and it wakes with the one result its leader published first.\<close>

theorem single_flight:
  assumes "reachable_by (flight_step fill False) flight_init s"
  shows "(ft_calls (fs_table s) k = Some c \<longrightarrow>
            (\<exists>!p. led (fs_phase s p) = Some (k, c)) \<and>
            begin_call (fs_table s) k = (fs_table s, c, False) \<and>
            (fill \<longrightarrow> fl_result (ft_heap (fs_table s) ! c) = None)) \<and>
         (led (fs_phase s p) = Some (k, d) \<and> ft_calls (fs_table s) k = Some c \<and> c \<noteq> d \<longrightarrow>
            ft_calls (end_call (fs_table s) k d) k = Some c) \<and>
         (fs_phase s p = Waiting k c \<longrightarrow>
            (\<exists>t r. reachable_by (flight_step fill False) s t \<and> fs_phase t p = Woken c r)) \<and>
         (fs_phase s p = Woken c r \<longrightarrow> fl_result (ft_heap (fs_table s) ! c) = Some r)"
proof -
  have inv: "flight_inv fill False s" by (rule flight.reachable_inv [OF assms]) simp
  have "\<exists>!p. led (fs_phase s p) = Some (k, c)" if reg: "ft_calls (fs_table s) k = Some c"
    using flight_invD(2) [OF inv reg] flight_invD(6) [OF inv] led_own by (metis (no_types, lifting))
  moreover have "begin_call (fs_table s) k = (fs_table s, c, False)" if "ft_calls (fs_table s) k = Some c"
    using that by (simp add: begin_call_def)
  moreover have "\<exists>t r. reachable_by (flight_step fill False) s t \<and> fs_phase t p = Woken c r"
    if w: "fs_phase s p = Waiting k c"
  proof (cases "fl_result (ft_heap (fs_table s) ! c)")
    case None
    then obtain q where "own (fs_phase s q) = Some c"
      using flight_invD(8) [OF inv _ flight_invD(9) [OF inv w]] by auto
    then show ?thesis by (rule owner_finishes [OF inv w None])
  next
    case (Some r)
    then show ?thesis using settled_wakes [OF w Some] by blast
  qed
  ultimately show ?thesis using flight_invD(3,10) [OF inv] by auto
qed

definition sample_flight :: "(string, bool) flight_sys" where
  "sample_flight =
     \<lparr>fs_table = \<lparr>ft_calls = (\<lambda>_. None)(''k'' \<mapsto> 0), ft_heap = [\<lparr>fl_result = None, fl_joined = 1\<rparr>]\<rparr>,
      fs_phase = (\<lambda>_. Idle)(0 := Rechecking ''k'' 0, 1 := Waiting ''k'' 0)\<rparr>"

lemma sample_flight_reachable: "reachable_by (flight_step True False) flight_init sample_flight"
proof -
  let ?t = "\<lparr>ft_calls = (\<lambda>_. None)(''k'' \<mapsto> 0), ft_heap = [new_call]\<rparr> :: (string, bool) flight_table"
  have "flight_step True False flight_init (at_phase flight_init 0 ?t (if True then Rechecking ''k'' 0 else Leading ''k'' 0))"
    by (rule flight_step.lead) (simp_all add: flight_init_def begin_call_def Let_def)
  moreover have "flight_step True False (at_phase flight_init 0 ?t (Rechecking ''k'' 0))
      (at_phase (at_phase flight_init 0 ?t (Rechecking ''k'' 0)) 1 (update_call ?t 0 join_call) (Waiting ''k'' 0))"
    by (rule flight_step.join) (simp_all add: at_phase_def begin_call_def flight_init_def)
  moreover have "at_phase (at_phase flight_init 0 ?t (Rechecking ''k'' 0)) 1 (update_call ?t 0 join_call) (Waiting ''k'' 0)
      = sample_flight"
    by (simp add: sample_flight_def at_phase_def update_call_def join_call_def new_call_def flight_init_def)
  ultimately show ?thesis by (metis (full_types) reachable_by.intros)
qed

theorem single_flight_witness:
  "reachable_by (flight_step True False) flight_init sample_flight \<and>
   fs_phase sample_flight 1 = Waiting ''k'' 0 \<and>
   (\<exists>t r. reachable_by (flight_step True False) sample_flight t \<and> fs_phase t 1 = Woken 0 r)"
  using single_flight [OF sample_flight_reachable, of "''k''" 0 1] sample_flight_reachable
  by (auto simp: sample_flight_def)

subsection \<open>A panic in the second look\<close>






subsection \<open>Lock keys and waiters\<close>

lemma hex_nibble_inj:
  assumes "hex_nibble a = hex_nibble b" and "a < 16" and "b < 16"
  shows "a = b"
proof -
  have "distinct ''0123456789abcdef''" "length ''0123456789abcdef'' = 16" by simp_all
  then show ?thesis using assms by (metis hex_nibble_def nth_eq_iff_index_eq)
qed

lemma hex_encode_inj: "hex_encode a = hex_encode b \<Longrightarrow> a = b"
proof (induction a arbitrary: b)
  case Nil
  then show ?case by (cases b) (simp_all add: hex_encode_def)
next
  case (Cons x a)
  then obtain y b' where b: "b = y # b'" by (cases b) (auto simp: hex_encode_def)
  from Cons.prems have eq: "hex_nibble (of_char x div 16) = hex_nibble (of_char y div 16)"
    "hex_nibble (of_char x mod 16) = hex_nibble (of_char y mod 16)" "hex_encode a = hex_encode b'"
    by (simp_all add: hex_encode_def b)
  have small: "of_char c div 16 < (16 :: nat)" "of_char c mod 16 < (16 :: nat)" for c :: char
    using nat_of_char_less_256 [of c] by linarith+
  have "(of_char x :: nat) div 16 = of_char y div 16" "(of_char x :: nat) mod 16 = of_char y mod 16"
    using hex_nibble_inj [OF eq(1) small(1) small(1)] hex_nibble_inj [OF eq(2) small(2) small(2)] .
  then have "(of_char x :: nat) = of_char y" by (metis div_mult_mod_eq)
  then show ?case using Cons.IH [OF eq(3)] by (simp add: b)
qed

text \<open>Two variants of a resource never share a lock, nor does a variant with the resource itself.\<close>

lemma fillLockKey_distinct:
  assumes "fillLockKey sha base e1 = fillLockKey sha base e2" and "sha e1 = sha e2 \<Longrightarrow> e1 = e2"
  shows "e1 = e2"
  using assms by (auto simp: fillLockKey_def hashKey_def dest: hex_encode_inj split: if_splits)

text \<open>A waiter never retries after a retry, is served from the cache only after a leader stored,
  and answers nothing only where its own client is gone.\<close>

lemma awaitFill_outcomes:
  assumes "awaitFill sha base fk pol retry wake ctxErr stored lookup = (outs, act)"
  shows "act = RetryFill k \<Longrightarrow> retry \<and> stored \<and> k \<noteq> base"
    and "act = AlreadyServed \<Longrightarrow> stored \<and> snd lookup"
    and "act = NoAnswer \<Longrightarrow> wake = WokenContext \<or> ctxErr"
    and "act = ProxyUncached \<longleftrightarrow> wake = WokenTimer"
  using assms by (auto simp: awaitFill_def split: fill_wake.splits if_splits prod.splits)

end
