(* ===== verification/Cache_Capture.thy ===== *)
theory Cache_Capture
  imports Cache_Decision "HOL-Library.Multiset"
begin

text \<open>
  \<^verbatim>\<open>src/internal/cache/http.go\<close>: capturing a response on its way to the client. The budget
  all captures share, the writer that copies the body into memory or into a temporary file, and
  the recorder that validations write into.

  A capture keeps the bytes of its buffer and, once it spilled to disk, the bytes of its temporary
  file. The answers of the disk tier (\<^verbatim>\<open>beginStreamCaptureObserved\<close>, \<^verbatim>\<open>writeStream\<close>)
  come with each call, as \<open>disk_reply\<close>; so does the result of the client's writer. The header check
  is an argument. Observers that only record a decision are left out. Sizes are \<^verbatim>\<open>int64\<close> values far from the limits of that type.
\<close>

subsection \<open>The budget\<close>

definition budget_reserve :: "int \<Rightarrow> int \<Rightarrow> int \<Rightarrow> int option" where
  "budget_reserve inflight n limit = (if inflight + n > limit then None else Some (inflight + n))"

definition budget_release :: "int \<Rightarrow> int \<Rightarrow> int" where
  "budget_release inflight n = (if n > 0 then inflight - n else inflight)"

subsection \<open>Captures\<close>

record capture =
  ct_status :: int
  ct_wroteHeader :: bool
  ct_buf :: string
  ct_limit :: int
  ct_memLimit :: int
  ct_memBudgetLimit :: int
  ct_bodyLen :: int
  ct_disk :: bool
  ct_stream :: "string option"
  ct_tooBig :: bool
  ct_reserved :: int
  ct_noStore :: bool
  ct_hijacked :: bool
  ct_writeErr :: bool
  ct_skips :: "string list"
  ct_abandons :: nat
  ct_header :: hdr
  ct_entrySnapshot :: hdr
  ct_snapshot :: hdr
  ct_tagHeaders :: "string list"
  ct_strip :: bool
  ct_interimTags :: hdr

text \<open>A capture operation also sees the bytes in flight of the shared budget.\<close>

type_synonym cstate = "int \<times> capture"

definition captureSkipOversize :: string where "captureSkipOversize = ''oversize''"
definition captureSkipBudget :: string where "captureSkipBudget = ''budget''"

definition acct_grow :: "cstate \<Rightarrow> int \<Rightarrow> int \<Rightarrow> cstate option" where
  "acct_grow s n limit =
     (case s of (i, c) \<Rightarrow>
        (case budget_reserve i n limit of
           None \<Rightarrow> None
         | Some i' \<Rightarrow> Some (i', c\<lparr>ct_reserved := ct_reserved c + n\<rparr>)))"

definition acct_release :: "cstate \<Rightarrow> cstate" where
  "acct_release s = (case s of (i, c) \<Rightarrow> (budget_release i (ct_reserved c), c\<lparr>ct_reserved := 0\<rparr>))"

definition acct_skip :: "cstate \<Rightarrow> string \<Rightarrow> cstate" where
  "acct_skip s reason = (case acct_release s of (i, c) \<Rightarrow> (i, c\<lparr>ct_skips := ct_skips c @ [reason]\<rparr>))"

definition effMemLimit :: "capture \<Rightarrow> int" where
  "effMemLimit c = (if ct_memLimit c > 0 \<and> ct_memLimit c < ct_limit c then ct_memLimit c else ct_limit c)"

definition effMemBudgetLimit :: "capture \<Rightarrow> int" where
  "effMemBudgetLimit c = (if ct_memBudgetLimit c > 0 then ct_memBudgetLimit c else effMemLimit c)"

definition releaseCapture :: "cstate \<Rightarrow> cstate" where
  "releaseCapture s = (case acct_release s of (i, c) \<Rightarrow> (i, c\<lparr>ct_stream := None\<rparr>))"

definition notifyAbandon :: "cstate \<Rightarrow> cstate" where
  "notifyAbandon s = (case s of (i, c) \<Rightarrow> (i, c\<lparr>ct_abandons := Suc (ct_abandons c)\<rparr>))"

definition dropCapture :: "cstate \<Rightarrow> cstate" where
  "dropCapture s = (case s of (i, c) \<Rightarrow> notifyAbandon (releaseCapture (i, c\<lparr>ct_noStore := True, ct_buf := []\<rparr>)))"

definition abandonCapture :: "cstate \<Rightarrow> string \<Rightarrow> cstate" where
  "abandonCapture s reason =
     (case s of (i, c) \<Rightarrow> notifyAbandon (acct_skip (i, c\<lparr>ct_tooBig := True, ct_buf := [], ct_stream := None\<rparr>) reason))"

definition storable :: "capture \<Rightarrow> bool" where
  "storable c \<longleftrightarrow> \<not> ct_noStore c \<and> \<not> ct_tooBig c"

datatype stream_write = StreamOK | StreamSkip string | StreamFail

record disk_reply =
  dr_begin :: bool
  dr_write :: stream_write

definition captureInitDiskStream :: "int \<Rightarrow> disk_reply \<Rightarrow> cstate \<Rightarrow> cstate" where
  "captureInitDiskStream cl dr s =
     (case s of (i, c) \<Rightarrow>
        if cl \<le> effMemLimit c then s
        else if \<not> ct_disk c then abandonCapture s captureSkipOversize
        else if \<not> dr_begin dr then dropCapture s
        else (i, c\<lparr>ct_stream := Some []\<rparr>))"

definition give_up :: "stream_write \<Rightarrow> cstate \<Rightarrow> cstate" where
  "give_up reply s = (case reply of StreamSkip reason \<Rightarrow> abandonCapture s reason | _ \<Rightarrow> dropCapture s)"

definition captureWriteChunk :: "string \<Rightarrow> disk_reply \<Rightarrow> cstate \<Rightarrow> cstate" where
  "captureWriteChunk p dr s =
     (case s of (i, c) \<Rightarrow>
        let len = ct_bodyLen c + int (length p) in
        if len > ct_limit c then abandonCapture s captureSkipOversize
        else case ct_stream c of
          Some file \<Rightarrow>
            if dr_write dr = StreamOK then (i, c\<lparr>ct_stream := Some (file @ p), ct_bodyLen := len\<rparr>)
            else give_up (dr_write dr) s
        | None \<Rightarrow>
            if len > effMemLimit c then
              (if \<not> ct_disk c then abandonCapture s captureSkipOversize
               else
                 (let prior = ct_buf c; s1 = acct_release (i, c\<lparr>ct_buf := []\<rparr>) in
                  if \<not> dr_begin dr then dropCapture s1
                  else if dr_write dr = StreamOK then
                    (fst s1, (snd s1)\<lparr>ct_stream := Some (prior @ p), ct_bodyLen := len\<rparr>)
                  else give_up (dr_write dr) s1))
            else case acct_grow s (int (length p)) (effMemBudgetLimit c) of
                   None \<Rightarrow> abandonCapture s captureSkipBudget
                 | Some (i', c') \<Rightarrow> (i', c'\<lparr>ct_buf := ct_buf c' @ p, ct_bodyLen := len\<rparr>))"

subsection \<open>Headers\<close>

text \<open>\<^verbatim>\<open>headerDifference\<close>: a value survives once for each occurrence beyond those of the entry
  header. The flags of the values used up are the values still to be used.\<close>

fun value_difference :: "string list \<Rightarrow> string list \<Rightarrow> string list" where
  "value_difference left [] = []"
| "value_difference left (v # vs) =
     (if v \<in> set left then value_difference (remove1 v left) vs else v # value_difference left vs)"

definition raw_values :: "hdr \<Rightarrow> string \<Rightarrow> string list" where
  "raw_values h name = (case map_of h name of None \<Rightarrow> [] | Some vs \<Rightarrow> vs)"

definition headerDifference :: "hdr \<Rightarrow> hdr \<Rightarrow> hdr" where
  "headerDifference final entry =
     filter (\<lambda>f. snd f \<noteq> []) (map (\<lambda>(name, vs). (name, value_difference (raw_values entry name) vs)) final)"

definition isEventStream :: "hdr \<Rightarrow> bool" where
  "isEventStream h =
     list_ex (\<lambda>ct. EqualFold (TrimSpace (case index_byte CHR '';'' ct of Some k \<Rightarrow> take k ct | None \<Rightarrow> ct)) ''text/event-stream'')
       (hdr_Values h ''Content-Type'')"

definition isUpgradeRequest :: "hdr \<Rightarrow> bool" where
  "isUpgradeRequest h \<longleftrightarrow>
     list_ex (\<lambda>v. TrimSpace v \<noteq> []) (hdr_Values h ''Upgrade'') \<and>
     list_ex (\<lambda>v. list_ex (\<lambda>tok. EqualFold tok ''upgrade'') (parseList v)) (hdr_Values h ''Connection'')"

definition keep_interim_tags :: "capture \<Rightarrow> hdr" where
  "keep_interim_tags c =
     foldl (\<lambda>tags name. case hdr_Values (ct_header c) name of [] \<Rightarrow> tags | vs \<Rightarrow> AList.update name vs tags)
       (ct_interimTags c) (ct_tagHeaders c)"

definition merge_interim_tags :: "hdr \<Rightarrow> hdr \<Rightarrow> hdr" where
  "merge_interim_tags interim snap =
     foldl (\<lambda>h (name, vs). if hdr_Values h name = [] then AList.update name vs h else h) snap interim"

definition strip_live :: "capture \<Rightarrow> hdr" where
  "strip_live c = (if ct_strip c \<and> ct_tagHeaders c \<noteq> [] then stripTagHeaders (ct_header c) (ct_tagHeaders c) else ct_header c)"

subsection \<open>The writer\<close>

definition interim_status :: "int \<Rightarrow> bool" where
  "interim_status code \<longleftrightarrow> code \<ge> 100 \<and> code < 200 \<and> code \<noteq> 101"

text \<open>What a final status decides for the capture; \<open>snap\<close> is what the handler contributed to the
  header \<open>h\<close>.\<close>

definition decide_capture :: "(int \<Rightarrow> hdr \<Rightarrow> bool) \<Rightarrow> disk_reply \<Rightarrow> int \<Rightarrow> hdr \<Rightarrow> hdr \<Rightarrow> cstate \<Rightarrow> cstate" where
  "decide_capture check dr code h snap s =
     (let cl = declaredLength h in
      if code < 200 \<or> isEventStream h then dropCapture s
      else if \<not> ct_noStore (snd s) \<and> cl > ct_limit (snd s) then abandonCapture s captureSkipOversize
      else if \<not> check code snap then dropCapture s
      else if \<not> ct_noStore (snd s) then captureInitDiskStream cl dr s
      else s)"

definition capture_WriteHeader :: "(int \<Rightarrow> hdr \<Rightarrow> bool) \<Rightarrow> disk_reply \<Rightarrow> int \<Rightarrow> cstate \<Rightarrow> cstate" where
  "capture_WriteHeader check dr code s =
     (case s of (i, c) \<Rightarrow>
        if ct_wroteHeader c \<or> ct_hijacked c then s
        else if interim_status code then
          (if ct_strip c \<and> ct_tagHeaders c \<noteq> []
           then (i, c\<lparr>ct_interimTags := keep_interim_tags c, ct_header := strip_live c\<rparr>) else s)
        else
          (let snap = merge_interim_tags (ct_interimTags c) (headerDifference (ct_header c) (ct_entrySnapshot c));
               (i2, c2) = decide_capture check dr code (ct_header c) snap
                 (i, c\<lparr>ct_status := code, ct_wroteHeader := True, ct_snapshot := snap\<rparr>) in
           (i2, c2\<lparr>ct_header := hdr_Del (strip_live c2) ''X-Jul-WAF-Event''\<rparr>)))"

datatype client_write = ClientOK | ClientBodyNotAllowed | ClientError

definition capture_Write ::
  "(int \<Rightarrow> hdr \<Rightarrow> bool) \<Rightarrow> disk_reply \<Rightarrow> string \<Rightarrow> client_write \<Rightarrow> cstate \<Rightarrow> cstate" where
  "capture_Write check dr p client s =
     (if ct_hijacked (snd s) then s
      else
        (let s1 = (if \<not> ct_wroteHeader (snd s) then capture_WriteHeader check dr 200 s else s);
             s2 = (if \<not> ct_tooBig (snd s1) \<and> \<not> ct_noStore (snd s1) \<and> length p > 0
                   then captureWriteChunk p dr s1 else s1) in
         if client = ClientError then (case s2 of (i, c) \<Rightarrow> dropCapture (i, c\<lparr>ct_writeErr := True\<rparr>)) else s2))"

definition capture_Flush :: "(int \<Rightarrow> hdr \<Rightarrow> bool) \<Rightarrow> disk_reply \<Rightarrow> cstate \<Rightarrow> cstate" where
  "capture_Flush check dr s =
     (if ct_hijacked (snd s) then s
      else if \<not> ct_wroteHeader (snd s) then capture_WriteHeader check dr 200 s else s)"

definition capture_Hijack :: "bool \<Rightarrow> cstate \<Rightarrow> cstate" where
  "capture_Hijack ok s = (if ok then (case s of (i, c) \<Rightarrow> dropCapture (i, c\<lparr>ct_hijacked := True\<rparr>)) else s)"

text \<open>The recorder of a validation: no client, no hijack, and the first final status stays.\<close>

definition recorder_WriteHeader :: "(int \<Rightarrow> hdr \<Rightarrow> bool) \<Rightarrow> disk_reply \<Rightarrow> int \<Rightarrow> cstate \<Rightarrow> cstate" where
  "recorder_WriteHeader check dr code s =
     (case s of (i, c) \<Rightarrow>
        if ct_status c \<noteq> 0 then s
        else if interim_status code then s
        else
          (let c1 = c\<lparr>ct_status := code\<rparr>; cl = declaredLength (ct_header c) in
           if code < 200 \<or> isEventStream (ct_header c) then dropCapture (i, c1)
           else if cl > ct_limit c1 then abandonCapture (i, c1) captureSkipOversize
           else if \<not> check code (ct_header c) then dropCapture (i, c1)
           else captureInitDiskStream cl dr (i, c1)))"

definition recorder_Write :: "(int \<Rightarrow> hdr \<Rightarrow> bool) \<Rightarrow> disk_reply \<Rightarrow> string \<Rightarrow> cstate \<Rightarrow> cstate" where
  "recorder_Write check dr p s =
     (let s1 = (if ct_status (snd s) = 0 then recorder_WriteHeader check dr 200 s else s) in
      if \<not> ct_tooBig (snd s1) \<and> \<not> ct_noStore (snd s1) \<and> length p > 0 then captureWriteChunk p dr s1 else s1)"

subsection \<open>What a capture holds\<close>

definition captured :: "capture \<Rightarrow> string" where
  "captured c = (case ct_stream c of Some file \<Rightarrow> file | None \<Rightarrow> ct_buf c)"

text \<open>The limits depend on no field an operation changes.\<close>

lemma effMemLimit_frame [simp]:
  "effMemLimit (c\<lparr>ct_header := x0\<rparr>) = effMemLimit c"
  "effMemLimit (c\<lparr>ct_status := x1\<rparr>) = effMemLimit c"
  "effMemLimit (c\<lparr>ct_wroteHeader := x2\<rparr>) = effMemLimit c"
  "effMemLimit (c\<lparr>ct_snapshot := x3\<rparr>) = effMemLimit c"
  "effMemLimit (c\<lparr>ct_interimTags := x4\<rparr>) = effMemLimit c"
  "effMemLimit (c\<lparr>ct_stream := x5\<rparr>) = effMemLimit c"
  "effMemLimit (c\<lparr>ct_bodyLen := x6\<rparr>) = effMemLimit c"
  "effMemLimit (c\<lparr>ct_buf := x7\<rparr>) = effMemLimit c"
  "effMemLimit (c\<lparr>ct_reserved := x8\<rparr>) = effMemLimit c"
  "effMemLimit (c\<lparr>ct_noStore := x9\<rparr>) = effMemLimit c"
  "effMemLimit (c\<lparr>ct_tooBig := x10\<rparr>) = effMemLimit c"
  "effMemLimit (c\<lparr>ct_writeErr := x11\<rparr>) = effMemLimit c"
  "effMemLimit (c\<lparr>ct_hijacked := x12\<rparr>) = effMemLimit c"
  "effMemLimit (c\<lparr>ct_skips := x13\<rparr>) = effMemLimit c"
  "effMemLimit (c\<lparr>ct_abandons := x14\<rparr>) = effMemLimit c"
  by (simp_all add: effMemLimit_def)

lemma effMemBudgetLimit_frame [simp]:
  "effMemBudgetLimit (c\<lparr>ct_header := x0\<rparr>) = effMemBudgetLimit c"
  "effMemBudgetLimit (c\<lparr>ct_status := x1\<rparr>) = effMemBudgetLimit c"
  "effMemBudgetLimit (c\<lparr>ct_wroteHeader := x2\<rparr>) = effMemBudgetLimit c"
  "effMemBudgetLimit (c\<lparr>ct_snapshot := x3\<rparr>) = effMemBudgetLimit c"
  "effMemBudgetLimit (c\<lparr>ct_interimTags := x4\<rparr>) = effMemBudgetLimit c"
  "effMemBudgetLimit (c\<lparr>ct_stream := x5\<rparr>) = effMemBudgetLimit c"
  "effMemBudgetLimit (c\<lparr>ct_bodyLen := x6\<rparr>) = effMemBudgetLimit c"
  "effMemBudgetLimit (c\<lparr>ct_buf := x7\<rparr>) = effMemBudgetLimit c"
  "effMemBudgetLimit (c\<lparr>ct_reserved := x8\<rparr>) = effMemBudgetLimit c"
  "effMemBudgetLimit (c\<lparr>ct_noStore := x9\<rparr>) = effMemBudgetLimit c"
  "effMemBudgetLimit (c\<lparr>ct_tooBig := x10\<rparr>) = effMemBudgetLimit c"
  "effMemBudgetLimit (c\<lparr>ct_writeErr := x11\<rparr>) = effMemBudgetLimit c"
  "effMemBudgetLimit (c\<lparr>ct_hijacked := x12\<rparr>) = effMemBudgetLimit c"
  "effMemBudgetLimit (c\<lparr>ct_skips := x13\<rparr>) = effMemBudgetLimit c"
  "effMemBudgetLimit (c\<lparr>ct_abandons := x14\<rparr>) = effMemBudgetLimit c"
  by (simp_all add: effMemBudgetLimit_def)

lemma captured_frame [simp]:
  "captured (c\<lparr>ct_header := x0\<rparr>) = captured c"
  "captured (c\<lparr>ct_status := x1\<rparr>) = captured c"
  "captured (c\<lparr>ct_wroteHeader := x2\<rparr>) = captured c"
  "captured (c\<lparr>ct_snapshot := x3\<rparr>) = captured c"
  "captured (c\<lparr>ct_interimTags := x4\<rparr>) = captured c"
  "captured (c\<lparr>ct_bodyLen := x6\<rparr>) = captured c"
  "captured (c\<lparr>ct_reserved := x8\<rparr>) = captured c"
  "captured (c\<lparr>ct_noStore := x9\<rparr>) = captured c"
  "captured (c\<lparr>ct_tooBig := x10\<rparr>) = captured c"
  "captured (c\<lparr>ct_writeErr := x11\<rparr>) = captured c"
  "captured (c\<lparr>ct_hijacked := x12\<rparr>) = captured c"
  "captured (c\<lparr>ct_skips := x13\<rparr>) = captured c"
  "captured (c\<lparr>ct_abandons := x14\<rparr>) = captured c"
  "captured (c\<lparr>ct_stream := Some y\<rparr>) = y" "captured (c\<lparr>ct_stream := None\<rparr>) = ct_buf c"
  by (simp_all add: captured_def split: option.split)

lemma captured_buf: "captured (c\<lparr>ct_buf := b\<rparr>) = (if ct_stream c = None then b else captured c)"
  by (simp add: captured_def split: option.split)

text \<open>A capture that may still be stored holds every byte written so far, within its limits; one
  that may not holds nothing. The bytes in the buffer are the bytes it has reserved.\<close>

definition capture_ok :: "capture \<Rightarrow> string \<Rightarrow> bool" where
  "capture_ok c w \<longleftrightarrow>
     (if storable c then
        captured c = w \<and> ct_bodyLen c = int (length w) \<and> (w \<noteq> [] \<longrightarrow> int (length w) \<le> ct_limit c) \<and>
        (ct_stream c = None \<longrightarrow> w \<noteq> [] \<longrightarrow> int (length w) \<le> effMemLimit c) \<and>
        (ct_stream c \<noteq> None \<longrightarrow> ct_buf c = [])
      else ct_buf c = [] \<and> ct_stream c = None) \<and>
     ct_reserved c = int (length (ct_buf c)) \<and>
     (ct_hijacked c \<or> ct_writeErr c \<longrightarrow> ct_noStore c)"

text \<open>An operation changes the bytes in flight by what it changes of its own reservation, raises
  them at most to the limit, and leaves the limits alone.\<close>

definition accounts :: "cstate \<Rightarrow> cstate \<Rightarrow> bool" where
  "accounts s s' \<longleftrightarrow>
     fst s' - ct_reserved (snd s') = fst s - ct_reserved (snd s) \<and>
     (fst s' \<le> fst s \<or> fst s' \<le> effMemBudgetLimit (snd s)) \<and>
     effMemBudgetLimit (snd s') = effMemBudgetLimit (snd s) \<and> effMemLimit (snd s') = effMemLimit (snd s) \<and>
     ct_limit (snd s') = ct_limit (snd s)"

lemma accounts_refl [simp]: "accounts s s"
  by (simp add: accounts_def)

lemma accounts_trans: "accounts s t \<Longrightarrow> accounts t u \<Longrightarrow> accounts s u"
  by (auto simp: accounts_def)

lemmas capture_defs = dropCapture_def abandonCapture_def releaseCapture_def notifyAbandon_def acct_skip_def
  acct_release_def budget_release_def

lemma drop_effect:
  assumes "ct_reserved c \<ge> 0"
  shows "accounts (i, c) (dropCapture (i, c))" and "\<not> storable (snd (dropCapture (i, c)))"
    and "capture_ok (snd (dropCapture (i, c))) w"
  using assms by (auto simp: capture_defs accounts_def capture_ok_def storable_def)

lemma abandon_effect:
  assumes "ct_reserved c \<ge> 0" and "ct_hijacked c \<or> ct_writeErr c \<longrightarrow> ct_noStore c"
  shows "accounts (i, c) (abandonCapture (i, c) reason)" and "\<not> storable (snd (abandonCapture (i, c) reason))"
    and "capture_ok (snd (abandonCapture (i, c) reason)) w"
  using assms by (auto simp: capture_defs accounts_def capture_ok_def storable_def)

lemma give_up_effect:
  assumes "ct_reserved c \<ge> 0" and "ct_hijacked c \<or> ct_writeErr c \<longrightarrow> ct_noStore c"
  shows "accounts (i, c) (give_up reply (i, c))" and "capture_ok (snd (give_up reply (i, c))) w"
  using drop_effect [OF assms(1)] abandon_effect [OF assms] by (auto simp: give_up_def split: stream_write.splits)

lemma grow_effect:
  assumes "acct_grow (i, c) n (effMemBudgetLimit c) = Some (i', c')"
  shows "i' = i + n \<and> i' \<le> effMemBudgetLimit c \<and> c' = c\<lparr>ct_reserved := ct_reserved c + n\<rparr>"
  using assms by (auto simp: acct_grow_def budget_reserve_def split: if_splits)

lemma chunk_effect:
  assumes ok: "capture_ok c w" and st: "storable c" and p: "p \<noteq> []"
  shows "accounts (i, c) (captureWriteChunk p dr (i, c)) \<and>
         capture_ok (snd (captureWriteChunk p dr (i, c))) (w @ p)"
proof -
  let ?len = "ct_bodyLen c + int (length p)"
  have c: "captured c = w" "ct_bodyLen c = int (length w)" "ct_reserved c = int (length (ct_buf c))"
    "ct_reserved c \<ge> 0" "ct_hijacked c \<or> ct_writeErr c \<longrightarrow> ct_noStore c" "\<not> ct_noStore c" "\<not> ct_tooBig c"
    using ok st by (auto simp: capture_ok_def storable_def)
  note dropped = drop_effect [OF c(4)] and abandoned = abandon_effect [OF c(4,5)] and gave = give_up_effect [OF c(4,5)]
  consider (over) "?len > ct_limit c"
    | (stream) fl where "?len \<le> ct_limit c" "ct_stream c = Some fl"
    | (spill) "?len \<le> ct_limit c" "ct_stream c = None" "?len > effMemLimit c"
    | (mem) "?len \<le> ct_limit c" "ct_stream c = None" "?len \<le> effMemLimit c"
    by (cases "ct_stream c") force+
  then show ?thesis
  proof cases
    case over
    then show ?thesis using abandoned by (simp add: captureWriteChunk_def)
  next
    case stream
    show ?thesis
    proof (cases "dr_write dr = StreamOK")
      case True
      have "fl = w" "ct_buf c = []" using ok st stream(2) c(1) by (auto simp: capture_ok_def captured_def)
      with True stream c show ?thesis
        by (simp add: captureWriteChunk_def accounts_def capture_ok_def captured_buf storable_def
           )
    next
      case False
      with stream gave show ?thesis by (simp add: captureWriteChunk_def)
    qed
  next
    case spill
    let ?s1 = "acct_release (i, c\<lparr>ct_buf := []\<rparr>)"
    have s1: "accounts (i, c) ?s1" "ct_reserved (snd ?s1) = 0" "ct_buf (snd ?s1) = []"
      "ct_hijacked (snd ?s1) \<or> ct_writeErr (snd ?s1) \<longrightarrow> ct_noStore (snd ?s1)"
      using c by (auto simp: accounts_def acct_release_def budget_release_def)
    have buf: "ct_buf c = w" using c(1) spill(2) by (simp add: captured_def)
    show ?thesis
    proof (cases "ct_disk c \<and> dr_begin dr \<and> dr_write dr = StreamOK")
      case True
      then show ?thesis
        using spill s1 c p buf
        by (auto simp: captureWriteChunk_def Let_def accounts_def capture_ok_def captured_buf storable_def
            acct_release_def budget_release_def)
    next
      case False
      obtain i1 c1 where pair: "?s1 = (i1, c1)" by (cases ?s1)
      then have "ct_reserved c1 \<ge> 0" "ct_hijacked c1 \<or> ct_writeErr c1 \<longrightarrow> ct_noStore c1" "accounts (i, c) (i1, c1)"
        using s1 by auto
      then show ?thesis
        using False spill abandoned drop_effect [where c = c1 and i = i1] give_up_effect [where c = c1 and i = i1] accounts_trans [of "(i, c)" "(i1, c1)"]
        by (auto simp: captureWriteChunk_def Let_def pair)
    qed
  next
    case mem
    have buf: "ct_buf c = w" using c(1) mem(2) by (simp add: captured_def)
    show ?thesis
    proof (cases "acct_grow (i, c) (int (length p)) (effMemBudgetLimit c)")
      case None
      then show ?thesis using mem abandoned by (simp add: captureWriteChunk_def)
    next
      case (Some s')
      then obtain i' c' where s': "s' = (i', c')" by (cases s')
      note G = grow_effect [OF Some [unfolded s']]
      show ?thesis
        using mem G c p buf Some s'
        by (auto simp: captureWriteChunk_def Let_def accounts_def capture_ok_def captured_buf storable_def
           )
    qed
  qed
qed

subsection \<open>Writers and recorders\<close>

text \<open>The calls a handler makes, on a writer or on a recorder.\<close>

datatype capture_call =
  CallHeader disk_reply int
| CallWrite disk_reply string client_write
| CallFlush disk_reply
| CallHijack bool
| CallMutate hdr

definition capture_exec :: "bool \<Rightarrow> (int \<Rightarrow> hdr \<Rightarrow> bool) \<Rightarrow> cstate \<Rightarrow> capture_call \<Rightarrow> cstate" where
  "capture_exec recorder check s call =
     (case call of
        CallHeader dr code \<Rightarrow> if recorder then recorder_WriteHeader check dr code s else capture_WriteHeader check dr code s
      | CallWrite dr p client \<Rightarrow> if recorder then recorder_Write check dr p s else capture_Write check dr p client s
      | CallFlush dr \<Rightarrow> if recorder then s else capture_Flush check dr s
      | CallHijack ok \<Rightarrow> if recorder then s else capture_Hijack ok s
      | CallMutate h \<Rightarrow> (fst s, (snd s)\<lparr>ct_header := h\<rparr>))"

definition written_by :: "capture_call \<Rightarrow> string" where
  "written_by call = (case call of CallWrite dr p client \<Rightarrow> p | _ \<Rightarrow> [])"

definition started :: "bool \<Rightarrow> capture \<Rightarrow> bool" where
  "started recorder c \<longleftrightarrow> (if recorder then ct_status c \<noteq> 0 else ct_wroteHeader c \<or> ct_hijacked c)"

text \<open>What every call keeps: a capture that may be stored holds what was written, and before its
  status is set nothing was.\<close>

definition capture_inv :: "bool \<Rightarrow> capture \<Rightarrow> string \<Rightarrow> bool" where
  "capture_inv recorder c w \<longleftrightarrow>
     capture_ok c w \<and> (\<not> started recorder c \<longrightarrow> w = [] \<and> storable c \<and> ct_stream c = None)"

definition sound_step :: "bool \<Rightarrow> cstate \<Rightarrow> string \<Rightarrow> cstate \<Rightarrow> string \<Rightarrow> bool" where
  "sound_step recorder s w s' w' \<longleftrightarrow> accounts s s' \<and> capture_inv recorder (snd s') w'"

lemma capture_ok_reserved:
  assumes "capture_ok c w"
  shows "ct_reserved c \<ge> 0" and "ct_hijacked c \<or> ct_writeErr c \<longrightarrow> ct_noStore c"
  using assms by (auto simp: capture_ok_def)

text \<open>Fields outside the capture proper do not matter.\<close>

lemma capture_ok_frame:
  "capture_ok c w \<Longrightarrow> capture_ok (c\<lparr>ct_header := h\<rparr>) w"
  "capture_ok c w \<Longrightarrow> capture_ok (c\<lparr>ct_status := n\<rparr>) w"
  "capture_ok c w \<Longrightarrow> capture_ok (c\<lparr>ct_interimTags := t\<rparr>) w"
  "capture_ok c w \<Longrightarrow> capture_ok (c\<lparr>ct_status := n, ct_wroteHeader := b, ct_snapshot := sn\<rparr>) w"
  by (simp_all add: capture_ok_def storable_def)

lemma init_stream_effect:
  assumes "capture_ok c []" and "storable c" and "ct_stream c = None"
  shows "accounts (i, c) (captureInitDiskStream cl dr (i, c)) \<and>
         capture_ok (snd (captureInitDiskStream cl dr (i, c))) []"
proof -
  note r = capture_ok_reserved [OF assms(1)]
  have buf: "ct_buf c = []" using assms by (auto simp: capture_ok_def captured_def)
  consider (fits) "cl \<le> effMemLimit c" | (nodisk) "\<not> cl \<le> effMemLimit c" "\<not> ct_disk c"
    | (nofile) "\<not> cl \<le> effMemLimit c" "ct_disk c" "\<not> dr_begin dr"
    | (stream) "\<not> cl \<le> effMemLimit c" "ct_disk c" "dr_begin dr" by blast
  then show ?thesis
  proof cases
    case fits
    with assms(1) show ?thesis by (simp add: captureInitDiskStream_def)
  next
    case nodisk
    with abandon_effect [OF r] show ?thesis by (simp add: captureInitDiskStream_def)
  next
    case nofile
    with drop_effect [OF r(1)] show ?thesis by (simp add: captureInitDiskStream_def)
  next
    case stream
    with assms buf show ?thesis
      by (simp add: captureInitDiskStream_def accounts_def capture_ok_def storable_def)
  qed
qed

lemma dropped_status [simp]:
  "ct_status (snd (dropCapture s)) = ct_status (snd s)" "ct_wroteHeader (snd (dropCapture s)) = ct_wroteHeader (snd s)"
  "ct_hijacked (snd (dropCapture s)) = ct_hijacked (snd s)"
  "ct_status (snd (abandonCapture s reason)) = ct_status (snd s)"
  "ct_wroteHeader (snd (abandonCapture s reason)) = ct_wroteHeader (snd s)"
  "ct_hijacked (snd (abandonCapture s reason)) = ct_hijacked (snd s)"
  by (cases s; simp add: capture_defs)+

lemma init_status [simp]:
  "ct_status (snd (captureInitDiskStream cl dr s)) = ct_status (snd s)"
  "ct_wroteHeader (snd (captureInitDiskStream cl dr s)) = ct_wroteHeader (snd s)"
  "ct_hijacked (snd (captureInitDiskStream cl dr s)) = ct_hijacked (snd s)"
  by (cases s; simp add: captureInitDiskStream_def)+

lemma unstorable_any: "\<not> storable c \<Longrightarrow> capture_ok c w \<Longrightarrow> capture_ok c w'"
  by (simp add: capture_ok_def)

lemma accounts_frame:
  "accounts s (i, c\<lparr>ct_header := h\<rparr>) = accounts s (i, c)"
  "accounts s (i, c\<lparr>ct_interimTags := t\<rparr>) = accounts s (i, c)"
  "accounts (i, c\<lparr>ct_status := n\<rparr>) s = accounts (i, c) s"
  "accounts (i, c\<lparr>ct_status := n, ct_wroteHeader := b, ct_snapshot := sn\<rparr>) s = accounts (i, c) s"
  "accounts (i, c\<lparr>ct_writeErr := b\<rparr>) s = accounts (i, c) s"
  "accounts (i, c\<lparr>ct_hijacked := b\<rparr>) s = accounts (i, c) s"
  by (simp_all add: accounts_def)

text \<open>The ways a final status goes, for the writer and for the recorder.\<close>

lemma final_status_effect:
  assumes ok: "capture_ok c []" "storable c" "ct_stream c = None"
    and res: "res \<in> {dropCapture (i, c), abandonCapture (i, c) reason, captureInitDiskStream cl dr (i, c)}"
  shows "accounts (i, c) res \<and> capture_ok (snd res) []"
  using res drop_effect [OF capture_ok_reserved(1) [OF ok(1)]] abandon_effect [OF capture_ok_reserved [OF ok(1)]]
    init_stream_effect [OF ok] by auto

lemma writer_header_sound:
  assumes inv: "capture_inv False c w"
  shows "sound_step False (i, c) w (capture_WriteHeader check dr code (i, c)) w \<and>
         (\<not> interim_status code \<longrightarrow> started False (snd (capture_WriteHeader check dr code (i, c))))"
proof (cases "ct_wroteHeader c \<or> ct_hijacked c")
  case True
  then show ?thesis using inv by (auto simp: capture_WriteHeader_def sound_step_def started_def)
next
  case fresh: False
  then have ok: "capture_ok c []" "storable c" "ct_stream c = None" and w: "w = []"
    using inv by (auto simp: capture_inv_def started_def)
  show ?thesis
  proof (cases "interim_status code")
    case True
    then show ?thesis
      using inv fresh ok w
      by (auto simp: capture_WriteHeader_def sound_step_def capture_inv_def started_def accounts_frame
          capture_ok_frame storable_def)
  next
    case False
    define snap where "snap = merge_interim_tags (ct_interimTags c) (headerDifference (ct_header c) (ct_entrySnapshot c))"
    define c1 where "c1 = c\<lparr>ct_status := code, ct_wroteHeader := True, ct_snapshot := snap\<rparr>"
    define res where "res = decide_capture check dr code (ct_header c) snap (i, c1)"
    have eq: "capture_WriteHeader check dr code (i, c) =
        (fst res, (snd res)\<lparr>ct_header := hdr_Del (strip_live (snd res)) ''X-Jul-WAF-Event''\<rparr>)"
      using fresh False by (simp add: capture_WriteHeader_def Let_def snap_def [symmetric] c1_def [symmetric]
          res_def [symmetric] case_prod_beta)
    have c1: "capture_ok c1 []" "storable c1" "ct_stream c1 = None" "ct_wroteHeader c1"
      using ok by (simp_all add: c1_def capture_ok_frame storable_def)
    have "accounts (i, c1) res \<and> capture_ok (snd res) []"
      using c1(2) by (intro final_status_effect [OF c1(1-3)]) (auto simp: res_def decide_capture_def Let_def storable_def)
    moreover have "ct_wroteHeader (snd res)" using c1(4) by (simp add: res_def decide_capture_def Let_def)
    moreover have "accounts (i, c) s = accounts (i, c1) s" for s by (simp add: c1_def accounts_frame)
    ultimately show ?thesis
      using False w by (cases res) (auto simp: eq sound_step_def capture_inv_def started_def accounts_frame capture_ok_frame)
  qed
qed

lemma recorder_header_sound:
  assumes inv: "capture_inv True c w" and code: "code \<noteq> 0"
  shows "sound_step True (i, c) w (recorder_WriteHeader check dr code (i, c)) w \<and>
         (\<not> interim_status code \<longrightarrow> started True (snd (recorder_WriteHeader check dr code (i, c))))"
proof (cases "ct_status c \<noteq> 0 \<or> interim_status code")
  case True
  then show ?thesis using inv by (auto simp: recorder_WriteHeader_def sound_step_def started_def)
next
  case False
  then have ok: "capture_ok c []" "storable c" "ct_stream c = None" and w: "w = []"
    using inv by (auto simp: capture_inv_def started_def)
  define c1 where "c1 = c\<lparr>ct_status := code\<rparr>"
  let ?res = "recorder_WriteHeader check dr code (i, c)"
  have c1: "capture_ok c1 []" "storable c1" "ct_stream c1 = None" "ct_status c1 = code"
    using ok by (simp_all add: c1_def capture_ok_frame storable_def)
  have res: "?res \<in> {dropCapture (i, c1), abandonCapture (i, c1) captureSkipOversize,
      captureInitDiskStream (declaredLength (ct_header c)) dr (i, c1)}"
    using False by (auto simp: recorder_WriteHeader_def Let_def c1_def)
  have "accounts (i, c1) ?res \<and> capture_ok (snd ?res) []"
    by (rule final_status_effect [OF c1(1-3) res])
  moreover have "ct_status (snd ?res) = code" using res c1(4) by auto
  moreover have "accounts (i, c) s = accounts (i, c1) s" for s by (simp add: c1_def accounts_frame)
  ultimately show ?thesis
    using False w code by (auto simp: sound_step_def capture_inv_def started_def)
qed

lemma chunk_status [simp]:
  "ct_status (snd (captureWriteChunk p dr s)) = ct_status (snd s)"
  "ct_wroteHeader (snd (captureWriteChunk p dr s)) = ct_wroteHeader (snd s)"
  "ct_hijacked (snd (captureWriteChunk p dr s)) = ct_hijacked (snd s)"
  by (cases s; auto simp: captureWriteChunk_def Let_def give_up_def acct_grow_def acct_release_def budget_reserve_def
      split: option.splits stream_write.splits if_splits)+

text \<open>Copying a chunk after the status is set.\<close>

lemma copy_sound:
  assumes inv: "capture_inv recorder (snd s) w" and st: "started recorder (snd s)"
    and s2: "s2 = (if \<not> ct_tooBig (snd s) \<and> \<not> ct_noStore (snd s) \<and> length p > 0 then captureWriteChunk p dr s else s)"
  shows "sound_step recorder s w s2 (w @ p) \<and> started recorder (snd s2)"
proof -
  obtain i c where s: "s = (i, c)" by (cases s)
  have ok: "capture_ok c w" using inv by (simp add: capture_inv_def s)
  show ?thesis
  proof (cases "storable c \<and> p \<noteq> []")
    case True
    then show ?thesis
      using chunk_effect [OF ok, of p i dr] st s2
      by (auto simp: sound_step_def capture_inv_def started_def storable_def s)
  next
    case False
    then have "s2 = s" "capture_ok c (w @ p)"
      using s2 ok unstorable_any [of c w "w @ p"] by (auto simp: storable_def s)
    then show ?thesis using st by (simp add: sound_step_def capture_inv_def s)
  qed
qed

definition valid_call :: "capture_call \<Rightarrow> bool" where
  "valid_call call = (case call of CallHeader dr code \<Rightarrow> code \<ge> 100 | _ \<Rightarrow> True)"

lemma sound_trans:
  "sound_step r s w t w' \<Longrightarrow> sound_step r t w' u w'' \<Longrightarrow> sound_step r s w u w''"
  by (auto simp: sound_step_def intro: accounts_trans)

lemma sound_drop:
  assumes "capture_ok c w" and "started recorder c"
  shows "sound_step recorder (i, c) w' (dropCapture (i, c)) w''"
  using drop_effect [OF capture_ok_reserved(1) [OF assms(1)]] assms(2)
  by (simp add: sound_step_def capture_inv_def started_def)

lemma capture_exec_sound:
  assumes inv: "capture_inv recorder (snd s) w" and valid: "valid_call call"
  shows "sound_step recorder s w (capture_exec recorder check s call) (w @ written_by call)"
proof -
  obtain i c where s: "s = (i, c)" by (cases s)
  have c: "capture_inv recorder c w" using inv by (simp add: s)
  have same: "sound_step recorder s w s w" using c by (simp add: sound_step_def s)
  have implicit: "sound_step recorder s w (if started recorder c then s else
      (if recorder then recorder_WriteHeader check dr 200 s else capture_WriteHeader check dr 200 s)) w \<and>
      started recorder (snd (if started recorder c then s else
      (if recorder then recorder_WriteHeader check dr 200 s else capture_WriteHeader check dr 200 s)))" for dr
    using same recorder_header_sound [of c w 200 i check dr] writer_header_sound [of c w i check dr 200] c
    by (auto simp: s interim_status_def)
  show ?thesis
  proof (cases call)
    case (CallHeader dr code)
    then show ?thesis
      using valid recorder_header_sound [of c w code i check dr] writer_header_sound [of c w i check dr code] c
      by (auto simp: capture_exec_def written_by_def valid_call_def s)
  next
    case (CallWrite dr p client)
    show ?thesis
    proof (cases "\<not> recorder \<and> ct_hijacked c")
      case True
      then have "\<not> storable c" "capture_ok c w" using c by (auto simp: capture_inv_def capture_ok_def storable_def)
      then have "capture_ok c (w @ p)" using unstorable_any by blast
      with True c show ?thesis
        by (simp add: CallWrite capture_exec_def written_by_def capture_Write_def s sound_step_def capture_inv_def started_def)
    next
      case False
      define s1 where "s1 = (if started recorder c then s else
        (if recorder then recorder_WriteHeader check dr 200 s else capture_WriteHeader check dr 200 s))"
      define s2 where "s2 = (if \<not> ct_tooBig (snd s1) \<and> \<not> ct_noStore (snd s1) \<and> length p > 0
        then captureWriteChunk p dr s1 else s1)"
      have s1: "sound_step recorder s w s1 w" "started recorder (snd s1)" using implicit [of dr] by (simp_all add: s1_def)
      then have "capture_inv recorder (snd s1) w" by (simp add: sound_step_def)
      with s1(2) have s2: "sound_step recorder s1 w s2 (w @ p)" "started recorder (snd s2)"
        using copy_sound [OF _ _ s2_def] by blast+
      have end2: "sound_step recorder s w s2 (w @ p)" by (rule sound_trans [OF s1(1) s2(1)])
      have "capture_exec recorder check s call =
          (if \<not> recorder \<and> client = ClientError then dropCapture (fst s2, (snd s2)\<lparr>ct_writeErr := True\<rparr>) else s2)"
        using False by (auto simp: CallWrite capture_exec_def capture_Write_def recorder_Write_def s s1_def s2_def
            started_def Let_def case_prod_beta)
      moreover have "sound_step recorder s w (dropCapture (fst s2, (snd s2)\<lparr>ct_writeErr := True\<rparr>)) (w @ p)"
        using end2 s2(2) drop_effect [of "(snd s2)\<lparr>ct_writeErr := True\<rparr>" "fst s2"]
          capture_ok_reserved(1) [of "snd s2" "w @ p"] accounts_trans [of s s2]
        by (auto simp: sound_step_def capture_inv_def started_def accounts_frame)
      moreover have "written_by call = p" by (simp add: CallWrite written_by_def)
      ultimately show ?thesis using end2 by presburger
    qed
  next
    case (CallFlush dr)
    then show ?thesis using same implicit [of dr]
      by (auto simp: capture_exec_def written_by_def capture_Flush_def s started_def)
  next
    case (CallHijack ok)
    have "ct_reserved (c\<lparr>ct_hijacked := True\<rparr>) \<ge> 0" using c by (auto simp: capture_inv_def capture_ok_def)
    then have "sound_step False s w (dropCapture (i, c\<lparr>ct_hijacked := True\<rparr>)) w"
      using drop_effect [of "c\<lparr>ct_hijacked := True\<rparr>" i] by (simp add: sound_step_def capture_inv_def started_def accounts_frame s)
    with same show ?thesis
      by (auto simp: CallHijack capture_exec_def written_by_def capture_Hijack_def s)
  next
    case (CallMutate h)
    then show ?thesis
      using c by (auto simp: capture_exec_def written_by_def sound_step_def capture_inv_def started_def storable_def
          accounts_frame capture_ok_frame s)
  qed
qed

subsection \<open>Captures that share a budget\<close>

definition new_writer :: "int \<Rightarrow> int \<Rightarrow> int \<Rightarrow> bool \<Rightarrow> string list \<Rightarrow> bool \<Rightarrow> hdr \<Rightarrow> capture" where
  "new_writer lim memLimit memBudgetLimit disk tagHeaders strip h =
     \<lparr>ct_status = 0, ct_wroteHeader = False, ct_buf = [], ct_limit = lim, ct_memLimit = memLimit,
      ct_memBudgetLimit = memBudgetLimit, ct_bodyLen = 0, ct_disk = disk, ct_stream = None, ct_tooBig = False,
      ct_reserved = 0, ct_noStore = False, ct_hijacked = False, ct_writeErr = False, ct_skips = [], ct_abandons = 0,
      ct_header = h, ct_entrySnapshot = h, ct_snapshot = [], ct_tagHeaders = tagHeaders, ct_strip = strip,
      ct_interimTags = []\<rparr>"

definition newRecorder :: "int \<Rightarrow> int \<Rightarrow> int \<Rightarrow> bool \<Rightarrow> string list \<Rightarrow> bool \<Rightarrow> capture" where
  "newRecorder lim memLimit memBudgetLimit disk tagHeaders strip =
     new_writer lim memLimit memBudgetLimit disk tagHeaders strip []"

text \<open>The captures of a cache: whether each is a recorder, the capture, and the bytes its handler
  wrote; None once it was released.\<close>

type_synonym capture_slot = "(bool \<times> capture \<times> string) option"
type_synonym capture_sys = "int \<times> capture_slot list"

inductive capture_step :: "int \<Rightarrow> capture_sys \<Rightarrow> capture_sys \<Rightarrow> bool" for budget where
  open_writer: "c = new_writer lim memLimit memBudgetLimit disk tagHeaders strip h \<Longrightarrow> effMemBudgetLimit c \<le> budget \<Longrightarrow>
    capture_step budget (i, cs) (i, cs @ [Some (False, c, [])])"
| open_recorder: "c = newRecorder lim memLimit memBudgetLimit disk tagHeaders strip \<Longrightarrow> effMemBudgetLimit c \<le> budget \<Longrightarrow>
    capture_step budget (i, cs) (i, cs @ [Some (True, c, [])])"
| call: "k < length cs \<Longrightarrow> cs ! k = Some (recorder, c, w) \<Longrightarrow> valid_call call \<Longrightarrow>
    capture_exec recorder check (i, c) call = (i', c') \<Longrightarrow>
    capture_step budget (i, cs) (i', cs[k := Some (recorder, c', w @ written_by call)])"
| close: "k < length cs \<Longrightarrow> cs ! k = Some (recorder, c, w) \<Longrightarrow> releaseCapture (i, c) = (i', c') \<Longrightarrow>
    capture_step budget (i, cs) (i', cs[k := None])"

definition slot_reserved :: "capture_slot \<Rightarrow> int" where
  "slot_reserved slot = (case slot of None \<Rightarrow> 0 | Some (recorder, c, w) \<Rightarrow> ct_reserved c)"

definition slot_ok :: "int \<Rightarrow> capture_slot \<Rightarrow> bool" where
  "slot_ok budget slot =
     (case slot of None \<Rightarrow> True
      | Some (recorder, c, w) \<Rightarrow> capture_inv recorder c w \<and> effMemBudgetLimit c \<le> budget)"

definition budget_inv :: "int \<Rightarrow> capture_sys \<Rightarrow> bool" where
  "budget_inv budget s \<longleftrightarrow>
     fst s = sum_list (map slot_reserved (snd s)) \<and> fst s \<le> budget \<and> list_all (slot_ok budget) (snd s)"

lemma new_captures_ok:
  "capture_inv False (new_writer lim memLimit memBudgetLimit disk tagHeaders strip h) []"
  "capture_inv True (newRecorder lim memLimit memBudgetLimit disk tagHeaders strip) []"
  by (auto simp: new_writer_def newRecorder_def capture_inv_def capture_ok_def started_def storable_def captured_def)

lemma new_captures_reserved [simp]:
  "ct_reserved (new_writer lim memLimit memBudgetLimit disk tagHeaders strip h) = 0"
  "ct_reserved (newRecorder lim memLimit memBudgetLimit disk tagHeaders strip) = 0"
  by (simp_all add: new_writer_def newRecorder_def)

lemma sum_list_slot:
  "k < length cs \<Longrightarrow>
   sum_list (map slot_reserved (cs[k := slot])) = sum_list (map slot_reserved cs) + slot_reserved slot - slot_reserved (cs ! k)"
  by (induction cs arbitrary: k) (auto split: nat.splits)

lemma capture_step_inv:
  assumes "capture_step budget s t" and "budget_inv budget s"
  shows "budget_inv budget t"
  using assms
proof (cases rule: capture_step.cases)
  case (open_writer c lim memLimit memBudgetLimit disk tagHeaders strip h i cs)
  with assms(2) show ?thesis by (simp add: budget_inv_def slot_reserved_def slot_ok_def new_captures_ok)
next
  case (open_recorder c lim memLimit memBudgetLimit disk tagHeaders strip i cs)
  with assms(2) show ?thesis by (simp add: budget_inv_def slot_reserved_def slot_ok_def new_captures_ok)
next
  case (call k cs recorder c w call check i i' c')
  have slot: "capture_inv recorder c w" "effMemBudgetLimit c \<le> budget"
    using assms(2) call by (auto simp: budget_inv_def list_all_length slot_ok_def split: option.splits)
  have "sound_step recorder (i, c) w (i', c') (w @ written_by call)"
    using capture_exec_sound [of recorder "(i, c)" w call check] slot(1) call by simp
  then have eff: "i' - ct_reserved c' = i - ct_reserved c" "i' \<le> i \<or> i' \<le> effMemBudgetLimit c"
    "effMemBudgetLimit c' = effMemBudgetLimit c" "capture_inv recorder c' (w @ written_by call)"
    by (auto simp: sound_step_def accounts_def)
  have "slot_ok budget (Some (recorder, c', w @ written_by call))" using eff slot by (simp add: slot_ok_def)
  then have "list_all (slot_ok budget) (cs[k := Some (recorder, c', w @ written_by call)])"
    using assms(2) call by (auto simp: budget_inv_def list_all_iff dest: set_update_subset_insert [THEN subsetD])
  moreover have "i' = sum_list (map slot_reserved (cs[k := Some (recorder, c', w @ written_by call)]))"
    using eff assms(2) call by (simp add: sum_list_slot budget_inv_def slot_reserved_def)
  ultimately show ?thesis using eff slot assms(2) call by (auto simp: budget_inv_def)
next
  case (close k cs recorder c w i i' c')
  have "ct_reserved c \<ge> 0"
    using assms(2) close by (auto simp: budget_inv_def list_all_length slot_ok_def capture_inv_def capture_ok_def split: option.splits)
  then have i': "i' = i - ct_reserved c" "i' \<le> i"
    using close by (auto simp: releaseCapture_def acct_release_def budget_release_def split: if_splits)
  have "list_all (slot_ok budget) (cs[k := None])"
    using assms(2) close by (auto simp: budget_inv_def list_all_iff slot_ok_def dest!: set_update_subset_insert [THEN subsetD])
  moreover have "i' = sum_list (map slot_reserved (cs[k := None]))"
    using i' assms(2) close by (simp add: sum_list_slot budget_inv_def slot_reserved_def)
  ultimately show ?thesis using i' assms(2) close by (simp add: budget_inv_def)
qed

interpretation captures: invariant_system "capture_step budget" "\<lambda>s. s = (0, []) \<and> 0 \<le> budget" "budget_inv budget"
  by unfold_locales (simp add: budget_inv_def, rule capture_step_inv)

lemma value_difference_mset: "mset (value_difference left vs) = mset vs - mset left"
proof (induction vs arbitrary: left)
  case (Cons v vs)
  show ?case
  proof (cases "v \<in> set left")
    case True
    then have "mset left = add_mset v (mset (remove1 v left))" by simp
    then show ?thesis using True Cons by (metis add_mset_diff_bothsides mset.simps(2) value_difference.simps(2))
  next
    case False
    then show ?thesis using Cons by (simp add: multiset_eq_iff not_in_iff)
  qed
qed simp

subsection \<open>Forwarded responses\<close>

text \<open>\<^verbatim>\<open>statusWriter\<close>: the status of a response that is forwarded only.\<close>

record statusWriter =
  sw_status :: int
  sw_wroteHeader :: bool
  sw_hijacked :: bool
  sw_strip :: bool
  sw_tagHeaders :: "string list"
  sw_header :: hdr
  sw_forwarded :: "int list"

definition status_Hijack :: "bool \<Rightarrow> statusWriter \<Rightarrow> statusWriter" where
  "status_Hijack ok w = (if ok then w\<lparr>sw_hijacked := True\<rparr> else w)"

definition status_WriteHeader :: "int \<Rightarrow> statusWriter \<Rightarrow> statusWriter" where
  "status_WriteHeader code w =
     (let h = hdr_Del (sw_header w) ''X-Jul-WAF-Event'';
          h = (if sw_strip w \<and> sw_tagHeaders w \<noteq> [] then stripTagHeaders h (sw_tagHeaders w) else h);
          w = w\<lparr>sw_header := h, sw_forwarded := sw_forwarded w @ [code]\<rparr> in
      if interim_status code then w
      else w\<lparr>sw_wroteHeader := True, sw_status := (if sw_status w = 0 then code else sw_status w)\<rparr>)"

definition status_Write :: "statusWriter \<Rightarrow> statusWriter" where
  "status_Write w = (if sw_status w = 0 then status_WriteHeader 200 w else w)"

definition status_Flush :: "statusWriter \<Rightarrow> statusWriter" where
  "status_Flush w = (if sw_status w = 0 then status_WriteHeader 200 w else w)"

text \<open>The status observed is the first final one.\<close>

lemma status_is_first_final:
  assumes "sw_status w = 0" and "\<forall>code \<in> set codes. code > 0"
  shows "sw_status (foldl (\<lambda>w code. status_WriteHeader code w) w codes) =
         (case filter (\<lambda>code. \<not> interim_status code) codes of [] \<Rightarrow> 0 | code # _ \<Rightarrow> code)"
proof -
  have stays: "sw_status v > 0 \<Longrightarrow> sw_status (foldl (\<lambda>w code. status_WriteHeader code w) v cs) = sw_status v" for v cs
    by (induction cs arbitrary: v) (simp_all add: status_WriteHeader_def Let_def)
  show ?thesis
    using assms
  proof (induction codes arbitrary: w)
    case (Cons code codes)
    show ?case
    proof (cases "interim_status code")
      case True
      then show ?thesis using Cons.IH [of "status_WriteHeader code w"] Cons.prems by (simp add: status_WriteHeader_def Let_def)
    next
      case False
      then have "sw_status (status_WriteHeader code w) = code" using Cons.prems by (simp add: status_WriteHeader_def Let_def)
      then show ?thesis using False Cons.prems stays [of "status_WriteHeader code w" codes] by simp
    qed
  qed simp
qed

subsection \<open>The contract of captures\<close>

text \<open>C33: In every interleaving of captures that open, run their handlers' calls and are released,
  the bytes in flight are the bytes the open captures hold in memory and never exceed the budget; an
  open capture that may be stored holds exactly the bytes its handler wrote, in memory within the
  memory limit or else in its temporary file, and within the entry limit; one that may not be stored
  holds nothing; and a hijacked or failed response may not be stored.\<close>

theorem capture_contract:
  assumes "reachable_by (capture_step budget) (0, []) (inflight, cs)" and "0 \<le> budget"
  shows "inflight = sum_list (map slot_reserved cs) \<and> inflight \<le> budget \<and>
    (\<forall>recorder c w. Some (recorder, c, w) \<in> set cs \<longrightarrow>
       ct_reserved c = int (length (ct_buf c)) \<and>
       (storable c \<longrightarrow> captured c = w \<and> (w \<noteq> [] \<longrightarrow> int (length w) \<le> ct_limit c) \<and>
          (ct_stream c = None \<longrightarrow> w \<noteq> [] \<longrightarrow> int (length w) \<le> effMemLimit c)) \<and>
       (\<not> storable c \<longrightarrow> ct_buf c = [] \<and> ct_stream c = None) \<and>
       (ct_hijacked c \<or> ct_writeErr c \<longrightarrow> \<not> storable c))"
proof -
  have inv: "budget_inv budget (inflight, cs)" using captures.reachable_inv [OF assms(1)] assms(2) by simp
  have "capture_ok c w" if "Some (recorder, c, w) \<in> set cs" for recorder c w
    using inv that by (force simp: budget_inv_def list_all_iff slot_ok_def capture_inv_def)
  then show ?thesis using inv by (fastforce simp: budget_inv_def capture_ok_def storable_def split: if_splits)
qed

definition demo_writer :: capture where
  "demo_writer = new_writer 8 4 16 False [] False []"

definition demo_after :: cstate where
  "demo_after = capture_exec False (\<lambda>code h. True) (0, demo_writer) (CallWrite \<lparr>dr_begin = True, dr_write = StreamOK\<rparr> ''abc'' ClientOK)"

theorem capture_contract_witness:
  "captured (snd demo_after) = ''abc'' \<and> fst demo_after = 3 \<and> fst demo_after \<le> 16 \<and> storable (snd demo_after)"
proof -
  let ?call = "CallWrite \<lparr>dr_begin = True, dr_write = StreamOK\<rparr> ''abc'' ClientOK"
  obtain i c where after: "demo_after = (i, c)" by (cases demo_after)
  have "capture_step 16 (0, []) (0, [Some (False, demo_writer, [])])"
    using capture_step.open_writer [where budget = 16 and cs = "[]" and i = 0, OF demo_writer_def]
    by (simp add: demo_writer_def new_writer_def effMemBudgetLimit_def)
  then have 1: "reachable_by (capture_step 16) (0, []) (0, [Some (False, demo_writer, [])])"
    by (rule reach_step [OF reach_refl])
  have step: "capture_step 16 (0, [Some (False, demo_writer, [])]) (i, [Some (False, c, ''abc'')])"
    using capture_step.call [of 0 "[Some (False, demo_writer, [])]" False demo_writer "[]" ?call "\<lambda>code h. True" 0 i c 16]
      after by (simp add: demo_after_def valid_call_def written_by_def)
  have "storable (snd demo_after) \<and> fst demo_after = 3" by code_simp
  then have st: "storable c \<and> i = 3" unfolding after by (simp only: fst_conv snd_conv)
  have 2: "reachable_by (capture_step 16) (0, []) (i, [Some (False, c, ''abc'')])" using 1 step by (rule reach_step)
  have "Some (False, c, ''abc'') \<in> set [Some (False, c, ''abc'')]" "0 \<le> (16::int)" by simp_all
  with capture_contract [of 16 i "[Some (False, c, ''abc'')]", OF 2] st have "captured c = ''abc'' \<and> i \<le> 16" by blast
  then show ?thesis unfolding after using st by (simp only: fst_conv snd_conv)
qed

end
