(* ===== verification/Proxyproto.thy ===== *)
theory Proxyproto
  imports Gostrings
begin

text \<open>
  \<^verbatim>\<open>src/internal/proxyproto/proxyproto.go\<close>: reading and writing PROXY protocol headers. The
  buffered reader is the list of bytes still to come; a read that needs more bytes than there
  are fails. An IP address is a byte list as \<^verbatim>\<open>net.IP\<close> is, of length 4 or 16. The text
  parser \<^verbatim>\<open>net.ParseIP\<close> is the argument \<open>pip\<close>.
\<close>

type_synonym ip = string

record TCPAddr =
  tcp_IP :: ip
  tcp_Port :: int

datatype proxy_error =
  ShortSignature
| MissingHeader
| V1ReadLine
| V1TooLong
| V1NoCRLF
| V1Malformed
| V1FieldCount
| V1BadSource
| V1BadDestination
| V1NeedsIPv4
| V1NeedsIPv6
| V1BadSourcePort
| V1BadDestinationPort
| V1Unsupported
| V2ReadHeader
| V2BadVersion
| V2ReadAddresses
| V2ShortIPv4
| V2ShortIPv6

definition v2Signature :: string where
  "v2Signature = map char_of [0x0D, 0x0A, 0x0D, 0x0A, 0x00, 0x0D, 0x0A, 0x51, 0x55, 0x49, 0x54, 0x0A :: nat]"

definition v1MaxLen :: nat where
  "v1MaxLen = 108"

subsection \<open>Addresses and integers\<close>

definition v4InV6Prefix :: string where
  "v4InV6Prefix = replicate 10 (CHR 0x00) @ replicate 2 (CHR 0xFF)"

text \<open>\<^verbatim>\<open>IP.To4\<close> and \<^verbatim>\<open>IP.To16\<close>; \<open>None\<close> is the nil slice.\<close>

definition To4 :: "ip \<Rightarrow> ip option" where
  "To4 a =
     (if length a = 4 then Some a
      else if length a = 16 \<and> take 12 a = v4InV6Prefix then Some (drop 12 a) else None)"

definition To16 :: "ip \<Rightarrow> ip option" where
  "To16 a = (if length a = 4 then Some (v4InV6Prefix @ a) else if length a = 16 then Some a else None)"

definition slice_of :: "ip option \<Rightarrow> string" where
  "slice_of a = (case a of None \<Rightarrow> [] | Some s \<Rightarrow> s)"

definition byte_val :: "char \<Rightarrow> nat" where
  "byte_val c = of_char c"

definition AppendUint16 :: "nat \<Rightarrow> string" where
  "AppendUint16 n = [char_of (n div 256), char_of n]"

definition Uint16 :: "string \<Rightarrow> nat" where
  "Uint16 b = byte_val (b ! 0) * 256 + byte_val (b ! 1)"

definition uint16_of :: "int \<Rightarrow> nat" where
  "uint16_of n = nat (n mod 65536)"

text \<open>\<^verbatim>\<open>strconv.Atoi\<close>, on a platform with 64-bit \<^verbatim>\<open>int\<close>.\<close>

definition Atoi :: "string \<Rightarrow> int option" where
  "Atoi s =
     (let (neg, ds) = (case s of c # t \<Rightarrow> if c = CHR ''-'' then (True, t) else if c = CHR ''+'' then (False, t) else (False, s)
                       | [] \<Rightarrow> (False, [])) in
      if ds = [] \<or> \<not> list_all is_digit ds then None
      else let v = int (decimal ds); n = (if neg then - v else v) in
           if - (2 ^ 63) \<le> n \<and> n < 2 ^ 63 then Some n else None)"

text \<open>
  \<^verbatim>\<open>bytes.Fields\<close>: the runs of bytes between white space. The width of the white-space character
  at the head of the input is 0 when there is none: the ASCII ones have one byte, the other
  characters of \<^verbatim>\<open>unicode.IsSpace\<close> two or three. Their first byte is never inside another
  character, so looking for them at every byte is decoding the characters one by one.
\<close>

fun space_width :: "string \<Rightarrow> nat" where
  "space_width [] = 0"
| "space_width (c # s) =
     (let a = byte_val c; rest = map byte_val (take 2 s) in
      if a \<in> {9, 10, 11, 12, 13, 32} then 1
      else if a = 0xC2 \<and> take 1 rest \<in> {[0x85], [0xA0]} then 2
      else if a = 0xE1 \<and> rest = [0x9A, 0x80] then 3
      else if a = 0xE2 \<and> length rest = 2 \<and> rest ! 0 = 0x80 \<and>
              (0x80 \<le> rest ! 1 \<and> rest ! 1 \<le> 0x8A \<or> rest ! 1 \<in> {0xA8, 0xA9, 0xAF}) then 3
      else if a = 0xE2 \<and> rest = [0x81, 0x9F] then 3
      else if a = 0xE3 \<and> rest = [0x80, 0x80] then 3
      else 0)"

fun Fields_loop :: "string \<Rightarrow> string \<Rightarrow> string list" where
  "Fields_loop cur [] = (if cur = [] then [] else [cur])"
| "Fields_loop cur (c # s) =
     (case space_width (c # s) of
        0 \<Rightarrow> Fields_loop (cur @ [c]) s
      | Suc k \<Rightarrow> if cur = [] then Fields_loop [] (drop k s) else cur # Fields_loop [] (drop k s))"

definition Fields :: "string \<Rightarrow> string list" where
  "Fields s = Fields_loop [] s"

subsection \<open>Version 1\<close>

text \<open>The bounded read of a line: at most \<open>n\<close> more bytes, up to and including a line feed.\<close>

fun read_line :: "nat \<Rightarrow> string \<Rightarrow> string \<Rightarrow> (string \<times> string) option" where
  "read_line 0 acc br = Some (acc, br)"
| "read_line (Suc n) acc [] = None"
| "read_line (Suc n) acc (b # br) =
     (if b = CHR 0x0A then Some (acc @ [b], br) else read_line n (acc @ [b]) br)"

definition v1_fields :: "(string \<Rightarrow> ip option) \<Rightarrow> string list \<Rightarrow> proxy_error + TCPAddr option" where
  "v1_fields pip fs =
     (if length fs < 2 \<or> fs ! 0 \<noteq> ''PROXY'' then Inl V1Malformed
      else if fs ! 1 = ''UNKNOWN'' then Inr None
      else if fs ! 1 = ''TCP4'' \<or> fs ! 1 = ''TCP6'' then
        (if length fs \<noteq> 6 then Inl V1FieldCount
         else case pip (fs ! 2) of
                None \<Rightarrow> Inl V1BadSource
              | Some srcIP \<Rightarrow>
         (case pip (fs ! 3) of
            None \<Rightarrow> Inl V1BadDestination
          | Some dstIP \<Rightarrow>
              if fs ! 1 = ''TCP4'' \<and> (To4 srcIP = None \<or> To4 dstIP = None) then Inl V1NeedsIPv4
              else if fs ! 1 = ''TCP6'' \<and> (To4 srcIP \<noteq> None \<or> To4 dstIP \<noteq> None) then Inl V1NeedsIPv6
              else case Atoi (fs ! 4) of
                     None \<Rightarrow> Inl V1BadSourcePort
                   | Some srcPort \<Rightarrow>
                       if srcPort < 0 \<or> srcPort > 65535 then Inl V1BadSourcePort
                       else (case Atoi (fs ! 5) of
                               None \<Rightarrow> Inl V1BadDestinationPort
                             | Some dstPort \<Rightarrow>
                                 if dstPort < 0 \<or> dstPort > 65535 then Inl V1BadDestinationPort
                                 else Inr (Some \<lparr>tcp_IP = srcIP, tcp_Port = srcPort\<rparr>))))
      else Inl V1Unsupported)"

definition readV1 :: "(string \<Rightarrow> ip option) \<Rightarrow> string \<Rightarrow> proxy_error + TCPAddr option \<times> string" where
  "readV1 pip br =
     (case read_line v1MaxLen [] br of
        None \<Rightarrow> Inl V1ReadLine
      | Some (bounded, rest) \<Rightarrow>
          if length bounded = v1MaxLen \<and> last bounded \<noteq> CHR 0x0A then Inl V1TooLong
          else if length bounded < 2 \<or> bounded ! (length bounded - 2) \<noteq> CHR 0x0D then Inl V1NoCRLF
          else case v1_fields pip (Fields (take (length bounded - 2) bounded)) of
                 Inl e \<Rightarrow> Inl e
               | Inr a \<Rightarrow> Inr (a, rest))"

subsection \<open>Version 2\<close>

definition readV2 :: "string \<Rightarrow> proxy_error + TCPAddr option \<times> string" where
  "readV2 br =
     (if length br < 16 then Inl V2ReadHeader
      else
        (let hdr = take 16 br; br = drop 16 br; verCmd = byte_val (hdr ! 12) in
         if verCmd div 16 \<noteq> 2 then Inl V2BadVersion
         else
           (let famProto = byte_val (hdr ! 13); len = Uint16 (drop 14 hdr) in
            if length br < len then Inl V2ReadAddresses
            else
              (let addrBlock = take len br; rest = drop len br in
               if verCmd mod 16 = 0 then Inr (None, rest)
               else if famProto div 16 = 1 then
                 (if length addrBlock < 12 then Inl V2ShortIPv4
                  else Inr (Some \<lparr>tcp_IP = take 4 addrBlock, tcp_Port = int (Uint16 (drop 8 addrBlock))\<rparr>, rest))
               else if famProto div 16 = 2 then
                 (if length addrBlock < 36 then Inl V2ShortIPv6
                  else Inr (Some \<lparr>tcp_IP = take 16 addrBlock, tcp_Port = int (Uint16 (drop 32 addrBlock))\<rparr>, rest))
               else Inr (None, rest)))))"

definition ReadHeader :: "(string \<Rightarrow> ip option) \<Rightarrow> string \<Rightarrow> proxy_error + TCPAddr option \<times> string" where
  "ReadHeader pip br =
     (if length br < 12 then Inl ShortSignature
      else if take 12 br = v2Signature then readV2 br
      else if HasPrefix (take 12 br) ''PROXY '' then readV1 pip br
      else Inl MissingHeader)"

text \<open>An address that is not a TCP address is \<open>None\<close>.\<close>

definition WriteV2 :: "TCPAddr option \<Rightarrow> TCPAddr option \<Rightarrow> string" where
  "WriteV2 src dst =
     (case (src, dst) of
        (Some s, Some d) \<Rightarrow>
          (case (To4 (tcp_IP s), To4 (tcp_IP d)) of
             (Some s4, Some d4) \<Rightarrow>
               v2Signature @ map char_of [0x21, 0x11 :: nat] @ AppendUint16 12 @ s4 @ d4 @
               AppendUint16 (uint16_of (tcp_Port s)) @ AppendUint16 (uint16_of (tcp_Port d))
           | _ \<Rightarrow>
               v2Signature @ map char_of [0x21, 0x21 :: nat] @ AppendUint16 36 @
               slice_of (To16 (tcp_IP s)) @ slice_of (To16 (tcp_IP d)) @
               AppendUint16 (uint16_of (tcp_Port s)) @ AppendUint16 (uint16_of (tcp_Port d)))
      | _ \<Rightarrow> v2Signature @ map char_of [0x20, 0, 0, 0 :: nat])"

subsection \<open>Round trip\<close>

definition tcp_ok :: "TCPAddr \<Rightarrow> bool" where
  "tcp_ok a \<longleftrightarrow> (length (tcp_IP a) = 4 \<or> length (tcp_IP a) = 16) \<and> 0 \<le> tcp_Port a \<and> tcp_Port a \<le> 65535"

lemma Uint16_AppendUint16: "n < 65536 \<Longrightarrow> Uint16 (AppendUint16 n @ s) = n"
  by (simp add: Uint16_def AppendUint16_def byte_val_def)

lemma length_parts [simp]: "length v2Signature = 12" "length (AppendUint16 n) = 2" "length v4InV6Prefix = 12"
  by (simp_all add: v2Signature_def AppendUint16_def v4InV6Prefix_def)

lemma To4_length: "To4 a = Some b \<Longrightarrow> length b = 4"
  by (auto simp: To4_def split: if_splits)

lemma To16_To4: "To4 a = Some b \<Longrightarrow> To16 b = To16 a"
proof -
  assume t: "To4 a = Some b"
  show ?thesis
  proof (cases "length a = 4")
    case False
    with t have a: "length a = 16" "take 12 a = v4InV6Prefix" "b = drop 12 a" by (auto simp: To4_def split: if_splits)
    have "v4InV6Prefix @ b = a" unfolding a(2) [symmetric] a(3) by (rule append_take_drop_id)
    moreover have "length b = 4" using a(1) unfolding a(3) by simp
    ultimately have "To16 b = Some a" by (simp add: To16_def)
    then show ?thesis using a(1) by (simp add: To16_def)
  qed (use t in \<open>simp add: To4_def\<close>)
qed

text \<open>What reading a binary header does, on its parts.\<close>

lemma nth_sig: "(v2Signature @ map char_of [v, f :: nat] @ t) ! 12 = char_of v"
  "(v2Signature @ map char_of [v, f :: nat] @ t) ! 13 = char_of f"
  by (simp_all add: nth_append)

lemma readV2_parts:
  assumes "n < 65536" and "length block = n"
  shows "readV2 (v2Signature @ map char_of [v, f :: nat] @ AppendUint16 n @ block @ rest) =
    (let v = v mod 256; f = f mod 256 in
     if v div 16 \<noteq> 2 then Inl V2BadVersion
     else if v mod 16 = 0 then Inr (None, rest)
     else if f div 16 = 1 then
       (if n < 12 then Inl V2ShortIPv4
        else Inr (Some \<lparr>tcp_IP = take 4 block, tcp_Port = int (Uint16 (drop 8 block))\<rparr>, rest))
     else if f div 16 = 2 then
       (if n < 36 then Inl V2ShortIPv6
        else Inr (Some \<lparr>tcp_IP = take 16 block, tcp_Port = int (Uint16 (drop 32 block))\<rparr>, rest))
     else Inr (None, rest))"
proof -
  let ?s = "v2Signature @ map char_of [v, f] @ AppendUint16 n @ block @ rest"
  have h: "take 16 ?s = v2Signature @ map char_of [v, f] @ AppendUint16 n" "drop 16 ?s = block @ rest"
    "\<not> length ?s < 16" by simp_all
  have b: "byte_val (take 16 ?s ! 12) = v mod 256" "byte_val (take 16 ?s ! 13) = f mod 256"
    by (simp_all only: h nth_sig) (simp_all add: byte_val_def)
  have u: "Uint16 (drop 14 (take 16 ?s)) = n"
    unfolding h using Uint16_AppendUint16 [OF assms(1), of "[]"] by simp
  have t: "take n (block @ rest) = block" "drop n (block @ rest) = rest" "\<not> length (block @ rest) < n"
    using assms(2) by simp_all
  show ?thesis
    by (simp only: readV2_def Let_def b u h(2,3) t assms(2) if_False)
qed

lemma ReadHeader_v2: "ReadHeader pip (v2Signature @ s) = readV2 (v2Signature @ s)"
proof -
  have "\<not> length (v2Signature @ s) < 12" "take 12 (v2Signature @ s) = v2Signature" by simp_all
  then show ?thesis by (simp only: ReadHeader_def if_False simp_thms if_True)
qed

lemma uint16_port: "0 \<le> p \<Longrightarrow> p \<le> 65535 \<Longrightarrow> uint16_of p < 65536 \<and> int (uint16_of p) = p"
  by (simp add: uint16_of_def)

text \<open>Reading back the two kinds of address block.\<close>

lemma read_block:
  assumes "length s = k" and "length d = k" and "p < 65536" and "q < 65536"
  shows "take k (s @ d @ AppendUint16 p @ AppendUint16 q) = s"
    and "Uint16 (drop (2 * k) (s @ d @ AppendUint16 p @ AppendUint16 q)) = p"
    and "length (s @ d @ AppendUint16 p @ AppendUint16 q) = 2 * k + 4"
proof -
  show "take k (s @ d @ AppendUint16 p @ AppendUint16 q) = s" using assms(1) by simp
  have "drop (2 * k) (s @ d @ AppendUint16 p @ AppendUint16 q) = AppendUint16 p @ AppendUint16 q"
    unfolding mult_2 assms(1,2) [symmetric] using assms(1,2) by simp
  then show "Uint16 (drop (2 * k) (s @ d @ AppendUint16 p @ AppendUint16 q)) = p"
    by (simp only: Uint16_AppendUint16 [OF assms(3)])
  show "length (s @ d @ AppendUint16 p @ AppendUint16 q) = 2 * k + 4" using assms(1,2) by simp
qed

lemma WriteV2_reads:
  assumes "tcp_ok s" and "tcp_ok d"
  shows "\<exists>a. ReadHeader pip (WriteV2 (Some s) (Some d) @ rest) = Inr (Some \<lparr>tcp_IP = a, tcp_Port = tcp_Port s\<rparr>, rest) \<and>
    To16 a = To16 (tcp_IP s)"
proof -
  define p where "p = uint16_of (tcp_Port s)"
  define q where "q = uint16_of (tcp_Port d)"
  have pq: "p < 65536" "q < 65536" "int p = tcp_Port s"
    using assms uint16_port by (simp_all add: tcp_ok_def p_def q_def)
  show ?thesis
  proof (cases "To4 (tcp_IP s) \<noteq> None \<and> To4 (tcp_IP d) \<noteq> None")
    case True
    then obtain s4 d4 where t: "To4 (tcp_IP s) = Some s4" "To4 (tcp_IP d) = Some d4" by auto
    note B = read_block [OF To4_length [OF t(1)] To4_length [OF t(2)] pq(1,2)]
    have "WriteV2 (Some s) (Some d) @ rest = v2Signature @ map char_of [0x21, 0x11 :: nat] @ AppendUint16 12 @
        (s4 @ d4 @ AppendUint16 p @ AppendUint16 q) @ rest"
      by (simp add: WriteV2_def t p_def q_def)
    then have "ReadHeader pip (WriteV2 (Some s) (Some d) @ rest) = Inr (Some \<lparr>tcp_IP = s4, tcp_Port = tcp_Port s\<rparr>, rest)"
      using readV2_parts [of 12 "s4 @ d4 @ AppendUint16 p @ AppendUint16 q" "0x21" "0x11" rest] B pq(3)
      by (simp add: ReadHeader_v2)
    then show ?thesis using To16_To4 [OF t(1)] by blast
  next
    case False
    obtain s16 d16 where t: "To16 (tcp_IP s) = Some s16" "To16 (tcp_IP d) = Some d16" "length s16 = 16" "length d16 = 16"
      using assms by (auto simp: tcp_ok_def To16_def)
    note B = read_block [OF t(3,4) pq(1,2)]
    have "WriteV2 (Some s) (Some d) @ rest = v2Signature @ map char_of [0x21, 0x21 :: nat] @ AppendUint16 36 @
        (s16 @ d16 @ AppendUint16 p @ AppendUint16 q) @ rest"
      using False by (auto simp: WriteV2_def t p_def q_def slice_of_def split: option.splits)
    then have "ReadHeader pip (WriteV2 (Some s) (Some d) @ rest) = Inr (Some \<lparr>tcp_IP = s16, tcp_Port = tcp_Port s\<rparr>, rest)"
      using readV2_parts [of 36 "s16 @ d16 @ AppendUint16 p @ AppendUint16 q" "0x21" "0x21" rest] B pq(3)
      by (simp add: ReadHeader_v2)
    then show ?thesis using t by (auto simp: To16_def)
  qed
qed

text \<open>A PROXY header written for a flow is read back as that flow. Whatever follows it on the
  connection, reading the binary header the gateway writes for a TCP source and destination,
  IPv4 or IPv6 in any mix, returns the source port and the same source address (equal once
  both are in 16-byte form) and leaves exactly the bytes that follow. When an address is not a
  TCP address, the header reads back as one that carries no address.\<close>

lemma WriteV2_ReadHeader:
  assumes "\<forall>s d. src = Some s \<and> dst = Some d \<longrightarrow> tcp_ok s \<and> tcp_ok d"
  shows "case (src, dst) of
           (Some s, Some d) \<Rightarrow>
             \<exists>a. ReadHeader pip (WriteV2 src dst @ rest) = Inr (Some \<lparr>tcp_IP = a, tcp_Port = tcp_Port s\<rparr>, rest) \<and>
                 To16 a = To16 (tcp_IP s)
         | _ \<Rightarrow> ReadHeader pip (WriteV2 src dst @ rest) = Inr (None, rest)"
proof (cases "src = None \<or> dst = None")
  case True
  then have "WriteV2 src dst = v2Signature @ map char_of [0x20, 0 :: nat] @ AppendUint16 0 @ []"
    by (auto simp: WriteV2_def AppendUint16_def split: option.splits)
  then have "ReadHeader pip (WriteV2 src dst @ rest) = Inr (None, rest)"
    using readV2_parts [of 0 "[]" "0x20" 0 rest] ReadHeader_v2 by simp
  with True show ?thesis by (auto split: option.splits)
next
  case False
  then obtain s d where sd: "src = Some s" "dst = Some d" by auto
  with assms WriteV2_reads [of s d pip rest] show ?thesis by simp
qed

lemma WriteV2_ReadHeader_example:
  "\<exists>a. ReadHeader (\<lambda>_. None) (WriteV2 (Some \<lparr>tcp_IP = map char_of [10, 0, 0, 1 :: nat], tcp_Port = 443\<rparr>)
       (Some \<lparr>tcp_IP = replicate 16 (CHR 0x01), tcp_Port = 80\<rparr>) @ ''GET'') =
     Inr (Some \<lparr>tcp_IP = a, tcp_Port = 443\<rparr>, ''GET'')"
  using WriteV2_ReadHeader [of "Some \<lparr>tcp_IP = map char_of [10, 0, 0, 1 :: nat], tcp_Port = 443\<rparr>"
      "Some \<lparr>tcp_IP = replicate 16 (CHR 0x01), tcp_Port = 80\<rparr>" "\<lambda>_. None" "''GET''"]
  by (auto simp: tcp_ok_def)

subsection \<open>The text header is bounded\<close>

lemma read_line_split:
  "read_line n acc br = Some (line, rest) \<Longrightarrow> \<exists>l. line = acc @ l \<and> br = l @ rest \<and> length l \<le> n"
proof (induction n acc br rule: read_line.induct)
  case (3 n acc b br)
  then show ?case by (cases "b = CHR 0x0A") fastforce+
qed auto

text \<open>However the peer sends its text header, at most 108 bytes of the connection are consumed, and
  what is consumed is a prefix of what was sent.\<close>

lemma readV1_bounded:
  assumes "readV1 pip br = Inr (a, rest)"
  shows "\<exists>l. br = l @ rest \<and> length l \<le> v1MaxLen"
proof -
  from assms obtain line where "read_line v1MaxLen [] br = Some (line, rest)"
    by (auto simp: readV1_def split: option.splits if_splits sum.splits prod.splits)
  from read_line_split [OF this] show ?thesis by auto
qed

lemma v1_port_range:
  "v1_fields pip fs = Inr (Some a) \<Longrightarrow> 0 \<le> tcp_Port a \<and> tcp_Port a \<le> 65535"
  by (auto simp: v1_fields_def split: if_splits option.splits)

end
