(* ===== verification/Sni.thy ===== *)
theory Sni
  imports Proxyproto
begin

text \<open>
  \<^verbatim>\<open>src/internal/stream/sni.go\<close>: reading the server name and the offered protocols from a TLS
  ClientHello without consuming it. The cursor is the record of the code; the buffered reader
  is its size and the bytes to come, and peeking fails when it asks for more than either. A
  slice of protocols is only ever nil or appended to, so the empty list is nil.
\<close>

definition tlsRecordMax :: nat where "tlsRecordMax = 16384"
definition tlsClientHelloMax :: nat where "tlsClientHelloMax = 16384"
definition tlsClientHelloMaxRecords :: nat where "tlsClientHelloMaxRecords = 64"
definition tlsALPNMaxProtocols :: nat where "tlsALPNMaxProtocols = 64"
definition tlsALPNMaxProtocolLen :: nat where "tlsALPNMaxProtocolLen = 255"

definition tlsInspectMax :: nat where
  "tlsInspectMax = tlsClientHelloMax + 5 * tlsClientHelloMaxRecords"

subsection \<open>The cursor\<close>

record cursor =
  c_b :: string
  c_pos :: nat
  c_err :: bool

definition u8 :: "cursor \<Rightarrow> nat \<times> cursor" where
  "u8 c =
     (if c_err c \<or> c_pos c + 1 > length (c_b c) then (0, c\<lparr>c_err := True\<rparr>)
      else (byte_val (c_b c ! c_pos c), c\<lparr>c_pos := c_pos c + 1\<rparr>))"

definition u16 :: "cursor \<Rightarrow> nat \<times> cursor" where
  "u16 c =
     (if c_err c \<or> c_pos c + 2 > length (c_b c) then (0, c\<lparr>c_err := True\<rparr>)
      else (byte_val (c_b c ! c_pos c) * 256 + byte_val (c_b c ! (c_pos c + 1)), c\<lparr>c_pos := c_pos c + 2\<rparr>))"

definition u24 :: "cursor \<Rightarrow> nat \<times> cursor" where
  "u24 c =
     (if c_err c \<or> c_pos c + 3 > length (c_b c) then (0, c\<lparr>c_err := True\<rparr>)
      else (byte_val (c_b c ! c_pos c) * 65536 + byte_val (c_b c ! (c_pos c + 1)) * 256 + byte_val (c_b c ! (c_pos c + 2)),
            c\<lparr>c_pos := c_pos c + 3\<rparr>))"

definition c_skip :: "nat \<Rightarrow> cursor \<Rightarrow> cursor" where
  "c_skip n c =
     (if c_err c \<or> c_pos c + n > length (c_b c) then c\<lparr>c_err := True\<rparr> else c\<lparr>c_pos := c_pos c + n\<rparr>)"

definition c_take :: "nat \<Rightarrow> cursor \<Rightarrow> string \<times> cursor" where
  "c_take n c =
     (if c_err c \<or> c_pos c + n > length (c_b c) then ([], c\<lparr>c_err := True\<rparr>)
      else (take n (drop (c_pos c) (c_b c)), c\<lparr>c_pos := c_pos c + n\<rparr>))"

text \<open>Progress, for the loops below: a read that leaves no error has moved on.\<close>

lemma cursor_progress:
  "u8 c = (v, c') \<Longrightarrow> \<not> c_err c' \<Longrightarrow> c_pos c' = c_pos c + 1 \<and> c_b c' = c_b c"
  "u16 c = (v, c') \<Longrightarrow> \<not> c_err c' \<Longrightarrow> c_pos c' = c_pos c + 2 \<and> c_b c' = c_b c"
  "c_take n c = (s, c') \<Longrightarrow> \<not> c_err c' \<Longrightarrow> c_pos c' = c_pos c + n \<and> c_b c' = c_b c"
  by (auto simp: u8_def u16_def c_take_def split: if_splits)

lemma cursor_err_stays:
  "u8 c = (v, c') \<Longrightarrow> c_err c \<Longrightarrow> c_err c'"
  "u16 c = (v, c') \<Longrightarrow> c_err c \<Longrightarrow> c_err c'"
  "c_take n c = (s, c') \<Longrightarrow> c_err c \<Longrightarrow> c_err c'"
  by (auto simp: u8_def u16_def c_take_def)

subsection \<open>Extensions\<close>

function alpn_loop :: "cursor \<Rightarrow> string list \<Rightarrow> string list" where
  "alpn_loop c protocols =
     (if c_pos c < length (c_b c) \<and> \<not> c_err c then
        (let (n, c1) = u8 c in
         if n = 0 \<or> n > tlsALPNMaxProtocolLen \<or> length protocols = tlsALPNMaxProtocols then []
         else let (protocol, c2) = c_take n c1 in
              if c_err c2 then [] else alpn_loop c2 (protocols @ [protocol]))
      else protocols)"
  by pat_completeness auto

termination
proof (relation "measure (\<lambda>(c, ps). length (c_b c) - c_pos c)", goal_cases)
  case (2 c ps x n c1 y protocol c2)
  then have "\<not> c_err c1" "\<not> c_err c2" using cursor_err_stays(3) by metis+
  with 2 show ?case using cursor_progress(1) [of c n c1] cursor_progress(3) [of n c1 protocol c2] by auto
qed simp

definition parseALPNExtension :: "string \<Rightarrow> string list" where
  "parseALPNExtension b =
     (let (listLen, c) = u16 \<lparr>c_b = b, c_pos = 0, c_err = False\<rparr> in
      if c_err c \<or> listLen < 2 \<or> listLen \<noteq> length b - 2 then [] else alpn_loop c [])"

lemma sni_step_progress:
  assumes "u8 c = (t, c1)" and "u16 c1 = (n, c2)" and "c_take n c2 = (s, c3)" and "\<not> c_err c3"
  shows "c_pos c3 = c_pos c + 3 + n" and "c_b c3 = c_b c"
proof -
  have "\<not> c_err c2" "\<not> c_err c1" using assms cursor_err_stays by metis+
  then show "c_pos c3 = c_pos c + 3 + n" "c_b c3 = c_b c"
    using assms cursor_progress(1) [of c t c1] cursor_progress(2) [of c1 n c2] cursor_progress(3) [of n c2 s c3] by auto
qed

function sni_loop :: "cursor \<Rightarrow> string \<Rightarrow> string" where
  "sni_loop c host =
     (if \<not> c_err c \<and> c_pos c < length (c_b c) then
        (let (nameType, c1) = u8 c; (nameLen, c2) = u16 c1; (name, c3) = c_take nameLen c2 in
         if c_err c3 then []
         else if nameType = 0 then
           (if host \<noteq> [] \<or> name = [] \<or> length name > 255 then []
            else if \<exists>ch \<in> set name. byte_val ch = 0 \<or> byte_val ch > 0x7F then []
            else sni_loop c3 name)
         else sni_loop c3 host)
      else if c_err c \<or> c_pos c \<noteq> length (c_b c) then [] else host)"
  by pat_completeness auto

termination
proof (relation "measure (\<lambda>(c, h). length (c_b c) - c_pos c)", goal_cases)
  case (2 c h x t c1 y n c2 z s c3)
  then show ?case using sni_step_progress [of c t c1 n c2 s c3] by (auto intro!: diff_less_mono2)
next
  case (3 c h x t c1 y n c2 z s c3)
  then show ?case using sni_step_progress [of c t c1 n c2 s c3] by (auto intro!: diff_less_mono2)
qed simp

definition parseSNIExtension :: "string \<Rightarrow> string" where
  "parseSNIExtension b =
     (let (listLen, c) = u16 \<lparr>c_b = b, c_pos = 0, c_err = False\<rparr> in
      if c_err c \<or> listLen \<noteq> length b - 2 then [] else sni_loop c [])"

declare alpn_loop.simps [simp del] sni_loop.simps [simp del]

subsection \<open>The message\<close>

record clientHelloInfo =
  serverName :: string
  protocols :: "string list"

definition no_hello :: clientHelloInfo where
  "no_hello = \<lparr>serverName = [], protocols = []\<rparr>"

lemma ext_step_progress:
  assumes "u16 c = (t, c1)" and "u16 c1 = (n, c2)" and "\<not> c_err c2"
  shows "c_pos c2 = c_pos c + 4" and "c_b c2 = c_b c" and "c_pos c2 \<le> length (c_b c)"
proof -
  have "\<not> c_err c1" using assms cursor_err_stays by metis
  then show "c_pos c2 = c_pos c + 4" "c_b c2 = c_b c" "c_pos c2 \<le> length (c_b c)"
    using assms cursor_progress(2) [of c t c1] cursor_progress(2) [of c1 n c2]
    by (auto simp: u16_def split: if_splits)
qed

lemma c_take_pos: "c_take n c = (s, c') \<Longrightarrow> c_pos c \<le> c_pos c'"
  by (auto simp: c_take_def split: if_splits)

function ext_loop :: "bool \<Rightarrow> nat \<Rightarrow> cursor \<Rightarrow> string \<Rightarrow> bool \<Rightarrow> bool \<Rightarrow> string list \<Rightarrow> clientHelloInfo" where
  "ext_loop inspectALPN stop c sni sawSNI sawALPN ps =
     (if c_pos c < stop \<and> \<not> c_err c then
        (let (extType, c1) = u16 c; (extLen, c2) = u16 c1 in
         if c_err c2 \<or> c_pos c2 + extLen > stop then no_hello
         else
           let (ext, c3) = c_take extLen c2;
               is_sni = (extType = 0x0000);
               is_alpn = (inspectALPN \<and> extType = 0x0010);
               sni' = (if is_sni then parseSNIExtension ext else sni);
               ps' = (if is_alpn then parseALPNExtension ext else ps) in
           if is_sni \<and> sawSNI then no_hello
           else if is_sni \<and> sni' = [] then no_hello
           else if is_alpn \<and> sawALPN then no_hello
           else if is_alpn \<and> ps' = [] then no_hello
           else ext_loop inspectALPN stop c3 sni' (is_sni \<or> sawSNI) (is_alpn \<or> sawALPN) ps')
      else if c_err c \<or> c_pos c \<noteq> stop then no_hello
      else \<lparr>serverName = sni, protocols = ps\<rparr>)"
  by pat_completeness auto

termination
proof (relation "measure (\<lambda>(a, e, c, _). e - c_pos c)", goal_cases)
  case (2 alpn e c sni s1 s2 ps x t c1 y n c2 z ext c3)
  then have "c_pos c2 = c_pos c + 4" using ext_step_progress(1) [of c t c1 n c2] by auto
  moreover have "c_pos c2 \<le> c_pos c3" using 2 c_take_pos [of n c2 ext c3] by auto
  ultimately show ?case using 2 by (auto intro!: diff_less_mono2)
qed simp

declare ext_loop.simps [simp del]

definition parseClientHello :: "string \<Rightarrow> bool \<Rightarrow> clientHelloInfo" where
  "parseClientHello b inspectALPN =
     (let (t, c) = u8 \<lparr>c_b = b, c_pos = 0, c_err = False\<rparr> in
      if t \<noteq> 0x01 then no_hello
      else let (declared, c) = u24 c in
      if c_err c \<or> declared \<noteq> length b - 4 then no_hello
      else let (version, c) = u16 c in
      if version < 0x0300 \<or> version > 0x0304 then no_hello
      else let c = c_skip 32 c; (sessionLen, c) = u8 c in
      if sessionLen > 32 then no_hello
      else let c = c_skip sessionLen c; (cipherLen, c) = u16 c in
      if cipherLen < 2 \<or> cipherLen mod 2 \<noteq> 0 then no_hello
      else let c = c_skip cipherLen c; (compressionLen, c) = u8 c in
      if compressionLen < 1 then no_hello
      else let c = c_skip compressionLen c in
      if c_err c then no_hello
      else if c_pos c = length (c_b c) then no_hello
      else let (extTotal, c) = u16 c; stop = c_pos c + extTotal in
      if c_err c \<or> stop \<noteq> length (c_b c) then no_hello
      else ext_loop inspectALPN stop c [] False False [])"

definition parseClientHelloSNI :: "string \<Rightarrow> string" where
  "parseClientHelloSNI b = serverName (parseClientHello b False)"

subsection \<open>Records\<close>

definition Peek :: "nat \<Rightarrow> string \<Rightarrow> nat \<Rightarrow> string option" where
  "Peek bufsize br n = (if n \<le> bufsize \<and> n \<le> length br then Some (take n br) else None)"

text \<open>
  One round of the loop over records: the result of the function, or the loop variables of the
  next round. \<open>hello\<close> is the filled part of the fixed array.
\<close>

definition peek_record ::
  "nat \<Rightarrow> string \<Rightarrow> bool \<Rightarrow> string \<Rightarrow> nat \<Rightarrow> nat \<Rightarrow> clientHelloInfo + string \<times> nat \<times> nat" where
  "peek_record bufsize br inspectALPN hello want offset =
     (case Peek bufsize br (offset + 5) of
        None \<Rightarrow> Inl no_hello
      | Some hdr \<Rightarrow>
          let hdr = drop offset hdr in
          if byte_val (hdr ! 0) \<noteq> 0x16 \<or> byte_val (hdr ! 1) \<noteq> 0x03 \<or> byte_val (hdr ! 2) > 0x04 then Inl no_hello
          else
            let recLen = byte_val (hdr ! 3) * 256 + byte_val (hdr ! 4) in
            if recLen = 0 \<or> recLen > tlsRecordMax \<or> offset + 5 + recLen > tlsInspectMax then Inl no_hello
            else case Peek bufsize br (offset + 5 + recLen) of
                   None \<Rightarrow> Inl no_hello
                 | Some full \<Rightarrow>
                     let payload = drop (offset + 5) full;
                         copyLen = (if want > 0 \<and> length hello + length payload > want
                                    then int want - int (length hello) else int (length payload)) in
                     if copyLen < 0 \<or> int (length hello) + copyLen > int tlsClientHelloMax then Inl no_hello
                     else
                       let hello = hello @ take (nat copyLen) payload;
                           fresh = (want = 0 \<and> length hello \<ge> 4);
                           want' = (if fresh then 4 + byte_val (hello ! 1) * 65536 + byte_val (hello ! 2) * 256 + byte_val (hello ! 3)
                                    else want) in
                       if fresh \<and> byte_val (hello ! 0) \<noteq> 0x01 then Inl no_hello
                       else if fresh \<and> (want' < 4 \<or> want' > tlsClientHelloMax) then Inl no_hello
                       else if want' > 0 \<and> length hello \<ge> want' then Inl (parseClientHello (take want' hello) inspectALPN)
                       else Inr (hello, want', offset + 5 + recLen))"

primrec peek_loop :: "nat \<Rightarrow> nat \<Rightarrow> string \<Rightarrow> bool \<Rightarrow> string \<times> nat \<times> nat \<Rightarrow> clientHelloInfo" where
  "peek_loop 0 bufsize br inspectALPN st = no_hello"
| "peek_loop (Suc n) bufsize br inspectALPN st =
     (case peek_record bufsize br inspectALPN (fst st) (fst (snd st)) (snd (snd st)) of
        Inl info \<Rightarrow> info
      | Inr st' \<Rightarrow> peek_loop n bufsize br inspectALPN st')"

definition peekClientHello :: "nat \<Rightarrow> string \<Rightarrow> bool \<Rightarrow> clientHelloInfo" where
  "peekClientHello bufsize br inspectALPN = peek_loop tlsClientHelloMaxRecords bufsize br inspectALPN ([], 0, 0)"

definition peekSNI :: "nat \<Rightarrow> string \<Rightarrow> string" where
  "peekSNI bufsize br = serverName (peekClientHello bufsize br False)"

end
