(* ===== verification/Sni_Props.thy ===== *)
theory Sni_Props
  imports Sni
begin

text \<open>
  What the ClientHello inspector of \<^verbatim>\<open>Sni\<close> does with a message that a TLS client sends: an
  encoder of ClientHello messages and of their cutting into records, a declarative reading of
  the list of extensions, and the proof that peeking reads exactly that. It also shows the
  form of every result, whatever the bytes.
\<close>

subsection \<open>Wire encoding\<close>

definition enc24 :: "nat \<Rightarrow> string" where
  "enc24 n = [char_of (n div 65536), char_of (n div 256), char_of n]"

definition enc_vec8 :: "string \<Rightarrow> string" where
  "enc_vec8 s = char_of (length s) # s"

definition enc_vec16 :: "string \<Rightarrow> string" where
  "enc_vec16 s = AppendUint16 (length s) @ s"

datatype extension =
  SNI "(nat \<times> string) list"
| ALPN "string list"
| Other nat string

definition enc_name :: "nat \<times> string \<Rightarrow> string" where
  "enc_name e = char_of (fst e) # enc_vec16 (snd e)"

primrec ext_type :: "extension \<Rightarrow> nat" where
  "ext_type (SNI es) = 0"
| "ext_type (ALPN ps) = 16"
| "ext_type (Other t b) = t"

primrec ext_body :: "extension \<Rightarrow> string" where
  "ext_body (SNI es) = enc_vec16 (concat (map enc_name es))"
| "ext_body (ALPN ps) = enc_vec16 (concat (map enc_vec8 ps))"
| "ext_body (Other t b) = b"

definition enc_ext :: "extension \<Rightarrow> string" where
  "enc_ext x = AppendUint16 (ext_type x) @ enc_vec16 (ext_body x)"

primrec ext_ok :: "extension \<Rightarrow> bool" where
  "ext_ok (SNI es) \<longleftrightarrow> (\<forall>e \<in> set es. fst e < 256 \<and> length (snd e) < 65536)"
| "ext_ok (ALPN ps) \<longleftrightarrow> (\<forall>p \<in> set ps. length p < 256)"
| "ext_ok (Other t b) \<longleftrightarrow> t < 65536 \<and> t \<noteq> 0 \<and> t \<noteq> 16"

record hello =
  h_version :: nat
  h_random :: string
  h_session :: string
  h_ciphers :: string
  h_compression :: string
  h_exts :: "extension list"

definition hello_body :: "hello \<Rightarrow> string" where
  "hello_body h = AppendUint16 (h_version h) @ h_random h @ enc_vec8 (h_session h) @ enc_vec16 (h_ciphers h) @
     enc_vec8 (h_compression h) @ enc_vec16 (concat (map enc_ext (h_exts h)))"

definition enc_hello :: "hello \<Rightarrow> string" where
  "enc_hello h = char_of (1 :: nat) # enc24 (length (hello_body h)) @ hello_body h"

definition hello_ok :: "hello \<Rightarrow> bool" where
  "hello_ok h \<longleftrightarrow> 0x0300 \<le> h_version h \<and> h_version h \<le> 0x0304 \<and> length (h_random h) = 32 \<and>
     length (h_session h) \<le> 32 \<and> 2 \<le> length (h_ciphers h) \<and> even (length (h_ciphers h)) \<and>
     1 \<le> length (h_compression h) \<and> length (h_compression h) < 256 \<and>
     list_all ext_ok (h_exts h) \<and> length (enc_hello h) \<le> tlsClientHelloMax"

text \<open>A record carries a piece of the message under one of the defined record versions.\<close>

definition enc_record :: "nat \<times> string \<Rightarrow> string" where
  "enc_record r = map char_of [0x16, 0x03, fst r :: nat] @ enc_vec16 (snd r)"

subsection \<open>The declarative reading\<close>

definition host_ok :: "string \<Rightarrow> bool" where
  "host_ok n \<longleftrightarrow> n \<noteq> [] \<and> length n \<le> 255 \<and> (\<forall>ch \<in> set n. 0 < byte_val ch \<and> byte_val ch \<le> 127)"

definition host_of :: "(nat \<times> string) list \<Rightarrow> string" where
  "host_of es =
     (case filter (\<lambda>e. fst e = 0) es of [e] \<Rightarrow> if host_ok (snd e) then snd e else [] | _ \<Rightarrow> [])"

definition alpn_of :: "string list \<Rightarrow> string list" where
  "alpn_of ps = (if length ps \<le> tlsALPNMaxProtocols \<and> [] \<notin> set ps then ps else [])"

primrec snis :: "extension list \<Rightarrow> string list" where
  "snis [] = []"
| "snis (x # xs) = (case x of SNI es \<Rightarrow> host_of es # snis xs | _ \<Rightarrow> snis xs)"

primrec alpns :: "extension list \<Rightarrow> string list list" where
  "alpns [] = []"
| "alpns (x # xs) = (case x of ALPN ps \<Rightarrow> alpn_of ps # alpns xs | _ \<Rightarrow> alpns xs)"

definition hello_info :: "bool \<Rightarrow> extension list \<Rightarrow> clientHelloInfo" where
  "hello_info inspectALPN xs =
     (let as = (if inspectALPN then alpns xs else []) in
      if length (snis xs) \<le> 1 \<and> [] \<notin> set (snis xs) \<and> length as \<le> 1 \<and> [] \<notin> set as
      then \<lparr>serverName = concat (snis xs), protocols = concat as\<rparr> else no_hello)"

subsection \<open>A cursor between what is read and what is to come\<close>

definition curat :: "string \<Rightarrow> string \<Rightarrow> cursor" where
  "curat pre post = \<lparr>c_b = pre @ post, c_pos = length pre, c_err = False\<rparr>"

lemma curat_sel [simp]: "c_b (curat pre post) = pre @ post" "c_pos (curat pre post) = length pre" "\<not> c_err (curat pre post)"
  by (simp_all add: curat_def)

lemma curat_start: "\<lparr>c_b = b, c_pos = 0, c_err = False\<rparr> = curat [] b"
  by (simp add: curat_def)

lemma u8_curat: "n < 256 \<Longrightarrow> u8 (curat pre (char_of n # post)) = (n, curat (pre @ [char_of n]) post)"
  by (simp add: u8_def curat_def byte_val_def)

lemma u16_curat: "n < 65536 \<Longrightarrow> u16 (curat pre (AppendUint16 n @ post)) = (n, curat (pre @ AppendUint16 n) post)"
  by (simp add: u16_def curat_def byte_val_def AppendUint16_def nth_append)

lemma nat_bytes3: "n < 16777216 \<Longrightarrow> (n div 65536) mod 256 * 65536 + (n div 256) mod 256 * 256 + n mod 256 = n" for n :: nat
proof -
  assume "n < 16777216"
  then have "(n div 65536) mod 256 = n div 256 div 256" by (simp add: div_mult2_eq [symmetric])
  moreover have "n div 256 = n div 256 div 256 * 256 + n div 256 mod 256" "n = n div 256 * 256 + n mod 256" by simp_all
  ultimately show ?thesis by linarith
qed

lemma u24_curat: "n < 16777216 \<Longrightarrow> u24 (curat pre (enc24 n @ post)) = (n, curat (pre @ enc24 n) post)"
  using nat_bytes3 [of n] by (simp add: u24_def curat_def byte_val_def enc24_def nth_append)

lemma c_skip_curat: "length s = n \<Longrightarrow> c_skip n (curat pre (s @ post)) = curat (pre @ s) post"
  by (simp add: c_skip_def curat_def)

lemma c_take_curat: "length s = n \<Longrightarrow> c_take n (curat pre (s @ post)) = (s, curat (pre @ s) post)"
  by (simp add: c_take_def curat_def)

lemmas curat_reads = u8_curat u16_curat u24_curat c_skip_curat c_take_curat

subsection \<open>Extension bodies\<close>

lemma alpn_loop_enc:
  assumes "\<forall>p \<in> set ps. length p < 256" and "length acc \<le> tlsALPNMaxProtocols"
  shows "alpn_loop (curat pre (concat (map enc_vec8 ps))) acc =
    (if length acc + length ps \<le> tlsALPNMaxProtocols \<and> [] \<notin> set ps then acc @ ps else [])"
  using assms
proof (induction ps arbitrary: pre acc)
  case Nil
  then show ?case by (subst alpn_loop.simps) simp
next
  case (Cons p ps)
  let ?post = "concat (map enc_vec8 ps)"
  have p: "length p < 256" using Cons.prems by simp
  have step: "alpn_loop (curat pre (enc_vec8 p @ ?post)) acc =
      (if length p = 0 \<or> length acc = tlsALPNMaxProtocols then []
       else alpn_loop (curat (pre @ [char_of (length p)] @ p) ?post) (acc @ [p]))"
    using p by (subst alpn_loop.simps) (simp add: enc_vec8_def u8_curat c_take_curat tlsALPNMaxProtocolLen_def)
  show ?case
  proof (cases "length p = 0 \<or> length acc = tlsALPNMaxProtocols")
    case True
    then show ?thesis using step by auto
  next
    case False
    then have "length (acc @ [p]) \<le> tlsALPNMaxProtocols" using Cons.prems by simp
    moreover have "\<forall>p \<in> set ps. length p < 256" using Cons.prems by simp
    ultimately show ?thesis using step False Cons.IH [of "acc @ [p]" "pre @ [char_of (length p)] @ p"] by simp
  qed
qed

lemma length_enc [simp]: "length (enc_vec8 s) = Suc (length s)" "length (enc_vec16 s) = 2 + length s"
  by (simp_all add: enc_vec8_def enc_vec16_def)

lemma length_names_ge: "length ps \<le> length (concat (map enc_vec8 ps))"
  by (induction ps) auto

lemma parseALPN_enc:
  assumes "\<forall>p \<in> set ps. length p < 256" and "length (concat (map enc_vec8 ps)) < 65536"
  shows "parseALPNExtension (enc_vec16 (concat (map enc_vec8 ps))) = alpn_of ps"
proof -
  let ?v = "concat (map enc_vec8 ps)"
  have u: "u16 (curat [] (enc_vec16 ?v)) = (length ?v, curat (AppendUint16 (length ?v)) ?v)"
    using u16_curat [OF assms(2), of "[]" ?v] by (simp add: enc_vec16_def)
  have "parseALPNExtension (enc_vec16 ?v) = (if length ?v < 2 then [] else alpn_loop (curat (AppendUint16 (length ?v)) ?v) [])"
    unfolding parseALPNExtension_def curat_start u by simp
  also have "\<dots> = (if length ?v < 2 then [] else alpn_of ps)"
    by (simp add: alpn_loop_enc [OF assms(1)] alpn_of_def)
  also have "\<dots> = alpn_of ps"
  proof (cases "length ?v < 2")
    case True
    then have "ps = [] \<or> ps = [[]]" by (cases ps; cases "tl ps") (auto simp: enc_vec8_def)
    then show ?thesis by (auto simp: alpn_of_def)
  qed simp
  finally show ?thesis .
qed

definition host_fold :: "string \<Rightarrow> (nat \<times> string) list \<Rightarrow> string" where
  "host_fold host es =
     (case filter (\<lambda>e. fst e = 0) es of
        [] \<Rightarrow> host
      | [e] \<Rightarrow> if host = [] \<and> host_ok (snd e) then snd e else []
      | _ \<Rightarrow> [])"

lemma sni_loop_enc:
  assumes "\<forall>e \<in> set es. fst e < 256 \<and> length (snd e) < 65536"
  shows "sni_loop (curat pre (concat (map enc_name es))) host = host_fold host es"
  using assms
proof (induction es arbitrary: pre host)
  case Nil
  then show ?case by (subst sni_loop.simps) (simp add: host_fold_def)
next
  case (Cons e es)
  let ?post = "concat (map enc_name es)" and ?pre = "((pre @ [char_of (fst e)]) @ AppendUint16 (length (snd e))) @ snd e"
  have e: "fst e < 256" "length (snd e) < 65536" using Cons.prems by simp_all
  have ih: "sni_loop (curat ?pre ?post) h = host_fold h es" for h using Cons by simp
  have ok: "host_ok (snd e) \<longleftrightarrow> snd e \<noteq> [] \<and> \<not> 255 < length (snd e) \<and>
      \<not> (\<exists>ch \<in> set (snd e). byte_val ch = 0 \<or> 127 < byte_val ch)"
    by (auto simp: host_ok_def not_less)
  have step: "sni_loop (curat pre (enc_name e @ ?post)) host =
      (if fst e = 0 then if host = [] \<and> host_ok (snd e) then sni_loop (curat ?pre ?post) (snd e) else []
       else sni_loop (curat ?pre ?post) host)"
    unfolding ok using e by (subst sni_loop.simps) (auto simp: enc_name_def enc_vec16_def u8_curat u16_curat c_take_curat)
  show ?case
    unfolding list.map concat.simps step ih by (auto simp: host_fold_def host_ok_def split: list.splits)
qed

lemma parseSNI_enc:
  assumes "\<forall>e \<in> set es. fst e < 256 \<and> length (snd e) < 65536" and "length (concat (map enc_name es)) < 65536"
  shows "parseSNIExtension (enc_vec16 (concat (map enc_name es))) = host_of es"
proof -
  let ?v = "concat (map enc_name es)"
  have u: "u16 (curat [] (enc_vec16 ?v)) = (length ?v, curat (AppendUint16 (length ?v)) ?v)"
    using u16_curat [OF assms(2), of "[]" ?v] by (simp add: enc_vec16_def)
  show ?thesis
    unfolding parseSNIExtension_def curat_start u
    by (auto simp: sni_loop_enc [OF assms(1)] host_fold_def host_of_def split: list.splits)
qed

subsection \<open>The list of extensions\<close>

definition info_fold :: "bool \<Rightarrow> extension list \<Rightarrow> string \<Rightarrow> bool \<Rightarrow> bool \<Rightarrow> string list \<Rightarrow> clientHelloInfo" where
  "info_fold inspectALPN xs sni sawSNI sawALPN ps =
     (let as = (if inspectALPN then alpns xs else []) in
      if (sawSNI \<longrightarrow> snis xs = []) \<and> (sawALPN \<longrightarrow> as = []) \<and>
         length (snis xs) \<le> 1 \<and> [] \<notin> set (snis xs) \<and> length as \<le> 1 \<and> [] \<notin> set as
      then \<lparr>serverName = (if snis xs = [] then sni else concat (snis xs)),
            protocols = (if as = [] then ps else concat as)\<rparr>
      else no_hello)"

lemma ext_parse:
  assumes "ext_ok x" and "length (ext_body x) < 65536"
  shows "ext_type x = 0 \<Longrightarrow> \<exists>es. x = SNI es \<and> parseSNIExtension (ext_body x) = host_of es"
    and "ext_type x = 16 \<Longrightarrow> \<exists>ps. x = ALPN ps \<and> parseALPNExtension (ext_body x) = alpn_of ps"
    and "ext_type x < 65536"
  using assms by (cases x; simp add: parseSNI_enc parseALPN_enc)+

lemma ext_loop_step:
  fixes post sni :: string and inspectALPN :: bool and ps :: "string list"
  assumes "ext_ok x" and "length (ext_body x) < 65536"
    and "stop = length pre + length (enc_ext x @ post)"
  defines "is_sni \<equiv> ext_type x = 0" and "is_alpn \<equiv> inspectALPN \<and> ext_type x = 16"
  defines "sni' \<equiv> if is_sni then parseSNIExtension (ext_body x) else sni"
    and "ps' \<equiv> if is_alpn then parseALPNExtension (ext_body x) else ps"
  shows "ext_loop inspectALPN stop (curat pre (enc_ext x @ post)) sni sawSNI sawALPN ps =
     (if is_sni \<and> sawSNI \<or> is_sni \<and> sni' = [] \<or> is_alpn \<and> sawALPN \<or> is_alpn \<and> ps' = [] then no_hello
      else ext_loop inspectALPN stop (curat (pre @ enc_ext x) post) sni' (is_sni \<or> sawSNI) (is_alpn \<or> sawALPN) ps')"
proof -
  let ?b = "ext_body x" and ?t = "ext_type x"
  have t: "?t < 65536" using ext_parse(3) [OF assms(1,2)] .
  have u: "u16 (curat pre (enc_ext x @ post)) = (?t, curat (pre @ AppendUint16 ?t) (AppendUint16 (length ?b) @ ?b @ post))"
    using u16_curat [OF t, of pre "AppendUint16 (length ?b) @ ?b @ post"] by (simp add: enc_ext_def enc_vec16_def)
  have v: "u16 (curat (pre @ AppendUint16 ?t) (AppendUint16 (length ?b) @ ?b @ post)) =
      (length ?b, curat ((pre @ AppendUint16 ?t) @ AppendUint16 (length ?b)) (?b @ post))"
    using u16_curat [OF assms(2)] .
  have w: "c_take (length ?b) (curat ((pre @ AppendUint16 ?t) @ AppendUint16 (length ?b)) (?b @ post)) =
      (?b, curat (pre @ enc_ext x) post)"
    using c_take_curat [OF refl] by (simp add: enc_ext_def enc_vec16_def)
  have l: "length (enc_ext x) = 4 + length ?b" by (simp add: enc_ext_def)
  have c: "c_pos (curat pre (enc_ext x @ post)) < stop \<and> \<not> c_err (curat pre (enc_ext x @ post))"
    "\<not> (c_err (curat ((pre @ AppendUint16 ?t) @ AppendUint16 (length ?b)) (?b @ post)) \<or>
       c_pos (curat ((pre @ AppendUint16 ?t) @ AppendUint16 (length ?b)) (?b @ post)) + length ?b > stop)"
    using assms(3) l by simp_all
  show ?thesis
    unfolding is_sni_def is_alpn_def sni'_def ps'_def
    by (subst ext_loop.simps) (simp only: c u v w Let_def prod.case if_True if_False; auto)
qed

lemma ext_loop_enc:
  assumes "list_all ext_ok xs" and "length (concat (map enc_ext xs)) < 65536"
    and "stop = length pre + length (concat (map enc_ext xs))"
  shows "ext_loop inspectALPN stop (curat pre (concat (map enc_ext xs))) sni sawSNI sawALPN ps =
     info_fold inspectALPN xs sni sawSNI sawALPN ps"
  using assms
proof (induction xs arbitrary: pre sni sawSNI sawALPN ps)
  case Nil
  then show ?case by (subst ext_loop.simps) (simp add: info_fold_def)
next
  case (Cons x xs)
  have x: "ext_ok x" "length (ext_body x) < 65536" using Cons.prems by (simp_all add: enc_ext_def)
  have s: "stop = length pre + length (enc_ext x @ concat (map enc_ext xs))" using Cons.prems(3) by simp
  have ih: "ext_loop inspectALPN stop (curat (pre @ enc_ext x) (concat (map enc_ext xs))) sni a b ps =
      info_fold inspectALPN xs sni a b ps" for sni a b ps
    using Cons by simp
  show ?case
  proof (cases x)
    case (SNI es)
    then show ?thesis using ext_parse(1) [OF x]
      unfolding list.map concat.simps ext_loop_step [OF x s] ih by (auto simp: info_fold_def Let_def)
  next
    case (ALPN qs)
    then show ?thesis using ext_parse(2) [OF x]
      unfolding list.map concat.simps ext_loop_step [OF x s] ih by (auto simp: info_fold_def Let_def)
  next
    case (Other t b)
    then show ?thesis using x(1)
      unfolding list.map concat.simps ext_loop_step [OF x s] ih by (auto simp: info_fold_def Let_def)
  qed
qed

subsection \<open>The message and its records\<close>

lemma length_enc24 [simp]: "length (enc24 n) = 3"
  by (simp add: enc24_def)

lemma u8_vec8: "length s < 256 \<Longrightarrow> u8 (curat pre (enc_vec8 s @ post)) = (length s, curat (pre @ [char_of (length s)]) (s @ post))"
  by (simp add: enc_vec8_def u8_curat)

lemma u16_vec16: "length s < 65536 \<Longrightarrow>
    u16 (curat pre (enc_vec16 s @ post)) = (length s, curat (pre @ AppendUint16 (length s)) (s @ post))"
  by (simp add: enc_vec16_def u16_curat)

lemma parseClientHello_enc:
  assumes "hello_ok h"
  shows "parseClientHello (enc_hello h) inspectALPN = hello_info inspectALPN (h_exts h)"
proof -
  define body where "body = hello_body h"
  define exts where "exts = concat (map enc_ext (h_exts h))"
  define r5 where "r5 = enc_vec16 exts"
  define r4 where "r4 = enc_vec8 (h_compression h) @ r5"
  define r3 where "r3 = enc_vec16 (h_ciphers h) @ r4"
  define r2 where "r2 = enc_vec8 (h_session h) @ r3"
  have body: "body = AppendUint16 (h_version h) @ h_random h @ r2"
    by (simp add: body_def hello_body_def r2_def r3_def r4_def r5_def exts_def)
  have m: "enc_hello h = char_of (1 :: nat) # enc24 (length body) @ body" by (simp add: enc_hello_def body_def)
  have "length (enc_hello h) \<le> 16384" using assms by (simp add: hello_ok_def tlsClientHelloMax_def)
  then have lb: "length body < 16384" by (simp add: m)
  then have le: "length exts < 65536" "length (h_ciphers h) < 65536"
    by (simp_all add: body r2_def r3_def r4_def r5_def)
  have v: "h_version h < 65536" "\<not> h_version h < 768" "\<not> 772 < h_version h" "\<not> 32 < length (h_session h)"
    "length (h_session h) < 256" "\<not> length (h_ciphers h) < 2" "length (h_ciphers h) mod 2 = 0"
    "length (h_compression h) < 256" "\<not> length (h_compression h) < 1" "length (h_random h) = 32"
    using assms by (auto simp: hello_ok_def even_iff_mod_2_eq_zero)
  have x: "list_all ext_ok (h_exts h)" using assms by (simp add: hello_ok_def)
  have L: "ext_loop inspectALPN stop (curat pre exts) [] False False [] = hello_info inspectALPN (h_exts h)"
    if "stop = length pre + length exts" for stop pre
    using ext_loop_enc [OF x le(1) [unfolded exts_def] that [unfolded exts_def]]
    by (simp add: exts_def info_fold_def hello_info_def Let_def)
  have e: "u16 (curat pre r5) = (length exts, curat (pre @ AppendUint16 (length exts)) exts)" for pre
    using u16_vec16 [OF le(1), of pre "[]"] by (simp add: r5_def)
  have k: "r5 \<noteq> []" using length_enc(2) [of exts] unfolding r5_def by fastforce
  have "parseClientHello (enc_hello h) inspectALPN =
      (let (version, c) = u16 (curat (char_of (1 :: nat) # enc24 (length body)) body) in
       if version < 0x0300 \<or> version > 0x0304 then no_hello
       else let c = c_skip 32 c; (sessionLen, c) = u8 c in
       if sessionLen > 32 then no_hello
       else let c = c_skip sessionLen c; (cipherLen, c) = u16 c in
       if cipherLen < 2 \<or> cipherLen mod 2 \<noteq> 0 then no_hello
       else let c = c_skip cipherLen c; (compressionLen, c) = u8 c in
       if compressionLen < 1 then no_hello
       else let c = c_skip compressionLen c in
       if c_err c then no_hello
       else if c_pos c = length (c_b c) then no_hello
       else let (extTotal, c) = u16 c; stop = c_pos c + extTotal in
       if c_err c \<or> stop \<noteq> length (c_b c) then no_hello
       else ext_loop inspectALPN stop c [] False False [])"
    unfolding parseClientHello_def curat_start
    using lb by (simp add: m u8_curat u24_curat Let_def)
  also have "\<dots> = hello_info inspectALPN (h_exts h)"
    using v le k unfolding body r2_def r3_def r4_def
    by (simp add: u16_curat c_skip_curat u8_vec8 u16_vec16 e L)
  finally show ?thesis .
qed

lemma Peek_prefix: "length xs \<le> bufsize \<Longrightarrow> n = length xs \<Longrightarrow> Peek bufsize (xs @ ys) n = Some xs"
  by (simp add: Peek_def)

text \<open>One round of the record loop, on a record that carries only bytes of the message.\<close>

lemma peek_record_enc:
  assumes "fst r \<le> 4" and "snd r \<noteq> []" and "length hello + length (snd r) \<le> tlsClientHelloMax"
    and "length pre + 5 + length (snd r) \<le> tlsInspectMax" and "want = 0 \<or> length hello + length (snd r) \<le> want"
  shows "peek_record tlsInspectMax (pre @ enc_record r @ rest) inspectALPN hello want (length pre) =
     (let hello = hello @ snd r; fresh = (want = 0 \<and> length hello \<ge> 4);
          want' = (if fresh then 4 + byte_val (hello ! 1) * 65536 + byte_val (hello ! 2) * 256 + byte_val (hello ! 3) else want) in
      if fresh \<and> byte_val (hello ! 0) \<noteq> 0x01 then Inl no_hello
      else if fresh \<and> (want' < 4 \<or> want' > tlsClientHelloMax) then Inl no_hello
      else if want' > 0 \<and> length hello \<ge> want' then Inl (parseClientHello (take want' hello) inspectALPN)
      else Inr (hello, want', length pre + 5 + length (snd r)))"
proof -
  let ?p = "snd r"
  let ?h = "map char_of [0x16, 0x03, fst r] @ AppendUint16 (length ?p)" and ?br = "pre @ enc_record r @ rest"
  have br: "?br = pre @ ?h @ ?p @ rest" by (simp add: enc_record_def enc_vec16_def)
  have hl: "length ?h = 5" by simp
  have lp: "length ?p < 65536" "length ?p \<le> tlsRecordMax"
    using assms(3) by (simp_all add: tlsClientHelloMax_def tlsRecordMax_def)
  have br1: "?br = (pre @ ?h) @ ?p @ rest" and br2: "?br = (pre @ ?h @ ?p) @ rest"
    by (simp_all only: br append_assoc)
  have l1: "length pre + 5 = length (pre @ ?h)" and l2: "length pre + 5 + length ?p = length (pre @ ?h @ ?p)"
    by simp_all
  have p1: "Peek tlsInspectMax ?br (length pre + 5) = Some (pre @ ?h)"
    unfolding br1 by (rule Peek_prefix [OF _ l1]) (use assms(4) l1 in linarith)
  have p2: "Peek tlsInspectMax ?br (length pre + 5 + length ?p) = Some (pre @ ?h @ ?p)"
    unfolding br2 by (rule Peek_prefix [OF _ l2]) (use assms(4) l2 in linarith)
  have d1: "drop (length pre) (pre @ ?h) = ?h" by simp
  have d2: "drop (length pre + 5) (pre @ ?h @ ?p) = ?p" by simp
  have b: "byte_val (?h ! 0) = 0x16" "byte_val (?h ! 1) = 0x03" "byte_val (?h ! 2) = fst r"
    "byte_val (?h ! 3) * 256 + byte_val (?h ! 4) = length ?p"
    using assms(1) lp(1) by (simp_all add: AppendUint16_def byte_val_def)
  have c: "(if want > 0 \<and> length hello + length ?p > want then int want - int (length hello) else int (length ?p)) = int (length ?p)"
    using assms(5) by auto
  have g: "\<not> (0x16 \<noteq> (0x16::nat) \<or> 0x03 \<noteq> (0x03::nat) \<or> fst r > 0x04)"
    "\<not> (length ?p = 0 \<or> length ?p > tlsRecordMax \<or> length pre + 5 + length ?p > tlsInspectMax)"
    "\<not> (int (length ?p) < 0 \<or> int (length hello) + int (length ?p) > int tlsClientHelloMax)"
    using assms lp(2) by auto
  have t: "take (nat (int (length ?p))) ?p = ?p" by simp
  show ?thesis
    unfolding peek_record_def p1 option.case Let_def d1 b if_not_P [OF g(1)] if_not_P [OF g(2)] p2 d2 c if_not_P [OF g(3)] t ..
qed

definition hello_frame :: "string \<Rightarrow> bool" where
  "hello_frame m \<longleftrightarrow> 4 \<le> length m \<and> length m \<le> tlsClientHelloMax \<and> byte_val (m ! 0) = 1 \<and>
     4 + byte_val (m ! 1) * 65536 + byte_val (m ! 2) * 256 + byte_val (m ! 3) = length m"

lemma length_enc_record [simp]: "length (enc_record r) = 5 + length (snd r)"
  by (simp add: enc_record_def)

lemma peek_loop_records:
  assumes "hello_frame m" and "m = done @ concat (map snd rs)" and "rs \<noteq> []"
    and "\<forall>r \<in> set rs. fst r \<le> 4 \<and> snd r \<noteq> []" and "length rs \<le> n"
    and "length pre = length done + 5 * k" and "k + length rs \<le> tlsClientHelloMaxRecords"
    and "want = (if length done < 4 then 0 else length m)"
  shows "peek_loop n tlsInspectMax (pre @ concat (map enc_record rs) @ rest) inspectALPN (done, want, length pre) =
    parseClientHello m inspectALPN"
  using assms
proof (induction rs arbitrary: n pre "done" k want)
  case (Cons r rs)
  then obtain n' where n: "n = Suc n'" by (cases n) auto
  let ?br = "pre @ concat (map enc_record (r # rs)) @ rest" and ?hello = "done @ snd r"
  have m: "m = ?hello @ concat (map snd rs)" using Cons.prems(2) by simp
  have len: "length ?hello \<le> length m" "length m \<le> tlsClientHelloMax" using m Cons.prems(1) by (auto simp: hello_frame_def)
  have r: "fst r \<le> 4" "snd r \<noteq> []" using Cons.prems(4) by simp_all
  have fit: "length pre + 5 + length (snd r) \<le> tlsInspectMax"
    using len Cons.prems(6,7) by (simp add: tlsInspectMax_def)
  define want' where "want' = (if length ?hello < 4 then 0 else length m)"
  have nth: "?hello ! i = m ! i" if "i < length ?hello" for i using that m nth_append_left by metis
  have R: "peek_record tlsInspectMax ?br inspectALPN done want (length pre) =
      (if want' > 0 \<and> length ?hello \<ge> want' then Inl (parseClientHello (take want' ?hello) inspectALPN)
       else Inr (?hello, want', length pre + 5 + length (snd r)))"
  proof -
    have w: "want = 0 \<or> length done + length (snd r) \<le> want" using len(1) Cons.prems(8) by auto
    have f: "(if want = 0 \<and> 4 \<le> length ?hello
        then 4 + byte_val (?hello ! 1) * 65536 + byte_val (?hello ! 2) * 256 + byte_val (?hello ! 3) else want) = want'"
      using Cons.prems(1,8) nth by (auto simp: want'_def hello_frame_def)
    have g: "\<not> (want = 0 \<and> 4 \<le> length ?hello \<and> byte_val (?hello ! 0) \<noteq> 1)"
      "\<not> ((want = 0 \<and> 4 \<le> length ?hello) \<and> (want' < 4 \<or> want' > tlsClientHelloMax))"
      using Cons.prems(1) nth [of 0] len r(2) by (auto simp: want'_def hello_frame_def)
    show ?thesis
      using peek_record_enc [OF r len(1)[simplified, THEN le_trans, OF len(2)] fit w, of "concat (map enc_record rs) @ rest" inspectALPN] g
      unfolding Let_def f by auto
  qed
  show ?case
  proof (cases "rs = []")
    case True
    then have "?hello = m" "want' = length m" "0 < length m" using m Cons.prems(1) by (auto simp: want'_def hello_frame_def)
    then show ?thesis using R by (simp add: n)
  next
    case False
    have "0 < length (concat (map snd rs))" using False Cons.prems(4) by (cases rs) auto
    then have lt: "length ?hello < length m" using m by (metis length_append less_add_same_cancel1)
    have pre: "length (pre @ enc_record r) = length ?hello + 5 * Suc k" using Cons.prems(6) by simp
    have "peek_loop n' tlsInspectMax ((pre @ enc_record r) @ concat (map enc_record rs) @ rest) inspectALPN
        (?hello, want', length (pre @ enc_record r)) = parseClientHello m inspectALPN"
      by (rule Cons.IH [OF Cons.prems(1) m False _ _ pre]) (use Cons.prems(4,5,7) n in \<open>auto simp: want'_def\<close>)
    moreover have "\<not> (want' > 0 \<and> length ?hello \<ge> want')" using lt by (auto simp: want'_def)
    ultimately show ?thesis using R by (auto simp: n add.assoc)
  qed
qed simp

lemma hello_frame_enc: "hello_ok h \<Longrightarrow> hello_frame (enc_hello h)"
proof -
  assume "hello_ok h"
  then have l: "length (enc_hello h) \<le> tlsClientHelloMax" by (simp add: hello_ok_def)
  then have "length (hello_body h) < 16777216" by (simp add: enc_hello_def tlsClientHelloMax_def)
  then have "length (hello_body h) div 65536 mod 256 = length (hello_body h) div 65536"
    by (simp add: less_mult_imp_div_less)
  with nat_bytes3 [OF \<open>length (hello_body h) < 16777216\<close>]
  have "4 + byte_val (enc_hello h ! 1) * 65536 + byte_val (enc_hello h ! 2) * 256 + byte_val (enc_hello h ! 3) = length (enc_hello h)"
    by (simp add: enc_hello_def enc24_def byte_val_def)
  with l show ?thesis by (simp add: hello_frame_def enc_hello_def byte_val_def)
qed

lemma peekClientHello_of_records:
  assumes "hello_ok h" and "concat (map snd rs) = enc_hello h" and "length rs \<le> tlsClientHelloMaxRecords"
    and "\<forall>r \<in> set rs. fst r \<le> 4 \<and> snd r \<noteq> []"
  shows "peekClientHello tlsInspectMax (concat (map enc_record rs) @ rest) inspectALPN = hello_info inspectALPN (h_exts h)"
proof -
  have f: "hello_frame (enc_hello h)" using hello_frame_enc [OF assms(1)] .
  then have "rs \<noteq> []" using assms(2) by (auto simp: hello_frame_def)
  from peek_loop_records [OF f _ this assms(4), of "[]" tlsClientHelloMaxRecords "[]" 0 0 rest inspectALPN] assms(2,3)
  have "peekClientHello tlsInspectMax (concat (map enc_record rs) @ rest) inspectALPN = parseClientHello (enc_hello h) inspectALPN"
    by (simp add: peekClientHello_def)
  then show ?thesis using parseClientHello_enc [OF assms(1)] by simp
qed

text \<open>C24: The router sees the server name and the protocols a TLS client really sent, however the
  client cuts its first message into records. For every ClientHello of at most 16384 bytes with
  any list of extensions, cut anywhere into at most 64 non-empty records, and whatever follows,
  peeking returns exactly the declarative reading of the extensions: the one host name and, when
  protocols are inspected, the one list of offers, and nothing at all when an extension is
  repeated or not well formed. The limits of the inspector are exactly enough for that.\<close>

theorem peekClientHello_reads:
  assumes "hello_ok h" and "concat (map snd rs) = enc_hello h" and "length rs \<le> tlsClientHelloMaxRecords"
    and "\<forall>r \<in> set rs. fst r \<le> 4 \<and> snd r \<noteq> []"
  shows "peekClientHello tlsInspectMax (concat (map enc_record rs) @ rest) inspectALPN = hello_info inspectALPN (h_exts h)"
  using peekClientHello_of_records [OF assms] .

definition sample_hello :: hello where
  "sample_hello = \<lparr>h_version = 0x0303, h_random = replicate 32 (CHR ''r''), h_session = [], h_ciphers = ''ab'',
     h_compression = ''n'', h_exts = [Other 43 ''tls'', SNI [(0, ''a.io'')], ALPN [''h2'', ''http/1.1'']]\<rparr>"

lemma sample_hello_length: "length (enc_hello sample_hello) = 85"
  by (simp add: enc_hello_def hello_body_def sample_hello_def enc_ext_def enc_name_def)

lemma sample_hello_ok: "hello_ok sample_hello"
  using sample_hello_length unfolding hello_ok_def by (simp add: sample_hello_def tlsClientHelloMax_def)

theorem peekClientHello_reads_witness:
  "peekClientHello tlsInspectMax
     (concat (map enc_record [(1, take 3 (enc_hello sample_hello)), (3, drop 3 (enc_hello sample_hello))]) @ ''rest'') True =
   \<lparr>serverName = ''a.io'', protocols = [''h2'', ''http/1.1'']\<rparr>"
proof -
  let ?rs = "[(1, take 3 (enc_hello sample_hello)), (3, drop 3 (enc_hello sample_hello))] :: (nat \<times> string) list"
  have e: "h_exts sample_hello = [Other 43 ''tls'', SNI [(0, ''a.io'')], ALPN [''h2'', ''http/1.1'']]"
    by (simp add: sample_hello_def)
  have "take 3 (enc_hello sample_hello) \<noteq> []" "drop 3 (enc_hello sample_hello) \<noteq> []" using sample_hello_length by auto
  then have "peekClientHello tlsInspectMax (concat (map enc_record ?rs) @ ''rest'') True = hello_info True (h_exts sample_hello)"
    by (intro peekClientHello_reads [OF sample_hello_ok]) (simp_all add: tlsClientHelloMaxRecords_def)
  also have "\<dots> = \<lparr>serverName = ''a.io'', protocols = [''h2'', ''http/1.1'']\<rparr>"
    unfolding e by (simp add: hello_info_def host_of_def host_ok_def byte_val_def alpn_of_def tlsALPNMaxProtocols_def)
  finally show ?thesis .
qed

subsection \<open>The form of every result\<close>

definition protocols_ok :: "string list \<Rightarrow> bool" where
  "protocols_ok ps \<longleftrightarrow> length ps \<le> tlsALPNMaxProtocols \<and> (\<forall>p \<in> set ps. p \<noteq> [] \<and> length p \<le> tlsALPNMaxProtocolLen)"

definition name_ok :: "string \<Rightarrow> bool" where
  "name_ok n \<longleftrightarrow> n = [] \<or> host_ok n"

definition info_ok :: "clientHelloInfo \<Rightarrow> bool" where
  "info_ok i \<longleftrightarrow> name_ok (serverName i) \<and> protocols_ok (protocols i)"

lemma no_hello_ok [simp]: "info_ok no_hello"
  by (simp add: info_ok_def no_hello_def name_ok_def protocols_ok_def)

lemma info_ok_mk: "info_ok \<lparr>serverName = n, protocols = ps\<rparr> \<longleftrightarrow> name_ok n \<and> protocols_ok ps"
  by (simp add: info_ok_def)

lemma ok_Nil [simp]: "name_ok []" "protocols_ok []"
  by (simp_all add: name_ok_def protocols_ok_def)

lemma c_take_length: "c_take n c = (s, c') \<Longrightarrow> \<not> c_err c' \<Longrightarrow> length s = n"
  by (auto simp: c_take_def split: if_splits)

lemma protocols_ok_snoc:
  "protocols_ok ps \<Longrightarrow> length ps \<noteq> tlsALPNMaxProtocols \<Longrightarrow> p \<noteq> [] \<Longrightarrow> \<not> tlsALPNMaxProtocolLen < length p \<Longrightarrow>
    protocols_ok (ps @ [p])"
  by (auto simp: protocols_ok_def)

lemma alpn_loop_ok: "protocols_ok ps \<Longrightarrow> protocols_ok (alpn_loop c ps)"
proof (induction c ps rule: alpn_loop.induct)
  case (1 c ps)
  obtain n c1 where u: "u8 c = (n, c1)" by fastforce
  obtain p c2 where t: "c_take n c1 = (p, c2)" by fastforce
  show ?case
    using "1.IH" [OF _ u [symmetric] refl _ t [symmetric] refl] "1.prems" c_take_length [OF t]
    by (subst alpn_loop.simps) (auto simp: u t intro: protocols_ok_snoc)
qed

lemma sni_loop_ok: "name_ok host \<Longrightarrow> name_ok (sni_loop c host)"
proof (induction c host rule: sni_loop.induct)
  case (1 c host)
  obtain n c1 where u: "u8 c = (n, c1)" by fastforce
  obtain l c2 where v: "u16 c1 = (l, c2)" by fastforce
  obtain s c3 where t: "c_take l c2 = (s, c3)" by fastforce
  show ?case
    using "1.IH" [OF _ u [symmetric] refl v [symmetric] refl t [symmetric] refl] "1.prems"
    by (subst sni_loop.simps) (auto simp: u v t name_ok_def host_ok_def not_less)
qed

lemma ext_loop_ok: "name_ok sni \<Longrightarrow> protocols_ok ps \<Longrightarrow> info_ok (ext_loop inspectALPN stop c sni a b ps)"
proof (induction inspectALPN stop c sni a b ps rule: ext_loop.induct)
  case (1 inspectALPN stop c sni a b ps)
  obtain x c1 where u: "u16 c = (x, c1)" by fastforce
  obtain l c2 where v: "u16 c1 = (l, c2)" by fastforce
  obtain s c3 where t: "c_take l c2 = (s, c3)" by fastforce
  have "name_ok (parseSNIExtension s)" "protocols_ok (parseALPNExtension s)"
    by (simp_all add: parseSNIExtension_def parseALPNExtension_def sni_loop_ok alpn_loop_ok split: prod.splits)
  then show ?case
    using "1.IH" [OF _ u [symmetric] refl v [symmetric] refl _ t [symmetric] refl refl refl refl refl] "1.prems"
    by (subst ext_loop.simps) (auto simp: u v t Let_def info_ok_mk)
qed

lemma parseClientHello_ok: "info_ok (parseClientHello b inspectALPN)"
  by (simp add: parseClientHello_def Let_def ext_loop_ok split: prod.splits)

lemma peek_loop_ok: "info_ok (peek_loop n bufsize br inspectALPN st)"
proof (induction n arbitrary: st)
  case (Suc n)
  have "info_ok i" if "peek_record bufsize br inspectALPN hello want offset = Inl i" for i hello want offset
    using that by (auto simp: peek_record_def Let_def parseClientHello_ok split: option.splits if_splits)
  with Suc show ?case by (auto split: sum.splits)
qed simp

text \<open>C25: Whatever bytes a client sends, and however long the buffer, what reaches the routing
  decision is typed: the server name is empty or 1 to 255 ASCII bytes without a NUL, and the
  offered protocols are at most 64 strings of 1 to 255 bytes each.\<close>

theorem peekClientHello_typed: "info_ok (peekClientHello bufsize br inspectALPN)"
  by (simp add: peekClientHello_def peek_loop_ok)

end
