(* ===== verification/Attribution.thy ===== *)
theory Attribution
  imports Pool
begin

text \<open>
  \<^verbatim>\<open>src/internal/upstream/attribution.go\<close>, \<^verbatim>\<open>reason.go\<close>, \<^verbatim>\<open>dialfailure.go\<close> and
  \<^verbatim>\<open>inbound_body.go\<close>: who owns the failure of an attempt, what an operator and a client are
  told about it, and what it does to the health of the backend.

  An error is what the code can ask of it: its chain of wrapped sentinels (system error numbers
  are sentinels), its text, and whether a client-body error, a certificate error or a network
  timeout is found in the chain by \<^verbatim>\<open>errors.As\<close>. A context is its error and its deadline;
  \<open>None\<close> is the nil context. The platform is one where a refused connection and the
  exhaustion of descriptors are the POSIX error numbers.
\<close>

record errinfo =
  e_chain :: errval
  e_text :: string
  e_body :: bool
  e_cert :: bool
  e_timeout :: bool

record ctx =
  c_Err :: "errval option"
  c_Deadline :: "nanos option"

definition err_Is :: "errinfo \<Rightarrow> errval \<Rightarrow> bool" where
  "err_Is e t \<longleftrightarrow> errors_Is (e_chain e) t"

definition opt_Is :: "errval option \<Rightarrow> errval \<Rightarrow> bool" where
  "opt_Is e t \<longleftrightarrow> (case e of None \<Rightarrow> False | Some x \<Rightarrow> errors_Is x t)"

subsection \<open>Reasons\<close>

type_synonym Reason = string

definition ReasonUpstreamUnavailable :: Reason where "ReasonUpstreamUnavailable = ''upstream_unavailable''"
definition ReasonCircuitOpen :: Reason where "ReasonCircuitOpen = ''circuit_open''"
definition ReasonProxyOverloaded :: Reason where "ReasonProxyOverloaded = ''proxy_overloaded''"
definition ReasonBackendAtCapacity :: Reason where "ReasonBackendAtCapacity = ''backend_at_capacity''"
definition ReasonUpstreamConnectFailed :: Reason where "ReasonUpstreamConnectFailed = ''upstream_connect_failed''"
definition ReasonUpstreamTimeout :: Reason where "ReasonUpstreamTimeout = ''upstream_timeout''"
definition ReasonUpstreamTLSIdentity :: Reason where "ReasonUpstreamTLSIdentity = ''upstream_tls_identity''"
definition ReasonRetryBudgetExhausted :: Reason where "ReasonRetryBudgetExhausted = ''retry_budget_exhausted''"
definition ReasonRetryDeadlineExhausted :: Reason where "ReasonRetryDeadlineExhausted = ''retry_deadline_exhausted''"
definition ReasonRequestNotReplayable :: Reason where "ReasonRequestNotReplayable = ''request_not_replayable''"
definition ReasonClientCancelled :: Reason where "ReasonClientCancelled = ''client_cancelled''"
definition ReasonClientDeadline :: Reason where "ReasonClientDeadline = ''client_deadline''"
definition ReasonClientRequestBody :: Reason where "ReasonClientRequestBody = ''client_request_body''"

lemmas reason_defs =
  ReasonUpstreamUnavailable_def ReasonCircuitOpen_def ReasonProxyOverloaded_def ReasonBackendAtCapacity_def
  ReasonUpstreamConnectFailed_def ReasonUpstreamTimeout_def ReasonUpstreamTLSIdentity_def
  ReasonRetryBudgetExhausted_def ReasonRetryDeadlineExhausted_def ReasonRequestNotReplayable_def
  ReasonClientCancelled_def ReasonClientDeadline_def ReasonClientRequestBody_def

definition StatusClientClosedRequest :: int where "StatusClientClosedRequest = 499"
definition StatusFromLastAttempt :: int where "StatusFromLastAttempt = 0"
definition GRPCCodeCancelled :: nat where "GRPCCodeCancelled = 1"
definition GRPCCodeInvalidArgument :: nat where "GRPCCodeInvalidArgument = 3"
definition GRPCCodeDeadlineExceeded :: nat where "GRPCCodeDeadlineExceeded = 4"
definition GRPCCodeUnavailable :: nat where "GRPCCodeUnavailable = 14"
definition grpcCodeFromLastAttempt :: nat where "grpcCodeFromLastAttempt = 0"

definition reasonTable :: "(Reason \<times> int \<times> nat) list" where
  "reasonTable =
     [(ReasonUpstreamUnavailable, 503, GRPCCodeUnavailable),
      (ReasonCircuitOpen, 503, GRPCCodeUnavailable),
      (ReasonProxyOverloaded, 503, GRPCCodeUnavailable),
      (ReasonBackendAtCapacity, 503, GRPCCodeUnavailable),
      (ReasonUpstreamConnectFailed, 502, GRPCCodeUnavailable),
      (ReasonUpstreamTimeout, 504, GRPCCodeDeadlineExceeded),
      (ReasonUpstreamTLSIdentity, 502, GRPCCodeUnavailable),
      (ReasonRetryBudgetExhausted, StatusFromLastAttempt, grpcCodeFromLastAttempt),
      (ReasonRetryDeadlineExhausted, 504, GRPCCodeDeadlineExceeded),
      (ReasonRequestNotReplayable, StatusFromLastAttempt, grpcCodeFromLastAttempt),
      (ReasonClientCancelled, StatusClientClosedRequest, GRPCCodeCancelled),
      (ReasonClientDeadline, 504, GRPCCodeDeadlineExceeded),
      (ReasonClientRequestBody, 400, GRPCCodeInvalidArgument)]"

definition Reasons :: "Reason list" where
  "Reasons = map fst reasonTable"

definition reason_Valid :: "Reason \<Rightarrow> bool" where
  "reason_Valid r \<longleftrightarrow> list_ex (\<lambda>e. fst e = r) reasonTable"

definition HTTPStatus :: "Reason \<Rightarrow> int" where
  "HTTPStatus r = (case find (\<lambda>e. fst e = r) reasonTable of Some e \<Rightarrow> fst (snd e) | None \<Rightarrow> 502)"

definition GRPCCode :: "Reason \<Rightarrow> nat" where
  "GRPCCode r = (case find (\<lambda>e. fst e = r) reasonTable of Some e \<Rightarrow> snd (snd e) | None \<Rightarrow> GRPCCodeUnavailable)"

definition reason_RetryAfter :: "Reason \<Rightarrow> bool" where
  "reason_RetryAfter r \<longleftrightarrow> r = ReasonProxyOverloaded"

subsection \<open>Classification of errors\<close>

definition errOverloaded :: errval where
  "errOverloaded = Sentinel ''upstream admission: proxy overloaded''"

definition errRetired :: errval where
  "errRetired = Sentinel ''upstream admission: handler generation retired''"

definition errNoAvailableBackend :: errval where
  "errNoAvailableBackend = Sentinel ''no available upstream backend''"

definition errBackendAtCapacity :: errval where
  "errBackendAtCapacity = Sentinel ''all upstream backends are at capacity''"

definition PeerIdentityErrorFragment :: string where
  "PeerIdentityErrorFragment = ''matches none of the''"

definition tlsIdentityFailure :: "errinfo \<Rightarrow> bool" where
  "tlsIdentityFailure e \<longleftrightarrow> e_cert e \<or> Contains (e_text e) PeerIdentityErrorFragment"

definition localResourceExhausted :: "errinfo \<Rightarrow> bool" where
  "localResourceExhausted e \<longleftrightarrow> err_Is e (Sentinel ''EMFILE'') \<or> err_Is e (Sentinel ''ENFILE'')"

definition ReasonFor :: "errinfo option \<Rightarrow> ctx option \<Rightarrow> Reason" where
  "ReasonFor err inbound =
     (case err of
        None \<Rightarrow> []
      | Some e \<Rightarrow>
          if err_Is e errOverloaded \<or> err_Is e errRetired then ReasonProxyOverloaded
          else if err_Is e errBackendAtCapacity then ReasonBackendAtCapacity
          else if err_Is e errNoAvailableBackend then ReasonUpstreamUnavailable
          else if (case inbound of None \<Rightarrow> False | Some c \<Rightarrow> opt_Is (c_Err c) context_Canceled) then ReasonClientCancelled
          else if (case inbound of None \<Rightarrow> False | Some c \<Rightarrow> opt_Is (c_Err c) context_DeadlineExceeded) then ReasonClientDeadline
          else if e_body e then ReasonClientRequestBody
          else if tlsIdentityFailure e then ReasonUpstreamTLSIdentity
          else if err_Is e context_Canceled then ReasonRetryDeadlineExhausted
          else if err_Is e context_DeadlineExceeded then ReasonUpstreamTimeout
          else if e_timeout e then ReasonUpstreamTimeout
          else ReasonUpstreamConnectFailed)"

definition canceled_err :: errinfo where
  "canceled_err = \<lparr>e_chain = context_Canceled, e_text = ''context canceled'', e_body = False, e_cert = False, e_timeout = False\<rparr>"

definition ReasonForStop :: "StopReason \<Rightarrow> errinfo option \<Rightarrow> ctx option \<Rightarrow> Reason" where
  "ReasonForStop stop err inbound =
     (case stop of
        StopBudget \<Rightarrow> ReasonRetryBudgetExhausted
      | StopNotRetryable \<Rightarrow> ReasonRequestNotReplayable
      | StopResponseStarted \<Rightarrow> ReasonRequestNotReplayable
      | StopDeadline \<Rightarrow> ReasonRetryDeadlineExhausted
      | StopCancelled \<Rightarrow> ReasonFor (Some canceled_err) inbound
      | StopNoBackend \<Rightarrow> (let r = ReasonFor err inbound in if r \<noteq> [] then r else ReasonUpstreamUnavailable)
      | _ \<Rightarrow> ReasonFor err inbound)"

definition ClassifyDialError :: "errinfo \<Rightarrow> string" where
  "ClassifyDialError e =
     (if err_Is e errNoAvailableBackend then ''no_backend''
      else if err_Is e context_DeadlineExceeded then ''timeout''
      else if e_timeout e then ''timeout''
      else if err_Is e (Sentinel ''ECONNREFUSED'') then ''refused''
      else if Contains (e_text e) ''refused'' then ''refused''
      else ''other'')"

definition ClassifyAdmissionError :: "errinfo \<Rightarrow> string" where
  "ClassifyAdmissionError e =
     (if err_Is e errOverloaded then ''overloaded''
      else if err_Is e errRetired \<or> err_Is e context_Canceled then ''shutdown''
      else ClassifyDialError e)"

subsection \<open>Attribution\<close>

datatype FailureOrigin =
    OriginSuccess
  | OriginClientCancellation
  | OriginClientDeadline
  | OriginClientRequest
  | OriginJulTimeout
  | OriginJulPolicy
  | OriginBackendTransport
  | OriginBackendIdentity
  | OriginBackendProtocol
  | OriginBackendApplication

datatype HealthConsequence = HealthNeutral | HealthFailure | HealthSuccess

record AttemptClassification =
  ac_origin :: FailureOrigin
  ac_reason :: Reason
  ac_health :: HealthConsequence

definition SuccessfulAttempt :: AttemptClassification where
  "SuccessfulAttempt = \<lparr>ac_origin = OriginSuccess, ac_reason = [], ac_health = HealthSuccess\<rparr>"

definition BackendApplicationResult :: AttemptClassification where
  "BackendApplicationResult = \<lparr>ac_origin = OriginBackendApplication, ac_reason = [], ac_health = HealthSuccess\<rparr>"

definition ClientCancellationResult :: AttemptClassification where
  "ClientCancellationResult =
     \<lparr>ac_origin = OriginClientCancellation, ac_reason = ReasonClientCancelled, ac_health = HealthNeutral\<rparr>"

definition JulPolicyFailure :: "Reason \<Rightarrow> AttemptClassification" where
  "JulPolicyFailure r = \<lparr>ac_origin = OriginJulPolicy, ac_reason = r, ac_health = HealthNeutral\<rparr>"

definition BackendProtocolFailure :: "Reason \<Rightarrow> AttemptClassification" where
  "BackendProtocolFailure r =
     \<lparr>ac_origin = OriginBackendProtocol,
      ac_reason = (if reason_Valid r then r else ReasonUpstreamConnectFailed), ac_health = HealthFailure\<rparr>"

definition deadlineReached :: "ctx option \<Rightarrow> nanos \<Rightarrow> bool" where
  "deadlineReached c now \<longleftrightarrow>
     (case c of None \<Rightarrow> False | Some x \<Rightarrow> (case c_Deadline x of None \<Rightarrow> False | Some d \<Rightarrow> \<not> now < d))"

definition ClassifyAttemptError ::
  "nanos \<Rightarrow> errinfo option \<Rightarrow> ctx option \<Rightarrow> ctx option \<Rightarrow> AttemptClassification" where
  "ClassifyAttemptError now err inbound attempt =
     (case err of
        None \<Rightarrow> SuccessfulAttempt
      | Some e \<Rightarrow>
          if (case inbound of None \<Rightarrow> False | Some c \<Rightarrow> opt_Is (c_Err c) context_Canceled)
          then \<lparr>ac_origin = OriginClientCancellation, ac_reason = ReasonClientCancelled, ac_health = HealthNeutral\<rparr>
          else if (case inbound of None \<Rightarrow> False | Some c \<Rightarrow> opt_Is (c_Err c) context_DeadlineExceeded)
          then \<lparr>ac_origin = OriginClientDeadline, ac_reason = ReasonClientDeadline, ac_health = HealthNeutral\<rparr>
          else if err_Is e context_DeadlineExceeded \<and> deadlineReached inbound now
          then \<lparr>ac_origin = OriginClientDeadline, ac_reason = ReasonClientDeadline, ac_health = HealthNeutral\<rparr>
          else if err_Is e context_DeadlineExceeded \<and> deadlineReached attempt now
          then \<lparr>ac_origin = OriginJulTimeout, ac_reason = ReasonRetryDeadlineExhausted, ac_health = HealthNeutral\<rparr>
          else if (case attempt of None \<Rightarrow> False | Some c \<Rightarrow> c_Err c \<noteq> None)
          then \<lparr>ac_origin = OriginJulTimeout, ac_reason = ReasonRetryDeadlineExhausted, ac_health = HealthNeutral\<rparr>
          else if e_body e
          then \<lparr>ac_origin = OriginClientRequest, ac_reason = ReasonClientRequestBody, ac_health = HealthNeutral\<rparr>
          else if tlsIdentityFailure e
          then \<lparr>ac_origin = OriginBackendIdentity, ac_reason = ReasonUpstreamTLSIdentity, ac_health = HealthNeutral\<rparr>
          else if localResourceExhausted e then JulPolicyFailure ReasonProxyOverloaded
          else \<lparr>ac_origin = OriginBackendTransport,
                ac_reason = (if err_Is e context_DeadlineExceeded then ReasonUpstreamTimeout
                             else if e_timeout e then ReasonUpstreamTimeout else ReasonUpstreamConnectFailed),
                ac_health = HealthFailure\<rparr>)"

definition ClassifyProtocolError ::
  "nanos \<Rightarrow> errinfo option \<Rightarrow> ctx option \<Rightarrow> ctx option \<Rightarrow> AttemptClassification" where
  "ClassifyProtocolError now err inbound attempt =
     (let c = ClassifyAttemptError now err inbound attempt in
      if ac_origin c = OriginBackendTransport then c\<lparr>ac_origin := OriginBackendProtocol\<rparr> else c)"

definition RecordAttempt :: "nanos \<Rightarrow> Attempt \<Rightarrow> AttemptClassification \<Rightarrow> World \<Rightarrow> bool \<times> World" where
  "RecordAttempt now att c w =
     (case ac_health c of
        HealthFailure \<Rightarrow> MarkFailure now att w
      | HealthSuccess \<Rightarrow> MarkSuccess att w
      | HealthNeutral \<Rightarrow> (False, pool_ReleaseProbe att w))"

subsection \<open>The watched request body\<close>

text \<open>The watcher keeps the first read error that is not the end of the body.\<close>

definition io_EOF :: errval where
  "io_EOF = Sentinel ''EOF''"

definition body_Read :: "errinfo option \<Rightarrow> errinfo option \<Rightarrow> errinfo option" where
  "body_Read kept err =
     (case err of
        None \<Rightarrow> kept
      | Some e \<Rightarrow> if err_Is e io_EOF then kept else if kept = None then Some e else kept)"

definition ClientBodyError :: "errinfo \<Rightarrow> errinfo" where
  "ClientBodyError e = e\<lparr>e_chain := Wrapped ''read inbound request body'' (e_chain e),
     e_text := ''read inbound request body: '' @ e_text e, e_body := True\<rparr>"

definition body_Attribute :: "errinfo option option \<Rightarrow> errinfo option \<Rightarrow> errinfo option" where
  "body_Attribute b err =
     (case b of
        None \<Rightarrow> err
      | Some kept \<Rightarrow>
          if err = None then None
          else case kept of None \<Rightarrow> err | Some x \<Rightarrow> Some (ClientBodyError x))"

subsection \<open>Who is blamed\<close>

lemma reason_Valid_all:
  "reason_Valid r \<longleftrightarrow> r \<in> set Reasons"
  by (auto simp: reason_Valid_def Reasons_def list_ex_iff)

lemma Reasons_distinct: "distinct Reasons"
  by (simp add: Reasons_def reasonTable_def reason_defs)

lemma ReasonFor_valid: "reason_Valid (ReasonFor (Some e) inbound)"
  by (simp add: ReasonFor_def reason_Valid_all Reasons_def reasonTable_def)

lemma ReasonForStop_valid: "reason_Valid (ReasonForStop stop (Some e) inbound)"
proof -
  have "reason_Valid ReasonRetryBudgetExhausted" "reason_Valid ReasonRequestNotReplayable"
    "reason_Valid ReasonRetryDeadlineExhausted" "reason_Valid ReasonUpstreamUnavailable"
    by (simp_all add: reason_Valid_all Reasons_def reasonTable_def)
  with ReasonFor_valid show ?thesis by (cases stop) (auto simp: ReasonForStop_def Let_def)
qed

text \<open>What an operator sees and what a client sees come from one row: a status the gateway makes
  up always has a gRPC code, and both come from the last attempt together or not at all.\<close>

lemma status_code_together:
  assumes "reason_Valid r"
  shows "HTTPStatus r = StatusFromLastAttempt \<longleftrightarrow> GRPCCode r = grpcCodeFromLastAttempt"
    and "HTTPStatus r = 504 \<longleftrightarrow> GRPCCode r = GRPCCodeDeadlineExceeded"
  using assms
  by (auto simp: reason_Valid_all Reasons_def reasonTable_def HTTPStatus_def GRPCCode_def reason_defs
      StatusFromLastAttempt_def StatusClientClosedRequest_def grpcCodeFromLastAttempt_def GRPCCodeUnavailable_def
      GRPCCodeDeadlineExceeded_def GRPCCodeCancelled_def GRPCCodeInvalidArgument_def)

text \<open>The excuses of a backend: the client went away or ran out of time, a deadline of the client or
  of the gateway passed, the gateway gave the attempt up, the client's body could not be read,
  the certificate is not trusted on this route, or the gateway has no descriptors left.\<close>

definition ended_by :: "ctx option \<Rightarrow> errval \<Rightarrow> bool" where
  "ended_by c t \<longleftrightarrow> (\<exists>x. c = Some x \<and> opt_Is (c_Err x) t)"

definition excused :: "nanos \<Rightarrow> errinfo \<Rightarrow> ctx option \<Rightarrow> ctx option \<Rightarrow> bool" where
  "excused now e inbound attempt \<longleftrightarrow>
     ended_by inbound context_Canceled \<or> ended_by inbound context_DeadlineExceeded \<or>
     err_Is e context_DeadlineExceeded \<and> (deadlineReached inbound now \<or> deadlineReached attempt now) \<or>
     (\<exists>x. attempt = Some x \<and> c_Err x \<noteq> None) \<or>
     e_body e \<or> tlsIdentityFailure e \<or> localResourceExhausted e"

definition health_kept :: "Backend \<Rightarrow> Backend \<Rightarrow> bool" where
  "health_kept b b' \<longleftrightarrow>
     b' = b\<lparr>b_circuit := (b_circuit b)\<lparr>probesInFlight := probesInFlight (b_circuit b')\<rparr>\<rparr> \<and>
     probesInFlight (b_circuit b') \<le> probesInFlight (b_circuit b)"

lemma health_kept_refl [simp]: "health_kept b b"
  by (simp add: health_kept_def)

lemma releaseProbe_kept: "health_kept b (b\<lparr>b_circuit := releaseProbe a (b_circuit b)\<rparr>)"
  by (simp add: health_kept_def releaseProbe_def releaseProbeLocked_def)

lemma classify_health:
  "ac_health (ClassifyAttemptError now (Some e) inbound attempt) =
    (if excused now e inbound attempt then HealthNeutral else HealthFailure)"
  unfolding ClassifyAttemptError_def excused_def ended_by_def option.case
  by (cases inbound; cases attempt) (simp_all add: JulPolicyFailure_def deadlineReached_def)

lemma classify_reason: "reason_Valid (ac_reason (ClassifyAttemptError now (Some e) inbound attempt))"
  unfolding ClassifyAttemptError_def option.case
  by (simp add: JulPolicyFailure_def reason_Valid_all Reasons_def reasonTable_def)

lemma RecordAttempt_neutral:
  assumes "ac_health c = HealthNeutral"
  shows "\<not> fst (RecordAttempt now att c w) \<and> pool (snd (RecordAttempt now att c w)) = pool w \<and>
    (\<forall>b. health_kept (cells w b) (cells (snd (RecordAttempt now att c w)) b))"
  using assms
  by (simp add: RecordAttempt_def pool_ReleaseProbe_def upd_cell_def releaseProbe_kept split: option.split)

text \<open>Only a backend's own failures count against it. A failed attempt is charged to the backend
  exactly when no excuse holds: the client did not cancel or time out, no deadline of the client
  or of the gateway had passed, the gateway did not give up, the request body could be read, the
  certificate question is not one of this route's trust, and the gateway was not out of
  descriptors. It is never counted as a success, and its reason is one of the closed set. When an
  excuse holds, recording the attempt changes nothing about any backend except that a probe slot
  is handed back; in particular a client that breaks its own upload cannot open a circuit.\<close>

lemma attempt_blame:
  "ac_health (ClassifyAttemptError now (Some e) inbound attempt) \<noteq> HealthSuccess \<and>
   (ac_health (ClassifyAttemptError now (Some e) inbound attempt) = HealthFailure \<longleftrightarrow> \<not> excused now e inbound attempt) \<and>
   reason_Valid (ac_reason (ClassifyAttemptError now (Some e) inbound attempt)) \<and>
   (excused now e inbound attempt \<longrightarrow>
      (let (changed, w') = RecordAttempt t att (ClassifyAttemptError now (Some e) inbound attempt) w in
       \<not> changed \<and> pool w' = pool w \<and> (\<forall>b. health_kept (cells w b) (cells w' b)))) \<and>
   (body_Attribute (Some (Some x)) (Some y) = Some e \<longrightarrow> excused now e inbound attempt)"
proof -
  have "excused now e inbound attempt" if "body_Attribute (Some (Some x)) (Some y) = Some e"
    using that by (auto simp: body_Attribute_def ClientBodyError_def excused_def)
  moreover have "excused now e inbound attempt \<Longrightarrow> ac_health (ClassifyAttemptError now (Some e) inbound attempt) = HealthNeutral"
    by (simp add: classify_health)
  ultimately show ?thesis
    using classify_health [of now e inbound attempt] classify_reason [of now e inbound attempt]
      RecordAttempt_neutral [of "ClassifyAttemptError now (Some e) inbound attempt" t att w]
    by (simp add: Let_def case_prod_unfold)
qed

definition refused_err :: errinfo where
  "refused_err = \<lparr>e_chain = Sentinel ''ECONNREFUSED'', e_text = ''connection refused'', e_body = False, e_cert = False, e_timeout = False\<rparr>"

lemma attempt_blame_example:
  "ac_health (ClassifyAttemptError 0 (Some refused_err) None None) = HealthFailure \<and>
   ac_health (ClassifyAttemptError 0 (Some (ClientBodyError refused_err)) None None) = HealthNeutral"
proof -
  have "\<not> excused 0 refused_err None None"
    by (simp add: excused_def refused_err_def ended_by_def deadlineReached_def tlsIdentityFailure_def
        localResourceExhausted_def err_Is_def PeerIdentityErrorFragment_def HasPrefix_def)
  moreover have "body_Attribute (Some (Some refused_err)) (Some refused_err) = Some (ClientBodyError refused_err)"
    by (simp add: body_Attribute_def)
  ultimately show ?thesis
    using attempt_blame [of 0 refused_err None None 0 no_attempt undefined refused_err refused_err]
      attempt_blame [of 0 "ClientBodyError refused_err" None None 0 no_attempt undefined refused_err refused_err]
    by (cases "ac_health (ClassifyAttemptError 0 (Some (ClientBodyError refused_err)) None None)") auto
qed

end
