(* ===== verification/Stream.thy ===== *)
theory Stream
  imports Sni_Props Clientaddr Attribution Pool_Do "HOL-Library.AList"
begin

text \<open>
  The TCP side of the stream proxy, \<^verbatim>\<open>src/internal/stream\<close>: rules over offered protocols and
  server names (\<^verbatim>\<open>alpn.go\<close>, \<^verbatim>\<open>src/internal/config/validate_alpn.go\<close>), the route of a
  listener (\<^verbatim>\<open>server.go\<close>), the decision taken for a connection (\<^verbatim>\<open>tcp.go\<close>), and the
  dialling of a backend (\<^verbatim>\<open>server.go\<close>).

  A pool is a value of type \<open>'p\<close>; a map from names to pools is the association list of its
  entries. The bytes a client sends are a list, as in \<^verbatim>\<open>Proxyproto\<close> and \<^verbatim>\<open>Sni\<close>; the text
  form of a socket address is the argument \<open>show_addr\<close>. Deadlines, logs and counters of
  connections are left out.
\<close>

subsection \<open>Rules\<close>

record StreamALPNRoute =
  sr_ServerName :: string
  sr_Protocols :: "string list"
  sr_ProxyPass :: string

definition StreamALPNMaxRules :: nat where
  "StreamALPNMaxRules = 256"

datatype alpn_error =
  TooManyRules
| BadServerName nat
| BadProtocolCount nat
| BadProtocol nat nat
| DuplicateProtocol nat nat
| NoTarget nat

definition utf8_tail :: "nat \<Rightarrow> nat \<Rightarrow> nat list \<Rightarrow> bool" where
  "utf8_tail lo hi bs \<longleftrightarrow>
     (case bs of [] \<Rightarrow> False | b # r \<Rightarrow> lo \<le> b \<and> b \<le> hi \<and> list_all (\<lambda>x. 0x80 \<le> x \<and> x \<le> 0xBF) r)"

text \<open>\<^verbatim>\<open>utf8.ValidString\<close>: no surrogates, nothing above U+10FFFF, no overlong forms.\<close>

fun ValidString :: "nat list \<Rightarrow> bool" where
  "ValidString [] = True"
| "ValidString (a # s) =
     (if a < 0x80 then ValidString s
      else if 0xC2 \<le> a \<and> a \<le> 0xDF then length s \<ge> 1 \<and> utf8_tail 0x80 0xBF (take 1 s) \<and> ValidString (drop 1 s)
      else if a = 0xE0 then length s \<ge> 2 \<and> utf8_tail 0xA0 0xBF (take 2 s) \<and> ValidString (drop 2 s)
      else if a = 0xED then length s \<ge> 2 \<and> utf8_tail 0x80 0x9F (take 2 s) \<and> ValidString (drop 2 s)
      else if 0xE1 \<le> a \<and> a \<le> 0xEF then length s \<ge> 2 \<and> utf8_tail 0x80 0xBF (take 2 s) \<and> ValidString (drop 2 s)
      else if a = 0xF0 then length s \<ge> 3 \<and> utf8_tail 0x90 0xBF (take 3 s) \<and> ValidString (drop 3 s)
      else if 0xF1 \<le> a \<and> a \<le> 0xF3 then length s \<ge> 3 \<and> utf8_tail 0x80 0xBF (take 3 s) \<and> ValidString (drop 3 s)
      else if a = 0xF4 then length s \<ge> 3 \<and> utf8_tail 0x80 0x8F (take 3 s) \<and> ValidString (drop 3 s)
      else False)"

fun protocol_errors :: "nat \<Rightarrow> nat \<Rightarrow> string set \<Rightarrow> string list \<Rightarrow> alpn_error list" where
  "protocol_errors i j known [] = []"
| "protocol_errors i j known (p # ps) =
     (if p = [] \<or> length p > tlsALPNMaxProtocolLen \<or> \<not> ValidString (map byte_val p) then [BadProtocol i j] else []) @
     (if p \<in> known then [DuplicateProtocol i j] else []) @
     protocol_errors i (j + 1) (insert p known) ps"

definition invalid_host :: "string \<Rightarrow> bool" where
  "invalid_host host \<longleftrightarrow>
     host = [] \<or> length host > 255 \<or> host \<noteq> TrimSpace host \<or>
     host \<noteq> ''*'' \<and> (\<exists>ch \<in> set host. byte_val ch \<le> 32 \<or> byte_val ch \<ge> 127 \<or> ch = CHR ''*'')"

fun rule_errors :: "nat \<Rightarrow> StreamALPNRoute list \<Rightarrow> alpn_error list" where
  "rule_errors i [] = []"
| "rule_errors i (r # rs) =
     (if invalid_host (sr_ServerName r) then [BadServerName i] else []) @
     (if sr_Protocols r = [] \<or> length (sr_Protocols r) > tlsALPNMaxProtocols then [BadProtocolCount i]
      else protocol_errors i 0 {} (sr_Protocols r) @
           (if TrimSpace (sr_ProxyPass r) = [] then [NoTarget i] else [])) @
     rule_errors (i + 1) rs"

definition ValidateStreamALPNRoutes :: "StreamALPNRoute list \<Rightarrow> alpn_error list" where
  "ValidateStreamALPNRoutes rs = (if length rs > StreamALPNMaxRules then [TooManyRules] else rule_errors 0 rs)"

subsection \<open>The route of a listener\<close>

record 'p alpnRoute =
  ar_serverName :: string
  ar_protocols :: "string set"
  ar_pool :: 'p

record 'p route =
  rt_proto :: string
  rt_defaultPool :: "'p option"
  rt_sniPools :: "(string \<times> 'p) list"
  rt_alpnRoutes :: "'p alpnRoute list"
  rt_proxyIn :: bool
  rt_proxyOut :: bool
  rt_trustedProxies :: "addr_Policy option"
  rt_connectTimeout :: duration
  rt_idleTimeout :: duration
  rt_maxUDPSessions :: int

text \<open>Looking for the first rule of a tier that one of the offered protocols satisfies.\<close>

definition rule_applies :: "bool \<Rightarrow> string \<Rightarrow> string list \<Rightarrow> 'p alpnRoute \<Rightarrow> bool" where
  "rule_applies exact host offered rule \<longleftrightarrow>
     (if exact then \<not> (host = [] \<or> ar_serverName rule = ''*'' \<or> ar_serverName rule \<noteq> host)
      else ar_serverName rule = ''*'') \<and>
     list_ex (\<lambda>p. p \<in> ar_protocols rule) offered"

definition selectPool :: "'p route \<Rightarrow> clientHelloInfo \<Rightarrow> 'p option" where
  "selectPool r hello =
     (let host = ToLower (serverName hello) in
      case find (rule_applies True host (protocols hello)) (rt_alpnRoutes r) of
        Some rule \<Rightarrow> Some (ar_pool rule)
      | None \<Rightarrow>
      (case find (rule_applies False host (protocols hello)) (rt_alpnRoutes r) of
         Some rule \<Rightarrow> Some (ar_pool rule)
       | None \<Rightarrow>
           if host \<noteq> [] \<and> map_of (rt_sniPools r) host \<noteq> None then map_of (rt_sniPools r) host
           else if map_of (rt_sniPools r) ''*'' \<noteq> None then map_of (rt_sniPools r) ''*''
           else rt_defaultPool r))"

record StreamServer =
  ss_Listen :: string
  ss_Protocol :: string
  ss_ProxyPass :: string
  ss_SNIRoutes :: "(string \<times> string) list"
  ss_ALPNRoutes :: "StreamALPNRoute list"
  ss_ProxyProtocol :: string
  ss_TrustedProxies :: "string list"
  ss_ConnectTimeout :: duration
  ss_IdleTimeout :: duration
  ss_MaxUDPSessions :: int

datatype stream_error =
  BadALPN "alpn_error list"
| ALPNNeedsTCP
| BadTrust policy_error
| BadTarget string

definition normProto :: "string \<Rightarrow> string" where
  "normProto p = (let p = ToLower (TrimSpace p) in if p = [] then ''tcp'' else p)"

text \<open>
  Writing the entries of a map in the order the iteration gives them; a later entry with the same
  key replaces the earlier one.
\<close>

fun sni_pools ::
  "(string \<Rightarrow> string \<Rightarrow> 'p option) \<Rightarrow> string \<Rightarrow> (string \<times> 'p) list \<Rightarrow> (string \<times> string) list
     \<Rightarrow> stream_error + (string \<times> 'p) list" where
  "sni_pools mkpool proto acc [] = Inr acc"
| "sni_pools mkpool proto acc ((host, target) # es) =
     (case mkpool target proto of
        None \<Rightarrow> Inl (BadTarget target)
      | Some p \<Rightarrow> sni_pools mkpool proto (AList.update (ToLower host) p acc) es)"

fun alpn_routes ::
  "(string \<Rightarrow> string \<Rightarrow> 'p option) \<Rightarrow> (string \<Rightarrow> bool) \<Rightarrow> (string \<Rightarrow> bool) \<Rightarrow> string \<Rightarrow> StreamALPNRoute list
     \<Rightarrow> stream_error + 'p alpnRoute list" where
  "alpn_routes mkpool named hostport proto [] = Inr []"
| "alpn_routes mkpool named hostport proto (r # rs) =
     (let target = TrimSpace (sr_ProxyPass r) in
      if \<not> named target \<and> \<not> hostport target then Inl (BadTarget target)
      else case mkpool target proto of
             None \<Rightarrow> Inl (BadTarget target)
           | Some p \<Rightarrow>
               (case alpn_routes mkpool named hostport proto rs of
                  Inl e \<Rightarrow> Inl e
                | Inr out \<Rightarrow>
                    Inr (\<lparr>ar_serverName = ToLower (sr_ServerName r), ar_protocols = set (sr_Protocols r), ar_pool = p\<rparr> # out)))"

text \<open>
  \<open>mkpool\<close> stages a pool for a target, \<open>named\<close> and \<open>hostport\<close> say whether a target
  is the name of an upstream and whether it splits into host and port; \<open>pa\<close> and \<open>pp\<close>
  are the address parsers of \<^verbatim>\<open>Clientaddr\<close>. The entries of \<^verbatim>\<open>SNIRoutes\<close> come in the order
  of the iteration.
\<close>

definition buildRoute ::
  "(string \<Rightarrow> string \<Rightarrow> 'p option) \<Rightarrow> (string \<Rightarrow> bool) \<Rightarrow> (string \<Rightarrow> bool) \<Rightarrow> (string \<Rightarrow> Addr option)
     \<Rightarrow> (string \<Rightarrow> Prefix option) \<Rightarrow> StreamServer \<Rightarrow> stream_error + 'p route" where
  "buildRoute mkpool named hostport pa pp st =
     (let errs = ValidateStreamALPNRoutes (ss_ALPNRoutes st) in
      if errs \<noteq> [] then Inl (BadALPN errs)
      else if ss_ALPNRoutes st \<noteq> [] \<and> normProto (ss_Protocol st) \<noteq> ''tcp'' then Inl ALPNNeedsTCP
      else
        (let proto = normProto (ss_Protocol st);
             mode = ToLower (TrimSpace (ss_ProxyProtocol st));
             proxyIn = (mode = ''in'' \<or> mode = ''both'') in
         case (if proxyIn then map_sum id Some (NewPolicy pa pp (ss_TrustedProxies st) (Some []) 0) else Inr None) of
           Inl e \<Rightarrow> Inl (BadTrust e)
         | Inr trust \<Rightarrow>
         (case (if TrimSpace (ss_ProxyPass st) \<noteq> [] then map_option Some (mkpool (ss_ProxyPass st) proto) else Some None) of
            None \<Rightarrow> Inl (BadTarget (ss_ProxyPass st))
          | Some dflt \<Rightarrow>
          (case sni_pools mkpool proto [] (ss_SNIRoutes st) of
             Inl e \<Rightarrow> Inl e
           | Inr sp \<Rightarrow>
           (case alpn_routes mkpool named hostport proto (ss_ALPNRoutes st) of
              Inl e \<Rightarrow> Inl e
            | Inr rules \<Rightarrow>
                Inr \<lparr>rt_proto = proto, rt_defaultPool = dflt, rt_sniPools = sp, rt_alpnRoutes = rules,
                     rt_proxyIn = proxyIn, rt_proxyOut = (mode = ''out'' \<or> mode = ''both''),
                     rt_trustedProxies = trust,
                     rt_connectTimeout = (if ss_ConnectTimeout st \<le> 0 then 10 * second else ss_ConnectTimeout st),
                     rt_idleTimeout = (if ss_IdleTimeout st \<le> 0 then 300 * second else ss_IdleTimeout st),
                     rt_maxUDPSessions = (if ss_MaxUDPSessions st \<le> 0 then 10000 else ss_MaxUDPSessions st)\<rparr>)))))"

subsection \<open>One connection\<close>

datatype 'p decision =
  UntrustedPeer
| HeaderRejected proxy_error
| NoRoute
| Forward 'p TCPAddr string

text \<open>
  \<^verbatim>\<open>handleTCP\<close> up to the choice of the pool: the client address that is believed and the bytes
  that are left for the relay are part of the decision.
\<close>

definition choose_pool :: "'p route \<Rightarrow> TCPAddr \<Rightarrow> string \<Rightarrow> 'p decision" where
  "choose_pool r clientAddr br =
     (case (if rt_sniPools r \<noteq> [] \<or> rt_alpnRoutes r \<noteq> []
            then selectPool r (peekClientHello tlsInspectMax br (rt_alpnRoutes r \<noteq> []))
            else rt_defaultPool r) of
        None \<Rightarrow> NoRoute
      | Some p \<Rightarrow> Forward p clientAddr br)"

definition handleTCP ::
  "(string \<Rightarrow> ip option) \<Rightarrow> (string \<Rightarrow> Addr option) \<Rightarrow> (string \<Rightarrow> Addr option) \<Rightarrow> (TCPAddr \<Rightarrow> string)
     \<Rightarrow> 'p route \<Rightarrow> TCPAddr \<Rightarrow> string \<Rightarrow> 'p decision" where
  "handleTCP pip pa pap show_addr r remote br =
     (if rt_proxyIn r then
        (if \<not> Trusts (rt_trustedProxies r) (PeerFromRemoteAddr pa pap (show_addr remote)) then UntrustedPeer
         else case ReadHeader pip br of
                Inl e \<Rightarrow> HeaderRejected e
              | Inr (src, rest) \<Rightarrow> choose_pool r (case src of None \<Rightarrow> remote | Some a \<Rightarrow> a) rest)
      else choose_pool r remote br)"

text \<open>What the backend receives when the relay has copied everything.\<close>

definition outbound :: "'p route \<Rightarrow> TCPAddr \<Rightarrow> TCPAddr \<Rightarrow> string \<Rightarrow> string" where
  "outbound r clientAddr here rest =
     (if rt_proxyOut r then WriteV2 (Some clientAddr) (Some here) else []) @ rest"

text \<open>
  Writing one chunk. The destination answers each write with the number of bytes it took and
  whether it failed; the result is what was written in all, with an error or without.
\<close>

datatype write_error = WriteFailed | ErrShortWrite

fun writeStreamChunk :: "(nat \<times> bool) list \<Rightarrow> nat \<Rightarrow> string \<Rightarrow> (nat \<times> write_error option) option" where
  "writeStreamChunk ws written chunk =
     (if written < length chunk then
        (case ws of
           [] \<Rightarrow> None
         | (n, failed) # ws \<Rightarrow>
             if failed then Some (written + n, Some WriteFailed)
             else if n = 0 then Some (written, Some ErrShortWrite)
             else writeStreamChunk ws (written + n) chunk)
      else Some (written, None))"

subsection \<open>Dialling\<close>

text \<open>
  The network is an argument: what a dial of the i-th round gives, an error or the address the
  socket is connected to, and what happened to the world meanwhile.
\<close>

record DialEnv =
  dn_dial :: "nat \<Rightarrow> Attempt \<Rightarrow> dstate \<Rightarrow> (errinfo + ip) \<times> dstate"
  dn_now :: "nat \<Rightarrow> nanos"

definition IsMulticast :: "ip \<Rightarrow> bool" where
  "IsMulticast a =
     (case To4 a of
        Some b \<Rightarrow> byte_val (b ! 0) div 16 = 0xE
      | None \<Rightarrow> length a = 16 \<and> byte_val (a ! 0) = 0xFF)"

definition IsGroupAddress :: "ip \<Rightarrow> bool" where
  "IsGroupAddress a \<longleftrightarrow> IsMulticast a \<or> To4 a = Some (replicate 4 (CHR 0xFF))"

definition plain_error :: "errval \<Rightarrow> string \<Rightarrow> errinfo" where
  "plain_error c t = \<lparr>e_chain = c, e_text = t, e_body = False, e_cert = False, e_timeout = False\<rparr>"

definition pick_error :: "select_error \<Rightarrow> errinfo" where
  "pick_error e =
     (case e of
        ErrNoAvailableBackend \<Rightarrow> plain_error errNoAvailableBackend ''no available upstream backend''
      | ErrBackendAtCapacity \<Rightarrow> plain_error errBackendAtCapacity ''all upstream backends are at capacity'')"

definition group_error :: errinfo where
  "group_error = plain_error (Sentinel ''group'') ''stream: UDP backend resolved to multicast or broadcast address; skipped''"

definition no_backend_error :: errinfo where
  "no_backend_error = plain_error (Sentinel ''none'') ''stream: no backend available''"

definition dial_error :: "string \<Rightarrow> errinfo + ip \<Rightarrow> errinfo option" where
  "dial_error network res =
     (case res of
        Inl e \<Rightarrow> Some e
      | Inr a \<Rightarrow> if network = ''udp'' \<and> IsGroupAddress a then Some group_error else None)"

definition record_result :: "nanos \<Rightarrow> Attempt \<Rightarrow> AttemptClassification \<Rightarrow> dstate \<Rightarrow> dstate" where
  "record_result now att c s = on_world (\<lambda>w. snd (RecordAttempt now att c w)) s"

primrec dial_loop ::
  "nat \<Rightarrow> DialEnv \<Rightarrow> string \<Rightarrow> Key \<Rightarrow> nat \<Rightarrow> BackendIdentity set \<Rightarrow> errinfo option \<Rightarrow> string list \<Rightarrow> dstate
     \<Rightarrow> ((errinfo + Attempt) \<times> string list \<times> dstate) option" where
  "dial_loop 0 env network key i tried lastErr reasons s =
     Some (Inl (case lastErr of None \<Rightarrow> no_backend_error | Some e \<Rightarrow> e), reasons, s)"
| "dial_loop (Suc n) env network key i tried lastErr reasons s =
     (case PickKeyed (dn_now env i) key tried s of
        None \<Rightarrow> None
      | Some (Inl e, s) \<Rightarrow>
          (case lastErr of
             Some l \<Rightarrow> Some (Inl l, reasons, s)
           | None \<Rightarrow> Some (Inl (pick_error e), ClassifyDialError (pick_error e) # reasons, s))
      | Some (Inr att, s) \<Rightarrow>
          (let (res, s) = dn_dial env i att s in
           case dial_error network res of
             Some e \<Rightarrow>
               (let tried = insert (backend_Identity (cells (snd s) (the (at_Backend att)))) tried;
                    s = record_result (dn_now env i) att (ClassifyAttemptError (dn_now env i) (Some e) None None) s;
                    s = do_release att s in
                dial_loop n env network key (i + 1) tried (Some e) (ClassifyDialError e # reasons) s)
           | None \<Rightarrow> Some (Inr att, reasons, record_result (dn_now env i) att SuccessfulAttempt s)))"

definition dialBackend ::
  "DialEnv \<Rightarrow> string \<Rightarrow> Key \<Rightarrow> World \<Rightarrow> ((errinfo + Attempt) \<times> string list \<times> dstate) option" where
  "dialBackend env network key w =
     dial_loop (max 1 (length (p_backends (pool w)))) env network key 0 {} None [] (None, w)"

end
