(* ===== verification/Stream_Props.thy ===== *)
theory Stream_Props
  imports Stream
begin

text \<open>
  Properties of the stream proxy of \<^verbatim>\<open>Stream\<close>: what dialling does to the pool's accounts, which
  pool a connection gets, and what survives a chain of two gateways.
\<close>

subsection \<open>Dialling\<close>

lemma upd_cell_circuit_view:
  "same_view s (on_world (\<lambda>w. upd_cell b (\<lambda>x. x\<lparr>b_circuit := f x\<rparr>) w) s)"
  by (simp add: same_view_def on_world_def upd_cell_def backend_Identity_def)
     (rule candidates_cong, simp_all)

lemma report_health_view: "same_view s (on_world (report_health a up) s)"
  by (simp add: same_view_def on_world_def report_health_def upd_pool_def)
     (rule impI, rule candidates_cong, simp_all)

lemma MarkFailure_view: "same_view s (on_world (\<lambda>w. snd (MarkFailure now att w)) s)"
proof (cases "at_Backend att")
  case (Some b)
  let ?u = "\<lambda>w. upd_cell b (\<lambda>x. x\<lparr>b_circuit := snd (circuit_failure now (at_adm att) (b_circuit (cells (snd s) b)))\<rparr>) w"
  have 1: "same_view s (on_world ?u s)" by (rule upd_cell_circuit_view)
  then show ?thesis
    using same_view_trans [OF 1 report_health_view [of _ "b_Address (cells (?u (snd s)) b)" False]] Some
    by (auto simp: MarkFailure_def Let_def on_world_def split: prod.splits)
qed (simp add: MarkFailure_def on_world_def)

lemma MarkSuccess_view: "same_view s (on_world (\<lambda>w. snd (MarkSuccess att w)) s)"
proof (cases "at_Backend att")
  case (Some b)
  let ?u = "\<lambda>w. upd_cell b (\<lambda>x. x\<lparr>b_circuit := snd (circuit_success (at_adm att) (b_circuit (cells (snd s) b)))\<rparr>) w"
  have 1: "same_view s (on_world ?u s)" by (rule upd_cell_circuit_view)
  then show ?thesis
    using same_view_trans [OF 1 report_health_view [of _ "b_Address (cells (?u (snd s)) b)" True]] Some
    by (auto simp: MarkSuccess_def Let_def on_world_def split: prod.splits)
qed (simp add: MarkSuccess_def on_world_def)

lemma ReleaseProbe_view: "same_view s (on_world (pool_ReleaseProbe att) s)"
  using upd_cell_circuit_view
  by (cases "at_Backend att") (simp_all add: pool_ReleaseProbe_def on_world_def [of "\<lambda>w. w"] pool_ReleaseProbe_def [abs_def])

lemma record_result_view: "same_view s (record_result now att c s)"
  using MarkFailure_view MarkSuccess_view ReleaseProbe_view
  by (cases "ac_health c") (simp_all add: record_result_def RecordAttempt_def)

definition dialer_ok :: "DialEnv \<Rightarrow> bool" where
  "dialer_ok env \<longleftrightarrow> (\<forall>i att s. same_view s (snd (dn_dial env i att s)))"

lemma dial_loop_ok:
  assumes "dialer_ok env" and "distinct (candidates s0)" and "same_view s0 s"
  shows "\<exists>r reasons' t. dial_loop n env network key i tried lastErr reasons s = Some (r, reasons', t) \<and>
     length reasons' \<le> length reasons + n \<and>
     (case r of
        Inl e \<Rightarrow> same_view s0 t
      | Inr att \<Rightarrow> \<exists>b \<in> set (candidates s0). at_Backend att = Some b \<and> charged b s0 t)"
  using assms(3)
proof (induction n arbitrary: i tried lastErr reasons s)
  case 0
  then show ?case by simp
next
  case (Suc n)
  have c: "candidates s = candidates s0" using same_view_ids(3) [OF Suc.prems] by simp
  then have "distinct (candidates s)" using assms(2) by simp
  then obtain r t where pick: "PickKeyed (dn_now env i) key tried s = Some (r, t)" and view: "pick_view tried s r t"
    using PickKeyed_view by blast
  show ?case
  proof (cases r)
    case (Inl e)
    then have "same_view s0 t" using view same_view_trans [OF Suc.prems] by (simp add: pick_view_def)
    with pick Inl show ?thesis by (cases lastErr) auto
  next
    case (Inr att)
    then obtain b where b: "b \<in> set (candidates s0)" "at_Backend att = Some b" and "charged b s t"
      using view c by (auto simp: pick_view_def)
    obtain res u where d: "dn_dial env i att t = (res, u)" by (meson surj_pair)
    have "same_view t u" using assms(1) d unfolding dialer_ok_def by (metis snd_conv)
    then have ch: "charged b s0 u" using charged_pre [OF Suc.prems] charged_same \<open>charged b s t\<close> by blast
    show ?thesis
    proof (cases "dial_error network res")
      case None
      have "charged b s0 (record_result (dn_now env i) att SuccessfulAttempt u)"
        using charged_same [OF ch record_result_view] .
      with pick Inr d None b show ?thesis by auto
    next
      case (Some e)
      let ?c = "ClassifyAttemptError (dn_now env i) (Some e) None None"
      have "same_view s0 (do_release att (record_result (dn_now env i) att ?c u))"
        using do_release_charged [OF charged_same [OF ch record_result_view] b(2)] .
      from Suc.IH [OF this, of "i + 1" "insert (backend_Identity (cells (snd u) b)) tried" "Some e" "ClassifyDialError e # reasons"]
      show ?thesis using pick Inr d Some b(2) by auto
    qed
  qed
qed

text \<open>Dialling for a stream leaves the pool's accounts exact. Whatever the network answers, it
  returns after at most as many rounds as the pool has backends; when it hands out a backend that
  backend is a member of the pool and exactly one in-flight slot of it is taken, and when it
  fails every slot it took on the way has been given back.\<close>

lemma dialBackend_accounts:
  assumes "dialer_ok env" and "distinct (p_backends (pool w))"
  shows "\<exists>r reasons t. dialBackend env network key w = Some (r, reasons, t) \<and>
     length reasons \<le> max 1 (length (p_backends (pool w))) \<and>
     (case r of
        Inl e \<Rightarrow> same_view (None, w) t
      | Inr att \<Rightarrow> \<exists>b \<in> set (p_backends (pool w)). at_Backend att = Some b \<and> charged b (None, w) t)"
proof -
  have c: "candidates (None, w) = p_backends (pool w)" by (simp add: candidates_def)
  have d: "distinct (candidates (None, w))" using assms(2) c by simp
  from dial_loop_ok [OF assms(1) d same_view_refl, of "max 1 (length (p_backends (pool w)))" network key 0 "{}" None "[]"]
  show ?thesis unfolding c dialBackend_def by simp
qed

definition refusing :: DialEnv where
  "refusing = \<lparr>dn_dial = (\<lambda>i att s. (Inl refused_err, s)), dn_now = (\<lambda>_. 0)\<rparr>"

lemma dialBackend_accounts_example:
  "\<exists>r reasons t. dialBackend refusing ''tcp'' no_key sample_world = Some (r, reasons, t)"
proof -
  have "dialer_ok refusing" by (simp add: dialer_ok_def refusing_def)
  moreover have "distinct (p_backends (pool sample_world))" by (simp add: sample_world_pool)
  ultimately show ?thesis
    using dialBackend_accounts [of refusing sample_world "''tcp''" no_key] by blast
qed

subsection \<open>Chains of gateways\<close>

lemma Uint16_bound: "Uint16 b \<le> 65535"
proof -
  have "byte_val c < 256" for c by (simp add: byte_val_def)
  from this [of "b ! 0"] this [of "b ! 1"] show ?thesis unfolding Uint16_def by linarith
qed

lemma tcp_ok_read: "length b = 4 \<or> length b = 16 \<Longrightarrow> tcp_ok \<lparr>tcp_IP = b, tcp_Port = int (Uint16 c)\<rparr>"
  by (simp add: tcp_ok_def Uint16_bound)

lemma readV2_tcp_ok: "readV2 br = Inr (Some a, rest) \<Longrightarrow> tcp_ok a"
  unfolding readV2_def Let_def by (auto intro!: tcp_ok_read split: if_splits)

lemma readV1_tcp_ok:
  assumes "readV1 pip br = Inr (Some a, rest)" and "\<forall>s b. pip s = Some b \<longrightarrow> length b = 4 \<or> length b = 16"
  shows "tcp_ok a"
proof -
  from assms(1) obtain fs where fs: "v1_fields pip fs = Inr (Some a)"
    by (auto simp: readV1_def split: option.splits if_splits sum.splits prod.splits)
  then have "pip (fs ! 2) = Some (tcp_IP a)" by (auto simp: v1_fields_def split: if_splits option.splits)
  then show ?thesis using assms(2) v1_port_range [OF fs] unfolding tcp_ok_def by blast
qed

lemma ReadHeader_tcp_ok:
  assumes "ReadHeader pip br = Inr (Some a, rest)" and "\<forall>s b. pip s = Some b \<longrightarrow> length b = 4 \<or> length b = 16"
  shows "tcp_ok a"
  using assms readV2_tcp_ok readV1_tcp_ok by (auto simp: ReadHeader_def split: if_splits)

lemma handleTCP_Forward:
  assumes "handleTCP pip pa pap show_addr r remote br = Forward p c rest" and "tcp_ok remote"
    and "\<forall>s b. pip s = Some b \<longrightarrow> length b = 4 \<or> length b = 16"
  shows "tcp_ok c"
  using assms ReadHeader_tcp_ok [OF _ assms(3)]
  by (auto simp: handleTCP_def choose_pool_def split: if_splits sum.splits option.splits prod.splits)

text \<open>What the second gateway of a chain does with what the first one sends.\<close>

lemma second_hop:
  assumes "tcp_ok c" and "tcp_ok here" and "rt_proxyOut rA" and "rt_proxyIn rB"
    and "Trusts (rt_trustedProxies rB) (PeerFromRemoteAddr pa pap (show_addr peer))"
  shows "\<exists>a. To16 (tcp_IP a) = To16 (tcp_IP c) \<and> tcp_Port a = tcp_Port c \<and>
    handleTCP pip pa pap show_addr rB peer (outbound rA c here rest) = choose_pool rB a rest"
proof -
  obtain i where i: "ReadHeader pip (WriteV2 (Some c) (Some here) @ rest) = Inr (Some \<lparr>tcp_IP = i, tcp_Port = tcp_Port c\<rparr>, rest)"
    "To16 i = To16 (tcp_IP c)" using WriteV2_reads [OF assms(1,2)] by blast
  have "handleTCP pip pa pap show_addr rB peer (outbound rA c here rest) = choose_pool rB \<lparr>tcp_IP = i, tcp_Port = tcp_Port c\<rparr> rest"
    using assms(3-5) i(1) by (simp add: handleTCP_def outbound_def)
  with i(2) show ?thesis by (intro exI [of _ "\<lparr>tcp_IP = i, tcp_Port = tcp_Port c\<rparr>"]) simp
qed

lemma tcp_ok_port: "tcp_ok c \<Longrightarrow> 0 \<le> tcp_Port c \<and> tcp_Port c \<le> 65535"
  by (simp add: tcp_ok_def)

text \<open>The pool a connection gets, given what its hello says.\<close>

definition pool_for :: "'p route \<Rightarrow> extension list \<Rightarrow> 'p option" where
  "pool_for r xs =
     (if rt_sniPools r \<noteq> [] \<or> rt_alpnRoutes r \<noteq> [] then selectPool r (hello_info (rt_alpnRoutes r \<noteq> []) xs)
      else rt_defaultPool r)"

text \<open>C23: A chain of two gateways keeps the client and its choice. When a first gateway forwards a
  connection and announces it with a PROXY header, and a second gateway that trusts the first
  reads that header, the second one sees the same client address and port that the first one saw
  (itself possibly from a header), routes by exactly the server name and protocols of the
  client's TLS hello, however that was cut into records, and relays the client's bytes unchanged.
  From a peer it does not trust it takes nothing at all.\<close>

theorem stream_chain_transparent:
  assumes "\<forall>s b. pip s = Some b \<longrightarrow> length b = 4 \<or> length b = 16"
    and "handleTCP pip pa pap show_addr rA client sent = Forward p c rest"
    and "tcp_ok client" and "tcp_ok here" and "rt_proxyOut rA" and "rt_proxyIn rB"
    and "hello_ok h" and "concat (map snd rs) = enc_hello h" and "length rs \<le> tlsClientHelloMaxRecords"
    and "\<forall>r \<in> set rs. fst r \<le> 4 \<and> snd r \<noteq> []" and "rest = concat (map enc_record rs) @ later"
  shows "if Trusts (rt_trustedProxies rB) (PeerFromRemoteAddr pa pap (show_addr peer))
    then \<exists>a. To16 (tcp_IP a) = To16 (tcp_IP c) \<and> tcp_Port a = tcp_Port c \<and>
           handleTCP pip pa pap show_addr rB peer (outbound rA c here rest) =
             (case pool_for rB (h_exts h) of None \<Rightarrow> NoRoute | Some q \<Rightarrow> Forward q a rest)
    else handleTCP pip pa pap show_addr rB peer (outbound rA c here rest) = UntrustedPeer"
proof (cases "Trusts (rt_trustedProxies rB) (PeerFromRemoteAddr pa pap (show_addr peer))")
  case True
  have c: "tcp_ok c" using handleTCP_Forward [OF assms(2,3,1)] .
  have "choose_pool rB a rest = (case pool_for rB (h_exts h) of None \<Rightarrow> NoRoute | Some q \<Rightarrow> Forward q a rest)" for a
    unfolding choose_pool_def pool_for_def assms(11) peekClientHello_of_records [OF assms(7-10)] ..
  then show ?thesis using second_hop [where pa = pa and pap = pap and show_addr = show_addr, OF c assms(4-6), of peer pip rest] True by auto
next
  case False
  then show ?thesis using assms(6) by (simp add: handleTCP_def)
qed

definition edge_route :: "nat route" where
  "edge_route = \<lparr>rt_proto = ''tcp'', rt_defaultPool = Some 1, rt_sniPools = [], rt_alpnRoutes = [], rt_proxyIn = False,
     rt_proxyOut = True, rt_trustedProxies = None, rt_connectTimeout = 1, rt_idleTimeout = 1, rt_maxUDPSessions = 1\<rparr>"

definition inner_route :: "nat route" where
  "inner_route = edge_route\<lparr>rt_defaultPool := None, rt_sniPools := [(''a.io'', 7)], rt_proxyIn := True,
     rt_trustedProxies := Some \<lparr>ap_trusted = [\<lparr>pf_addr = V4 0x0A000001, pf_bits = 32\<rparr>], ap_sources = [], ap_maxHops = 32\<rparr>\<rparr>"

definition edge_addr :: TCPAddr where
  "edge_addr = \<lparr>tcp_IP = map char_of [10, 0, 0, 1 :: nat], tcp_Port = 443\<rparr>"

theorem stream_chain_transparent_witness:
  "\<exists>a. handleTCP (\<lambda>_. None) (\<lambda>_. None) (\<lambda>_. Some (V4 0x0A000001)) (\<lambda>_. ''10.0.0.1:443'') inner_route edge_addr
      (outbound edge_route edge_addr edge_addr (concat (map enc_record [(1, enc_hello sample_hello)]) @ ''x'')) =
     Forward 7 a (concat (map enc_record [(1, enc_hello sample_hello)]) @ ''x'')"
proof -
  let ?rest = "concat (map enc_record [(1, enc_hello sample_hello)]) @ ''x''"
  have f: "handleTCP (\<lambda>_. None) (\<lambda>_. None) (\<lambda>_. Some (V4 0x0A000001)) (\<lambda>_. ''10.0.0.1:443'') edge_route edge_addr ?rest =
      Forward 1 edge_addr ?rest"
    by (simp add: handleTCP_def edge_route_def choose_pool_def)
  have t: "Trusts (rt_trustedProxies inner_route) (PeerFromRemoteAddr (\<lambda>_. None) (\<lambda>_. Some (V4 0x0A000001)) ''10.0.0.1:443'')"
    by (simp add: Trusts_def inner_route_def edge_route_def PeerFromRemoteAddr_def addr_normalize_def IsValid_def
        Unmap_def without_zone_def prefix_Contains_def)
  have e: "enc_hello sample_hello \<noteq> []" by (simp add: enc_hello_def)
  have x: "pool_for inner_route (h_exts sample_hello) = Some 7"
    by (simp add: pool_for_def inner_route_def edge_route_def selectPool_def sample_hello_def hello_info_def
        host_of_def host_ok_def byte_val_def ToLower_def to_lower_def)
  show ?thesis
    using stream_chain_transparent [OF _ f, of edge_addr inner_route sample_hello "[(1, enc_hello sample_hello)]" "''x''" edge_addr] t e x sample_hello_ok
    by (auto simp: edge_addr_def tcp_ok_def edge_route_def inner_route_def tlsClientHelloMaxRecords_def)
qed

subsection \<open>Server names that differ only in case\<close>

text \<open>
  The routes by server name are kept under the lower-case name, and the configuration map is
  read in the order Go's iteration gives. When no two names fall together, that order does not
  matter; when two do, it decides which backend the clients of that name reach.
\<close>

lemma sni_pools_map_of:
  assumes "sni_pools mkpool proto acc es = Inr out"
  shows "map_of out = map_of acc ++ map_of (rev (map (\<lambda>(h, t). (ToLower h, the (mkpool t proto))) es))"
  using assms
proof (induction mkpool proto acc es rule: sni_pools.induct)
  case (2 mkpool proto acc host target es)
  then obtain p where p: "mkpool target proto = Some p" by (auto split: option.splits)
  with 2 have "map_of out = map_of (AList.update (ToLower host) p acc) ++
      map_of (rev (map (\<lambda>(h, t). (ToLower h, the (mkpool t proto))) es))" by simp
  then show ?case using p by (simp add: AList.update_conv' map_add_def fun_eq_iff split: option.split)
qed simp

lemma sni_pools_order_free:
  assumes "distinct (map (\<lambda>(h, t). ToLower h) es)" and "mset es' = mset es"
    and "sni_pools mkpool proto [] es = Inr out" and "sni_pools mkpool proto [] es' = Inr out'"
  shows "map_of out = map_of out'"
proof -
  let ?f = "\<lambda>(h, t). (ToLower h, the (mkpool t proto))"
  have "mset (rev (map ?f es)) = mset (rev (map ?f es'))" using assms(2) by simp
  moreover have "distinct (map fst (rev (map ?f es)))" "distinct (map fst (rev (map ?f es')))"
  proof -
    have "fst \<circ> ?f = (\<lambda>(h, t). ToLower h)" by (auto simp: fun_eq_iff)
    moreover have "mset (map (\<lambda>(h, t). ToLower h) es') = mset (map (\<lambda>(h, t). ToLower h) es)" using assms(2) by simp
    then have "distinct (map (\<lambda>(h, t). ToLower h) es')" using assms(1) mset_eq_imp_distinct_iff by blast
    ultimately show "distinct (map fst (rev (map ?f es)))" "distinct (map fst (rev (map ?f es')))"
      using assms(1) by (simp_all add: rev_map [symmetric])
  qed
  ultimately have "map_of (rev (map ?f es)) = map_of (rev (map ?f es'))"
    using map_of_inject_set mset_eq_setD by blast
  then show ?thesis using sni_pools_map_of [OF assms(3)] sni_pools_map_of [OF assms(4)] by simp
qed

definition mixed_case_routes :: "(string \<times> string) list" where
  "mixed_case_routes = [(''A.io'', ''old:1''), (''a.io'', ''new:1'')]"

lemma sni_routes_case_collision:
  "map_sum id (\<lambda>ps. map_of ps ''a.io'') (sni_pools (\<lambda>t _. Some t) ''tcp'' [] mixed_case_routes) = Inr (Some ''new:1'')"
  "map_sum id (\<lambda>ps. map_of ps ''a.io'') (sni_pools (\<lambda>t _. Some t) ''tcp'' [] (rev mixed_case_routes)) = Inr (Some ''old:1'')"
  by code_simp+

end
