(* ===== verification/Udp.thy ===== *)
theory Udp
  imports Prelude
begin

text \<open>
  The UDP sessions of a stream listener, \<^verbatim>\<open>src/internal/stream/udp.go\<close>.

  Every section under \<^verbatim>\<open>udpMu\<close> is one step, and the work a goroutine does after it unlocks
  is a step of its own, so other goroutines come in between: a session that was taken out of the
  map is \<open>doomed\<close> until the goroutine that took it out has closed its socket and released
  its backend, and one that was put in is \<open>uncounted\<close> until the connection gauge is
  raised. A session is a number; numbers are never reused. The order in which Go iterates over
  the session map is an argument of the section that scans it. Dialling is the event that it
  succeeded or failed; datagrams appear as touches of \<^verbatim>\<open>lastSeen\<close>.
\<close>

record udpListener =
  u_sessions :: "(string \<times> nat) list"
  u_pending :: "string list"
  u_lastSeen :: "nat \<Rightarrow> int"
  u_next :: nat
  u_doomed :: "nat list"
  u_released :: "nat list"
  u_uncounted :: "nat list"
  u_gauge :: int

definition newUdpListener :: udpListener where
  "newUdpListener = \<lparr>u_sessions = [], u_pending = [], u_lastSeen = (\<lambda>_. 0), u_next = 0, u_doomed = [],
     u_released = [], u_uncounted = [], u_gauge = 0\<rparr>"

definition maxInt64 :: int where
  "maxInt64 = 2 ^ 63 - 1"

text \<open>The scan for the session seen least recently; on a tie the first one met stays.\<close>

fun oldest_scan :: "(nat \<Rightarrow> int) \<Rightarrow> int \<times> (string \<times> nat) option \<Rightarrow> (string \<times> nat) list \<Rightarrow> int \<times> (string \<times> nat) option" where
  "oldest_scan seen acc [] = acc"
| "oldest_scan seen acc ((k, s) # es) =
     oldest_scan seen (if seen s < fst acc then (seen s, Some (k, s)) else acc) es"

definition delete_key :: "string \<Rightarrow> (string \<times> nat) list \<Rightarrow> (string \<times> nat) list" where
  "delete_key k es = filter (\<lambda>e. fst e \<noteq> k) es"

definition admitUDPLocked ::
  "(string \<times> nat) list \<Rightarrow> int \<Rightarrow> duration \<Rightarrow> int \<Rightarrow> udpListener \<Rightarrow> (bool \<times> nat option) \<times> udpListener" where
  "admitUDPLocked order maxSessions idle now l =
     (if maxSessions \<le> 0 then ((True, None), l)
      else if int (length (u_sessions l)) + int (length (u_pending l)) < maxSessions then ((True, None), l)
      else case oldest_scan (u_lastSeen l) (maxInt64, None) order of
             (oldestSeen, None) \<Rightarrow> ((False, None), l)
           | (oldestSeen, Some (k, s)) \<Rightarrow>
               if now - oldestSeen < idle then ((False, None), l)
               else ((True, Some s), l\<lparr>u_sessions := delete_key k (u_sessions l)\<rparr>))"

datatype begin_result = Existing nat | Waiting | NoPool | Rejected | Dialling "nat option"

text \<open>The first locked section of \<^verbatim>\<open>udpSessionFor\<close>.\<close>

definition session_begin ::
  "(string \<times> nat) list \<Rightarrow> bool \<Rightarrow> int \<Rightarrow> duration \<Rightarrow> int \<Rightarrow> string \<Rightarrow> udpListener \<Rightarrow> begin_result \<times> udpListener" where
  "session_begin order hasPool maxSessions idle now key l =
     (case map_of (u_sessions l) key of
        Some s \<Rightarrow> (Existing s, l)
      | None \<Rightarrow>
          if key \<in> set (u_pending l) then (Waiting, l)
          else if \<not> hasPool then (NoPool, l)
          else case admitUDPLocked order maxSessions idle now l of
                 ((False, v), l) \<Rightarrow> (Rejected, l)
               | ((True, v), l) \<Rightarrow>
                   (Dialling v, l\<lparr>u_pending := key # u_pending l,
                                  u_doomed := (case v of None \<Rightarrow> u_doomed l | Some s \<Rightarrow> s # u_doomed l)\<rparr>))"

text \<open>The second locked section, after the dial.\<close>

definition session_install :: "string \<Rightarrow> bool \<Rightarrow> int \<Rightarrow> udpListener \<Rightarrow> nat option \<times> udpListener" where
  "session_install key dialled now l =
     (let l = l\<lparr>u_pending := filter (\<lambda>k. k \<noteq> key) (u_pending l)\<rparr> in
      if \<not> dialled then (None, l)
      else let s = u_next l in
           (Some s, l\<lparr>u_sessions := (key, s) # delete_key key (u_sessions l), u_next := s + 1,
                      u_lastSeen := (u_lastSeen l)(s := now), u_uncounted := s # u_uncounted l\<rparr>))"

definition gauge_up :: "nat \<Rightarrow> udpListener \<Rightarrow> udpListener" where
  "gauge_up s l = l\<lparr>u_uncounted := remove1 s (u_uncounted l), u_gauge := u_gauge l + 1\<rparr>"

definition teardown :: "nat \<Rightarrow> udpListener \<Rightarrow> udpListener" where
  "teardown s l = l\<lparr>u_doomed := remove1 s (u_doomed l), u_released := s # u_released l, u_gauge := u_gauge l - 1\<rparr>"

definition session_touch :: "nat \<Rightarrow> int \<Rightarrow> udpListener \<Rightarrow> udpListener" where
  "session_touch s now l = l\<lparr>u_lastSeen := (u_lastSeen l)(s := now)\<rparr>"

text \<open>The locked section of \<^verbatim>\<open>closeUDPSession\<close>.\<close>

definition closeUDPSession :: "string \<Rightarrow> nat \<Rightarrow> udpListener \<Rightarrow> udpListener" where
  "closeUDPSession key s l =
     (if map_of (u_sessions l) key \<noteq> Some s then l
      else l\<lparr>u_sessions := delete_key key (u_sessions l), u_doomed := s # u_doomed l\<rparr>)"

text \<open>
  When a relay goroutine ends its session: the reply could not be delivered, the backend socket
  failed, or a read timed out and nothing was seen in either direction for the idle time.
\<close>

definition downstream_idle :: "duration \<Rightarrow> duration" where
  "downstream_idle idle = (if idle \<le> 0 then 300 * second else idle)"

definition downstream_checkEvery :: "duration \<Rightarrow> duration" where
  "downstream_checkEvery idle = (if downstream_idle idle > 15 * second then 15 * second else downstream_idle idle)"

definition downstream_ends :: "duration \<Rightarrow> int \<Rightarrow> bool \<Rightarrow> bool \<Rightarrow> bool \<Rightarrow> nat \<Rightarrow> udpListener \<Rightarrow> bool" where
  "downstream_ends idle now undelivered failed timeout s l \<longleftrightarrow>
     undelivered \<or> failed \<and> (timeout \<longrightarrow> \<not> now - u_lastSeen l s < downstream_idle idle)"

subsection \<open>Steps\<close>

inductive udp_step :: "int \<Rightarrow> udpListener \<Rightarrow> udpListener \<Rightarrow> bool" for M where
  session_start: "\<lbrakk>mset order = mset (u_sessions l); 0 < maxSessions; maxSessions \<le> M;
     session_begin order hasPool maxSessions idle now key l = (r, l')\<rbrakk> \<Longrightarrow> udp_step M l l'"
| session_dialled: "\<lbrakk>key \<in> set (u_pending l); session_install key dialled now l = (r, l')\<rbrakk> \<Longrightarrow> udp_step M l l'"
| session_count: "s \<in> set (u_uncounted l) \<Longrightarrow> udp_step M l (gauge_up s l)"
| session_tear: "s \<in> set (u_doomed l) \<Longrightarrow> udp_step M l (teardown s l)"
| session_seen: "udp_step M l (session_touch s now l)"
| session_close: "udp_step M l (closeUDPSession key s l)"

inductive_cases udp_stepE: "udp_step M l l'"

definition udp_inv :: "int \<Rightarrow> udpListener \<Rightarrow> bool" where
  "udp_inv M l \<longleftrightarrow>
     distinct (map fst (u_sessions l) @ u_pending l) \<and>
     mset (map snd (u_sessions l)) + mset (u_doomed l) + mset (u_released l) = mset [0..<u_next l] \<and>
     int (length (u_sessions l)) + int (length (u_pending l)) \<le> M \<and>
     u_gauge l + int (length (u_uncounted l)) = int (length (u_sessions l)) + int (length (u_doomed l))"

subsection \<open>Every session is released exactly once\<close>

lemma delete_key_absent: "k \<notin> fst ` set es \<Longrightarrow> delete_key k es = es"
  by (force simp: delete_key_def filter_id_conv)

lemma delete_key_mset:
  assumes "distinct (map fst es)" and "(k, s) \<in> set es"
  shows "mset es = add_mset (k, s) (mset (delete_key k es))"
  using assms
proof (induction es)
  case (Cons e es)
  show ?case
  proof (cases "e = (k, s)")
    case True
    with Cons.prems have "k \<notin> fst ` set es" by auto
    then have "delete_key k (e # es) = es" using True delete_key_absent by (simp add: delete_key_def)
    then show ?thesis using True by simp
  next
    case False
    with Cons.prems have "fst e \<noteq> k" by (force simp: image_iff)
    with False Cons show ?thesis by (simp add: delete_key_def)
  qed
qed simp

lemma delete_key_keys: "set (map fst (delete_key k es)) = set (map fst es) - {k}"
  by (auto simp: delete_key_def)

lemma delete_key_distinct: "distinct (map fst es @ ps) \<Longrightarrow> distinct (map fst (delete_key k es) @ ps)"
  by (auto simp: delete_key_def distinct_map_filter)

text \<open>Taking one session out of the map, as eviction and closing do.\<close>

lemma detach_inv:
  assumes "udp_inv M l" and "(k, s) \<in> set (u_sessions l)"
  shows "udp_inv M (l\<lparr>u_sessions := delete_key k (u_sessions l), u_doomed := s # u_doomed l\<rparr>)"
    and "length (u_sessions l) = Suc (length (delete_key k (u_sessions l)))"
proof -
  have d: "distinct (map fst (u_sessions l) @ u_pending l)" using assms(1) by (simp add: udp_inv_def)
  then have m: "mset (u_sessions l) = add_mset (k, s) (mset (delete_key k (u_sessions l)))"
    using delete_key_mset assms(2) by simp
  then have "image_mset snd (mset (u_sessions l)) = add_mset s (image_mset snd (mset (delete_key k (u_sessions l))))" by simp
  moreover show len: "length (u_sessions l) = Suc (length (delete_key k (u_sessions l)))"
    using arg_cong [OF m, of size] by simp
  ultimately show "udp_inv M (l\<lparr>u_sessions := delete_key k (u_sessions l), u_doomed := s # u_doomed l\<rparr>)"
    using assms(1) delete_key_distinct [OF d, of k] by (simp add: udp_inv_def)
qed

lemma oldest_scan_member:
  assumes "oldest_scan seen (m, None) es = (t, Some (k, s))"
  shows "(k, s) \<in> set es \<and> t = seen s \<and> (\<forall>e \<in> set es. seen s \<le> seen (snd e))"
proof -
  have "oldest_scan seen (b, c) es = (t, r) \<Longrightarrow>
      (r = c \<and> t = b \<and> (\<forall>e \<in> set es. b \<le> seen (snd e))) \<or>
      (\<exists>k s. r = Some (k, s) \<and> (k, s) \<in> set es \<and> t = seen s \<and> t < b \<and> (\<forall>e \<in> set es. t \<le> seen (snd e)))"
    for b c r
  proof (induction es arbitrary: b c)
    case (Cons e es)
    obtain k s where e: "e = (k, s)" by fastforce
    show ?case
    proof (cases "seen s < b")
      case True
      then have "oldest_scan seen (seen s, Some (k, s)) es = (t, r)" using Cons.prems e by simp
      from Cons.IH [OF this] show ?thesis using True e by auto
    next
      case False
      then have "oldest_scan seen (b, c) es = (t, r)" using Cons.prems e by simp
      from Cons.IH [OF this] show ?thesis using False e by auto
    qed
  qed simp
  from this [of m None "Some (k, s)"] assms show ?thesis by auto
qed

lemma session_begin_inv:
  assumes "udp_inv M l" and "mset order = mset (u_sessions l)" and "0 < maxSessions" and "maxSessions \<le> M"
    and "session_begin order hasPool maxSessions idle now key l = (r, l')"
  shows "udp_inv M l'"
proof (cases "map_of (u_sessions l) key = None \<and> key \<notin> set (u_pending l) \<and> hasPool")
  case False
  then show ?thesis using assms(1,5) by (auto simp: session_begin_def split: option.splits if_splits)
next
  case True
  then have new: "key \<notin> set (map fst (u_sessions l) @ u_pending l)" by (auto simp: map_of_eq_None_iff)
  have so: "set order = set (u_sessions l)" using assms(2) mset_eq_setD by blast
  show ?thesis
  proof (cases "int (length (u_sessions l)) + int (length (u_pending l)) < maxSessions")
    case below: True
    then have "l' = l\<lparr>u_pending := key # u_pending l\<rparr>"
      using assms(3,5) True by (auto simp: session_begin_def admitUDPLocked_def)
    then show ?thesis using assms(1,4) new below by (auto simp: udp_inv_def)
  next
    case full: False
    show ?thesis
    proof (cases "l' = l")
      case neq: False
      then obtain t k s where v: "oldest_scan (u_lastSeen l) (maxInt64, None) order = (t, Some (k, s))"
        and l': "l' = l\<lparr>u_sessions := delete_key k (u_sessions l), u_doomed := s # u_doomed l, u_pending := key # u_pending l\<rparr>"
        using assms(3,5) True full
        by (auto simp: session_begin_def admitUDPLocked_def split: prod.splits option.splits if_splits)
      have m: "(k, s) \<in> set (u_sessions l)" using oldest_scan_member [OF v] so by simp
      note D = detach_inv [OF assms(1) m]
      have "key \<notin> set (map fst (delete_key k (u_sessions l)) @ u_pending l)"
        using new delete_key_keys [of k "u_sessions l"] by auto
      then show ?thesis using D assms(1) unfolding l' by (auto simp: udp_inv_def)
    qed (use assms(1) in simp)
  qed
qed

lemma filter_neq_length: "distinct xs \<Longrightarrow> x \<in> set xs \<Longrightarrow> length xs = Suc (length (filter (\<lambda>y. y \<noteq> x) xs))"
proof (induction xs)
  case (Cons y ys)
  show ?case
  proof (cases "y = x")
    case True
    then have "filter (\<lambda>y. y \<noteq> x) ys = ys" using Cons.prems by (auto simp: filter_id_conv)
    then show ?thesis using True by simp
  qed (use Cons in auto)
qed simp

lemma session_install_inv:
  assumes "udp_inv M l" and "key \<in> set (u_pending l)" and "session_install key dialled now l = (r, l')"
  shows "udp_inv M l'"
proof -
  let ?p = "filter (\<lambda>k. k \<noteq> key) (u_pending l)"
  have d: "distinct (map fst (u_sessions l) @ u_pending l)" using assms(1) by (simp add: udp_inv_def)
  have len: "length (u_pending l) = Suc (length ?p)"
  proof -
    have "distinct (u_pending l)" using d by simp
    from filter_neq_length [OF this assms(2)] show ?thesis .
  qed
  have k: "delete_key key (u_sessions l) = u_sessions l"
    using d assms(2) by (intro delete_key_absent) auto
  have d1: "distinct (map fst (u_sessions l) @ ?p)" "distinct (key # map fst (u_sessions l) @ ?p)"
    using d assms(2) by (force simp: disjoint_iff)+
  have n: "mset [0..<Suc n] = add_mset n (mset [0..<n])" for n by (simp add: atLeast0_lessThan_Suc)
  show ?thesis
  proof (cases dialled)
    case True
    then have l': "l' = l\<lparr>u_pending := ?p, u_sessions := (key, u_next l) # u_sessions l, u_next := Suc (u_next l),
        u_lastSeen := (u_lastSeen l)(u_next l := now), u_uncounted := u_next l # u_uncounted l\<rparr>"
      using assms(3) k by (simp add: session_install_def Let_def)
    show ?thesis using assms(1) d1(2) len n [of "u_next l"] unfolding l' udp_inv_def by simp
  next
    case False
    then have l': "l' = l\<lparr>u_pending := ?p\<rparr>" using assms(3) by (simp add: session_install_def)
    show ?thesis using assms(1) d1(1) len unfolding l' udp_inv_def by simp
  qed
qed

lemma length_remove1_int:
  assumes "s \<in> set xs"
  shows "int (length xs) = int (length (remove1 s xs)) + 1"
proof -
  have "mset xs = add_mset s (mset (remove1 s xs))" using assms by simp
  from arg_cong [OF this, of size] show ?thesis by (simp only: size_mset size_add_mset)
qed

lemma gauge_up_inv: "udp_inv M l \<Longrightarrow> s \<in> set (u_uncounted l) \<Longrightarrow> udp_inv M (gauge_up s l)"
  using length_remove1_int [of s "u_uncounted l"] by (simp add: udp_inv_def gauge_up_def)

lemma teardown_inv:
  assumes "udp_inv M l" and "s \<in> set (u_doomed l)"
  shows "udp_inv M (teardown s l)"
proof -
  define D where "D = mset (remove1 s (u_doomed l))"
  have D: "mset (u_doomed l) = add_mset s D" using assms(2) by (simp add: D_def)
  have "mset (map snd (u_sessions l)) + mset (u_doomed l) + mset (u_released l) = mset [0..<u_next l]"
    using assms(1) by (simp only: udp_inv_def)
  then have "mset (map snd (u_sessions l)) + mset (remove1 s (u_doomed l)) + mset (s # u_released l) = mset [0..<u_next l]"
    unfolding D D_def [symmetric] by simp
  with assms(1) length_remove1_int [OF assms(2)] show ?thesis
    unfolding udp_inv_def teardown_def by simp
qed

lemma closeUDPSession_inv: "udp_inv M l \<Longrightarrow> udp_inv M (closeUDPSession key s l)"
  using detach_inv(1) [of M l key s] map_of_SomeD [of "u_sessions l" key s] by (simp add: closeUDPSession_def)

lemma session_touch_inv: "udp_inv M l \<Longrightarrow> udp_inv M (session_touch s now l)"
  by (simp add: session_touch_def udp_inv_def)

lemma udp_step_inv: "udp_step M l l' \<Longrightarrow> udp_inv M l \<Longrightarrow> udp_inv M l'"
  by (induction rule: udp_step.induct)
     (blast intro: session_begin_inv session_install_inv gauge_up_inv teardown_inv closeUDPSession_inv session_touch_inv)+

interpretation udp: invariant_system "udp_step M" "\<lambda>l. l = newUdpListener \<and> 0 \<le> M" "udp_inv M" for M
proof
  show "l = newUdpListener \<and> 0 \<le> M \<Longrightarrow> udp_inv M l" for l by (simp add: newUdpListener_def udp_inv_def)
qed (rule udp_step_inv)

text \<open>C26: UDP sessions are bounded and each is torn down exactly once. In every interleaving of
  arriving datagrams, dials, evictions, idle closes and late closes of a listener whose session
  cap never exceeds M, sessions and dials in progress together never exceed M, no client has two
  of either, every session ever opened is in exactly one of three states (in the map, taken out
  and waiting for its teardown, or torn down), torn down at most once, and the connection gauge
  is off only by what has not been counted yet.\<close>

theorem udp_sessions_exact:
  assumes "reachable_by (udp_step M) newUdpListener l" and "0 \<le> M"
  shows "int (length (u_sessions l)) + int (length (u_pending l)) \<le> M \<and>
    distinct (map fst (u_sessions l) @ u_pending l) \<and>
    mset (map snd (u_sessions l)) + mset (u_doomed l) + mset (u_released l) = mset [0..<u_next l] \<and>
    distinct (map snd (u_sessions l) @ u_doomed l @ u_released l) \<and>
    u_gauge l = int (length (u_sessions l)) + int (length (u_doomed l)) - int (length (u_uncounted l))"
proof -
  have inv: "udp_inv M l" using udp.reachable_inv [OF assms(1)] assms(2) by simp
  then have m: "mset (map snd (u_sessions l) @ u_doomed l @ u_released l) = mset [0..<u_next l]"
    by (simp add: udp_inv_def add.assoc)
  have "distinct (map snd (u_sessions l) @ u_doomed l @ u_released l)"
    using mset_eq_imp_distinct_iff [OF m] by simp
  with inv show ?thesis by (simp add: udp_inv_def)
qed

definition one_session :: udpListener where
  "one_session = snd (session_install ''a'' True 5 (snd (session_begin [] True 1 10 0 ''a'' newUdpListener)))"

lemma one_session_reachable: "reachable_by (udp_step 1) newUdpListener one_session"
proof -
  let ?m = "snd (session_begin [] True 1 10 0 ''a'' newUdpListener)"
  have "udp_step 1 newUdpListener ?m"
    by (rule session_start [of "[]" _ 1 _ True 10 0 "''a''" "fst (session_begin [] True 1 10 0 ''a'' newUdpListener)"])
       (simp_all add: newUdpListener_def)
  moreover have "udp_step 1 ?m one_session"
    unfolding one_session_def
    by (rule session_dialled [of "''a''" _ True 5 "fst (session_install ''a'' True 5 ?m)"])
       (simp_all add: session_begin_def admitUDPLocked_def newUdpListener_def)
  ultimately show ?thesis by (meson reach_refl reach_step)
qed

theorem udp_sessions_exact_witness:
  "u_sessions one_session = [(''a'', 0)] \<and> distinct (map snd (u_sessions one_session) @ u_doomed one_session)"
  using udp_sessions_exact [OF one_session_reachable]
  by (simp add: one_session_def session_begin_def admitUDPLocked_def session_install_def newUdpListener_def delete_key_def Let_def)

text \<open>A flood of new clients cannot push out a live flow. When the cap is reached, a session is
  taken out for a newcomer only if it has been idle for the whole idle time, and then it is one
  of those seen least recently, whatever the order of the map; otherwise the newcomer is refused
  and nothing changes. Below the cap nothing is ever taken out.\<close>

lemma udp_no_live_eviction:
  assumes "mset order = mset (u_sessions l)"
    and "session_begin order hasPool maxSessions idle now key l = (r, l')"
  shows "(r = Rejected \<longrightarrow> l' = l \<and> maxSessions \<le> int (length (u_sessions l)) + int (length (u_pending l))) \<and>
    (\<forall>s. r = Dialling (Some s) \<longrightarrow>
       (\<exists>k. (k, s) \<in> set (u_sessions l)) \<and> idle \<le> now - u_lastSeen l s \<and>
       (\<forall>e \<in> set (u_sessions l). u_lastSeen l s \<le> u_lastSeen l (snd e)) \<and>
       maxSessions \<le> int (length (u_sessions l)) + int (length (u_pending l))) \<and>
    (r = Dialling None \<longrightarrow> u_sessions l' = u_sessions l)"
proof -
  have so: "set order = set (u_sessions l)" using assms(1) mset_eq_setD by blast
  show ?thesis
    using assms(2) oldest_scan_member [of "u_lastSeen l" maxInt64 order] so
    by (auto simp: session_begin_def admitUDPLocked_def split: option.splits if_splits prod.splits)
qed

lemma udp_no_live_eviction_example:
  "fst (session_begin (u_sessions one_session) True 1 10 8 ''b'' one_session) = Rejected"
proof -
  obtain r l' where "session_begin (u_sessions one_session) True 1 10 8 ''b'' one_session = (r, l')" by fastforce
  with udp_no_live_eviction [OF refl this] show ?thesis
    by (auto simp: one_session_def session_begin_def admitUDPLocked_def session_install_def newUdpListener_def
        delete_key_def Let_def maxInt64_def)
qed

end
