(* ===== verification/Egress.thy ===== *)
theory Egress
  imports Gostrings "HOL-Library.Char_ord" "HOL-Library.List_Lexorder"
begin

text \<open>
  \<^verbatim>\<open>src/internal/egress\<close>: the allow-list of outbound destinations. Its entries and their
  normal form (\<^verbatim>\<open>normalize.go\<close>), the decision and the guarded dial (\<^verbatim>\<open>policy.go\<close>,
  \<^verbatim>\<open>http.go\<close>). Policy generations and the block log are in \<^verbatim>\<open>Egress_Gen\<close>.

  A \<^verbatim>\<open>net.IP\<close> is its byte slice, 4 or 16 bytes long; matching an address against a network
  is modelled on the bytes. The record \<open>netlib\<close> stands for the text forms of addresses
  (\<^verbatim>\<open>net.ParseIP\<close>, \<^verbatim>\<open>net.ParseCIDR\<close>, \<^verbatim>\<open>netip.ParseAddr\<close> and the
  \<^verbatim>\<open>String\<close> methods), for \<^verbatim>\<open>idna.Lookup.ToASCII\<close> and for the behaviour of
  \<^verbatim>\<open>strings.ToLower\<close> and \<^verbatim>\<open>strings.TrimSpace\<close> on text outside ASCII. The DNS
  resolver and the base dialer are arguments of the dial; the base dialer is told the number of
  the attempt, so that equal attempts may end differently.
\<close>

subsection \<open>Addresses and networks\<close>

type_synonym net_IP = "8 word list"

type_synonym net_IPNet = "8 word list \<times> 8 word list"

record netlib =
  nl_ParseIP :: "string \<Rightarrow> net_IP option"
  nl_ParseCIDR :: "string \<Rightarrow> net_IPNet option"
  nl_IP_String :: "net_IP \<Rightarrow> string"
  nl_IPNet_String :: "net_IPNet \<Rightarrow> string"
  nl_without_zone :: "string \<Rightarrow> string option"
  nl_ToASCII :: "string \<Rightarrow> string option"
  nl_ToLower :: "string \<Rightarrow> string"
  nl_TrimSpace :: "string \<Rightarrow> string"

definition v4InV6Prefix :: "8 word list" where
  "v4InV6Prefix = [0, 0, 0, 0, 0, 0, 0, 0, 0, 0, 0xFF, 0xFF]"

definition To4 :: "net_IP \<Rightarrow> net_IP option" where
  "To4 ip =
     (if length ip = 4 then Some ip
      else if length ip = 16 \<and> take 12 ip = v4InV6Prefix then Some (drop 12 ip)
      else None)"

unbundle bit_operations_syntax

definition mask_bytes :: "8 word list \<Rightarrow> 8 word list \<Rightarrow> 8 word list" where
  "mask_bytes ip m = map2 (AND) ip m"

text \<open>\<^verbatim>\<open>IP.Mask\<close>; the empty list is the nil slice.\<close>

definition ip_Mask :: "net_IP \<Rightarrow> 8 word list \<Rightarrow> net_IP" where
  "ip_Mask ip0 m0 =
     (let m = (if length m0 = 16 \<and> length ip0 = 4 \<and> list_all (\<lambda>b. b = 0xFF) (take 12 m0)
               then drop 12 m0 else m0);
          ip = (if length m = 4 \<and> length ip0 = 16 \<and> take 12 ip0 = v4InV6Prefix
                then drop 12 ip0 else ip0) in
      if length ip \<noteq> length m then [] else mask_bytes ip m)"

definition networkNumberAndMask :: "net_IPNet \<Rightarrow> net_IPNet" where
  "networkNumberAndMask n =
     (case n of (ip0, m) \<Rightarrow>
        (case (case To4 ip0 of Some v4 \<Rightarrow> Some v4 | None \<Rightarrow> if length ip0 \<noteq> 16 then None else Some ip0) of
           None \<Rightarrow> ([], [])
         | Some ip \<Rightarrow>
             if length m = 4 then (if length ip \<noteq> 4 then ([], []) else (ip, m))
             else if length m = 16 then (if length ip = 4 then (ip, drop 12 m) else (ip, m))
             else ([], [])))"

definition net_Contains :: "net_IPNet \<Rightarrow> net_IP \<Rightarrow> bool" where
  "net_Contains n ip0 =
     (case networkNumberAndMask n of (nn, m) \<Rightarrow>
        (let ip = (case To4 ip0 of Some x \<Rightarrow> x | None \<Rightarrow> ip0) in
         length ip = length nn \<and> mask_bytes nn m = mask_bytes ip m))"

definition JoinHostPort :: "string \<Rightarrow> string \<Rightarrow> string" where
  "JoinHostPort host port =
     (if contains_byte CHR '':'' host then ''['' @ host @ '']:'' @ port else host @ '':'' @ port)"

subsection \<open>Names\<close>

definition isASCII :: "string \<Rightarrow> bool" where
  "isASCII s = list_all (\<lambda>c. (of_char c :: nat) < 128) s"

definition lower_text :: "netlib \<Rightarrow> string \<Rightarrow> string" where
  "lower_text nl s = (if isASCII s then ToLower s else nl_ToLower nl s)"

definition trim_text :: "netlib \<Rightarrow> string \<Rightarrow> string" where
  "trim_text nl s = (if isASCII s then TrimSpace s else nl_TrimSpace nl s)"

datatype host_error = EmptyHostname | NotIDNA | BadHostCharacter | EmptyLabel

definition normalizeHost :: "netlib \<Rightarrow> string \<Rightarrow> host_error + string" where
  "normalizeHost nl h0 =
     (let h = TrimSuffix (lower_text nl (trim_text nl h0)) ''.'' in
      if h = [] then Inl EmptyHostname
      else if isASCII h then Inr h
      else case nl_ToASCII nl h of None \<Rightarrow> Inl NotIDNA | Some a \<Rightarrow> Inr a)"

definition host_forbidden :: "char list" where
  "host_forbidden = [CHR '' '', CHR 0x09, CHR 0x0D, CHR 0x0A, CHR ''/'', CHR ''@'', CHR '':'']"

definition validateHostname :: "string \<Rightarrow> host_error option" where
  "validateHostname h =
     (if h = [] then Some EmptyHostname
      else if list_ex (\<lambda>c. c \<in> set host_forbidden) h then Some BadHostCharacter
      else if [] \<in> set (Split h CHR ''.'') then Some EmptyLabel
      else None)"

definition strip_brackets :: "string \<Rightarrow> string" where
  "strip_brackets s = TrimPrefix (TrimSuffix s '']'') ''[''"

definition normalizeDialHost :: "netlib \<Rightarrow> string \<Rightarrow> string" where
  "normalizeDialHost nl h0 =
     (let h1 = strip_brackets (trim_text nl h0);
          name = (\<lambda>h. case nl_ParseIP nl h of
                     Some ip \<Rightarrow> (case To4 ip of Some v4 \<Rightarrow> nl_IP_String nl v4 | None \<Rightarrow> nl_IP_String nl ip)
                   | None \<Rightarrow> (case normalizeHost nl h of Inr nh \<Rightarrow> nh | Inl _ \<Rightarrow> [])) in
      if h1 = [] then []
      else case index_byte CHR ''%'' h1 of
             None \<Rightarrow> name h1
           | Some i \<Rightarrow> (case nl_without_zone nl h1 of Some a \<Rightarrow> a | None \<Rightarrow> name (take i h1)))"

subsection \<open>Allow entries\<close>

record hostRule =
  hr_value :: string
  hr_suffix :: bool

datatype egress_error =
  LooksLikeURL string
| InvalidCIDR string
| InvalidHost string host_error
| NoValidEntries

datatype entry_result =
  EntrySkip
| EntryBad egress_error
| EntryCIDR net_IPNet
| EntryHost hostRule

definition parseIPLiteral :: "netlib \<Rightarrow> string \<Rightarrow> net_IP option" where
  "parseIPLiteral nl s0 =
     (let s = strip_brackets s0 in if contains_byte CHR ''%'' s then None else nl_ParseIP nl s)"

definition canonicalCIDR :: "net_IPNet \<Rightarrow> net_IPNet" where
  "canonicalCIDR n = (ip_Mask (fst n) (snd n), snd n)"

definition ipToCIDR :: "net_IP \<Rightarrow> net_IPNet" where
  "ipToCIDR ip =
     (case To4 ip of
        Some v4 \<Rightarrow> (v4, replicate 4 0xFF)
      | None \<Rightarrow> (ip, replicate 16 0xFF))"

definition parseEntry :: "netlib \<Rightarrow> string \<Rightarrow> entry_result" where
  "parseEntry nl raw =
     (let entry = trim_text nl raw in
      if entry = [] then EntrySkip
      else if Contains entry ''://'' then EntryBad (LooksLikeURL raw)
      else if contains_byte CHR ''/'' entry then
        (case nl_ParseCIDR nl entry of
           None \<Rightarrow> EntryBad (InvalidCIDR raw)
         | Some ipnet \<Rightarrow> EntryCIDR (canonicalCIDR ipnet))
      else case parseIPLiteral nl entry of
             Some ip \<Rightarrow> EntryCIDR (ipToCIDR ip)
           | None \<Rightarrow>
               (let suffix = HasPrefix entry ''.'';
                    name = (if suffix then drop 1 entry else entry) in
                case normalizeHost nl name of
                  Inl er \<Rightarrow> EntryBad (InvalidHost raw er)
                | Inr nh \<Rightarrow>
                    (case validateHostname nh of
                       Some er \<Rightarrow> EntryBad (InvalidHost raw er)
                     | None \<Rightarrow> EntryHost \<lparr>hr_value = nh, hr_suffix = suffix\<rparr>)))"

record egress_Policy =
  ep_hosts :: "hostRule list"
  ep_cidrs :: "net_IPNet list"
  ep_observe :: bool

record EgressConfig =
  ec_Enabled :: bool
  ec_Allow :: "string list"

definition host_key :: "hostRule \<Rightarrow> string" where
  "host_key r = (if hr_suffix r then ''.'' @ hr_value r else hr_value r)"

fun add_allow ::
  "netlib \<Rightarrow> string list \<Rightarrow> string list \<Rightarrow> egress_Policy \<Rightarrow> string list \<Rightarrow> egress_error + egress_Policy" where
  "add_allow nl seenHost seenCIDR p [] = Inr p"
| "add_allow nl seenHost seenCIDR p (raw # raws) =
     (case parseEntry nl raw of
        EntrySkip \<Rightarrow> add_allow nl seenHost seenCIDR p raws
      | EntryBad er \<Rightarrow> Inl er
      | EntryCIDR cidr \<Rightarrow>
          (let key = nl_IPNet_String nl cidr in
           if key \<in> set seenCIDR then add_allow nl seenHost seenCIDR p raws
           else add_allow nl seenHost (key # seenCIDR) (p\<lparr>ep_cidrs := ep_cidrs p @ [cidr]\<rparr>) raws)
      | EntryHost rule \<Rightarrow>
          (let key = host_key rule in
           if key \<in> set seenHost then add_allow nl seenHost seenCIDR p raws
           else add_allow nl (key # seenHost) seenCIDR (p\<lparr>ep_hosts := ep_hosts p @ [rule]\<rparr>) raws))"

definition egress_New :: "netlib \<Rightarrow> EgressConfig \<Rightarrow> bool \<Rightarrow> egress_error + egress_Policy option" where
  "egress_New nl cfg observer =
     (if \<not> ec_Enabled cfg then Inr None
      else case add_allow nl [] [] \<lparr>ep_hosts = [], ep_cidrs = [], ep_observe = False\<rparr> (ec_Allow cfg) of
             Inl er \<Rightarrow> Inl er
           | Inr p \<Rightarrow>
               if ep_hosts p = [] \<and> ep_cidrs p = [] then Inl NoValidEntries
               else Inr (Some (p\<lparr>ep_observe := observer\<rparr>)))"

subsection \<open>Decisions\<close>

datatype egress_Reason =
  ReasonHostNotAllowed | ReasonIPNotAllowed | ReasonMixedDNS | ReasonNoDNSAnswers | ReasonInvalidAddress

record BlockError =
  be_Subsystem :: string
  be_Host :: string
  be_IP :: string
  be_Reason :: egress_Reason

record egress_Decision =
  ed_Subsystem :: string
  ed_Block :: "egress_Reason option"
  ed_Host :: string
  ed_IP :: string
  ed_DNSAnswers :: nat

datatype dial_error = Blocked BlockError | LookupFailed string | DialFailed string

definition rule_matches :: "hostRule \<Rightarrow> string \<Rightarrow> bool" where
  "rule_matches r host = (if hr_suffix r then HasSuffix host (''.'' @ hr_value r) else host = hr_value r)"

definition allowHost :: "egress_Policy \<Rightarrow> string \<Rightarrow> bool" where
  "allowHost p host = (host \<noteq> [] \<and> list_ex (\<lambda>r. rule_matches r host) (ep_hosts p))"

definition allowIP :: "egress_Policy \<Rightarrow> net_IP \<Rightarrow> bool" where
  "allowIP p ip = (ip \<noteq> [] \<and> list_ex (\<lambda>n. net_Contains n ip) (ep_cidrs p))"

definition egress_emit :: "egress_Policy \<Rightarrow> egress_Decision \<Rightarrow> egress_Decision list" where
  "egress_emit p d = (if ep_observe p then [d] else [])"

definition block_decision :: "BlockError \<Rightarrow> nat \<Rightarrow> egress_Decision" where
  "block_decision e answers =
     \<lparr>ed_Subsystem = be_Subsystem e, ed_Block = Some (be_Reason e), ed_Host = be_Host e,
      ed_IP = be_IP e, ed_DNSAnswers = answers\<rparr>"

definition observeAllow :: "egress_Policy \<Rightarrow> string \<Rightarrow> string \<Rightarrow> string \<Rightarrow> nat \<Rightarrow> egress_Decision list" where
  "observeAllow p subsystem host ip answers =
     egress_emit p \<lparr>ed_Subsystem = subsystem, ed_Block = None, ed_Host = host, ed_IP = ip,
                    ed_DNSAnswers = answers\<rparr>"

text \<open>The outcome of a dial, the decisions it reports and the addresses it hands to the base
  dialer, in order.\<close>

type_synonym 'c dial_result = "(dial_error + 'c) \<times> egress_Decision list \<times> string list"

definition egress_block ::
  "egress_Policy \<Rightarrow> string \<Rightarrow> string \<Rightarrow> string \<Rightarrow> egress_Reason \<Rightarrow> nat \<Rightarrow> 'c dial_result" where
  "egress_block p subsystem host ip reason answers =
     (let e = \<lparr>be_Subsystem = subsystem, be_Host = host, be_IP = ip, be_Reason = reason\<rparr> in
      (Inl (Blocked e), egress_emit p (block_decision e answers), []))"

definition base_result :: "string + 'c \<Rightarrow> dial_error + 'c" where
  "base_result r = (case r of Inl er \<Rightarrow> Inl (DialFailed er) | Inr c \<Rightarrow> Inr c)"

fun dial_each ::
  "(nat \<Rightarrow> string \<Rightarrow> string \<Rightarrow> string + 'c) \<Rightarrow> string \<Rightarrow> nat \<Rightarrow> string option \<Rightarrow> string list \<Rightarrow>
   (string option + 'c) \<times> string list" where
  "dial_each baseDial network n lastErr [] = (Inl lastErr, [])"
| "dial_each baseDial network n lastErr (a # addrs) =
     (case baseDial n network a of
        Inr c \<Rightarrow> (Inr c, [a])
      | Inl er \<Rightarrow>
          (case dial_each baseDial network (Suc n) (Some er) addrs of (r, dialled) \<Rightarrow> (r, a # dialled)))"

definition count_answer :: "netlib \<Rightarrow> egress_Policy \<Rightarrow> nat \<times> string \<Rightarrow> net_IP \<Rightarrow> nat \<times> string" where
  "count_answer nl p st ip =
     (case st of (allowed, firstBad) \<Rightarrow>
        if allowIP p ip then (Suc allowed, firstBad)
        else (allowed, if firstBad = [] then nl_IP_String nl ip else firstBad))"

definition egress_dial ::
  "netlib \<Rightarrow> egress_Policy \<Rightarrow> (string \<Rightarrow> string + net_IP list) \<Rightarrow>
   (nat \<Rightarrow> string \<Rightarrow> string \<Rightarrow> string + 'c) \<Rightarrow> string \<Rightarrow> string \<Rightarrow> string \<Rightarrow> string \<Rightarrow> 'c dial_result" where
  "egress_dial nl p lookup baseDial subsystem network host port =
     (let nhost = normalizeDialHost nl host; addr = JoinHostPort host port in
      if nhost = [] then egress_block p subsystem host [] ReasonInvalidAddress 0
      else case nl_ParseIP nl nhost of
        Some ip \<Rightarrow>
          if \<not> allowIP p ip then
            egress_block p subsystem nhost (nl_IP_String nl ip) ReasonIPNotAllowed 0
          else (base_result (baseDial 0 network addr),
                observeAllow p subsystem nhost (nl_IP_String nl ip) 0, [addr])
      | None \<Rightarrow>
          if allowHost p nhost then
            (base_result (baseDial 0 network addr), observeAllow p subsystem nhost [] 0, [addr])
          else case lookup nhost of
            Inl er \<Rightarrow> (Inl (LookupFailed er), [], [])
          | Inr ips \<Rightarrow>
              if ips = [] then egress_block p subsystem nhost [] ReasonNoDNSAnswers 0
              else case foldl (count_answer nl p) (0, []) ips of (allowed, firstBad) \<Rightarrow>
                if allowed = 0 then egress_block p subsystem nhost firstBad ReasonHostNotAllowed (length ips)
                else if allowed < length ips then
                  egress_block p subsystem nhost firstBad ReasonMixedDNS (length ips)
                else
                  (case dial_each baseDial network 0 None
                          (map (\<lambda>ip. JoinHostPort (nl_IP_String nl ip) port) ips) of
                     (Inr c, dialled) \<Rightarrow> (Inr c, observeAllow p subsystem nhost [] (length ips), dialled)
                   | (Inl (Some er), dialled) \<Rightarrow>
                       (Inl (DialFailed er), observeAllow p subsystem nhost [] (length ips), dialled)
                   | (Inl None, dialled) \<Rightarrow>
                       (case egress_block p subsystem nhost [] ReasonHostNotAllowed (length ips) of
                          (r, ds, _) \<Rightarrow>
                            (r, observeAllow p subsystem nhost [] (length ips) @ ds, dialled))))"

definition staticBlock :: "netlib \<Rightarrow> egress_Policy \<Rightarrow> string \<Rightarrow> string \<Rightarrow> BlockError option" where
  "staticBlock nl p subsystem host =
     (let nhost = normalizeDialHost nl host in
      if nhost = [] then
        Some \<lparr>be_Subsystem = subsystem, be_Host = host, be_IP = [], be_Reason = ReasonInvalidAddress\<rparr>
      else case nl_ParseIP nl nhost of
             Some ip \<Rightarrow>
               if allowIP p ip then None
               else Some \<lparr>be_Subsystem = subsystem, be_Host = nhost, be_IP = nl_IP_String nl ip,
                          be_Reason = ReasonIPNotAllowed\<rparr>
           | None \<Rightarrow> None)"

text \<open>The guarded dial function of a subsystem; without a guard the base dialer is used as it
  is. The argument \<open>split\<close> is \<^verbatim>\<open>net.SplitHostPort\<close>.\<close>

definition DialContextWith ::
  "netlib \<Rightarrow> (string \<Rightarrow> (string \<times> string) option) \<Rightarrow> (egress_Policy \<times> string) option \<Rightarrow>
   (string \<Rightarrow> string + net_IP list) \<Rightarrow> (nat \<Rightarrow> string \<Rightarrow> string \<Rightarrow> string + 'c) \<Rightarrow> string \<Rightarrow> string \<Rightarrow>
   'c dial_result" where
  "DialContextWith nl split guard lookup baseDial network addr =
     (case guard of
        None \<Rightarrow> (base_result (baseDial 0 network addr), [], [addr])
      | Some (p, subsystem) \<Rightarrow>
          (case split addr of
             None \<Rightarrow>
               (Inl (Blocked \<lparr>be_Subsystem = subsystem, be_Host = addr, be_IP = [],
                              be_Reason = ReasonInvalidAddress\<rparr>), [], [])
           | Some (host, port) \<Rightarrow> egress_dial nl p lookup baseDial subsystem network host port))"

text \<open>One exchange of a guarded client: the URL's host is checked before dispatch, then the
  wrapped transport runs (\<open>next\<close>).\<close>

definition guarded_RoundTrip ::
  "netlib \<Rightarrow> egress_Policy \<Rightarrow> string \<Rightarrow> string \<Rightarrow> 'r dial_result \<Rightarrow> 'r dial_result" where
  "guarded_RoundTrip nl p subsystem urlhost next =
     (case staticBlock nl p subsystem urlhost of
        Some be \<Rightarrow> (Inl (Blocked be), egress_emit p (block_decision be 0), [])
      | None \<Rightarrow> next)"

subsection \<open>What a policy was compiled from\<close>

text \<open>An entry of the allow-list permits a name or an address.\<close>

definition entry_lists_host :: "netlib \<Rightarrow> string \<Rightarrow> string \<Rightarrow> bool" where
  "entry_lists_host nl raw host =
     (case parseEntry nl raw of EntryHost r \<Rightarrow> rule_matches r host | _ \<Rightarrow> False)"

definition entry_lists_ip :: "netlib \<Rightarrow> string \<Rightarrow> net_IP \<Rightarrow> bool" where
  "entry_lists_ip nl raw ip =
     (case parseEntry nl raw of EntryCIDR n \<Rightarrow> net_Contains n ip | _ \<Rightarrow> False)"

lemma add_allow_sound:
  "add_allow nl sh sc p raws = Inr q \<Longrightarrow>
   (\<forall>r \<in> set (ep_hosts q). r \<in> set (ep_hosts p) \<or> (\<exists>raw \<in> set raws. parseEntry nl raw = EntryHost r)) \<and>
   (\<forall>n \<in> set (ep_cidrs q). n \<in> set (ep_cidrs p) \<or> (\<exists>raw \<in> set raws. parseEntry nl raw = EntryCIDR n))"
proof (induction raws arbitrary: sh sc p)
  case (Cons raw raws)
  show ?case
  proof (cases "parseEntry nl raw")
    case EntrySkip
    with Cons.prems Cons.IH [of sh sc p] show ?thesis by auto
  next
    case (EntryCIDR n)
    with Cons.prems Cons.IH [of sh sc p] Cons.IH [of sh "nl_IPNet_String nl n # sc" "p\<lparr>ep_cidrs := ep_cidrs p @ [n]\<rparr>"]
    show ?thesis by (auto simp: Let_def split: if_splits)
  next
    case (EntryHost r)
    with Cons.prems Cons.IH [of sh sc p] Cons.IH [of "host_key r # sh" sc "p\<lparr>ep_hosts := ep_hosts p @ [r]\<rparr>"]
    show ?thesis by (auto simp: Let_def split: if_splits)
  qed (use Cons.prems in auto)
qed simp

lemma egress_New_Some:
  assumes "egress_New nl cfg ob = Inr (Some p)"
  obtains q where "ec_Enabled cfg"
    and "add_allow nl [] [] \<lparr>ep_hosts = [], ep_cidrs = [], ep_observe = False\<rparr> (ec_Allow cfg) = Inr q"
    and "p = q\<lparr>ep_observe := ob\<rparr>" and "ep_hosts p \<noteq> [] \<or> ep_cidrs p \<noteq> []"
  using assms by (auto simp: egress_New_def split: if_splits sum.splits)

lemma allowHost_listed:
  assumes "egress_New nl cfg ob = Inr (Some p)" and "allowHost p host"
  shows "\<exists>raw \<in> set (ec_Allow cfg). entry_lists_host nl raw host"
  using assms(1)
proof (rule egress_New_Some)
  fix q
  assume q: "add_allow nl [] [] \<lparr>ep_hosts = [], ep_cidrs = [], ep_observe = False\<rparr> (ec_Allow cfg) = Inr q"
    and p: "p = q\<lparr>ep_observe := ob\<rparr>"
  from assms(2) obtain r where r: "r \<in> set (ep_hosts q)" "rule_matches r host"
    by (auto simp: allowHost_def list_ex_iff p)
  with add_allow_sound [OF q] obtain raw where "raw \<in> set (ec_Allow cfg)" "parseEntry nl raw = EntryHost r"
    by auto
  with r(2) show ?thesis by (intro bexI [of _ raw]) (simp_all add: entry_lists_host_def)
qed

lemma allowIP_listed:
  assumes "egress_New nl cfg ob = Inr (Some p)" and "allowIP p ip"
  shows "\<exists>raw \<in> set (ec_Allow cfg). entry_lists_ip nl raw ip"
  using assms(1)
proof (rule egress_New_Some)
  fix q
  assume q: "add_allow nl [] [] \<lparr>ep_hosts = [], ep_cidrs = [], ep_observe = False\<rparr> (ec_Allow cfg) = Inr q"
    and p: "p = q\<lparr>ep_observe := ob\<rparr>"
  from assms(2) obtain n where n: "n \<in> set (ep_cidrs q)" "net_Contains n ip"
    by (auto simp: allowIP_def list_ex_iff p)
  with add_allow_sound [OF q] obtain raw where "raw \<in> set (ec_Allow cfg)" "parseEntry nl raw = EntryCIDR n"
    by auto
  with n(2) show ?thesis by (intro bexI [of _ raw]) (simp_all add: entry_lists_ip_def)
qed

subsection \<open>The guarded dial\<close>

lemma count_answers:
  "fst (foldl (count_answer nl p) (k, bad) ips) = k + length (filter (allowIP p) ips)"
  by (induction ips arbitrary: k bad) (auto simp: count_answer_def)

lemma count_answers_case:
  "(case foldl (count_answer nl p) (0, []) ips of (allowed, bad) \<Rightarrow> f allowed bad) =
   f (length (filter (allowIP p) ips)) (snd (foldl (count_answer nl p) (0, []) ips))"
  by (simp add: case_prod_beta count_answers)

lemma all_allowed_iff: "length (filter P xs) < length xs \<longleftrightarrow> (\<exists>x \<in> set xs. \<not> P x)"
  using length_filter_less [of _ xs P] by (metis filter_True less_irrefl)

lemma dial_each_sub: "set (snd (dial_each base network n le addrs)) \<subseteq> set addrs"
  by (induction addrs arbitrary: n le) (auto simp: case_prod_beta split: sum.splits)

lemma dial_each_None: "fst (dial_each base network n le addrs) = Inl None \<Longrightarrow> addrs = [] \<and> le = None"
  by (induction addrs arbitrary: n le) (auto simp: case_prod_beta split: sum.splits)

lemma dial_each_dials: "addrs \<noteq> [] \<Longrightarrow> snd (dial_each base network n le addrs) \<noteq> []"
  by (cases addrs) (auto split: sum.splits prod.splits)

text \<open>The verdict the allow-list gives a destination, as a specification: nothing, the
  destination as it was given, or the answers of the resolver.\<close>

datatype verdict = Refuse egress_Reason | AsGiven | Resolved "net_IP list" | NoLookup string

definition egress_verdict :: "netlib \<Rightarrow> egress_Policy \<Rightarrow> (string \<Rightarrow> string + net_IP list) \<Rightarrow> string \<Rightarrow> verdict" where
  "egress_verdict nl p lookup host =
     (let nhost = normalizeDialHost nl host in
      if nhost = [] then Refuse ReasonInvalidAddress
      else case nl_ParseIP nl nhost of
        Some ip \<Rightarrow> if allowIP p ip then AsGiven else Refuse ReasonIPNotAllowed
      | None \<Rightarrow>
          if allowHost p nhost then AsGiven
          else case lookup nhost of
            Inl er \<Rightarrow> NoLookup er
          | Inr ips \<Rightarrow>
              if ips = [] then Refuse ReasonNoDNSAnswers
              else if \<forall>ip \<in> set ips. \<not> allowIP p ip then Refuse ReasonHostNotAllowed
              else if \<exists>ip \<in> set ips. \<not> allowIP p ip then Refuse ReasonMixedDNS
              else Resolved ips)"

lemma dial_Refuse:
  assumes "egress_verdict nl p lookup host = Refuse r"
  shows "\<exists>e d. egress_dial nl p lookup base sub network host port = (Inl (Blocked e), egress_emit p d, []) \<and>
           be_Reason e = r \<and> be_Subsystem e = sub \<and> ed_Block d = Some r"
  using assms
  by (auto simp: egress_verdict_def egress_dial_def egress_block_def block_decision_def Let_def
      count_answers_case all_allowed_iff filter_empty_conv
      split: if_splits option.splits sum.splits)

lemma dial_AsGiven:
  assumes "egress_verdict nl p lookup host = AsGiven"
  shows "\<exists>ds. egress_dial nl p lookup base sub network host port =
           (base_result (base 0 network (JoinHostPort host port)), ds, [JoinHostPort host port])"
  using assms
  by (auto simp: egress_verdict_def egress_dial_def Let_def split: if_splits option.splits sum.splits)

lemma dial_NoLookup:
  assumes "egress_verdict nl p lookup host = NoLookup er"
  shows "egress_dial nl p lookup base sub network host port = (Inl (LookupFailed er), [], [])"
  using assms
  by (auto simp: egress_verdict_def egress_dial_def Let_def split: if_splits option.splits sum.splits)

lemma dial_Resolved:
  assumes "egress_verdict nl p lookup host = Resolved ips"
    and "addrs = map (\<lambda>ip. JoinHostPort (nl_IP_String nl ip) port) ips"
  shows "(\<forall>ip \<in> set ips. allowIP p ip) \<and> ips \<noteq> [] \<and> lookup (normalizeDialHost nl host) = Inr ips \<and>
         (\<exists>ds. egress_dial nl p lookup base sub network host port =
           ((case dial_each base network 0 None addrs of (Inr c, _) \<Rightarrow> Inr c
             | (Inl er, _) \<Rightarrow> Inl (DialFailed (the er))), ds, snd (dial_each base network 0 None addrs)))"
  using assms dial_each_None [of base network 0 None addrs]
  by (auto simp: egress_verdict_def egress_dial_def Let_def count_answers_case all_allowed_iff
      filter_empty_conv
      split: if_splits option.splits sum.splits prod.splits)

text \<open>C34: Outbound calls reach only what the configured allow-list names. Every address that a
  guarded dial hands to the network is either the destination as given, where its normal form is
  an address inside a listed network or a name matched by a listed rule, or one of the answers
  of the resolver for a name that is not listed, and then every answer of the resolver lies
  inside a listed network, so that a DNS record mixing listed and unlisted addresses is never
  dialled. A blocked dial connects nowhere.\<close>

theorem egress_dials_only_listed:
  assumes "egress_New nl cfg ob = Inr (Some p)"
    and "egress_dial nl p lookup base sub network host port = (res, ds, dialled)"
  shows "(\<forall>a \<in> set dialled.
           a = JoinHostPort host port \<and>
             (case nl_ParseIP nl (normalizeDialHost nl host) of
                Some ip \<Rightarrow> \<exists>raw \<in> set (ec_Allow cfg). entry_lists_ip nl raw ip
              | None \<Rightarrow> \<exists>raw \<in> set (ec_Allow cfg). entry_lists_host nl raw (normalizeDialHost nl host)) \<or>
           (\<exists>ips. lookup (normalizeDialHost nl host) = Inr ips \<and>
              (\<forall>ip \<in> set ips. \<exists>raw \<in> set (ec_Allow cfg). entry_lists_ip nl raw ip) \<and>
              (\<exists>ip \<in> set ips. a = JoinHostPort (nl_IP_String nl ip) port))) \<and>
         ((\<exists>e. res = Inl (Blocked e)) \<longrightarrow> dialled = [])"
proof (cases "egress_verdict nl p lookup host")
  case (Refuse r)
  with dial_Refuse [OF Refuse, of base sub network port] assms(2) show ?thesis by auto
next
  case AsGiven
  have "case nl_ParseIP nl (normalizeDialHost nl host) of
          Some ip \<Rightarrow> allowIP p ip | None \<Rightarrow> allowHost p (normalizeDialHost nl host)"
    using AsGiven by (auto simp: egress_verdict_def Let_def split: if_splits option.splits sum.splits)
  with dial_AsGiven [OF AsGiven, of base sub network port] assms(2) show ?thesis
    using allowIP_listed [OF assms(1)] allowHost_listed [OF assms(1)]
    by (auto simp: base_result_def split: option.splits sum.splits)
next
  case (Resolved ips)
  let ?addrs = "map (\<lambda>ip. JoinHostPort (nl_IP_String nl ip) port) ips"
  note R = dial_Resolved [OF Resolved refl, of base sub network port]
  have "dialled = snd (dial_each base network 0 None ?addrs)" "\<nexists>e. res = Inl (Blocked e)"
    using R assms(2) by (auto split: sum.splits prod.splits)
  with dial_each_sub [of base network 0 None ?addrs] show ?thesis
    using R allowIP_listed [OF assms(1)] by (auto simp: image_def)
next
  case (NoLookup er)
  with dial_NoLookup [OF NoLookup, of base sub network port] assms(2) show ?thesis by auto
qed

definition sample_netlib :: netlib where
  "sample_netlib =
     \<lparr>nl_ParseIP = map_of [(''10.0.0.7'', v4InV6Prefix @ [10, 0, 0, 7]), (''169.254.169.254'', v4InV6Prefix @ [169, 254, 169, 254])],
      nl_ParseCIDR = map_of [(''10.0.0.5/8'', ([10, 0, 0, 5], [0xFF, 0, 0, 0]))],
      nl_IP_String = (\<lambda>ip. if ip = [10, 0, 0, 7] \<or> ip = v4InV6Prefix @ [10, 0, 0, 7] then ''10.0.0.7'' else ''169.254.169.254''),
      nl_IPNet_String = (\<lambda>n. ''10.0.0.0/8''),
      nl_without_zone = (\<lambda>_. None),
      nl_ToASCII = (\<lambda>_. None), nl_ToLower = (\<lambda>s. s), nl_TrimSpace = (\<lambda>s. s)\<rparr>"

definition sample_egress :: EgressConfig where
  "sample_egress = \<lparr>ec_Enabled = True, ec_Allow = ['' 10.0.0.5/8'', ''.Idp.example.'']\<rparr>"

definition sample_egress_policy :: egress_Policy where
  "sample_egress_policy =
     \<lparr>ep_hosts = [\<lparr>hr_value = ''idp.example'', hr_suffix = True\<rparr>],
      ep_cidrs = [([10, 0, 0, 0], [0xFF, 0, 0, 0])], ep_observe = True\<rparr>"

definition sample_answers :: "string \<Rightarrow> string + net_IP list" where
  "sample_answers host =
     (if host = ''mixed'' then Inr [[10, 0, 0, 7], [169, 254, 169, 254]] else Inr [[10, 0, 0, 7]])"

definition sample_dialer :: "nat \<Rightarrow> string \<Rightarrow> string \<Rightarrow> string + string" where
  "sample_dialer n network addr = Inr addr"

lemma sample_egress_New: "egress_New sample_netlib sample_egress True = Inr (Some sample_egress_policy)"
  by code_simp

theorem egress_dials_only_listed_witness:
  "egress_New sample_netlib sample_egress True = Inr (Some sample_egress_policy) \<and>
   egress_dial sample_netlib sample_egress_policy sample_answers sample_dialer ''auth'' ''tcp'' ''db.corp'' ''443''
     = (Inr ''10.0.0.7:443'',
        [\<lparr>ed_Subsystem = ''auth'', ed_Block = None, ed_Host = ''db.corp'', ed_IP = [], ed_DNSAnswers = 1\<rparr>],
        [''10.0.0.7:443'']) \<and>
   (\<exists>ips. sample_answers (normalizeDialHost sample_netlib ''db.corp'') = Inr ips \<and>
     (\<forall>ip \<in> set ips. \<exists>raw \<in> set (ec_Allow sample_egress). entry_lists_ip sample_netlib raw ip))"
proof -
  have dial: "egress_dial sample_netlib sample_egress_policy sample_answers sample_dialer ''auth'' ''tcp'' ''db.corp'' ''443''
     = (Inr ''10.0.0.7:443'',
        [\<lparr>ed_Subsystem = ''auth'', ed_Block = None, ed_Host = ''db.corp'', ed_IP = [], ed_DNSAnswers = 1\<rparr>],
        [''10.0.0.7:443''])"
    by code_simp
  have "JoinHostPort ''db.corp'' ''443'' \<noteq> ''10.0.0.7:443''" by code_simp
  with egress_dials_only_listed [OF sample_egress_New dial] sample_egress_New dial show ?thesis by auto
qed

text \<open>A rebinding record is refused, and so is the address of a metadata service.\<close>

lemma sample_blocks:
  "fst (egress_dial sample_netlib sample_egress_policy sample_answers sample_dialer ''auth'' ''tcp'' ''mixed'' ''443'')
     = Inl (Blocked \<lparr>be_Subsystem = ''auth'', be_Host = ''mixed'', be_IP = ''169.254.169.254'', be_Reason = ReasonMixedDNS\<rparr>)"
  "fst (egress_dial sample_netlib sample_egress_policy sample_answers sample_dialer ''auth'' ''tcp'' ''169.254.169.254'' ''80'')
     = Inl (Blocked \<lparr>be_Subsystem = ''auth'', be_Host = ''169.254.169.254'', be_IP = ''169.254.169.254'', be_Reason = ReasonIPNotAllowed\<rparr>)"
  by code_simp+

text \<open>The decision is taken on the name up to a percent sign, but the name handed to the dialer
  is the one that was given.\<close>

lemma cut_name_dialled:
  "egress_dial sample_netlib sample_egress_policy sample_answers sample_dialer ''auth'' ''tcp'' ''a.idp.example%.corp'' ''443''
     = (Inr ''a.idp.example%.corp:443'',
        [\<lparr>ed_Subsystem = ''auth'', ed_Block = None, ed_Host = ''a.idp.example'', ed_IP = [], ed_DNSAnswers = 0\<rparr>],
        [''a.idp.example%.corp:443''])"
  by code_simp

subsection \<open>Refusal before dispatch\<close>

text \<open>The check of a request URL refuses what the dial would refuse, with the same error and
  the same report, and nothing that the dial would let through.\<close>

lemma staticBlock_agrees:
  "staticBlock nl p sub host = Some be \<Longrightarrow>
   egress_dial nl p lookup base sub network host port = guarded_RoundTrip nl p sub host next"
  by (auto simp: staticBlock_def guarded_RoundTrip_def egress_dial_def egress_block_def block_decision_def Let_def
      split: if_splits option.splits)

lemma staticBlock_None_iff:
  "staticBlock nl p sub host = None \<longleftrightarrow>
   (\<forall>r. egress_verdict nl p lookup host = Refuse r \<longrightarrow>
      r \<noteq> ReasonInvalidAddress \<and> r \<noteq> ReasonIPNotAllowed)"
  by (auto simp: staticBlock_def egress_verdict_def Let_def split: if_splits option.splits sum.splits)

end
