(* ===== verification/Egress_Gen.thy ===== *)
theory Egress_Gen
  imports Egress "HOL-Library.AList"
begin

text \<open>
  \<^verbatim>\<open>src/internal/egress/generation.go\<close>: the policy generations of a process and the
  connection pools they own, and the rate limit of the block log
  (\<^verbatim>\<open>src/internal/egress/blocklog.go\<close>).
\<close>

subsection \<open>Signatures\<close>

definition NUL :: char where
  "NUL = CHR 0x00"

definition policy_parts :: "netlib \<Rightarrow> egress_Policy \<Rightarrow> string list" where
  "policy_parts nl p =
     map (\<lambda>r. (if hr_suffix r then ''suffix:'' else ''host:'') @ hr_value r) (ep_hosts p) @
     map (\<lambda>n. ''cidr:'' @ nl_IPNet_String nl n) (ep_cidrs p)"

definition policySignature :: "netlib \<Rightarrow> egress_Policy option \<Rightarrow> string" where
  "policySignature nl po =
     (case po of
        None \<Rightarrow> ''disabled''
      | Some p \<Rightarrow> ''enabled'' @ [NUL] @ Join (sort (policy_parts nl p)) NUL)"

subsection \<open>Generations\<close>

text \<open>A round tripper is the guard it enforces: nothing for the plain transport of a disabled
  policy.\<close>

type_synonym round_tripper = "(egress_Policy \<times> string) option"

record Generation =
  gn_id :: uint64
  gn_policy :: "egress_Policy option"
  gn_signature :: string
  gn_http :: "string \<rightharpoonup> round_tripper"

record egress_Manager =
  em_observer :: bool
  em_nextID :: uint64
  em_current :: "Generation option"

datatype manager_error = CompileError egress_error | NoGeneration

definition newGeneration :: "netlib \<Rightarrow> uint64 \<Rightarrow> egress_Policy option \<Rightarrow> Generation" where
  "newGeneration nl gid po =
     \<lparr>gn_id = gid, gn_policy = po, gn_signature = policySignature nl po, gn_http = Map.empty\<rparr>"

definition NewManager :: "netlib \<Rightarrow> EgressConfig \<Rightarrow> bool \<Rightarrow> manager_error + egress_Manager" where
  "NewManager nl cfg observer =
     (case egress_New nl cfg observer of
        Inl er \<Rightarrow> Inl (CompileError er)
      | Inr po \<Rightarrow> Inr \<lparr>em_observer = observer, em_nextID = 1, em_current = Some (newGeneration nl 1 po)\<rparr>)"

definition manager_Prepare ::
  "netlib \<Rightarrow> egress_Manager \<Rightarrow> EgressConfig \<Rightarrow> egress_Manager \<times> (manager_error + Generation \<times> bool)" where
  "manager_Prepare nl m cfg =
     (case egress_New nl cfg (em_observer m) of
        Inl er \<Rightarrow> (m, Inl (CompileError er))
      | Inr po \<Rightarrow>
          (case em_current m of
             Some cur \<Rightarrow>
               if gn_signature cur = policySignature nl po then (m, Inr (cur, False))
               else (m\<lparr>em_nextID := em_nextID m + 1\<rparr>, Inr (newGeneration nl (em_nextID m + 1) po, True))
           | None \<Rightarrow>
               (m\<lparr>em_nextID := em_nextID m + 1\<rparr>, Inr (newGeneration nl (em_nextID m + 1) po, True))))"

definition manager_Publish ::
  "egress_Manager \<Rightarrow> Generation option \<Rightarrow> egress_Manager \<times> Generation option" where
  "manager_Publish m go =
     (case go of None \<Rightarrow> (m, None) | Some g \<Rightarrow> (m\<lparr>em_current := Some g\<rparr>, em_current m))"

definition generation_For :: "Generation option \<Rightarrow> string \<Rightarrow> (egress_Policy \<times> string) option" where
  "generation_For go subsystem =
     (case go of None \<Rightarrow> None
      | Some g \<Rightarrow> (case gn_policy g of None \<Rightarrow> None | Some p \<Rightarrow> Some (p, subsystem)))"

definition roundTripper :: "Generation \<Rightarrow> string \<Rightarrow> Generation \<times> round_tripper" where
  "roundTripper g subsystem =
     (case gn_http g subsystem of
        Some rt \<Rightarrow> (g, rt)
      | None \<Rightarrow>
          (let rt = (case gn_policy g of None \<Rightarrow> None | Some p \<Rightarrow> Some (p, subsystem)) in
           (g\<lparr>gn_http := (gn_http g)(subsystem \<mapsto> rt)\<rparr>, rt)))"

definition dynamic_RoundTrip :: "egress_Manager \<Rightarrow> string \<Rightarrow> egress_Manager \<times> (manager_error + round_tripper)" where
  "dynamic_RoundTrip m subsystem =
     (case em_current m of
        None \<Rightarrow> (m, Inl NoGeneration)
      | Some g \<Rightarrow>
          (case roundTripper g subsystem of (g', rt) \<Rightarrow> (m\<lparr>em_current := Some g'\<rparr>, Inr rt)))"

subsection \<open>Runs\<close>

text \<open>The process: the manager and the generations its callers hold, prepared candidates and
  replaced ones alike. Any of them may be published, in any order.\<close>

record egress_proc =
  pr_manager :: egress_Manager
  pr_held :: "Generation list"

datatype egress_event = Reload EgressConfig | PublishHeld nat | Exchange string

definition egress_exec :: "netlib \<Rightarrow> egress_proc \<Rightarrow> egress_event \<Rightarrow> egress_proc" where
  "egress_exec nl s ev =
     (case ev of
        Reload cfg \<Rightarrow>
          (case manager_Prepare nl (pr_manager s) cfg of
             (m, Inr (g, True)) \<Rightarrow> s\<lparr>pr_manager := m, pr_held := pr_held s @ [g]\<rparr>
           | (m, _) \<Rightarrow> s\<lparr>pr_manager := m\<rparr>)
      | PublishHeld i \<Rightarrow>
          if i < length (pr_held s) then
            (case manager_Publish (pr_manager s) (Some (pr_held s ! i)) of
               (m, Some old) \<Rightarrow> s\<lparr>pr_manager := m, pr_held := (pr_held s)[i := old]\<rparr>
             | (m, None) \<Rightarrow> s\<lparr>pr_manager := m\<rparr>)
          else s
      | Exchange sub \<Rightarrow> s\<lparr>pr_manager := fst (dynamic_RoundTrip (pr_manager s) sub)\<rparr>)"

text \<open>The generation a run published last: the one the caller held and passed to the last
  publication, or the given one when there was none.\<close>

fun last_published :: "netlib \<Rightarrow> egress_proc \<Rightarrow> Generation \<Rightarrow> egress_event list \<Rightarrow> Generation" where
  "last_published nl s g [] = g"
| "last_published nl s g (ev # evs) =
     last_published nl (egress_exec nl s ev)
       (case ev of PublishHeld i \<Rightarrow> if i < length (pr_held s) then pr_held s ! i else g | _ \<Rightarrow> g) evs"

definition generation_ok :: "netlib \<Rightarrow> Generation \<Rightarrow> bool" where
  "generation_ok nl g \<longleftrightarrow>
     gn_signature g = policySignature nl (gn_policy g) \<and>
     (\<forall>sub rt. gn_http g sub = Some rt \<longrightarrow> rt = generation_For (Some g) sub) \<and>
     (\<exists>cfg ob. egress_New nl cfg ob = Inr (gn_policy g))"

definition proc_inv :: "netlib \<Rightarrow> egress_proc \<Rightarrow> bool" where
  "proc_inv nl s \<longleftrightarrow>
     (\<exists>g. em_current (pr_manager s) = Some g \<and> generation_ok nl g) \<and>
     (\<forall>g \<in> set (pr_held s). generation_ok nl g)"

lemma newGeneration_ok: "egress_New nl cfg ob = Inr po \<Longrightarrow> generation_ok nl (newGeneration nl i po)"
  by (auto simp: generation_ok_def newGeneration_def)

lemma roundTripper_ok:
  assumes "generation_ok nl g"
  shows "generation_ok nl (fst (roundTripper g sub)) \<and> gn_policy (fst (roundTripper g sub)) = gn_policy g \<and>
         snd (roundTripper g sub) = generation_For (Some g) sub"
  using assms by (auto simp: roundTripper_def generation_ok_def generation_For_def Let_def split: option.splits)

interpretation egress_runs: event_machine "egress_exec nl" "proc_inv nl" for nl
proof unfold_locales
  fix s ev
  assume inv: "proc_inv nl s"
  then obtain g where g: "em_current (pr_manager s) = Some g" "generation_ok nl g"
    and held: "\<forall>g \<in> set (pr_held s). generation_ok nl g" by (auto simp: proc_inv_def)
  show "proc_inv nl (egress_exec nl s ev)"
  proof (cases ev)
    case (Reload cfg)
    with g held show ?thesis
      by (auto simp: proc_inv_def egress_exec_def manager_Prepare_def
          split: sum.splits if_splits bool.splits intro: newGeneration_ok)
  next
    case (PublishHeld i)
    with g held show ?thesis
      by (auto simp: proc_inv_def egress_exec_def manager_Publish_def dest: set_update_subset_insert [THEN subsetD])
  next
    case (Exchange sub)
    with g held roundTripper_ok [OF g(2), of sub] show ?thesis
      by (auto simp: proc_inv_def egress_exec_def dynamic_RoundTrip_def split: prod.splits)
  qed
qed

subsection \<open>Equal signatures, equal decisions\<close>

definition same_decisions :: "egress_Policy option \<Rightarrow> egress_Policy option \<Rightarrow> bool" where
  "same_decisions po qo \<longleftrightarrow>
     (case (po, qo) of
        (None, None) \<Rightarrow> True
      | (Some p, Some q) \<Rightarrow> (\<forall>host. allowHost p host = allowHost q host) \<and> (\<forall>ip. allowIP p ip = allowIP q ip)
      | _ \<Rightarrow> False)"

lemma hostRule_eqI: "hr_value (r :: hostRule) = hr_value s \<Longrightarrow> hr_suffix r = hr_suffix s \<Longrightarrow> r = s"
  by simp

lemma host_part_mem:
  "(if hr_suffix r then ''suffix:'' else ''host:'') @ hr_value r \<in> set (policy_parts nl p) \<longleftrightarrow> r \<in> set (ep_hosts p)"
  by (auto simp: policy_parts_def split: if_splits dest: hostRule_eqI)

lemma cidr_part_mem:
  "''cidr:'' @ s \<in> set (policy_parts nl p) \<longleftrightarrow> s \<in> nl_IPNet_String nl ` set (ep_cidrs p)"
  by (auto simp: policy_parts_def split: if_splits)

text \<open>A part is read back from the joined text by the colon in its first piece: the value of a
  host rule holds no colon, and the text of a network no NUL byte.\<close>

definition marked_group :: "string list \<Rightarrow> bool" where
  "marked_group g \<longleftrightarrow> g \<noteq> [] \<and> CHR '':'' \<in> set (hd g) \<and> (\<forall>x \<in> set (tl g). CHR '':'' \<notin> set x)"

lemma marked_takeWhile:
  assumes "marked_group g" and "\<forall>h \<in> set gs. marked_group h"
  shows "takeWhile (\<lambda>x. CHR '':'' \<notin> set x) (tl (concat (g # gs))) = tl g"
proof -
  have "takeWhile (\<lambda>x. CHR '':'' \<notin> set x) (concat gs) = []"
  proof (cases gs)
    case (Cons h hs)
    with assms(2) show ?thesis by (cases h) (auto simp: marked_group_def)
  qed simp
  with assms(1) show ?thesis by (cases g) (auto simp: marked_group_def takeWhile_append2)
qed

lemma marked_groups_unique:
  "concat gs = concat hs \<Longrightarrow> \<forall>g \<in> set gs \<union> set hs. marked_group g \<Longrightarrow> gs = hs"
proof (induction gs arbitrary: hs)
  case Nil
  then show ?case by (cases hs) (auto simp: marked_group_def)
next
  case (Cons g gs)
  from Cons.prems obtain h hs' where hs: "hs = h # hs'" by (cases hs) (auto simp: marked_group_def)
  have "takeWhile (\<lambda>x. CHR '':'' \<notin> set x) (tl (concat (g # gs))) = tl g"
    by (rule marked_takeWhile) (use Cons.prems(2) in auto)
  moreover have "takeWhile (\<lambda>x. CHR '':'' \<notin> set x) (tl (concat (h # hs'))) = tl h"
    by (rule marked_takeWhile) (use Cons.prems(2) hs in auto)
  ultimately have "tl g = tl h" using Cons.prems(1) unfolding hs by metis
  moreover have ne: "g \<noteq> []" "h \<noteq> []" using Cons.prems(2) by (auto simp: hs marked_group_def)
  moreover from ne have "hd g = hd h" using arg_cong [OF Cons.prems(1), of hd] by (simp add: hs)
  ultimately have "g = h" by (metis list.collapse)
  then show ?case using Cons.IH [of hs'] Cons.prems unfolding hs by auto
qed

lemma Split_Join_concat: "ss \<noteq> [] \<Longrightarrow> Split (Join ss c) c = concat (map (\<lambda>s. Split s c) ss)"
proof (induction ss c rule: Join.induct)
  case (3 s t ss c)
  have "Split (s @ c # r) c = Split s c @ Split r c" for r
    by (induction s) (auto split: list.splits)
  with 3 show ?case by simp
qed simp_all

lemma Split_hd_prefix: "c \<notin> set a \<Longrightarrow> hd (Split (a @ s) c) = a @ hd (Split s c) \<and> tl (Split (a @ s) c) = tl (Split s c)"
  by (induction a) (auto split: list.splits)

lemma Split_sub: "x \<in> set (Split s c) \<Longrightarrow> set x \<subseteq> set s"
proof (induction s arbitrary: x)
  case (Cons a s)
  obtain p ps where "Split s c = p # ps" by (cases "Split s c") auto
  with Cons.IH [of p] Cons.IH [of x] Cons.prems show ?case by (auto split: if_splits)
qed simp

lemma part_marked:
  assumes "\<And>n. NUL \<notin> set (nl_IPNet_String nl n)" and "\<forall>r \<in> set (ep_hosts p). CHR '':'' \<notin> set (hr_value r)"
    and "part \<in> set (policy_parts nl p)"
  shows "marked_group (Split part NUL)"
proof -
  have gen: "marked_group (Split (a @ v) NUL)"
    if "CHR '':'' \<in> set a" "NUL \<notin> set a" "CHR '':'' \<notin> set v \<or> NUL \<notin> set v" for a v
  proof -
    have "\<forall>x \<in> set (tl (Split v NUL)). CHR '':'' \<notin> set x"
    proof
      fix x
      assume x: "x \<in> set (tl (Split v NUL))"
      then have "x \<in> set (Split v NUL)" by (cases "Split v NUL") auto
      with Split_sub [OF this] x that(3) show "CHR '':'' \<notin> set x" by (auto simp: Split_id)
    qed
    with that(1) Split_hd_prefix [OF that(2), of v] show ?thesis by (auto simp: marked_group_def)
  qed
  from assms(3) consider (host) r where "r \<in> set (ep_hosts p)" "part = ''host:'' @ hr_value r"
    | (suffix) r where "r \<in> set (ep_hosts p)" "part = ''suffix:'' @ hr_value r"
    | (cidr) n where "part = ''cidr:'' @ nl_IPNet_String nl n"
    by (fastforce simp: policy_parts_def split: if_splits)
  then show ?thesis
  proof cases
    case host
    with gen [of "''host:''" "hr_value r"] assms(2) show ?thesis by (simp add: NUL_def)
  next
    case suffix
    with gen [of "''suffix:''" "hr_value r"] assms(2) show ?thesis by (simp add: NUL_def)
  next
    case cidr
    with gen [of "''cidr:''" "nl_IPNet_String nl n"] assms(1) show ?thesis by (simp add: NUL_def)
  qed
qed

lemma New_no_colon:
  assumes "egress_New nl cfg ob = Inr (Some p)" and "r \<in> set (ep_hosts p)"
  shows "CHR '':'' \<notin> set (hr_value r)"
  using assms(1)
proof (rule egress_New_Some)
  fix q
  assume q: "add_allow nl [] [] \<lparr>ep_hosts = [], ep_cidrs = [], ep_observe = False\<rparr> (ec_Allow cfg) = Inr q"
    and p: "p = q\<lparr>ep_observe := ob\<rparr>"
  from assms(2) p have "r \<in> set (ep_hosts q)" by simp
  with add_allow_sound [OF q] obtain raw where "parseEntry nl raw = EntryHost r" by auto
  then have "validateHostname (hr_value r) = None"
    by (auto simp: parseEntry_def Let_def split: if_splits option.splits sum.splits)
  then show ?thesis by (auto simp: validateHostname_def host_forbidden_def list_ex_iff split: if_splits)
qed

lemma signature_parts:
  assumes sig: "policySignature nl (Some p) = policySignature nl (Some q)"
    and nul: "\<And>n. NUL \<notin> set (nl_IPNet_String nl n)"
    and hosts: "\<forall>r \<in> set (ep_hosts p) \<union> set (ep_hosts q). CHR '':'' \<notin> set (hr_value r)"
    and ne: "policy_parts nl p \<noteq> []" "policy_parts nl q \<noteq> []"
  shows "set (policy_parts nl p) = set (policy_parts nl q)"
proof -
  let ?p = "sort (policy_parts nl p)" and ?q = "sort (policy_parts nl q)"
  have ne': "?p \<noteq> []" "?q \<noteq> []" using ne by (simp_all flip: length_greater_0_conv)
  have "Join ?p NUL = Join ?q NUL" using sig by (simp add: policySignature_def)
  then have "concat (map (\<lambda>s. Split s NUL) ?p) = concat (map (\<lambda>s. Split s NUL) ?q)"
    using Split_Join_concat [OF ne'(1), of NUL] Split_Join_concat [OF ne'(2), of NUL] by metis
  then have "map (\<lambda>s. Split s NUL) ?p = map (\<lambda>s. Split s NUL) ?q"
  proof (rule marked_groups_unique)
    show "\<forall>g \<in> set (map (\<lambda>s. Split s NUL) ?p) \<union> set (map (\<lambda>s. Split s NUL) ?q). marked_group g"
      using part_marked [OF nul] hosts by fastforce
  qed
  then have "map (\<lambda>ss. Join ss NUL) (map (\<lambda>s. Split s NUL) ?p) = map (\<lambda>ss. Join ss NUL) (map (\<lambda>s. Split s NUL) ?q)"
    by (rule arg_cong)
  then have "?p = ?q" by (simp add: Join_Split o_def)
  then show ?thesis by (metis set_sort)
qed

lemma signature_same_decisions:
  assumes sig: "policySignature nl po = policySignature nl qo"
    and nul: "\<And>n. NUL \<notin> set (nl_IPNet_String nl n)"
    and new: "egress_New nl c1 o1 = Inr po" "egress_New nl c2 o2 = Inr qo"
    and str: "\<And>m n ip. nl_IPNet_String nl m = nl_IPNet_String nl n \<Longrightarrow> net_Contains m ip = net_Contains n ip"
  shows "same_decisions po qo"
proof (cases po; cases qo)
  fix p q
  assume po: "po = Some p" and qo: "qo = Some q"
  have "policy_parts nl p \<noteq> []" "policy_parts nl q \<noteq> []"
    using new unfolding po qo by (auto elim!: egress_New_Some simp: policy_parts_def)
  with sig nul have parts: "set (policy_parts nl p) = set (policy_parts nl q)"
    unfolding po qo using New_no_colon new unfolding po qo by (intro signature_parts) blast+
  have hosts: "set (ep_hosts p) = set (ep_hosts q)"
    using host_part_mem [of _ nl p] host_part_mem [of _ nl q] parts by blast
  have cidrs: "nl_IPNet_String nl ` set (ep_cidrs p) = nl_IPNet_String nl ` set (ep_cidrs q)"
    using cidr_part_mem [of _ nl p] cidr_part_mem [of _ nl q] parts by blast
  have "(\<exists>n \<in> set (ep_cidrs p). net_Contains n ip) = (\<exists>n \<in> set (ep_cidrs q). net_Contains n ip)" for ip
  proof -
    have "(\<exists>n \<in> S. net_Contains n ip) \<longleftrightarrow> (\<exists>s \<in> nl_IPNet_String nl ` S. \<exists>n. nl_IPNet_String nl n = s \<and> net_Contains n ip)" for S
      using str by blast
    then show ?thesis by (simp only: cidrs)
  qed
  with hosts show ?thesis by (simp add: po qo same_decisions_def allowHost_def allowIP_def list_ex_iff)
qed (use sig in \<open>auto simp: policySignature_def same_decisions_def\<close>)

text \<open>The generation in force and the one published last are the same up to the pools that
  exchanges have opened in it.\<close>

definition same_generation :: "Generation \<Rightarrow> Generation \<Rightarrow> bool" where
  "same_generation g h \<longleftrightarrow> gn_id g = gn_id h \<and> gn_policy g = gn_policy h \<and> gn_signature g = gn_signature h"

lemma roundTripper_same: "same_generation (fst (roundTripper g sub)) g"
  by (simp add: roundTripper_def same_generation_def Let_def split: option.splits)

lemma exec_published:
  assumes "em_current (pr_manager s) = Some cur" and "same_generation cur g"
  shows "\<exists>cur'. em_current (pr_manager (egress_exec nl s ev)) = Some cur' \<and>
           same_generation cur'
             (case ev of PublishHeld i \<Rightarrow> if i < length (pr_held s) then pr_held s ! i else g | _ \<Rightarrow> g)"
proof (cases ev)
  case (Reload cfg)
  then show ?thesis
    using assms by (auto simp: egress_exec_def manager_Prepare_def split: sum.splits if_splits)
next
  case (PublishHeld i)
  then show ?thesis
    using assms by (auto simp: egress_exec_def manager_Publish_def same_generation_def)
next
  case (Exchange sub)
  then show ?thesis
    using assms roundTripper_same [of cur sub]
    by (auto simp: egress_exec_def dynamic_RoundTrip_def same_generation_def split: prod.splits)
qed

lemma exec_observer: "em_observer (pr_manager (egress_exec nl s ev)) = em_observer (pr_manager s)"
  by (cases ev)
     (auto simp: egress_exec_def manager_Prepare_def manager_Publish_def dynamic_RoundTrip_def
        split: sum.splits option.splits prod.splits)

lemma run_published:
  assumes "em_current (pr_manager s) = Some cur" and "same_generation cur g"
  shows "\<exists>cur'. em_current (pr_manager (foldl (egress_exec nl) s evs)) = Some cur' \<and>
           same_generation cur' (last_published nl s g evs)"
  using assms
proof (induction evs arbitrary: s cur g)
  case (Cons ev evs)
  from exec_published [OF Cons.prems] obtain cur' where
    "em_current (pr_manager (egress_exec nl s ev)) = Some cur'"
    "same_generation cur' (case ev of PublishHeld i \<Rightarrow> if i < length (pr_held s) then pr_held s ! i else g | _ \<Rightarrow> g)"
    by blast
  from Cons.IH [OF this] show ?case by simp
qed auto

text \<open>C35: Reloads of the egress policy are faithful. Whatever sequence of reloads, publications of
  prepared or replaced generations and exchanges a process has gone through, the generation in
  force is the one the last publication was given, or the startup generation when nothing was
  published, and an exchange of a subsystem is sent through the guard of that generation's
  policy, also when it goes through a pool opened earlier. Preparing a configuration leaves the
  current generation in place. The generation it yields decides every name and every
  address as a fresh compilation of that configuration would, also where the code finds the
  signatures equal and keeps the old generation. The text of a network identifies it and holds
  no NUL byte.\<close>

theorem egress_generations_faithful:
  assumes "NewManager nl cfg0 ob = Inr m0" and "egress_New nl cfg0 ob = Inr po0"
    and "s = foldl (egress_exec nl) \<lparr>pr_manager = m0, pr_held = []\<rparr> evs"
    and "pub = last_published nl \<lparr>pr_manager = m0, pr_held = []\<rparr> (newGeneration nl 1 po0) evs"
    and "\<And>m n ip. nl_IPNet_String nl m = nl_IPNet_String nl n \<Longrightarrow> net_Contains m ip = net_Contains n ip"
    and "\<And>n. NUL \<notin> set (nl_IPNet_String nl n)"
    and "manager_Prepare nl (pr_manager s) cfg = (m', Inr (g, changed))"
    and "egress_New nl cfg (em_observer (pr_manager s)) = Inr po"
  shows "(\<exists>cur. em_current (pr_manager s) = Some cur \<and> gn_id cur = gn_id pub \<and> gn_policy cur = gn_policy pub) \<and>
         snd (dynamic_RoundTrip (pr_manager s) sub) = Inr (generation_For (Some pub) sub) \<and>
         em_current m' = em_current (pr_manager s) \<and> same_decisions (gn_policy g) po"
proof -
  have m0: "m0 = \<lparr>em_observer = ob, em_nextID = 1, em_current = Some (newGeneration nl 1 po0)\<rparr>"
    using assms(1,2) by (simp add: NewManager_def)
  from run_published [of "\<lparr>pr_manager = m0, pr_held = []\<rparr>" "newGeneration nl 1 po0" "newGeneration nl 1 po0" nl evs]
  obtain cur where now: "em_current (pr_manager s) = Some cur" "same_generation cur pub"
    by (auto simp: m0 assms(3,4) same_generation_def)
  have "proc_inv nl \<lparr>pr_manager = m0, pr_held = []\<rparr>"
    using assms(2) by (auto simp: proc_inv_def m0 intro: newGeneration_ok)
  then have "proc_inv nl s" unfolding assms(3) by (rule egress_runs.run_inv)
  with now(1) have cur: "generation_ok nl cur" by (auto simp: proc_inv_def)
  then obtain c1 o1 where sig: "gn_signature cur = policySignature nl (gn_policy cur)"
    and c1: "egress_New nl c1 o1 = Inr (gn_policy cur)" by (auto simp: generation_ok_def)
  have "snd (dynamic_RoundTrip (pr_manager s) sub) = Inr (generation_For (Some pub) sub)"
    using roundTripper_ok [OF cur, of sub] now
    by (simp add: dynamic_RoundTrip_def case_prod_beta same_generation_def generation_For_def)
  moreover have "em_current m' = em_current (pr_manager s)"
    using assms(7,8) now(1) by (auto simp: manager_Prepare_def split: if_splits)
  moreover have "same_decisions (gn_policy g) po"
  proof (cases "gn_signature cur = policySignature nl po")
    case True
    then have "g = cur" using assms(7,8) now(1) by (simp add: manager_Prepare_def)
    then show ?thesis
      using signature_same_decisions [OF _ assms(6) c1 assms(8) assms(5)] True sig by simp
  next
    case False
    then have "gn_policy g = po"
      using assms(7,8) now(1) by (auto simp: manager_Prepare_def newGeneration_def)
    then show ?thesis by (auto simp: same_decisions_def split: option.splits)
  qed
  ultimately show ?thesis using now by (auto simp: same_generation_def)
qed

text \<open>Bytes written in unary, so that the text of a network gives back its bytes.\<close>

definition unary_bytes :: "8 word list \<Rightarrow> string" where
  "unary_bytes bs = Join ([] # map (\<lambda>b. replicate (unat b) CHR ''a'') bs) CHR ''.''"

definition unary_netlib :: netlib where
  "unary_netlib = sample_netlib
     \<lparr>nl_IPNet_String := \<lambda>n. Join [unary_bytes (fst n), unary_bytes (snd n)] CHR ''/''\<rparr>"

lemma set_Join: "set (Join ss c) \<subseteq> insert c (\<Union> (set ` set ss))"
  by (induction ss c rule: Join.induct) auto

lemma unary_bytes_inj: "unary_bytes as = unary_bytes bs \<Longrightarrow> as = bs"
proof -
  assume eq: "unary_bytes as = unary_bytes bs"
  let ?segs = "\<lambda>bs :: 8 word list. [] # map (\<lambda>b. replicate (unat b) CHR ''a'') bs"
  have "Split (unary_bytes xs) CHR ''.'' = ?segs xs" for xs
    unfolding unary_bytes_def by (rule Split_Join) auto
  with eq have "map (\<lambda>b. replicate (unat b) CHR ''a'') as = map (\<lambda>b. replicate (unat b) CHR ''a'') bs"
    by (metis list.inject)
  moreover have "inj (\<lambda>b :: 8 word. replicate (unat b) CHR ''a'')"
    by (rule injI) (metis length_replicate unsigned_word_eqI)
  ultimately show ?thesis by (metis inj_map_eq_map)
qed

lemma unary_text: "nl_IPNet_String unary_netlib m = nl_IPNet_String unary_netlib n \<Longrightarrow> m = n"
proof -
  assume eq: "nl_IPNet_String unary_netlib m = nl_IPNet_String unary_netlib n"
  have "Split (nl_IPNet_String unary_netlib k) CHR ''/'' = [unary_bytes (fst k), unary_bytes (snd k)]" for k
  proof -
    have "CHR ''/'' \<notin> set (unary_bytes bs)" for bs
      using set_Join [of "[] # map (\<lambda>b. replicate (unat b) CHR ''a'') bs" "CHR ''.''"]
      by (auto simp: unary_bytes_def)
    then have "Split (Join [unary_bytes (fst k), unary_bytes (snd k)] CHR ''/'') CHR ''/'' = [unary_bytes (fst k), unary_bytes (snd k)]"
      by (intro Split_Join) auto
    then show ?thesis by (simp add: unary_netlib_def)
  qed
  with eq have "unary_bytes (fst m) = unary_bytes (fst n)" "unary_bytes (snd m) = unary_bytes (snd n)"
    by (metis list.inject)+
  then show ?thesis by (simp add: prod_eq_iff unary_bytes_inj)
qed

definition sample_manager :: egress_Manager where
  "sample_manager =
     \<lparr>em_observer = True, em_nextID = 1,
      em_current = Some (newGeneration unary_netlib 1 (Some sample_egress_policy))\<rparr>"

definition sample_reload :: EgressConfig where
  "sample_reload = \<lparr>ec_Enabled = True, ec_Allow = [''.idp.example'', ''10.0.0.5/8'']\<rparr>"

lemma sample_reload_New:
  "egress_New unary_netlib sample_egress True = Inr (Some sample_egress_policy)"
  "egress_New unary_netlib sample_reload True = Inr (Some sample_egress_policy)"
  by code_simp+

lemma unary_no_NUL: "NUL \<notin> set (nl_IPNet_String unary_netlib n)"
proof -
  have "NUL \<notin> set (unary_bytes bs)" for bs
    using set_Join [of "[] # map (\<lambda>b. replicate (unat b) CHR ''a'') bs" "CHR ''.''"]
    by (auto simp: unary_bytes_def NUL_def)
  then show ?thesis by (simp add: unary_netlib_def NUL_def)
qed

lemma sample_manager_simps:
  "em_observer sample_manager = True"
  "em_current sample_manager = Some (newGeneration unary_netlib 1 (Some sample_egress_policy))"
  by (simp_all add: sample_manager_def)

text \<open>The policy is switched off by a reload and an exchange is sent, then the first
  configuration is prepared again.\<close>

definition off_reload :: EgressConfig where
  "off_reload = \<lparr>ec_Enabled = False, ec_Allow = []\<rparr>"

definition sample_events :: "egress_event list" where
  "sample_events = [Reload off_reload, PublishHeld 0, Exchange ''acme'']"

lemma Prepare_ok:
  "egress_New nl cfg (em_observer m) = Inr po \<Longrightarrow> \<exists>m' g changed. manager_Prepare nl m cfg = (m', Inr (g, changed))"
  by (auto simp: manager_Prepare_def split: option.split)

lemma off_reload_exec:
  "egress_exec unary_netlib \<lparr>pr_manager = sample_manager, pr_held = []\<rparr> (Reload off_reload) =
     \<lparr>pr_manager = sample_manager\<lparr>em_nextID := 2\<rparr>, pr_held = [newGeneration unary_netlib 2 None]\<rparr>"
proof -
  have "policySignature unary_netlib (Some sample_egress_policy) \<noteq> policySignature unary_netlib None"
    by (simp add: policySignature_def)
  then show ?thesis
    by (simp add: egress_exec_def manager_Prepare_def egress_New_def off_reload_def sample_manager_def
        newGeneration_def)
qed

theorem egress_generations_faithful_witness:
  "snd (dynamic_RoundTrip
     (pr_manager (foldl (egress_exec unary_netlib) \<lparr>pr_manager = sample_manager, pr_held = []\<rparr> sample_events))
     ''acme'') = Inr None"
proof -
  let ?start = "\<lparr>pr_manager = sample_manager, pr_held = []\<rparr>"
  let ?s = "foldl (egress_exec unary_netlib) ?start sample_events"
  have m: "NewManager unary_netlib sample_egress True = Inr sample_manager"
    by (simp add: NewManager_def sample_reload_New sample_manager_def)
  let ?pub = "last_published unary_netlib ?start (newGeneration unary_netlib 1 (Some sample_egress_policy)) sample_events"
  have pub: "?pub = newGeneration unary_netlib 2 None"
    by (simp add: sample_events_def off_reload_exec)
  have net: "net_Contains m ip = net_Contains n ip"
    if "nl_IPNet_String unary_netlib m = nl_IPNet_String unary_netlib n" for m n ip
    using unary_text [OF that] by simp
  have ob: "em_observer (pr_manager ?s) = True"
    by (simp add: exec_observer sample_events_def sample_manager_def)
  then have po: "egress_New unary_netlib sample_reload (em_observer (pr_manager ?s)) = Inr (Some sample_egress_policy)"
    by (simp add: sample_reload_New)
  obtain m' g changed where prep: "manager_Prepare unary_netlib (pr_manager ?s) sample_reload = (m', Inr (g, changed))"
    using Prepare_ok [OF po] by blast
  from egress_generations_faithful
    [OF m sample_reload_New(1) refl refl net unary_no_NUL prep po, of "''acme''"]
  have "snd (dynamic_RoundTrip (pr_manager ?s) ''acme'') = Inr (generation_For (Some ?pub) ''acme'')" by blast
  with pub show ?thesis by (simp add: generation_For_def newGeneration_def)
qed

subsection \<open>The block log\<close>

type_synonym blockLogKey = "string \<times> string \<times> egress_Reason"

record blockLogger =
  bl_window :: duration
  bl_max :: nat
  bl_last :: "(blockLogKey \<times> nanos) list"

definition blockLogWindow :: duration where
  "blockLogWindow = 60 * second"

definition blockLogMaxKeys :: nat where
  "blockLogMaxKeys = 4096"

definition newBlockLogger :: blockLogger where
  "newBlockLogger = \<lparr>bl_window = blockLogWindow, bl_max = blockLogMaxKeys, bl_last = []\<rparr>"

definition log_allow :: "blockLogger \<Rightarrow> nanos \<Rightarrow> blockLogKey \<Rightarrow> blockLogger \<times> bool" where
  "log_allow b now key =
     (case map_of (bl_last b) key of
        Some t \<Rightarrow>
          if now - t < bl_window b then (b, False)
          else
            (let kept = (if length (bl_last b) \<ge> bl_max b then [] else bl_last b) in
             (b\<lparr>bl_last := AList.update key now kept\<rparr>, True))
      | None \<Rightarrow>
          (let kept = (if length (bl_last b) \<ge> bl_max b then [] else bl_last b) in
           (b\<lparr>bl_last := AList.update key now kept\<rparr>, True)))"

definition log_observe :: "blockLogger \<Rightarrow> nanos \<Rightarrow> egress_Decision \<Rightarrow> blockLogger \<times> bool" where
  "log_observe b now d =
     (case ed_Block d of
        None \<Rightarrow> (b, False)
      | Some reason \<Rightarrow> log_allow b now (ed_Subsystem d, ed_Host d, reason))"

text \<open>The memory of the log is bounded whatever is blocked, and a repeat within the window is
  silent unless the tracker was reset in between.\<close>

definition log_ok :: "blockLogger \<Rightarrow> bool" where
  "log_ok b \<longleftrightarrow> distinct (map fst (bl_last b)) \<and> length (bl_last b) \<le> bl_max b \<and> bl_max b > 0"

interpretation block_log: event_machine "\<lambda>b ev. fst (log_observe b (fst ev) (snd ev))" log_ok
proof unfold_locales
  fix b ev
  assume ok: "log_ok b"
  have len: "length (AList.update k v xs) \<le> Suc (length xs)" for k :: blockLogKey and v :: nanos and xs
    by (induction xs) auto
  have keep: "log_ok (b\<lparr>bl_last := AList.update k v (bl_last b)\<rparr>)" if "\<not> bl_max b \<le> length (bl_last b)" for k v
    using ok that le_trans [OF len [of k v "bl_last b"], of "bl_max b"] by (auto simp: log_ok_def distinct_update)
  have reset: "log_ok (b\<lparr>bl_last := [(k, v)]\<rparr>)" for k v
    using ok by (auto simp: log_ok_def)
  show "log_ok (fst (log_observe b (fst ev) (snd ev)))"
    using ok by (auto simp: log_observe_def log_allow_def Let_def keep reset split: option.splits)
qed

lemma log_repeat_silent:
  assumes "log_allow b t key = (b', True)" and "t' - t < bl_window b"
  shows "log_allow b' t' key = (b', False)"
  using assms by (auto simp: log_allow_def Let_def update_Some_unfold split: option.splits if_splits)

end
