(* ===== verification/Ratelimit.thy ===== *)
theory Ratelimit
  imports Clientaddr Cache_Entry
begin

text \<open>
  \<^verbatim>\<open>src/internal/middleware/ratelimit.go\<close>: the store of token buckets, sharded and
  bounded, the scopes and keys of the buckets, and the middleware that answers 429.

  A bucket itself is \<^verbatim>\<open>rate.Limiter\<close> of golang.org/x/time: the record \<open>ratelib\<close> holds
  its operations on a state of type \<^typ>\<open>'l\<close>, with the clock they read as an argument.
  \<^verbatim>\<open>Reserve\<close> gives the wait of a reservation, or nothing where it is refused. Limits are
  whole requests per second. A shard is one critical section; its entries are kept as an
  association list, the Go map, and its keys from the least recently used to the most. A request
  is one step: the reservation it makes on the bucket it found, after the critical section, is
  taken to come before the next request of the shard. SHA-256 in hexadecimal and the text of an
  address are arguments.
\<close>

subsection \<open>Buckets and shards\<close>

record 'l ratelib =
  rl_NewLimiter :: "int \<Rightarrow> int \<Rightarrow> 'l"
  rl_SetLimit :: "nanos \<Rightarrow> int \<Rightarrow> 'l \<Rightarrow> 'l"
  rl_SetBurst :: "nanos \<Rightarrow> int \<Rightarrow> 'l \<Rightarrow> 'l"
  rl_ReserveN :: "nanos \<Rightarrow> 'l \<Rightarrow> 'l \<times> duration option"
  rl_CancelAt :: "nanos \<Rightarrow> 'l \<Rightarrow> 'l"

record 'l rateLimiterEntry =
  re_lim :: 'l
  re_limit :: int
  re_burst :: int
  re_lastSeen :: nanos

record 'l rateLimiterShard =
  sh_entries :: "(string \<times> 'l rateLimiterEntry) list"
  sh_order :: "string list"

record 'l RateLimiterStore =
  rs_shards :: "'l rateLimiterShard list"
  rs_ttl :: duration

definition rateLimiterShards :: nat where
  "rateLimiterShards = 32"

definition maxLimiterBucketsPerShard :: nat where
  "maxLimiterBucketsPerShard = 4096"

definition NewRateLimiterStore :: "duration \<Rightarrow> 'l RateLimiterStore" where
  "NewRateLimiterStore ttl =
     \<lparr>rs_shards = replicate rateLimiterShards \<lparr>sh_entries = [], sh_order = []\<rparr>,
      rs_ttl = (if ttl \<le> 0 then 600 * second else ttl)\<rparr>"

unbundle bit_operations_syntax

definition fnv_step :: "32 word \<Rightarrow> char \<Rightarrow> 32 word" where
  "fnv_step h c = (h XOR of_nat (of_char c)) * 16777619"

definition shardIndex :: "string \<Rightarrow> nat" where
  "shardIndex key = unat (foldl fnv_step 2166136261 key mod of_nat rateLimiterShards)"

text \<open>The critical section of \<^verbatim>\<open>allow\<close>: find the bucket of a key or make one, in place of the
  least recently used one where the shard is full.\<close>

definition drop_oldest :: "'l rateLimiterShard \<Rightarrow> 'l rateLimiterShard" where
  "drop_oldest sh =
     (if length (sh_entries sh) \<ge> maxLimiterBucketsPerShard
      then \<lparr>sh_entries = AList.delete (hd (sh_order sh)) (sh_entries sh), sh_order = tl (sh_order sh)\<rparr>
      else sh)"

definition retuned :: "'l ratelib \<Rightarrow> nanos \<Rightarrow> int \<Rightarrow> int \<Rightarrow> 'l rateLimiterEntry \<Rightarrow> 'l rateLimiterEntry" where
  "retuned lib now limit burst e =
     (let e1 = (if re_limit e \<noteq> limit
                then e\<lparr>re_lim := rl_SetLimit lib now limit (re_lim e), re_limit := limit\<rparr> else e) in
      if re_burst e1 \<noteq> burst
      then e1\<lparr>re_lim := rl_SetBurst lib now burst (re_lim e1), re_burst := burst\<rparr> else e1)"

definition touch_bucket ::
  "'l ratelib \<Rightarrow> nanos \<Rightarrow> string \<Rightarrow> int \<Rightarrow> int \<Rightarrow> 'l rateLimiterShard \<Rightarrow> 'l rateLimiterShard" where
  "touch_bucket lib now key limit burst sh =
     (case map_of (sh_entries sh) key of
        None \<Rightarrow>
          (let sh1 = drop_oldest sh;
               e = \<lparr>re_lim = rl_NewLimiter lib limit burst, re_limit = limit, re_burst = burst, re_lastSeen = now\<rparr> in
           \<lparr>sh_entries = AList.update key e (sh_entries sh1), sh_order = sh_order sh1 @ [key]\<rparr>)
      | Some e \<Rightarrow>
          \<lparr>sh_entries = AList.update key ((retuned lib now limit burst e)\<lparr>re_lastSeen := now\<rparr>) (sh_entries sh),
           sh_order = filter (\<lambda>k. k \<noteq> key) (sh_order sh) @ [key]\<rparr>)"

text \<open>The reservation on the bucket, outside the lock: a request that would have to wait gives
  its token back.\<close>

definition take_token :: "'l ratelib \<Rightarrow> nanos \<Rightarrow> 'l \<Rightarrow> 'l \<times> bool \<times> duration" where
  "take_token lib now l =
     (case rl_ReserveN lib now l of
        (l1, None) \<Rightarrow> (l1, False, 0)
      | (l1, Some d) \<Rightarrow> if d > 0 then (rl_CancelAt lib now l1, False, d) else (l1, True, 0))"

definition reserve_bucket ::
  "'l ratelib \<Rightarrow> nanos \<Rightarrow> string \<Rightarrow> 'l rateLimiterShard \<Rightarrow> 'l rateLimiterShard \<times> bool \<times> duration" where
  "reserve_bucket lib now key sh =
     (case map_of (sh_entries sh) key of
        None \<Rightarrow> (sh, False, 0)
      | Some e \<Rightarrow>
          (case take_token lib now (re_lim e) of (l, ok, wait) \<Rightarrow>
             (sh\<lparr>sh_entries := AList.update key (e\<lparr>re_lim := l\<rparr>) (sh_entries sh)\<rparr>, ok, wait)))"

definition store_allow ::
  "'l ratelib \<Rightarrow> 'l RateLimiterStore \<Rightarrow> nanos \<Rightarrow> string \<Rightarrow> int \<Rightarrow> int \<Rightarrow> 'l RateLimiterStore \<times> bool \<times> duration" where
  "store_allow lib st now key limit burst =
     (let i = shardIndex key in
      case reserve_bucket lib now key (touch_bucket lib now key limit burst (rs_shards st ! i)) of
        (sh, ok, wait) \<Rightarrow> (st\<lparr>rs_shards := (rs_shards st)[i := sh]\<rparr>, ok, wait))"

definition evict_shard :: "nanos \<Rightarrow> 'l rateLimiterShard \<Rightarrow> 'l rateLimiterShard" where
  "evict_shard cutoff sh =
     (let old = map fst (filter (\<lambda>ke. re_lastSeen (snd ke) < cutoff) (sh_entries sh)) in
      \<lparr>sh_entries = filter (\<lambda>ke. \<not> re_lastSeen (snd ke) < cutoff) (sh_entries sh),
       sh_order = filter (\<lambda>k. k \<notin> set old) (sh_order sh)\<rparr>)"

definition store_evict :: "'l RateLimiterStore \<Rightarrow> nanos \<Rightarrow> 'l RateLimiterStore" where
  "store_evict st now = st\<lparr>rs_shards := map (evict_shard (now - rs_ttl st)) (rs_shards st)\<rparr>"

subsection \<open>Scopes\<close>

definition scope_prefix :: "string \<Rightarrow> string" where
  "scope_prefix scope = FormatUint (length scope) @ '':'' @ scope"

definition scoped_Allow ::
  "'l ratelib \<Rightarrow> 'l RateLimiterStore \<Rightarrow> nanos \<Rightarrow> string \<Rightarrow> int \<Rightarrow> int \<Rightarrow> string \<Rightarrow> 'l RateLimiterStore \<times> bool \<times> duration" where
  "scoped_Allow lib st now scope ratePerSec burst key =
     store_allow lib st now (scope_prefix scope @ key) ratePerSec burst"

subsection \<open>Keys\<close>

record rate_request =
  rr_Header :: hdr
  rr_RemoteAddr :: string
  rr_identity :: "addr_Identity option"
  rr_claims :: "(string \<Rightarrow> string option) option"

text \<open>The address parsers are those of \<^theory_text>\<open>Clientaddr\<close>; \<open>show_addr\<close> is
  \<^verbatim>\<open>netip.Addr.String\<close>.\<close>

record addrlib =
  al_ParseAddr :: "string \<Rightarrow> Addr option"
  al_ParseAddrPort :: "string \<Rightarrow> Addr option"
  al_String :: "Addr \<Rightarrow> string"

definition unattributedKeyPrefix :: string where
  "unattributedKeyPrefix = ''unattributed:''"

definition clientKey :: "addrlib \<Rightarrow> rate_request \<Rightarrow> string" where
  "clientKey al r =
     (let derived = (let addr = request_Client (al_ParseAddr al) (al_ParseAddrPort al) (rr_identity r) (rr_RemoteAddr r) in
                     if IsValid addr then al_String al addr else rr_RemoteAddr r) in
      case rr_identity r of
        Some i \<Rightarrow>
          if \<not> Attributed i then
            (if IsValid (ai_Peer i) then unattributedKeyPrefix @ al_String al (ai_Peer i)
             else unattributedKeyPrefix @ rr_RemoteAddr r)
          else derived
      | None \<Rightarrow> derived)"

definition boundedRateKey :: "(string \<Rightarrow> string) \<Rightarrow> string \<Rightarrow> string" where
  "boundedRateKey sha256hex value = (if length value \<le> 256 then value else ''sha256:'' @ sha256hex value)"

definition RateKeyFunc :: "addrlib \<Rightarrow> (string \<Rightarrow> string) \<Rightarrow> string \<Rightarrow> rate_request \<Rightarrow> string" where
  "RateKeyFunc al sha256hex spec r =
     (if HasPrefix spec ''header:'' then
        (case hdr_Values (rr_Header r) (drop 7 spec) of
           [v] \<Rightarrow> if v \<noteq> [] then boundedRateKey sha256hex v else clientKey al r
         | _ \<Rightarrow> clientKey al r)
      else if HasPrefix spec ''jwt:'' then
        (case rr_claims r of
           None \<Rightarrow> clientKey al r
         | Some claims \<Rightarrow>
             (case claims (drop 4 spec) of
                Some v \<Rightarrow> if v \<noteq> [] then boundedRateKey sha256hex v else clientKey al r
              | None \<Rightarrow> clientKey al r))
      else clientKey al r)"

subsection \<open>The middleware\<close>

text \<open>What becomes of a request: it runs the next handler, or it is answered 429 with or
  without a \<^verbatim>\<open>Retry-After\<close> of whole seconds. Durations are 64-bit, and division rounds
  towards zero.\<close>

datatype rate_outcome = RateNext | TooMany "int option"

definition retry_seconds :: "duration \<Rightarrow> int" where
  "retry_seconds d =
     (let n = wrap64 (d + second - 1);
          secs = (if n \<ge> 0 then n div second else - ((- n) div second)) in
      if secs < 1 then 1 else secs)"

definition rate_answer :: "bool \<Rightarrow> duration \<Rightarrow> rate_outcome" where
  "rate_answer ok retryAfter =
     (if ok then RateNext
      else TooMany (if retryAfter > 0 then Some (retry_seconds retryAfter) else None))"

definition RateLimit ::
  "'l ratelib \<Rightarrow> addrlib \<Rightarrow> (string \<Rightarrow> string) \<Rightarrow> string \<Rightarrow> int \<Rightarrow> int \<Rightarrow> string \<Rightarrow>
   'l RateLimiterStore \<Rightarrow> nanos \<Rightarrow> rate_request \<Rightarrow> 'l RateLimiterStore \<times> rate_outcome" where
  "RateLimit lib al sha256hex scope ratePerSec burst spec st now r =
     (case scoped_Allow lib st now scope ratePerSec burst (RateKeyFunc al sha256hex spec r) of
        (st', ok, retryAfter) \<Rightarrow> (st', rate_answer ok retryAfter))"

subsection \<open>The store stays bounded\<close>

definition shard_ok :: "nat \<Rightarrow> 'l rateLimiterShard \<Rightarrow> bool" where
  "shard_ok i sh \<longleftrightarrow>
     distinct (map fst (sh_entries sh)) \<and> distinct (sh_order sh) \<and>
     set (sh_order sh) = fst ` set (sh_entries sh) \<and>
     length (sh_entries sh) \<le> maxLimiterBucketsPerShard \<and>
     (\<forall>k \<in> set (sh_order sh). shardIndex k = i)"

definition store_ok :: "'l RateLimiterStore \<Rightarrow> bool" where
  "store_ok st \<longleftrightarrow>
     length (rs_shards st) = rateLimiterShards \<and>
     (\<forall>i < rateLimiterShards. shard_ok i (rs_shards st ! i))"

lemma shardIndex_less: "shardIndex key < rateLimiterShards"
proof -
  have "(x :: 32 word) mod 32 < 32" for x by (rule word_mod_less_divisor) simp
  then have "unat ((x :: 32 word) mod 32) < 32" for x by (simp add: word_less_nat_alt)
  then show ?thesis by (simp add: shardIndex_def rateLimiterShards_def)
qed

lemma store_ok_shard: "store_ok st \<Longrightarrow> shard_ok (shardIndex k) (rs_shards st ! shardIndex k)"
  using shardIndex_less [of k] unfolding store_ok_def by blast

lemma order_length: "shard_ok i sh \<Longrightarrow> length (sh_order sh) = length (sh_entries sh)"
  unfolding shard_ok_def by (metis distinct_card length_map set_map)

lemma keys_delete: "fst ` set (AList.delete k es) = fst ` set es - {k}"
  by (simp add: delete_keys set_removeAll flip: set_map)

lemma update_new: "k \<notin> fst ` set es \<Longrightarrow> AList.update k e es = es @ [(k, e)]"
  by (induction es) auto

lemma update_old:
  assumes "map_of es k = Some e0"
  shows "length (AList.update k e es) = length es" and "fst ` set (AList.update k e es) = fst ` set es"
proof -
  have "k \<in> set (map fst es)" using assms by (metis map_of_eq_None_iff not_None_eq set_map)
  then have keys: "map fst (AList.update k e es) = map fst es" by (simp add: update_keys)
  show "length (AList.update k e es) = length es" using arg_cong [OF keys, of length] by simp
  show "fst ` set (AList.update k e es) = fst ` set es" using arg_cong [OF keys, of set] by simp
qed

lemma drop_oldest_ok:
  assumes "shard_ok i sh"
  shows "shard_ok i (drop_oldest sh)" and "length (sh_entries (drop_oldest sh)) < maxLimiterBucketsPerShard"
proof -
  have "shard_ok i (drop_oldest sh) \<and> length (sh_entries (drop_oldest sh)) < maxLimiterBucketsPerShard"
  proof (cases "length (sh_entries sh) \<ge> maxLimiterBucketsPerShard")
    case True
    then have full: "length (sh_order sh) = maxLimiterBucketsPerShard"
      using order_length [OF assms] assms by (simp add: shard_ok_def)
    then obtain k ks where k: "sh_order sh = k # ks"
      by (cases "sh_order sh") (auto simp: maxLimiterBucketsPerShard_def)
    let ?es = "AList.delete k (sh_entries sh)"
    have set_es: "fst ` set ?es = set ks"
      using assms by (auto simp: shard_ok_def k keys_delete)
    have "distinct (map fst ?es)" using assms by (simp add: shard_ok_def distinct_delete)
    then have "length ?es = length ks"
      using set_es assms by (metis distinct.simps(2) distinct_card k length_map list.set_map shard_ok_def)
    with assms True full set_es \<open>distinct (map fst ?es)\<close> show ?thesis
      by (auto simp: drop_oldest_def shard_ok_def k)
  qed (use assms in \<open>auto simp: drop_oldest_def\<close>)
  then show "shard_ok i (drop_oldest sh)" "length (sh_entries (drop_oldest sh)) < maxLimiterBucketsPerShard"
    by auto
qed

lemma touch_bucket_ok:
  assumes "shard_ok i sh" and "shardIndex key = i"
  shows "shard_ok i (touch_bucket lib now key limit burst sh)"
proof (cases "map_of (sh_entries sh) key")
  case None
  then have "key \<notin> set (sh_order sh)" using assms(1) by (simp add: shard_ok_def map_of_eq_None_iff)
  moreover have "set (sh_order (drop_oldest sh)) \<subseteq> set (sh_order sh)"
    by (auto simp: drop_oldest_def dest: list.set_sel(2) [rotated])
      (metis list.set_sel(2) tl_Nil)
  ultimately have new: "key \<notin> set (sh_order (drop_oldest sh))" by blast
  moreover from new have "key \<notin> fst ` set (sh_entries (drop_oldest sh))"
    using drop_oldest_ok(1) [OF assms(1)] by (simp add: shard_ok_def)
  moreover from this have "AList.update key e (sh_entries (drop_oldest sh)) = sh_entries (drop_oldest sh) @ [(key, e)]" for e
    by (rule update_new)
  ultimately show ?thesis
    using drop_oldest_ok [OF assms(1)] assms(2) None
    by (auto simp: touch_bucket_def shard_ok_def Let_def)
next
  case (Some e)
  then have "key \<in> fst ` set (sh_entries sh)" by (metis image_eqI fst_conv map_of_SomeD)
  with Some assms show ?thesis
    by (auto simp: touch_bucket_def shard_ok_def distinct_update update_old)
qed

lemma reserve_bucket_ok:
  assumes "shard_ok i sh"
  shows "shard_ok i (fst (reserve_bucket lib now key sh))"
  using assms
  by (auto simp: reserve_bucket_def shard_ok_def distinct_update update_old split: option.splits prod.splits)

lemma evict_shard_ok:
  assumes "shard_ok i sh"
  shows "shard_ok i (evict_shard cutoff sh)"
proof -
  let ?es = "sh_entries sh" and ?keep = "\<lambda>ke. \<not> re_lastSeen (snd ke) < cutoff"
  have dist: "distinct (map fst ?es)" using assms by (simp add: shard_ok_def)
  have "k \<in> fst ` set (filter ?keep ?es) \<longleftrightarrow> k \<in> fst ` set ?es \<and> k \<notin> fst ` set (filter (\<lambda>ke. \<not> ?keep ke) ?es)" for k
    using dist by (auto simp: image_iff) (metis eq_key_imp_eq_value fst_conv snd_conv prod.collapse)+
  moreover have "length (filter ?keep ?es) \<le> maxLimiterBucketsPerShard"
    by (rule le_trans [OF length_filter_le]) (use assms in \<open>simp add: shard_ok_def\<close>)
  ultimately show ?thesis
    using assms dist by (auto simp: evict_shard_def shard_ok_def Let_def distinct_map_filter)
qed

lemma store_allow_ok:
  assumes "store_ok st"
  shows "store_ok (fst (store_allow lib st now key limit burst))"
proof -
  let ?i = "shardIndex key"
  have "shard_ok ?i (fst (reserve_bucket lib now key (touch_bucket lib now key limit burst (rs_shards st ! ?i))))"
    using assms shardIndex_less [of key] by (intro reserve_bucket_ok touch_bucket_ok) (auto simp: store_ok_def)
  with assms shardIndex_less [of key] show ?thesis
    by (auto simp: store_allow_def store_ok_def Let_def case_prod_beta nth_list_update)
qed

lemma store_evict_ok: "store_ok st \<Longrightarrow> store_ok (store_evict st now)"
  by (auto simp: store_evict_def store_ok_def evict_shard_ok)

text \<open>The events of a store: a request and a sweep of the janitor.\<close>

datatype rate_event =
  RateRequest nanos string int int string
| RateSweep nanos

definition rate_exec :: "'l ratelib \<Rightarrow> 'l RateLimiterStore \<Rightarrow> rate_event \<Rightarrow> 'l RateLimiterStore" where
  "rate_exec lib st ev =
     (case ev of
        RateRequest now scope limit burst key \<Rightarrow> fst (scoped_Allow lib st now scope limit burst key)
      | RateSweep now \<Rightarrow> store_evict st now)"

interpretation rate_store: event_machine "rate_exec lib" store_ok for lib :: "'l ratelib"
proof unfold_locales
  fix st :: "'l RateLimiterStore" and ev
  assume "store_ok st"
  then show "store_ok (rate_exec lib st ev)"
    by (cases ev) (simp_all add: rate_exec_def scoped_Allow_def store_allow_ok store_evict_ok)
qed

lemma NewRateLimiterStore_ok: "store_ok (NewRateLimiterStore ttl)"
  by (auto simp: store_ok_def NewRateLimiterStore_def shard_ok_def)

text \<open>C36: The memory of the rate limiter is bounded whatever keys clients present. In every run
  of requests and sweeps each of the 32 shards holds at most 4096 buckets, so the store at most
  131072, and its recency list holds exactly the keys of its buckets, once each, all of which
  hash to that shard; the bucket evicted from a full shard therefore always exists.\<close>

theorem rate_store_bounded:
  fixes lib :: "'l ratelib" and evs :: "rate_event list" and ttl :: duration
  defines "st \<equiv> foldl (rate_exec lib) (NewRateLimiterStore ttl) evs"
  shows "store_ok st \<and> sum_list (map (\<lambda>sh. length (sh_entries sh)) (rs_shards st)) \<le> 131072"
proof -
  have ok: "store_ok st" unfolding st_def by (intro rate_store.run_inv NewRateLimiterStore_ok)
  then have "\<forall>sh \<in> set (rs_shards st). length (sh_entries sh) \<le> 4096"
    by (auto simp: store_ok_def shard_ok_def in_set_conv_nth maxLimiterBucketsPerShard_def)
  then have "sum_list (map (\<lambda>sh. length (sh_entries sh)) (rs_shards st)) \<le> 4096 * length (rs_shards st)"
    using sum_list_mono [of "rs_shards st" "\<lambda>sh. length (sh_entries sh)" "\<lambda>_. 4096"]
    by (simp add: sum_list_triv)
  with ok show ?thesis by (simp add: store_ok_def rateLimiterShards_def)
qed

subsection \<open>Buckets are independent\<close>

definition bucket_key :: "string \<Rightarrow> string \<Rightarrow> string" where
  "bucket_key scope key = scope_prefix scope @ key"

text \<open>The length in front of the scope delimits it: no other scope and key give the same
  bucket.\<close>

lemma scope_prefix_prefix:
  assumes "scope_prefix s @ k = scope_prefix t @ l"
  shows "s = t \<and> k = l"
proof -
  have free: "CHR '':'' \<notin> set (FormatUint n)" for n
    using digits_FormatUint [of n] by (auto simp: list_all_iff is_digit_def)
  have "FormatUint (length s) @ CHR '':'' # (s @ k) = FormatUint (length t) @ CHR '':'' # (t @ l)"
    using assms by (simp add: scope_prefix_def)
  then have eq: "FormatUint (length s) = FormatUint (length t) \<and> s @ k = t @ l"
    by (rule split_unique [OF free free])
  then have "length s = length t" by (metis decimal_FormatUint)
  with eq show ?thesis by simp
qed

interpretation scope_code: prefix_code scope_prefix
  by unfold_locales (rule scope_prefix_prefix)

definition bucket :: "'l RateLimiterStore \<Rightarrow> string \<Rightarrow> 'l rateLimiterEntry option" where
  "bucket st k = map_of (sh_entries (rs_shards st ! shardIndex k)) k"

lemma retuned_sel [simp]:
  "re_limit (retuned lib now limit burst e) = limit" "re_burst (retuned lib now limit burst e) = burst"
  by (auto simp: retuned_def Let_def)

lemma touch_bucket_self:
  "\<exists>e. map_of (sh_entries (touch_bucket lib now key limit burst sh)) key = Some e \<and>
       re_limit e = limit \<and> re_burst e = burst \<and> re_lastSeen e = now"
  by (auto simp: touch_bucket_def Let_def update_conv' split: option.splits)

lemma touch_bucket_other:
  assumes "k \<noteq> key"
  shows "map_of (sh_entries (touch_bucket lib now key limit burst sh)) k = map_of (sh_entries sh) k \<or>
         map_of (sh_entries sh) key = None \<and> k = hd (sh_order sh) \<and>
         length (sh_entries sh) \<ge> maxLimiterBucketsPerShard \<and>
         map_of (sh_entries (touch_bucket lib now key limit burst sh)) k = None"
  using assms by (auto simp: touch_bucket_def drop_oldest_def Let_def update_conv' delete_conv' split: option.splits)

lemma reserve_bucket_map:
  "map_of (sh_entries (fst (reserve_bucket lib now key sh))) k =
   (if k = key then (case map_of (sh_entries sh) key of None \<Rightarrow> None
                     | Some e \<Rightarrow> Some (e\<lparr>re_lim := fst (take_token lib now (re_lim e))\<rparr>))
    else map_of (sh_entries sh) k)"
  by (auto simp: reserve_bucket_def update_conv' case_prod_beta split: option.splits)

lemma bucket_store_allow:
  assumes "store_ok st"
  shows "bucket (fst (store_allow lib st now key limit burst)) k =
    (if shardIndex k = shardIndex key
     then map_of (sh_entries (fst (reserve_bucket lib now key
            (touch_bucket lib now key limit burst (rs_shards st ! shardIndex key))))) k
     else bucket st k)"
  using assms shardIndex_less [of key]
  by (simp add: bucket_def store_allow_def Let_def case_prod_beta store_ok_def)

subsection \<open>The recency list is sorted by the time of last use\<close>

definition seen_at :: "'l rateLimiterShard \<Rightarrow> string \<Rightarrow> nanos" where
  "seen_at sh k = re_lastSeen (the (map_of (sh_entries sh) k))"

definition recency_ok :: "nanos \<Rightarrow> 'l rateLimiterShard \<Rightarrow> bool" where
  "recency_ok t sh \<longleftrightarrow>
     sorted (map (seen_at sh) (sh_order sh)) \<and> (\<forall>k \<in> set (sh_order sh). seen_at sh k \<le> t)"

lemma recency_sublist:
  assumes "recency_ok t sh" and "sh_order sh' = filter P (sh_order sh)"
    and "\<And>k. k \<in> set (sh_order sh') \<Longrightarrow> seen_at sh' k = seen_at sh k"
  shows "recency_ok t sh'"
proof -
  have "map (seen_at sh') (sh_order sh') = map (seen_at sh) (filter P (sh_order sh))"
    unfolding assms(2) [symmetric] using assms(3) by (rule map_cong [OF refl])
  then have "sorted (map (seen_at sh') (sh_order sh'))"
    using assms(1) by (simp only: recency_ok_def sorted_filter)
  then show ?thesis using assms by (auto simp: recency_ok_def)
qed

lemma recency_extend:
  assumes "recency_ok t sh" and "t \<le> now" and "sh_order sh' = filter P (sh_order sh) @ [key]"
    and "\<And>k. k \<in> set (filter P (sh_order sh)) \<Longrightarrow> seen_at sh' k = seen_at sh k"
    and "seen_at sh' key = now"
  shows "recency_ok now sh'"
proof -
  have "map (seen_at sh') (filter P (sh_order sh)) = map (seen_at sh) (filter P (sh_order sh))"
    using assms(4) by (rule map_cong [OF refl])
  then have "sorted (map (seen_at sh') (filter P (sh_order sh)))"
    using assms(1) by (simp only: recency_ok_def sorted_filter)
  moreover have "seen_at sh' k \<le> now" if "k \<in> set (filter P (sh_order sh))" for k
    using assms(1,2) assms(4) [of k] that by (auto simp: recency_ok_def intro: order_trans)
  ultimately show ?thesis
    using assms(3,5) by (auto simp: recency_ok_def sorted_append)
qed

lemma tl_filter: "distinct xs \<Longrightarrow> tl xs = filter (\<lambda>k. k \<noteq> hd xs) xs"
  by (cases xs) (auto intro!: filter_True [symmetric])

text \<open>The order after a request: the keys that stay, as they were, and the request's key last.\<close>

lemma touch_order:
  assumes "shard_ok i sh"
  shows "sh_order (touch_bucket lib now key limit burst sh) =
           filter (\<lambda>k. k \<noteq> key \<and>
             (map_of (sh_entries sh) key = None \<and> length (sh_entries sh) \<ge> maxLimiterBucketsPerShard \<longrightarrow>
              k \<noteq> hd (sh_order sh))) (sh_order sh) @ [key]"
proof (cases "map_of (sh_entries sh) key")
  case None
  then have "key \<notin> set (sh_order sh)" using assms by (simp add: shard_ok_def map_of_eq_None_iff)
  then have keep: "filter (\<lambda>k. k \<noteq> key \<and> Q k) (sh_order sh) = filter Q (sh_order sh)" for Q
    by (intro filter_cong) auto
  show ?thesis
    using None assms tl_filter [of "sh_order sh"] keep [of "\<lambda>k. k \<noteq> hd (sh_order sh)"] keep [of "\<lambda>_. True"]
    by (simp add: touch_bucket_def drop_oldest_def Let_def shard_ok_def)
qed (simp add: touch_bucket_def)

lemma touch_recency:
  assumes "shard_ok i sh" "recency_ok t sh" "t \<le> now"
  shows "recency_ok now (touch_bucket lib now key limit burst sh)"
proof (rule recency_extend [OF assms(2,3) touch_order [OF assms(1)]])
  let ?sh = "touch_bucket lib now key limit burst sh"
  show "seen_at ?sh key = now" using touch_bucket_self [of lib now key limit burst sh]
    by (auto simp: seen_at_def)
  fix k
  assume "k \<in> set (filter (\<lambda>k. k \<noteq> key \<and>
    (map_of (sh_entries sh) key = None \<and> length (sh_entries sh) \<ge> maxLimiterBucketsPerShard \<longrightarrow>
     k \<noteq> hd (sh_order sh))) (sh_order sh))"
  then show "seen_at ?sh k = seen_at sh k"
    using touch_bucket_other [of k key lib now limit burst sh] by (auto simp: seen_at_def)
qed

lemma reserve_recency:
  assumes "recency_ok t sh"
  shows "recency_ok t (fst (reserve_bucket lib now key sh))"
proof (rule recency_sublist [OF assms, where P = "\<lambda>_. True"])
  show "sh_order (fst (reserve_bucket lib now key sh)) = filter (\<lambda>_. True) (sh_order sh)"
    by (simp add: reserve_bucket_def case_prod_beta split: option.splits)
  show "seen_at (fst (reserve_bucket lib now key sh)) k = seen_at sh k" for k
    by (simp add: seen_at_def reserve_bucket_map split: option.splits)
qed

lemma evict_recency:
  assumes "shard_ok i sh" "recency_ok t sh"
  shows "recency_ok t (evict_shard cutoff sh)"
proof (rule recency_sublist [OF assms(2)])
  show "sh_order (evict_shard cutoff sh) = filter (\<lambda>k. k \<notin> set (map fst
      (filter (\<lambda>ke. re_lastSeen (snd ke) < cutoff) (sh_entries sh)))) (sh_order sh)"
    by (simp add: evict_shard_def Let_def)
  fix k assume "k \<in> set (sh_order (evict_shard cutoff sh))"
  then have "k \<in> fst ` set (sh_entries sh)"
    and old: "k \<notin> fst ` set (filter (\<lambda>ke. re_lastSeen (snd ke) < cutoff) (sh_entries sh))"
    using assms(1) by (auto simp: evict_shard_def Let_def shard_ok_def)
  then obtain e where e: "(k, e) \<in> set (sh_entries sh)" "\<not> re_lastSeen e < cutoff" by force
  then have "map_of (sh_entries sh) k = Some e" "map_of (sh_entries (evict_shard cutoff sh)) k = Some e"
    using assms(1) by (auto simp: evict_shard_def Let_def shard_ok_def distinct_map_filter intro!: map_of_is_SomeI)
  then show "seen_at (evict_shard cutoff sh) k = seen_at sh k" by (simp add: seen_at_def)
qed

fun event_time :: "rate_event \<Rightarrow> nanos" where
  "event_time (RateRequest now scope limit burst key) = now"
| "event_time (RateSweep now) = now"

definition store_recent :: "nanos \<Rightarrow> 'l RateLimiterStore \<Rightarrow> bool" where
  "store_recent t st \<longleftrightarrow> store_ok st \<and> list_all (recency_ok t) (rs_shards st)"

lemma recency_later: "recency_ok t sh \<Longrightarrow> t \<le> u \<Longrightarrow> recency_ok u sh"
  by (auto simp: recency_ok_def)

lemma exec_recent:
  assumes "store_recent t st" "t \<le> event_time ev"
  shows "store_recent (event_time ev) (rate_exec lib st ev)"
proof -
  have ok: "store_ok st" and rec: "list_all (recency_ok t) (rs_shards st)"
    using assms(1) by (simp_all add: store_recent_def)
  have len: "length (rs_shards st) = rateLimiterShards" using ok by (simp add: store_ok_def)
  have "list_all (recency_ok (event_time ev)) (rs_shards (rate_exec lib st ev))"
  proof (cases ev)
    case (RateRequest now scope limit burst key)
    let ?i = "shardIndex (scope_prefix scope @ key)"
    have "recency_ok t (rs_shards st ! ?i)" using rec shardIndex_less len by (simp add: list_all_length)
    then have "recency_ok now (fst (reserve_bucket lib now (scope_prefix scope @ key)
        (touch_bucket lib now (scope_prefix scope @ key) limit burst (rs_shards st ! ?i))))"
      using assms(2) RateRequest store_ok_shard [OF ok]
      by (intro reserve_recency touch_recency [where t = t]) auto
    moreover have "list_all (recency_ok now) (rs_shards st)"
      using rec assms(2) RateRequest by (auto simp: list_all_iff intro: recency_later)
    ultimately show ?thesis
      using RateRequest
      by (auto simp: rate_exec_def scoped_Allow_def store_allow_def Let_def case_prod_beta list_all_iff
          dest!: set_update_subset_insert [THEN subsetD])
  next
    case (RateSweep now)
    have "recency_ok now (evict_shard cutoff sh)" if mem: "sh \<in> set (rs_shards st)" for cutoff sh
    proof -
      obtain i where i: "i < rateLimiterShards" "sh = rs_shards st ! i"
        using mem by (auto simp: in_set_conv_nth len)
      then have "shard_ok i sh" using ok by (simp add: store_ok_def)
      then have "recency_ok t (evict_shard cutoff sh)"
        using rec mem by (intro evict_recency) (auto simp: list_all_iff)
      then show ?thesis using assms(2) RateSweep by (auto intro: recency_later)
    qed
    then show ?thesis using RateSweep by (simp add: rate_exec_def store_evict_def list_all_iff)
  qed
  then show ?thesis using ok rate_store.exec_inv by (simp add: store_recent_def)
qed

lemma run_recent:
  assumes "store_recent t st" "sorted (t # map event_time evs)"
  shows "store_recent (last (t # map event_time evs)) (foldl (rate_exec lib) st evs)"
  using assms
proof (induction evs arbitrary: t st)
  case (Cons ev evs)
  have "store_recent (event_time ev) (rate_exec lib st ev)"
    using Cons.prems by (intro exec_recent) auto
  from Cons.IH [OF this] Cons.prems(2) show ?case by simp
qed simp
lemma new_store_recent: "store_recent t (NewRateLimiterStore ttl)"
  by (simp add: store_recent_def NewRateLimiterStore_ok)
     (simp add: NewRateLimiterStore_def recency_ok_def list_all_iff)

subsection \<open>What one request does to the store\<close>

text \<open>The limiter a request draws from: a new one, or the bucket's own with the limit and the
  burst that the request's policy asks for.\<close>

definition tuned_limiter :: "'l ratelib \<Rightarrow> nanos \<Rightarrow> int \<Rightarrow> int \<Rightarrow> 'l rateLimiterEntry option \<Rightarrow> 'l" where
  "tuned_limiter lib now limit burst old =
     (case old of
        None \<Rightarrow> rl_NewLimiter lib limit burst
      | Some e \<Rightarrow>
          (let l = (if re_limit e = limit then re_lim e else rl_SetLimit lib now limit (re_lim e)) in
           if re_burst e = burst then l else rl_SetBurst lib now burst l))"

lemma touch_bucket_entry:
  "map_of (sh_entries (touch_bucket lib now key limit burst sh)) key =
     Some \<lparr>re_lim = tuned_limiter lib now limit burst (map_of (sh_entries sh) key),
           re_limit = limit, re_burst = burst, re_lastSeen = now\<rparr>"
  by (auto simp: touch_bucket_def tuned_limiter_def retuned_def Let_def update_conv' split: option.splits)

lemma store_allow_entry:
  assumes "store_ok st" and "store_allow lib st now k limit burst = (st', ok, wait)"
  shows "let l = tuned_limiter lib now limit burst (bucket st k) in
         bucket st' k = Some \<lparr>re_lim = fst (take_token lib now l), re_limit = limit,
                              re_burst = burst, re_lastSeen = now\<rparr> \<and>
         (ok, wait) = snd (take_token lib now l)"
proof -
  let ?sh = "rs_shards st ! shardIndex k"
  let ?r = "reserve_bucket lib now k (touch_bucket lib now k limit burst ?sh)"
  have st': "st' = fst (store_allow lib st now k limit burst)" and ok: "(ok, wait) = snd ?r"
    using assms(2) by (auto simp: store_allow_def Let_def case_prod_beta)
  have "bucket st' k = map_of (sh_entries (fst ?r)) k"
    by (simp add: st' bucket_store_allow [OF assms(1)])
  moreover have "snd ?r = snd (take_token lib now (tuned_limiter lib now limit burst (bucket st k)))"
    by (simp add: reserve_bucket_def touch_bucket_entry bucket_def case_prod_beta)
  ultimately show ?thesis
    using ok by (simp add: reserve_bucket_map touch_bucket_entry bucket_def Let_def)
qed

lemma store_allow_order:
  assumes "store_ok st" and "store_allow lib st now k limit burst = (st', ok, wait)"
  shows "sh_order (rs_shards st' ! shardIndex k) =
         (let sh = rs_shards st ! shardIndex k in
          filter (\<lambda>j. j \<noteq> k \<and>
            (bucket st k = None \<and> length (sh_entries sh) = maxLimiterBucketsPerShard \<longrightarrow> j \<noteq> hd (sh_order sh)))
            (sh_order sh) @ [k])"
proof -
  let ?sh = "rs_shards st ! shardIndex k"
  let ?t = "touch_bucket lib now k limit burst ?sh"
  have len: "shardIndex k < length (rs_shards st)"
    using assms(1) shardIndex_less by (simp add: store_ok_def)
  have ok: "shard_ok (shardIndex k) ?sh" by (rule store_ok_shard [OF assms(1)])
  have "sh_order (rs_shards st' ! shardIndex k) = sh_order (fst (reserve_bucket lib now k ?t))"
    using assms(2) len by (auto simp: store_allow_def Let_def case_prod_beta)
  also have "\<dots> = sh_order ?t"
    by (simp add: reserve_bucket_def case_prod_beta split: option.splits)
  also have "\<dots> = filter (\<lambda>j. j \<noteq> k \<and>
      (bucket st k = None \<and> length (sh_entries ?sh) = maxLimiterBucketsPerShard \<longrightarrow> j \<noteq> hd (sh_order ?sh)))
      (sh_order ?sh) @ [k]"
    using ok unfolding touch_order [OF ok] bucket_def shard_ok_def by (metis (no_types, lifting) le_antisym order_refl)
  finally show ?thesis by (simp add: Let_def)
qed

lemma store_allow_others:
  assumes "store_recent t st" and "store_allow lib st now k limit burst = (st', ok, wait)" and "j \<noteq> k"
  shows "bucket st' j = bucket st j \<or>
         bucket st k = None \<and> bucket st' j = None \<and>
         (let sh = rs_shards st ! shardIndex k in
          length (sh_entries sh) = maxLimiterBucketsPerShard \<and> j = hd (sh_order sh) \<and>
          (\<exists>e. bucket st j = Some e \<and> (\<forall>(i, d) \<in> set (sh_entries sh). re_lastSeen e \<le> re_lastSeen d)))"
proof -
  let ?sh = "rs_shards st ! shardIndex k"
  have st: "store_ok st" using assms(1) by (simp add: store_recent_def)
  have ok: "shard_ok (shardIndex k) ?sh" by (rule store_ok_shard [OF st])
  have rec: "recency_ok t ?sh"
    using assms(1) shardIndex_less [of k] by (simp add: store_recent_def list_all_length store_ok_def)
  have st': "st' = fst (store_allow lib st now k limit burst)" using assms(2) by simp
  show ?thesis
  proof (cases "shardIndex j = shardIndex k \<and> bucket st' j \<noteq> bucket st j")
    case True
    then have j: "bucket st j = map_of (sh_entries ?sh) j" by (simp add: bucket_def)
    have "bucket st' j = map_of (sh_entries (touch_bucket lib now k limit burst ?sh)) j"
      using True assms(3) by (simp add: st' bucket_store_allow [OF st] reserve_bucket_map)
    with True j touch_bucket_other [OF assms(3), of lib now limit burst ?sh]
    have gone: "map_of (sh_entries ?sh) k = None" "j = hd (sh_order ?sh)"
      "length (sh_entries ?sh) \<ge> maxLimiterBucketsPerShard" "bucket st' j = None" by auto
    obtain e where e: "bucket st j = Some e" using True gone(4) by (cases "bucket st j") auto
    have "0 < length (sh_order ?sh)"
      using gone(3) unfolding order_length [OF ok] maxLimiterBucketsPerShard_def by linarith
    then have "hd (sh_order ?sh) # tl (sh_order ?sh) = sh_order ?sh" by simp
    then obtain ks where ks: "sh_order ?sh = j # ks" using gone(2) by metis
    have "re_lastSeen e \<le> re_lastSeen d" if "(i, d) \<in> set (sh_entries ?sh)" for i d
    proof -
      have shape: "distinct (map fst (sh_entries ?sh))" "set (sh_order ?sh) = fst ` set (sh_entries ?sh)"
        using ok unfolding shard_ok_def by blast+
      have d: "map_of (sh_entries ?sh) i = Some d" using shape(1) that by (rule map_of_is_SomeI)
      have "i \<in> set (sh_order ?sh)" unfolding shape(2) using that by force
      then have "seen_at ?sh j \<le> seen_at ?sh i" using rec by (auto simp: recency_ok_def ks)
      then show ?thesis using e j d by (simp add: seen_at_def)
    qed
    moreover have "length (sh_entries ?sh) = maxLimiterBucketsPerShard"
      using gone(3) ok unfolding shard_ok_def by linarith
    moreover have "bucket st k = None" using gone(1) by (simp add: bucket_def)
    ultimately show ?thesis using gone(2,4) e unfolding Let_def by blast
  next
    case False
    then show ?thesis by (auto simp: st' bucket_store_allow [OF st])
  qed
qed

text \<open>C37: A request counts against one bucket, that of its own scope and key, and against
  nothing else. Take any run of requests and sweeps whose clock readings do not go back, and then
  one request. Its limiter is a new one, or that of its bucket with the limit and the burst set
  to those of the request's policy where a reload changed them; one reservation is made on it,
  which admits the request if there is nothing to wait, and is cancelled with the wait reported
  if there is; and the bucket holds the resulting limiter. The bucket of every other scope or
  key, a key that merely extends the other scope's name included, is untouched, unless the shard
  was full and the request's own bucket new: then exactly one bucket of that shard is dropped,
  and none of its buckets was used longer ago. The request's key becomes the last in the order
  of eviction and the others keep theirs.\<close>

theorem rate_buckets_independent:
  assumes "sorted (map event_time evs @ [now])"
    and "st = foldl (rate_exec lib) (NewRateLimiterStore ttl) evs"
    and "scoped_Allow lib st now scope limit burst key = (st', ok, wait)"
    and "k = bucket_key scope key" and "sh = rs_shards st ! shardIndex k"
    and "evicts = (bucket st k = None \<and> length (sh_entries sh) = maxLimiterBucketsPerShard)"
    and "l0 = (case bucket st k of
                 None \<Rightarrow> rl_NewLimiter lib limit burst
               | Some e \<Rightarrow>
                   (let l = (if re_limit e = limit then re_lim e else rl_SetLimit lib now limit (re_lim e)) in
                    if re_burst e = burst then l else rl_SetBurst lib now burst l))"
  shows "(\<exists>l. bucket st' k = Some \<lparr>re_lim = l, re_limit = limit, re_burst = burst, re_lastSeen = now\<rparr> \<and>
            (case rl_ReserveN lib now l0 of
               (l1, None) \<Rightarrow> l = l1 \<and> \<not> ok \<and> wait = 0
             | (l1, Some d) \<Rightarrow>
                 if d > 0 then l = rl_CancelAt lib now l1 \<and> \<not> ok \<and> wait = d
                 else l = l1 \<and> ok \<and> wait = 0)) \<and>
         ((scope2, key2) \<noteq> (scope, key) \<longrightarrow>
            bucket st' (bucket_key scope2 key2) = bucket st (bucket_key scope2 key2) \<or>
            evicts \<and> bucket_key scope2 key2 = hd (sh_order sh) \<and> bucket st' (bucket_key scope2 key2) = None \<and>
            (\<exists>e. bucket st (bucket_key scope2 key2) = Some e \<and>
               (\<forall>(i, d) \<in> set (sh_entries sh). re_lastSeen e \<le> re_lastSeen d))) \<and>
         sh_order (rs_shards st' ! shardIndex k) =
           filter (\<lambda>j. j \<noteq> k \<and> (evicts \<longrightarrow> j \<noteq> hd (sh_order sh))) (sh_order sh) @ [k]"
proof -
  let ?t0 = "hd (map event_time evs @ [now])"
  have "sorted (?t0 # map event_time evs)"
    using assms(1) by (cases evs) (auto simp: sorted_append)
  then have "store_recent (last (?t0 # map event_time evs)) st"
    unfolding assms(2) by (intro run_recent new_store_recent)
  then obtain t where rec: "store_recent t st" by blast
  then have st: "store_ok st" by (simp add: store_recent_def)
  have allow: "store_allow lib st now k limit burst = (st', ok, wait)"
    using assms(3,4) by (simp add: scoped_Allow_def bucket_key_def)
  have l0: "l0 = tuned_limiter lib now limit burst (bucket st k)"
    using assms(7) by (simp add: tuned_limiter_def)
  have distinct: "bucket_key scope2 key2 \<noteq> k" if "(scope2, key2) \<noteq> (scope, key)"
    using that scope_code.enc_prefix [of scope2 key2 scope key] assms(4) by (auto simp: bucket_key_def)
  have entry: "bucket st' k = Some \<lparr>re_lim = fst (take_token lib now l0), re_limit = limit,
      re_burst = burst, re_lastSeen = now\<rparr>" "(ok, wait) = snd (take_token lib now l0)"
    using store_allow_entry [OF st allow] by (simp_all add: l0 Let_def)
  have "case rl_ReserveN lib now l0 of
      (l1, None) \<Rightarrow> fst (take_token lib now l0) = l1 \<and> \<not> ok \<and> wait = 0
    | (l1, Some d) \<Rightarrow>
        if d > 0 then fst (take_token lib now l0) = rl_CancelAt lib now l1 \<and> \<not> ok \<and> wait = d
        else fst (take_token lib now l0) = l1 \<and> ok \<and> wait = 0"
    using entry(2) by (auto simp: take_token_def split: prod.splits option.splits)
  with entry(1) have "\<exists>l. bucket st' k = Some \<lparr>re_lim = l, re_limit = limit, re_burst = burst, re_lastSeen = now\<rparr> \<and>
      (case rl_ReserveN lib now l0 of
         (l1, None) \<Rightarrow> l = l1 \<and> \<not> ok \<and> wait = 0
       | (l1, Some d) \<Rightarrow>
           if d > 0 then l = rl_CancelAt lib now l1 \<and> \<not> ok \<and> wait = d else l = l1 \<and> ok \<and> wait = 0)"
    by (intro exI [of _ "fst (take_token lib now l0)"] conjI)
  moreover have "bucket st' (bucket_key scope2 key2) = bucket st (bucket_key scope2 key2) \<or>
      evicts \<and> bucket_key scope2 key2 = hd (sh_order sh) \<and> bucket st' (bucket_key scope2 key2) = None \<and>
      (\<exists>e. bucket st (bucket_key scope2 key2) = Some e \<and>
         (\<forall>(i, d) \<in> set (sh_entries sh). re_lastSeen e \<le> re_lastSeen d))"
    if "(scope2, key2) \<noteq> (scope, key)"
    using store_allow_others [OF rec allow distinct [OF that]]
    unfolding Let_def assms(5) [symmetric] assms(6) by argo
  moreover have "sh_order (rs_shards st' ! shardIndex k) =
      filter (\<lambda>j. j \<noteq> k \<and> (evicts \<longrightarrow> j \<noteq> hd (sh_order sh))) (sh_order sh) @ [k]"
    using store_allow_order [OF st allow] by (simp add: Let_def assms(5,6))
  ultimately show ?thesis by (intro conjI impI)
qed

definition sample_ratelib :: "nat ratelib" where
  "sample_ratelib =
     \<lparr>rl_NewLimiter = (\<lambda>limit burst. nat burst),
      rl_SetLimit = (\<lambda>now limit l. l), rl_SetBurst = (\<lambda>now burst l. min l (nat burst)),
      rl_ReserveN = (\<lambda>now l. if l > 0 then (l - 1, Some 0) else (l, Some second)),
      rl_CancelAt = (\<lambda>now l. l)\<rparr>"

definition first_request :: "rate_event list" where
  "first_request = [RateRequest 5 ''a'' 1 1 ''k'']"

theorem rate_buckets_independent_witness:
  "let st = foldl (rate_exec sample_ratelib) (NewRateLimiterStore 0) first_request in
   snd (scoped_Allow sample_ratelib st 6 ''a'' 1 1 ''k'') = (False, second) \<and>
   snd (scoped_Allow sample_ratelib st 6 ''ak'' 1 1 []) = (True, 0) \<and>
   (let st2 = fst (scoped_Allow sample_ratelib st 6 ''ak'' 1 1 []) in
    bucket st2 (bucket_key ''a'' ''k'') = bucket st (bucket_key ''a'' ''k''))"
proof -
  let ?st = "foldl (rate_exec sample_ratelib) (NewRateLimiterStore 0) first_request"
  have sorted: "sorted (map event_time first_request @ [6])" by (simp add: first_request_def)
  obtain st2 ok2 w2 where st2: "scoped_Allow sample_ratelib ?st 6 ''ak'' 1 1 [] = (st2, ok2, w2)"
    by (cases "scoped_Allow sample_ratelib ?st 6 ''ak'' 1 1 []") auto
  have "length (sh_entries (rs_shards ?st ! shardIndex (bucket_key ''ak'' []))) \<noteq> maxLimiterBucketsPerShard"
    by code_simp
  with rate_buckets_independent [OF sorted refl st2 refl refl refl refl, of "''a''" "''k''"]
  have "bucket st2 (bucket_key ''a'' ''k'') = bucket ?st (bucket_key ''a'' ''k'')"
    by blast
  moreover have "snd (scoped_Allow sample_ratelib ?st 6 ''a'' 1 1 ''k'') = (False, second)"
    "snd (scoped_Allow sample_ratelib ?st 6 ''ak'' 1 1 []) = (True, 0)" by code_simp+
  ultimately show ?thesis using st2 by (simp add: Let_def)
qed

subsection \<open>Waiting times and keys\<close>

text \<open>The wait a rejected client is told is the shortest number of whole seconds, at least one,
  that covers the wait of the bucket, as long as the rounding does not leave 64 bits.\<close>

lemma retry_arith:
  "0 < (n :: int) - 999999999 \<Longrightarrow>
   n - 999999999 \<le> n div 1000000000 * 1000000000 \<and> (n div 1000000000 - 1) * 1000000000 < n - 999999999 \<and>
   1 \<le> n div 1000000000"
  by presburger

lemma retry_seconds_exact:
  assumes "0 < d" and "d + second < 2 ^ 63"
  shows "d \<le> retry_seconds d * second \<and> (retry_seconds d - 1) * second < d \<and> 1 \<le> retry_seconds d"
proof -
  define n where "n = d + second - 1"
  have n: "wrap64 n = n" "n \<ge> second" "d = n - second + 1"
    using assms by (auto simp: n_def second_def intro!: wrap64_id)
  then have "retry_seconds d = n div 1000000000"
    by (simp add: retry_seconds_def n_def [symmetric] Let_def second_def)
  moreover have "d = n - 999999999" "0 < d" using n(3) assms by (simp_all add: second_def)
  ultimately show ?thesis unfolding second_def using retry_arith [of n] by simp
qed

text \<open>A wait within a second of the largest duration wraps, and the client is told to retry
  after one second.\<close>

lemma retry_seconds_wraps: "retry_seconds (2 ^ 63 - 1) = 1"
  by code_simp

lemma boundedRateKey_bound:
  "(\<And>s. length (sha256hex s) = 64) \<Longrightarrow> length (boundedRateKey sha256hex v) \<le> 256"
  by (simp add: boundedRateKey_def)

text \<open>A key is never empty, and the traffic of a degraded proxy chain never meets the bucket of
  an attributed client: its key begins with a letter that no address begins with.\<close>

lemma RateKeyFunc_nonempty:
  assumes "rr_RemoteAddr r \<noteq> []" and "\<And>a. IsValid a \<Longrightarrow> al_String al a \<noteq> []"
  shows "RateKeyFunc al sha256hex spec r \<noteq> []"
proof -
  have "clientKey al r \<noteq> []"
    using assms by (auto simp: clientKey_def unattributedKeyPrefix_def Let_def split: option.splits)
  then show ?thesis by (auto simp: RateKeyFunc_def boundedRateKey_def split: list.splits option.splits)
qed

lemma unattributed_namespace:
  assumes "rr_identity r = Some i" and "\<not> Attributed i"
    and "rr_identity r2 = Some i2" and "Attributed i2" and "IsValid (ai_Client i2)"
    and "\<And>a. IsValid a \<Longrightarrow> \<not> HasPrefix (al_String al a) unattributedKeyPrefix"
  shows "clientKey al r \<noteq> clientKey al r2"
proof -
  have "HasPrefix (clientKey al r) unattributedKeyPrefix"
    using assms(1,2) by (simp add: clientKey_def Let_def)
  moreover have "\<not> HasPrefix (clientKey al r2) unattributedKeyPrefix"
    using assms(3-6) by (simp add: clientKey_def request_Client_def Let_def)
  ultimately show ?thesis by metis
qed

end
