(* ===== verification/Cors.thy ===== *)
theory Cors
  imports Predicates
begin

text \<open>
  \<^verbatim>\<open>src/internal/middleware/cors.go\<close>, \<^verbatim>\<open>preflight.go\<close> and
  \<^verbatim>\<open>responsepolicy.go\<close>, with the validation of the CORS block in
  \<^verbatim>\<open>src/internal/config/validate_cors.go\<close>: which origins are granted access, the answer to a
  preflight, and the writer that applies a location's header operations and its CORS headers
  once, at the final status.

  A header maps a canonical name to its field values, none for an absent name. Sets of names are
  lists. The clock of \<^verbatim>\<open>applyExpiration\<close> and the rendering of its date are one argument.

  Origins are compared after \<^verbatim>\<open>strings.ToLower\<close>, which maps Unicode text, and neither a
  configured origin nor the one of a request is restricted to ASCII. What that function does to
  text with a byte outside ASCII is the argument \<open>low\<close>. Elsewhere the case mapping is applied
  to tokens, or compared with words that only ASCII letters map to.
\<close>

subsection \<open>Configuration\<close>

record CORSConfig =
  cg_Enabled :: bool
  cg_AllowedOrigins :: "string list"
  cg_AllowedMethods :: "string list option"
  cg_AllowedHeaders :: "string list"
  cg_ExposedHeaders :: "string list"
  cg_AllowCredentials :: bool
  cg_MaxAge :: "duration option"

definition MaxCORSOrigins :: nat where "MaxCORSOrigins = 64"
definition MaxCORSOriginBytes :: nat where "MaxCORSOriginBytes = 256"
definition MaxCORSAllowedMethods :: nat where "MaxCORSAllowedMethods = 32"
definition MaxCORSAllowedHeaders :: nat where "MaxCORSAllowedHeaders = 64"
definition MaxCORSExposedHeaders :: nat where "MaxCORSExposedHeaders = 32"
definition MaxCORSTokenBytes :: nat where "MaxCORSTokenBytes = 256"
definition MaxCORSMaxAge :: int where "MaxCORSMaxAge = 24 * 60 * 60"
definition MaxCORSGeneratedHeaderBytes :: nat where "MaxCORSGeneratedHeaderBytes = 4096"

definition isFieldToken :: "string \<Rightarrow> bool" where
  "isFieldToken s \<longleftrightarrow> s \<noteq> [] \<and> list_all token_byte s"

datatype origin_error =
  MissingScheme | SchemeNotHTTP | MissingHost | HasPathQueryFragment | HasUserinfo | EmptyPort | InvalidPort | DefaultPort

text \<open>\<^verbatim>\<open>strings.Cut\<close> at the first occurrence of a separator.\<close>

fun CutString :: "string \<Rightarrow> string \<Rightarrow> string \<times> string \<times> bool" where
  "CutString [] sep = (if sep = [] then ([], [], True) else ([], [], False))"
| "CutString (x # xs) sep =
     (if HasPrefix (x # xs) sep then ([], drop (length sep) (x # xs), True)
      else case CutString xs sep of (a, b, ok) \<Rightarrow> (x # a, b, ok))"

definition validateOriginGrammar :: "string \<Rightarrow> origin_error option" where
  "validateOriginGrammar s =
     (case CutString s ''://'' of (scheme, rest, ok) \<Rightarrow>
        if \<not> ok \<or> scheme = [] then Some MissingScheme
        else if ToLower scheme \<noteq> ''http'' \<and> ToLower scheme \<noteq> ''https'' then Some SchemeNotHTTP
        else if rest = [] then Some MissingHost
        else if list_ex (\<lambda>c. c \<in> set ''/?#'') rest then Some HasPathQueryFragment
        else if contains_byte CHR ''@'' rest then Some HasUserinfo
        else case Cut rest CHR '':'' of (host, port, hasPort) \<Rightarrow>
          if host = [] then Some MissingHost
          else if hasPort then
            (if port = [] then Some EmptyPort
             else if \<not> list_all is_digit port then Some InvalidPort
             else if ToLower scheme = ''http'' \<and> port = ''80'' \<or> ToLower scheme = ''https'' \<and> port = ''443''
               then Some DefaultPort
             else None)
          else None)"

datatype token_error = TokenWildcard | TokenInvalid | TokenTooLong

definition validateCORSToken :: "string \<Rightarrow> token_error option" where
  "validateCORSToken tok =
     (if tok = ''*'' then Some TokenWildcard
      else if tok = [] \<or> \<not> isFieldToken tok then Some TokenInvalid
      else if length tok > MaxCORSTokenBytes then Some TokenTooLong
      else None)"

definition joinedLen :: "string list \<Rightarrow> nat" where
  "joinedLen strs = (if strs = [] then 0 else 2 * (length strs - 1) + sum_list (map length strs))"

definition methods_of :: "CORSConfig \<Rightarrow> string list" where
  "methods_of c = (case cg_AllowedMethods c of None \<Rightarrow> [] | Some ms \<Rightarrow> ms)"

definition estimateCORSHeaderBytes :: "CORSConfig \<Rightarrow> nat" where
  "estimateCORSHeaderBytes c =
     length ''Access-Control-Allow-Origin: '' + MaxCORSOriginBytes +
     (if methods_of c \<noteq> [] then length ''Access-Control-Allow-Methods: '' + joinedLen (methods_of c)
      else length ''Access-Control-Allow-Methods: GET, HEAD, POST'') +
     (if cg_AllowedHeaders c \<noteq> [] then length ''Access-Control-Allow-Headers: '' + joinedLen (cg_AllowedHeaders c) else 0) +
     (if cg_ExposedHeaders c \<noteq> [] then length ''Access-Control-Expose-Headers: '' + joinedLen (cg_ExposedHeaders c) else 0) +
     (if cg_AllowCredentials c then length ''Access-Control-Allow-Credentials: true'' else 0) +
     (if cg_MaxAge c \<noteq> None then length ''Access-Control-Max-Age: 86400'' else 0) +
     length ''Vary: Origin, Access-Control-Request-Method, Access-Control-Request-Headers''"

datatype cors_error =
  OriginsRequired | WildcardMixed | WildcardCredentials | TooManyOrigins
| OriginTooLong nat | BadOrigin nat origin_error
| EmptyMethods | TooManyMethods | BadMethod nat token_error
| TooManyHeaders | BadHeader nat token_error
| TooManyExposed | BadExposed nat token_error
| MaxAgeNegative | MaxAgeFraction | MaxAgeOver | HeaderBlockOver

definition origin_errors :: "nat \<times> string \<Rightarrow> cors_error list" where
  "origin_errors io =
     (case io of (i, o1) \<Rightarrow>
        if o1 = ''*'' then []
        else if length o1 > MaxCORSOriginBytes then [OriginTooLong i]
        else if o1 = ''null'' then []
        else case validateOriginGrammar o1 of None \<Rightarrow> [] | Some er \<Rightarrow> [BadOrigin i er])"

definition token_errors :: "(nat \<Rightarrow> token_error \<Rightarrow> cors_error) \<Rightarrow> string list \<Rightarrow> cors_error list" where
  "token_errors f toks =
     concat (map (\<lambda>(i, t). case validateCORSToken t of None \<Rightarrow> [] | Some er \<Rightarrow> [f i er]) (enumerate 0 toks))"

definition max_age_errors :: "duration option \<Rightarrow> cors_error list" where
  "max_age_errors ma =
     (case ma of None \<Rightarrow> []
      | Some d \<Rightarrow>
          if d < 0 then [MaxAgeNegative]
          else if d mod second \<noteq> 0 then [MaxAgeFraction]
          else if d > MaxCORSMaxAge * second then [MaxAgeOver]
          else [])"

definition validateCORS :: "CORSConfig option \<Rightarrow> cors_error list" where
  "validateCORS co =
     (case co of None \<Rightarrow> []
      | Some c \<Rightarrow>
          (let origins = cg_AllowedOrigins c; wildcard = list_ex (\<lambda>x. x = ''*'') origins in
           (if origins = [] \<and> cg_Enabled c then [OriginsRequired]
            else if wildcard \<and> length origins > 1 then [WildcardMixed]
            else if wildcard \<and> cg_AllowCredentials c then [WildcardCredentials]
            else []) @
           (if length origins > MaxCORSOrigins then [TooManyOrigins] else []) @
           concat (map origin_errors (enumerate 0 origins)) @
           (if cg_AllowedMethods c = Some [] then [EmptyMethods] else []) @
           (if length (methods_of c) > MaxCORSAllowedMethods then [TooManyMethods] else []) @
           token_errors BadMethod (methods_of c) @
           (if length (cg_AllowedHeaders c) > MaxCORSAllowedHeaders then [TooManyHeaders] else []) @
           token_errors BadHeader (cg_AllowedHeaders c) @
           (if length (cg_ExposedHeaders c) > MaxCORSExposedHeaders then [TooManyExposed] else []) @
           token_errors BadExposed (cg_ExposedHeaders c) @
           max_age_errors (cg_MaxAge c) @
           (if estimateCORSHeaderBytes c > MaxCORSGeneratedHeaderBytes then [HeaderBlockOver] else [])))"

subsection \<open>The compiled policy\<close>

record CORSPolicy =
  cq_wildcard :: bool
  cq_origins :: "string list"
  cq_allowCredentials :: bool
  cq_allowedMethods :: "string list"
  cq_allowedMethodSet :: "string list"
  cq_allowedHeaders :: "string list"
  cq_allowedHeaderSet :: "string list"
  cq_exposedHeaders :: "string list"
  cq_maxAgeSeconds :: "int option"

definition defaultCORSMethods :: "string list" where
  "defaultCORSMethods = [''GET'', ''HEAD'', ''POST'']"

definition ToUpper :: "string \<Rightarrow> string" where
  "ToUpper s = map to_upper s"

definition all_ascii :: "string \<Rightarrow> bool" where
  "all_ascii s = list_all (\<lambda>c. (of_char c :: nat) < 128) s"

text \<open>\<^verbatim>\<open>strings.ToLower\<close> on text that may hold bytes outside ASCII.\<close>

definition ToLower_text :: "(string \<Rightarrow> string) \<Rightarrow> string \<Rightarrow> string" where
  "ToLower_text low s = (if all_ascii s then ToLower s else low s)"

definition CompileCORS :: "(string \<Rightarrow> string) \<Rightarrow> CORSConfig option \<Rightarrow> CORSPolicy option" where
  "CompileCORS low co =
     (case co of None \<Rightarrow> None
      | Some c \<Rightarrow>
          if \<not> cg_Enabled c then None
          else
            (let wildcard = list_ex (\<lambda>x. x = ''*'') (cg_AllowedOrigins c);
                 methods = (case cg_AllowedMethods c of None \<Rightarrow> defaultCORSMethods | Some ms \<Rightarrow> ms) in
             Some \<lparr>cq_wildcard = wildcard,
                   cq_origins = (if wildcard then [] else map (ToLower_text low) (cg_AllowedOrigins c)),
                   cq_allowCredentials = cg_AllowCredentials c,
                   cq_allowedMethods = methods,
                   cq_allowedMethodSet = map ToUpper methods,
                   cq_allowedHeaders = cg_AllowedHeaders c,
                   cq_allowedHeaderSet = map CanonicalMIMEHeaderKey (cg_AllowedHeaders c),
                   cq_exposedHeaders = cg_ExposedHeaders c,
                   cq_maxAgeSeconds =
                     (case cg_MaxAge c of None \<Rightarrow> None
                      | Some d \<Rightarrow> Some (if d \<ge> 0 then d div second else - ((- d) div second)))\<rparr>))"

definition header_Get :: "header \<Rightarrow> string \<Rightarrow> string" where
  "header_Get h name = (case h (CanonicalMIMEHeaderKey name) of [] \<Rightarrow> [] | v # _ \<Rightarrow> v)"

definition maxPreflightRequestHeaders :: nat where
  "maxPreflightRequestHeaders = 64"

fun approve_tokens :: "CORSPolicy \<Rightarrow> nat \<Rightarrow> string list \<Rightarrow> nat option" where
  "approve_tokens p n [] = Some n"
| "approve_tokens p n (t # toks) =
     (let tok = TrimSpace t in
      if \<not> isCORSToken tok then None
      else if Suc n > maxPreflightRequestHeaders then None
      else if CanonicalMIMEHeaderKey tok \<notin> set (cq_allowedHeaderSet p) then None
      else approve_tokens p (Suc n) toks)"

fun approve_values :: "CORSPolicy \<Rightarrow> nat \<Rightarrow> string list \<Rightarrow> bool" where
  "approve_values p n [] = True"
| "approve_values p n (v # vs) =
     (case approve_tokens p n (Split v CHR '','') of
        None \<Rightarrow> False
      | Some n' \<Rightarrow> approve_values p n' vs)"

definition requestedHeadersApproved :: "CORSPolicy \<Rightarrow> string list \<Rightarrow> bool" where
  "requestedHeadersApproved p values = approve_values p 0 values"

definition EvaluatePreflight :: "(string \<Rightarrow> string) \<Rightarrow> CORSPolicy \<Rightarrow> request \<Rightarrow> string option" where
  "EvaluatePreflight low p r =
     (let origin = header_Get (req_header r) ''Origin'' in
      if \<not> cq_wildcard p \<and> ToLower_text low origin \<notin> set (cq_origins p) then None
      else if ToUpper (header_Get (req_header r) ''Access-Control-Request-Method'') \<notin> set (cq_allowedMethodSet p) then None
      else if \<not> requestedHeadersApproved p (req_header r ''Access-Control-Request-Headers'') then None
      else Some (if cq_wildcard p then ''*'' else origin))"

fun JoinComma :: "string list \<Rightarrow> string" where
  "JoinComma [] = []"
| "JoinComma [s] = s"
| "JoinComma (s # t # ss) = s @ '', '' @ JoinComma (t # ss)"

definition Itoa :: "int \<Rightarrow> string" where
  "Itoa n = (if n < 0 then ''-'' @ FormatUint (nat (- n)) else FormatUint (nat n))"

definition preflight_vary :: "CORSPolicy \<Rightarrow> string list" where
  "preflight_vary p =
     (if cq_wildcard p then [] else [''Origin'']) @
     [''Access-Control-Request-Method'', ''Access-Control-Request-Headers'']"

text \<open>The fields \<^verbatim>\<open>WritePreflightResponse\<close> sets, in order, each once.\<close>

definition preflight_fields :: "CORSPolicy \<Rightarrow> string \<Rightarrow> (string \<times> string) list" where
  "preflight_fields p grantOrigin =
     [(''Access-Control-Allow-Origin'', grantOrigin)] @
     (if cq_allowedMethods p \<noteq> [] then [(''Access-Control-Allow-Methods'', JoinComma (cq_allowedMethods p))] else []) @
     (if cq_allowedHeaders p \<noteq> [] then [(''Access-Control-Allow-Headers'', JoinComma (cq_allowedHeaders p))] else []) @
     (case cq_maxAgeSeconds p of None \<Rightarrow> [] | Some n \<Rightarrow> [(''Access-Control-Max-Age'', Itoa n)]) @
     (if cq_allowCredentials p then [(''Access-Control-Allow-Credentials'', ''true'')] else []) @
     [(''Vary'', JoinComma (preflight_vary p))]"

definition WritePreflightResponse :: "CORSPolicy \<Rightarrow> header \<Rightarrow> string \<Rightarrow> header \<times> int" where
  "WritePreflightResponse p h grantOrigin =
     (foldl (\<lambda>h nv. header_Set h (fst nv) (snd nv)) h (preflight_fields p grantOrigin), 204)"

definition addVary :: "header \<Rightarrow> string \<Rightarrow> header" where
  "addVary h v =
     (if list_ex (\<lambda>x. x = ''*'' \<or> EqualFold x v) (h ''Vary'') then h else header_Add h ''Vary'' v)"

definition drop_grants :: "header \<Rightarrow> header" where
  "drop_grants h = (\<lambda>name. if HasPrefix name ''Access-Control-'' then [] else h name)"

definition expose :: "CORSPolicy \<Rightarrow> header \<Rightarrow> header" where
  "expose p h =
     (if cq_exposedHeaders p \<noteq> [] then header_Set h ''Access-Control-Expose-Headers'' (JoinComma (cq_exposedHeaders p)) else h)"

definition ApplyToResponse :: "(string \<Rightarrow> string) \<Rightarrow> CORSPolicy \<Rightarrow> header \<Rightarrow> request \<Rightarrow> header" where
  "ApplyToResponse low p h0 r =
     (let h = drop_grants h0 in
      if cq_wildcard p then expose p (header_Set h ''Access-Control-Allow-Origin'' ''*'')
      else
        (let h = addVary h ''Origin'' in
         case req_header r ''Origin'' of
           [origin] \<Rightarrow>
             if ToLower_text low origin \<notin> set (cq_origins p) then h
             else
               (let h = header_Set h ''Access-Control-Allow-Origin'' origin;
                    h = (if cq_allowCredentials p then header_Set h ''Access-Control-Allow-Credentials'' ''true'' else h) in
                expose p h)
         | _ \<Rightarrow> h))"

subsection \<open>The preflight terminator\<close>

text \<open>The branch \<^verbatim>\<open>Preflight\<close> takes: the ordinary chain, or the guarded answer for an approved
  origin. The guards run in the order rate limit, firewall, answer; a guard is what it says of
  the request, passing it on or answering itself.\<close>

datatype preflight_branch = ToChain | Guarded string

definition preflight_route :: "(string \<Rightarrow> string) \<Rightarrow> CORSPolicy \<Rightarrow> request \<Rightarrow> preflight_branch" where
  "preflight_route low p r =
     (if \<not> IsPreflight r then ToChain
      else case EvaluatePreflight low p r of None \<Rightarrow> ToChain | Some g \<Rightarrow> Guarded g)"

datatype preflight_end = Chained | RefusedBy string | Answered "header \<times> int"

definition run_guard :: "string \<Rightarrow> (request \<Rightarrow> bool) option \<Rightarrow> request \<Rightarrow> preflight_end \<Rightarrow> preflight_end" where
  "run_guard name guard r next =
     (case guard of None \<Rightarrow> next | Some passes \<Rightarrow> if passes r then next else RefusedBy name)"

definition Preflight ::
  "(string \<Rightarrow> string) \<Rightarrow> CORSPolicy \<Rightarrow> (request \<Rightarrow> bool) option \<Rightarrow> (request \<Rightarrow> bool) option \<Rightarrow> header \<Rightarrow> request \<Rightarrow> preflight_end" where
  "Preflight low p rateLimit waf h r =
     (case preflight_route low p r of
        ToChain \<Rightarrow> Chained
      | Guarded g \<Rightarrow>
          run_guard ''rate_limit'' rateLimit r
            (run_guard ''waf'' waf r (Answered (WritePreflightResponse p h g))))"

subsection \<open>The response policy writer\<close>

definition expirationStatus :: "int \<Rightarrow> bool" where
  "expirationStatus code \<longleftrightarrow> code \<in> {200, 201, 204, 206, 301, 302, 303, 304, 307, 308}"

text \<open>\<open>date\<close> renders the expiry of a duration from now.\<close>

definition applyExpiration :: "(duration \<Rightarrow> string) \<Rightarrow> header \<Rightarrow> duration \<Rightarrow> header" where
  "applyExpiration date h d =
     header_Set (header_Set h ''Expires'' (date d)) ''Cache-Control''
       (if d \<ge> 0 then ''max-age='' @ Itoa (d div second) else ''no-cache'')"

definition apply_op :: "header \<Rightarrow> ResponseHeaderOp \<Rightarrow> header" where
  "apply_op h hop =
     (let name = CanonicalMIMEHeaderKey (rho_name hop);
          value = (case rho_value hop of None \<Rightarrow> [] | Some v \<Rightarrow> v) in
      if rho_op hop = ''add'' then header_Add h name value
      else if rho_op hop = ''set'' then header_Set h name value
      else if rho_op hop = ''remove'' then header_Del h name
      else h)"

record response_policy =
  rp_ops :: "ResponseHeaderOp list"
  rp_cors :: "CORSPolicy option"
  rp_expires :: "duration option"

definition final_header :: "(string \<Rightarrow> string) \<Rightarrow> (duration \<Rightarrow> string) \<Rightarrow> response_policy \<Rightarrow> request \<Rightarrow> int \<Rightarrow> header \<Rightarrow> header" where
  "final_header low date rp r code h0 =
     (let h = (case rp_expires rp of Some d \<Rightarrow> if expirationStatus code then applyExpiration date h0 d else h0 | None \<Rightarrow> h0);
          h = foldl apply_op h (rp_ops rp) in
      case rp_cors rp of
        Some p \<Rightarrow> if code \<noteq> 101 then ApplyToResponse low p h r else h
      | None \<Rightarrow> h)"

datatype writer_call = CallHeader int header | CallWrite string | CallFlush

record policyWriter =
  pw_header :: header
  pw_wroteHeader :: bool
  pw_hijacked :: bool
  pw_skip :: bool
  pw_calls :: "writer_call list"

definition new_policyWriter :: "header \<Rightarrow> policyWriter" where
  "new_policyWriter h = \<lparr>pw_header = h, pw_wroteHeader = False, pw_hijacked = False, pw_skip = False, pw_calls = []\<rparr>"

definition policy_WriteHeader ::
  "(string \<Rightarrow> string) \<Rightarrow> (duration \<Rightarrow> string) \<Rightarrow> response_policy \<Rightarrow> request \<Rightarrow> policyWriter \<Rightarrow> int \<Rightarrow> policyWriter" where
  "policy_WriteHeader low date rp r w code =
     (if pw_wroteHeader w \<or> pw_hijacked w then w
      else if code \<ge> 100 \<and> code < 200 \<and> code \<noteq> 101 then
        w\<lparr>pw_calls := pw_calls w @ [CallHeader code (pw_header w)]\<rparr>
      else
        (let h = (if pw_skip w then pw_header w else final_header low date rp r code (pw_header w)) in
         w\<lparr>pw_wroteHeader := True, pw_header := h, pw_calls := pw_calls w @ [CallHeader code h]\<rparr>))"

definition policy_Write ::
  "(string \<Rightarrow> string) \<Rightarrow> (duration \<Rightarrow> string) \<Rightarrow> response_policy \<Rightarrow> request \<Rightarrow> policyWriter \<Rightarrow> string \<Rightarrow> policyWriter \<times> bool" where
  "policy_Write low date rp r w b =
     (if pw_hijacked w then (w, False)
      else
        (let w1 = (if \<not> pw_wroteHeader w then policy_WriteHeader low date rp r w 200 else w) in
         (w1\<lparr>pw_calls := pw_calls w1 @ [CallWrite b]\<rparr>, True)))"

definition policy_Flush :: "(string \<Rightarrow> string) \<Rightarrow> (duration \<Rightarrow> string) \<Rightarrow> response_policy \<Rightarrow> request \<Rightarrow> policyWriter \<Rightarrow> policyWriter" where
  "policy_Flush low date rp r w =
     (if pw_hijacked w then w
      else
        (let w1 = (if \<not> pw_wroteHeader w then policy_WriteHeader low date rp r w 200 else w) in
         w1\<lparr>pw_calls := pw_calls w1 @ [CallFlush]\<rparr>))"

definition policy_Hijack :: "policyWriter \<Rightarrow> bool \<Rightarrow> policyWriter" where
  "policy_Hijack w ok = (if ok then w\<lparr>pw_hijacked := True\<rparr> else w)"

definition markGeneratedResponse :: "policyWriter \<Rightarrow> policyWriter" where
  "markGeneratedResponse w = w\<lparr>pw_skip := True\<rparr>"

subsection \<open>Grants\<close>

lemma canon_names [simp]:
  "CanonicalMIMEHeaderKey ''Access-Control-Allow-Origin'' = ''Access-Control-Allow-Origin''"
  "CanonicalMIMEHeaderKey ''Access-Control-Allow-Credentials'' = ''Access-Control-Allow-Credentials''"
  "CanonicalMIMEHeaderKey ''Access-Control-Expose-Headers'' = ''Access-Control-Expose-Headers''"
  "CanonicalMIMEHeaderKey ''Vary'' = ''Vary''" "CanonicalMIMEHeaderKey ''Origin'' = ''Origin''"
  "CanonicalMIMEHeaderKey ''Access-Control-Request-Method'' = ''Access-Control-Request-Method''"
  by code_simp+

lemma prefix_names [simp]:
  "HasPrefix ''Access-Control-Allow-Origin'' ''Access-Control-''"
  "HasPrefix ''Access-Control-Allow-Credentials'' ''Access-Control-''"
  "HasPrefix ''Access-Control-Expose-Headers'' ''Access-Control-''"
  "\<not> HasPrefix ''Vary'' ''Access-Control-''"
  by code_simp+

text \<open>The origin a response grants under a configuration, if any: the wildcard where it is
  configured, and otherwise the request's origin if it has exactly one and a configured origin
  has the same lower-case text.\<close>

definition granted_origin :: "(string \<Rightarrow> string) \<Rightarrow> CORSConfig \<Rightarrow> request \<Rightarrow> string option" where
  "granted_origin low c r =
     (if ''*'' \<in> set (cg_AllowedOrigins c) then Some ''*''
      else case req_header r ''Origin'' of
             [origin] \<Rightarrow>
               if \<exists>configured \<in> set (cg_AllowedOrigins c). ToLower_text low origin = ToLower_text low configured
               then Some origin else None
           | _ \<Rightarrow> None)"

text \<open>The header a browser gets, field by field, from the header \<open>h\<close> the handler and the
  header operations left. Of the CORS family there are at most the three fields of a grant,
  each with one value; the response varies by origin unless the wildcard is configured; every
  other field is as it was.\<close>

definition cors_field :: "(string \<Rightarrow> string) \<Rightarrow> CORSConfig \<Rightarrow> request \<Rightarrow> header \<Rightarrow> string \<Rightarrow> string list" where
  "cors_field low c r h name =
     (if name = ''Access-Control-Allow-Origin''
      then (case granted_origin low c r of None \<Rightarrow> [] | Some origin \<Rightarrow> [origin])
      else if name = ''Access-Control-Allow-Credentials''
      then (if granted_origin low c r \<noteq> None \<and> ''*'' \<notin> set (cg_AllowedOrigins c) \<and> cg_AllowCredentials c
            then [''true''] else [])
      else if name = ''Access-Control-Expose-Headers''
      then (if granted_origin low c r \<noteq> None \<and> cg_ExposedHeaders c \<noteq> []
            then [JoinComma (cg_ExposedHeaders c)] else [])
      else if HasPrefix name ''Access-Control-'' then []
      else if name = ''Vary''
      then (if ''*'' \<in> set (cg_AllowedOrigins c) \<or> (\<exists>v \<in> set (h ''Vary''). v = ''*'' \<or> EqualFold v ''Origin'')
            then h ''Vary'' else h ''Vary'' @ [''Origin''])
      else h name)"

lemma CompileCORS_Some:
  assumes "CompileCORS low (Some c) = Some p"
  shows "cg_Enabled c" and "cq_wildcard p \<longleftrightarrow> ''*'' \<in> set (cg_AllowedOrigins c)"
    and "\<not> cq_wildcard p \<Longrightarrow> cq_origins p = map (ToLower_text low) (cg_AllowedOrigins c)"
    and "cq_allowCredentials p = cg_AllowCredentials c"
    and "cq_allowedHeaders p = cg_AllowedHeaders c" and "cq_exposedHeaders p = cg_ExposedHeaders c"
    and "cq_allowedHeaderSet p = map CanonicalMIMEHeaderKey (cg_AllowedHeaders c)"
    and "cq_allowedMethods p = (case cg_AllowedMethods c of None \<Rightarrow> defaultCORSMethods | Some ms \<Rightarrow> ms)"
    and "cq_allowedMethodSet p = map ToUpper (cq_allowedMethods p)"
  using assms by (auto simp: CompileCORS_def Let_def list_ex_iff split: if_splits)

lemma validateCORS_credentials:
  "validateCORS (Some c) = [] \<Longrightarrow> ''*'' \<in> set (cg_AllowedOrigins c) \<Longrightarrow> \<not> cg_AllowCredentials c"
  by (auto simp: validateCORS_def Let_def list_ex_iff split: if_splits)

lemma EqualFold_refl [simp]: "EqualFold s s"
  by (simp add: EqualFold_def)

lemma addVary_other: "name \<noteq> ''Vary'' \<Longrightarrow> addVary h v name = h name"
  by (auto simp: addVary_def header_Add_def)

lemma addVary_Vary:
  "addVary (drop_grants h) ''Origin'' ''Vary'' =
     (if \<exists>v \<in> set (h ''Vary''). v = ''*'' \<or> EqualFold v ''Origin'' then h ''Vary'' else h ''Vary'' @ [''Origin''])"
  by (auto simp: addVary_def header_Add_def drop_grants_def list_ex_iff)

lemma ApplyToResponse_fields:
  assumes "CompileCORS low (Some c) = Some p"
  shows "ApplyToResponse low p h r = cors_field low c r h"
proof (cases "cq_wildcard p")
  case True
  then show ?thesis
    using CompileCORS_Some [OF assms]
    by (auto simp: fun_eq_iff cors_field_def granted_origin_def ApplyToResponse_def Let_def expose_def
        header_Set_def drop_grants_def)
next
  case False
  note C = CompileCORS_Some [OF assms]
  let ?h = "addVary (drop_grants h) ''Origin''"
  have star: "''*'' \<notin> set (cg_AllowedOrigins c)" using C(2) False by simp
  have rest: "?h name = (if HasPrefix name ''Access-Control-'' then [] else h name)" if "name \<noteq> ''Vary''" for name
    using that by (simp add: addVary_other drop_grants_def)
  show ?thesis
  proof (cases "\<exists>origin. req_header r ''Origin'' = [origin] \<and> ToLower_text low origin \<in> set (cq_origins p)")
    case True
    then obtain origin where o: "req_header r ''Origin'' = [origin]" "ToLower_text low origin \<in> set (cq_origins p)"
      by blast
    then have "granted_origin low c r = Some origin"
      using star C(3) [OF False] by (auto simp: granted_origin_def)
    with o False C star rest show ?thesis
      by (auto simp: fun_eq_iff cors_field_def ApplyToResponse_def Let_def expose_def header_Set_def addVary_Vary)
  next
    case False2: False
    then have "ApplyToResponse low p h r = ?h"
      using False by (auto simp: ApplyToResponse_def Let_def split: list.splits)
    moreover have "granted_origin low c r = None"
      using False2 star C(3) [OF False] by (auto simp: granted_origin_def split: list.splits)
    ultimately show ?thesis
      using star rest by (auto simp: fun_eq_iff cors_field_def addVary_Vary)
  qed
qed

subsection \<open>One final status, decorated once\<close>

datatype writer_event =
  EvHeader int | EvWrite string | EvFlush | EvHijack bool | EvMark | EvMutate header

definition writer_exec ::
  "(string \<Rightarrow> string) \<Rightarrow> (duration \<Rightarrow> string) \<Rightarrow> response_policy \<Rightarrow> request \<Rightarrow> policyWriter \<Rightarrow> writer_event \<Rightarrow> policyWriter" where
  "writer_exec low date rp r w ev =
     (case ev of
        EvHeader code \<Rightarrow> policy_WriteHeader low date rp r w code
      | EvWrite b \<Rightarrow> fst (policy_Write low date rp r w b)
      | EvFlush \<Rightarrow> policy_Flush low date rp r w
      | EvHijack ok \<Rightarrow> policy_Hijack w ok
      | EvMark \<Rightarrow> markGeneratedResponse w
      | EvMutate h \<Rightarrow> w\<lparr>pw_header := h\<rparr>)"

definition interim :: "int \<Rightarrow> bool" where
  "interim code \<longleftrightarrow> code \<ge> 100 \<and> code < 200 \<and> code \<noteq> 101"

definition interim_calls :: "writer_call list \<Rightarrow> bool" where
  "interim_calls cs = list_all (\<lambda>c. case c of CallHeader code h \<Rightarrow> interim code | _ \<Rightarrow> False) cs"

definition body_calls :: "writer_call list \<Rightarrow> bool" where
  "body_calls cs = list_all (\<lambda>c. case c of CallHeader code h \<Rightarrow> False | _ \<Rightarrow> True) cs"

text \<open>The header the handler has built after a sequence of calls, and the final status a call
  sends if none has gone out.\<close>

fun handler_header :: "header \<Rightarrow> writer_event list \<Rightarrow> header" where
  "handler_header h [] = h"
| "handler_header h (EvMutate h' # evs) = handler_header h' evs"
| "handler_header h (ev # evs) = handler_header h evs"

definition final_status :: "writer_event \<Rightarrow> int option" where
  "final_status ev =
     (case ev of
        EvHeader code \<Rightarrow> if interim code then None else Some code
      | EvWrite b \<Rightarrow> Some 200
      | EvFlush \<Rightarrow> Some 200
      | _ \<Rightarrow> None)"

lemma handler_header_snoc:
  "handler_header h (evs @ [ev]) = (case ev of EvMutate h' \<Rightarrow> h' | _ \<Rightarrow> handler_header h evs)"
  by (induction h evs rule: handler_header.induct) (cases ev; simp)+

definition asks_none :: "writer_event list \<Rightarrow> bool" where
  "asks_none evs = list_all (\<lambda>ev. final_status ev = None) evs"

lemma asks_none_snoc [simp]: "asks_none (evs @ [ev]) \<longleftrightarrow> asks_none evs \<and> final_status ev = None"
  by (simp add: asks_none_def)

text \<open>What the writer has passed on after the calls \<open>evs\<close>: interim statuses only, or those,
  one final status at the call that asked for it, with the header the handler had then, and the
  body after it.\<close>

definition sent_by ::
  "(string \<Rightarrow> string) \<Rightarrow> (duration \<Rightarrow> string) \<Rightarrow> response_policy \<Rightarrow> request \<Rightarrow> header \<Rightarrow> writer_event list \<Rightarrow>
   writer_call list \<Rightarrow> bool" where
  "sent_by low date rp r h evs calls \<longleftrightarrow>
     (\<exists>evs1 ev evs2 before code body.
        evs = evs1 @ ev # evs2 \<and> asks_none evs1 \<and> final_status ev = Some code \<and>
        calls = before @
          CallHeader code (if EvMark \<in> set evs1 then handler_header h evs1
                           else final_header low date rp r code (handler_header h evs1)) # body \<and>
        interim_calls before \<and> \<not> interim code \<and> body_calls body)"

definition writer_history ::
  "(string \<Rightarrow> string) \<Rightarrow> (duration \<Rightarrow> string) \<Rightarrow> response_policy \<Rightarrow> request \<Rightarrow> header \<Rightarrow> writer_event list \<Rightarrow>
   policyWriter \<Rightarrow> bool" where
  "writer_history low date rp r h evs w \<longleftrightarrow>
     (pw_hijacked w \<longleftrightarrow> EvHijack True \<in> set evs) \<and>
     (if pw_wroteHeader w then sent_by low date rp r h evs (pw_calls w)
      else interim_calls (pw_calls w) \<and> (pw_hijacked w \<or> asks_none evs) \<and> pw_header w = handler_header h evs \<and>
           (pw_skip w \<longleftrightarrow> EvMark \<in> set evs))"

lemma sent_by_more:
  assumes "sent_by low date rp r h evs calls" and "body_calls extra"
  shows "sent_by low date rp r h (evs @ [ev]) (calls @ extra)"
proof -
  obtain evs1 e evs2 bf code body where "evs = evs1 @ e # evs2" "asks_none evs1" "final_status e = Some code"
    "calls = bf @ CallHeader code (if EvMark \<in> set evs1 then handler_header h evs1
        else final_header low date rp r code (handler_header h evs1)) # body"
    "interim_calls bf" "\<not> interim code" "body_calls body"
    using assms(1) unfolding sent_by_def by blast
  with assms(2) show ?thesis
    unfolding sent_by_def
    by (intro exI [of _ evs1] exI [of _ e] exI [of _ "evs2 @ [ev]"] exI [of _ bf] exI [of _ code]
        exI [of _ "body @ extra"]) (simp add: body_calls_def)
qed

lemma WriteHeader_sends:
  assumes "\<not> pw_wroteHeader w" "\<not> pw_hijacked w" "writer_history low date rp r h evs w"
    and "final_status ev = Some code" "\<not> interim code" "body_calls extra"
  shows "sent_by low date rp r h (evs @ [ev]) (pw_calls (policy_WriteHeader low date rp r w code) @ extra)"
proof -
  have hist: "interim_calls (pw_calls w)" "asks_none evs" "pw_header w = handler_header h evs" "pw_skip w \<longleftrightarrow> EvMark \<in> set evs"
    using assms(1-3) by (simp_all add: writer_history_def)
  have "pw_calls (policy_WriteHeader low date rp r w code) = pw_calls w @
      [CallHeader code (if EvMark \<in> set evs then handler_header h evs
         else final_header low date rp r code (handler_header h evs))]"
    using assms(1,2,5) hist by (auto simp: policy_WriteHeader_def interim_def Let_def)
  with hist(1,2) assms(4-6) show ?thesis
    unfolding sent_by_def
    by (intro exI [of _ evs] exI [of _ ev] exI [of _ "[]"] exI [of _ "pw_calls w"] exI [of _ code] exI [of _ extra])
       simp
qed

lemma not_interim_200: "\<not> interim 200"
  by (simp add: interim_def)

text \<open>A call that leaves the header and the mark alone and passes on a body call, or nothing.\<close>

lemma body_history:
  assumes "writer_history low date rp r h evs w" "\<not> pw_hijacked w"
    and "ev = EvWrite b \<or> ev = EvFlush" "body_calls [c]"
    and "w1 = (if \<not> pw_wroteHeader w then policy_WriteHeader low date rp r w 200 else w)"
  shows "writer_history low date rp r h (evs @ [ev]) (w1\<lparr>pw_calls := pw_calls w1 @ [c]\<rparr>)"
proof (cases "pw_wroteHeader w")
  case True
  with assms show ?thesis by (auto simp: writer_history_def sent_by_more)
next
  case False
  then have "pw_wroteHeader w1" "\<not> pw_hijacked w1" using assms(2,5) by (simp_all add: policy_WriteHeader_def Let_def)
  moreover have "EvHijack True \<notin> set (evs @ [ev])" using assms(1-3) by (auto simp: writer_history_def)
  moreover have "sent_by low date rp r h (evs @ [ev]) (pw_calls w1 @ [c])"
    using WriteHeader_sends [OF False assms(2,1), of ev 200 "[c]"] assms(3-5) False
    by (auto simp: final_status_def not_interim_200)
  ultimately show ?thesis by (simp add: writer_history_def)
qed

lemma writer_exec_history:
  assumes hist: "writer_history low date rp r h evs w"
  shows "writer_history low date rp r h (evs @ [ev]) (writer_exec low date rp r w ev)"
proof -
  have same: "writer_history low date rp r h (evs @ [ev]) w"
    if "ev \<noteq> EvHijack True"
      "pw_wroteHeader w \<or> (\<forall>h'. ev \<noteq> EvMutate h') \<and> ev \<noteq> EvMark \<and> (pw_hijacked w \<or> final_status ev = None)"
    using hist that sent_by_more [of low date rp r h evs "pw_calls w" "[]"]
    by (auto simp: writer_history_def handler_header_snoc body_calls_def split: writer_event.splits)
  show ?thesis
  proof (cases ev)
    case (EvHeader code)
    consider (over) "pw_wroteHeader w \<or> pw_hijacked w"
      | (between) "\<not> pw_wroteHeader w" "\<not> pw_hijacked w" "interim code"
      | (last) "\<not> pw_wroteHeader w" "\<not> pw_hijacked w" "\<not> interim code" by blast
    then show ?thesis
    proof cases
      case over
      with EvHeader same show ?thesis by (auto simp: writer_exec_def policy_WriteHeader_def)
    next
      case between
      with EvHeader hist show ?thesis
        by (auto simp: writer_exec_def policy_WriteHeader_def writer_history_def interim_calls_def
            interim_def [symmetric] handler_header_snoc final_status_def)
    next
      case last
      then have "pw_wroteHeader (policy_WriteHeader low date rp r w code)"
        "pw_hijacked (policy_WriteHeader low date rp r w code) \<longleftrightarrow> EvHijack True \<in> set evs"
        using hist by (simp_all add: writer_history_def policy_WriteHeader_def interim_def [symmetric] Let_def)
      with WriteHeader_sends [OF last(1,2) hist, of ev code "[]"] EvHeader last(3) show ?thesis
        by (simp add: writer_exec_def writer_history_def final_status_def body_calls_def)
    qed
  next
    case (EvWrite b)
    then show ?thesis
      using same body_history [OF hist, of ev b "CallWrite b"]
      by (auto simp: writer_exec_def policy_Write_def body_calls_def Let_def)
  next
    case EvFlush
    then show ?thesis
      using same body_history [OF hist, of ev _ CallFlush]
      by (auto simp: writer_exec_def policy_Flush_def body_calls_def Let_def)
  next
    case (EvHijack ok)
    then show ?thesis
      using hist sent_by_more [of low date rp r h evs "pw_calls w" "[]"]
      by (cases "pw_wroteHeader w")
         (auto simp: writer_exec_def policy_Hijack_def writer_history_def handler_header_snoc final_status_def
           body_calls_def)
  next
    case EvMark
    then show ?thesis
      using hist same
      by (cases "pw_wroteHeader w")
         (auto simp: writer_exec_def markGeneratedResponse_def writer_history_def handler_header_snoc final_status_def)
  next
    case (EvMutate h')
    then show ?thesis
      using hist same
      by (cases "pw_wroteHeader w") (auto simp: writer_exec_def writer_history_def handler_header_snoc final_status_def)
  qed
qed

lemma writer_run_history:
  "writer_history low date rp r h evs (foldl (writer_exec low date rp r) (new_policyWriter h) evs)"
proof (induction evs rule: rev_induct)
  case Nil
  show ?case by (simp add: asks_none_def writer_history_def new_policyWriter_def interim_calls_def)
next
  case (snoc ev evs)
  then show ?case by (simp add: writer_exec_history)
qed

text \<open>The header after the handler's header operations: the expiry of the status, then the
  operations of the location in order.\<close>

definition operated_header ::
  "(duration \<Rightarrow> string) \<Rightarrow> response_policy \<Rightarrow> int \<Rightarrow> header \<Rightarrow> header" where
  "operated_header date rp code h =
     foldl apply_op
       (case rp_expires rp of Some d \<Rightarrow> if expirationStatus code then applyExpiration date h d else h | None \<Rightarrow> h)
       (rp_ops rp)"

text \<open>C38: A browser is told what the location's configuration grants and nothing else, on every
  response and however the handler writes it. In every sequence of status, body, flush, hijack,
  mark and header calls at most one final status goes out, at the call that first asks for one,
  after interim statuses only and before any body; none goes out only where no call asks for one
  or the connection has been hijacked. Its header is determined field by field by
  the header the handler had built by then, with the expiry and the location's header operations
  applied. Access is granted to the wildcard where it is configured, without credentials, and
  otherwise to the request's own origin exactly when the request has one origin and its
  lower-case text is that of a configured one, with credentials as configured; no other field of
  the CORS family is sent, so no grant of the upstream's own survives; the origin is added to the
  fields the response varies by unless the wildcard is configured; and every other field is left
  alone. A switch of protocols and an answer the server itself has generated and marked before
  that call, a preflight's, are the exceptions.\<close>

theorem cors_response_contract:
  assumes "CompileCORS low (Some c) = Some p" and "rp_cors rp = Some p"
    and "w = foldl (writer_exec low date rp r) (new_policyWriter h) evs"
  shows "interim_calls (pw_calls w) \<and> (EvHijack True \<in> set evs \<or> asks_none evs) \<or>
         (\<exists>evs1 ev evs2 before code h' body.
            evs = evs1 @ ev # evs2 \<and> asks_none evs1 \<and> final_status ev = Some code \<and>
            pw_calls w = before @ CallHeader code h' # body \<and>
            interim_calls before \<and> \<not> interim code \<and> body_calls body \<and>
            (EvMark \<in> set evs1 \<or> code = 101 \<or>
             h' = cors_field low c r (operated_header date rp code (handler_header h evs1))))"
proof -
  have final: "final_header low date rp r code h0 = cors_field low c r (operated_header date rp code h0)"
    if "code \<noteq> 101" for code h0
    using that assms(2) ApplyToResponse_fields [OF assms(1)]
    by (simp add: final_header_def operated_header_def Let_def)
  have "writer_history low date rp r h evs w" unfolding assms(3) by (rule writer_run_history)
  then consider (unsent) "interim_calls (pw_calls w)" "EvHijack True \<in> set evs \<or> asks_none evs" | (sent) "sent_by low date rp r h evs (pw_calls w)"
    by (auto simp: writer_history_def split: if_splits)
  then show ?thesis
  proof cases
    case sent
    then obtain evs1 ev evs2 bf code body where s: "evs = evs1 @ ev # evs2" "asks_none evs1" "final_status ev = Some code"
      "pw_calls w = bf @ CallHeader code (if EvMark \<in> set evs1 then handler_header h evs1
          else final_header low date rp r code (handler_header h evs1)) # body"
      "interim_calls bf" "\<not> interim code" "body_calls body"
      unfolding sent_by_def by blast
    moreover have "EvMark \<in> set evs1 \<or> code = 101 \<or>
        (if EvMark \<in> set evs1 then handler_header h evs1
         else final_header low date rp r code (handler_header h evs1)) =
        cors_field low c r (operated_header date rp code (handler_header h evs1))"
      using final [of code] by auto
    ultimately show ?thesis by blast
  qed blast
qed

definition sample_cors :: CORSConfig where
  "sample_cors =
     \<lparr>cg_Enabled = True, cg_AllowedOrigins = [''https://App.example''], cg_AllowedMethods = None,
      cg_AllowedHeaders = [''x-token''], cg_ExposedHeaders = [], cg_AllowCredentials = True,
      cg_MaxAge = Some (600 * second)\<rparr>"

definition sample_cors_policy :: CORSPolicy where
  "sample_cors_policy =
     \<lparr>cq_wildcard = False, cq_origins = [''https://app.example''], cq_allowCredentials = True,
      cq_allowedMethods = [''GET'', ''HEAD'', ''POST''], cq_allowedMethodSet = [''GET'', ''HEAD'', ''POST''],
      cq_allowedHeaders = [''x-token''], cq_allowedHeaderSet = [''X-Token''], cq_exposedHeaders = [],
      cq_maxAgeSeconds = Some 600\<rparr>"

text \<open>The case mapping on text whose only letters outside ASCII are Kelvin signs, three bytes
  each, which map to the letter k.\<close>

fun kelvin_lower :: "string \<Rightarrow> string" where
  "kelvin_lower [] = []"
| "kelvin_lower (a # s) =
     (if a = CHR 0xE2 \<and> take 2 s = [CHR 0x84, CHR 0xAA] then CHR ''k'' # kelvin_lower (drop 2 s)
      else to_lower a # kelvin_lower s)"

lemma sample_cors_compiles: "CompileCORS kelvin_lower (Some sample_cors) = Some sample_cors_policy"
  by code_simp

lemma sample_cors_valid: "validateCORS (Some sample_cors) = []"
  by code_simp

definition sample_cors_request :: request where
  "sample_cors_request =
     \<lparr>req_method = ''GET'', req_host = ''a'',
      req_header = (\<lambda>n. if n = ''Origin'' then [''https://app.example''] else []),
      req_path = ''/'', req_raw_path = [], req_raw_query = [], req_uri = ''/'', req_tls = False\<rparr>"

definition sample_cors_writer :: policyWriter where
  "sample_cors_writer =
     foldl (writer_exec kelvin_lower (\<lambda>_. []) \<lparr>rp_ops = [], rp_cors = Some sample_cors_policy, rp_expires = None\<rparr> sample_cors_request)
       (new_policyWriter (\<lambda>n. if n = ''Access-Control-Allow-Origin'' then [''https://evil.example''] else []))
       [EvWrite ''hi'']"

definition sample_cors_sent :: header where
  "sample_cors_sent =
     ApplyToResponse kelvin_lower sample_cors_policy
       (\<lambda>n. if n = ''Access-Control-Allow-Origin'' then [''https://evil.example''] else []) sample_cors_request"

lemma sample_cors_calls:
  "pw_calls sample_cors_writer = [CallHeader 200 sample_cors_sent, CallWrite ''hi'']" "\<not> pw_skip sample_cors_writer"
  by (simp_all add: sample_cors_writer_def sample_cors_sent_def writer_exec_def policy_Write_def
      policy_WriteHeader_def new_policyWriter_def Let_def final_header_def)

theorem cors_response_contract_witness:
  "\<exists>h. sample_cors_sent = cors_field kelvin_lower sample_cors sample_cors_request h \<and>
       h ''Access-Control-Allow-Origin'' = [''https://evil.example''] \<and>
       sample_cors_sent ''Access-Control-Allow-Origin'' = [''https://app.example'']"
proof -
  let ?h = "\<lambda>n. if n = ''Access-Control-Allow-Origin'' then [''https://evil.example''] else []"
  let ?rp = "\<lparr>rp_ops = [], rp_cors = Some sample_cors_policy, rp_expires = None\<rparr>"
  have cors: "rp_cors ?rp = Some sample_cors_policy" by simp
  obtain evs1 ev evs2 bf code h' body where s: "[EvWrite ''hi''] = evs1 @ ev # evs2"
    "final_status ev = Some code" "pw_calls sample_cors_writer = bf @ CallHeader code h' # body"
    "EvMark \<in> set evs1 \<or> code = 101 \<or>
     h' = cors_field kelvin_lower sample_cors sample_cors_request
            (operated_header (\<lambda>_. []) ?rp code (handler_header ?h evs1))"
    using cors_response_contract [OF sample_cors_compiles cors sample_cors_writer_def]
      sample_cors_calls(1) by (auto simp: interim_calls_def)
  then have "evs1 = []" "ev = EvWrite ''hi''" by (auto simp: Cons_eq_append_conv)
  with s sample_cors_calls(1)
  have "sample_cors_sent = cors_field kelvin_lower sample_cors sample_cors_request ?h"
    by (auto simp: final_status_def operated_header_def Cons_eq_append_conv)
  moreover have "sample_cors_sent ''Access-Control-Allow-Origin'' = [''https://app.example'']" by code_simp
  ultimately show ?thesis by (intro exI [of _ ?h]) simp
qed

subsection \<open>The answer to a preflight\<close>

lemma length_JoinComma: "length (JoinComma xs) = joinedLen xs"
  by (induction xs rule: JoinComma.induct) (auto simp: joinedLen_def)

lemma approve_tokens_sound:
  "approve_tokens p n toks = Some m \<Longrightarrow>
   m = n + length toks \<and> (toks \<noteq> [] \<longrightarrow> m \<le> maxPreflightRequestHeaders) \<and>
   (\<forall>t \<in> set toks. CanonicalMIMEHeaderKey (TrimSpace t) \<in> set (cq_allowedHeaderSet p))"
proof (induction toks arbitrary: n)
  case (Cons t toks)
  from Cons.prems have rest: "approve_tokens p (Suc n) toks = Some m" "Suc n \<le> maxPreflightRequestHeaders"
    "CanonicalMIMEHeaderKey (TrimSpace t) \<in> set (cq_allowedHeaderSet p)"
    by (auto simp: Let_def split: if_splits)
  with Cons.IH [OF rest(1)] show ?case by (cases "toks = []") simp_all
qed simp

definition requested_tokens :: "string list \<Rightarrow> string list" where
  "requested_tokens values = concat (map (\<lambda>v. Split v CHR '','') values)"

lemma approve_values_sound:
  "approve_values p n values \<Longrightarrow> n \<le> maxPreflightRequestHeaders \<Longrightarrow>
   n + length (requested_tokens values) \<le> maxPreflightRequestHeaders \<and>
   (\<forall>t \<in> set (requested_tokens values). CanonicalMIMEHeaderKey (TrimSpace t) \<in> set (cq_allowedHeaderSet p))"
proof (induction "values" arbitrary: n)
  case (Cons v vs)
  then obtain m where m: "approve_tokens p n (Split v CHR '','') = Some m" "approve_values p m vs"
    by (auto split: option.splits)
  with approve_tokens_sound [OF m(1)] Cons.IH [OF m(2)] show ?case
    by (auto simp: requested_tokens_def)
qed (simp add: requested_tokens_def)

lemma validateCORS_origin_length:
  assumes "validateCORS (Some c) = []" and "configured \<in> set (cg_AllowedOrigins c)"
  shows "length configured \<le> MaxCORSOriginBytes"
proof -
  obtain i where "(i, configured) \<in> set (enumerate 0 (cg_AllowedOrigins c))"
  proof -
    from assms(2) obtain i where "i < length (cg_AllowedOrigins c)" "configured = cg_AllowedOrigins c ! i"
      by (auto simp: in_set_conv_nth)
    then have "(i, configured) \<in> set (enumerate 0 (cg_AllowedOrigins c))" by (simp add: in_set_enumerate_eq)
    with that show ?thesis .
  qed
  with assms(1) have "origin_errors (i, configured) = []"
    by (auto simp: validateCORS_def Let_def)
  then show ?thesis by (auto simp: origin_errors_def MaxCORSOriginBytes_def split: if_splits)
qed

lemma validateCORS_max_age:
  assumes "validateCORS (Some c) = []" and "cg_MaxAge c = Some d"
  shows "0 \<le> d \<and> d \<le> 86400 * second"
  using assms by (auto simp: validateCORS_def Let_def max_age_errors_def MaxCORSMaxAge_def split: if_splits)

definition field_block :: "(string \<times> string) list \<Rightarrow> nat" where
  "field_block fs = sum_list (map (\<lambda>(n, v). length n + 2 + length v) fs)"

lemma preflight_block_estimate:
  assumes p: "CompileCORS low (Some c) = Some p" and ok: "validateCORS (Some c) = []"
  shows "field_block (preflight_fields p g) \<le> estimateCORSHeaderBytes c + (length g - MaxCORSOriginBytes)"
proof -
  note C = CompileCORS_Some [OF p]
  have methods: "(if cq_allowedMethods p \<noteq> [] then 30 + length (JoinComma (cq_allowedMethods p)) else 0)
     \<le> (if methods_of c \<noteq> [] then 30 + joinedLen (methods_of c) else 45)"
    by (auto simp: C(8) methods_of_def length_JoinComma defaultCORSMethods_def joinedLen_def split: option.splits)
  have age: "(case cq_maxAgeSeconds p of None \<Rightarrow> 0 | Some n \<Rightarrow> 24 + length (Itoa n))
     \<le> (if cg_MaxAge c \<noteq> None then 29 else 0)"
  proof (cases "cg_MaxAge c")
    case None
    then show ?thesis using p by (auto simp: CompileCORS_def Let_def split: if_splits)
  next
    case (Some d)
    then have d: "0 \<le> d" "d div second \<le> 86400"
      using validateCORS_max_age [OF ok Some] by (auto simp: second_def)
    then have "length (FormatUint (nat (d div second))) \<le> 5"
      by (intro FormatUint_length) (simp_all add: second_def nat_less_iff)
    moreover have "cq_maxAgeSeconds p = Some (d div second)"
      using p Some d by (auto simp: CompileCORS_def Let_def split: if_splits)
    moreover have "0 \<le> d div second" using d(1) by (simp add: second_def pos_imp_zdiv_nonneg_iff)
    ultimately show ?thesis using Some by (simp add: Itoa_def)
  qed
  have est: "estimateCORSHeaderBytes c = 29 + MaxCORSOriginBytes +
      (if methods_of c \<noteq> [] then 30 + joinedLen (methods_of c) else 45) +
      (if cg_AllowedHeaders c \<noteq> [] then 30 + joinedLen (cg_AllowedHeaders c) else 0) +
      (if cg_ExposedHeaders c \<noteq> [] then 31 + joinedLen (cg_ExposedHeaders c) else 0) +
      (if cg_AllowCredentials c then 38 else 0) + (if cg_MaxAge c \<noteq> None then 29 else 0) + 75"
    by (simp add: estimateCORSHeaderBytes_def)
  have vary: "joinedLen (preflight_vary p) \<le> 69"
    by (simp add: joinedLen_def preflight_vary_def)
  have "field_block (preflight_fields p g) \<le>
      29 + length g +
      (if cq_allowedMethods p \<noteq> [] then 30 + length (JoinComma (cq_allowedMethods p)) else 0) +
      (if cg_AllowedHeaders c \<noteq> [] then 30 + joinedLen (cg_AllowedHeaders c) else 0) +
      (case cq_maxAgeSeconds p of None \<Rightarrow> 0 | Some n \<Rightarrow> 24 + length (Itoa n)) +
      (if cg_AllowCredentials c then 38 else 0) + 75"
    using vary
    by (simp add: preflight_fields_def field_block_def C(4,5) length_JoinComma split: option.split)
  also have "\<dots> \<le> estimateCORSHeaderBytes c + (length g - MaxCORSOriginBytes)"
    unfolding est using methods age by linarith
  finally show ?thesis .
qed

text \<open>What an approved preflight asks for is configured.\<close>

lemma EvaluatePreflight_approves:
  assumes "CompileCORS low (Some c) = Some p" and "EvaluatePreflight low p r = Some g"
  shows "''*'' \<in> set (cg_AllowedOrigins c) \<or>
      (\<exists>configured \<in> set (cg_AllowedOrigins c).
        ToLower_text low (header_Get (req_header r) ''Origin'') = ToLower_text low configured)"
    and "\<exists>m \<in> set (cq_allowedMethods p).
      ToUpper m = ToUpper (header_Get (req_header r) ''Access-Control-Request-Method'')"
    and "length (requested_tokens (req_header r ''Access-Control-Request-Headers'')) \<le> 64"
    and "\<forall>t \<in> set (requested_tokens (req_header r ''Access-Control-Request-Headers'')).
      \<exists>name \<in> set (cg_AllowedHeaders c). CanonicalMIMEHeaderKey name = CanonicalMIMEHeaderKey (TrimSpace t)"
proof -
  note C = CompileCORS_Some [OF assms(1)]
  let ?asked = "ToUpper (header_Get (req_header r) ''Access-Control-Request-Method'')"
  let ?tokens = "requested_tokens (req_header r ''Access-Control-Request-Headers'')"
  have ev: "cq_wildcard p \<or> ToLower_text low (header_Get (req_header r) ''Origin'') \<in> set (cq_origins p)"
    "?asked \<in> set (cq_allowedMethodSet p)"
    "requestedHeadersApproved p (req_header r ''Access-Control-Request-Headers'')"
    using assms(2) by (auto simp: EvaluatePreflight_def Let_def split: if_splits)
  show "''*'' \<in> set (cg_AllowedOrigins c) \<or>
      (\<exists>configured \<in> set (cg_AllowedOrigins c).
        ToLower_text low (header_Get (req_header r) ''Origin'') = ToLower_text low configured)"
    using ev(1) C(2,3) by (cases "cq_wildcard p") auto
  from ev(2) obtain m where "m \<in> set (cq_allowedMethods p)" "?asked = ToUpper m"
    unfolding C(9) set_map by (rule imageE)
  then show "\<exists>m \<in> set (cq_allowedMethods p). ToUpper m = ?asked" by (intro bexI [of _ m]) simp_all
  have tokens: "length ?tokens \<le> 64" "\<forall>t \<in> set ?tokens. CanonicalMIMEHeaderKey (TrimSpace t) \<in> set (cq_allowedHeaderSet p)"
    using approve_values_sound [of p 0 "req_header r ''Access-Control-Request-Headers''"] ev(3)
    by (auto simp: requestedHeadersApproved_def maxPreflightRequestHeaders_def)
  show "length ?tokens \<le> 64" by (rule tokens(1))
  show "\<forall>t \<in> set ?tokens. \<exists>name \<in> set (cg_AllowedHeaders c). CanonicalMIMEHeaderKey name = CanonicalMIMEHeaderKey (TrimSpace t)"
    using tokens(2) unfolding C(7) set_map image_iff by (metis (no_types))
qed

text \<open>The origin that is answered is the wildcard or the request's own, and an ASCII one is as long
  as the configured origin it matches.\<close>

lemma EvaluatePreflight_origin:
  assumes "CompileCORS low (Some c) = Some p" and "EvaluatePreflight low p r = Some g"
  shows "g = (if ''*'' \<in> set (cg_AllowedOrigins c) then ''*'' else header_Get (req_header r) ''Origin'')"
  using CompileCORS_Some(2) [OF assms(1)] assms(2) by (auto simp: EvaluatePreflight_def Let_def split: if_splits)

lemma ascii_origin_length:
  assumes "CompileCORS low (Some c) = Some p" and "validateCORS (Some c) = []"
    and "EvaluatePreflight low p r = Some g"
    and "all_ascii g" "list_all all_ascii (cg_AllowedOrigins c)"
  shows "length g \<le> MaxCORSOriginBytes"
proof (cases "''*'' \<in> set (cg_AllowedOrigins c)")
  case True
  with EvaluatePreflight_origin [OF assms(1,3)] show ?thesis by (simp add: MaxCORSOriginBytes_def)
next
  case False
  then obtain configured where conf: "configured \<in> set (cg_AllowedOrigins c)"
    "ToLower_text low g = ToLower_text low configured"
    using EvaluatePreflight_approves(1) [OF assms(1,3)] EvaluatePreflight_origin [OF assms(1,3)] by auto
  then have "ToLower g = ToLower configured"
    using assms(4,5) by (auto simp: ToLower_text_def list_all_iff)
  then have "length g = length configured" by (metis ToLower_def length_map)
  then show ?thesis using validateCORS_origin_length [OF assms(2) conf(1)] by simp
qed

text \<open>C39: An approved preflight is one the configuration approves, and its answer stays small.
  When the server answers a preflight itself, for a validated configuration, the rate limit and
  the firewall have let it pass, its origin has the lower-case text of a configured one (or the
  wildcard is configured), its method is configured, it asks for at most 64 headers and each of
  them is configured, the status is 204, and the origin sent back is the wildcard or the
  request's own. The header block that the answer adds is within the 4096 bytes that validation
  estimates for it, except for what the origin sent back is longer than the 256 bytes the
  estimate counts for it; where that origin and the configured ones are ASCII there is no such
  excess.\<close>

theorem preflight_answer_bounded:
  assumes "CompileCORS low (Some c) = Some p" and "validateCORS (Some c) = []"
    and "Preflight low p rateLimit waf h r = Answered (h', code)"
  shows "IsPreflight r \<and> code = 204 \<and>
         (\<forall>passes \<in> set_option rateLimit \<union> set_option waf. passes r) \<and>
         (''*'' \<in> set (cg_AllowedOrigins c) \<or>
          (\<exists>configured \<in> set (cg_AllowedOrigins c).
             ToLower_text low (header_Get (req_header r) ''Origin'') = ToLower_text low configured)) \<and>
         (\<exists>m \<in> set (cq_allowedMethods p).
            ToUpper m = ToUpper (header_Get (req_header r) ''Access-Control-Request-Method'')) \<and>
         length (requested_tokens (req_header r ''Access-Control-Request-Headers'')) \<le> 64 \<and>
         (\<forall>t \<in> set (requested_tokens (req_header r ''Access-Control-Request-Headers'')).
            \<exists>name \<in> set (cg_AllowedHeaders c). CanonicalMIMEHeaderKey name = CanonicalMIMEHeaderKey (TrimSpace t)) \<and>
         (\<exists>g. g = (if ''*'' \<in> set (cg_AllowedOrigins c) then ''*'' else header_Get (req_header r) ''Origin'') \<and>
              h' = fst (WritePreflightResponse p h g) \<and>
              field_block (preflight_fields p g) \<le> 4096 + (length g - 256) \<and>
              (all_ascii g \<and> list_all all_ascii (cg_AllowedOrigins c) \<longrightarrow>
               field_block (preflight_fields p g) \<le> 4096))"
proof -
  obtain g where pre: "IsPreflight r" and g: "EvaluatePreflight low p r = Some g"
    and ans: "(h', code) = WritePreflightResponse p h g"
    and guards: "\<forall>passes \<in> set_option rateLimit \<union> set_option waf. passes r"
    using assms(3)
    by (auto simp: Preflight_def preflight_route_def run_guard_def split: if_splits option.splits preflight_branch.splits)
  have "estimateCORSHeaderBytes c \<le> 4096"
    using assms(2) by (auto simp: validateCORS_def Let_def MaxCORSGeneratedHeaderBytes_def split: if_splits)
  then have block: "field_block (preflight_fields p g) \<le> 4096 + (length g - 256)"
    using preflight_block_estimate [OF assms(1,2), of g] by (simp add: MaxCORSOriginBytes_def)
  then have "field_block (preflight_fields p g) \<le> 4096"
    if "all_ascii g \<and> list_all all_ascii (cg_AllowedOrigins c)"
    using ascii_origin_length [OF assms(1,2) g] that by (simp add: MaxCORSOriginBytes_def)
  moreover have "code = 204" "h' = fst (WritePreflightResponse p h g)"
    using ans by (auto simp: WritePreflightResponse_def)
  ultimately show ?thesis
    using pre guards block EvaluatePreflight_approves [OF assms(1) g] EvaluatePreflight_origin [OF assms(1) g]
    by (intro conjI) blast+
qed

definition sample_preflight :: request where
  "sample_preflight = sample_cors_request
     \<lparr>req_method := ''OPTIONS'',
      req_header := (\<lambda>n. if n = ''Origin'' then [''https://app.example'']
                        else if n = ''Access-Control-Request-Method'' then [''POST'']
                        else if n = ''Access-Control-Request-Headers'' then ['' X-Token'']
                        else [])\<rparr>"

theorem preflight_answer_bounded_witness:
  "Preflight kelvin_lower sample_cors_policy (Some (\<lambda>_. True)) None (\<lambda>_. []) sample_preflight
     = Answered (fst (WritePreflightResponse sample_cors_policy (\<lambda>_. []) ''https://app.example''), 204) \<and>
   length (requested_tokens (req_header sample_preflight ''Access-Control-Request-Headers'')) \<le> 64 \<and>
   field_block (preflight_fields sample_cors_policy ''https://app.example'') \<le> 4096"
proof -
  have route: "preflight_route kelvin_lower sample_cors_policy sample_preflight = Guarded ''https://app.example''"
    by code_simp
  have ans: "Preflight kelvin_lower sample_cors_policy (Some (\<lambda>_. True)) None (\<lambda>_. []) sample_preflight
     = Answered (fst (WritePreflightResponse sample_cors_policy (\<lambda>_. []) ''https://app.example''), 204)"
    unfolding Preflight_def route by (simp add: run_guard_def WritePreflightResponse_def)
  have origin: "(if ''*'' \<in> set (cg_AllowedOrigins sample_cors) then ''*''
      else header_Get (req_header sample_preflight) ''Origin'') = ''https://app.example''" by code_simp
  have ascii: "all_ascii ''https://app.example'' \<and> list_all all_ascii (cg_AllowedOrigins sample_cors)" by code_simp
  from preflight_answer_bounded [OF sample_cors_compiles sample_cors_valid ans, unfolded origin]
  show ?thesis using ans ascii by blast
qed

text \<open>An origin longer than any that can be configured is accepted and sent back. The configured
  origin ends in 248 letters k; the request's has a Kelvin sign for each, three bytes long, and
  the same lower-case text. The configuration is valid, with an estimate within the limit, and
  the answer is longer than the limit.\<close>

definition kelvin_cors :: CORSConfig where
  "kelvin_cors =
     \<lparr>cg_Enabled = True, cg_AllowedOrigins = [''http://'' @ replicate 248 CHR ''k''], cg_AllowedMethods = None,
      cg_AllowedHeaders = replicate 13 (replicate 250 CHR ''x''), cg_ExposedHeaders = [],
      cg_AllowCredentials = False, cg_MaxAge = None\<rparr>"

definition kelvin_origin :: string where
  "kelvin_origin = ''http://'' @ concat (replicate 248 [CHR 0xE2, CHR 0x84, CHR 0xAA])"

definition kelvin_preflight :: request where
  "kelvin_preflight = sample_preflight
     \<lparr>req_header := (\<lambda>n. if n = ''Origin'' then [kelvin_origin]
                        else if n = ''Access-Control-Request-Method'' then [''POST'']
                        else [])\<rparr>"

lemma kelvin_cors_valid: "validateCORS (Some kelvin_cors) = []"
proof -
  have origin: "origin_errors (0, ''http://'' @ replicate 248 CHR ''k'') = []" by code_simp
  have "validateCORSToken (replicate 250 CHR ''x'') = None" by code_simp
  then have headers: "token_errors BadHeader (replicate 13 (replicate 250 CHR ''x'')) = []"
    by (auto simp: token_errors_def enumerate_replicate_eq)
  have block: "estimateCORSHeaderBytes kelvin_cors \<le> MaxCORSGeneratedHeaderBytes"
    by (simp add: estimateCORSHeaderBytes_def kelvin_cors_def methods_of_def joinedLen_def MaxCORSOriginBytes_def
        MaxCORSGeneratedHeaderBytes_def sum_list_replicate)
  show ?thesis
    using origin headers block
    by (simp add: validateCORS_def kelvin_cors_def Let_def MaxCORSOrigins_def methods_of_def
        MaxCORSAllowedMethods_def MaxCORSAllowedHeaders_def MaxCORSExposedHeaders_def token_errors_def max_age_errors_def)
qed

lemma kelvin_lowers: "ToLower_text kelvin_lower kelvin_origin = ToLower_text kelvin_lower (''http://'' @ replicate 248 CHR ''k'')"
  by code_simp

lemma kelvin_origin_exceeds_block:
  "validateCORS (Some kelvin_cors) = [] \<and>
   (\<exists>p. CompileCORS kelvin_lower (Some kelvin_cors) = Some p \<and>
        EvaluatePreflight kelvin_lower p kelvin_preflight = Some kelvin_origin \<and>
        256 < length kelvin_origin \<and> 4096 < field_block (preflight_fields p kelvin_origin))"
proof -
  obtain p where p: "CompileCORS kelvin_lower (Some kelvin_cors) = Some p"
    by (simp add: CompileCORS_def kelvin_cors_def Let_def)
  note C = CompileCORS_Some [OF p]
  have star: "\<not> cq_wildcard p" using C(2) by (simp add: kelvin_cors_def)
  have keys: "CanonicalMIMEHeaderKey ''Origin'' = ''Origin''"
    "CanonicalMIMEHeaderKey ''Access-Control-Request-Method'' = ''Access-Control-Request-Method''" by code_simp+
  have req: "header_Get (req_header kelvin_preflight) ''Origin'' = kelvin_origin"
    "header_Get (req_header kelvin_preflight) ''Access-Control-Request-Method'' = ''POST''"
    "req_header kelvin_preflight ''Access-Control-Request-Headers'' = []"
    by (simp_all add: header_Get_def kelvin_preflight_def keys)
  have "ToLower_text kelvin_lower kelvin_origin \<in> set (cq_origins p)"
    using C(3) [OF star] kelvin_lowers by (simp add: kelvin_cors_def)
  moreover have "ToUpper ''POST'' \<in> set (cq_allowedMethodSet p)"
    by (simp add: C(8,9) kelvin_cors_def defaultCORSMethods_def)
  ultimately have "EvaluatePreflight kelvin_lower p kelvin_preflight = Some kelvin_origin"
    by (simp add: EvaluatePreflight_def Let_def req star requestedHeadersApproved_def)
  moreover have len: "length kelvin_origin = 751"
    by (simp add: kelvin_origin_def length_concat sum_list_replicate)
  moreover have "field_block (preflight_fields p kelvin_origin) \<ge> 29 + 751 + 45 + 30 + 3274"
    by (simp add: field_block_def preflight_fields_def C(5,8) length_JoinComma kelvin_cors_def joinedLen_def len
        defaultCORSMethods_def sum_list_replicate)
  ultimately show ?thesis using p kelvin_cors_valid by (intro conjI exI [of _ p]) simp_all
qed

text \<open>An origin on an IPv6 address cannot be configured: the grammar takes the first colon of the
  address for the start of a port.\<close>

lemma ipv6_origin_refused: "validateOriginGrammar ''http://[::1]:3000'' = Some InvalidPort"
  by code_simp

end
