(* ===== verification/Spec2Isabelle.thy ===== *)
theory Spec2Isabelle
  imports
    Circuit_Props Admission_Props Budget_Steps Pool_Do Balancer_Props
    Router_Lint Router_Explain Clientaddr Rbac Cache_Props Cache_Flight Cache_Capture Stream_Props Udp
    Egress_Gen Ratelimit Cors
begin

text \<open>
  \<^bold>\<open>A verification of the traffic core of the Jul gateway\<close>

  Jul is a gateway written in Go: it accepts requests, works out who the client is, routes the
  request to a location, and serves it from a cache or from one of the backends of an upstream
  pool, under circuit breakers, admission limits and a retry budget. Rate limits and CORS rules
  stand in front of a location, and an allow-list guards the gateway's own outbound requests. An
  administration API changes the running configuration under role-based access control. This
  development models the parts that decide, and leaves out the parts that move bytes.

  \<^bold>\<open>How a request passes through the modelled parts\<close>

  \<^item> \<^verbatim>\<open>clientaddr.Derive\<close> reads the forwarding headers and fixes the client address.
  \<^item> \<^verbatim>\<open>Router.For\<close> picks the server block by host, canonicalises the path, selects a
    location by path and predicates, and ends in a redirect, a withdrawal, a 404 or a handler.
  \<^item> The location's rate limit and its CORS policy decide whether the request goes on, and the
    response policy writes the final header.
  \<^item> The cache decides whether a stored response may be reused, and answers from its memory
    tier, whole or as a byte range. Of several misses one fetches and the others wait; the
    response is captured on its way, under a budget all captures share.
  \<^item> \<^verbatim>\<open>Admission.Acquire\<close> bounds the requests in flight of a pool and queues the rest.
  \<^item> \<^verbatim>\<open>Pool.Do\<close> drives the attempts: it picks a backend through the balancer and the
    affinity key, claims it at its circuit breaker, reports the result, and retries under the
    retry rule, the backoff and the budget.
  \<^item> A stream connection skips the router and the cache: \<^verbatim>\<open>proxyproto.ReadHeader\<close> fixes its
    addresses, \<^verbatim>\<open>peekClientHello\<close> reads the server name and the protocols the client
    offers without consuming them, and \<^verbatim>\<open>selectPool\<close> turns them into an upstream pool.
    Datagrams are grouped into sessions, one per client address.
  \<^item> \<^verbatim>\<open>rbac.Policy\<close> authenticates and authorises administrators.
  \<^item> Key sets, discovery, certificates and plugins reach the network only through
    \<^verbatim>\<open>egress.Policy\<close>.

  \<^bold>\<open>Theories and sources\<close>

  \<^descr> Foundations. \<^verbatim>\<open>Prelude\<close> has the scalar types, reachability and the locales
    \<open>invariant_system\<close>, \<open>event_machine\<close> and \<open>prefix_code\<close> (encodings that cannot
    run into what follows them); \<^verbatim>\<open>Gostrings\<close> has the functions of Go's string packages the
    code calls, on byte strings.
  \<^descr> Circuit breaker, \<^verbatim>\<open>src/internal/upstream/circuit.go\<close>. \<^verbatim>\<open>Circuit\<close> has the record
    of the breaker and one definition per method, a mutex section as one step;
    \<^verbatim>\<open>Circuit_Runs\<close> interleaves any number of callers with tokens in flight;
    \<^verbatim>\<open>Circuit_Props\<close> has the invariant, the trip threshold, generations, the probe bound,
    and the lock-free gate between the single stores of a transition.
  \<^descr> Resilience policy, \<^verbatim>\<open>src/internal/resilience/resilience.go\<close>: \<^verbatim>\<open>Resilience\<close>.
  \<^descr> Admission, \<^verbatim>\<open>src/internal/upstream/admission.go\<close>. \<^verbatim>\<open>Admission\<close> has the atomic
    sections, \<^verbatim>\<open>Admission_Steps\<close> the step relation \<open>adm_step\<close> over program counters of
    all requests, \<^verbatim>\<open>Admission_Props\<close> accounting, bounds, fairness and the two races.
  \<^descr> Retry, \<^verbatim>\<open>src/internal/upstream/retry.go\<close>. \<^verbatim>\<open>Retry\<close> has the rule and the
    backoff on 64-bit integers, \<^verbatim>\<open>Budget\<close> the calls of the retry budget as one request
    sees them, \<^verbatim>\<open>Budget_Steps\<close> the same calls as interleaved atomic operations on shared
    buckets, and \<^verbatim>\<open>Pool_Do\<close> the driver \<^verbatim>\<open>Pool.Do\<close>.
  \<^descr> Affinity, \<^verbatim>\<open>src/internal/affinity\<close>. \<^verbatim>\<open>Affinity\<close> has the hash,
    \<^verbatim>\<open>Affinity_Log\<close> the fixed-point logarithm, \<^verbatim>\<open>Affinity_Rank\<close> the weighted
    rendezvous order (locale \<open>ranking\<close>), \<^verbatim>\<open>Affinity_Keys\<close> the keys of requests.
  \<^descr> Pools, \<^verbatim>\<open>src/internal/upstream\<close>. \<^verbatim>\<open>Backend\<close> (\<^verbatim>\<open>backend.go\<close>),
    \<^verbatim>\<open>Balancer\<close> and \<^verbatim>\<open>Balancer_Props\<close> (\<^verbatim>\<open>balancer.go\<close>, locale \<open>picker\<close>
    interpreted on every strategy), \<^verbatim>\<open>Pool\<close> and \<^verbatim>\<open>Pool_Reload\<close> (\<^verbatim>\<open>pool.go\<close>),
    \<^verbatim>\<open>Pool_Select\<close> (\<^verbatim>\<open>snapshot.go\<close>). Backends are cells of a store, because a pool
    and its snapshots share them.
  \<^descr> Router, \<^verbatim>\<open>src/internal/router\<close>. \<^verbatim>\<open>Paths\<close> (\<^verbatim>\<open>canonical.go\<close>),
    \<^verbatim>\<open>Hosts\<close> (\<^verbatim>\<open>host.go\<close>), \<^verbatim>\<open>Predicates\<close> (\<^verbatim>\<open>predicates.go\<close> and the
    subsumption rules of \<^verbatim>\<open>src/internal/config/lint_match.go\<close>), \<^verbatim>\<open>Router\<close>
    (\<^verbatim>\<open>router.go\<close>, \<^verbatim>\<open>matcher.go\<close>, \<^verbatim>\<open>location.go\<close>, \<^verbatim>\<open>explain.go\<close>);
    \<^verbatim>\<open>Router_Props\<close> relates the selection to an order on locations, \<^verbatim>\<open>Router_Explain\<close>
    the explanation to the selection, \<^verbatim>\<open>Router_Lint\<close> the lint rules to both.
  \<^descr> Client address, \<^verbatim>\<open>src/internal/clientaddr\<close>: \<^verbatim>\<open>Clientaddr\<close>.
  \<^descr> PROXY protocol, \<^verbatim>\<open>src/internal/proxyproto\<close>: \<^verbatim>\<open>Proxyproto\<close>, the readers of the
    text and binary headers and the writer, on the bytes of a connection.
  \<^descr> Stream proxy, \<^verbatim>\<open>src/internal/stream\<close>. \<^verbatim>\<open>Sni\<close> and \<^verbatim>\<open>Sni_Props\<close>
    (\<^verbatim>\<open>sni.go\<close>) read TLS records and the client hello and relate them to a printer of
    hellos; \<^verbatim>\<open>Stream\<close> and \<^verbatim>\<open>Stream_Props\<close> (\<^verbatim>\<open>alpn.go\<close>, \<^verbatim>\<open>server.go\<close>, \<^verbatim>\<open>tcp.go\<close>) have the route
    tables, the choice of a pool, the outbound header and the dialling of a backend;
    \<^verbatim>\<open>Udp\<close> (\<^verbatim>\<open>udp.go\<close>) has the table of sessions as a step relation.
  \<^descr> Failure attribution, \<^verbatim>\<open>src/internal/upstream\<close>: \<^verbatim>\<open>Attribution\<close> decides which
    errors of an attempt count against the backend.
  \<^descr> Access control, \<^verbatim>\<open>src/internal/rbac\<close>: \<^verbatim>\<open>Rbac\<close>.
  \<^descr> Cache, \<^verbatim>\<open>src/internal/cache\<close>. \<^verbatim>\<open>Cache_Entry\<close> (\<^verbatim>\<open>store.go\<close>) has
    entries and their sizes; \<^verbatim>\<open>Memstore\<close> (\<^verbatim>\<open>memstore.go\<close>) keeps the sharing between
    the linked list and the map as a heap of items and refines the abstract LRU list through the
    locale \<open>functional_refinement\<close>; \<^verbatim>\<open>Ranges\<close> has the byte ranges of
    \<^verbatim>\<open>range.go\<close>; \<^verbatim>\<open>Cachecontrol\<close> (\<^verbatim>\<open>policy.go\<close>) the directives, ages and
    dates; \<^verbatim>\<open>Cache_Vary\<close> (\<^verbatim>\<open>vary_security.go\<close>, \<^verbatim>\<open>cache.go\<close>) variant keys;
    \<^verbatim>\<open>Cache_Tags\<close> (\<^verbatim>\<open>tags.go\<close>) grouping tags; \<^verbatim>\<open>Cache_Policy\<close>
    (\<^verbatim>\<open>scalar_policy.go\<close>, \<^verbatim>\<open>route_policy.go\<close>, \<^verbatim>\<open>inspection.go\<close>) policies and
    their digests; \<^verbatim>\<open>Cache_Decision\<close> (\<^verbatim>\<open>cache.go\<close>, \<^verbatim>\<open>merge.go\<close>,
    \<^verbatim>\<open>validate.go\<close>) storing, reuse and the merge of a 304, with their contract in
    \<^verbatim>\<open>Cache_Props\<close>; \<^verbatim>\<open>Cache_Flight\<close> (\<^verbatim>\<open>fill.go\<close>, \<^verbatim>\<open>revalidate.go\<close>)
    the requests in flight as a step relation; \<^verbatim>\<open>Cache_Capture\<close> (\<^verbatim>\<open>http.go\<close>) the
    capturing writers and their budget.
  \<^descr> Middleware, \<^verbatim>\<open>src/internal/middleware\<close>. \<^verbatim>\<open>Ratelimit\<close>
    (\<^verbatim>\<open>ratelimit.go\<close>) has the sharded store of buckets and the keys; \<^verbatim>\<open>Cors\<close>
    (\<^verbatim>\<open>cors.go\<close>, \<^verbatim>\<open>preflight.go\<close>, \<^verbatim>\<open>responsepolicy.go\<close> and
    \<^verbatim>\<open>src/internal/config/validate_cors.go\<close>) has validation, preflights, grants and the
    writer of the final header.
  \<^descr> Egress, \<^verbatim>\<open>src/internal/egress\<close>. \<^verbatim>\<open>Egress\<close> (\<^verbatim>\<open>policy.go\<close>,
    \<^verbatim>\<open>normalize.go\<close>, \<^verbatim>\<open>http.go\<close>) has the allow-list and the guarded dial,
    \<^verbatim>\<open>Egress_Gen\<close> (\<^verbatim>\<open>generation.go\<close>, \<^verbatim>\<open>blocklog.go\<close>) the policy generations
    of a process and the throttled log.

  \<^bold>\<open>What the theorems show\<close>

  \<^item> State machines: the invariants of the circuit breaker and of the admission owner hold in
    every reachable state of every interleaving; stale results never change a newer generation;
    limits on probes, active and queued requests hold exactly; a slot passes to the longest
    waiting request, and the queue changes only by arrivals, grants, requests that give up and
    retirement. Over every interleaving the retry budget grants at most twice its percentage of
    the primaries plus three per accounting window.
  \<^item> Selection: the router implements the documented precedence, the balancers pick eligible
    backends with exact weighted shares, the rendezvous order moves only the keys of a removed
    backend, and a pick claims the backend it returns.
  \<^item> Refinement: the router's tables against an order on locations, the memory tier against an
    abstract LRU store, the ranking against sorting, the budget's status against its decisions
    and its interleaved calls, where nothing interrupts them, against its one-step ones.
  \<^item> Round trip: a PROXY header the gateway writes is read back as the same flow, and the bytes
    that follow it stay; a client hello is read back from any fragmentation into records, and
    the inspected bytes are replayed unchanged; a flow that crosses two gateways reaches the
    backend with the first client's addresses.
  \<^item> Accounting: every datagram session is closed exactly once and gives its slot back, a live
    session is never evicted, and only a backend's own failures count against it.
  \<^item> Safety: a client cannot choose its address, a rewrite cannot redirect to another host, a
    location the lint calls shadowed is never selected, an explanation names the predicate that
    rejected each location, authentication follows the digest.
  \<^item> Cache: a response is stored for others and reused only where a shared cache may, a variant
    is reused exactly for requests with the same values, a 304 refreshes an entry field by field, the
    directives count in any order with the shortest lifetime, and the digest of a policy
    identifies it. One request per key fetches, every waiter of a live leader is answered, and a
    stored capture holds every byte written while all captures stay within their budget.
  \<^item> Middleware and egress: the store of buckets stays bounded, no client or scope spends
    another's tokens, and the bucket given up is the least recently used; a response grants an
    origin exactly what is configured, once, whatever the upstream sent, and leaves other fields
    alone; the answer to a preflight stays within the bound validation promises, for ASCII
    origins; only destinations of the allow-list are dialled, the policy in force is the one
    published last, and a reload that keeps a generation keeps its decisions.
  \<^item> Termination and liveness: \<^verbatim>\<open>Pool.Do\<close> returns with every slot given back except one the
    adapter retains; an
    enabled access policy always leaves a token that can administer.
  \<^item> Defects found: a late probe result frees a slot of a newer half-open generation, a release
    loses a wake-up, a retired waiter releases a slot it never had, and the lint for
    non-canonical paths calls a prefix location dead that does match; two server names of a
    stream listener that differ only in case collide, and which one wins is not determined; a
    far Expires wraps the stale deadline; two cookie rules share a digest; a panic in the second
    look of a fill leader loses the fill lock; an egress decision is made on a name cut at a
    percent sign, and the uncut name is dialled; origins with IPv6 literals are refused; a retry
    claimed on a bucket that has been rotated out escapes the trailing window; an origin written
    with Kelvin signs is sent back longer than the estimate of the header block allows.
    The comments on authentication with access control off, on shared reuse for authenticated
    requests and on a storable recorder's body do not describe the code.

  \<^bold>\<open>Conventions and bounds\<close>

  Errors are values of datatypes, \<open>Inl\<close> of a sum or \<open>None\<close>. Counters whose
  overflow the code must survive are words (generations, hashes, the decimal parser, the
  backoff); sizes, weights and times, which configuration bounds, are integers. Loops are
  structural or have a termination proof; \<^verbatim>\<open>do_loop\<close> is a partial function in the
  option monad whose definedness is proved; the query parser's bound of 1024 pairs is the code's
  own. Code outside the repository is an argument: regular expressions, SHA-256, the address
  parsers (\<open>netlib\<close>, \<open>addrlib\<close>), DNS and dialers, the date and structured-field parsers
  (\<open>cachelib\<close>), token buckets (\<open>ratelib\<close>), answers of the disk tier and of client
  connections, and the builders of handlers. Case mapping and white space are those
  of ASCII, so a letter outside ASCII that Go maps to an ASCII one, such as the Kelvin sign, stands
  for itself; the exceptions are the PROXY reader, which knows all white space, the egress rules,
  where text outside ASCII goes through \<open>netlib\<close>, and the origins of CORS, where it goes
  through the argument \<open>low\<close>.

  \<^bold>\<open>Not modelled\<close>

  Handlers (proxy, FastCGI, static files), the network server with TLS and HTTP/3, the firewall,
  plugins and transcoding, which are I/O or third-party engines; the sockets, deadlines and
  relaying goroutines of the stream proxy and the reload of its listeners; of the cache its
  request path between the tiers and the origin, the disk tier, purging, route epochs and the
  commit of route policies; of the middleware compression, authentication wrappers and logging;
  decoding of the configuration and the validation of blocks no modelled part reads; health
  probes, discovery and the registry of pools, which drive the modelled pool from timers and
  network answers; the administration API and console; metrics, logs and support tools; the
  command line. Within the router, send timeouts, metric labels and the exchange registry; in the
  cache, the hooks that move evicted items to disk, which appear as lists of victims.
\<close>

end
